(* ===== verification/Prelude.thy ===== *)
theory Prelude
  imports Main "HOL-Library.Word" "HOL-Library.Char_ord" "HOL-Library.List_Lexorder"
    "HOL-Library.Product_Lexorder"
begin

text \<open>
  Shared vocabulary of the development: results of fallible code as sums (\<open>Inl\<close> the error),
  fallible operations on a state as functions to a result and the next state, SQL table
  statements over lists of rows, big-endian integers as byte lists, and the generic lemmas the
  component theories share. Nothing here models a file of the repository by itself.
\<close>

named_theorems result_simps \<open>unfolding of the error and state combinators\<close>
named_theorems eval_simps \<open>definitions a concrete input is evaluated with\<close>
named_theorems table_simps \<open>facts on SQL statements over row lists\<close>

type_synonym byte = "8 word"

section \<open>Results\<close>

text \<open>The \<open>?\<close> operator: stop at the first error, else go on with the value.\<close>

definition bindE :: "'e + 'a \<Rightarrow> ('a \<Rightarrow> 'e + 'b) \<Rightarrow> 'e + 'b" where
  "bindE m k = (case m of Inl e \<Rightarrow> Inl e | Inr x \<Rightarrow> k x)"

definition map_err :: "('e \<Rightarrow> 'f) \<Rightarrow> 'e + 'a \<Rightarrow> 'f + 'a" where
  "map_err f m = (case m of Inl e \<Rightarrow> Inl (f e) | Inr x \<Rightarrow> Inr x)"

definition ok_or :: "'e \<Rightarrow> 'a option \<Rightarrow> 'e + 'a" where
  "ok_or e m = (case m of None \<Rightarrow> Inl e | Some x \<Rightarrow> Inr x)"

definition guardE :: "'e \<Rightarrow> bool \<Rightarrow> 'e + unit" where
  "guardE e b = (if b then Inr () else Inl e)"

text \<open>\<open>Option::transpose\<close> after mapping a fallible function over an optional value.\<close>

definition traverse_opt :: "('a \<Rightarrow> 'e + 'b) \<Rightarrow> 'a option \<Rightarrow> 'e + 'b option" where
  "traverse_opt f m = (case m of None \<Rightarrow> Inr None | Some x \<Rightarrow> bindE (f x) (\<lambda>y. Inr (Some y)))"

text \<open>\<open>collect::<Result<Vec<_>, _>>()\<close>: the first error, or every value.\<close>

fun collect_results :: "('e + 'a) list \<Rightarrow> 'e + 'a list" where
  "collect_results [] = Inr []"
| "collect_results (r # rs) = bindE r (\<lambda>x. bindE (collect_results rs) (\<lambda>xs. Inr (x # xs)))"

lemma bindE_simps [simp, result_simps]:
  "bindE (Inl e) k = Inl e" "bindE (Inr x) k = k x"
  by (simp_all add: bindE_def)

lemma map_err_simps [simp, result_simps]:
  "map_err f (Inl e) = Inl (f e)" "map_err f (Inr x) = Inr x"
  by (simp_all add: map_err_def)

lemma ok_or_simps [simp, result_simps]:
  "ok_or e None = Inl e" "ok_or e (Some x) = Inr x"
  by (simp_all add: ok_or_def)

lemma guardE_simps [simp, result_simps]:
  "guardE e True = Inr ()" "guardE e False = Inl e"
  by (simp_all add: guardE_def)

lemma bindE_eq_Inr:
  "bindE m k = Inr y \<longleftrightarrow> (\<exists>x. m = Inr x \<and> k x = Inr y)"
  by (cases m) auto

lemma bindE_eq_Inl:
  "bindE m k = Inl e \<longleftrightarrow> m = Inl e \<or> (\<exists>x. m = Inr x \<and> k x = Inl e)"
  by (cases m) auto

lemma map_err_eq_Inr [simp]: "map_err f m = Inr x \<longleftrightarrow> m = Inr x"
  by (cases m) auto

lemma map_err_eq_Inl: "map_err f m = Inl e \<longleftrightarrow> (\<exists>d. m = Inl d \<and> e = f d)"
  by (cases m) auto

lemma ok_or_eq_Inr [simp]: "ok_or e m = Inr x \<longleftrightarrow> m = Some x"
  by (cases m) auto

lemma ok_or_eq_Inl: "ok_or e m = Inl d \<longleftrightarrow> m = None \<and> d = e"
  by (cases m) auto

lemma guardE_eq_Inr [simp]: "guardE e b = Inr u \<longleftrightarrow> b"
  by (cases b) auto

lemma traverse_opt_simps [simp]:
  "traverse_opt f None = Inr None"
  "traverse_opt f (Some x) = bindE (f x) (\<lambda>y. Inr (Some y))"
  by (simp_all add: traverse_opt_def)

lemma traverse_opt_eq_Inr:
  "traverse_opt f m = Inr r \<longleftrightarrow>
     (m = None \<and> r = None) \<or> (\<exists>x y. m = Some x \<and> f x = Inr y \<and> r = Some y)"
  by (cases m) (auto simp: bindE_eq_Inr)

lemma collect_results_Inr:
  "collect_results rs = Inr xs \<longleftrightarrow> rs = map Inr xs"
  by (induction rs arbitrary: xs) (auto simp: bindE_eq_Inr Cons_eq_map_conv)

lemma collect_results_map_Inr [simp]: "collect_results (map (\<lambda>x. Inr (f x)) xs) = Inr (map f xs)"
  by (induction xs) auto

section \<open>Fallible operations on a state\<close>

text \<open>
  An operation takes the state and returns its result with the state it leaves. An error keeps
  whatever the operation had written before it (each SQL statement outside a transaction commits
  by itself); \<open>atomically\<close> is a transaction, which an error rolls back.
\<close>

type_synonym ('s, 'e, 'a) op = "'s \<Rightarrow> ('e + 'a) \<times> 's"

definition retS :: "'a \<Rightarrow> ('s, 'e, 'a) op" where
  "retS x s = (Inr x, s)"

definition failS :: "'e \<Rightarrow> ('s, 'e, 'a) op" where
  "failS e s = (Inl e, s)"

definition liftE :: "'e + 'a \<Rightarrow> ('s, 'e, 'a) op" where
  "liftE m s = (m, s)"

definition bindS :: "('s, 'e, 'a) op \<Rightarrow> ('a \<Rightarrow> ('s, 'e, 'b) op) \<Rightarrow> ('s, 'e, 'b) op" where
  "bindS m k s = (case m s of (Inl e, t) \<Rightarrow> (Inl e, t) | (Inr x, t) \<Rightarrow> k x t)"

definition getS :: "('s, 'e, 's) op" where
  "getS s = (Inr s, s)"

definition modifyS :: "('s \<Rightarrow> 's) \<Rightarrow> ('s, 'e, unit) op" where
  "modifyS f s = (Inr (), f s)"

definition updateE :: "('s \<Rightarrow> 'e + 's) \<Rightarrow> ('s, 'e, unit) op" where
  "updateE f s = (case f s of Inl e \<Rightarrow> (Inl e, s) | Inr t \<Rightarrow> (Inr (), t))"

definition atomically :: "('s, 'e, 'a) op \<Rightarrow> ('s, 'e, 'a) op" where
  "atomically m s = (case m s of (Inl e, t) \<Rightarrow> (Inl e, s) | (Inr x, t) \<Rightarrow> (Inr x, t))"

lemma op_simps [simp, result_simps]:
  "retS x s = (Inr x, s)" "failS e s = (Inl e, s)" "liftE m s = (m, s)"
  "getS s = (Inr s, s)" "modifyS f s = (Inr (), f s)"
  by (simp_all add: retS_def failS_def liftE_def getS_def modifyS_def)

lemma bindS_Inr [simp, result_simps]: "m s = (Inr x, t) \<Longrightarrow> bindS m k s = k x t"
  by (simp add: bindS_def)

lemma bindS_Inl [simp, result_simps]: "m s = (Inl e, t) \<Longrightarrow> bindS m k s = (Inl e, t)"
  by (simp add: bindS_def)

lemma bindS_liftE: "bindS (liftE m) k s = (case m of Inl e \<Rightarrow> (Inl e, s) | Inr x \<Rightarrow> k x s)"
  by (simp add: bindS_def split: sum.split)

lemma bindS_eq_Inr:
  "bindS m k s = (Inr y, u) \<longleftrightarrow> (\<exists>x t. m s = (Inr x, t) \<and> k x t = (Inr y, u))"
  by (auto simp: bindS_def split: prod.splits sum.splits)

lemma bindS_cases:
  assumes "bindS m k s = (r, u)"
  obtains (fail) e where "m s = (Inl e, u)" "r = Inl e"
  | (go) x t where "m s = (Inr x, t)" "k x t = (r, u)"
  using assms by (auto simp: bindS_def split: prod.splits sum.splits)

lemma atomically_Inl: "atomically m s = (Inl e, t) \<Longrightarrow> t = s"
  by (auto simp: atomically_def split: prod.splits sum.splits)

lemma atomically_Inr: "atomically m s = (Inr x, t) \<longleftrightarrow> m s = (Inr x, t)"
  by (auto simp: atomically_def split: prod.splits sum.splits)

text \<open>A property of the state that every primitive step keeps is kept by the composed operation.\<close>

definition keeps :: "('s \<Rightarrow> bool) \<Rightarrow> ('s, 'e, 'a) op \<Rightarrow> bool" where
  "keeps I m \<longleftrightarrow> (\<forall>s r t. I s \<longrightarrow> m s = (r, t) \<longrightarrow> I t)"

lemma keepsD: "keeps I m \<Longrightarrow> I s \<Longrightarrow> m s = (r, t) \<Longrightarrow> I t"
  by (auto simp: keeps_def)

lemma keeps_pure [intro]:
  "keeps I (retS x)" "keeps I (failS e)" "keeps I (liftE r)" "keeps I getS"
  by (auto simp: keeps_def)

lemma keeps_bindS [intro]: "keeps I m \<Longrightarrow> (\<And>x. keeps I (k x)) \<Longrightarrow> keeps I (bindS m k)"
  unfolding keeps_def by (metis bindS_cases)

lemma keeps_atomically [intro]: "keeps I m \<Longrightarrow> keeps I (atomically m)"
  unfolding keeps_def atomically_def by (auto split: prod.splits sum.splits)

lemma keepsI: "(\<And>s r t. I s \<Longrightarrow> m s = (r, t) \<Longrightarrow> I t) \<Longrightarrow> keeps I m"
  by (auto simp: keeps_def)

lemma atomically_keepsI:
  "(\<And>s x t. I s \<Longrightarrow> m s = (Inr x, t) \<Longrightarrow> I t) \<Longrightarrow> keeps I (atomically m)"
  by (rule keepsI) (auto simp: atomically_def split: prod.splits sum.splits)

section \<open>SQL statements over row lists\<close>

text \<open>
  A table is the list of its rows in insertion order. \<open>UPDATE .. SET f WHERE P\<close> is
  \<open>upd P f\<close>, \<open>DELETE .. WHERE P\<close> is \<open>del P\<close>, and \<open>cnt P\<close> is the number of rows a statement
  touches. \<open>newest_first k\<close> is \<open>ORDER BY k DESC\<close>: text compares byte by byte (SQLite's
  default collation), which the list order of the library is.
\<close>

definition upd :: "('r \<Rightarrow> bool) \<Rightarrow> ('r \<Rightarrow> 'r) \<Rightarrow> 'r list \<Rightarrow> 'r list" where
  "upd P f rows = map (\<lambda>r. if P r then f r else r) rows"

definition del :: "('r \<Rightarrow> bool) \<Rightarrow> 'r list \<Rightarrow> 'r list" where
  "del P rows = filter (\<lambda>r. \<not> P r) rows"

definition cnt :: "('r \<Rightarrow> bool) \<Rightarrow> 'r list \<Rightarrow> nat" where
  "cnt P rows = length (filter P rows)"

definition newest_first :: "('r \<Rightarrow> 'k::linorder) \<Rightarrow> 'r list \<Rightarrow> 'r list" where
  "newest_first k rows = rev (sort_key k rows)"

lemma set_upd [table_simps]: "set (upd P f rows) = {if P r then f r else r | r. r \<in> set rows}"
  by (auto simp: upd_def)

lemma ball_upd [table_simps]:
  "(\<forall>r\<in>set (upd P f rows). Q r) \<longleftrightarrow> (\<forall>r\<in>set rows. Q (if P r then f r else r))"
  by (auto simp: upd_def)

lemma map_upd [table_simps]: "(\<And>r. P r \<Longrightarrow> g (f r) = g r) \<Longrightarrow> map g (upd P f rows) = map g rows"
  by (auto simp: upd_def)

lemma set_del [table_simps]: "set (del P rows) = {r \<in> set rows. \<not> P r}"
  by (auto simp: del_def)

lemma length_upd [simp]: "length (upd P f rows) = length rows"
  by (simp add: upd_def)

lemma distinct_map_del: "distinct (map g rows) \<Longrightarrow> distinct (map g (del P rows))"
  by (induction rows) (auto simp: del_def)

lemma cnt_append [simp]: "cnt P (xs @ ys) = cnt P xs + cnt P ys"
  by (simp add: cnt_def)

lemma cnt_simps [simp]:
  "cnt P [] = 0" "cnt P (x # xs) = (if P x then 1 else 0) + cnt P xs"
  by (simp_all add: cnt_def)

lemma cnt_0_iff: "cnt P rows = 0 \<longleftrightarrow> (\<forall>r\<in>set rows. \<not> P r)"
  by (auto simp: cnt_def filter_empty_conv)

lemma cnt_upd_le: "(\<And>r. P r \<Longrightarrow> Q (f r) \<Longrightarrow> Q r) \<Longrightarrow> cnt Q (upd P f rows) \<le> cnt Q rows"
  by (induction rows) (auto simp: upd_def)

lemma cnt_upd_same:
  "(\<And>r. r \<in> set rows \<Longrightarrow> P r \<Longrightarrow> Q (f r) = Q r) \<Longrightarrow> cnt Q (upd P f rows) = cnt Q rows"
  by (induction rows) (auto simp: upd_def)

lemma cnt_del_le: "cnt Q (del P rows) \<le> cnt Q rows"
  by (induction rows) (auto simp: del_def)

lemma cnt_del_same:
  "(\<And>r. r \<in> set rows \<Longrightarrow> Q r \<Longrightarrow> \<not> P r) \<Longrightarrow> cnt Q (del P rows) = cnt Q rows"
  by (induction rows) (auto simp: del_def)

lemma cnt_mono: "(\<And>r. r \<in> set rows \<Longrightarrow> P r \<Longrightarrow> Q r) \<Longrightarrow> cnt P rows \<le> cnt Q rows"
  by (induction rows) (auto simp: le_SucI)

lemma upd_none: "cnt P rows = 0 \<Longrightarrow> upd P f rows = rows"
  by (auto simp: cnt_0_iff upd_def intro!: map_idI)

lemma cnt_le_1_unique: "cnt P xs \<le> 1 \<Longrightarrow> x \<in> set xs \<Longrightarrow> y \<in> set xs \<Longrightarrow> P x \<Longrightarrow> P y \<Longrightarrow> x = y"
  by (induction xs) (auto simp: cnt_0_iff split: if_splits)

lemma distinct_map_filter_del: "distinct (map g (filter F rs)) \<Longrightarrow> distinct (map g (filter F (del Q rs)))"
  by (induction rs) (auto simp: del_def)

lemma find_SomeD: "find Q xs = Some x \<Longrightarrow> x \<in> set xs \<and> Q x"
  by (induction xs) (auto split: if_splits)

lemmas [eval_simps] = collect_results.simps updateE_def atomically_def bindS_def upd_def del_def
  cnt_def newest_first_def

lemma set_newest_first [simp]: "set (newest_first k rows) = set rows"
  by (simp add: newest_first_def)

lemma length_newest_first [simp]: "length (newest_first k rows) = length rows"
  by (simp add: newest_first_def)

lemma newest_first_hd_greatest:
  assumes "newest_first k rows = r # rest" and "x \<in> set rows"
  shows "k x \<le> k r"
proof -
  have "sort_key k rows = rev rest @ [r]"
    using assms(1) by (simp add: newest_first_def)
  moreover have "sorted (map k (sort_key k rows))" by simp
  ultimately have "\<forall>y\<in>set (rev rest). k y \<le> k r"
    by (simp add: sorted_append)
  moreover have "x \<in> set (rev rest) \<or> x = r"
    using assms(2) \<open>sort_key k rows = rev rest @ [r]\<close>
    by (metis set_sort set_append Un_iff empty_iff empty_set set_ConsD)
  ultimately show ?thesis by auto
qed

end
