(* ===== verification/Rust_Text.thy ===== *)
theory Rust_Text
  imports Prelude
begin

text \<open>
  Rust strings. A \<open>str\<close> is its UTF-8 bytes, so the model uses the library's \<open>string\<close> (a list
  of 8-bit characters): \<open>len()\<close> is the length, comparison is bytewise, and \<open>chars()\<close> groups the
  bytes into scalar values (\<open>scalars\<close>). The operations below are those of the standard library
  that the repository calls. \<open>scalars\<close> is total; on bytes that are not UTF-8 (no \<open>str\<close> holds
  any) it still splits the list, so concatenating the groups always gives the string back.
\<close>

section \<open>Bytes\<close>

definition as_bytes :: "string \<Rightarrow> byte list" where
  "as_bytes s = map (\<lambda>c. of_nat (of_char c)) s"

definition of_bytes :: "byte list \<Rightarrow> string" where
  "of_bytes bs = map (\<lambda>b. char_of (unat b)) bs"

lemma unat_byte_of_char [simp]: "unat (of_nat (of_char c) :: byte) = of_char c"
  by (simp add: unat_of_nat)

lemma of_bytes_as_bytes [simp]: "of_bytes (as_bytes s) = s"
  by (simp add: of_bytes_def as_bytes_def comp_def)

lemma as_bytes_inject [simp]: "as_bytes s = as_bytes t \<longleftrightarrow> s = t"
  by (metis of_bytes_as_bytes)

lemma length_as_bytes [simp]: "length (as_bytes s) = length s"
  by (simp add: as_bytes_def)

section \<open>Scalar values\<close>

definition ord_of :: "char \<Rightarrow> nat" where
  "ord_of c = of_char c"

text \<open>Bytes that follow a lead byte in UTF-8.\<close>

definition trailing :: "char \<Rightarrow> nat" where
  "trailing c = (let n = ord_of c in
     if n < 192 then 0 else if n < 224 then 1 else if n < 240 then 2 else 3)"

fun scalars :: "string \<Rightarrow> string list" where
  "scalars [] = []"
| "scalars (c # cs) = (c # take (trailing c) cs) # scalars (drop (trailing c) cs)"

definition code_point :: "string \<Rightarrow> nat" where
  "code_point g = (case map ord_of g of
     [a] \<Rightarrow> a
   | [a, b] \<Rightarrow> (a - 192) * 64 + (b - 128)
   | [a, b, c] \<Rightarrow> (a - 224) * 4096 + (b - 128) * 64 + (c - 128)
   | [a, b, c, d] \<Rightarrow> (a - 240) * 262144 + (b - 128) * 4096 + (c - 128) * 64 + (d - 128)
   | _ \<Rightarrow> 65533)"

definition chars :: "string \<Rightarrow> nat list" where
  "chars s = map code_point (scalars s)"

definition is_control :: "nat \<Rightarrow> bool" where
  "is_control n \<longleftrightarrow> n < 32 \<or> (127 \<le> n \<and> n < 160)"

definition is_whitespace :: "nat \<Rightarrow> bool" where
  "is_whitespace n \<longleftrightarrow> (9 \<le> n \<and> n \<le> 13) \<or> n = 32 \<or> n = 133 \<or> n = 160 \<or> n = 5760
     \<or> (8192 \<le> n \<and> n \<le> 8202) \<or> n = 8232 \<or> n = 8233 \<or> n = 8239 \<or> n = 8287 \<or> n = 12288"

definition is_ascii_digit :: "nat \<Rightarrow> bool" where
  "is_ascii_digit n \<longleftrightarrow> 48 \<le> n \<and> n \<le> 57"

definition is_ascii_uppercase :: "nat \<Rightarrow> bool" where
  "is_ascii_uppercase n \<longleftrightarrow> 65 \<le> n \<and> n \<le> 90"

definition is_ascii_alphanumeric :: "nat \<Rightarrow> bool" where
  "is_ascii_alphanumeric n \<longleftrightarrow> is_ascii_digit n \<or> is_ascii_uppercase n \<or> (97 \<le> n \<and> n \<le> 122)"

definition is_blank :: "string \<Rightarrow> bool" where
  "is_blank g \<longleftrightarrow> is_whitespace (code_point g)"

definition trim_start :: "string \<Rightarrow> string" where
  "trim_start s = concat (dropWhile is_blank (scalars s))"

definition trim :: "string \<Rightarrow> string" where
  "trim s = concat (rev (dropWhile is_blank (rev (dropWhile is_blank (scalars s)))))"

text \<open>The bytes of a well-formed string (RFC 3629); what \<open>String::from_utf8\<close> accepts.\<close>

definition cont_in :: "nat \<Rightarrow> nat \<Rightarrow> char \<Rightarrow> bool" where
  "cont_in lo hi c \<longleftrightarrow> lo \<le> ord_of c \<and> ord_of c \<le> hi"

definition scalar_ok :: "string \<Rightarrow> bool" where
  "scalar_ok g = (case g of
     [a] \<Rightarrow> ord_of a < 128
   | [a, b] \<Rightarrow> cont_in 194 223 a \<and> cont_in 128 191 b
   | [a, b, c] \<Rightarrow> cont_in 224 239 a \<and> cont_in 128 191 c
       \<and> cont_in (if ord_of a = 224 then 160 else 128) (if ord_of a = 237 then 159 else 191) b
   | [a, b, c, d] \<Rightarrow> cont_in 240 244 a \<and> cont_in 128 191 c \<and> cont_in 128 191 d
       \<and> cont_in (if ord_of a = 240 then 144 else 128) (if ord_of a = 244 then 143 else 191) b
   | _ \<Rightarrow> False)"

definition utf8_valid :: "string \<Rightarrow> bool" where
  "utf8_valid s \<longleftrightarrow> (\<forall>g\<in>set (scalars s). scalar_ok g)"

definition from_utf8 :: "byte list \<Rightarrow> string option" where
  "from_utf8 bs = (let s = of_bytes bs in if utf8_valid s then Some s else None)"

lemma from_utf8_as_bytes [simp]: "utf8_valid s \<Longrightarrow> from_utf8 (as_bytes s) = Some s"
  by (simp add: from_utf8_def Let_def)

lemma concat_scalars [simp]: "concat (scalars s) = s"
  by (induction s rule: scalars.induct) auto

lemma scalars_Nil_iff [simp]: "scalars s = [] \<longleftrightarrow> s = []"
  by (cases s) auto

text \<open>A list of groups each as long as its lead byte says is what \<open>scalars\<close> makes of its
  concatenation; the groups of a string are such a list, but for a truncated last one.\<close>

definition full_group :: "string \<Rightarrow> bool" where
  "full_group g \<longleftrightarrow> g \<noteq> [] \<and> length (tl g) = trailing (hd g)"

definition short_group :: "string \<Rightarrow> bool" where
  "short_group g \<longleftrightarrow> g \<noteq> [] \<and> length (tl g) \<le> trailing (hd g)"

fun grouped :: "string list \<Rightarrow> bool" where
  "grouped [] = True"
| "grouped [g] = short_group g"
| "grouped (g # h # gs) = (full_group g \<and> grouped (h # gs))"

lemma grouped_Cons: "grouped (g # gs) \<longleftrightarrow> (if gs = [] then short_group g else full_group g \<and> grouped gs)"
  by (cases gs) auto

lemma grouped_scalars: "grouped (scalars s)"
  by (induction s rule: scalars.induct)
    (auto simp: grouped_Cons short_group_def full_group_def)

lemma scalars_concat: "grouped gs \<Longrightarrow> scalars (concat gs) = gs"
proof (induction gs)
  case Nil
  then show ?case by simp
next
  case (Cons g gs)
  then obtain c cs where g: "g = c # cs"
    by (cases g) (auto simp: grouped_Cons short_group_def full_group_def split: if_splits)
  show ?case
  proof (cases "gs = []")
    case True
    with Cons g show ?thesis by (simp add: grouped_Cons short_group_def)
  next
    case False
    with Cons g show ?thesis by (simp add: grouped_Cons full_group_def)
  qed
qed

lemma grouped_drop: "grouped gs \<Longrightarrow> grouped (dropWhile P gs)"
  by (induction gs) (auto simp: grouped_Cons split: if_splits)

lemma full_imp_short: "full_group g \<Longrightarrow> short_group g"
  by (auto simp: full_group_def short_group_def)

lemma grouped_prefix: "grouped (xs @ ys) \<Longrightarrow> grouped xs"
  by (induction xs) (auto simp: grouped_Cons full_imp_short split: if_splits)

lemma grouped_trim: "grouped gs \<Longrightarrow> grouped (rev (dropWhile P (rev gs)))"
  by (metis dropWhile_eq_drop grouped_prefix rev_append rev_rev_ident takeWhile_dropWhile_id)

lemma scalars_trim:
  "scalars (trim s) = rev (dropWhile is_blank (rev (dropWhile is_blank (scalars s))))"
  unfolding trim_def by (intro scalars_concat grouped_trim grouped_drop grouped_scalars)

lemma dropWhile_both_idem:
  "(let t = rev (dropWhile P (rev (dropWhile P xs))) in
    rev (dropWhile P (rev (dropWhile P t))) = t)"
proof -
  let ?m = "dropWhile P xs"
  let ?t = "rev (dropWhile P (rev ?m))"
  have "dropWhile P ?t = ?t"
  proof (cases "?t")
    case Nil
    then show ?thesis by (simp only: dropWhile.simps)
  next
    case (Cons y ys)
    then have "?m = y # ys @ rev (takeWhile P (rev ?m))"
      by (metis append_Cons rev_append rev_rev_ident takeWhile_dropWhile_id)
    then have "\<not> P y"
      by (metis hd_dropWhile list.distinct(1) list.sel(1))
    with Cons show ?thesis by simp
  qed
  moreover have "dropWhile P (rev ?t) = rev ?t"
    by (simp only: rev_rev_ident dropWhile_idem)
  ultimately show ?thesis by (simp only: Let_def rev_rev_ident)
qed

lemma trim_idem [simp]: "trim (trim s) = trim s"
  using dropWhile_both_idem [of is_blank "scalars s"]
  by (subst trim_def) (simp add: scalars_trim Let_def, simp add: trim_def)

lemma chars_Nil [simp]: "chars [] = []"
  by (simp add: chars_def)

lemma ascii_scalars: "\<forall>c\<in>set s. ord_of c < 128 \<Longrightarrow> scalars s = map (\<lambda>c. [c]) s"
  by (induction s) (auto simp: trailing_def Let_def)

lemma trim_no_blank:
  assumes "\<forall>c\<in>set s. ord_of c < 128 \<and> \<not> is_whitespace (ord_of c)"
  shows "trim s = s"
proof -
  have sc: "scalars s = map (\<lambda>c. [c]) s" using assms by (auto intro: ascii_scalars)
  have nb: "\<forall>g\<in>set (scalars s). \<not> is_blank g"
    using assms by (auto simp: sc is_blank_def code_point_def)
  then have "dropWhile is_blank (scalars s) = scalars s"
    by (cases "scalars s") auto
  moreover have "\<forall>g\<in>set (rev (scalars s)). \<not> is_blank g"
    using nb by simp
  then have "dropWhile is_blank (rev (scalars s)) = rev (scalars s)"
    by (metis dropWhile_eq_self_iff hd_in_set)
  ultimately show ?thesis by (simp add: trim_def)
qed

section \<open>Prefixes, splitting, ASCII case\<close>

definition starts_with :: "string \<Rightarrow> string \<Rightarrow> bool" where
  "starts_with s p \<longleftrightarrow> take (length p) s = p"

definition strip_prefix :: "'a list \<Rightarrow> 'a list \<Rightarrow> 'a list option" where
  "strip_prefix s p = (if take (length p) s = p then Some (drop (length p) s) else None)"

fun split_on :: "char \<Rightarrow> string \<Rightarrow> string list" where
  "split_on c [] = [[]]"
| "split_on c (x # xs) = (if x = c then [] # split_on c xs
     else (case split_on c xs of [] \<Rightarrow> [[x]] | y # ys \<Rightarrow> (x # y) # ys))"

fun split_once :: "char \<Rightarrow> string \<Rightarrow> (string \<times> string) option" where
  "split_once c [] = None"
| "split_once c (x # xs) = (if x = c then Some ([], xs)
     else map_option (\<lambda>(a, b). (x # a, b)) (split_once c xs))"

definition trim_end_matches :: "char \<Rightarrow> string \<Rightarrow> string" where
  "trim_end_matches c s = rev (dropWhile (\<lambda>x. x = c) (rev s))"

definition ascii_lower_char :: "char \<Rightarrow> char" where
  "ascii_lower_char c = (if is_ascii_uppercase (ord_of c) then char_of (ord_of c + 32) else c)"

definition to_ascii_lowercase :: "string \<Rightarrow> string" where
  "to_ascii_lowercase s = map ascii_lower_char s"

definition eq_ignore_ascii_case :: "string \<Rightarrow> string \<Rightarrow> bool" where
  "eq_ignore_ascii_case a b \<longleftrightarrow> to_ascii_lowercase a = to_ascii_lowercase b"

definition contains :: "string \<Rightarrow> string \<Rightarrow> bool" where
  "contains s p \<longleftrightarrow> (\<exists>i\<in>set [0..<Suc (length s)]. take (length p) (drop i s) = p)"

lemma strip_prefix_append [simp]: "strip_prefix (p @ s) p = Some s"
  by (simp add: strip_prefix_def)

lemma strip_prefix_Some: "strip_prefix s p = Some r \<longleftrightarrow> s = p @ r"
  by (auto simp: strip_prefix_def) (metis append_take_drop_id)

lemma strip_prefix_None: "strip_prefix s p = None \<longleftrightarrow> (\<nexists>r. s = p @ r)"
  by (metis not_None_eq strip_prefix_Some)

lemma starts_with_iff: "starts_with s p \<longleftrightarrow> (\<exists>r. s = p @ r)"
  unfolding starts_with_def by (metis append_eq_conv_conj append_take_drop_id)

lemma split_on_not_Nil [simp]: "split_on c s \<noteq> []"
  by (cases s) (auto split: list.splits)

lemma split_on_no_sep: "c \<notin> set s \<Longrightarrow> split_on c s = [s]"
  by (induction s) auto

lemmas [eval_simps] = ord_of_def trailing_def code_point_def chars_def is_control_def
  is_whitespace_def is_ascii_digit_def is_ascii_uppercase_def is_ascii_alphanumeric_def
  is_blank_def trim_start_def trim_def starts_with_def strip_prefix_def trim_end_matches_def
  ascii_lower_char_def to_ascii_lowercase_def eq_ignore_ascii_case_def

lemma split_once_append: "c \<notin> set a \<Longrightarrow> split_once c (a @ c # b) = Some (a, b)"
  by (induction a) auto

end
