(* ===== verification/Platform.thy ===== *)
theory Platform
  imports Rust_Text
begin

text \<open>
  The code outside the repository that the modelled parts call: the ciphers and hashes
  (crates chacha20poly1305, hkdf, hmac, sha2), base64 and hex, the url parser, and chrono's
  RFC 3339 rendering and parsing of instants, and the JSON of the key check value file. It is one record of functions, an argument of every
  definition that uses it. What the code relies on is stated as predicates of that record, each a
  documented behaviour of the crate; theorems that need one name it as a hypothesis.
  A second record holds what the environment draws for one call: uuids, nonces, random bytes, clock readings and which file writes fail. The \<open>i\<close>-th
  value of a call is the function's value at \<open>i\<close>.
\<close>

text \<open>The parts of a parsed URL the code looks at.\<close>

record url =
  url_scheme :: string
  url_host :: "string option"
  url_username :: string
  url_password :: "string option"
  url_query :: "string option"
  url_fragment :: "string option"
  url_path :: string

text \<open>\<open>aead_encrypt key nonce msg aad\<close> and \<open>aead_decrypt key nonce ciphertext aad\<close>;
  \<open>hkdf_sha256 salt ikm info\<close> (32 bytes out); \<open>hmac_sha256 key msg\<close>. An instant is the number
  of nanoseconds since the epoch.\<close>

record platform =
  aead_encrypt :: "byte list \<Rightarrow> byte list \<Rightarrow> byte list \<Rightarrow> byte list \<Rightarrow> byte list option"
  aead_decrypt :: "byte list \<Rightarrow> byte list \<Rightarrow> byte list \<Rightarrow> byte list \<Rightarrow> byte list option"
  hkdf_sha256 :: "byte list \<Rightarrow> byte list \<Rightarrow> byte list \<Rightarrow> byte list"
  hmac_sha256 :: "byte list \<Rightarrow> byte list \<Rightarrow> byte list"
  sha256 :: "byte list \<Rightarrow> byte list"
  b64_encode :: "byte list \<Rightarrow> string"
  b64_decode :: "string \<Rightarrow> byte list option"
  hex_encode :: "byte list \<Rightarrow> string"
  url_parse :: "string \<Rightarrow> url option"
  to_rfc3339 :: "int \<Rightarrow> string"
  parse_rfc3339 :: "string \<Rightarrow> int option"
  kcv_json :: "string \<Rightarrow> string \<Rightarrow> string"
  kcv_of_json :: "string \<Rightarrow> string option option"

record draws =
  uuid :: "nat \<Rightarrow> string"
  nonce :: "nat \<Rightarrow> byte list"
  entropy :: "nat \<Rightarrow> byte list"
  clock :: "nat \<Rightarrow> int"
  io_fails :: "nat \<Rightarrow> bool"

text \<open>
  ChaCha20-Poly1305: the ciphertext is the message plus a 16-byte tag; decryption under the same
  key, nonce and associated data gives the message back, and accepts only what encryption makes.
\<close>

definition aead_laws :: "platform \<Rightarrow> bool" where
  "aead_laws P \<longleftrightarrow>
     (\<forall>k n m a c. aead_encrypt P k n m a = Some c \<longrightarrow>
        length c = length m + 16 \<and> aead_decrypt P k n c a = Some m)
     \<and> (\<forall>k n m a c. aead_decrypt P k n c a = Some m \<longrightarrow> aead_encrypt P k n m a = Some c)"

text \<open>Encryption fails only on messages beyond the cipher's length limit (256 GiB).\<close>

definition aead_total :: "platform \<Rightarrow> bool" where
  "aead_total P \<longleftrightarrow> (\<forall>k n m a. length m < 2 ^ 38 - 64 \<longrightarrow> aead_encrypt P k n m a \<noteq> None)"

text \<open>Standard base64: decoding inverts encoding, and encodings hold no white space.\<close>

definition b64_laws :: "platform \<Rightarrow> bool" where
  "b64_laws P \<longleftrightarrow> (\<forall>bs. b64_decode P (b64_encode P bs) = Some bs
     \<and> (\<forall>c\<in>set (b64_encode P bs). ord_of c < 128 \<and> \<not> is_whitespace (ord_of c)))"

text \<open>
  An instant of the years 1970 to 9999 rendered as RFC 3339 text parses back to itself.
  \<open>NANOS\<close> is one second.
\<close>

definition NANOS :: int where "NANOS = 1000000000"

definition instant_ok :: "int \<Rightarrow> bool" where
  "instant_ok t \<longleftrightarrow> 0 \<le> t \<and> t < 253402300800 * NANOS"

definition clock_laws :: "platform \<Rightarrow> bool" where
  "clock_laws P \<longleftrightarrow> (\<forall>t. instant_ok t \<longrightarrow> parse_rfc3339 P (to_rfc3339 P t) = Some t)"

text \<open>
  serde_json: the object \<open>{v, kcv, source}\<close> printed (with a newline after it) parses, and its
  \<open>kcv\<close> member is the text it was printed with. \<open>None\<close> is text that is no JSON,
  \<open>Some None\<close> JSON without a text \<open>kcv\<close>.
\<close>

definition json_laws :: "platform \<Rightarrow> bool" where
  "json_laws P \<longleftrightarrow> (\<forall>kcv src. kcv_of_json P (kcv_json P kcv src @ [CHR 0x0A]) = Some (Some kcv))"

text \<open>Hex text of the first 16 bytes of a mac is not empty.\<close>

definition hex_laws :: "platform \<Rightarrow> bool" where
  "hex_laws P \<longleftrightarrow> (\<forall>bs. length (hex_encode P bs) = 2 * length bs)
     \<and> (\<forall>k m. length (hmac_sha256 P k m) = 32) \<and> (\<forall>s k i. length (hkdf_sha256 P s k i) = 32)"

lemma aead_open_seal:
  "aead_laws P \<Longrightarrow> aead_encrypt P k n m a = Some c \<Longrightarrow> aead_decrypt P k n c a = Some m"
  unfolding aead_laws_def by blast

lemma aead_seal_open:
  "aead_laws P \<Longrightarrow> aead_decrypt P k n c a = Some m \<Longrightarrow> aead_encrypt P k n m a = Some c"
  unfolding aead_laws_def by blast

lemma aead_length:
  "aead_laws P \<Longrightarrow> aead_encrypt P k n m a = Some c \<Longrightarrow> length c = length m + 16"
  unfolding aead_laws_def by blast

lemma b64_round: "b64_laws P \<Longrightarrow> b64_decode P (trim (b64_encode P bs)) = Some bs"
  by (simp add: b64_laws_def trim_no_blank)

lemma clock_round [simp]: "clock_laws P \<Longrightarrow> instant_ok t \<Longrightarrow> parse_rfc3339 P (to_rfc3339 P t) = Some t"
  by (simp add: clock_laws_def)

end
