(* ===== verification/Content_Crypto.thy ===== *)
theory Content_Crypto
  imports Platform
begin

text \<open>
  crates/core/crypto/src/content.rs: where a sealed value lives (\<open>content_context\<close> and its
  canonical associated data), the keys of a store's cipher, and the TEXT and BLOB envelopes.
  The cipher, the key derivation and base64 are the platform's. A random nonce is an argument.
\<close>

section \<open>Length-prefixed parts\<close>

text \<open>\<open>(n as u64).to_be_bytes()\<close> for 8 bytes, \<open>(n as u32).to_be_bytes()\<close> for 4.\<close>

fun be_bytes :: "nat \<Rightarrow> nat \<Rightarrow> byte list" where
  "be_bytes 0 n = []"
| "be_bytes (Suc k) n = be_bytes k (n div 256) @ [of_nat n]"

definition be_nat :: "byte list \<Rightarrow> nat" where
  "be_nat bs = foldl (\<lambda>a b. a * 256 + unat b) 0 bs"

lemma length_be_bytes [simp]: "length (be_bytes k n) = k"
  by (induction k arbitrary: n) auto

lemma be_nat_be_bytes: "be_nat (be_bytes k n) = n mod 256 ^ k"
proof (induction k arbitrary: n)
  case 0
  then show ?case by (simp add: be_nat_def)
next
  case (Suc k)
  have "be_nat (be_bytes (Suc k) n) = (n div 256 mod 256 ^ k) * 256 + n mod 256"
    using Suc [of "n div 256"] by (simp add: be_nat_def unat_of_nat)
  also have "\<dots> = n mod (256 * 256 ^ k)"
    by (simp add: mod_mult2_eq)
  finally show ?case by simp
qed

lemma be_nat_round: "n < 256 ^ k \<Longrightarrow> be_nat (be_bytes k n) = n"
  by (simp add: be_nat_be_bytes)

lemma be_limit: "(256::nat) ^ 8 = 2 ^ 64"
  by simp

lemma be_bytes_inject: "m < 256 ^ k \<Longrightarrow> n < 256 ^ k \<Longrightarrow> be_bytes k m = be_bytes k n \<longleftrightarrow> m = n"
  by (metis be_nat_round)

definition push_part :: "byte list \<Rightarrow> byte list \<Rightarrow> byte list" where
  "push_part out part = out @ be_bytes 8 (length part) @ part"

lemma foldl_push_part:
  "foldl push_part out ps = out @ concat (map (\<lambda>p. be_bytes 8 (length p) @ p) ps)"
  by (induction ps arbitrary: out) (auto simp: push_part_def)

text \<open>Length-prefixed parts are uniquely readable: this is what keeps two contexts apart.\<close>

lemma parts_inject:
  assumes "\<forall>p\<in>set ps. length p < 2 ^ 64" and "\<forall>q\<in>set qs. length q < 2 ^ 64"
    and "concat (map (\<lambda>p. be_bytes 8 (length p) @ p) ps)
       = concat (map (\<lambda>p. be_bytes 8 (length p) @ p) qs)"
  shows "ps = qs"
  using assms
proof (induction ps arbitrary: qs)
  case Nil
  then show ?case by (cases qs) (auto dest: arg_cong [where f = length])
next
  case (Cons p ps)
  show ?case
  proof (cases qs)
    case Nil
    with Cons.prems show ?thesis by (auto dest: arg_cong [where f = length])
  next
    case (Cons q qs')
    have eq: "be_bytes 8 (length p) @ (p @ concat (map (\<lambda>p. be_bytes 8 (length p) @ p) ps))
        = be_bytes 8 (length q) @ (q @ concat (map (\<lambda>p. be_bytes 8 (length p) @ p) qs'))"
      using Cons.prems(3) unfolding Cons by (simp only: list.map concat.simps append_assoc)
    have same: "length (be_bytes 8 (length p)) = length (be_bytes 8 (length q))"
      by (simp only: length_be_bytes)
    have "be_bytes 8 (length p) = be_bytes 8 (length q)"
      and tl: "p @ concat (map (\<lambda>p. be_bytes 8 (length p) @ p) ps)
        = q @ concat (map (\<lambda>p. be_bytes 8 (length p) @ p) qs')"
      using iffD1 [OF append_eq_append_conv eq] same by blast+
    moreover have "length p < 256 ^ 8" "length q < 256 ^ 8"
      unfolding be_limit using Cons.prems(1,2) unfolding Cons by (blast intro: list.set_intros)+
    ultimately have "length p = length q"
      using be_bytes_inject by blast
    with tl have "p = q" and rest: "concat (map (\<lambda>p. be_bytes 8 (length p) @ p) ps)
        = concat (map (\<lambda>p. be_bytes 8 (length p) @ p) qs')"
      using append_eq_append_conv by blast+
    moreover have "ps = qs'"
      using Cons.prems(1,2) rest unfolding Cons by (intro Cons.IH) (auto simp del: power_numeral)
    ultimately show ?thesis by (simp only: Cons)
  qed
qed

section \<open>Contexts\<close>

record content_context =
  ctx_purpose :: string
  ctx_fields :: "(string \<times> string) list"

definition context_new :: "string \<Rightarrow> content_context" where
  "context_new purpose = \<lparr>ctx_purpose = purpose, ctx_fields = []\<rparr>"

definition context_with :: "string \<Rightarrow> string \<Rightarrow> content_context \<Rightarrow> content_context" where
  "context_with label value c = c\<lparr>ctx_fields := ctx_fields c @ [(label, value)]\<rparr>"

definition for_id :: "string \<Rightarrow> string \<Rightarrow> content_context" where
  "for_id purpose i = context_with ''id'' i (context_new purpose)"

definition CONTENT_AAD_LABEL :: string where "CONTENT_AAD_LABEL = ''ryu-content-seal-v1''"

fun field_parts :: "(string \<times> string) list \<Rightarrow> byte list list" where
  "field_parts [] = []"
| "field_parts ((l, v) # fs) = as_bytes l # as_bytes v # field_parts fs"

definition associated_data :: "content_context \<Rightarrow> string \<Rightarrow> byte list" where
  "associated_data c store =
     foldl push_part [] ([as_bytes CONTENT_AAD_LABEL, as_bytes ''store'', as_bytes store,
       as_bytes ''purpose'', as_bytes (ctx_purpose c)] @ field_parts (ctx_fields c))"

definition context_fits :: "content_context \<Rightarrow> string \<Rightarrow> bool" where
  "context_fits c store \<longleftrightarrow> length store < 2 ^ 64 \<and> length (ctx_purpose c) < 2 ^ 64
     \<and> list_all (\<lambda>(l, v). length l < 2 ^ 64 \<and> length v < 2 ^ 64) (ctx_fields c)"

lemma field_parts_inject: "field_parts fs = field_parts gs \<Longrightarrow> fs = gs"
  by (induction fs arbitrary: gs rule: field_parts.induct)
    (case_tac gs; auto)+

lemma field_parts_fit:
  "list_all (\<lambda>(l, v). length l < n \<and> length v < n) fs \<Longrightarrow> \<forall>p\<in>set (field_parts fs). length p < n"
  by (induction fs rule: field_parts.induct) auto

lemma associated_data_inject:
  assumes "context_fits c store" and "context_fits d store'"
    and "associated_data c store = associated_data d store'"
  shows "c = d \<and> store = store'"
proof -
  let ?parts = "\<lambda>c store. [as_bytes CONTENT_AAD_LABEL, as_bytes ''store'', as_bytes store,
       as_bytes ''purpose'', as_bytes (ctx_purpose c)] @ field_parts (ctx_fields c)"
  have fit: "\<forall>p\<in>set (?parts c store). length p < 2 ^ 64" if "context_fits c store" for c store
    using that field_parts_fit [of "2 ^ 64" "ctx_fields c"]
    by (auto simp: context_fits_def CONTENT_AAD_LABEL_def)
  have "associated_data c store = concat (map (\<lambda>p. be_bytes 8 (length p) @ p) (?parts c store))" for c store
    by (simp only: associated_data_def foldl_push_part append_Nil)
  then have "?parts c store = ?parts d store'"
    using assms(3) parts_inject [OF fit [OF assms(1)] fit [OF assms(2)]] by (simp only:)
  then show ?thesis by (auto dest: field_parts_inject)
qed

text \<open>
  The associated data of a sealed value names its place uniquely: no two (store, context)
  pairs encode to the same bytes, whatever their field values contain.
\<close>

theorem associated_data_unambiguous:
  assumes "context_fits c store" and "context_fits d store'"
  shows "associated_data c store = associated_data d store' \<longleftrightarrow> c = d \<and> store = store'"
  using assms associated_data_inject by blast

theorem associated_data_unambiguous_witness:
  "associated_data (for_id ''t.a'' ''b'') ''s'' \<noteq> associated_data (for_id ''t.ab'' '''') ''s''"
proof -
  have fits: "context_fits (for_id p i) ''s''" if "p \<in> {''t.a'', ''t.ab''}" "i \<in> {''b'', ''''}" for p i
    using that by (auto simp: context_fits_def for_id_def context_with_def context_new_def)
  show ?thesis
    using associated_data_unambiguous [of "for_id ''t.a'' ''b''" "''s''" "for_id ''t.ab'' ''''" "''s''"]
      fits
    by (simp add: for_id_def context_with_def context_new_def)
qed

section \<open>Keys\<close>

definition hkdf32 :: "platform \<Rightarrow> byte list \<Rightarrow> byte list \<Rightarrow> byte list list \<Rightarrow> byte list" where
  "hkdf32 P ikm salt info_parts = hkdf_sha256 P salt ikm (concat info_parts)"

definition derive_content_key :: "platform \<Rightarrow> byte list \<Rightarrow> string \<Rightarrow> byte list" where
  "derive_content_key P root store =
     hkdf32 P root (as_bytes ''ryu-content-crypto-v1'')
       [as_bytes ''ryu-content-crypto-v1:'', as_bytes store]"

definition derive_sub_key :: "platform \<Rightarrow> byte list \<Rightarrow> string \<Rightarrow> byte list" where
  "derive_sub_key P content_key label =
     hkdf32 P content_key (as_bytes ''ryu-content-sub-v1'')
       [as_bytes ''ryu-content-sub-v1:'', as_bytes label]"

definition key_check_value :: "platform \<Rightarrow> byte list \<Rightarrow> string" where
  "key_check_value P root = hex_encode P (take 16 (hmac_sha256 P root (as_bytes ''ryu-kcv-v1'')))"

record content_key =
  ck_key :: "byte list"
  ck_root_kcv :: string

record content_cipher =
  cc_store :: string
  cc_labels :: "string list"
  cc_current :: content_key
  cc_retired :: "content_key list"

datatype kcv_match = Current | Retired | Unknown

definition store_name_ok :: "string \<Rightarrow> bool" where
  "store_name_ok store \<longleftrightarrow> store \<noteq> [] \<and> length store \<le> 128
     \<and> list_all (\<lambda>b. 33 \<le> ord_of b \<and> ord_of b < 127) store"

text \<open>\<open>None\<close> is the panic of \<open>validate_store\<close>.\<close>

definition from_root :: "platform \<Rightarrow> byte list \<Rightarrow> string \<Rightarrow> content_cipher option" where
  "from_root P root store =
     (if store_name_ok store
      then Some \<lparr>cc_store = store, cc_labels = [],
        cc_current = \<lparr>ck_key = derive_content_key P root store, ck_root_kcv = key_check_value P root\<rparr>,
        cc_retired = []\<rparr>
      else None)"

definition retired_key :: "platform \<Rightarrow> content_cipher \<Rightarrow> byte list \<Rightarrow> content_key" where
  "retired_key P c root =
     \<lparr>ck_key = foldl (derive_sub_key P) (derive_content_key P root (cc_store c)) (cc_labels c),
      ck_root_kcv = key_check_value P root\<rparr>"

fun retired_keys :: "platform \<Rightarrow> content_cipher \<Rightarrow> content_key list \<Rightarrow> byte list list \<Rightarrow> content_key list" where
  "retired_keys P c retired [] = retired"
| "retired_keys P c retired (root # roots) =
     (let kcv = key_check_value P root in
      if kcv = ck_root_kcv (cc_current c) \<or> list_ex (\<lambda>key. ck_root_kcv key = kcv) retired
      then retired_keys P c retired roots
      else retired_keys P c (retired @ [retired_key P c root]) roots)"

definition with_retired_roots :: "platform \<Rightarrow> byte list list \<Rightarrow> content_cipher \<Rightarrow> content_cipher" where
  "with_retired_roots P roots c = c\<lparr>cc_retired := retired_keys P c [] roots\<rparr>"

definition sub_key :: "platform \<Rightarrow> string \<Rightarrow> content_key \<Rightarrow> content_key" where
  "sub_key P label k = \<lparr>ck_key = derive_sub_key P (ck_key k) label, ck_root_kcv = ck_root_kcv k\<rparr>"

definition subcipher :: "platform \<Rightarrow> string \<Rightarrow> content_cipher \<Rightarrow> content_cipher" where
  "subcipher P label c =
     \<lparr>cc_store = cc_store c, cc_labels = cc_labels c @ [label],
      cc_current = sub_key P label (cc_current c), cc_retired = map (sub_key P label) (cc_retired c)\<rparr>"

definition kcv_of :: "content_cipher \<Rightarrow> string" where
  "kcv_of c = ck_root_kcv (cc_current c)"

definition match_kcv :: "content_cipher \<Rightarrow> string \<Rightarrow> kcv_match" where
  "match_kcv c kcv =
     (if kcv = ck_root_kcv (cc_current c) then Current
      else if list_ex (\<lambda>key. ck_root_kcv key = kcv) (cc_retired c) then Retired
      else Unknown)"

definition candidate_keys :: "content_cipher \<Rightarrow> (content_key \<times> bool) list" where
  "candidate_keys c = (cc_current c, False) # map (\<lambda>key. (key, True)) (cc_retired c)"

text \<open>The retired list never repeats a key and never holds the current one.\<close>

definition kcvs_distinct :: "content_cipher \<Rightarrow> bool" where
  "kcvs_distinct c \<longleftrightarrow> distinct (map (ck_root_kcv \<circ> fst) (candidate_keys c))"

lemma retired_key_kcv [simp]: "ck_root_kcv (retired_key P c root) = key_check_value P root"
  by (simp add: retired_key_def)

lemma retired_keys_distinct:
  assumes "distinct (ck_root_kcv (cc_current c) # map ck_root_kcv retired)"
  shows "distinct (ck_root_kcv (cc_current c) # map ck_root_kcv (retired_keys P c retired roots))"
  using assms
proof (induction roots arbitrary: retired)
  case Nil
  then show ?case by simp
next
  case (Cons root roots)
  let ?seen = "key_check_value P root = ck_root_kcv (cc_current c)
    \<or> list_ex (\<lambda>key. ck_root_kcv key = key_check_value P root) retired"
  show ?case
  proof (cases ?seen)
    case True
    with Cons show ?thesis by (simp only: retired_keys.simps Let_def if_True)
  next
    case False
    then have "distinct (ck_root_kcv (cc_current c) # map ck_root_kcv (retired @ [retired_key P c root]))"
      using Cons.prems by (auto simp: list_ex_iff)
    from Cons.IH [OF this] False show ?thesis by (simp only: retired_keys.simps Let_def if_False)
  qed
qed

lemma with_retired_roots_distinct: "kcvs_distinct (with_retired_roots P roots c)"
  using retired_keys_distinct [of c "[]" P roots]
  by (simp add: kcvs_distinct_def with_retired_roots_def candidate_keys_def comp_def)

lemma retired_keys_subcipher:
  "retired_keys P (subcipher P label c) (map (sub_key P label) ks) roots
     = map (sub_key P label) (retired_keys P c ks roots)"
  by (induction P c ks roots rule: retired_keys.induct)
    (simp_all add: Let_def list_ex_iff retired_key_def sub_key_def subcipher_def)

text \<open>
  Deriving a child cipher and attaching retired roots commute, level by level: a value sealed
  by a sub-cipher of an old root opens under the sub-cipher built either way. The result holds
  every key once, and never the current key as a retired one.
\<close>

theorem subcipher_with_retired_roots:
  "subcipher P label (with_retired_roots P roots c)
     = with_retired_roots P roots (subcipher P label c)
   \<and> kcvs_distinct (with_retired_roots P roots (subcipher P label c))"
  using retired_keys_subcipher [of P label c "[]" roots]
  by (simp add: with_retired_roots_distinct)
    (simp add: with_retired_roots_def subcipher_def)

section \<open>Envelopes\<close>

datatype seal_error = UnknownVersion | DoesNotOpen | Malformed | AlreadyARyuEnvelope
  | EncryptionFailed | Refused string | NoKeyForSealed | EnvelopeNeedsKey

definition is_content_seal_error :: "seal_error \<Rightarrow> bool" where
  "is_content_seal_error e \<longleftrightarrow> e \<in> {UnknownVersion, DoesNotOpen, Malformed, AlreadyARyuEnvelope}"

record 'v opened =
  op_value :: 'v
  op_needs_reseal :: bool

definition NONCE_LEN :: nat where "NONCE_LEN = 12"
definition TAG_LEN :: nat where "TAG_LEN = 16"

definition CONTENT_TEXT_PREFIX :: string where "CONTENT_TEXT_PREFIX = ''encb:v1:''"
definition CONTENT_TEXT_FAMILY :: string where "CONTENT_TEXT_FAMILY = ''encb:''"
definition COMPAT_ESCAPE :: string where "COMPAT_ESCAPE = ''encb:raw:''"
definition CONTENT_BYTES_MAGIC :: "byte list" where "CONTENT_BYTES_MAGIC = as_bytes ''RYU-CB01''"
definition SEALED_FILE_MAGIC :: "byte list" where "SEALED_FILE_MAGIC = as_bytes ''RYU-SF01''"
definition SEALED_LOG_MAGIC :: "byte list" where "SEALED_LOG_MAGIC = as_bytes ''RYU-SL01''"

definition RYU_MAGICS :: "byte list list" where
  "RYU_MAGICS = [CONTENT_BYTES_MAGIC, SEALED_FILE_MAGIC, SEALED_LOG_MAGIC]"

text \<open>The current key first, then the retired keys: the first that succeeds wins.\<close>

fun first_open :: "('k \<Rightarrow> 'r option) \<Rightarrow> ('k \<times> bool) list \<Rightarrow> ('r \<times> bool) option" where
  "first_open f [] = None"
| "first_open f ((k, retired) # ks) =
     (case f k of Some r \<Rightarrow> Some (r, retired) | None \<Rightarrow> first_open f ks)"

definition cipher_aad :: "content_cipher \<Rightarrow> content_context \<Rightarrow> byte list" where
  "cipher_aad c ctx = associated_data ctx (cc_store c)"

definition seal_text_with_nonce ::
  "platform \<Rightarrow> content_cipher \<Rightarrow> string \<Rightarrow> content_context \<Rightarrow> byte list \<Rightarrow> seal_error + string" where
  "seal_text_with_nonce P c plaintext ctx n =
     bindE (ok_or EncryptionFailed
       (aead_encrypt P (ck_key (cc_current c)) n (as_bytes plaintext) (cipher_aad c ctx)))
     (\<lambda>ciphertext. Inr (CONTENT_TEXT_PREFIX @ b64_encode P (n @ ciphertext)))"

definition is_versioned_family :: "string \<Rightarrow> bool" where
  "is_versioned_family stored =
     (case strip_prefix (drop (length CONTENT_TEXT_FAMILY) stored) ''v'' of
        None \<Rightarrow> False
      | Some rest \<Rightarrow>
          (let digits = length (takeWhile (\<lambda>b. is_ascii_digit (ord_of b)) rest) in
           digits > 0 \<and> digits < length rest \<and> rest ! digits = CHR '':''))"

definition open_blob ::
  "platform \<Rightarrow> content_cipher \<Rightarrow> byte list \<Rightarrow> content_context \<Rightarrow> seal_error + (byte list \<times> bool)" where
  "open_blob P c blob ctx =
     ok_or DoesNotOpen (first_open
       (\<lambda>k. aead_decrypt P (ck_key k) (take NONCE_LEN blob) (drop NONCE_LEN blob) (cipher_aad c ctx))
       (candidate_keys c))"

definition open_text ::
  "platform \<Rightarrow> content_cipher \<Rightarrow> string \<Rightarrow> content_context \<Rightarrow> seal_error + string opened" where
  "open_text P c stored ctx =
     (case strip_prefix stored CONTENT_TEXT_PREFIX of
        None \<Rightarrow>
          if starts_with stored CONTENT_TEXT_FAMILY \<and> is_versioned_family stored
          then Inl UnknownVersion
          else Inr \<lparr>op_value = stored, op_needs_reseal = (stored \<noteq> [])\<rparr>
      | Some encoded \<Rightarrow>
          bindE (ok_or Malformed (b64_decode P (trim encoded))) (\<lambda>blob.
          if length blob < NONCE_LEN + TAG_LEN then Inl Malformed
          else bindE (open_blob P c blob ctx) (\<lambda>(plain, retired).
            bindE (ok_or Malformed (from_utf8 plain)) (\<lambda>value.
              Inr \<lparr>op_value = value, op_needs_reseal = retired\<rparr>))))"

definition seal_bytes_with_nonce ::
  "platform \<Rightarrow> content_cipher \<Rightarrow> byte list \<Rightarrow> content_context \<Rightarrow> byte list \<Rightarrow> seal_error + byte list" where
  "seal_bytes_with_nonce P c plaintext ctx n =
     (if list_ex (\<lambda>magic. take (length magic) plaintext = magic) RYU_MAGICS
      then Inl AlreadyARyuEnvelope
      else bindE (ok_or EncryptionFailed
        (aead_encrypt P (ck_key (cc_current c)) n plaintext (cipher_aad c ctx)))
        (\<lambda>ciphertext. Inr (CONTENT_BYTES_MAGIC @ n @ ciphertext)))"

definition looks_like_ryu_magic :: "byte list \<Rightarrow> bool" where
  "looks_like_ryu_magic magic \<longleftrightarrow> length magic = 8
     \<and> is_ascii_uppercase (unat (magic ! 4)) \<and> is_ascii_uppercase (unat (magic ! 5))
     \<and> is_ascii_digit (unat (magic ! 6)) \<and> is_ascii_digit (unat (magic ! 7))"

definition open_bytes ::
  "platform \<Rightarrow> content_cipher \<Rightarrow> byte list \<Rightarrow> content_context \<Rightarrow> seal_error + byte list opened" where
  "open_bytes P c stored ctx =
     (case strip_prefix stored CONTENT_BYTES_MAGIC of
        Some blob \<Rightarrow>
          if length blob < NONCE_LEN + TAG_LEN then Inl Malformed
          else bindE (open_blob P c blob ctx) (\<lambda>(value, retired).
            Inr \<lparr>op_value = value, op_needs_reseal = retired\<rparr>)
      | None \<Rightarrow>
          if 8 \<le> length stored \<and> take 4 stored = as_bytes ''RYU-'' \<and> looks_like_ryu_magic (take 8 stored)
          then Inl UnknownVersion
          else Inr \<lparr>op_value = stored, op_needs_reseal = (stored \<noteq> [])\<rparr>)"

definition is_sealed_text :: "string \<Rightarrow> bool" where
  "is_sealed_text stored = starts_with stored CONTENT_TEXT_PREFIX"

definition is_sealed_bytes :: "byte list \<Rightarrow> bool" where
  "is_sealed_bytes stored \<longleftrightarrow> take (length CONTENT_BYTES_MAGIC) stored = CONTENT_BYTES_MAGIC"

lemmas const_defs = CONTENT_TEXT_PREFIX_def CONTENT_TEXT_FAMILY_def COMPAT_ESCAPE_def
  NONCE_LEN_def TAG_LEN_def

lemmas [eval_simps] = const_defs candidate_keys_def is_versioned_family_def from_utf8_def
  utf8_valid_def scalar_ok_def cont_in_def is_sealed_text_def for_id_def context_with_def context_new_def
  CONTENT_AAD_LABEL_def is_content_seal_error_def

subsection \<open>Round trips\<close>

lemma first_open_current: "f k = Some r \<Longrightarrow> first_open f ((k, b) # ks) = Some (r, b)"
  by simp

lemma first_open_Some:
  "first_open f ks = Some (r, b) \<Longrightarrow> \<exists>k. (k, b) \<in> set ks \<and> f k = Some r"
  by (induction f ks rule: first_open.induct) (auto split: option.splits)

lemma seal_text_form:
  assumes "seal_text_with_nonce P c v ctx n = Inr s"
  obtains ct where "s = CONTENT_TEXT_PREFIX @ b64_encode P (n @ ct)"
    and "aead_encrypt P (ck_key (cc_current c)) n (as_bytes v) (cipher_aad c ctx) = Some ct"
  using assms by (auto simp: seal_text_with_nonce_def bindE_eq_Inr)

lemma open_text_envelope:
  assumes "b64_laws P" and "length n = NONCE_LEN" and "TAG_LEN \<le> length ct"
  shows "open_text P c (CONTENT_TEXT_PREFIX @ b64_encode P (n @ ct)) ctx =
     bindE (ok_or DoesNotOpen (first_open
       (\<lambda>k. aead_decrypt P (ck_key k) n ct (cipher_aad c ctx)) (candidate_keys c))) (\<lambda>(plain, retired).
     bindE (ok_or Malformed (from_utf8 plain)) (\<lambda>value.
       Inr \<lparr>op_value = value, op_needs_reseal = retired\<rparr>))"
  using assms by (simp add: open_text_def open_blob_def b64_round)

lemma open_text_seal_text:
  assumes "aead_laws P" "b64_laws P" "length n = NONCE_LEN" "utf8_valid v"
    and "seal_text_with_nonce P c v ctx n = Inr s"
  shows "open_text P c s ctx = Inr \<lparr>op_value = v, op_needs_reseal = False\<rparr>"
proof -
  obtain ct where s: "s = CONTENT_TEXT_PREFIX @ b64_encode P (n @ ct)"
    and e: "aead_encrypt P (ck_key (cc_current c)) n (as_bytes v) (cipher_aad c ctx) = Some ct"
    using assms(5) by (rule seal_text_form)
  have "TAG_LEN \<le> length ct"
    using aead_length [OF assms(1) e] by (simp add: TAG_LEN_def)
  moreover have "aead_decrypt P (ck_key (cc_current c)) n ct (cipher_aad c ctx) = Some (as_bytes v)"
    using assms(1) e by (rule aead_open_seal)
  ultimately show ?thesis
    using assms by (simp add: s open_text_envelope candidate_keys_def)
qed

lemma is_sealed_text_seal: "seal_text_with_nonce P c v ctx n = Inr s \<Longrightarrow> is_sealed_text s"
  by (auto elim!: seal_text_form simp: is_sealed_text_def starts_with_def)

lemma open_bytes_seal_bytes:
  assumes "aead_laws P" "length n = NONCE_LEN" "seal_bytes_with_nonce P c v ctx n = Inr s"
  shows "open_bytes P c s ctx = Inr \<lparr>op_value = v, op_needs_reseal = False\<rparr>"
proof -
  obtain ct where s: "s = CONTENT_BYTES_MAGIC @ n @ ct"
    and e: "aead_encrypt P (ck_key (cc_current c)) n v (cipher_aad c ctx) = Some ct"
    using assms(3) by (auto simp: seal_bytes_with_nonce_def bindE_eq_Inr split: if_splits)
  have "TAG_LEN \<le> length ct"
    using aead_length [OF assms(1) e] by (simp add: TAG_LEN_def)
  moreover have "aead_decrypt P (ck_key (cc_current c)) n ct (cipher_aad c ctx) = Some v"
    using assms(1) e by (rule aead_open_seal)
  ultimately show ?thesis
    using assms(2) by (simp add: s open_bytes_def open_blob_def candidate_keys_def)
qed

end
