(* ===== verification/Sidecar.thy ===== *)
theory Sidecar
  imports Complex_Main Rust_Text
begin

text \<open>
  crates/core/sidecar-runtime/src/lib.rs: the bearer check of a sidecar, comparing in constant time
  and failing closed, and the profile table that shifts ports and suffixes names.
\<close>

unbundle bit_operations_syntax

section \<open>Bearer checks\<close>

definition constant_time_eq :: "byte list \<Rightarrow> byte list \<Rightarrow> bool" where
  "constant_time_eq left right \<longleftrightarrow>
     (if length left \<noteq> length right then False
      else fold (\<lambda>(a, b) difference. difference OR (a XOR b)) (zip left right) 0 = (0 :: byte))"

definition token_ok :: "string option \<Rightarrow> string option \<Rightarrow> bool" where
  "token_ok provided expected \<longleftrightarrow>
     (case expected of
        None \<Rightarrow> False
      | Some e \<Rightarrow> if e = [] then False
          else constant_time_eq (as_bytes (case provided of None \<Rightarrow> [] | Some p \<Rightarrow> p)) (as_bytes e))"

definition bearer_ok :: "string option \<Rightarrow> string option \<Rightarrow> bool" where
  "bearer_ok auth_header expected = token_ok (Option.bind auth_header (\<lambda>v. strip_prefix v ''Bearer '')) expected"

section \<open>Profiles\<close>

definition RELEASE_PROFILE :: string where "RELEASE_PROFILE = ''release''"

definition DEV_PORT_OFFSET :: "16 word" where "DEV_PORT_OFFSET = 1000"

definition PROFILE_PORT_OFFSETS :: "(string \<times> 16 word) list" where
  "PROFILE_PORT_OFFSETS = [(RELEASE_PROFILE, 0), (''dev'', DEV_PORT_OFFSET), (''canary'', 2000),
     (''nightly'', 3000), (''beta'', 4000)]"

definition profile_port_offset_for :: "string \<Rightarrow> 16 word option" where
  "profile_port_offset_for profile = map_option snd (find (\<lambda>(name, _). name = profile) PROFILE_PORT_OFFSETS)"

text \<open>\<open>None\<close> is the panic on an unknown profile.\<close>

definition profile_port_offset_for_known :: "string \<Rightarrow> 16 word option" where
  "profile_port_offset_for_known profile = profile_port_offset_for profile"

definition profile_suffix_for :: "string \<Rightarrow> string" where
  "profile_suffix_for profile = (if profile = RELEASE_PROFILE then [] else ''-'' @ profile)"

text \<open>\<open>u16::saturating_add\<close>\<close>

definition profiled_port_with_offset :: "16 word \<Rightarrow> 16 word \<Rightarrow> 16 word" where
  "profiled_port_with_offset base offset =
     (if unat base + unat offset \<ge> 2 ^ 16 then - 1 else base + offset)"

definition profiled_port_for :: "16 word \<Rightarrow> string \<Rightarrow> 16 word option" where
  "profiled_port_for base profile = map_option (profiled_port_with_offset base) (profile_port_offset_for_known profile)"

text \<open>\<open>str::parse::<u16>\<close>: an optional plus sign and digits, within range.\<close>

definition decimal :: "string \<Rightarrow> nat option" where
  "decimal s = (let digits = (case s of CHR ''+'' # r \<Rightarrow> r | _ \<Rightarrow> s) in
     if digits = [] \<or> \<not> list_all (\<lambda>c. is_ascii_digit (ord_of c)) digits then None
     else Some (fold (\<lambda>c n. 10 * n + (ord_of c - 48)) digits 0))"

definition parse_u16 :: "string \<Rightarrow> 16 word option" where
  "parse_u16 s = (case decimal s of None \<Rightarrow> None | Some n \<Rightarrow> if n < 2 ^ 16 then Some (of_nat n) else None)"

definition active_profile :: "string option \<Rightarrow> string" where
  "active_profile env_profile = (case env_profile of
     None \<Rightarrow> RELEASE_PROFILE
   | Some v \<Rightarrow> let p = to_ascii_lowercase (trim v) in if p = [] then RELEASE_PROFILE else p)"

definition profile_port_offset :: "string option \<Rightarrow> string option \<Rightarrow> 16 word option" where
  "profile_port_offset env_offset env_profile =
     (case Option.bind env_offset (\<lambda>v. parse_u16 (trim v)) of
        Some offset \<Rightarrow> if offset \<le> 50000 then Some offset else profile_port_offset_for_known (active_profile env_profile)
      | None \<Rightarrow> profile_port_offset_for_known (active_profile env_profile))"

definition profiled_port :: "string option \<Rightarrow> string option \<Rightarrow> 16 word \<Rightarrow> 16 word option" where
  "profiled_port env_offset env_profile base =
     map_option (profiled_port_with_offset base) (profile_port_offset env_offset env_profile)"

definition profile_suffix :: "string option \<Rightarrow> string option" where
  "profile_suffix env_profile = (let profile = active_profile env_profile in
     case profile_port_offset_for_known profile of
       None \<Rightarrow> None
     | Some _ \<Rightarrow> Some (profile_suffix_for profile))"

lemmas [eval_simps] = RELEASE_PROFILE_def DEV_PORT_OFFSET_def PROFILE_PORT_OFFSETS_def profile_port_offset_for_def
  profile_port_offset_for_known_def profile_suffix_for_def decimal_def parse_u16_def active_profile_def

section \<open>The checks are exact\<close>

lemma or_zero: "(a :: byte) OR b = 0 \<longleftrightarrow> a = 0 \<and> b = 0"
  by (rule or_eq_0_iff)

lemma xor_zero: "(a :: byte) XOR b = 0 \<longleftrightarrow> a = b"
  by (metis xor.assoc xor.left_neutral xor.right_neutral xor_self_eq)

lemma difference_zero:
  "fold (\<lambda>(a, b) d. d OR (a XOR b)) ps d = (0 :: byte) \<longleftrightarrow> d = 0 \<and> (\<forall>(a, b)\<in>set ps. a = b)"
  by (induction ps arbitrary: d) (auto simp: or_zero xor_zero split: prod.splits)

lemma constant_time_eq_iff: "constant_time_eq left right \<longleftrightarrow> left = right"
proof (cases "length left = length right")
  case True
  then have "(\<forall>(a, b)\<in>set (zip left right). a = b) \<longleftrightarrow> left = right"
    by (induction left right rule: list_induct2) auto
  with True show ?thesis by (simp add: constant_time_eq_def difference_zero)
next
  case False
  then show ?thesis by (auto simp: constant_time_eq_def)
qed

lemma token_ok_iff: "token_ok p e \<longleftrightarrow> (\<exists>t. t \<noteq> [] \<and> e = Some t \<and> p = Some t)"
  by (auto simp: token_ok_def constant_time_eq_iff split: option.splits if_splits)

text \<open>
  The bearer check lets a request through for one header only, \<open>Bearer\<close> followed by the expected
  token, and for none when no token is expected or the expected token is empty; the constant-time
  loop over the bytes is equality.
\<close>

theorem bearer_check_is_exact:
  "bearer_ok header expected \<longleftrightarrow> (\<exists>t. t \<noteq> [] \<and> expected = Some t \<and> header = Some (''Bearer '' @ t))"
  unfolding bearer_ok_def token_ok_iff
  by (cases header) (auto simp: strip_prefix_Some)

text \<open>
  A profile's port never wraps: it is the base plus the profile's offset, or 65535 when the sum does
  not fit; known profiles keep distinct offsets, so two profiles share a port only at that limit.
\<close>

lemma profile_ports_do_not_wrap:
  "profiled_port_for base profile = map_option (\<lambda>offset. of_nat (min (unat base + unat offset) 65535))
     (profile_port_offset_for profile)
   \<and> distinct (map snd PROFILE_PORT_OFFSETS) \<and> distinct (map fst PROFILE_PORT_OFFSETS)"
proof -
  have "profiled_port_with_offset base offset = of_nat (min (unat base + unat offset) 65535)" for offset
  proof (cases "unat base + unat offset < 2 ^ 16")
    case True
    then have "of_nat (min (unat base + unat offset) 65535) = (of_nat (unat base) :: 16 word) + of_nat (unat offset)"
      by (simp add: min_def)
    with True show ?thesis by (simp add: profiled_port_with_offset_def)
  next
    case False
    then show ?thesis by (simp add: profiled_port_with_offset_def min_def)
  qed
  then show ?thesis
    by (auto simp: profiled_port_for_def profile_port_offset_for_known_def eval_simps intro!: option.map_cong)
qed

end
