(* ===== verification/Sql_Values.thy ===== *)
theory Sql_Values
  imports Complex_Main Content_Crypto Sidecar
begin

text \<open>
  SQLite values as rusqlite reads them (\<open>rusqlite::types::Value\<close>), their order in \<open>ORDER BY\<close> and
  comparisons, and integers as text. What a 64-bit float prints as and the number it stands for is
  the record \<open>reals\<close>.
\<close>

section \<open>Integers as text\<close>

definition digit :: "nat \<Rightarrow> char" where
  "digit n = char_of (48 + n)"

fun nat_text :: "nat \<Rightarrow> string" where
  "nat_text n = (if n < 10 then [digit n] else nat_text (n div 10) @ [digit (n mod 10)])"

declare nat_text.simps [simp del]

text \<open>\<open>i64::to_string\<close> and \<open>str::parse::<i64>\<close>\<close>

definition int_text :: "int \<Rightarrow> string" where
  "int_text i = (if i < 0 then CHR ''-'' # nat_text (nat (- i)) else nat_text (nat i))"

definition digits_value :: "string \<Rightarrow> nat option" where
  "digits_value s = (if s = [] \<or> \<not> list_all (\<lambda>c. is_ascii_digit (ord_of c)) s then None
     else Some (fold (\<lambda>c n. 10 * n + (ord_of c - 48)) s 0))"

definition parse_i64 :: "string \<Rightarrow> int option" where
  "parse_i64 s = (case s of
       CHR ''-'' # r \<Rightarrow> (case digits_value r of None \<Rightarrow> None | Some n \<Rightarrow> if n \<le> 2 ^ 63 then Some (- int n) else None)
     | CHR ''+'' # r \<Rightarrow> (case digits_value r of None \<Rightarrow> None | Some n \<Rightarrow> if n < 2 ^ 63 then Some (int n) else None)
     | _ \<Rightarrow> (case digits_value s of None \<Rightarrow> None | Some n \<Rightarrow> if n < 2 ^ 63 then Some (int n) else None))"

definition is_i64 :: "int \<Rightarrow> bool" where
  "is_i64 i \<longleftrightarrow> - (2 ^ 63) \<le> i \<and> i < 2 ^ 63"

lemma ord_of_digit [simp]: "n < 10 \<Longrightarrow> ord_of (digit n) = 48 + n"
  by (simp add: ord_of_def digit_def)

lemma nat_text_digits: "nat_text n \<noteq> [] \<and> list_all (\<lambda>c. is_ascii_digit (ord_of c)) (nat_text n)
    \<and> fold (\<lambda>c n. 10 * n + (ord_of c - 48)) (nat_text n) 0 = n"
proof (induction n rule: nat_text.induct)
  case (1 n)
  then show ?case
    by (cases "n < 10") (auto simp: nat_text.simps [of n] is_ascii_digit_def)
qed

lemma digits_value_nat_text [simp]: "digits_value (nat_text n) = Some n"
  using nat_text_digits [of n] by (simp add: digits_value_def)

lemma nat_text_head: "\<exists>c cs. nat_text n = c # cs \<and> is_ascii_digit (ord_of c)"
  using nat_text_digits [of n] by (cases "nat_text n") auto

lemma parse_int_text: "is_i64 i \<Longrightarrow> parse_i64 (int_text i) = Some i"
proof (cases "i < 0")
  case True
  assume "is_i64 i"
  with True show ?thesis by (auto simp: int_text_def parse_i64_def is_i64_def)
next
  case False
  assume i: "is_i64 i"
  obtain c cs where c: "nat_text (nat i) = c # cs" "is_ascii_digit (ord_of c)"
    using nat_text_head by blast
  then have "c \<noteq> CHR ''-''" "c \<noteq> CHR ''+''" by (auto simp: is_ascii_digit_def ord_of_def)
  with c(1) have "parse_i64 (nat_text (nat i)) = (case digits_value (nat_text (nat i)) of None \<Rightarrow> None
      | Some n \<Rightarrow> if n < 2 ^ 63 then Some (int n) else None)"
    by (simp add: parse_i64_def split: char.split bool.split)
  with False i show ?thesis by (auto simp: int_text_def is_i64_def)
qed

section \<open>Values\<close>

datatype sql_value = Null | Integer int | Real "64 word" | Text string | Blob "byte list"

record reals =
  real_text :: "64 word \<Rightarrow> string"
  real_number :: "64 word \<Rightarrow> rat"

text \<open>
  SQLite orders by storage class, then by value: NULL, numbers, text (bytewise), blobs (bytewise).
\<close>

fun sql_rank :: "reals \<Rightarrow> sql_value \<Rightarrow> nat \<times> rat \<times> string" where
  "sql_rank R Null = (0, 0, [])"
| "sql_rank R (Integer n) = (1, of_int n, [])"
| "sql_rank R (Real r) = (1, real_number R r, [])"
| "sql_rank R (Text s) = (2, 0, s)"
| "sql_rank R (Blob b) = (3, 0, of_bytes b)"

text \<open>The operators \<open>=\<close>, \<open>IS\<close> and \<open>>\<close> in a WHERE clause.\<close>

definition sql_eq :: "reals \<Rightarrow> sql_value \<Rightarrow> sql_value \<Rightarrow> bool" where
  "sql_eq R a b \<longleftrightarrow> a \<noteq> Null \<and> b \<noteq> Null \<and> sql_rank R a = sql_rank R b"

definition sql_is :: "reals \<Rightarrow> sql_value \<Rightarrow> sql_value \<Rightarrow> bool" where
  "sql_is R a b \<longleftrightarrow> sql_rank R a = sql_rank R b"

definition sql_greater :: "reals \<Rightarrow> sql_value \<Rightarrow> sql_value \<Rightarrow> bool" where
  "sql_greater R a b \<longleftrightarrow> a \<noteq> Null \<and> b \<noteq> Null \<and> sql_rank R b < sql_rank R a"

lemma sql_is_refl [simp]: "sql_is R a a"
  by (simp add: sql_is_def)

end
