(* ===== verification/Content_Sqlite.thy ===== *)
theory Content_Sqlite
  imports Sql_Values
begin

text \<open>
  crates/core/crypto/src/content\_sqlite.rs: sealing the columns of a SQLite store. A connection sees
  the database (its tables and the state table \<open>ryu_content_seal\<close>) and has two settings. A statement
  is an operation on the connection; a transaction that fails, also when it commits, leaves the
  database as it was. Before each transaction other connections may have changed the database
  (\<open>sw_others\<close>); inside one they wait, since it takes the write lock before it reads. The column
  \<open>updated_at\<close> is written and never read: it is left out.
\<close>

section \<open>The database and its state table\<close>

definition STORE_ITEM :: string where "STORE_ITEM = ''__store__''"
definition BATCH_SIZE :: nat where "BATCH_SIZE = 500"
definition SUPPORTED_MIN_READER :: int where "SUPPORTED_MIN_READER = 2"

definition PENDING :: string where "PENDING = ''pending''"
definition SEALING :: string where "SEALING = ''sealing''"
definition SEALED :: string where "SEALED = ''sealed''"
definition OK :: string where "OK = ''ok''"
definition VACUUM_PENDING :: string where "VACUUM_PENDING = ''vacuum_pending''"

type_synonym sql_row = "string \<Rightarrow> sql_value"

record table =
  tb_columns :: "string list"
  tb_rows :: "sql_row list"

record seal_row =
  sr_store :: string
  sr_item :: string
  sr_state :: string
  sr_cursor :: "string option"
  sr_kcv :: "string option"
  sr_min_reader :: int

record database =
  sd_tables :: "string \<Rightarrow> table option"
  sd_seal :: "seal_row list option"

record connection =
  cn_data :: database
  cn_secure_delete :: int
  cn_busy_timeout :: int

datatype db_error = SecureDeleteOff | BadIdentifier string | ImplicitRowid string
  | NoSuchTable | NoSuchColumn | CorruptCursor string | NewerStoreFormat string int
  | KeyMismatch string | SealFailed seal_error | NotSealed string string | IoFailed

type_synonym 'a sql = "(connection, db_error, 'a) op"

definition guardS :: "db_error \<Rightarrow> bool \<Rightarrow> unit sql" where
  "guardS e b = (if b then retS () else failS e)"

definition enable_secure_delete :: "unit sql" where
  "enable_secure_delete = modifyS (cn_secure_delete_update (\<lambda>_. 1))"

definition require_secure_delete :: "unit sql" where
  "require_secure_delete = bindS getS (\<lambda>c. guardS SecureDeleteOff (cn_secure_delete c = 1))"

text \<open>\<open>DEFAULT_BUSY_TIMEOUT\<close> is 5 seconds; the pragma counts milliseconds.\<close>

definition ensure_busy_timeout :: "unit sql" where
  "ensure_busy_timeout = modifyS (\<lambda>c. if cn_busy_timeout c \<le> 0 then c\<lparr>cn_busy_timeout := 5000\<rparr> else c)"

definition on_data :: "(database \<Rightarrow> database) \<Rightarrow> connection \<Rightarrow> connection" where
  "on_data f c = c\<lparr>cn_data := f (cn_data c)\<rparr>"

definition ensure_state_table :: "unit sql" where
  "ensure_state_table = modifyS (on_data (\<lambda>d. if sd_seal d = None then d\<lparr>sd_seal := Some []\<rparr> else d))"

definition seal_rows :: "seal_row list sql" where
  "seal_rows = bindS getS (\<lambda>c. liftE (ok_or NoSuchTable (sd_seal (cn_data c))))"

definition for_item :: "string \<Rightarrow> string \<Rightarrow> seal_row \<Rightarrow> bool" where
  "for_item store item r \<longleftrightarrow> sr_store r = store \<and> sr_item r = item"

text \<open>\<open>INSERT .. ON CONFLICT(store, item) DO UPDATE\<close>\<close>

definition upsert :: "seal_row \<Rightarrow> (seal_row \<Rightarrow> seal_row) \<Rightarrow> seal_row list \<Rightarrow> seal_row list" where
  "upsert new f rows = (let here = for_item (sr_store new) (sr_item new) in
     if list_ex here rows then upd here f rows else rows @ [new])"

definition write_rows :: "(seal_row list \<Rightarrow> seal_row list) \<Rightarrow> unit sql" where
  "write_rows f = bindS seal_rows (\<lambda>rows. modifyS (on_data (sd_seal_update (\<lambda>_. Some (f rows)))))"

section \<open>Plans\<close>

datatype column_kind = TextColumn | BlobColumn

datatype key_kind = TextKey | IntegerKey

type_synonym row_key = "(string \<times> sql_value) list"

text \<open>\<open>RowKey::text\<close> and \<open>RowKey::key\<close>\<close>

definition key_text :: "reals \<Rightarrow> row_key \<Rightarrow> string \<Rightarrow> string" where
  "key_text R values column = (case find (\<lambda>(name, _). name = column) values of
       Some (_, Text t) \<Rightarrow> t
     | Some (_, Integer n) \<Rightarrow> int_text n
     | Some (_, Real r) \<Rightarrow> real_text R r
     | _ \<Rightarrow> [])"

definition order_key :: "reals \<Rightarrow> row_key \<Rightarrow> string" where
  "order_key R values = (case values of [] \<Rightarrow> [] | (name, _) # _ \<Rightarrow> key_text R values name)"

record column_plan =
  cp_table :: string
  cp_column :: string
  cp_key :: string
  cp_key_kind :: key_kind
  cp_kind :: column_kind
  cp_context_columns :: "string list"
  cp_context :: "row_key \<Rightarrow> content_context"

definition valid_ident :: "string \<Rightarrow> db_error + string" where
  "valid_ident name =
     (if name \<noteq> [] \<and> length name \<le> 64
         \<and> list_all (\<lambda>b. is_ascii_alphanumeric (ord_of b) \<or> b = CHR ''_'') name
         \<and> \<not> is_ascii_digit (ord_of (hd name))
      then Inr name else Inl (BadIdentifier name))"

definition plan_item_name :: "string \<Rightarrow> string \<Rightarrow> string" where
  "plan_item_name table column = table @ ''.'' @ column"

definition plan_new :: "reals \<Rightarrow> string \<Rightarrow> string \<Rightarrow> string \<Rightarrow> key_kind \<Rightarrow> column_kind \<Rightarrow> db_error + column_plan" where
  "plan_new R table column key key_kind kind =
     (if to_ascii_lowercase key \<in> {''rowid'', ''_rowid_'', ''oid''}
      then Inl (ImplicitRowid (plan_item_name table column))
      else bindE (valid_ident table) (\<lambda>table. bindE (valid_ident column) (\<lambda>column. bindE (valid_ident key) (\<lambda>key.
        Inr \<lparr>cp_table = table, cp_column = column, cp_key = key, cp_key_kind = key_kind, cp_kind = kind,
          cp_context_columns = [],
          cp_context = (\<lambda>row. context_with ''id'' (order_key R row) (context_new (plan_item_name table column)))\<rparr>))))"

definition plan_text :: "reals \<Rightarrow> string \<Rightarrow> string \<Rightarrow> string \<Rightarrow> key_kind \<Rightarrow> db_error + column_plan" where
  "plan_text R table column key key_kind = plan_new R table column key key_kind TextColumn"

definition plan_blob :: "reals \<Rightarrow> string \<Rightarrow> string \<Rightarrow> string \<Rightarrow> key_kind \<Rightarrow> db_error + column_plan" where
  "plan_blob R table column key key_kind = plan_new R table column key key_kind BlobColumn"

definition plan_with_context :: "string list \<Rightarrow> (row_key \<Rightarrow> content_context) \<Rightarrow> column_plan \<Rightarrow> db_error + column_plan" where
  "plan_with_context columns build plan =
     bindE (collect_results (map valid_ident columns)) (\<lambda>columns.
       Inr (plan\<lparr>cp_context_columns := columns, cp_context := build\<rparr>))"

definition plan_item :: "column_plan \<Rightarrow> string" where
  "plan_item plan = plan_item_name (cp_table plan) (cp_column plan)"

definition plan_row_key :: "column_plan \<Rightarrow> sql_value \<Rightarrow> sql_value list \<Rightarrow> row_key" where
  "plan_row_key plan key extras = (cp_key plan, key) # zip (cp_context_columns plan) extras"

definition cursor_value :: "column_plan \<Rightarrow> string \<Rightarrow> db_error + sql_value" where
  "cursor_value plan cursor = (case cp_key_kind plan of
       TextKey \<Rightarrow> Inr (Text cursor)
     | IntegerKey \<Rightarrow> bindE (ok_or (CorruptCursor (plan_item plan)) (parse_i64 cursor)) (\<lambda>n. Inr (Integer n)))"

text \<open>
  The table of a plan, with all columns the plan names; the key, the value and the context columns
  of a row.
\<close>

definition plan_columns :: "column_plan \<Rightarrow> string list" where
  "plan_columns plan = cp_key plan # cp_column plan # cp_context_columns plan"

definition plan_rows :: "column_plan \<Rightarrow> sql_row list sql" where
  "plan_rows plan = bindS getS (\<lambda>c. liftE
     (bindE (ok_or NoSuchTable (sd_tables (cn_data c) (cp_table plan))) (\<lambda>t.
      bindE (guardE NoSuchColumn (list_all (\<lambda>x. x \<in> set (tb_columns t)) (plan_columns plan))) (\<lambda>_. Inr (tb_rows t)))))"

definition row_cells :: "column_plan \<Rightarrow> sql_row \<Rightarrow> sql_value \<times> sql_value \<times> sql_value list" where
  "row_cells plan r = (r (cp_key plan), r (cp_column plan), map r (cp_context_columns plan))"

text \<open>\<open>SELECT .. WHERE key > ?1 ORDER BY key LIMIT BATCH_SIZE\<close>\<close>

definition select_batch ::
  "reals \<Rightarrow> column_plan \<Rightarrow> string option \<Rightarrow> (sql_value \<times> sql_value \<times> sql_value list) list sql" where
  "select_batch R plan cursor =
     bindS (plan_rows plan) (\<lambda>rows.
     bindS (liftE (traverse_opt (cursor_value plan) cursor)) (\<lambda>after.
     let rows = (case after of None \<Rightarrow> rows
                 | Some v \<Rightarrow> filter (\<lambda>r. sql_greater R (r (cp_key plan)) v) rows) in
     retS (map (row_cells plan) (take BATCH_SIZE (sort_key (\<lambda>r. sql_rank R (r (cp_key plan))) rows)))))"

text \<open>\<open>UPDATE .. SET column = ?1 WHERE key = ?2 AND column IS ?3\<close>, with the number of rows changed\<close>

definition cell_is :: "reals \<Rightarrow> column_plan \<Rightarrow> sql_value \<Rightarrow> sql_value \<Rightarrow> sql_row \<Rightarrow> bool" where
  "cell_is R plan key v r \<longleftrightarrow> sql_eq R (r (cp_key plan)) key \<and> sql_is R (r (cp_column plan)) v"

definition update_cell :: "reals \<Rightarrow> column_plan \<Rightarrow> sql_value \<Rightarrow> sql_value \<Rightarrow> sql_value \<Rightarrow> nat sql" where
  "update_cell R plan sealed key v =
     bindS (plan_rows plan) (\<lambda>rows.
     bindS (modifyS (on_data (\<lambda>d. d\<lparr>sd_tables := (sd_tables d)(cp_table plan :=
       map_option (\<lambda>t. t\<lparr>tb_rows := upd (cell_is R plan key v) (\<lambda>r. r(cp_column plan := sealed)) rows\<rparr>)
         (sd_tables d (cp_table plan)))\<rparr>))) (\<lambda>_.
     retS (cnt (cell_is R plan key v) rows)))"

section \<open>The state of an item\<close>

record migration_report =
  mr_sealed :: nat
  mr_already_sealed :: nat
  mr_unreadable :: nat
  mr_raced :: nat
  mr_finished_items :: nat

definition report_zero :: migration_report where
  "report_zero = \<lparr>mr_sealed = 0, mr_already_sealed = 0, mr_unreadable = 0, mr_raced = 0, mr_finished_items = 0\<rparr>"

definition item_row :: "string \<Rightarrow> string \<Rightarrow> (string \<times> string option) option sql" where
  "item_row store item = bindS seal_rows (\<lambda>rows.
     retS (map_option (\<lambda>r. (sr_state r, sr_cursor r)) (find (for_item store item) rows)))"

definition set_item :: "string \<Rightarrow> string \<Rightarrow> string \<Rightarrow> string option \<Rightarrow> unit sql" where
  "set_item store item state cursor = write_rows (upsert
     \<lparr>sr_store = store, sr_item = item, sr_state = state, sr_cursor = cursor, sr_kcv = None,
       sr_min_reader = SUPPORTED_MIN_READER\<rparr>
     (\<lambda>r. r\<lparr>sr_state := state, sr_cursor := cursor\<rparr>))"

definition item_state :: "string \<Rightarrow> string \<Rightarrow> string option sql" where
  "item_state store item = bindS ensure_state_table (\<lambda>_. bindS (item_row store item) (\<lambda>r. retS (map_option fst r)))"

definition all_items_sealed :: "string \<Rightarrow> bool sql" where
  "all_items_sealed store = bindS seal_rows (\<lambda>rows.
     retS (cnt (\<lambda>r. sr_store r = store \<and> sr_item r \<noteq> STORE_ITEM \<and> sr_state r \<noteq> SEALED) rows = 0))"

fun reset_each :: "string \<Rightarrow> column_plan list \<Rightarrow> unit sql" where
  "reset_each store [] = retS ()"
| "reset_each store (plan # plans) = bindS (set_item store (plan_item plan) PENDING None) (\<lambda>_. reset_each store plans)"

definition reset_items :: "string \<Rightarrow> column_plan list \<Rightarrow> unit sql" where
  "reset_items store plans = bindS ensure_state_table (\<lambda>_. reset_each store plans)"

section \<open>The key of a store\<close>

record store_record =
  sto_state :: string
  sto_kcv :: "string option"
  sto_min_reader :: int

definition read_store_record :: "string \<Rightarrow> store_record option sql" where
  "read_store_record store = bindS ensure_state_table (\<lambda>_. bindS seal_rows (\<lambda>rows.
     retS (map_option (\<lambda>r. \<lparr>sto_state = sr_state r, sto_kcv = sr_kcv r, sto_min_reader = sr_min_reader r\<rparr>)
       (find (for_item store STORE_ITEM) rows))))"

datatype store_key_state = KeyRecorded | KeyCurrent | KeyRetired | KeyDiffers string

definition writable :: "store_key_state \<Rightarrow> bool" where
  "writable s \<longleftrightarrow> (case s of KeyDiffers _ \<Rightarrow> False | _ \<Rightarrow> True)"

definition record_store_kcv :: "string \<Rightarrow> string \<Rightarrow> unit sql" where
  "record_store_kcv store kcv = bindS ensure_state_table (\<lambda>_. write_rows (upsert
     \<lparr>sr_store = store, sr_item = STORE_ITEM, sr_state = OK, sr_cursor = None, sr_kcv = Some kcv,
       sr_min_reader = SUPPORTED_MIN_READER\<rparr>
     (\<lambda>r. r\<lparr>sr_kcv := Some kcv, sr_min_reader := max (sr_min_reader r) SUPPORTED_MIN_READER\<rparr>)))"

definition check_store_key :: "content_cipher \<Rightarrow> store_key_state sql" where
  "check_store_key cipher =
     (let store = cc_store cipher in
      bindS (read_store_record store) (\<lambda>recorded. case recorded of
        Some r \<Rightarrow>
          if sto_min_reader r > SUPPORTED_MIN_READER then failS (NewerStoreFormat store (sto_min_reader r))
          else (case sto_kcv r of
              None \<Rightarrow> bindS (record_store_kcv store (kcv_of cipher)) (\<lambda>_. retS KeyRecorded)
            | Some kcv \<Rightarrow> retS (case match_kcv cipher kcv of
                  Current \<Rightarrow> KeyCurrent | Retired \<Rightarrow> KeyRetired | Unknown \<Rightarrow> KeyDiffers kcv))
      | None \<Rightarrow> bindS (record_store_kcv store (kcv_of cipher)) (\<lambda>_. retS KeyRecorded)))"

definition set_store_state :: "string \<Rightarrow> string \<Rightarrow> string option \<Rightarrow> unit sql" where
  "set_store_state store state cursor = write_rows (upsert
     \<lparr>sr_store = store, sr_item = STORE_ITEM, sr_state = state, sr_cursor = cursor, sr_kcv = None,
       sr_min_reader = SUPPORTED_MIN_READER\<rparr>
     (\<lambda>r. r\<lparr>sr_state := state, sr_cursor := cursor\<rparr>))"

subsection \<open>What compaction the store owes\<close>

definition SCRUBBED_CURSOR :: string where "SCRUBBED_CURSOR = ''scrubbed''"

record pending_cursor =
  pc_scrubbed :: bool
  pc_last_attempt :: "int option"

definition pending_default :: pending_cursor where
  "pending_default = \<lparr>pc_scrubbed = False, pc_last_attempt = None\<rparr>"

definition pending_parse :: "string option \<Rightarrow> pending_cursor" where
  "pending_parse cursor = (case cursor of
       None \<Rightarrow> pending_default
     | Some cursor \<Rightarrow> (case strip_prefix cursor SCRUBBED_CURSOR of
           Some rest \<Rightarrow> \<lparr>pc_scrubbed = True, pc_last_attempt = Option.bind (strip_prefix rest '':'') parse_i64\<rparr>
         | None \<Rightarrow> \<lparr>pc_scrubbed = False, pc_last_attempt = parse_i64 cursor\<rparr>))"

definition pending_encode :: "pending_cursor \<Rightarrow> string option" where
  "pending_encode c = (case (pc_scrubbed c, pc_last_attempt c) of
       (False, None) \<Rightarrow> None
     | (False, Some t) \<Rightarrow> Some (int_text t)
     | (True, None) \<Rightarrow> Some SCRUBBED_CURSOR
     | (True, Some t) \<Rightarrow> Some (SCRUBBED_CURSOR @ '':'' @ int_text t))"

definition set_pending :: "string \<Rightarrow> pending_cursor \<Rightarrow> unit sql" where
  "set_pending store c = set_store_state store VACUUM_PENDING (pending_encode c)"

definition mark_scrub_owed :: "string \<Rightarrow> unit sql" where
  "mark_scrub_owed store = bindS (item_row store STORE_ITEM) (\<lambda>current. case current of
       Some (state, cursor) \<Rightarrow>
         if state = VACUUM_PENDING then
           (let parsed = pending_parse cursor in
            if \<not> pc_scrubbed parsed then retS ()
            else set_pending store (parsed\<lparr>pc_scrubbed := False\<rparr>))
         else set_store_state store VACUUM_PENDING None
     | None \<Rightarrow> set_store_state store VACUUM_PENDING None)"

section \<open>Sealing a value\<close>

datatype outcome = Reseal sql_value | Already | Unreadable

text \<open>The text or the bytes a stored value is taken for; \<open>None\<close> is a blob that is no text.\<close>

definition value_text :: "reals \<Rightarrow> sql_value \<Rightarrow> string option" where
  "value_text R v = (case v of
       Text t \<Rightarrow> Some t | Integer n \<Rightarrow> Some (int_text n) | Real r \<Rightarrow> Some (real_text R r)
     | Blob bytes \<Rightarrow> from_utf8 bytes | Null \<Rightarrow> None)"

definition value_bytes :: "reals \<Rightarrow> sql_value \<Rightarrow> byte list" where
  "value_bytes R v = (case v of
       Blob bytes \<Rightarrow> bytes | Text t \<Rightarrow> as_bytes t | Integer n \<Rightarrow> as_bytes (int_text n)
     | Real r \<Rightarrow> as_bytes (real_text R r) | Null \<Rightarrow> [])"

text \<open>The plaintext of a legacy value: without the escape a keyless process writes.\<close>

definition unescaped :: "string \<Rightarrow> string \<Rightarrow> string" where
  "unescaped stored opened =
     (if starts_with stored CONTENT_TEXT_PREFIX then opened
      else case strip_prefix opened COMPAT_ESCAPE of Some inner \<Rightarrow> inner | None \<Rightarrow> opened)"

definition classify :: "seal_error + sql_value option \<Rightarrow> seal_error + outcome" where
  "classify result = (case result of
       Inr (Some sealed) \<Rightarrow> Inr (Reseal sealed)
     | Inr None \<Rightarrow> Inr Already
     | Inl e \<Rightarrow> if is_content_seal_error e then Inr Unreadable else Inl e)"

definition reseal_value ::
  "platform \<Rightarrow> reals \<Rightarrow> content_cipher \<Rightarrow> column_kind \<Rightarrow> sql_value \<Rightarrow> content_context \<Rightarrow> byte list \<Rightarrow> seal_error + outcome" where
  "reseal_value P R cipher kind stored ctx n =
     (if stored = Null then Inr Already
      else case kind of
        TextColumn \<Rightarrow> (case value_text R stored of
            None \<Rightarrow> Inr Unreadable
          | Some t \<Rightarrow> classify (bindE (open_text P cipher t ctx) (\<lambda>opened.
              if op_needs_reseal opened
              then bindE (seal_text_with_nonce P cipher (unescaped t (op_value opened)) ctx n) (\<lambda>s. Inr (Some (Text s)))
              else Inr None)))
      | BlobColumn \<Rightarrow> classify (bindE (open_bytes P cipher (value_bytes R stored) ctx) (\<lambda>opened.
              if op_needs_reseal opened
              then bindE (seal_bytes_with_nonce P cipher (op_value opened) ctx n) (\<lambda>s. Inr (Some (Blob s)))
              else Inr None)))"

section \<open>Migration\<close>

text \<open>
  What surrounds a run: the draws of the process (nonces, and which transactions fail to commit) and
  what other connections do to the database before each of its transactions.
\<close>

record sql_world =
  sw_draws :: draws
  sw_others :: "nat \<Rightarrow> database \<Rightarrow> database"

text \<open>The counters of a run: its report, the values looked at, the transactions begun.\<close>

record progress =
  pg_report :: migration_report
  pg_seen :: nat
  pg_tx :: nat

definition transaction :: "sql_world \<Rightarrow> nat \<Rightarrow> 'a sql \<Rightarrow> 'a sql" where
  "transaction W t m c = atomically (bindS m (\<lambda>x. if io_fails (sw_draws W) t then failS IoFailed else retS x))
     (on_data (sw_others W t) c)"

definition bump :: "(migration_report \<Rightarrow> migration_report) \<Rightarrow> progress \<Rightarrow> progress" where
  "bump f g = g\<lparr>pg_report := f (pg_report g)\<rparr>"

definition migrate_row ::
  "platform \<Rightarrow> reals \<Rightarrow> sql_world \<Rightarrow> content_cipher \<Rightarrow> column_plan \<Rightarrow> sql_value \<times> sql_value \<times> sql_value list
    \<Rightarrow> progress \<Rightarrow> progress sql" where
  "migrate_row P R W cipher plan cells g =
     (case cells of (key, v, extras) \<Rightarrow>
      let ctx = cp_context plan (plan_row_key plan key extras);
          seen = g\<lparr>pg_seen := pg_seen g + 1\<rparr> in
      bindS (liftE (map_err SealFailed (reseal_value P R cipher (cp_kind plan) v ctx (nonce (sw_draws W) (pg_seen g)))))
        (\<lambda>result. case result of
            Reseal sealed \<Rightarrow> bindS (update_cell R plan sealed key v) (\<lambda>changed.
              retS (if changed = 1 then bump (mr_sealed_update Suc) seen else bump (mr_raced_update Suc) seen))
          | Already \<Rightarrow> retS (bump (mr_already_sealed_update Suc) seen)
          | Unreadable \<Rightarrow> retS (bump (mr_unreadable_update Suc) seen)))"

fun migrate_rows ::
  "platform \<Rightarrow> reals \<Rightarrow> sql_world \<Rightarrow> content_cipher \<Rightarrow> column_plan \<Rightarrow> (sql_value \<times> sql_value \<times> sql_value list) list
    \<Rightarrow> progress \<Rightarrow> progress sql" where
  "migrate_rows P R W cipher plan [] g = retS g"
| "migrate_rows P R W cipher plan (r # rs) g =
     bindS (migrate_row P R W cipher plan r g) (\<lambda>g. migrate_rows P R W cipher plan rs g)"

text \<open>One batch: the cursor it leaves, the progress and how many rows it read.\<close>

definition migrate_batch ::
  "platform \<Rightarrow> reals \<Rightarrow> sql_world \<Rightarrow> content_cipher \<Rightarrow> column_plan \<Rightarrow> string option \<Rightarrow> progress
    \<Rightarrow> (string option \<times> progress \<times> nat) sql" where
  "migrate_batch P R W cipher plan cursor g =
     transaction W (pg_tx g)
       (bindS (select_batch R plan cursor) (\<lambda>batch.
        bindS (migrate_rows P R W cipher plan batch (g\<lparr>pg_tx := pg_tx g + 1\<rparr>)) (\<lambda>g.
        let cursor = (if batch = [] then cursor
              else Some (order_key R (plan_row_key plan (fst (last batch)) []))) in
        bindS (set_item (cc_store cipher) (plan_item plan) SEALING cursor) (\<lambda>_.
        retS (cursor, g, length batch)))))"

text \<open>The loop over the batches; \<open>None\<close> is not returning.\<close>

partial_function (option) item_loop ::
  "platform \<Rightarrow> reals \<Rightarrow> sql_world \<Rightarrow> content_cipher \<Rightarrow> column_plan \<Rightarrow> string option \<Rightarrow> progress \<Rightarrow> connection
    \<Rightarrow> ((db_error + progress) \<times> connection) option" where
  "item_loop P R W cipher plan cursor g c =
     (case migrate_batch P R W cipher plan cursor g c of
        (Inl e, c) \<Rightarrow> Some (Inl e, c)
      | (Inr (cursor, g, n), c) \<Rightarrow>
          if n < BATCH_SIZE then Some (Inr g, c) else item_loop P R W cipher plan cursor g c)"

definition start_item :: "sql_world \<Rightarrow> content_cipher \<Rightarrow> column_plan \<Rightarrow> string option \<Rightarrow> progress \<Rightarrow> progress sql" where
  "start_item W cipher plan cursor g =
     transaction W (pg_tx g)
       (bindS (mark_scrub_owed (cc_store cipher)) (\<lambda>_.
        bindS (set_item (cc_store cipher) (plan_item plan) SEALING cursor) (\<lambda>_.
        retS (g\<lparr>pg_tx := pg_tx g + 1\<rparr>))))"

definition end_item :: "sql_world \<Rightarrow> content_cipher \<Rightarrow> column_plan \<Rightarrow> bool \<Rightarrow> progress \<Rightarrow> progress sql" where
  "end_item W cipher plan was_retired g =
     transaction W (pg_tx g)
       (bindS (set_item (cc_store cipher) (plan_item plan) SEALED None) (\<lambda>_.
        bindS (all_items_sealed (cc_store cipher)) (\<lambda>all_sealed.
        bindS (if was_retired \<and> mr_unreadable (pg_report g) = 0 \<and> all_sealed
               then record_store_kcv (cc_store cipher) (kcv_of cipher) else retS ()) (\<lambda>_.
        retS (g\<lparr>pg_tx := pg_tx g + 1\<rparr>)))))"

definition migrate_item ::
  "platform \<Rightarrow> reals \<Rightarrow> sql_world \<Rightarrow> content_cipher \<Rightarrow> bool \<Rightarrow> column_plan \<Rightarrow> progress \<Rightarrow> connection
    \<Rightarrow> ((db_error + progress) \<times> connection) option" where
  "migrate_item P R W cipher was_retired plan g c =
     (case item_row (cc_store cipher) (plan_item plan) c of
        (Inl e, c) \<Rightarrow> Some (Inl e, c)
      | (Inr row, c) \<Rightarrow>
          let (state, cursor) = (case row of Some r \<Rightarrow> r | None \<Rightarrow> (PENDING, None)) in
          if state = SEALED then Some (Inr (bump (mr_finished_items_update Suc) g), c)
          else (case start_item W cipher plan cursor g c of
              (Inl e, c) \<Rightarrow> Some (Inl e, c)
            | (Inr g, c) \<Rightarrow> (case item_loop P R W cipher plan cursor g c of
                  None \<Rightarrow> None
                | Some (Inl e, c) \<Rightarrow> Some (Inl e, c)
                | Some (Inr g, c) \<Rightarrow> Some (end_item W cipher plan was_retired g c))))"

fun migrate_items ::
  "platform \<Rightarrow> reals \<Rightarrow> sql_world \<Rightarrow> content_cipher \<Rightarrow> bool \<Rightarrow> column_plan list \<Rightarrow> progress \<Rightarrow> connection
    \<Rightarrow> ((db_error + progress) \<times> connection) option" where
  "migrate_items P R W cipher was_retired [] g c = Some (Inr g, c)"
| "migrate_items P R W cipher was_retired (plan # plans) g c =
     (case migrate_item P R W cipher was_retired plan g c of
        None \<Rightarrow> None
      | Some (Inl e, c) \<Rightarrow> Some (Inl e, c)
      | Some (Inr g, c) \<Rightarrow> migrate_items P R W cipher was_retired plans g c)"

definition prepare_migration :: "content_cipher \<Rightarrow> store_key_state sql" where
  "prepare_migration cipher =
     bindS require_secure_delete (\<lambda>_. bindS ensure_busy_timeout (\<lambda>_. bindS ensure_state_table (\<lambda>_.
     bindS (check_store_key cipher) (\<lambda>key_state.
     bindS (guardS (KeyMismatch (cc_store cipher)) (writable key_state)) (\<lambda>_. retS key_state)))))"

definition migrate_columns ::
  "platform \<Rightarrow> reals \<Rightarrow> sql_world \<Rightarrow> content_cipher \<Rightarrow> column_plan list \<Rightarrow> connection
    \<Rightarrow> ((db_error + migration_report) \<times> connection) option" where
  "migrate_columns P R W cipher plans c =
     (case prepare_migration cipher c of
        (Inl e, c) \<Rightarrow> Some (Inl e, c)
      | (Inr key_state, c) \<Rightarrow>
          map_option (\<lambda>(result, c). (case result of Inl e \<Rightarrow> Inl e | Inr g \<Rightarrow> Inr (pg_report g), c))
            (migrate_items P R W cipher (key_state = KeyRetired) plans
              \<lparr>pg_report = report_zero, pg_seen = 0, pg_tx = 0\<rparr> c))"

section \<open>Checking that every value is sealed\<close>

definition cell_open :: "platform \<Rightarrow> content_cipher \<Rightarrow> column_kind \<Rightarrow> sql_value \<Rightarrow> content_context \<Rightarrow> bool" where
  "cell_open P cipher kind v ctx = (case (kind, v) of
       (_, Null) \<Rightarrow> True
     | (TextColumn, Text t) \<Rightarrow> (case open_text P cipher t ctx of
           Inr opened \<Rightarrow> (is_sealed_text t \<and> \<not> op_needs_reseal opened) \<or> t = [] | Inl _ \<Rightarrow> False)
     | (BlobColumn, Blob b) \<Rightarrow> (case open_bytes P cipher b ctx of
           Inr opened \<Rightarrow> (is_sealed_bytes b \<and> \<not> op_needs_reseal opened) \<or> b = [] | Inl _ \<Rightarrow> False)
     | _ \<Rightarrow> False)"

definition row_open :: "platform \<Rightarrow> content_cipher \<Rightarrow> column_plan \<Rightarrow> sql_row \<Rightarrow> bool" where
  "row_open P cipher plan r = (case row_cells plan r of (key, v, extras) \<Rightarrow>
     cell_open P cipher (cp_kind plan) v (cp_context plan (plan_row_key plan key extras)))"

fun assert_all_open :: "platform \<Rightarrow> reals \<Rightarrow> content_cipher \<Rightarrow> column_plan list \<Rightarrow> unit sql" where
  "assert_all_open P R cipher [] = retS ()"
| "assert_all_open P R cipher (plan # plans) =
     bindS (plan_rows plan) (\<lambda>rows. case find (\<lambda>r. \<not> row_open P cipher plan r) rows of
         Some r \<Rightarrow> failS (NotSealed (plan_item plan) (order_key R (plan_row_key plan (r (cp_key plan)) [])))
       | None \<Rightarrow> assert_all_open P R cipher plans)"

end
