(* ===== verification/Sample_Platform.thy ===== *)
theory Sample_Platform
  imports Platform
begin

text \<open>
  A concrete platform that satisfies every law the theorems assume, and the draws of concrete
  calls: the witnesses are evaluated on them. Its cipher appends a fixed 16-byte tag, its base64 and
  hex write two letters a byte and its clock text is the decimal number of nanoseconds. They keep
  the laws the modelled code relies on and nothing else about the real crates.
\<close>

section \<open>Text of bytes and of instants\<close>

definition letter :: "nat \<Rightarrow> char" where
  "letter n = char_of (97 + n)"

fun letters_of_bytes :: "byte list \<Rightarrow> string" where
  "letters_of_bytes [] = []"
| "letters_of_bytes (b # bs) = letter (unat b div 16) # letter (unat b mod 16) # letters_of_bytes bs"

fun bytes_of_letters :: "string \<Rightarrow> byte list option" where
  "bytes_of_letters [] = Some []"
| "bytes_of_letters [c] = None"
| "bytes_of_letters (c # d # cs) =
     map_option (\<lambda>bs. of_nat ((ord_of c - 97) * 16 + (ord_of d - 97)) # bs) (bytes_of_letters cs)"

lemma unat_byte_less: "unat (b :: byte) < 256"
  using unsigned_less [of b, where ?'a = nat] by simp

lemma ord_letter: "n < 16 \<Longrightarrow> ord_of (letter n) = 97 + n"
  by (simp add: ord_of_def letter_def)

lemma letters_round: "bytes_of_letters (letters_of_bytes bs) = Some bs"
proof (induction bs)
  case Nil
  then show ?case by simp
next
  case (Cons b bs)
  have "unat b div 16 < 16" using unat_byte_less [of b] by simp
  with Cons show ?case by (simp add: ord_letter)
qed

lemma length_letters [simp]: "length (letters_of_bytes bs) = 2 * length bs"
  by (induction bs) auto

lemma letters_plain: "c \<in> set (letters_of_bytes bs) \<Longrightarrow> ord_of c < 128 \<and> \<not> is_whitespace (ord_of c)"
proof (induction bs)
  case Nil
  then show ?case by simp
next
  case (Cons b bs)
  have "unat b div 16 < 16" using unat_byte_less [of b] by simp
  with Cons show ?case by (auto simp: ord_letter is_whitespace_def)
qed

fun decimal :: "nat \<Rightarrow> string" where
  "decimal n = (if n < 10 then [char_of (48 + n)] else decimal (n div 10) @ [char_of (48 + n mod 10)])"

declare decimal.simps [simp del]

definition of_decimal :: "string \<Rightarrow> nat" where
  "of_decimal s = foldl (\<lambda>a c. a * 10 + (ord_of c - 48)) 0 s"

lemma of_decimal_decimal: "of_decimal (decimal n) = n"
  by (induction n rule: decimal.induct, subst decimal.simps) (auto simp: of_decimal_def ord_of_def)

lemma eval_decimal [eval_simps]:
  "numeral k < (10::nat) \<Longrightarrow> decimal (numeral k) = [char_of (48 + numeral k :: nat)]"
  "\<not> numeral k < (10::nat) \<Longrightarrow>
     decimal (numeral k) = decimal (numeral k div 10) @ [char_of (48 + numeral k mod 10 :: nat)]"
  "decimal 0 = ''0''" "decimal (Suc 0) = ''1''"
  by (simp_all add: decimal.simps [of "numeral k"] decimal.simps [of 0] decimal.simps [of "Suc 0"]
    char_of_def bit_0)

lemma eval_digits [eval_simps]:
  "char_of (48::nat) = CHR ''0''" "char_of (49::nat) = CHR ''1''" "char_of (50::nat) = CHR ''2''"
  "char_of (51::nat) = CHR ''3''" "char_of (52::nat) = CHR ''4''" "char_of (53::nat) = CHR ''5''"
  "char_of (54::nat) = CHR ''6''" "char_of (55::nat) = CHR ''7''" "char_of (56::nat) = CHR ''8''"
  "char_of (57::nat) = CHR ''9''"
  by (simp_all add: char_of_def bit_0)

section \<open>The sample platform\<close>

definition sample_tag :: "byte list" where
  "sample_tag = replicate 16 0"

definition sample_platform :: platform where
  "sample_platform = \<lparr>
     aead_encrypt = (\<lambda>k n m a. Some (m @ sample_tag)),
     aead_decrypt = (\<lambda>k n c a. if length c < 16 \<or> drop (length c - 16) c \<noteq> sample_tag then None
       else Some (take (length c - 16) c)),
     hkdf_sha256 = (\<lambda>salt ikm info. replicate 32 0),
     hmac_sha256 = (\<lambda>key msg. replicate 32 0),
     sha256 = (\<lambda>m. m),
     b64_encode = letters_of_bytes,
     b64_decode = bytes_of_letters,
     hex_encode = letters_of_bytes,
     url_parse = (\<lambda>s. Some \<lparr>url_scheme = ''http'', url_host = Some ''lan'', url_username = [],
       url_password = None, url_query = None, url_fragment = None, url_path = ''/''\<rparr>),
     to_rfc3339 = (\<lambda>t. decimal (nat t)),
     parse_rfc3339 = (\<lambda>s. Some (int (of_decimal s))),
     kcv_json = (\<lambda>kcv src. kcv),
     kcv_of_json = (\<lambda>s. if s = [] then None else Some (Some (butlast s)))\<rparr>"

text \<open>The draws of the \<open>k\<close>-th call of a scenario: distinct uuids and nonces, a clock that advances.\<close>

definition sample_draws :: "nat \<Rightarrow> draws" where
  "sample_draws k = \<lparr>
     uuid = (\<lambda>i. ''00000'' @ decimal (100 + 10 * k + i)),
     nonce = (\<lambda>i. replicate 12 (of_nat (10 * k + i))),
     entropy = (\<lambda>i. replicate 32 (of_nat (10 * k + i))),
     clock = (\<lambda>i. (1000 + int k) * NANOS),
     io_fails = (\<lambda>i. False)\<rparr>"

lemma eval_sample [eval_simps]:
  "sha256 sample_platform m = m" "b64_encode sample_platform = letters_of_bytes"
  "url_parse sample_platform u = Some \<lparr>url_scheme = ''http'', url_host = Some ''lan'', url_username = [],
     url_password = None, url_query = None, url_fragment = None, url_path = ''/''\<rparr>"
  "to_rfc3339 sample_platform t = decimal (nat t)"
  "parse_rfc3339 sample_platform v = Some (int (of_decimal v))"
  "uuid (sample_draws k) i = ''00000'' @ decimal (100 + 10 * k + i)"
  "nonce (sample_draws k) i = replicate 12 (of_nat (10 * k + i))"
  "clock (sample_draws k) i = (1000 + int k) * NANOS" "io_fails (sample_draws k) i = False"
  by (simp_all add: sample_platform_def sample_draws_def)

lemmas [eval_simps] = NANOS_def of_decimal_def

lemma sample_aead_laws: "aead_laws sample_platform"
proof -
  have "c = take (length c - 16) c @ drop (length c - 16) c" for c :: "byte list" by simp
  then show ?thesis
    unfolding aead_laws_def by (auto simp: sample_platform_def sample_tag_def split: if_splits)
      (metis append_take_drop_id)
qed

lemma sample_aead_total: "aead_total sample_platform"
  by (simp add: aead_total_def sample_platform_def)

lemma sample_b64_laws: "b64_laws sample_platform"
  unfolding b64_laws_def using letters_plain by (simp add: sample_platform_def letters_round)

lemma sample_clock_laws: "clock_laws sample_platform"
  by (simp add: clock_laws_def sample_platform_def of_decimal_decimal instant_ok_def)

lemma sample_json_laws: "json_laws sample_platform"
  by (simp add: json_laws_def sample_platform_def)

lemma sample_hex_laws: "hex_laws sample_platform"
  by (simp add: hex_laws_def sample_platform_def)

lemmas sample_laws [simp] = sample_aead_laws sample_aead_total sample_b64_laws sample_clock_laws
  sample_json_laws sample_hex_laws

end
