(* ===== verification/Store_Seal.thy ===== *)
theory Store_Seal
  imports Content_Crypto Sample_Platform
begin

text \<open>
  crates/core/crypto/src/plugin_keys/store_seal.rs: how a store seals its values (\<open>store_seal\<close>),
  sealing and opening TEXT and BLOB values in each state, and the contract \<open>sealer\<close> that a store
  relies on: what it seals and writes, it reads back.
\<close>

datatype store_seal = Sealing content_cipher | Compat | Unhealthy string

definition mismatch :: "string \<Rightarrow> store_seal" where
  "mismatch store = Unhealthy (store @ '' is sealed under a different key than this process holds; writes are refused to protect it'')"

fun label :: "store_seal \<Rightarrow> string" where
  "label (Sealing c) = ''ok''"
| "label Compat = ''compat''"
| "label (Unhealthy reason) = ''unhealthy''"

definition COMPAT_HEALTH :: string where "COMPAT_HEALTH = ''waiting for a Ryu update''"

text \<open>The \<open>state\<close> and \<open>detail\<close> members of the health item.\<close>

fun health :: "store_seal \<Rightarrow> string \<times> string option" where
  "health (Sealing c) = (''ok'', None)"
| "health Compat = (''compat'', Some COMPAT_HEALTH)"
| "health (Unhealthy reason) = (''unhealthy'', Some reason)"

fun cipher_of :: "store_seal \<Rightarrow> content_cipher option" where
  "cipher_of (Sealing c) = Some c"
| "cipher_of _ = None"

fun is_sealing :: "store_seal \<Rightarrow> bool" where
  "is_sealing (Sealing c) = True"
| "is_sealing _ = False"

fun ensure_writable :: "store_seal \<Rightarrow> seal_error + unit" where
  "ensure_writable (Unhealthy reason) = Inl (Refused reason)"
| "ensure_writable _ = Inr ()"

fun seal_text :: "platform \<Rightarrow> store_seal \<Rightarrow> string \<Rightarrow> content_context \<Rightarrow> byte list \<Rightarrow> seal_error + string" where
  "seal_text P (Sealing c) value ctx n = seal_text_with_nonce P c value ctx n"
| "seal_text P Compat value ctx n =
     (if starts_with value CONTENT_TEXT_FAMILY then Inr (COMPAT_ESCAPE @ value) else Inr value)"
| "seal_text P (Unhealthy reason) value ctx n = Inl (Refused reason)"

definition seal_opt ::
  "platform \<Rightarrow> store_seal \<Rightarrow> string option \<Rightarrow> content_context \<Rightarrow> byte list \<Rightarrow> seal_error + string option" where
  "seal_opt P seal value ctx n = traverse_opt (\<lambda>v. seal_text P seal v ctx n) value"

definition open_text_detailed ::
  "platform \<Rightarrow> store_seal \<Rightarrow> string \<Rightarrow> content_context \<Rightarrow> seal_error + (string \<times> bool)" where
  "open_text_detailed P seal stored ctx =
     (case strip_prefix stored COMPAT_ESCAPE of
        Some inner \<Rightarrow> Inr (inner, is_sealing seal)
      | None \<Rightarrow>
          (case seal of
             Sealing c \<Rightarrow> bindE (Content_Crypto.open_text P c stored ctx)
               (\<lambda>opened. Inr (op_value opened, op_needs_reseal opened))
           | _ \<Rightarrow> if is_sealed_text stored then Inl NoKeyForSealed else Inr (stored, False)))"

definition seal_open_text ::
  "platform \<Rightarrow> store_seal \<Rightarrow> string \<Rightarrow> content_context \<Rightarrow> seal_error + string" where
  "seal_open_text P seal stored ctx =
     bindE (open_text_detailed P seal stored ctx) (\<lambda>(value, _). Inr value)"

definition open_opt ::
  "platform \<Rightarrow> store_seal \<Rightarrow> string option \<Rightarrow> content_context \<Rightarrow> seal_error + string option" where
  "open_opt P seal stored ctx = traverse_opt (\<lambda>s. seal_open_text P seal s ctx) stored"

fun seal_bytes ::
  "platform \<Rightarrow> store_seal \<Rightarrow> byte list \<Rightarrow> content_context \<Rightarrow> byte list \<Rightarrow> seal_error + byte list" where
  "seal_bytes P (Sealing c) value ctx n = seal_bytes_with_nonce P c value ctx n"
| "seal_bytes P Compat value ctx n =
     (if is_sealed_bytes value then Inl EnvelopeNeedsKey else Inr value)"
| "seal_bytes P (Unhealthy reason) value ctx n = Inl (Refused reason)"

definition seal_open_bytes ::
  "platform \<Rightarrow> store_seal \<Rightarrow> byte list \<Rightarrow> content_context \<Rightarrow> seal_error + byte list" where
  "seal_open_bytes P seal stored ctx =
     (case seal of
        Sealing c \<Rightarrow> bindE (Content_Crypto.open_bytes P c stored ctx) (\<lambda>opened. Inr (op_value opened))
      | _ \<Rightarrow> if is_sealed_bytes stored then Inl NoKeyForSealed else Inr stored)"

lemmas [eval_simps] = open_text_detailed_def seal_open_text_def open_opt_def seal_opt_def
  mismatch_def seal_open_bytes_def

section \<open>The sealing contract\<close>

text \<open>
  What the room store relies on: a value it writes sealed reads back as itself under the same
  context. Everything it does with sealed text follows from that, like the repeated
  open, extend, seal of a streamed reply.
\<close>

locale sealer =
  fixes fits :: "string \<Rightarrow> bool"
    and seal_val :: "string \<Rightarrow> 'c \<Rightarrow> byte list \<Rightarrow> 'e + string"
    and open_val :: "string \<Rightarrow> 'c \<Rightarrow> 'e + string"
  assumes round_trip: "fits v \<Longrightarrow> length n = NONCE_LEN \<Longrightarrow> seal_val v ctx n = Inr s \<Longrightarrow> open_val s ctx = Inr v"
    and fits_append: "fits v \<Longrightarrow> fits w \<Longrightarrow> fits (v @ w)"
begin

text \<open>A cell that streamed pieces are appended to: opened, extended and sealed for every piece.\<close>

fun append_sealed :: "'c \<Rightarrow> string \<Rightarrow> (string \<times> byte list) list \<Rightarrow> 'e + string" where
  "append_sealed ctx cell [] = Inr cell"
| "append_sealed ctx cell ((piece, n) # rest) =
     bindE (open_val cell ctx) (\<lambda>v. bindE (seal_val (v @ piece) ctx n) (\<lambda>s. append_sealed ctx s rest))"

lemma append_sealed_opens:
  assumes "open_val cell ctx = Inr v" and "fits v"
    and "\<forall>(piece, n) \<in> set pieces. fits piece \<and> length n = NONCE_LEN"
    and "append_sealed ctx cell pieces = Inr s"
  shows "open_val s ctx = Inr (v @ concat (map fst pieces))"
  using assms
proof (induction pieces arbitrary: cell v)
  case Nil
  then show ?case by simp
next
  case (Cons p pieces)
  obtain piece n where p: "p = (piece, n)" by (cases p)
  with Cons.prems obtain s' where s': "seal_val (v @ piece) ctx n = Inr s'"
    and rest: "append_sealed ctx s' pieces = Inr s"
    by (auto simp: bindE_eq_Inr)
  have fit: "fits (v @ piece)" using Cons.prems p fits_append by auto
  have "open_val s' ctx = Inr (v @ piece)"
    using round_trip [OF fit _ s'] Cons.prems p by auto
  from Cons.IH [OF this fit _ rest] Cons.prems p show ?case by auto
qed

lemma reseal_same:
  assumes "fits v" "length n = NONCE_LEN" "length m = NONCE_LEN"
    and "seal_val v ctx n = Inr s" "seal_val v ctx m = Inr t"
  shows "open_val s ctx = open_val t ctx"
  using round_trip [OF assms(1,2,4)] round_trip [OF assms(1,3,5)] by simp

end

text \<open>Concatenating well-formed strings gives a well-formed string.\<close>

lemma scalar_ok_full: "scalar_ok g \<Longrightarrow> full_group g"
  by (auto simp: scalar_ok_def full_group_def trailing_def Let_def cont_in_def split: list.splits if_splits)

lemma grouped_full: "\<forall>g\<in>set gs. full_group g \<Longrightarrow> grouped gs"
  by (induction gs) (auto simp: grouped_Cons full_imp_short)

lemma scalars_append:
  assumes "utf8_valid v"
  shows "scalars (v @ w) = scalars v @ scalars w"
proof -
  have "grouped (gs @ scalars w)" if "\<forall>g\<in>set gs. full_group g" for gs
    using that grouped_scalars [of w] full_imp_short by (induction gs) (auto simp: grouped_Cons)
  moreover have "\<forall>g\<in>set (scalars v). full_group g"
    using assms by (auto simp: utf8_valid_def scalar_ok_full)
  ultimately have "scalars (concat (scalars v @ scalars w)) = scalars v @ scalars w"
    by (intro scalars_concat) blast
  then show ?thesis by simp
qed

lemma utf8_valid_append: "utf8_valid v \<Longrightarrow> utf8_valid w \<Longrightarrow> utf8_valid (v @ w)"
  by (subst utf8_valid_def) (auto simp: scalars_append utf8_valid_def)

lemma utf8_valid_Nil [simp]: "utf8_valid []"
  by (simp add: utf8_valid_def)

lemma chars_append: "utf8_valid v \<Longrightarrow> chars (v @ w) = chars v @ chars w"
  by (simp add: chars_def scalars_append)

text \<open>Every state of a store but \<open>Unhealthy\<close> (which writes nothing) reads back what it wrote.\<close>

lemma escape_not_envelope: "strip_prefix (CONTENT_TEXT_PREFIX @ s) COMPAT_ESCAPE = None"
  by (simp add: strip_prefix_def const_defs)

lemma seal_text_round_trip:
  assumes "aead_laws P" "b64_laws P" "utf8_valid v" "length n = NONCE_LEN"
    and "seal_text P seal v ctx n = Inr s"
  shows "seal_open_text P seal s ctx = Inr v"
proof (cases seal)
  case (Sealing c)
  with assms(5) have e: "seal_text_with_nonce P c v ctx n = Inr s" by simp
  then obtain ct where "s = CONTENT_TEXT_PREFIX @ b64_encode P (n @ ct)"
    by (rule seal_text_form)
  then have "strip_prefix s COMPAT_ESCAPE = None" by (simp only: escape_not_envelope)
  with Sealing open_text_seal_text [OF assms(1,2,4,3) e] show ?thesis
    by (simp add: seal_open_text_def open_text_detailed_def)
next
  case Compat
  show ?thesis
  proof (cases "starts_with v CONTENT_TEXT_FAMILY")
    case True
    with assms(5) Compat have "s = COMPAT_ESCAPE @ v" by simp
    then show ?thesis by (simp add: seal_open_text_def open_text_detailed_def)
  next
    case False
    with assms(5) Compat have s: "s = v" by simp
    have "strip_prefix v COMPAT_ESCAPE = None" and "\<not> is_sealed_text v"
      using False by (auto simp: strip_prefix_None is_sealed_text_def starts_with_iff const_defs)
    with s Compat show ?thesis by (simp add: seal_open_text_def open_text_detailed_def)
  qed
next
  case (Unhealthy reason)
  with assms(5) show ?thesis by simp
qed

lemma seal_bytes_round_trip:
  assumes "aead_laws P" "length n = NONCE_LEN" "seal_bytes P seal v ctx n = Inr s"
  shows "seal_open_bytes P seal s ctx = Inr v"
  using assms open_bytes_seal_bytes [OF assms(1,2)]
  by (cases seal) (auto simp: seal_open_bytes_def split: if_splits)

interpretation store_sealer: sealer "\<lambda>v. utf8_valid v \<and> aead_laws P \<and> b64_laws P"
  "seal_text P seal" "seal_open_text P seal" for P seal
  by unfold_locales (auto simp: utf8_valid_append seal_text_round_trip)

interpretation cipher_sealer: sealer "\<lambda>v. utf8_valid v \<and> aead_laws P \<and> b64_laws P"
  "seal_text_with_nonce P c"
  "\<lambda>s ctx. bindE (Content_Crypto.open_text P c s ctx) (\<lambda>opened. Inr (op_value opened))" for P c
  by unfold_locales (auto simp: utf8_valid_append open_text_seal_text)

text \<open>A value written before a key was held opens once one is, and is reported for resealing.\<close>

lemma compat_upgrade:
  assumes "seal_text P Compat v ctx n = Inr s"
  shows "open_text_detailed P (Sealing c) s ctx = Inr (v, v \<noteq> [])"
proof (cases "starts_with v CONTENT_TEXT_FAMILY")
  case True
  then have "v \<noteq> []" by (auto simp: starts_with_def const_defs)
  with True assms show ?thesis by (auto simp: open_text_detailed_def)
next
  case False
  with assms have s: "s = v" by simp
  have "strip_prefix v COMPAT_ESCAPE = None" "strip_prefix v CONTENT_TEXT_PREFIX = None"
    using False by (auto simp: strip_prefix_None starts_with_iff const_defs)
  with s False show ?thesis by (simp add: open_text_detailed_def open_text_def)
qed

text \<open>
  Whatever a store seals and writes it opens again as the same value (\<open>Sealing\<close> and
  \<open>Compat\<close>, values that look like envelopes included); a value written in \<open>Compat\<close> mode opens
  after the process receives a key, flagged to be written back sealed; and an \<open>Unhealthy\<close> store
  writes nothing.
\<close>

theorem store_seal_round_trip:
  assumes "aead_laws P" "b64_laws P" "utf8_valid v" "length n = NONCE_LEN"
    and "seal_text P seal v ctx n = Inr s"
  shows "seal_open_text P seal s ctx = Inr v \<and> (\<forall>reason. seal \<noteq> Unhealthy reason)
    \<and> (seal = Compat \<longrightarrow> (\<forall>c. open_text_detailed P (Sealing c) s ctx = Inr (v, v \<noteq> [])))"
  using assms compat_upgrade [of P v ctx n s] store_sealer.round_trip [of v P n seal ctx s]
  by (cases seal) auto

theorem store_seal_round_trip_witness:
  "seal_open_text sample_platform Compat ''encb:raw:encb:v1:x'' (for_id ''m.text'' ''1'')
     = Inr ''encb:v1:x''"
proof -
  have fit: "utf8_valid ''encb:v1:x''" and
    s: "seal_text sample_platform Compat ''encb:v1:x'' (for_id ''m.text'' ''1'') (nonce (sample_draws 0) 0)
      = Inr ''encb:raw:encb:v1:x''"
    by (simp_all add: eval_simps)
  show ?thesis
    using store_seal_round_trip [OF sample_aead_laws sample_b64_laws fit _ s]
    by (simp add: sample_draws_def NONCE_LEN_def)
qed

end
