(* ===== verification/Migration_Cells.thy ===== *)
theory Migration_Cells
  imports Content_Sqlite Store_Seal
begin

text \<open>
  One value under the migration: what a store that seals reads from it stays the same, and the
  sealed value is left alone from then on.
\<close>

section \<open>What is read\<close>

text \<open>What the store's own read path (\<open>StoreSeal::Sealing\<close>) makes of a stored value.\<close>

definition reads :: "platform \<Rightarrow> reals \<Rightarrow> content_cipher \<Rightarrow> column_kind \<Rightarrow> sql_value \<Rightarrow> content_context \<Rightarrow> byte list option" where
  "reads P R cipher kind v ctx = (case kind of
       TextColumn \<Rightarrow> (case value_text R v of
           None \<Rightarrow> None
         | Some t \<Rightarrow> (case seal_open_text P (Sealing cipher) t ctx of Inr s \<Rightarrow> Some (as_bytes s) | Inl _ \<Rightarrow> None))
     | BlobColumn \<Rightarrow> (if v = Null then None
         else case seal_open_bytes P (Sealing cipher) (value_bytes R v) ctx of Inr b \<Rightarrow> Some b | Inl _ \<Rightarrow> None))"

text \<open>Text columns hold UTF-8, and so does the text of a number.\<close>

definition valid_value :: "reals \<Rightarrow> sql_value \<Rightarrow> bool" where
  "valid_value R v \<longleftrightarrow> (case v of Text t \<Rightarrow> utf8_valid t | Real r \<Rightarrow> utf8_valid (real_text R r) | _ \<Rightarrow> True)"

lemma scalars_ascii: "ord_of c < 192 \<Longrightarrow> scalars (c # s) = [c] # scalars s"
  by (simp add: trailing_def)

lemma utf8_valid_ascii: "list_all (\<lambda>c. ord_of c < 128) p \<Longrightarrow> utf8_valid (p @ s) = utf8_valid s"
proof (induction p)
  case (Cons c p)
  then have "scalars (c # p @ s) = [c] # scalars (p @ s)" by (intro scalars_ascii) simp
  with Cons show ?case by (simp add: utf8_valid_def scalar_ok_def del: scalars.simps)
qed simp

lemma nat_text_ascii: "list_all (\<lambda>c. ord_of c < 128) (nat_text n)"
  using nat_text_digits [of n] by (auto simp: list_all_iff is_ascii_digit_def)

lemma int_text_valid: "utf8_valid (int_text i)"
proof -
  have "list_all (\<lambda>c. ord_of c < 128) (int_text i)"
    using nat_text_ascii by (auto simp: int_text_def ord_of_def)
  then show ?thesis using utf8_valid_ascii [of "int_text i" "[]"] by (simp add: utf8_valid_def)
qed

lemma from_utf8_valid: "from_utf8 bs = Some s \<Longrightarrow> utf8_valid s"
  by (auto simp: from_utf8_def Let_def split: if_splits)

lemma value_text_valid: "valid_value R v \<Longrightarrow> value_text R v = Some t \<Longrightarrow> utf8_valid t"
  by (auto simp: valid_value_def value_text_def int_text_valid from_utf8_valid split: sql_value.splits)

lemma value_text_Text [simp]: "value_text R (Text t) = Some t"
  by (simp add: value_text_def)

lemma unescaped_valid: "utf8_valid t \<Longrightarrow> utf8_valid (unescaped s t)"
proof -
  assume "utf8_valid t"
  then show ?thesis
    using utf8_valid_ascii [of COMPAT_ESCAPE]
    by (auto simp: unescaped_def strip_prefix_Some COMPAT_ESCAPE_def ord_of_def split: option.splits)
qed

lemma open_text_valid: "open_text P c t ctx = Inr opened \<Longrightarrow> utf8_valid t \<Longrightarrow> utf8_valid (op_value opened)"
  by (auto simp: open_text_def bindE_eq_Inr from_utf8_valid split: option.splits if_splits prod.splits)

lemma sealed_text_no_escape: "is_sealed_text s \<Longrightarrow> strip_prefix s COMPAT_ESCAPE = None"
proof -
  assume "is_sealed_text s"
  then obtain r where "s = CONTENT_TEXT_PREFIX @ r"
    by (metis append_take_drop_id is_sealed_text_def starts_with_def)
  then show ?thesis by (simp add: strip_prefix_def CONTENT_TEXT_PREFIX_def COMPAT_ESCAPE_def)
qed

section \<open>Sealing a value keeps what is read\<close>

text \<open>A value that a run looks at and leaves alone.\<close>

definition settled :: "platform \<Rightarrow> reals \<Rightarrow> content_cipher \<Rightarrow> column_kind \<Rightarrow> sql_value \<Rightarrow> content_context \<Rightarrow> bool" where
  "settled P R cipher kind v ctx \<longleftrightarrow>
     (\<exists>n. reseal_value P R cipher kind v ctx n \<in> {Inr Already, Inr Unreadable})"

lemma classify_eq:
  "classify r = Inr (Reseal s) \<longleftrightarrow> r = Inr (Some s)"
  "classify r = Inr Already \<longleftrightarrow> r = Inr None"
  "classify r = Inr Unreadable \<longleftrightarrow> (\<exists>e. r = Inl e \<and> is_content_seal_error e)"
  by (auto simp: classify_def split: sum.splits option.splits if_splits)

lemma reseal_text:
  assumes laws: "aead_laws P" "b64_laws P" and n: "length n = NONCE_LEN" and v: "valid_value R v"
    and run: "reseal_value P R cipher TextColumn v ctx n = Inr (Reseal s)"
  shows "reads P R cipher TextColumn s ctx = reads P R cipher TextColumn v ctx
    \<and> reads P R cipher TextColumn v ctx \<noteq> None \<and> valid_value R s
    \<and> (\<forall>m. reseal_value P R cipher TextColumn s ctx m = Inr Already) \<and> cell_open P cipher TextColumn s ctx"
proof -
  from run have "v \<noteq> Null" by (auto simp: reseal_value_def)
  then obtain t opened e where t: "value_text R v = Some t" and o: "open_text P cipher t ctx = Inr opened"
    and e: "seal_text_with_nonce P cipher (unescaped t (op_value opened)) ctx n = Inr e" and s: "s = Text e"
    using run by (auto simp: reseal_value_def classify_eq bindE_eq_Inr split: option.splits if_splits)
  have "utf8_valid t" using value_text_valid [OF v t] .
  then have valid: "utf8_valid (unescaped t (op_value opened))"
    using open_text_valid [OF o] unescaped_valid by blast
  have new: "open_text P cipher e ctx = Inr \<lparr>op_value = unescaped t (op_value opened), op_needs_reseal = False\<rparr>"
    by (rule open_text_seal_text [OF laws n valid e])
  have sealed: "is_sealed_text e" using is_sealed_text_seal [OF e] .
  have "seal_open_text P (Sealing cipher) e ctx = Inr (unescaped t (op_value opened))"
    by (simp add: seal_open_text_def open_text_detailed_def sealed_text_no_escape [OF sealed] new)
  moreover have "seal_open_text P (Sealing cipher) t ctx = Inr (unescaped t (op_value opened))"
  proof (cases "is_sealed_text t")
    case True
    then show ?thesis
      by (simp add: seal_open_text_def open_text_detailed_def sealed_text_no_escape o unescaped_def is_sealed_text_def)
  next
    case False
    then have "op_value opened = t"
      using o by (auto simp: open_text_def is_sealed_text_def starts_with_def strip_prefix_def split: if_splits)
    with False show ?thesis
      by (auto simp: seal_open_text_def open_text_detailed_def o unescaped_def is_sealed_text_def split: option.split)
  qed
  moreover have "utf8_valid e"
  proof -
    obtain ct where e': "e = CONTENT_TEXT_PREFIX @ b64_encode P (n @ ct)" using e by (rule seal_text_form)
    have "list_all (\<lambda>c. ord_of c < 128) e"
      using laws(2) unfolding e' by (auto simp: b64_laws_def list_all_iff CONTENT_TEXT_PREFIX_def ord_of_def)
    then show ?thesis using utf8_valid_ascii [of e "[]"] by (simp add: utf8_valid_def)
  qed
  ultimately show ?thesis
    using sealed by (simp add: reads_def s t valid_value_def reseal_value_def new classify_def cell_open_def)
qed

lemma reseal_bytes:
  assumes laws: "aead_laws P" and n: "length n = NONCE_LEN"
    and run: "reseal_value P R cipher BlobColumn v ctx n = Inr (Reseal s)"
  shows "reads P R cipher BlobColumn s ctx = reads P R cipher BlobColumn v ctx
    \<and> reads P R cipher BlobColumn v ctx \<noteq> None \<and> valid_value R s
    \<and> (\<forall>m. reseal_value P R cipher BlobColumn s ctx m = Inr Already) \<and> cell_open P cipher BlobColumn s ctx"
proof -
  from run have "v \<noteq> Null" by (auto simp: reseal_value_def)
  then obtain opened e where o: "open_bytes P cipher (value_bytes R v) ctx = Inr opened"
    and e: "seal_bytes_with_nonce P cipher (op_value opened) ctx n = Inr e" and s: "s = Blob e"
    using run by (auto simp: reseal_value_def classify_eq bindE_eq_Inr split: if_splits)
  have new: "open_bytes P cipher e ctx = Inr \<lparr>op_value = op_value opened, op_needs_reseal = False\<rparr>"
    by (rule open_bytes_seal_bytes [OF laws n e])
  moreover have "is_sealed_bytes e"
    using e by (auto simp: seal_bytes_with_nonce_def is_sealed_bytes_def bindE_eq_Inr split: if_splits)
  ultimately show ?thesis
    using o \<open>v \<noteq> Null\<close>
    by (simp add: reads_def s value_bytes_def valid_value_def reseal_value_def classify_def cell_open_def seal_open_bytes_def)
qed

text \<open>Both kinds: the read value stays, and a run leaves the sealed value alone.\<close>

lemma reseal_keeps:
  assumes "aead_laws P" "b64_laws P" "length n = NONCE_LEN" "valid_value R v"
    and "reseal_value P R cipher kind v ctx n = Inr (Reseal s)"
  shows "reads P R cipher kind s ctx = reads P R cipher kind v ctx" "valid_value R s"
    "settled P R cipher kind s ctx" "cell_open P cipher kind s ctx"
  using assms reseal_text [OF assms(1-4)] reseal_bytes [OF assms(1,3)]
  by (cases kind; force simp: settled_def)+

end
