(* ===== verification/Migration_Batches.thy ===== *)
theory Migration_Batches
  imports Migration_Cells
begin

text \<open>
  One item of the migration, while no other connection writes: a batch visits the next rows in key
  order, each exactly once; the loop ends and has visited every row.
\<close>

section \<open>Tables with a proper key\<close>

definition plan_fits :: "column_plan \<Rightarrow> table \<Rightarrow> bool" where
  "plan_fits plan t \<longleftrightarrow> set (plan_columns plan) \<subseteq> set (tb_columns t)
     \<and> cp_column plan \<noteq> cp_key plan \<and> cp_column plan \<notin> set (cp_context_columns plan)"

definition key_of_row :: "column_plan \<Rightarrow> sql_row \<Rightarrow> sql_value" where
  "key_of_row plan r = r (cp_key plan)"

definition row_rank :: "reals \<Rightarrow> column_plan \<Rightarrow> sql_row \<Rightarrow> nat \<times> rat \<times> string" where
  "row_rank R plan r = sql_rank R (key_of_row plan r)"

definition key_fits :: "column_plan \<Rightarrow> sql_value \<Rightarrow> bool" where
  "key_fits plan v \<longleftrightarrow> (case cp_key_kind plan of
       TextKey \<Rightarrow> (\<exists>s. v = Text s) | IntegerKey \<Rightarrow> (\<exists>i. v = Integer i \<and> is_i64 i))"

definition keyed :: "reals \<Rightarrow> column_plan \<Rightarrow> sql_row list \<Rightarrow> bool" where
  "keyed R plan rows \<longleftrightarrow> distinct (map (row_rank R plan) rows) \<and> (\<forall>r\<in>set rows. key_fits plan (key_of_row plan r))"

definition row_context :: "column_plan \<Rightarrow> sql_row \<Rightarrow> content_context" where
  "row_context plan r = cp_context plan (plan_row_key plan (key_of_row plan r) (map r (cp_context_columns plan)))"

lemma key_fits_not_Null: "key_fits plan v \<Longrightarrow> v \<noteq> Null"
  by (auto simp: key_fits_def split: key_kind.splits)

lemma cursor_of_key: "key_fits plan v \<Longrightarrow> cursor_value plan (order_key R (plan_row_key plan v es)) = Inr v"
  by (auto simp: key_fits_def cursor_value_def order_key_def plan_row_key_def key_text_def parse_int_text
      split: key_kind.splits)

lemma keyed_inj: "keyed R plan rows \<Longrightarrow> r \<in> set rows \<Longrightarrow> s \<in> set rows \<Longrightarrow> row_rank R plan r = row_rank R plan s \<Longrightarrow> r = s"
  by (auto simp: keyed_def distinct_map inj_on_def)

lemma keyed_distinct: "keyed R plan rows \<Longrightarrow> distinct rows"
  by (auto simp: keyed_def distinct_map)

section \<open>Visiting rows\<close>

definition sealed_from :: "platform \<Rightarrow> reals \<Rightarrow> content_cipher \<Rightarrow> column_plan \<Rightarrow> sql_row \<Rightarrow> sql_row \<Rightarrow> bool" where
  "sealed_from P R cipher plan r r' \<longleftrightarrow> (\<exists>n s. length n = NONCE_LEN \<and> r' = r(cp_column plan := s)
     \<and> reseal_value P R cipher (cp_kind plan) (r (cp_column plan)) (row_context plan r) n = Inr (Reseal s))"

definition visited :: "platform \<Rightarrow> reals \<Rightarrow> content_cipher \<Rightarrow> column_plan \<Rightarrow> sql_row \<Rightarrow> sql_row \<Rightarrow> bool" where
  "visited P R cipher plan r r' \<longleftrightarrow> sealed_from P R cipher plan r r'
     \<or> (r' = r \<and> settled P R cipher (cp_kind plan) (r (cp_column plan)) (row_context plan r))"

definition put_rows :: "string \<Rightarrow> table \<Rightarrow> sql_row list \<Rightarrow> connection \<Rightarrow> connection" where
  "put_rows name t rows = on_data (\<lambda>d. d\<lparr>sd_tables := (sd_tables d)(name \<mapsto> t\<lparr>tb_rows := rows\<rparr>)\<rparr>)"

definition nonces_ok :: "sql_world \<Rightarrow> bool" where
  "nonces_ok W \<longleftrightarrow> (\<forall>i. length (nonce (sw_draws W) i) = NONCE_LEN)"

definition looked_at :: "progress \<Rightarrow> nat" where
  "looked_at g = mr_sealed (pg_report g) + mr_already_sealed (pg_report g) + mr_unreadable (pg_report g)"

lemma plan_rows_run:
  "sd_tables (cn_data c) (cp_table plan) = Some t \<Longrightarrow> plan_fits plan t \<Longrightarrow> plan_rows plan c = (Inr (tb_rows t), c)"
  by (simp add: plan_rows_def bindS_def plan_fits_def list_all_iff subset_iff)

lemma column_kept:
  assumes "plan_fits plan t"
  shows "key_of_row plan (r(cp_column plan := s)) = key_of_row plan r"
    "row_rank R plan (r(cp_column plan := s)) = row_rank R plan r"
    "row_context plan (r(cp_column plan := s)) = row_context plan r"
proof -
  show key: "key_of_row plan (r(cp_column plan := s)) = key_of_row plan r"
    using assms by (auto simp: plan_fits_def key_of_row_def)
  then show "row_rank R plan (r(cp_column plan := s)) = row_rank R plan r" by (simp add: row_rank_def)
  have "map (r(cp_column plan := s)) (cp_context_columns plan) = map r (cp_context_columns plan)"
    using assms by (auto simp: plan_fits_def)
  with key show "row_context plan (r(cp_column plan := s)) = row_context plan r"
    by (simp only: row_context_def)
qed

lemma visited_kept:
  assumes "plan_fits plan t" and "visited P R cipher plan r r'"
  shows "row_rank R plan r' = row_rank R plan r" "key_of_row plan r' = key_of_row plan r"
    "row_context plan r' = row_context plan r" "x \<noteq> cp_column plan \<Longrightarrow> r' x = r x"
  using assms column_kept [OF assms(1)] by (auto simp: visited_def sealed_from_def)

lemma distinct_filter_one: "distinct xs \<Longrightarrow> r \<in> set xs \<Longrightarrow> filter (\<lambda>x. x = r) xs = [r]"
  by (induction xs) (auto simp: filter_empty_conv)

lemma update_cell_run:
  assumes t: "sd_tables (cn_data c) (cp_table plan) = Some t" "plan_fits plan t"
    and keyed: "keyed R plan (tb_rows t)" and r: "r \<in> set (tb_rows t)"
  shows "update_cell R plan s (key_of_row plan r) (r (cp_column plan)) c
    = (Inr 1, put_rows (cp_table plan) t (map (\<lambda>x. if x = r then r(cp_column plan := s) else x) (tb_rows t)) c)"
proof -
  have here: "cell_is R plan (key_of_row plan r) (r (cp_column plan)) x \<longleftrightarrow> x = r" if "x \<in> set (tb_rows t)" for x
  proof
    assume "cell_is R plan (key_of_row plan r) (r (cp_column plan)) x"
    then have "row_rank R plan x = row_rank R plan r" by (simp add: cell_is_def sql_eq_def row_rank_def key_of_row_def)
    with keyed_inj [OF keyed that r] show "x = r" .
  next
    assume "x = r"
    moreover have "key_of_row plan r \<noteq> Null" using keyed r key_fits_not_Null by (auto simp: keyed_def)
    ultimately show "cell_is R plan (key_of_row plan r) (r (cp_column plan)) x"
      by (simp add: cell_is_def sql_eq_def key_of_row_def)
  qed
  have "upd (cell_is R plan (key_of_row plan r) (r (cp_column plan))) (\<lambda>x. x(cp_column plan := s)) (tb_rows t)
      = map (\<lambda>x. if x = r then r(cp_column plan := s) else x) (tb_rows t)"
    unfolding upd_def
  proof (rule map_cong [OF refl])
    fix x assume "x \<in> set (tb_rows t)"
    from here [OF this]
    show "(if cell_is R plan (key_of_row plan r) (r (cp_column plan)) x then x(cp_column plan := s) else x)
      = (if x = r then r(cp_column plan := s) else x)" by simp
  qed
  moreover have "cnt (cell_is R plan (key_of_row plan r) (r (cp_column plan))) (tb_rows t) = 1"
  proof -
    have "filter (cell_is R plan (key_of_row plan r) (r (cp_column plan))) (tb_rows t) = filter (\<lambda>x. x = r) (tb_rows t)"
      by (rule filter_cong [OF refl]) (rule here)
    also have "\<dots> = [r]" using keyed_distinct [OF keyed] r by (rule distinct_filter_one)
    finally show ?thesis by (simp add: cnt_def)
  qed
  ultimately show ?thesis
    using t by (simp add: update_cell_def bindS_def plan_rows_run put_rows_def)
      (simp add: on_data_def)
qed

lemma put_rows_tables [simp]:
  "sd_tables (cn_data (put_rows name t rows c)) = (sd_tables (cn_data c))(name \<mapsto> t\<lparr>tb_rows := rows\<rparr>)"
  "sd_seal (cn_data (put_rows name t rows c)) = sd_seal (cn_data c)"
  "cn_secure_delete (put_rows name t rows c) = cn_secure_delete c"
  by (simp_all add: put_rows_def on_data_def)

lemma put_rows_twice [simp]: "put_rows name t' rows' (put_rows name t rows c) = put_rows name t' rows' c"
  by (simp add: put_rows_def on_data_def)

lemma put_rows_same: "sd_tables (cn_data c) name = Some t \<Longrightarrow> put_rows name t (tb_rows t) c = c"
  by (simp add: put_rows_def on_data_def fun_upd_idem)

text \<open>One row: sealed by a Reseal, else left alone; every row is counted once and none races.\<close>

lemma migrate_row_run:
  assumes t: "sd_tables (cn_data c) (cp_table plan) = Some t" "plan_fits plan t"
    and keyed: "keyed R plan (tb_rows t)" and r: "r \<in> set (tb_rows t)" and W: "nonces_ok W"
    and run: "migrate_row P R W cipher plan (row_cells plan r) g c = (Inr g', c')"
  shows "\<exists>r'. visited P R cipher plan r r'
    \<and> c' = put_rows (cp_table plan) t (map (\<lambda>x. if x = r then r' else x) (tb_rows t)) c
    \<and> looked_at g' = looked_at g + 1 \<and> mr_raced (pg_report g') = mr_raced (pg_report g) \<and> pg_tx g' = pg_tx g"
proof -
  let ?n = "nonce (sw_draws W) (pg_seen g)"
  let ?res = "reseal_value P R cipher (cp_kind plan) (r (cp_column plan)) (row_context plan r) ?n"
  have cells: "row_cells plan r = (key_of_row plan r, r (cp_column plan), map r (cp_context_columns plan))"
    by (simp add: row_cells_def key_of_row_def)
  have same: "put_rows (cp_table plan) t (map (\<lambda>x. if x = r then r else x) (tb_rows t)) c = c"
    using put_rows_same [OF t(1)] by (simp cong: if_cong)
  obtain out where out: "?res = Inr out"
    using run by (cases ?res) (auto simp: migrate_row_def cells bindS_def row_context_def [symmetric] Let_def)
  show ?thesis
  proof (cases out)
    case (Reseal s)
    let ?r = "r(cp_column plan := s)"
    have "sealed_from P R cipher plan r ?r"
      using out Reseal W unfolding sealed_from_def nonces_ok_def by blast
    moreover have "g' = bump (mr_sealed_update Suc) (g\<lparr>pg_seen := pg_seen g + 1\<rparr>)"
        "c' = put_rows (cp_table plan) t (map (\<lambda>x. if x = r then ?r else x) (tb_rows t)) c"
      using run out update_cell_run [OF t keyed r, of s]
      by (simp_all add: migrate_row_def cells row_context_def [symmetric] Let_def Reseal bindS_def)
    ultimately show ?thesis by (intro exI [of _ ?r]) (simp add: visited_def looked_at_def bump_def)
  next
    case Already
    then have "settled P R cipher (cp_kind plan) (r (cp_column plan)) (row_context plan r)"
      using out unfolding settled_def by blast
    moreover have "g' = bump (mr_already_sealed_update Suc) (g\<lparr>pg_seen := pg_seen g + 1\<rparr>)" "c' = c"
      using run out by (simp_all add: migrate_row_def cells row_context_def [symmetric] Let_def Already bindS_def)
    ultimately show ?thesis using same by (intro exI [of _ r]) (simp add: visited_def looked_at_def bump_def)
  next
    case Unreadable
    then have "settled P R cipher (cp_kind plan) (r (cp_column plan)) (row_context plan r)"
      using out unfolding settled_def by blast
    moreover have "g' = bump (mr_unreadable_update Suc) (g\<lparr>pg_seen := pg_seen g + 1\<rparr>)" "c' = c"
      using run out by (simp_all add: migrate_row_def cells row_context_def [symmetric] Let_def Unreadable bindS_def)
    ultimately show ?thesis using same by (intro exI [of _ r]) (simp add: visited_def looked_at_def bump_def)
  qed
qed

lemma keyed_replace:
  assumes "plan_fits plan t" "keyed R plan rows" "visited P R cipher plan r r'"
  shows "keyed R plan (map (\<lambda>x. if x = r then r' else x) rows)"
proof -
  let ?h = "\<lambda>x. if x = r then r' else x"
  note kept = visited_kept(1,2) [OF assms(1,3)]
  have "row_rank R plan (?h x) = row_rank R plan x" for x using kept by simp
  then have "map (row_rank R plan) (map ?h rows) = map (row_rank R plan) rows"
    by (simp add: comp_def split del: if_split)
  moreover have "key_fits plan (key_of_row plan (?h x))" if "x \<in> set rows" for x
    using assms(2) that kept by (auto simp: keyed_def)
  ultimately show ?thesis using assms(2) by (simp only: keyed_def set_map ball_simps) blast
qed

text \<open>A list of rows.\<close>

lemma migrate_rows_run:
  assumes "sd_tables (cn_data c) (cp_table plan) = Some t" and fits: "plan_fits plan t"
    and "keyed R plan (tb_rows t)" and "set B \<subseteq> set (tb_rows t)" "distinct B" and W: "nonces_ok W"
    and "migrate_rows P R W cipher plan (map (row_cells plan) B) g c = (Inr g', c')"
  shows "\<exists>rows. c' = put_rows (cp_table plan) t rows c
    \<and> list_all2 (\<lambda>r r'. if r \<in> set B then visited P R cipher plan r r' else r' = r) (tb_rows t) rows
    \<and> looked_at g' = looked_at g + length B \<and> mr_raced (pg_report g') = mr_raced (pg_report g) \<and> pg_tx g' = pg_tx g"
  using assms(1,3-5,7) fits
proof (induction B arbitrary: c g t)
  case Nil
  then show ?case using put_rows_same [OF Nil.prems(1)]
    by (intro exI [of _ "tb_rows t"]) (auto intro: list_all2_refl)
next
  case (Cons r B)
  obtain g1 c1 where run1: "migrate_row P R W cipher plan (row_cells plan r) g c = (Inr g1, c1)"
    and run2: "migrate_rows P R W cipher plan (map (row_cells plan) B) g1 c1 = (Inr g', c')"
    using Cons.prems(5) by (auto simp: bindS_eq_Inr)
  have r: "r \<in> set (tb_rows t)" using Cons.prems(3) by simp
  obtain r' where v: "visited P R cipher plan r r'"
    and c1: "c1 = put_rows (cp_table plan) t (map (\<lambda>x. if x = r then r' else x) (tb_rows t)) c"
    and g1: "looked_at g1 = looked_at g + 1" "mr_raced (pg_report g1) = mr_raced (pg_report g)" "pg_tx g1 = pg_tx g"
    using migrate_row_run [OF Cons.prems(1,6,2) r W run1] by blast
  let ?h = "\<lambda>x. if x = r then r' else x"
  let ?t = "t\<lparr>tb_rows := map ?h (tb_rows t)\<rparr>"
  have fits1: "plan_fits plan ?t" using Cons.prems(6) by (simp add: plan_fits_def)
  have keyed1: "keyed R plan (tb_rows ?t)" using keyed_replace [OF Cons.prems(6,2) v] by simp
  have sub: "set B \<subseteq> set (tb_rows ?t)"
    using Cons.prems(3,4) by (auto simp: image_iff intro!: bexI)
  obtain rows where rows: "c' = put_rows (cp_table plan) ?t rows c1"
      "list_all2 (\<lambda>r r'. if r \<in> set B then visited P R cipher plan r r' else r' = r) (tb_rows ?t) rows"
      "looked_at g' = looked_at g1 + length B" "mr_raced (pg_report g') = mr_raced (pg_report g1)" "pg_tx g' = pg_tx g1"
    using Cons.IH [of c1 ?t g1] run2 keyed1 sub Cons.prems(4) fits1 by (auto simp: c1)
  have "r' \<notin> set B"
  proof
    assume "r' \<in> set B"
    then have "r' \<in> set (tb_rows t)" using Cons.prems(3) by auto
    then have "r' = r" using keyed_inj [OF Cons.prems(2) _ r] visited_kept(1) [OF Cons.prems(6) v] by auto
    with \<open>r' \<in> set B\<close> Cons.prems(4) show False by simp
  qed
  then have "list_all2 (\<lambda>x x'. if x \<in> set (r # B) then visited P R cipher plan x x' else x' = x) (tb_rows t) rows"
    using rows(2) v unfolding list_all2_conv_all_nth by (auto split: if_splits)
  with rows g1 c1 show ?case
    by (intro exI [of _ rows]) (simp add: put_rows_def on_data_def)
qed

section \<open>Batches\<close>

text \<open>The rows still to visit after a cursor.\<close>

definition beyond :: "reals \<Rightarrow> column_plan \<Rightarrow> sql_value option \<Rightarrow> sql_row \<Rightarrow> bool" where
  "beyond R plan after r \<longleftrightarrow> (case after of None \<Rightarrow> True | Some v \<Rightarrow> sql_greater R (key_of_row plan r) v)"

definition cursor_at :: "column_plan \<Rightarrow> string option \<Rightarrow> sql_value option \<Rightarrow> bool" where
  "cursor_at plan cursor after \<longleftrightarrow> traverse_opt (cursor_value plan) cursor = Inr after \<and> after \<noteq> Some Null"

definition to_visit :: "reals \<Rightarrow> column_plan \<Rightarrow> sql_value option \<Rightarrow> sql_row list \<Rightarrow> sql_row list" where
  "to_visit R plan after rows = sort_key (row_rank R plan) (filter (beyond R plan after) rows)"

lemma select_batch_run:
  assumes "sd_tables (cn_data c) (cp_table plan) = Some t" "plan_fits plan t" "cursor_at plan cursor after"
  shows "select_batch R plan cursor c
    = (Inr (map (row_cells plan) (take BATCH_SIZE (to_visit R plan after (tb_rows t)))), c)"
proof -
  have "(case after of None \<Rightarrow> tb_rows t | Some v \<Rightarrow> filter (\<lambda>r. sql_greater R (r (cp_key plan)) v) (tb_rows t))
      = filter (beyond R plan after) (tb_rows t)"
    by (cases after) (simp_all add: beyond_def [abs_def] key_of_row_def)
  with assms(3) show ?thesis
    by (simp add: select_batch_def bindS_def plan_rows_run [OF assms(1,2)] cursor_at_def Let_def to_visit_def
        row_rank_def [abs_def] key_of_row_def)
qed

lemma set_to_visit [simp]: "set (to_visit R plan after rows) = {r \<in> set rows. beyond R plan after r}"
  by (auto simp: to_visit_def)

lemma sorted_to_visit: "sorted (map (row_rank R plan) (to_visit R plan after rows))"
  by (simp add: to_visit_def)

lemma distinct_to_visit: "keyed R plan rows \<Longrightarrow> distinct (map (row_rank R plan) (to_visit R plan after rows))"
  unfolding to_visit_def keyed_def
  by (simp add: distinct_map inj_on_def)

lemma sorted_last: "sorted (map f xs) \<Longrightarrow> x \<in> set xs \<Longrightarrow> f x \<le> f (last xs)"
  by (induction xs) auto

text \<open>A full batch: what is beyond the new cursor is what was to visit and not in the batch.\<close>

lemma beyond_batch:
  assumes keyed: "keyed R plan rows" and l: "L = to_visit R plan after rows" and B: "B = take n L" "B \<noteq> []"
    and r: "r \<in> set rows"
  shows "beyond R plan (Some (key_of_row plan (last B))) r \<longleftrightarrow> beyond R plan after r \<and> r \<notin> set B"
proof -
  let ?rk = "row_rank R plan"
  have last: "last B \<in> set rows" "beyond R plan after (last B)"
    using last_in_set [OF B(2)] set_take_subset [of n L] by (auto simp: B(1) l)
  have fits: "key_fits plan (key_of_row plan x)" if "x \<in> set rows" for x
    using keyed that by (simp add: keyed_def)
  have greater: "beyond R plan (Some (key_of_row plan y)) x \<longleftrightarrow> ?rk y < ?rk x" if "x \<in> set rows" "y \<in> set rows" for x y
    using key_fits_not_Null [OF fits] that by (auto simp: beyond_def sql_greater_def row_rank_def)
  have split: "sorted (map ?rk B @ map ?rk (drop n L))" "distinct (map ?rk B @ map ?rk (drop n L))"
    using sorted_to_visit [of R plan after rows] distinct_to_visit [OF keyed, of after] unfolding B(1) l
    by (metis append_take_drop_id map_append)+
  have "sorted (map ?rk B)" using split(1) by (simp add: sorted_append)
  then have in_B: "?rk x \<le> ?rk (last B)" if "x \<in> set B" for x
    using that by (rule sorted_last)
  have after_B: "?rk (last B) < ?rk x" if "x \<in> set (drop n L)" for x
    using split that last_in_set [OF B(2)] by (force simp: sorted_append order.strict_iff_order)
  have old: "beyond R plan after r" if "?rk (last B) < ?rk r"
    using that last(2) by (auto simp: beyond_def sql_greater_def row_rank_def key_fits_not_Null [OF fits [OF r]]
        split: option.splits)
  have "r \<in> set L \<longleftrightarrow> beyond R plan after r" using r by (simp add: l)
  moreover have "set L = set B \<union> set (drop n L)" unfolding B(1) by (metis append_take_drop_id set_append)
  ultimately show ?thesis
    using greater [OF r last(1)] in_B [of r] after_B [of r] old by (auto simp: not_less)
qed

section \<open>The state table\<close>

text \<open>What the state table holds for an item; an upsert changes one entry.\<close>

definition seal_at :: "connection \<Rightarrow> string \<Rightarrow> string \<Rightarrow> seal_row option" where
  "seal_at c store item = Option.bind (sd_seal (cn_data c)) (find (for_item store item))"

lemma find_upd: "(\<And>r. Q (f r) = Q r) \<Longrightarrow> find Q (upd H f rows) = map_option (\<lambda>r. if H r then f r else r) (find Q rows)"
  by (induction rows) (auto simp: upd_def)

lemma find_none_ex: "\<not> list_ex Q rows \<Longrightarrow> find Q rows = None"
  by (induction rows) auto

lemma find_append: "find Q (xs @ ys) = (case find Q xs of None \<Rightarrow> find Q ys | Some x \<Rightarrow> Some x)"
  by (induction xs) auto

lemma find_upsert:
  assumes "\<And>r. sr_store (f r) = sr_store r \<and> sr_item (f r) = sr_item r"
  shows "find (for_item s i) (upsert new f rows) =
    (if sr_store new = s \<and> sr_item new = i
     then Some (case find (for_item s i) rows of None \<Rightarrow> new | Some r \<Rightarrow> f r)
     else find (for_item s i) rows)"
proof -
  let ?here = "for_item (sr_store new) (sr_item new)"
  have f: "for_item a b (f r) = for_item a b r" for a b r using assms by (simp add: for_item_def)
  show ?thesis
  proof (cases "list_ex ?here rows")
    case True
    have found: "find Q rows \<noteq> None" if "list_ex Q rows" for Q :: "seal_row \<Rightarrow> bool"
      using that by (induction rows) auto
    have other: "\<not> ?here r" if "find (for_item s i) rows = Some r" "\<not> (sr_store new = s \<and> sr_item new = i)" for r
      using find_SomeD [OF that(1)] that(2) by (auto simp: for_item_def)
    show ?thesis
      using True f found [OF True] other
      by (auto simp: upsert_def find_upd for_item_def [of "sr_store new"] dest: find_SomeD split: option.splits)
  next
    case False
    then show ?thesis
      using find_none_ex [OF False]
      by (auto simp: upsert_def find_append for_item_def split: option.splits)
  qed
qed

lemma write_rows_run:
  "sd_seal (cn_data c) = Some rows \<Longrightarrow> write_rows f c = (Inr (), on_data (sd_seal_update (\<lambda>_. Some (f rows))) c)"
  by (simp add: write_rows_def seal_rows_def bindS_def)

lemma seal_at_on_data:
  "seal_at (on_data (sd_seal_update (\<lambda>_. Some rows)) c) s i = find (for_item s i) rows"
  by (simp add: seal_at_def on_data_def)

text \<open>A connection whose state table exists.\<close>

definition has_table :: "connection \<Rightarrow> bool" where
  "has_table c \<longleftrightarrow> sd_seal (cn_data c) \<noteq> None"

lemma set_item_run:
  assumes "has_table c"
  obtains c' where "set_item store item state cursor c = (Inr (), c')"
    "sd_tables (cn_data c') = sd_tables (cn_data c)" "has_table c'"
    "\<And>s i. seal_at c' s i = (if s = store \<and> i = item
      then Some (case seal_at c store item of
          None \<Rightarrow> \<lparr>sr_store = store, sr_item = item, sr_state = state, sr_cursor = cursor, sr_kcv = None, sr_min_reader = SUPPORTED_MIN_READER\<rparr>
        | Some r \<Rightarrow> r\<lparr>sr_state := state, sr_cursor := cursor\<rparr>)
      else seal_at c s i)"
    "cn_secure_delete c' = cn_secure_delete c"
proof -
  obtain rows where rows: "sd_seal (cn_data c) = Some rows" using assms by (auto simp: has_table_def)
  show thesis
    by (rule that [OF set_item_def [THEN fun_cong, THEN trans, OF write_rows_run [OF rows]]])
      (auto simp: seal_at_on_data find_upsert seal_at_def rows on_data_def has_table_def)
qed

section \<open>A batch and the loop\<close>

text \<open>No other connection writes.\<close>

definition idle :: "sql_world \<Rightarrow> bool" where
  "idle W \<longleftrightarrow> (\<forall>t d. sw_others W t d = d)"

lemma on_data_id: "on_data (\<lambda>d. d) c = c"
  by (simp add: on_data_def)

lemma transaction_idle:
  assumes "idle W" and "transaction W t m c = (r, c')"
  shows "(case r of Inl e \<Rightarrow> c' = c | Inr x \<Rightarrow> m c = (Inr x, c'))"
proof -
  have "on_data (sw_others W t) c = c"
    using assms(1) by (simp add: idle_def on_data_def)
  with assms(2) show ?thesis
    by (auto simp: transaction_def atomically_def bindS_def split: prod.splits sum.splits if_splits)
qed

definition item_progress :: "string \<Rightarrow> string \<Rightarrow> string \<Rightarrow> string option \<Rightarrow> seal_row option \<Rightarrow> seal_row" where
  "item_progress store item state cursor before = (case before of
       None \<Rightarrow> \<lparr>sr_store = store, sr_item = item, sr_state = state, sr_cursor = cursor, sr_kcv = None, sr_min_reader = SUPPORTED_MIN_READER\<rparr>
     | Some r \<Rightarrow> r\<lparr>sr_state := state, sr_cursor := cursor\<rparr>)"

text \<open>What one transaction of an item leaves: new rows of its table, and the entry of the item.\<close>

definition item_step :: "string \<Rightarrow> column_plan \<Rightarrow> table \<Rightarrow> sql_row list \<Rightarrow> string \<Rightarrow> string option \<Rightarrow> connection \<Rightarrow> connection \<Rightarrow> bool" where
  "item_step store plan t rows state cursor c c' \<longleftrightarrow>
     sd_tables (cn_data c') = (sd_tables (cn_data c))(cp_table plan \<mapsto> t\<lparr>tb_rows := rows\<rparr>)
     \<and> has_table c' \<and> cn_secure_delete c' = cn_secure_delete c
     \<and> (\<forall>s i. seal_at c' s i = (if s = store \<and> i = plan_item plan
          then Some (item_progress store (plan_item plan) state cursor (seal_at c s i)) else seal_at c s i))"

lemma migrate_batch_run:
  assumes W: "idle W" "nonces_ok W" and c: "has_table c" "sd_tables (cn_data c) (cp_table plan) = Some t"
    and t: "plan_fits plan t" "keyed R plan (tb_rows t)" and cur: "cursor_at plan cursor after"
    and B: "B = take BATCH_SIZE (to_visit R plan after (tb_rows t))"
    and run: "migrate_batch P R W cipher plan cursor g c = (Inr (cursor', g', n), c')"
  shows "n = length B \<and> cursor_at plan cursor' (if B = [] then after else Some (key_of_row plan (last B)))
    \<and> (\<exists>rows. item_step (cc_store cipher) plan t rows SEALING cursor' c c'
      \<and> list_all2 (\<lambda>r r'. if r \<in> set B then visited P R cipher plan r r' else r' = r) (tb_rows t) rows)
    \<and> looked_at g' = looked_at g + length B \<and> mr_raced (pg_report g') = mr_raced (pg_report g)"
proof -
  let ?g = "g\<lparr>pg_tx := pg_tx g + 1\<rparr>"
  have sel: "select_batch R plan cursor c = (Inr (map (row_cells plan) B), c)"
    using select_batch_run [OF c(2) t(1) cur] B by simp
  obtain c1 where rows: "migrate_rows P R W cipher plan (map (row_cells plan) B) ?g c = (Inr g', c1)"
    and cursor': "cursor' = (if B = [] then cursor else Some (order_key R (plan_row_key plan (fst (last (map (row_cells plan) B))) [])))"
    and item: "set_item (cc_store cipher) (plan_item plan) SEALING cursor' c1 = (Inr (), c')" and n: "n = length B"
    using transaction_idle [OF W(1) run [unfolded migrate_batch_def]] sel
    by (auto simp: bindS_eq_Inr Let_def)
  have sub: "set B \<subseteq> set (tb_rows t)" using set_take_subset unfolding B by fastforce
  have dist: "distinct B" unfolding B using distinct_to_visit [OF t(2)] by (simp add: distinct_map)
  obtain new where new: "c1 = put_rows (cp_table plan) t new c"
      "list_all2 (\<lambda>r r'. if r \<in> set B then visited P R cipher plan r r' else r' = r) (tb_rows t) new"
      "looked_at g' = looked_at ?g + length B" "mr_raced (pg_report g') = mr_raced (pg_report ?g)"
    using migrate_rows_run [OF c(2) t sub dist W(2) rows] by blast
  have c1: "has_table c1" "\<And>s i. seal_at c1 s i = seal_at c s i"
    using c(1) by (simp_all add: new(1) has_table_def seal_at_def)
  have "item_step (cc_store cipher) plan t new SEALING cursor' c c'"
  proof (rule set_item_run [OF c1(1), of "cc_store cipher" "plan_item plan" SEALING cursor'])
    fix c2 assume c2: "set_item (cc_store cipher) (plan_item plan) SEALING cursor' c1 = (Inr (), c2)"
      "sd_tables (cn_data c2) = sd_tables (cn_data c1)" "has_table c2"
      "\<And>s i. seal_at c2 s i = (if s = cc_store cipher \<and> i = plan_item plan
        then Some (case seal_at c1 (cc_store cipher) (plan_item plan) of
            None \<Rightarrow> \<lparr>sr_store = cc_store cipher, sr_item = plan_item plan, sr_state = SEALING, sr_cursor = cursor',
              sr_kcv = None, sr_min_reader = SUPPORTED_MIN_READER\<rparr>
          | Some r \<Rightarrow> r\<lparr>sr_state := SEALING, sr_cursor := cursor'\<rparr>)
        else seal_at c1 s i)" "cn_secure_delete c2 = cn_secure_delete c1"
    then have "c2 = c'" using item by simp
    with c2 show ?thesis by (auto simp: item_step_def new(1) c1(2) [unfolded new(1)] item_progress_def)
  qed
  moreover have "cursor_at plan cursor' (if B = [] then after else Some (key_of_row plan (last B)))"
  proof (cases "B = []")
    case False
    then have "last B \<in> set (tb_rows t)" using sub by auto
    then have fits: "key_fits plan (key_of_row plan (last B))" using t(2) by (simp add: keyed_def)
    have "fst (last (map (row_cells plan) B)) = key_of_row plan (last B)"
      using False by (simp add: last_map row_cells_def key_of_row_def)
    with False show ?thesis
      using cursor_of_key [OF fits, of R "[]"] key_fits_not_Null [OF fits] by (simp add: cursor' cursor_at_def)
  qed (use cur in \<open>simp add: cursor'\<close>)
  ultimately show ?thesis
    using new n by (intro conjI exI [of _ new]) (simp_all add: looked_at_def split del: if_split)
qed

lemma list_all2_compose:
  assumes "list_all2 A xs ys" "list_all2 B ys zs" "\<And>x y z. x \<in> set xs \<Longrightarrow> A x y \<Longrightarrow> B y z \<Longrightarrow> C x z"
  shows "list_all2 C xs zs"
  using assms unfolding list_all2_conv_all_nth by auto

lemma list_all2_rows: "list_all2 (\<lambda>r r'. if Q r then visited P R cipher plan r r' else r' = r) rows rows'
   \<Longrightarrow> plan_fits plan t \<Longrightarrow> keyed R plan rows \<Longrightarrow> keyed R plan rows'"
proof -
  assume a: "list_all2 (\<lambda>r r'. if Q r then visited P R cipher plan r r' else r' = r) rows rows'" "plan_fits plan t" "keyed R plan rows"
  have kept: "row_rank R plan r' = row_rank R plan r \<and> key_of_row plan r' = key_of_row plan r"
    if "if Q r then visited P R cipher plan r r' else r' = r" for r r'
    using that visited_kept(1,2) [OF a(2)] by (cases "Q r") auto
  have "map (row_rank R plan) rows' = map (row_rank R plan) rows" "map (key_of_row plan) rows' = map (key_of_row plan) rows"
    using a(1) kept by (auto simp: list_all2_conv_all_nth list_eq_iff_nth_eq)
  moreover have "keyed R plan rows \<longleftrightarrow> distinct (map (row_rank R plan) rows) \<and> (\<forall>k\<in>set (map (key_of_row plan) rows). key_fits plan k)" for rows
    by (auto simp: keyed_def)
  ultimately show ?thesis using a(3) by metis
qed

lemma list_all2_filter_length:
  "list_all2 A xs ys \<Longrightarrow> (\<And>x y. A x y \<Longrightarrow> Q x = Q y) \<Longrightarrow> length (filter Q xs) = length (filter Q ys)"
  by (induction rule: list_all2_induct) auto

lemma length_filter_split:
  assumes "distinct xs" "distinct B" "set B \<subseteq> {x \<in> set xs. Q x}"
  shows "length (filter (\<lambda>x. Q x \<and> x \<notin> set B) xs) + length B = length (filter Q xs)"
proof -
  have "{x \<in> set xs. Q x} = {x \<in> set xs. Q x \<and> x \<notin> set B} \<union> set B" using assms(3) by auto
  moreover have "card ({x \<in> set xs. Q x \<and> x \<notin> set B} \<union> set B) = card {x \<in> set xs. Q x \<and> x \<notin> set B} + card (set B)"
    by (rule card_Un_disjoint) auto
  ultimately have "card {x \<in> set xs. Q x} = card {x \<in> set xs. Q x \<and> x \<notin> set B} + card (set B)"
    by simp
  moreover have "length (filter F xs) = card {x \<in> set xs. F x}" for F
    by (metis assms(1) distinct_card distinct_filter set_filter)
  ultimately show ?thesis using distinct_card [OF assms(2)] by simp
qed

text \<open>
  The loop ends. The rows it has visited are those between its first cursor and its last, and it
  visited each of them; when it succeeds no row is beyond the last cursor.
\<close>

definition visits :: "platform \<Rightarrow> reals \<Rightarrow> content_cipher \<Rightarrow> column_plan \<Rightarrow> (sql_row \<Rightarrow> bool) \<Rightarrow> sql_row list \<Rightarrow> sql_row list \<Rightarrow> bool" where
  "visits P R cipher plan Q rows rows' \<longleftrightarrow>
     list_all2 (\<lambda>r r'. if Q r then visited P R cipher plan r r' else r' = r) rows rows'"

definition went :: "platform \<Rightarrow> reals \<Rightarrow> content_cipher \<Rightarrow> column_plan \<Rightarrow> sql_value option \<Rightarrow> sql_value option \<Rightarrow> sql_row list \<Rightarrow> sql_row list \<Rightarrow> bool" where
  "went P R cipher plan after after' rows rows' \<longleftrightarrow>
     visits P R cipher plan (\<lambda>r. beyond R plan after r \<and> \<not> beyond R plan after' r) rows rows'
     \<and> (\<forall>r\<in>set rows. beyond R plan after' r \<longrightarrow> beyond R plan after r)"

lemma visits_cong: "(\<And>r. r \<in> set rows \<Longrightarrow> Q r = Q' r) \<Longrightarrow> visits P R cipher plan Q rows rows' = visits P R cipher plan Q' rows rows'"
  unfolding visits_def list_all2_conv_all_nth by auto

lemma visits_refl: "visits P R cipher plan (\<lambda>_. False) rows rows"
  by (simp add: visits_def list_all2_refl)

lemma went_refl: "went P R cipher plan after after rows rows"
  by (simp add: went_def visits_refl)

lemma beyond_visited:
  assumes "plan_fits plan t" "if b then visited P R cipher plan r r' else r' = r"
  shows "beyond R plan a r' = beyond R plan a r"
  using assms(2) visited_kept(2) [OF assms(1)] by (cases b) (auto simp: beyond_def split: option.split)

lemma list_all2_left: "list_all2 A xs ys \<Longrightarrow> x \<in> set xs \<Longrightarrow> \<exists>y\<in>set ys. A x y"
  by (metis in_set_conv_nth list_all2_conv_all_nth)

lemma went_trans:
  assumes fits: "plan_fits plan t"
    and a: "went P R cipher plan after after1 rows rows1" and b: "went P R cipher plan after1 after2 rows1 rows2"
  shows "went P R cipher plan after after2 rows rows2"
proof -
  have mono: "\<forall>r\<in>set rows. beyond R plan after2 r \<longrightarrow> beyond R plan after1 r"
  proof (intro ballI impI)
    fix r assume r: "r \<in> set rows" and beyond: "beyond R plan after2 r"
    obtain r1 where r1: "r1 \<in> set rows1"
        "if beyond R plan after r \<and> \<not> beyond R plan after1 r then visited P R cipher plan r r1 else r1 = r"
      using list_all2_left [OF a [unfolded went_def visits_def, THEN conjunct1] r] by blast
    note same = beyond_visited [OF fits r1(2)]
    have "beyond R plan after2 r1 \<longrightarrow> beyond R plan after1 r1" using b r1(1) by (simp add: went_def)
    then show "beyond R plan after1 r" using beyond same by simp
  qed
  have "visits P R cipher plan (\<lambda>r. beyond R plan after r \<and> \<not> beyond R plan after2 r) rows rows2"
    unfolding visits_def
  proof (rule list_all2_compose)
    show "list_all2 (\<lambda>r r'. if beyond R plan after r \<and> \<not> beyond R plan after1 r then visited P R cipher plan r r' else r' = r) rows rows1"
      using a by (simp add: went_def visits_def)
    show "list_all2 (\<lambda>r r'. if beyond R plan after1 r \<and> \<not> beyond R plan after2 r then visited P R cipher plan r r' else r' = r) rows1 rows2"
      using b by (simp add: went_def visits_def)
  next
    fix r r1 r2 assume r: "r \<in> set rows"
      and 1: "if beyond R plan after r \<and> \<not> beyond R plan after1 r then visited P R cipher plan r r1 else r1 = r"
      and 2: "if beyond R plan after1 r1 \<and> \<not> beyond R plan after2 r1 then visited P R cipher plan r1 r2 else r2 = r1"
    have "beyond R plan after1 r \<Longrightarrow> beyond R plan after r" using a r by (simp add: went_def)
    then show "if beyond R plan after r \<and> \<not> beyond R plan after2 r then visited P R cipher plan r r2 else r2 = r"
      using 1 2 mono r unfolding beyond_visited [OF fits 1]
      by (cases "beyond R plan after r"; cases "beyond R plan after1 r"; cases "beyond R plan after2 r") simp_all
  qed
  with mono a show ?thesis by (auto simp: went_def)
qed

lemma item_step_trans:
  "item_step store plan t rows SEALING cursor c c1
    \<Longrightarrow> item_step store plan (t\<lparr>tb_rows := rows\<rparr>) rows' SEALING cursor' c1 c'
    \<Longrightarrow> item_step store plan t rows' SEALING cursor' c c'"
  by (auto simp: item_step_def item_progress_def split: option.splits)

lemma item_loop_run:
  assumes W: "idle W" "nonces_ok W" and "has_table c" "sd_tables (cn_data c) (cp_table plan) = Some t"
    and "plan_fits plan t" "keyed R plan (tb_rows t)" and "cursor_at plan cursor after"
  shows "\<exists>res c' rows cursor' after'. item_loop P R W cipher plan cursor g c = Some (res, c')
    \<and> (c' = c \<and> rows = tb_rows t \<and> after' = after
       \<or> item_step (cc_store cipher) plan t rows SEALING cursor' c c' \<and> cursor_at plan cursor' after')
    \<and> went P R cipher plan after after' (tb_rows t) rows
    \<and> (\<forall>g'. res = Inr g' \<longrightarrow> mr_raced (pg_report g') = mr_raced (pg_report g)
         \<and> (\<forall>r\<in>set (tb_rows t). \<not> beyond R plan after' r)
         \<and> looked_at g' = looked_at g + length (filter (beyond R plan after) (tb_rows t)))"
  using assms(3-)
proof (induction "length (filter (beyond R plan after) (tb_rows t))" arbitrary: c t cursor after g rule: less_induct)
  case less
  note c = less.prems(1,2) and t = less.prems(3,4) and cur = less.prems(5)
  define B where "B = take BATCH_SIZE (to_visit R plan after (tb_rows t))"
  obtain res1 c1 where batch: "migrate_batch P R W cipher plan cursor g c = (res1, c1)" by fastforce
  show ?case
  proof (cases res1)
    case (Inl e)
    then have "c1 = c" using transaction_idle [OF W(1) batch [unfolded migrate_batch_def]] by simp
    with Inl batch show ?thesis
      by (intro exI [of _ "Inl e"] exI [of _ c] exI [of _ "tb_rows t"] exI [of _ cursor] exI [of _ after])
        (simp add: item_loop.simps went_refl)
  next
    case (Inr x)
    obtain cursor1 g1 n where x: "x = (cursor1, g1, n)" by (cases x) auto
    note run = migrate_batch_run [OF W c t cur B_def batch [unfolded Inr x]]
    let ?after = "if B = [] then after else Some (key_of_row plan (last B))"
    obtain rows1 where step: "item_step (cc_store cipher) plan t rows1 SEALING cursor1 c c1"
      and vis: "list_all2 (\<lambda>r r'. if r \<in> set B then visited P R cipher plan r r' else r' = r) (tb_rows t) rows1"
      using run by blast
    have n: "n = length B" and g1: "looked_at g1 = looked_at g + length B" "mr_raced (pg_report g1) = mr_raced (pg_report g)"
      and cur1: "cursor_at plan cursor1 ?after"
      using run by simp_all
    have in_B: "r \<in> set B \<Longrightarrow> beyond R plan after r" for r
      using set_take_subset [of BATCH_SIZE "to_visit R plan after (tb_rows t)"] by (auto simp: B_def)
    have beyond1: "beyond R plan ?after r \<longleftrightarrow> beyond R plan after r \<and> r \<notin> set B" if "r \<in> set (tb_rows t)" for r
      using beyond_batch [OF t(2) refl B_def _ that] by simp
    have step1: "went P R cipher plan after ?after (tb_rows t) rows1"
    proof -
      have "visits P R cipher plan (\<lambda>r. r \<in> set B) (tb_rows t) rows1" using vis by (simp add: visits_def)
      also have "visits P R cipher plan (\<lambda>r. r \<in> set B) (tb_rows t) rows1
          = visits P R cipher plan (\<lambda>r. beyond R plan after r \<and> \<not> beyond R plan ?after r) (tb_rows t) rows1"
        by (rule visits_cong) (use beyond1 in_B in blast)
      finally have "visits P R cipher plan (\<lambda>r. beyond R plan after r \<and> \<not> beyond R plan ?after r) (tb_rows t) rows1" .
      then show ?thesis unfolding went_def using beyond1 by blast
    qed
    have len: "length (to_visit R plan after (tb_rows t)) = length (filter (beyond R plan after) (tb_rows t))"
      by (simp add: to_visit_def)
    show ?thesis
    proof (cases "n < BATCH_SIZE")
      case True
      then have all: "B = to_visit R plan after (tb_rows t)" by (simp add: n B_def)
      then have "\<forall>r\<in>set (tb_rows t). \<not> beyond R plan ?after r" using beyond1 by auto
      moreover have "item_loop P R W cipher plan cursor g c = Some (Inr g1, c1)"
        using True by (simp add: item_loop.simps batch Inr x)
      ultimately show ?thesis
        using step step1 cur1 g1 len [folded all]
        by (intro exI [of _ "Inr g1"] exI [of _ c1] exI [of _ rows1] exI [of _ cursor1] exI [of _ ?after])
          (simp del: if_split split del: if_split)
    next
      case False
      then have full: "length B = BATCH_SIZE" by (auto simp: n B_def)
      let ?t = "t\<lparr>tb_rows := rows1\<rparr>"
      have c1: "has_table c1" "sd_tables (cn_data c1) (cp_table plan) = Some ?t"
        using step by (simp_all add: item_step_def)
      have t1: "plan_fits plan ?t" "keyed R plan (tb_rows ?t)"
        using t list_all2_rows [OF vis t] by (simp_all add: plan_fits_def)
      have rest: "length (filter (beyond R plan after) (tb_rows t)) = length (filter (beyond R plan ?after) rows1) + length B"
      proof -
        have "length (filter (beyond R plan ?after) rows1) = length (filter (beyond R plan ?after) (tb_rows t))"
          by (rule list_all2_filter_length [OF vis, symmetric]) (rule beyond_visited [OF t(1), symmetric])
        also have "filter (beyond R plan ?after) (tb_rows t) = filter (\<lambda>r. beyond R plan after r \<and> r \<notin> set B) (tb_rows t)"
          using beyond1 by (rule filter_cong [OF refl])
        also have "length \<dots> + length B = length (filter (beyond R plan after) (tb_rows t))"
        proof (rule length_filter_split)
          show "distinct (tb_rows t)" by (rule keyed_distinct [OF t(2)])
          show "distinct B" unfolding B_def using distinct_to_visit [OF t(2)] by (simp add: distinct_map)
          show "set B \<subseteq> {r \<in> set (tb_rows t). beyond R plan after r}"
            using set_take_subset [of BATCH_SIZE "to_visit R plan after (tb_rows t)"] by (auto simp: B_def)
        qed
        finally show ?thesis by simp
      qed
      have less: "length (filter (beyond R plan ?after) (tb_rows ?t)) < length (filter (beyond R plan after) (tb_rows t))"
        using rest full by (simp add: BATCH_SIZE_def)
      obtain res c' rows cursor' after' where IH: "item_loop P R W cipher plan cursor1 g1 c1 = Some (res, c')"
          "c' = c1 \<and> rows = tb_rows ?t \<and> after' = ?after
           \<or> item_step (cc_store cipher) plan ?t rows SEALING cursor' c1 c' \<and> cursor_at plan cursor' after'"
          "went P R cipher plan ?after after' (tb_rows ?t) rows"
          "\<And>g'. res = Inr g' \<Longrightarrow> mr_raced (pg_report g') = mr_raced (pg_report g1)
             \<and> (\<forall>r\<in>set (tb_rows ?t). \<not> beyond R plan after' r)
             \<and> looked_at g' = looked_at g1 + length (filter (beyond R plan ?after) (tb_rows ?t))"
        using less.hyps [OF less c1 t1 cur1, of g1] by (elim exE conjE) (rule that, assumption+, blast)
      have loop: "item_loop P R W cipher plan cursor g c = Some (res, c')"
        using False IH(1) by (simp add: item_loop.simps [of _ _ _ _ _ cursor] batch Inr x)
      have "\<exists>cur. item_step (cc_store cipher) plan t rows SEALING cur c c' \<and> cursor_at plan cur after'"
        using IH(2) item_step_trans [OF step, of rows cursor' c'] step cur1 by auto
      moreover have "went P R cipher plan after after' (tb_rows t) rows"
        using went_trans [OF t(1) step1] IH(3) by simp
      moreover have "mr_raced (pg_report g') = mr_raced (pg_report g) \<and> (\<forall>r\<in>set (tb_rows t). \<not> beyond R plan after' r)
          \<and> looked_at g' = looked_at g + length (filter (beyond R plan after) (tb_rows t))" if ended: "res = Inr g'" for g'
      proof -
        have "\<not> beyond R plan after' r" if r: "r \<in> set (tb_rows t)" for r
        proof -
          obtain r1 where r1: "r1 \<in> set rows1" "if r \<in> set B then visited P R cipher plan r r1 else r1 = r"
            using list_all2_left [OF vis r] by blast
          have "\<not> beyond R plan after' r1" using IH(4) [OF ended] r1(1) by simp
          then show ?thesis by (simp add: beyond_visited [OF t(1) r1(2)])
        qed
        then show ?thesis using IH(4) [OF ended] g1 rest by simp
      qed
      ultimately show ?thesis using loop by blast
    qed
  qed
qed

end
