(* ===== verification/Content_Migration.thy ===== *)
theory Content_Migration
  imports Migration_Batches
begin

text \<open>
  A whole run of the migration: it ends, seals what it visits without changing what is read, and
  leaves the scrub owed whenever it has rewritten a value.
\<close>

section \<open>What the store owes\<close>

lemma int_text_head: "\<exists>c cs. int_text i = c # cs \<and> (c = CHR ''-'' \<or> is_ascii_digit (ord_of c))"
  using nat_text_head [of "nat i"] by (auto simp: int_text_def)

lemma pending_round_trip:
  assumes "\<And>t. pc_last_attempt c = Some t \<Longrightarrow> is_i64 t"
  shows "pending_parse (pending_encode c) = c"
proof -
  have not_scrubbed: "strip_prefix (int_text t) SCRUBBED_CURSOR = None" for t
    using int_text_head [of t] by (auto simp: strip_prefix_def SCRUBBED_CURSOR_def is_ascii_digit_def ord_of_def)
  have "strip_prefix SCRUBBED_CURSOR SCRUBBED_CURSOR = Some []"
    using strip_prefix_append [of SCRUBBED_CURSOR "[]"] by simp
  then show ?thesis
    using assms not_scrubbed
    by (cases c) (auto simp: pending_parse_def pending_encode_def pending_default_def parse_int_text strip_prefix_def [of "_ # _"]
        strip_prefix_def [of "[]"] split: option.splits bool.splits)
qed

lemma parse_i64_range: "parse_i64 s = Some t \<Longrightarrow> is_i64 t"
  by (auto simp: parse_i64_def is_i64_def split: list.splits char.splits bool.splits option.splits if_splits)

lemma pending_parse_range: "pc_last_attempt (pending_parse cursor) = Some t \<Longrightarrow> is_i64 t"
  by (auto simp: pending_parse_def pending_default_def bind_eq_Some_conv dest: parse_i64_range split: option.splits)

text \<open>The store is marked: its freed pages may hold plaintext.\<close>

definition owes_scrub :: "string \<Rightarrow> connection \<Rightarrow> bool" where
  "owes_scrub store c \<longleftrightarrow> (\<exists>r. seal_at c store STORE_ITEM = Some r \<and> sr_state r = VACUUM_PENDING
     \<and> \<not> pc_scrubbed (pending_parse (sr_cursor r)))"

lemma plan_item_not_store: "plan_item plan \<noteq> STORE_ITEM"
proof
  assume "plan_item plan = STORE_ITEM"
  then have "CHR ''.'' \<in> set STORE_ITEM" by (metis plan_item_def plan_item_name_def in_set_conv_decomp append.assoc append_Cons append_Nil)
  then show False by (simp add: STORE_ITEM_def)
qed

lemma set_store_state_is_item: "set_store_state store state cursor = set_item store STORE_ITEM state cursor"
  by (simp add: set_store_state_def set_item_def)

lemma item_row_run: "has_table c \<Longrightarrow> item_row store item c = (Inr (map_option (\<lambda>r. (sr_state r, sr_cursor r)) (seal_at c store item)), c)"
  by (auto simp: item_row_def seal_rows_def bindS_def has_table_def seal_at_def)

text \<open>An operation that changes nothing but one entry of the state table.\<close>

definition only_entry :: "string \<Rightarrow> string \<Rightarrow> connection \<Rightarrow> connection \<Rightarrow> bool" where
  "only_entry store item c c' \<longleftrightarrow> sd_tables (cn_data c') = sd_tables (cn_data c) \<and> has_table c'
     \<and> cn_secure_delete c' = cn_secure_delete c \<and> (\<forall>s i. (s, i) \<noteq> (store, item) \<longrightarrow> seal_at c' s i = seal_at c s i)"

lemma set_item_entry:
  assumes "has_table c"
  shows "\<exists>c'. set_item store item state cursor c = (Inr (), c') \<and> only_entry store item c c'
    \<and> seal_at c' store item = Some (item_progress store item state cursor (seal_at c store item))"
  by (rule set_item_run [OF assms, of store item state cursor])
    (auto simp: only_entry_def item_progress_def)

lemma mark_scrub_owed_run:
  assumes "has_table c"
  shows "\<exists>c'. mark_scrub_owed store c = (Inr (), c') \<and> only_entry store STORE_ITEM c c' \<and> owes_scrub store c'
    \<and> map_option sr_kcv (seal_at c store STORE_ITEM) \<in> {None, map_option sr_kcv (seal_at c' store STORE_ITEM)}"
proof -
  have owed: "\<exists>c'. set_store_state store VACUUM_PENDING cursor c = (Inr (), c') \<and> only_entry store STORE_ITEM c c' \<and> owes_scrub store c'
      \<and> map_option sr_kcv (seal_at c store STORE_ITEM) \<in> {None, map_option sr_kcv (seal_at c' store STORE_ITEM)}"
    if "\<not> pc_scrubbed (pending_parse cursor)" for cursor
    using set_item_entry [OF assms, of store STORE_ITEM VACUUM_PENDING cursor] that
    by (auto simp: set_store_state_is_item owes_scrub_def item_progress_def split: option.splits)
  show ?thesis
  proof (cases "seal_at c store STORE_ITEM")
    case None
    then have "mark_scrub_owed store c = set_store_state store VACUUM_PENDING None c"
      by (simp add: mark_scrub_owed_def bindS_def item_row_run [OF assms])
    then show ?thesis using owed [of None] by (simp add: pending_parse_def pending_default_def)
  next
    case (Some r)
    show ?thesis
    proof (cases "sr_state r = VACUUM_PENDING")
      case False
      with Some have "mark_scrub_owed store c = set_store_state store VACUUM_PENDING None c"
        by (simp add: mark_scrub_owed_def bindS_def item_row_run [OF assms])
      then show ?thesis using owed [of None] by (simp add: pending_parse_def pending_default_def)
    next
      case True
      show ?thesis
      proof (cases "pc_scrubbed (pending_parse (sr_cursor r))")
        case False
        with Some True have "mark_scrub_owed store c = (Inr (), c)"
          by (simp add: mark_scrub_owed_def bindS_def item_row_run [OF assms] Let_def)
        with False Some True assms show ?thesis
          by (intro exI [of _ c]) (auto simp: only_entry_def owes_scrub_def)
      next
        case scrubbed: True
        let ?p = "pending_parse (sr_cursor r)\<lparr>pc_scrubbed := False\<rparr>"
        have "pending_parse (pending_encode ?p) = ?p"
          by (rule pending_round_trip) (auto dest: pending_parse_range)
        moreover have "mark_scrub_owed store c = set_store_state store VACUUM_PENDING (pending_encode ?p) c"
          using Some True scrubbed by (simp add: mark_scrub_owed_def bindS_def item_row_run [OF assms] Let_def set_pending_def)
        ultimately show ?thesis using owed [of "pending_encode ?p"] by simp
      qed
    qed
  qed
qed

lemma owes_scrub_kept: "only_entry store item c c' \<Longrightarrow> item \<noteq> STORE_ITEM \<Longrightarrow> owes_scrub store c' = owes_scrub store c"
  by (simp add: only_entry_def owes_scrub_def)

lemma record_store_kcv_run:
  assumes "has_table c"
  shows "\<exists>c'. record_store_kcv store kcv c = (Inr (), c') \<and> only_entry store STORE_ITEM c c'
    \<and> seal_at c' store STORE_ITEM = Some (case seal_at c store STORE_ITEM of
        None \<Rightarrow> \<lparr>sr_store = store, sr_item = STORE_ITEM, sr_state = OK, sr_cursor = None, sr_kcv = Some kcv, sr_min_reader = SUPPORTED_MIN_READER\<rparr>
      | Some r \<Rightarrow> r\<lparr>sr_kcv := Some kcv, sr_min_reader := max (sr_min_reader r) SUPPORTED_MIN_READER\<rparr>)"
proof -
  obtain rows where rows: "sd_seal (cn_data c) = Some rows" using assms by (auto simp: has_table_def)
  then have "ensure_state_table c = (Inr (), c)"
    by (simp add: ensure_state_table_def on_data_def)
  then have "record_store_kcv store kcv c = (Inr (), on_data (sd_seal_update (\<lambda>_. Some (upsert
     \<lparr>sr_store = store, sr_item = STORE_ITEM, sr_state = OK, sr_cursor = None, sr_kcv = Some kcv,
       sr_min_reader = SUPPORTED_MIN_READER\<rparr>
     (\<lambda>r. r\<lparr>sr_kcv := Some kcv, sr_min_reader := max (sr_min_reader r) SUPPORTED_MIN_READER\<rparr>) rows))) c)"
    by (simp add: record_store_kcv_def bindS_def write_rows_run [OF rows])
  then show ?thesis
    by (auto simp: only_entry_def seal_at_on_data find_upsert has_table_def on_data_def seal_at_def rows)
qed

section \<open>One item\<close>

definition unfinished :: "connection \<Rightarrow> string \<Rightarrow> column_plan \<Rightarrow> sql_value option \<Rightarrow> bool" where
  "unfinished c store plan after \<longleftrightarrow> (case seal_at c store (plan_item plan) of
       None \<Rightarrow> after = None
     | Some r \<Rightarrow> sr_state r \<noteq> SEALED \<and> cursor_at plan (sr_cursor r) after)"

definition item_sealed :: "connection \<Rightarrow> string \<Rightarrow> column_plan \<Rightarrow> bool" where
  "item_sealed c store plan \<longleftrightarrow> (\<exists>r. seal_at c store (plan_item plan) = Some r \<and> sr_state r = SEALED)"

lemma only_entry_refl: "has_table c \<Longrightarrow> only_entry store item c c"
  by (simp add: only_entry_def)

lemma start_item_run:
  assumes "idle W" "has_table c" and run: "start_item W cipher plan cursor g c = (r, c')"
  shows "sd_tables (cn_data c') = sd_tables (cn_data c) \<and> has_table c' \<and> cn_secure_delete c' = cn_secure_delete c
    \<and> (\<forall>i. i \<noteq> STORE_ITEM \<longrightarrow> i \<noteq> plan_item plan \<longrightarrow> seal_at c' (cc_store cipher) i = seal_at c (cc_store cipher) i)
    \<and> (\<forall>g'. r = Inr g' \<longrightarrow> owes_scrub (cc_store cipher) c' \<and> pg_report g' = pg_report g
        \<and> (\<exists>r. seal_at c' (cc_store cipher) (plan_item plan) = Some (item_progress (cc_store cipher) (plan_item plan) SEALING cursor r)))"
proof (cases r)
  case (Inl e)
  then show ?thesis using transaction_idle [OF assms(1) run [unfolded start_item_def]] assms(2) by simp
next
  case (Inr g')
  obtain c1 where c1: "mark_scrub_owed (cc_store cipher) c = (Inr (), c1)" "only_entry (cc_store cipher) STORE_ITEM c c1"
      "owes_scrub (cc_store cipher) c1"
    using mark_scrub_owed_run [OF assms(2)] by blast
  obtain c2 where c2: "set_item (cc_store cipher) (plan_item plan) SEALING cursor c1 = (Inr (), c2)"
      "only_entry (cc_store cipher) (plan_item plan) c1 c2"
      "seal_at c2 (cc_store cipher) (plan_item plan) = Some (item_progress (cc_store cipher) (plan_item plan) SEALING cursor
        (seal_at c1 (cc_store cipher) (plan_item plan)))"
    using set_item_entry [of c1 "cc_store cipher" "plan_item plan" SEALING cursor] c1(2) by (auto simp: only_entry_def)
  have "c' = c2" "g' = g\<lparr>pg_tx := pg_tx g + 1\<rparr>"
    using transaction_idle [OF assms(1) run [unfolded start_item_def Inr]] c1(1) c2(1) by (auto simp: bindS_def)
  moreover have "owes_scrub (cc_store cipher) c2"
    using owes_scrub_kept [OF c2(2) plan_item_not_store] c1(3) by simp
  ultimately show ?thesis using c1(2) c2(2,3) by (auto simp: only_entry_def Inr)
qed

lemma end_item_run:
  assumes "idle W" "has_table c" and run: "end_item W cipher plan was_retired g c = (r, c')"
  shows "sd_tables (cn_data c') = sd_tables (cn_data c) \<and> has_table c' \<and> cn_secure_delete c' = cn_secure_delete c
    \<and> (\<forall>i. i \<noteq> STORE_ITEM \<longrightarrow> i \<noteq> plan_item plan \<longrightarrow> seal_at c' (cc_store cipher) i = seal_at c (cc_store cipher) i)
    \<and> (owes_scrub (cc_store cipher) c \<longrightarrow> owes_scrub (cc_store cipher) c')
    \<and> (\<forall>g'. r = Inr g' \<longrightarrow> item_sealed c' (cc_store cipher) plan \<and> pg_report g' = pg_report g)"
proof (cases r)
  case (Inl e)
  then show ?thesis using transaction_idle [OF assms(1) run [unfolded end_item_def]] assms(2) by simp
next
  case (Inr g')
  let ?s = "cc_store cipher"
  obtain c1 where c1: "set_item ?s (plan_item plan) SEALED None c = (Inr (), c1)" "only_entry ?s (plan_item plan) c c1"
      "seal_at c1 ?s (plan_item plan) = Some (item_progress ?s (plan_item plan) SEALED None (seal_at c ?s (plan_item plan)))"
    using set_item_entry [OF assms(2)] by blast
  have t1: "has_table c1" using c1(2) by (simp add: only_entry_def)
  obtain all where all: "all_items_sealed ?s c1 = (Inr all, c1)"
    using t1 by (auto simp: all_items_sealed_def seal_rows_def bindS_def has_table_def)
  obtain c2 where c2: "record_store_kcv ?s (kcv_of cipher) c1 = (Inr (), c2)" "only_entry ?s STORE_ITEM c1 c2"
      "owes_scrub ?s c1 \<longrightarrow> owes_scrub ?s c2"
    using record_store_kcv_run [OF t1, of ?s "kcv_of cipher"] by (force simp: owes_scrub_def)
  have "c' \<in> {c1, c2}" "g' = g\<lparr>pg_tx := pg_tx g + 1\<rparr>"
    using transaction_idle [OF assms(1) run [unfolded end_item_def Inr]] c1(1) all c2(1)
    by (auto simp: bindS_def split: if_splits)
  moreover have "item_sealed c1 ?s plan"
    using c1(3) by (simp add: item_sealed_def item_progress_def split: option.split)
  moreover have "item_sealed c2 ?s plan = item_sealed c1 ?s plan"
    using c2(2) plan_item_not_store by (simp add: only_entry_def item_sealed_def)
  moreover have "owes_scrub ?s c1 = owes_scrub ?s c" by (rule owes_scrub_kept [OF c1(2) plan_item_not_store])
  ultimately show ?thesis using c1(2) c2(2,3) by (auto simp: only_entry_def Inr)
qed

text \<open>
  The outcome of an item: the rows between its first cursor and its last are visited, all of them
  when it was finished; otherwise the state table holds the last cursor. Other items are as before,
  and no row changed without the scrub being owed.
\<close>

definition item_done :: "platform \<Rightarrow> reals \<Rightarrow> content_cipher \<Rightarrow> column_plan \<Rightarrow> sql_value option \<Rightarrow> table \<Rightarrow> bool \<Rightarrow> connection \<Rightarrow> connection \<Rightarrow> bool" where
  "item_done P R cipher plan after t finished c c' \<longleftrightarrow>
     (\<exists>rows after'. sd_tables (cn_data c') = (sd_tables (cn_data c))(cp_table plan \<mapsto> t\<lparr>tb_rows := rows\<rparr>)
       \<and> went P R cipher plan after after' (tb_rows t) rows
       \<and> (if finished then item_sealed c' (cc_store cipher) plan \<and> (\<forall>r\<in>set (tb_rows t). \<not> beyond R plan after' r)
          else unfinished c' (cc_store cipher) plan after'))
     \<and> has_table c' \<and> cn_secure_delete c' = cn_secure_delete c
     \<and> (\<forall>i. i \<noteq> STORE_ITEM \<longrightarrow> i \<noteq> plan_item plan \<longrightarrow> seal_at c' (cc_store cipher) i = seal_at c (cc_store cipher) i)
     \<and> (owes_scrub (cc_store cipher) c' \<or> sd_tables (cn_data c') = sd_tables (cn_data c) \<and> \<not> owes_scrub (cc_store cipher) c)"

lemma Inl_not_range_Inr [simp]: "Inl x \<in> range Inr \<longleftrightarrow> False"
  by auto

lemma item_progress_fields [simp]:
  "sr_state (item_progress store item state cursor r) = state" "sr_cursor (item_progress store item state cursor r) = cursor"
  by (simp_all add: item_progress_def split: option.split)

lemma unfinished_progress:
  "seal_at c store (plan_item plan) = Some (item_progress store (plan_item plan) SEALING cursor r)
    \<Longrightarrow> cursor_at plan cursor after \<Longrightarrow> unfinished c store plan after"
  by (simp add: unfinished_def SEALING_def SEALED_def)

lemma migrate_item_run:
  assumes W: "idle W" "nonces_ok W" and c: "has_table c" "sd_tables (cn_data c) (cp_table plan) = Some t"
    and t: "plan_fits plan t" "keyed R plan (tb_rows t)" and todo: "unfinished c (cc_store cipher) plan after"
  shows "\<exists>res c'. migrate_item P R W cipher was_retired plan g c = Some (res, c')
    \<and> item_done P R cipher plan after t (res \<in> range Inr) c c'
    \<and> (\<forall>g'. res = Inr g' \<longrightarrow> mr_raced (pg_report g') = mr_raced (pg_report g)
        \<and> looked_at g' = looked_at g + length (filter (beyond R plan after) (tb_rows t)))"
proof -
  let ?s = "cc_store cipher"
  obtain state cursor where row: "(case map_option (\<lambda>r. (sr_state r, sr_cursor r)) (seal_at c ?s (plan_item plan)) of
      Some r \<Rightarrow> r | None \<Rightarrow> (PENDING, None)) = (state, cursor)" by fastforce
  have state: "state \<noteq> SEALED" and cur: "cursor_at plan cursor after"
    using todo row by (auto simp: unfinished_def cursor_at_def PENDING_def SEALED_def split: option.splits)
  obtain r1 c1 where start: "start_item W cipher plan cursor g c = (r1, c1)" by fastforce
  note s = start_item_run [OF W(1) c(1) start]
  have here: "(sd_tables (cn_data c))(cp_table plan \<mapsto> t\<lparr>tb_rows := tb_rows t\<rparr>) = sd_tables (cn_data c)"
    using c(2) by (auto simp: fun_upd_idem)
  show ?thesis
  proof (cases r1)
    case (Inl e)
    then have "c1 = c" using transaction_idle [OF W(1) start [unfolded start_item_def]] by simp
    moreover have "migrate_item P R W cipher was_retired plan g c = Some (Inl e, c1)"
      using row state start Inl by (simp add: migrate_item_def item_row_run [OF c(1)] Let_def)
    moreover have "item_done P R cipher plan after t False c c"
      using here c(1) todo unfolding item_done_def by (auto intro!: exI [of _ "tb_rows t"] exI [of _ after] went_refl)
    ultimately show ?thesis by (intro exI [of _ "Inl e"] exI [of _ c1]) simp
  next
    case (Inr g1)
    have c1: "has_table c1" "sd_tables (cn_data c1) (cp_table plan) = Some t" using s c(2) by simp_all
    have todo1: "unfinished c1 ?s plan after"
      using s Inr unfinished_progress [OF _ cur] by blast
    obtain res c2 rows cursor2 after' where loop: "item_loop P R W cipher plan cursor g1 c1 = Some (res, c2)"
        "c2 = c1 \<and> rows = tb_rows t \<and> after' = after
          \<or> item_step ?s plan t rows SEALING cursor2 c1 c2 \<and> cursor_at plan cursor2 after'"
        "went P R cipher plan after after' (tb_rows t) rows"
        "\<And>g'. res = Inr g' \<Longrightarrow> mr_raced (pg_report g') = mr_raced (pg_report g1)
           \<and> (\<forall>r\<in>set (tb_rows t). \<not> beyond R plan after' r)
           \<and> looked_at g' = looked_at g1 + length (filter (beyond R plan after) (tb_rows t))"
      using item_loop_run [OF W c1 t cur, of P cipher g1] by (elim exE conjE) (rule that, assumption+, blast)
    have tables2: "sd_tables (cn_data c2) = (sd_tables (cn_data c))(cp_table plan \<mapsto> t\<lparr>tb_rows := rows\<rparr>)"
        "has_table c2" "cn_secure_delete c2 = cn_secure_delete c"
        "\<forall>i. i \<noteq> STORE_ITEM \<longrightarrow> i \<noteq> plan_item plan \<longrightarrow> seal_at c2 ?s i = seal_at c ?s i"
      using loop(2) s here by (auto simp: item_step_def)
    have owes2: "owes_scrub ?s c2"
      using loop(2) s Inr plan_item_not_store [of plan] by (auto simp: item_step_def owes_scrub_def)
    have todo2: "unfinished c2 ?s plan after'"
      using loop(2) todo1 unfinished_progress [of c2 ?s plan cursor2 _ after'] by (auto simp: item_step_def)
    show ?thesis
    proof (cases res)
      case (Inl e)
      have "migrate_item P R W cipher was_retired plan g c = Some (Inl e, c2)"
        using row state start Inr loop(1) Inl by (simp add: migrate_item_def item_row_run [OF c(1)] Let_def)
      moreover have "item_done P R cipher plan after t False c c2"
        unfolding item_done_def using tables2 owes2 loop(3) todo2 by simp blast
      ultimately show ?thesis by (intro exI [of _ "Inl e"] exI [of _ c2]) simp
    next
      case (Inr g2)
      obtain r3 c3 where finish: "end_item W cipher plan was_retired g2 c2 = (r3, c3)" by fastforce
      note f = end_item_run [OF W(1) tables2(2) finish]
      have failed: "r3 = Inl e \<Longrightarrow> c3 = c2" for e
        using transaction_idle [OF W(1) finish [unfolded end_item_def]] by simp
      have "migrate_item P R W cipher was_retired plan g c = Some (r3, c3)"
        using row state start \<open>r1 = Inr g1\<close> loop(1) Inr finish by (simp add: migrate_item_def item_row_run [OF c(1)] Let_def)
      moreover have "item_done P R cipher plan after t (r3 \<in> range Inr) c c3"
      proof -
        have "if r3 \<in> range Inr then item_sealed c3 ?s plan \<and> (\<forall>r\<in>set (tb_rows t). \<not> beyond R plan after' r)
            else unfinished c3 ?s plan after'"
          using f failed todo2 loop(4) [OF Inr] by (cases r3) auto
        then show ?thesis unfolding item_done_def using tables2 owes2 f loop(3)
          by (intro conjI exI [of _ rows] exI [of _ after']) simp_all
      qed
      moreover have "mr_raced (pg_report g') = mr_raced (pg_report g)
          \<and> looked_at g' = looked_at g + length (filter (beyond R plan after) (tb_rows t))" if "r3 = Inr g'" for g'
      proof -
        have "pg_report g' = pg_report g2" using f that by blast
        moreover have "pg_report g1 = pg_report g" using s \<open>r1 = Inr g1\<close> by blast
        ultimately show ?thesis using loop(4) [OF Inr] by (simp add: looked_at_def)
      qed
      ultimately show ?thesis by blast
    qed
  qed
qed

end
