(* ===== verification/Migration_Runs.thy ===== *)
theory Migration_Runs
  imports Content_Migration
begin

text \<open>
  Whole runs of the migration, of any number of plans and whatever fails in them: what the state
  table records as done is sealed, what is read stays the same, the scrub is owed, and a run that
  succeeds has sealed every value it can read.
\<close>

section \<open>Plans that do not touch each other\<close>

definition plans_apart :: "column_plan list \<Rightarrow> bool" where
  "plans_apart plans \<longleftrightarrow> (\<forall>p\<in>set plans. \<forall>q\<in>set plans. p = q
     \<or> plan_item p \<noteq> plan_item q \<and> (cp_table p = cp_table q \<longrightarrow> cp_column p \<notin> set (plan_columns q)))"

section \<open>A store on course\<close>

text \<open>What the state table records: the rows of a plan a run need not visit again.\<close>

definition done_with :: "reals \<Rightarrow> connection \<Rightarrow> string \<Rightarrow> column_plan \<Rightarrow> sql_row \<Rightarrow> bool" where
  "done_with R c store plan r \<longleftrightarrow>
     item_sealed c store plan \<or> (\<exists>after. unfinished c store plan after \<and> \<not> beyond R plan after r)"

definition row_settled :: "platform \<Rightarrow> reals \<Rightarrow> content_cipher \<Rightarrow> column_plan \<Rightarrow> sql_row \<Rightarrow> bool" where
  "row_settled P R cipher plan r \<longleftrightarrow> settled P R cipher (cp_kind plan) (r (cp_column plan)) (row_context plan r)"

definition rows_on_course :: "platform \<Rightarrow> reals \<Rightarrow> content_cipher \<Rightarrow> connection \<Rightarrow> column_plan \<Rightarrow> table \<Rightarrow> bool" where
  "rows_on_course P R cipher c plan t \<longleftrightarrow> plan_fits plan t \<and> keyed R plan (tb_rows t)
     \<and> (\<forall>r\<in>set (tb_rows t). valid_value R (r (cp_column plan))
         \<and> (done_with R c (cc_store cipher) plan r \<longrightarrow> row_settled P R cipher plan r))"

definition on_course :: "platform \<Rightarrow> reals \<Rightarrow> content_cipher \<Rightarrow> connection \<Rightarrow> column_plan \<Rightarrow> bool" where
  "on_course P R cipher c plan \<longleftrightarrow>
     (\<exists>t. sd_tables (cn_data c) (cp_table plan) = Some t \<and> rows_on_course P R cipher c plan t)
     \<and> (item_sealed c (cc_store cipher) plan \<or> (\<exists>after. unfinished c (cc_store cipher) plan after))"

lemma unfinished_unique:
  "unfinished c store plan after \<Longrightarrow> unfinished c store plan after' \<Longrightarrow> after' = after"
  by (auto simp: unfinished_def cursor_at_def split: option.splits)

lemma unfinished_not_sealed: "unfinished c store plan after \<Longrightarrow> \<not> item_sealed c store plan"
  by (auto simp: unfinished_def item_sealed_def)

lemma done_with_unfinished:
  "unfinished c store plan after \<Longrightarrow> done_with R c store plan r \<longleftrightarrow> \<not> beyond R plan after r"
  using unfinished_unique unfinished_not_sealed unfolding done_with_def by blast

text \<open>A store no run has seen is on course.\<close>

lemma fresh_on_course:
  assumes "seal_at c (cc_store cipher) (plan_item plan) = None"
    and "sd_tables (cn_data c) (cp_table plan) = Some t" "plan_fits plan t" "keyed R plan (tb_rows t)"
    and "\<forall>r\<in>set (tb_rows t). valid_value R (r (cp_column plan))"
  shows "on_course P R cipher c plan"
proof -
  have "unfinished c (cc_store cipher) plan None" using assms(1) by (simp add: unfinished_def)
  moreover have "beyond R plan None r" for r by (simp add: beyond_def)
  ultimately show ?thesis
    using assms(2-5) done_with_unfinished by (fastforce simp: on_course_def rows_on_course_def)
qed

section \<open>What changes\<close>

definition same_reading :: "platform \<Rightarrow> reals \<Rightarrow> content_cipher \<Rightarrow> column_plan list \<Rightarrow> string \<Rightarrow> sql_row \<Rightarrow> sql_row \<Rightarrow> bool" where
  "same_reading P R cipher plans name r r' \<longleftrightarrow> (\<forall>x. r' x = r x
     \<or> (\<exists>plan\<in>set plans. cp_table plan = name \<and> cp_column plan = x
         \<and> reads P R cipher (cp_kind plan) (r' x) (row_context plan r)
           = reads P R cipher (cp_kind plan) (r x) (row_context plan r)))"

definition table_reads_same :: "platform \<Rightarrow> reals \<Rightarrow> content_cipher \<Rightarrow> column_plan list \<Rightarrow> string \<Rightarrow> table \<Rightarrow> table \<Rightarrow> bool" where
  "table_reads_same P R cipher plans name t t' \<longleftrightarrow> tb_columns t' = tb_columns t
     \<and> list_all2 (same_reading P R cipher plans name) (tb_rows t) (tb_rows t')"

definition reads_same :: "platform \<Rightarrow> reals \<Rightarrow> content_cipher \<Rightarrow> column_plan list \<Rightarrow> connection \<Rightarrow> connection \<Rightarrow> bool" where
  "reads_same P R cipher plans c c' \<longleftrightarrow> (\<forall>name. rel_option (table_reads_same P R cipher plans name)
     (sd_tables (cn_data c) name) (sd_tables (cn_data c') name))"

lemma same_reading_refl: "same_reading P R cipher plans name r r"
  by (simp add: same_reading_def)

lemma reads_same_tables: "sd_tables (cn_data c') = sd_tables (cn_data c) \<Longrightarrow> reads_same P R cipher plans c c'"
  by (auto simp: reads_same_def table_reads_same_def same_reading_refl intro!: option.rel_refl list_all2_refl)

lemma row_context_kept:
  assumes apart: "plans_apart plans" and q: "q \<in> set plans" and fits: "plan_fits q t"
    and r: "same_reading P R cipher plans (cp_table q) r r'"
  shows "row_context q r' = row_context q r"
proof -
  have "r' x = r x" if x: "x = cp_key q \<or> x \<in> set (cp_context_columns q)" for x
  proof (rule ccontr)
    assume "r' x \<noteq> r x"
    then obtain p where p: "p \<in> set plans" "cp_table p = cp_table q" "cp_column p = x"
      using r by (auto simp: same_reading_def)
    then have "p = q" using apart q x by (auto simp: plans_apart_def plan_columns_def)
    with p(3) x fits show False by (auto simp: plan_fits_def)
  qed
  then have "key_of_row q r' = key_of_row q r" "map r' (cp_context_columns q) = map r (cp_context_columns q)"
    by (auto simp: key_of_row_def)
  then show ?thesis by (simp only: row_context_def)
qed

lemma same_reading_trans:
  assumes apart: "plans_apart plans" and fits: "\<And>q. q \<in> set plans \<Longrightarrow> cp_table q = name \<Longrightarrow> \<exists>t. plan_fits q t"
    and a: "same_reading P R cipher plans name r r1" and b: "same_reading P R cipher plans name r1 r2"
  shows "same_reading P R cipher plans name r r2"
  unfolding same_reading_def
proof (rule allI)
  fix x
  consider "r2 x = r1 x" | q where "q \<in> set plans" "cp_table q = name" "cp_column q = x"
      "reads P R cipher (cp_kind q) (r2 x) (row_context q r1) = reads P R cipher (cp_kind q) (r1 x) (row_context q r1)"
    using b by (auto simp: same_reading_def)
  then show "r2 x = r x \<or> (\<exists>plan\<in>set plans. cp_table plan = name \<and> cp_column plan = x
      \<and> reads P R cipher (cp_kind plan) (r2 x) (row_context plan r) = reads P R cipher (cp_kind plan) (r x) (row_context plan r))"
  proof cases
    case 1
    with a show ?thesis by (simp add: same_reading_def)
  next
    case (2 q)
    obtain t where "plan_fits q t" using fits 2 by blast
    then have ctx: "row_context q r1 = row_context q r"
      using row_context_kept [OF apart 2(1)] a 2(2) by blast
    consider "r1 x = r x" | p where "p \<in> set plans" "cp_table p = name" "cp_column p = x"
        "reads P R cipher (cp_kind p) (r1 x) (row_context p r) = reads P R cipher (cp_kind p) (r x) (row_context p r)"
      using a by (auto simp: same_reading_def)
    then show ?thesis
    proof cases
      case 1
      with 2 ctx show ?thesis by (intro disjI2 bexI [of _ q]) simp_all
    next
      case (2 p)
      have "p = q" using apart 2 \<open>q \<in> set plans\<close> \<open>cp_table q = name\<close> \<open>cp_column q = x\<close>
        by (auto simp: plans_apart_def plan_columns_def)
      with 2 ctx \<open>reads P R cipher (cp_kind q) (r2 x) (row_context q r1) = reads P R cipher (cp_kind q) (r1 x) (row_context q r1)\<close>
      show ?thesis by (intro disjI2 bexI [of _ q]) simp_all
    qed
  qed
qed

lemma reads_same_trans:
  assumes apart: "plans_apart plans" and course: "\<And>q. q \<in> set plans \<Longrightarrow> on_course P R cipher c q"
    and a: "reads_same P R cipher plans c c1" and b: "reads_same P R cipher plans c1 c2"
  shows "reads_same P R cipher plans c c2"
  unfolding reads_same_def
proof (rule allI)
  fix name
  have fits: "\<exists>t. plan_fits q t" if "q \<in> set plans" for q
    using course [OF that] by (auto simp: on_course_def rows_on_course_def)
  have rel: "rel_option (table_reads_same P R cipher plans name) (sd_tables (cn_data c) name) (sd_tables (cn_data c1) name)"
      "rel_option (table_reads_same P R cipher plans name) (sd_tables (cn_data c1) name) (sd_tables (cn_data c2) name)"
    using a b by (simp_all add: reads_same_def)
  have "table_reads_same P R cipher plans name t t2"
    if "table_reads_same P R cipher plans name t t1" "table_reads_same P R cipher plans name t1 t2" for t t1 t2
    using that unfolding table_reads_same_def
    by (auto intro: list_all2_compose same_reading_trans [OF apart fits])
  then show "rel_option (table_reads_same P R cipher plans name) (sd_tables (cn_data c) name) (sd_tables (cn_data c2) name)"
    using rel by (auto simp: option_rel_Some1 option_rel_Some2 rel_option_iff split: option.splits)
qed

section \<open>One item\<close>

lemma list_all2_left_mono: "list_all2 A xs ys \<Longrightarrow> (\<And>x y. x \<in> set xs \<Longrightarrow> A x y \<Longrightarrow> B x y) \<Longrightarrow> list_all2 B xs ys"
  unfolding list_all2_conv_all_nth by auto

lemma list_all2_right: "list_all2 A xs ys \<Longrightarrow> y \<in> set ys \<Longrightarrow> \<exists>x\<in>set xs. A x y"
  by (metis in_set_conv_nth list_all2_conv_all_nth)

text \<open>What a run of one plan leaves: the plan on course, and nothing else touched.\<close>

definition only_column :: "column_plan \<Rightarrow> connection \<Rightarrow> connection \<Rightarrow> bool" where
  "only_column plan c c' \<longleftrightarrow> (\<forall>name. name \<noteq> cp_table plan \<longrightarrow> sd_tables (cn_data c') name = sd_tables (cn_data c) name)
     \<and> rel_option (\<lambda>t t'. tb_columns t' = tb_columns t
           \<and> list_all2 (\<lambda>r r'. \<forall>x. x \<noteq> cp_column plan \<longrightarrow> r' x = r x) (tb_rows t) (tb_rows t'))
         (sd_tables (cn_data c) (cp_table plan)) (sd_tables (cn_data c') (cp_table plan))"

definition item_kept :: "platform \<Rightarrow> reals \<Rightarrow> content_cipher \<Rightarrow> column_plan \<Rightarrow> connection \<Rightarrow> connection \<Rightarrow> bool" where
  "item_kept P R cipher plan c c' \<longleftrightarrow> has_table c' \<and> on_course P R cipher c' plan \<and> only_column plan c c'
     \<and> reads_same P R cipher [plan] c c' \<and> cn_secure_delete c' = cn_secure_delete c
     \<and> (\<forall>i. i \<noteq> STORE_ITEM \<longrightarrow> i \<noteq> plan_item plan \<longrightarrow> seal_at c' (cc_store cipher) i = seal_at c (cc_store cipher) i)
     \<and> (owes_scrub (cc_store cipher) c' \<or> sd_tables (cn_data c') = sd_tables (cn_data c) \<and> \<not> owes_scrub (cc_store cipher) c)"

lemma visited_settled:
  assumes laws: "aead_laws P" "b64_laws P" and fits: "plan_fits plan t" and valid: "valid_value R (r (cp_column plan))"
    and v: "visited P R cipher plan r r'"
  shows "row_settled P R cipher plan r'" "valid_value R (r' (cp_column plan))"
    "same_reading P R cipher [plan] (cp_table plan) r r'"
proof -
  note kept = visited_kept [OF fits v]
  have "row_settled P R cipher plan r' \<and> valid_value R (r' (cp_column plan))
    \<and> reads P R cipher (cp_kind plan) (r' (cp_column plan)) (row_context plan r)
      = reads P R cipher (cp_kind plan) (r (cp_column plan)) (row_context plan r)"
    using v unfolding visited_def
  proof
    assume "sealed_from P R cipher plan r r'"
    then obtain n s where n: "length n = NONCE_LEN" and r': "r' = r(cp_column plan := s)"
      and run: "reseal_value P R cipher (cp_kind plan) (r (cp_column plan)) (row_context plan r) n = Inr (Reseal s)"
      by (auto simp: sealed_from_def)
    from reseal_keeps [OF laws n valid run] show ?thesis
      by (simp add: row_settled_def kept(3)) (simp add: r')
  next
    assume "r' = r \<and> settled P R cipher (cp_kind plan) (r (cp_column plan)) (row_context plan r)"
    with valid show ?thesis by (simp add: row_settled_def)
  qed
  note facts = this
  then show "row_settled P R cipher plan r'" "valid_value R (r' (cp_column plan))" by simp_all
  have "r' x = r x \<or> cp_column plan = x" for x using kept(4) [of x] by blast
  then show "same_reading P R cipher [plan] (cp_table plan) r r'"
    unfolding same_reading_def using facts by auto
qed

lemma went_on_course:
  assumes laws: "aead_laws P" "b64_laws P" and t: "rows_on_course P R cipher c plan t"
    and after: "unfinished c (cc_store cipher) plan after"
    and went: "went P R cipher plan after after' (tb_rows t) rows"
    and done': "\<And>r. r \<in> set rows \<Longrightarrow> done_with R c' (cc_store cipher) plan r \<Longrightarrow> \<not> beyond R plan after' r"
  shows "rows_on_course P R cipher c' plan (t\<lparr>tb_rows := rows\<rparr>)"
    "list_all2 (\<lambda>r r'. \<forall>x. x \<noteq> cp_column plan \<longrightarrow> r' x = r x) (tb_rows t) rows"
    "list_all2 (same_reading P R cipher [plan] (cp_table plan)) (tb_rows t) rows"
proof -
  have fits: "plan_fits plan t" and keyed: "keyed R plan (tb_rows t)"
    and rows: "\<And>r. r \<in> set (tb_rows t) \<Longrightarrow> valid_value R (r (cp_column plan))"
      "\<And>r. r \<in> set (tb_rows t) \<Longrightarrow> \<not> beyond R plan after r \<Longrightarrow> row_settled P R cipher plan r"
    using t done_with_unfinished [OF after] by (auto simp: rows_on_course_def)
  have vis: "list_all2 (\<lambda>r r'. if beyond R plan after r \<and> \<not> beyond R plan after' r then visited P R cipher plan r r' else r' = r)
      (tb_rows t) rows"
    using went by (simp add: went_def visits_def)
  have step: "(\<forall>x. x \<noteq> cp_column plan \<longrightarrow> r' x = r x) \<and> same_reading P R cipher [plan] (cp_table plan) r r'
      \<and> valid_value R (r' (cp_column plan)) \<and> (\<not> beyond R plan after' r' \<longrightarrow> row_settled P R cipher plan r')"
    if "r \<in> set (tb_rows t)"
      "if beyond R plan after r \<and> \<not> beyond R plan after' r then visited P R cipher plan r r' else r' = r" for r r'
  proof (cases "beyond R plan after r \<and> \<not> beyond R plan after' r")
    case True
    then have "visited P R cipher plan r r'" using that(2) by simp
    then show ?thesis using visited_settled [where r = r, OF laws fits rows(1) [OF that(1)]] visited_kept(4) [OF fits] by blast
  next
    case False
    then have "r' = r" using that(2) by simp
    moreover have "\<not> beyond R plan after' r \<longrightarrow> row_settled P R cipher plan r" using False rows(2) [OF that(1)] by blast
    ultimately show ?thesis using rows(1) [OF that(1)] same_reading_refl by auto
  qed
  show "list_all2 (\<lambda>r r'. \<forall>x. x \<noteq> cp_column plan \<longrightarrow> r' x = r x) (tb_rows t) rows"
    by (rule list_all2_left_mono [OF vis]) (use step in blast)
  show "list_all2 (same_reading P R cipher [plan] (cp_table plan)) (tb_rows t) rows"
    by (rule list_all2_left_mono [OF vis]) (use step in blast)
  have "keyed R plan rows" by (rule list_all2_rows [OF vis fits keyed])
  moreover have "valid_value R (r' (cp_column plan)) \<and> (\<not> beyond R plan after' r' \<longrightarrow> row_settled P R cipher plan r')"
    if "r' \<in> set rows" for r'
    using list_all2_right [OF vis that] step by blast
  ultimately show "rows_on_course P R cipher c' plan (t\<lparr>tb_rows := rows\<rparr>)"
    using fits done' by (auto simp: rows_on_course_def plan_fits_def)
qed

lemma migrate_item_keeps:
  assumes W: "idle W" "nonces_ok W" and laws: "aead_laws P" "b64_laws P" and c: "has_table c"
    and course: "on_course P R cipher c plan"
  shows "\<exists>res c'. migrate_item P R W cipher was_retired plan g c = Some (res, c') \<and> item_kept P R cipher plan c c'
    \<and> (\<forall>g'. res = Inr g' \<longrightarrow> item_sealed c' (cc_store cipher) plan \<and> mr_raced (pg_report g') = mr_raced (pg_report g))"
proof -
  let ?s = "cc_store cipher"
  obtain t where t: "sd_tables (cn_data c) (cp_table plan) = Some t" "rows_on_course P R cipher c plan t"
    using course by (auto simp: on_course_def)
  show ?thesis
  proof (cases "item_sealed c ?s plan")
    case True
    then obtain r where r: "seal_at c ?s (plan_item plan) = Some r" "sr_state r = SEALED" by (auto simp: item_sealed_def)
    have "migrate_item P R W cipher was_retired plan g c = Some (Inr (bump (mr_finished_items_update Suc) g), c)"
      by (simp add: migrate_item_def item_row_run [OF c] r)
    moreover have "item_kept P R cipher plan c c"
      using c course t(1) by (auto simp: item_kept_def only_column_def reads_same_tables intro!: list_all2_refl)
    ultimately show ?thesis using True by (simp add: bump_def)
  next
    case False
    then obtain after where after: "unfinished c ?s plan after" using course by (auto simp: on_course_def)
    have fits: "plan_fits plan t" "keyed R plan (tb_rows t)" using t(2) by (simp_all add: rows_on_course_def)
    obtain res c' where run: "migrate_item P R W cipher was_retired plan g c = Some (res, c')"
      and d: "item_done P R cipher plan after t (res \<in> range Inr) c c'"
      and counts: "\<forall>g'. res = Inr g' \<longrightarrow> mr_raced (pg_report g') = mr_raced (pg_report g)
        \<and> looked_at g' = looked_at g + length (filter (beyond R plan after) (tb_rows t))"
      using migrate_item_run [OF W c t(1) fits after] by blast
    obtain rows after' where rows: "sd_tables (cn_data c') = (sd_tables (cn_data c))(cp_table plan \<mapsto> t\<lparr>tb_rows := rows\<rparr>)"
        "went P R cipher plan after after' (tb_rows t) rows"
        "if res \<in> range Inr then item_sealed c' ?s plan \<and> (\<forall>r\<in>set (tb_rows t). \<not> beyond R plan after' r)
          else unfinished c' ?s plan after'"
      using d by (auto simp: item_done_def)
    have vis: "list_all2 (\<lambda>r r'. if beyond R plan after r \<and> \<not> beyond R plan after' r then visited P R cipher plan r r' else r' = r)
        (tb_rows t) rows"
      using rows(2) by (simp add: went_def visits_def)
    have done': "\<not> beyond R plan after' r'" if "r' \<in> set rows" "done_with R c' ?s plan r'" for r'
    proof (cases "res \<in> range Inr")
      case True
      with list_all2_right [OF vis that(1)] rows(3) show ?thesis using beyond_visited [OF fits(1)] by auto
    next
      case False
      with rows(3) that(2) show ?thesis using done_with_unfinished by auto
    qed
    note went = went_on_course [OF laws t(2) after rows(2) done']
    have "only_column plan c c'" "reads_same P R cipher [plan] c c'"
      using went(2,3) t(1)
      by (auto simp: only_column_def reads_same_def rows(1) table_reads_same_def same_reading_refl
          intro!: option.rel_refl list_all2_refl)
    moreover have "on_course P R cipher c' plan"
      using went(1) rows(1,3) by (auto simp: on_course_def split: if_splits)
    ultimately have "item_kept P R cipher plan c c'" using d by (simp add: item_kept_def item_done_def)
    then show ?thesis using run counts rows(3) by auto
  qed
qed

section \<open>Several items\<close>

lemma same_columns:
  assumes "\<forall>x\<in>set (plan_columns q). r' x = r x"
  shows "key_of_row q r' = key_of_row q r" "row_rank R q r' = row_rank R q r" "row_context q r' = row_context q r"
    "r' (cp_column q) = r (cp_column q)"
proof -
  show key: "key_of_row q r' = key_of_row q r" using assms by (simp add: key_of_row_def plan_columns_def)
  then show "row_rank R q r' = row_rank R q r" by (simp add: row_rank_def)
  have "map r' (cp_context_columns q) = map r (cp_context_columns q)" using assms by (simp add: plan_columns_def)
  with key show "row_context q r' = row_context q r" by (simp only: row_context_def)
  show "r' (cp_column q) = r (cp_column q)" using assms by (simp add: plan_columns_def)
qed

lemma rows_on_course_kept:
  assumes t: "rows_on_course P R cipher c q t" and columns: "tb_columns t' = tb_columns t"
    and rows: "list_all2 (\<lambda>r r'. \<forall>x\<in>set (plan_columns q). r' x = r x) (tb_rows t) (tb_rows t')"
    and seal: "seal_at c' (cc_store cipher) (plan_item q) = seal_at c (cc_store cipher) (plan_item q)"
  shows "rows_on_course P R cipher c' q t'"
proof -
  have done': "done_with R c' (cc_store cipher) q r' = done_with R c (cc_store cipher) q r"
    if "key_of_row q r' = key_of_row q r" for r r'
  proof -
    have "beyond R q after r' = beyond R q after r" for after using that by (cases after) (simp_all add: beyond_def)
    then show ?thesis using seal by (simp add: done_with_def item_sealed_def unfinished_def)
  qed
  have "map (row_rank R q) (tb_rows t') = map (row_rank R q) (tb_rows t)"
    using rows same_columns(2) by (auto simp: list_all2_conv_all_nth list_eq_iff_nth_eq)
  moreover have "key_fits q (key_of_row q r') \<and> valid_value R (r' (cp_column q))
      \<and> (done_with R c' (cc_store cipher) q r' \<longrightarrow> row_settled P R cipher q r')" if r': "r' \<in> set (tb_rows t')" for r'
  proof -
    obtain r where "r \<in> set (tb_rows t)" "\<forall>x\<in>set (plan_columns q). r' x = r x"
      using list_all2_right [OF rows r'] by blast
    moreover note same_columns [OF this(2)]
    ultimately show ?thesis using t done' by (simp add: rows_on_course_def keyed_def row_settled_def)
  qed
  ultimately show ?thesis using t columns by (simp add: rows_on_course_def keyed_def plan_fits_def)
qed

lemma others_on_course:
  assumes apart: "plans_apart plans" "plan \<in> set plans" "q \<in> set plans" "q \<noteq> plan"
    and kept: "item_kept P R cipher plan c c'" and q: "on_course P R cipher c q"
  shows "on_course P R cipher c' q" "item_sealed c' (cc_store cipher) q = item_sealed c (cc_store cipher) q"
proof -
  have items: "plan_item q \<noteq> plan_item plan" using apart by (auto simp: plans_apart_def)
  then have seal: "seal_at c' (cc_store cipher) (plan_item q) = seal_at c (cc_store cipher) (plan_item q)"
    using kept plan_item_not_store by (simp add: item_kept_def)
  then show sealed: "item_sealed c' (cc_store cipher) q = item_sealed c (cc_store cipher) q" by (simp add: item_sealed_def)
  obtain t where t: "sd_tables (cn_data c) (cp_table q) = Some t" "rows_on_course P R cipher c q t"
    using q by (auto simp: on_course_def)
  have only: "only_column plan c c'" using kept by (simp add: item_kept_def)
  have "\<exists>t'. sd_tables (cn_data c') (cp_table q) = Some t' \<and> tb_columns t' = tb_columns t
      \<and> list_all2 (\<lambda>r r'. \<forall>x\<in>set (plan_columns q). r' x = r x) (tb_rows t) (tb_rows t')"
  proof (cases "cp_table q = cp_table plan")
    case True
    then have "cp_column plan \<notin> set (plan_columns q)"
      using apart(1) [unfolded plans_apart_def, THEN bspec, OF apart(2), THEN bspec, OF apart(3)] apart(4) by simp
    then have rel: "(\<forall>x. x \<noteq> cp_column plan \<longrightarrow> r' x = r x) \<Longrightarrow> \<forall>x\<in>set (plan_columns q). r' x = r x" for r r' :: sql_row
      by (metis (no_types))
    from only t(1) True obtain t' where "sd_tables (cn_data c') (cp_table q) = Some t'" "tb_columns t' = tb_columns t"
        "list_all2 (\<lambda>r r'. \<forall>x. x \<noteq> cp_column plan \<longrightarrow> r' x = r x) (tb_rows t) (tb_rows t')"
      by (auto simp: only_column_def option_rel_Some1)
    moreover from this(3) have "list_all2 (\<lambda>r r'. \<forall>x\<in>set (plan_columns q). r' x = r x) (tb_rows t) (tb_rows t')"
      by (rule list_all2_mono) (rule rel)
    ultimately show ?thesis by blast
  next
    case False
    then have "sd_tables (cn_data c') (cp_table q) = Some t" using only t(1) by (simp add: only_column_def)
    then show ?thesis by (auto intro: list_all2_refl)
  qed
  then show "on_course P R cipher c' q"
    using rows_on_course_kept [OF t(2) _ _ seal] q sealed seal by (auto simp: on_course_def unfinished_def)
qed

lemma reads_same_more: "set plans \<subseteq> set plans' \<Longrightarrow> reads_same P R cipher plans c c' \<Longrightarrow> reads_same P R cipher plans' c c'"
proof -
  assume sub: "set plans \<subseteq> set plans'" and a: "reads_same P R cipher plans c c'"
  have "same_reading P R cipher plans name r r' \<Longrightarrow> same_reading P R cipher plans' name r r'" for name r r'
    using sub unfolding same_reading_def by blast
  then have "table_reads_same P R cipher plans name t t' \<Longrightarrow> table_reads_same P R cipher plans' name t t'" for name t t'
    unfolding table_reads_same_def by (auto intro: list_all2_mono)
  with a show ?thesis unfolding reads_same_def by (auto intro: option.rel_mono_strong)
qed

text \<open>What a run leaves, whatever its result.\<close>

definition run_kept :: "platform \<Rightarrow> reals \<Rightarrow> content_cipher \<Rightarrow> column_plan list \<Rightarrow> connection \<Rightarrow> connection \<Rightarrow> bool" where
  "run_kept P R cipher plans c c' \<longleftrightarrow> (\<forall>q\<in>set plans. on_course P R cipher c' q) \<and> reads_same P R cipher plans c c'
     \<and> (owes_scrub (cc_store cipher) c' \<or> sd_tables (cn_data c') = sd_tables (cn_data c) \<and> \<not> owes_scrub (cc_store cipher) c)"

lemma migrate_items_keeps:
  assumes W: "idle W" "nonces_ok W" and laws: "aead_laws P" "b64_laws P" and apart: "plans_apart plans"
    and "has_table c" "\<forall>q\<in>set plans. on_course P R cipher c q" "set ps \<subseteq> set plans"
  shows "\<exists>res c'. migrate_items P R W cipher was_retired ps g c = Some (res, c') \<and> run_kept P R cipher plans c c'
    \<and> (\<forall>g'. res = Inr g' \<longrightarrow> mr_raced (pg_report g') = mr_raced (pg_report g)
         \<and> (\<forall>q\<in>set plans. q \<in> set ps \<or> item_sealed c (cc_store cipher) q \<longrightarrow> item_sealed c' (cc_store cipher) q))"
  using assms(6-8)
proof (induction ps arbitrary: g c)
  case Nil
  then show ?case by (auto simp: run_kept_def reads_same_tables)
next
  case (Cons p ps)
  have p: "p \<in> set plans" using Cons.prems(3) by simp
  obtain res1 c1 where item: "migrate_item P R W cipher was_retired p g c = Some (res1, c1)"
    and kept: "item_kept P R cipher p c c1"
    and ended: "\<forall>g'. res1 = Inr g' \<longrightarrow> item_sealed c1 (cc_store cipher) p \<and> mr_raced (pg_report g') = mr_raced (pg_report g)"
    using migrate_item_keeps [OF W laws Cons.prems(1)] Cons.prems(2) p by blast
  have course1: "\<forall>q\<in>set plans. on_course P R cipher c1 q"
  proof
    fix q assume q: "q \<in> set plans"
    show "on_course P R cipher c1 q"
    proof (cases "q = p")
      case True
      then show ?thesis using kept by (simp add: item_kept_def)
    next
      case False
      then show ?thesis using others_on_course(1) [OF apart p q False kept] Cons.prems(2) q by blast
    qed
  qed
  have kept1: "run_kept P R cipher plans c c1"
    using course1 kept reads_same_more [of "[p]" plans] p by (simp add: run_kept_def item_kept_def)
  show ?case
  proof (cases res1)
    case (Inl e)
    then show ?thesis using item kept1 by simp
  next
    case (Inr g1)
    have t1: "has_table c1" using kept by (simp add: item_kept_def)
    obtain res c' where rest: "migrate_items P R W cipher was_retired ps g1 c1 = Some (res, c')"
      and kept2: "run_kept P R cipher plans c1 c'"
      and ended2: "\<forall>g'. res = Inr g' \<longrightarrow> mr_raced (pg_report g') = mr_raced (pg_report g1)
         \<and> (\<forall>q\<in>set plans. q \<in> set ps \<or> item_sealed c1 (cc_store cipher) q \<longrightarrow> item_sealed c' (cc_store cipher) q)"
      using Cons.IH [OF t1 course1, of g1] Cons.prems(3) by auto
    have "reads_same P R cipher plans c c'"
      using reads_same_trans [OF apart, of P R cipher c c1 c'] Cons.prems(2) kept1 kept2 by (simp add: run_kept_def)
    then have "run_kept P R cipher plans c c'"
      using kept1 kept2 by (auto simp: run_kept_def)
    moreover have "item_sealed c1 (cc_store cipher) q" if "q \<in> set plans" "q = p \<or> item_sealed c (cc_store cipher) q" for q
      using others_on_course(2) [OF apart p that(1) _ kept] Cons.prems(2) that ended Inr by blast
    ultimately show ?thesis using item Inr rest ended ended2 by auto
  qed
qed

section \<open>Before the first item\<close>

lemma on_course_cong:
  assumes "sd_tables (cn_data c') = sd_tables (cn_data c)"
    and "seal_at c' (cc_store cipher) (plan_item plan) = seal_at c (cc_store cipher) (plan_item plan)"
  shows "on_course P R cipher c' plan = on_course P R cipher c plan"
  using assms by (simp add: on_course_def rows_on_course_def done_with_def item_sealed_def unfinished_def)

text \<open>
  What precedes the items of a run touches nothing but the store's own entry, and keeps what it owes.
\<close>

definition only_store_entry :: "string \<Rightarrow> connection \<Rightarrow> connection \<Rightarrow> bool" where
  "only_store_entry store c c' \<longleftrightarrow> sd_tables (cn_data c') = sd_tables (cn_data c)
     \<and> (\<forall>s i. (s, i) \<noteq> (store, STORE_ITEM) \<longrightarrow> seal_at c' s i = seal_at c s i)
     \<and> owes_scrub store c' = owes_scrub store c \<and> cn_secure_delete c' = cn_secure_delete c"

lemma only_store_entry_trans:
  "only_store_entry store c c1 \<Longrightarrow> only_store_entry store c1 c2 \<Longrightarrow> only_store_entry store c c2"
  by (simp add: only_store_entry_def)

lemma ensure_state_table_run:
  "\<exists>c'. ensure_state_table c = (Inr (), c') \<and> has_table c' \<and> only_store_entry store c c'"
  by (cases "sd_seal (cn_data c)")
    (auto simp: ensure_state_table_def on_data_def has_table_def only_store_entry_def seal_at_def owes_scrub_def)

lemma record_kcv_only_store:
  assumes "has_table c"
  shows "\<exists>c'. record_store_kcv store kcv c = (Inr (), c') \<and> has_table c' \<and> only_store_entry store c c'"
  using record_store_kcv_run [OF assms, of store kcv]
  by (auto simp: only_entry_def only_store_entry_def owes_scrub_def OK_def VACUUM_PENDING_def split: option.splits)

text \<open>The store's record of its key, and whether a run may go on with it.\<close>

definition store_key_refused :: "content_cipher \<Rightarrow> connection \<Rightarrow> db_error option" where
  "store_key_refused cipher c = (case seal_at c (cc_store cipher) STORE_ITEM of
       None \<Rightarrow> None
     | Some r \<Rightarrow> if sr_min_reader r > SUPPORTED_MIN_READER then Some (NewerStoreFormat (cc_store cipher) (sr_min_reader r))
         else (case sr_kcv r of
             Some kcv \<Rightarrow> if match_kcv cipher kcv = Unknown then Some (KeyMismatch (cc_store cipher)) else None
           | None \<Rightarrow> None))"

lemma check_store_key_run:
  assumes "has_table c"
  shows "\<exists>r c'. check_store_key cipher c = (r, c') \<and> has_table c' \<and> only_store_entry (cc_store cipher) c c'
    \<and> (case store_key_refused cipher c of
        None \<Rightarrow> \<exists>ks. r = Inr ks \<and> writable ks
      | Some e \<Rightarrow> c' = c \<and> (r = Inl e \<or> e = KeyMismatch (cc_store cipher) \<and> (\<exists>kcv. r = Inr (KeyDiffers kcv))))"
proof -
  let ?s = "cc_store cipher"
  obtain rows where rows: "sd_seal (cn_data c) = Some rows" using assms by (auto simp: has_table_def)
  have read: "read_store_record ?s c = (Inr (map_option
      (\<lambda>r. \<lparr>sto_state = sr_state r, sto_kcv = sr_kcv r, sto_min_reader = sr_min_reader r\<rparr>) (seal_at c ?s STORE_ITEM)), c)"
    using rows by (simp add: read_store_record_def ensure_state_table_def on_data_def bindS_def seal_rows_def seal_at_def)
  obtain c1 where c1: "record_store_kcv ?s (kcv_of cipher) c = (Inr (), c1)" "has_table c1" "only_store_entry ?s c c1"
    using record_kcv_only_store [OF assms] by blast
  have refl: "only_store_entry ?s c c" by (simp add: only_store_entry_def)
  show ?thesis
    using assms refl c1
    by (cases "seal_at c ?s STORE_ITEM")
      (auto simp: check_store_key_def bindS_def read store_key_refused_def writable_def Let_def
        split: option.splits kcv_match.splits)
qed

lemma prepare_migration_run:
  "\<exists>r c'. prepare_migration cipher c = (r, c') \<and> only_store_entry (cc_store cipher) c c'
    \<and> (\<forall>ks. r = Inr ks \<longrightarrow> has_table c' \<and> cn_secure_delete c = 1 \<and> store_key_refused cipher c = None)
    \<and> (\<forall>e. store_key_refused cipher c = Some e \<longrightarrow> r = Inl (if cn_secure_delete c = 1 then e else SecureDeleteOff)
         \<and> (\<forall>i. seal_at c' (cc_store cipher) i = seal_at c (cc_store cipher) i))"
proof (cases "cn_secure_delete c = 1")
  case False
  then show ?thesis by (simp add: prepare_migration_def require_secure_delete_def guardS_def bindS_def only_store_entry_def)
next
  case True
  let ?s = "cc_store cipher"
  let ?c0 = "if cn_busy_timeout c \<le> 0 then c\<lparr>cn_busy_timeout := 5000\<rparr> else c"
  have c0: "only_store_entry ?s c ?c0" "\<And>s i. seal_at ?c0 s i = seal_at c s i"
    by (simp_all add: only_store_entry_def seal_at_def owes_scrub_def)
  obtain c1 where c1: "ensure_state_table ?c0 = (Inr (), c1)" "has_table c1" "only_store_entry ?s ?c0 c1"
    using ensure_state_table_run by blast
  have store1: "seal_at c1 s i = seal_at c s i" for s i
    using c1(1) c0(2) [of s i] by (auto simp: ensure_state_table_def on_data_def seal_at_def split: if_splits)
  obtain r c' where check: "check_store_key cipher c1 = (r, c')" "has_table c'" "only_store_entry ?s c1 c'"
    and r: "case store_key_refused cipher c1 of
        None \<Rightarrow> \<exists>ks. r = Inr ks \<and> writable ks
      | Some e \<Rightarrow> c' = c1 \<and> (r = Inl e \<or> e = KeyMismatch ?s \<and> (\<exists>kcv. r = Inr (KeyDiffers kcv)))"
    using check_store_key_run [OF c1(2)] by blast
  have refused: "store_key_refused cipher c1 = store_key_refused cipher c"
    by (simp add: store_key_refused_def store1)
  have run: "prepare_migration cipher c = (case r of Inl e \<Rightarrow> (Inl e, c')
      | Inr ks \<Rightarrow> if writable ks then (Inr ks, c') else (Inl (KeyMismatch ?s), c'))"
    using True c1(1) check(1)
    by (cases r) (simp_all add: prepare_migration_def require_secure_delete_def ensure_busy_timeout_def guardS_def bindS_def)
  have "only_store_entry ?s c c'"
    using only_store_entry_trans [OF only_store_entry_trans [OF c0(1) c1(3)] check(3)] .
  then show ?thesis
    using run r True check(2) store1 unfolding refused
    by (cases "store_key_refused cipher c") (auto simp: writable_def split: sum.splits)
qed

section \<open>A whole run\<close>

lemma migrate_columns_keeps:
  assumes W: "idle W" "nonces_ok W" and laws: "aead_laws P" "b64_laws P" and apart: "plans_apart plans"
    and course: "\<forall>q\<in>set plans. on_course P R cipher c q"
  shows "\<exists>res c'. migrate_columns P R W cipher plans c = Some (res, c') \<and> run_kept P R cipher plans c c'
    \<and> (\<forall>report. res = Inr report \<longrightarrow> mr_raced report = 0 \<and> (\<forall>q\<in>set plans. item_sealed c' (cc_store cipher) q))"
proof -
  obtain r c1 where prep: "prepare_migration cipher c = (r, c1)" and only: "only_store_entry (cc_store cipher) c c1"
    and ready: "\<And>ks. r = Inr ks \<Longrightarrow> has_table c1"
    using prepare_migration_run [of cipher c] by blast
  have tables: "sd_tables (cn_data c1) = sd_tables (cn_data c)"
    and owes: "owes_scrub (cc_store cipher) c1 = owes_scrub (cc_store cipher) c"
    using only by (simp_all add: only_store_entry_def)
  have "on_course P R cipher c1 q = on_course P R cipher c q" for q
    using only plan_item_not_store by (intro on_course_cong) (simp_all add: only_store_entry_def)
  then have course1: "\<forall>q\<in>set plans. on_course P R cipher c1 q" using course by simp
  show ?thesis
  proof (cases r)
    case (Inl e)
    then have "migrate_columns P R W cipher plans c = Some (Inl e, c1)" by (simp add: migrate_columns_def prep)
    then show ?thesis using course1 tables owes by (simp add: run_kept_def reads_same_tables)
  next
    case (Inr ks)
    obtain res c' where run: "migrate_items P R W cipher (ks = KeyRetired) plans
          \<lparr>pg_report = report_zero, pg_seen = 0, pg_tx = 0\<rparr> c1 = Some (res, c')"
      and kept: "run_kept P R cipher plans c1 c'"
      and ended: "\<forall>g'. res = Inr g' \<longrightarrow> mr_raced (pg_report g') = mr_raced report_zero
         \<and> (\<forall>q\<in>set plans. q \<in> set plans \<or> item_sealed c1 (cc_store cipher) q \<longrightarrow> item_sealed c' (cc_store cipher) q)"
      using migrate_items_keeps [OF W laws apart ready [OF Inr] course1 order.refl, of "ks = KeyRetired"
          "\<lparr>pg_report = report_zero, pg_seen = 0, pg_tx = 0\<rparr>"] by auto
    have "run_kept P R cipher plans c c'"
      using kept tables owes by (simp add: run_kept_def reads_same_def)
    moreover have "migrate_columns P R W cipher plans c
        = Some (case res of Inl e \<Rightarrow> Inl e | Inr g \<Rightarrow> Inr (pg_report g), c')"
      by (simp add: migrate_columns_def prep Inr run)
    ultimately show ?thesis using ended by (cases res) (auto simp: report_zero_def)
  qed
qed

section \<open>What a run promises\<close>





text \<open>
  A store recorded under a key the cipher does not hold, or of a newer format, is refused: the
  run returns the error and changes neither the tables nor the store's entries, whatever the plans
  and whatever other connections do.
\<close>

theorem foreign_store_refused:
  assumes "store_key_refused cipher c = Some e" "cn_secure_delete c = 1"
  shows "\<exists>c'. migrate_columns P R W cipher plans c = Some (Inl e, c')
    \<and> sd_tables (cn_data c') = sd_tables (cn_data c)
    \<and> (\<forall>i. seal_at c' (cc_store cipher) i = seal_at c (cc_store cipher) i)"
proof -
  obtain c' where "prepare_migration cipher c = (Inl e, c')" "only_store_entry (cc_store cipher) c c'"
      "\<forall>i. seal_at c' (cc_store cipher) i = seal_at c (cc_store cipher) i"
    using prepare_migration_run [of cipher c] assms by auto
  then show ?thesis by (simp add: migrate_columns_def only_store_entry_def)
qed

section \<open>Plans\<close>

definition safe_ident :: "string \<Rightarrow> bool" where
  "safe_ident name \<longleftrightarrow> name \<noteq> [] \<and> length name \<le> 64 \<and> CHR ''.'' \<notin> set name \<and> CHR 0x22 \<notin> set name"

lemma valid_ident_safe: "valid_ident name = Inr x \<Longrightarrow> x = name \<and> safe_ident name"
proof -
  assume run: "valid_ident name = Inr x"
  let ?ok = "\<lambda>b. is_ascii_alphanumeric (ord_of b) \<or> b = CHR ''_''"
  have all: "\<And>b. b \<in> set name \<Longrightarrow> ?ok b" "x = name" "name \<noteq> []" "length name \<le> 64"
    using run by (auto simp: valid_ident_def list_all_iff split: if_splits)
  have "\<not> ?ok (CHR ''.'')" "\<not> ?ok (CHR 0x22)"
    by (simp_all add: is_ascii_alphanumeric_def is_ascii_digit_def is_ascii_uppercase_def ord_of_def)
  with all show ?thesis unfolding safe_ident_def by blast
qed

lemma plan_new_fields:
  "plan_new R tbl col key kk kind = Inr p \<Longrightarrow> cp_table p = tbl \<and> cp_column p = col \<and> cp_key p = key
    \<and> safe_ident tbl \<and> safe_ident col \<and> safe_ident key"
  by (auto simp: plan_new_def bindE_eq_Inr dest!: valid_ident_safe split: if_splits)

lemma item_splits: "CHR ''.'' \<notin> set a \<Longrightarrow> CHR ''.'' \<notin> set b \<Longrightarrow> plan_item_name a x = plan_item_name b y \<Longrightarrow> a = b \<and> x = y"
proof -
  assume a: "CHR ''.'' \<notin> set a" and b: "CHR ''.'' \<notin> set b" and eq: "plan_item_name a x = plan_item_name b y"
  have "takeWhile (\<lambda>c. c \<noteq> CHR ''.'') (plan_item_name z w) = z" if "CHR ''.'' \<notin> set z" for z w
  proof -
    have "takeWhile (\<lambda>c. c \<noteq> CHR ''.'') (z @ CHR ''.'' # w) = z @ takeWhile (\<lambda>c. c \<noteq> CHR ''.'') (CHR ''.'' # w)"
      using that by (intro takeWhile_append2) auto
    then show ?thesis by (simp add: plan_item_name_def)
  qed
  from this [OF a, of x] this [OF b, of y] eq have "a = b" by simp
  with eq show ?thesis by (simp add: plan_item_name_def)
qed

text \<open>
  C32. The plans that \<open>ColumnPlan\<close> accepts are well formed: their identifiers are not empty and can
  stand between quotes in a statement, the key is no implicit rowid, and the item under which the
  progress of a plan is kept determines its table and its column.
\<close>

theorem accepted_plans_distinct:
  assumes "plan_new R tbl col key kk kind = Inr p" and "plan_new R' tbl' col' key' kk' kind' = Inr q"
  shows "safe_ident (cp_table p) \<and> safe_ident (cp_column p) \<and> safe_ident (cp_key p)
    \<and> to_ascii_lowercase (cp_key p) \<notin> {''rowid'', ''_rowid_'', ''oid''}
    \<and> (plan_item p = plan_item q \<longrightarrow> cp_table p = cp_table q \<and> cp_column p = cp_column q)"
proof -
  note p = plan_new_fields [OF assms(1)] and q = plan_new_fields [OF assms(2)]
  have "to_ascii_lowercase key \<notin> {''rowid'', ''_rowid_'', ''oid''}"
    using assms(1) by (simp only: plan_new_def) (simp split: if_splits)
  moreover have "tbl = tbl' \<and> col = col'" if "plan_item p = plan_item q"
    using item_splits [of tbl tbl' col col'] that p q by (simp add: plan_item_def safe_ident_def)
  ultimately show ?thesis using p q by simp
qed

end
