(* ===== verification/Sample_Migration.thy ===== *)
theory Sample_Migration
  imports Migration_Runs Sample_Platform
begin

text \<open>
  A store with one table and two planned columns on the sample platform: each property of the
  migration is applied where its hypotheses hold, also in a run that a failing transaction interrupts.
\<close>

definition note_cipher :: content_cipher where
  "note_cipher = \<lparr>cc_store = ''s'', cc_labels = [], cc_current = \<lparr>ck_key = replicate 32 1, ck_root_kcv = ''k''\<rparr>, cc_retired = []\<rparr>"

definition sample_reals :: reals where
  "sample_reals = \<lparr>real_text = (\<lambda>_. ''0''), real_number = (\<lambda>_. 0)\<rparr>"

definition note_plan :: "string \<Rightarrow> column_plan" where
  "note_plan column = \<lparr>cp_table = ''notes'', cp_column = column, cp_key = ''id'', cp_key_kind = IntegerKey,
     cp_kind = TextColumn, cp_context_columns = [],
     cp_context = (\<lambda>row. context_with ''id'' (order_key sample_reals row) (context_new (plan_item_name ''notes'' column)))\<rparr>"

definition note_plans :: "column_plan list" where
  "note_plans = [note_plan ''title'', note_plan ''body'']"

definition note_row :: "int \<Rightarrow> sql_value \<Rightarrow> sql_value \<Rightarrow> sql_row" where
  "note_row i t b = (\<lambda>_. Null)(''id'' := Integer i, ''title'' := t, ''body'' := b)"

definition note_table :: table where
  "note_table = \<lparr>tb_columns = [''id'', ''title'', ''body''],
     tb_rows = [note_row 7 (Text ''a'') (Text ''hi''), note_row 3 Null (Integer 5)]\<rparr>"

definition note_store :: connection where
  "note_store = \<lparr>cn_data = \<lparr>sd_tables = [''notes'' \<mapsto> note_table], sd_seal = None\<rparr>,
     cn_secure_delete = 1, cn_busy_timeout = 0\<rparr>"

definition note_world :: "(nat \<Rightarrow> bool) \<Rightarrow> sql_world" where
  "note_world fails = \<lparr>sw_draws = sample_draws 1\<lparr>io_fails := fails\<rparr>, sw_others = (\<lambda>_ d. d)\<rparr>"

definition note_run :: "(nat \<Rightarrow> bool) \<Rightarrow> ((db_error + migration_report) \<times> connection) option" where
  "note_run fails = migrate_columns sample_platform sample_reals (note_world fails) note_cipher note_plans note_store"

lemma plan_new_note: "plan_new sample_reals ''notes'' ''body'' ''id'' IntegerKey TextColumn = Inr (note_plan ''body'')"
  by (simp add: plan_new_def valid_ident_def note_plan_def to_ascii_lowercase_def ascii_lower_char_def eval_simps)

lemma note_world_ok [simp]: "idle (note_world fails)" "nonces_ok (note_world fails)"
  by (simp_all add: idle_def nonces_ok_def note_world_def sample_draws_def NONCE_LEN_def)

lemma note_plans_apart [simp]: "plans_apart note_plans"
  by (simp add: plans_apart_def note_plans_def note_plan_def plan_item_def plan_item_name_def plan_columns_def)

lemma note_on_course [simp]: "\<forall>plan\<in>set note_plans. on_course sample_platform sample_reals note_cipher note_store plan"
proof -
  have "on_course sample_platform sample_reals note_cipher note_store (note_plan x)" if "x \<in> {''title'', ''body''}" for x
  proof (rule fresh_on_course)
    show "seal_at note_store (cc_store note_cipher) (plan_item (note_plan x)) = None"
      by (simp add: seal_at_def note_store_def)
    show "sd_tables (cn_data note_store) (cp_table (note_plan x)) = Some note_table"
      by (simp add: note_store_def note_plan_def)
    show "plan_fits (note_plan x) note_table" "keyed sample_reals (note_plan x) (tb_rows note_table)"
      "\<forall>r\<in>set (tb_rows note_table). valid_value sample_reals (r (cp_column (note_plan x)))"
      using that by (auto simp: plan_fits_def keyed_def note_plan_def note_table_def note_row_def plan_columns_def
          row_rank_def key_of_row_def key_fits_def is_i64_def valid_value_def utf8_valid_def eval_simps)
  qed
  then show ?thesis by (simp add: note_plans_def)
qed

text \<open>A whole run, and one whose fifth transaction fails to commit: it stops in the second plan.\<close>

declare item_loop.simps [code]

definition first_title :: "connection \<Rightarrow> sql_value" where
  "first_title c = (case sd_tables (cn_data c) ''notes'' of Some t \<Rightarrow> hd (tb_rows t) ''title'' | None \<Rightarrow> Null)"

lemma note_run_ok: "map_option fst (note_run (\<lambda>_. False))
    = Some (Inr \<lparr>mr_sealed = 3, mr_already_sealed = 1, mr_unreadable = 0, mr_raced = 0, mr_finished_items = 0\<rparr>)"
  by code_simp

lemma note_run_stopped: "map_option (\<lambda>(r, c). (r, first_title c = Text ''a'')) (note_run (\<lambda>i. i = 4)) = Some (Inl IoFailed, False)"
  by code_simp

lemma note_run_stops:
  obtains c' where "note_run (\<lambda>i. i = 4) = Some (Inl IoFailed, c')" "sd_tables (cn_data c') \<noteq> sd_tables (cn_data note_store)"
proof -
  obtain c' where run: "note_run (\<lambda>i. i = 4) = Some (Inl IoFailed, c')" "first_title c' \<noteq> Text ''a''"
    using note_run_stopped by auto
  moreover have "first_title note_store = Text ''a''"
    by (simp add: first_title_def note_store_def note_table_def note_row_def)
  ultimately have "sd_tables (cn_data c') \<noteq> sd_tables (cn_data note_store)" by (auto simp: first_title_def)
  with run(1) show thesis by (rule that)
qed





definition foreign_store :: connection where
  "foreign_store = on_data (sd_seal_update (\<lambda>_. Some [\<lparr>sr_store = ''s'', sr_item = STORE_ITEM, sr_state = OK,
     sr_cursor = None, sr_kcv = Some ''other'', sr_min_reader = 2\<rparr>])) note_store"

lemma foreign_store_refused_witness:
  "\<exists>c'. migrate_columns sample_platform sample_reals (note_world (\<lambda>_. False)) note_cipher note_plans foreign_store
      = Some (Inl (KeyMismatch ''s''), c') \<and> sd_tables (cn_data c') = sd_tables (cn_data foreign_store)"
proof -
  have "store_key_refused note_cipher foreign_store = Some (KeyMismatch ''s'')"
    by (simp add: store_key_refused_def foreign_store_def on_data_def seal_at_def for_item_def note_store_def note_cipher_def
        SUPPORTED_MIN_READER_def match_kcv_def)
  moreover have "cn_secure_delete foreign_store = 1" by (simp add: foreign_store_def on_data_def note_store_def)
  ultimately show ?thesis
    using foreign_store_refused [of note_cipher foreign_store "KeyMismatch ''s''"] by blast
qed

lemma accepted_plans_distinct_witness:
  "safe_ident ''notes'' \<and> safe_ident ''body'' \<and> safe_ident ''id'' \<and> plan_item (note_plan ''body'') = ''notes.body''"
  using accepted_plans_distinct [OF plan_new_note plan_new_note]
  by (simp add: note_plan_def plan_item_def plan_item_name_def)

end
