(* ===== verification/Content_Compaction.thy ===== *)
theory Content_Compaction
  imports Content_Migration
begin

text \<open>
  crates/core/crypto/src/content\_sqlite.rs, after a migration: zero-filling the pages it freed and
  compacting the file. What SQLite does with the pages of the file is a parameter, the record
  \<open>pager\<close> of functions on a file of any type; which statements fail, the free space and the clock
  are the record \<open>compaction_env\<close>, read at the number of the statement.
\<close>

definition VACUUM_NOW_MAX_BYTES :: nat where "VACUUM_NOW_MAX_BYTES = 256 * 1024 * 1024"
definition VACUUM_HEADROOM_BYTES :: nat where "VACUUM_HEADROOM_BYTES = 256 * 1024 * 1024"
definition VACUUM_RETRY_SECS :: int where "VACUUM_RETRY_SECS = 24 * 60 * 60"
definition SCRUB_CHUNK_BYTES :: int where "SCRUB_CHUNK_BYTES = 64 * 1024 * 1024"
definition CHECKPOINT_ATTEMPTS :: nat where "CHECKPOINT_ATTEMPTS = 3"

section \<open>The file\<close>

text \<open>
  The pragmas \<open>freelist_count\<close>, \<open>page_size\<close> and \<open>wal_checkpoint(TRUNCATE)\<close> with its three numbers; creating the
  scratch table, inserting a zero blob into it and dropping it with \<open>secure_delete\<close> off; VACUUM; and
  the size of the file, if its metadata can be read.
\<close>

record 'd pager =
  pg_free :: "'d \<Rightarrow> int"
  pg_page_size :: "'d \<Rightarrow> int"
  pg_checkpoint :: "'d \<Rightarrow> (int \<times> int \<times> int) \<times> 'd"
  pg_create :: "'d \<Rightarrow> 'd"
  pg_fill :: "int \<Rightarrow> 'd \<Rightarrow> 'd"
  pg_drop :: "'d \<Rightarrow> 'd"
  pg_vacuum :: "'d \<Rightarrow> 'd"
  pg_file_size :: "'d \<Rightarrow> nat option"

record compaction_env =
  ce_fails :: "nat \<Rightarrow> bool"
  ce_free_space :: "nat \<Rightarrow> nat option"
  ce_now :: int

record 'd store_file =
  sf_conn :: connection
  sf_disk :: 'd
  sf_steps :: nat

datatype compaction_error = Db db_error | StatementFailed | WalBusy

type_synonym ('d, 'a) cop = "('d store_file, compaction_error, 'a) op"

text \<open>One statement: it fails and changes nothing, or takes effect.\<close>

definition stmt :: "compaction_env \<Rightarrow> ('d, 'a) cop \<Rightarrow> ('d, 'a) cop" where
  "stmt E m s = (let t = s\<lparr>sf_steps := sf_steps s + 1\<rparr> in
     if ce_fails E (sf_steps s) then (Inl StatementFailed, t) else m t)"

definition on_conn :: "'a sql \<Rightarrow> ('d, 'a) cop" where
  "on_conn m s = (case m (sf_conn s) of (r, c) \<Rightarrow> (map_err Db r, s\<lparr>sf_conn := c\<rparr>))"

definition on_disk :: "('d \<Rightarrow> 'd) \<Rightarrow> ('d, unit) cop" where
  "on_disk f = modifyS (\<lambda>s. s\<lparr>sf_disk := f (sf_disk s)\<rparr>)"

definition ask :: "('d \<Rightarrow> 'a) \<Rightarrow> ('d, 'a) cop" where
  "ask f = bindS getS (\<lambda>s. retS (f (sf_disk s)))"

section \<open>Checkpoints and the scratch table\<close>

fun checkpoint_tries :: "compaction_env \<Rightarrow> 'd pager \<Rightarrow> nat \<Rightarrow> ('d, unit) cop" where
  "checkpoint_tries E G 0 = failS WalBusy"
| "checkpoint_tries E G (Suc n) = bindS (stmt E (\<lambda>s. case pg_checkpoint G (sf_disk s) of
       (answer, d) \<Rightarrow> (Inr answer, s\<lparr>sf_disk := d\<rparr>))) (\<lambda>(busy, frames, copied).
     if busy = 0 \<and> frames = copied then retS () else checkpoint_tries E G n)"

definition checkpoint_truncate :: "compaction_env \<Rightarrow> 'd pager \<Rightarrow> ('d, unit) cop" where
  "checkpoint_truncate E G = checkpoint_tries E G CHECKPOINT_ATTEMPTS"

definition set_secure_delete :: "int \<Rightarrow> ('d, unit) cop" where
  "set_secure_delete mode = on_conn (modifyS (cn_secure_delete_update (\<lambda>_. mode)))"

text \<open>The outcome of an operation as a value, so that the next one runs in any case.\<close>

definition attempt :: "('d, 'a) cop \<Rightarrow> ('d, compaction_error + 'a) cop" where
  "attempt m s = (case m s of (r, t) \<Rightarrow> (Inr r, t))"

definition drop_scrub_table :: "compaction_env \<Rightarrow> 'd pager \<Rightarrow> ('d, unit) cop" where
  "drop_scrub_table E G =
     bindS (stmt E (set_secure_delete 0)) (\<lambda>_.
     bindS (attempt (stmt E (on_disk (pg_drop G)))) (\<lambda>dropped.
     bindS (attempt (stmt E (set_secure_delete 1))) (\<lambda>restored.
     bindS (liftE dropped) (\<lambda>_. bindS (liftE restored) (\<lambda>_.
     checkpoint_truncate E G)))))"

section \<open>Room on the volume\<close>

record vacuum_policy =
  vp_now_max_bytes :: nat
  vp_headroom_bytes :: nat

definition U64_MAX :: nat where "U64_MAX = 2 ^ 64 - 1"

definition vacuum_policy_default :: vacuum_policy where
  "vacuum_policy_default = \<lparr>vp_now_max_bytes = VACUUM_NOW_MAX_BYTES, vp_headroom_bytes = VACUUM_HEADROOM_BYTES\<rparr>"

definition ungated_policy :: vacuum_policy where
  "ungated_policy = vacuum_policy_default\<lparr>vp_now_max_bytes := U64_MAX\<rparr>"

definition start_policy :: "bool \<Rightarrow> vacuum_policy" where
  "start_policy gated = (if gated then vacuum_policy_default else ungated_policy)"

definition store_size :: "'d pager \<Rightarrow> ('d, nat) cop" where
  "store_size G = ask (\<lambda>d. case pg_file_size G d of Some n \<Rightarrow> n | None \<Rightarrow> 0)"

text \<open>\<open>u64\<close> arithmetic saturates.\<close>

definition has_room :: "compaction_env \<Rightarrow> nat \<Rightarrow> ('d, bool) cop" where
  "has_room E needed = bindS getS (\<lambda>s. retS (case ce_free_space E (sf_steps s) of
     Some available \<Rightarrow> min needed U64_MAX \<le> available | None \<Rightarrow> False))"

definition vacuum_fits :: "compaction_env \<Rightarrow> vacuum_policy \<Rightarrow> nat \<Rightarrow> ('d, bool) cop" where
  "vacuum_fits E policy n = has_room E (min (2 * n) U64_MAX + vp_headroom_bytes policy)"

section \<open>The freelist scrub\<close>

function fill_chunks :: "compaction_env \<Rightarrow> 'd pager \<Rightarrow> vacuum_policy \<Rightarrow> int \<Rightarrow> ('d, bool) cop" where
  "fill_chunks E G policy remaining s =
     (if remaining \<le> 0 then (Inr True, s)
      else let chunk = min remaining SCRUB_CHUNK_BYTES in
        (case has_room E (nat chunk + vp_headroom_bytes policy) s of
           (Inl e, s) \<Rightarrow> (Inl e, s)
         | (Inr False, s) \<Rightarrow> (Inr False, s)
         | (Inr True, s) \<Rightarrow> (case bindS (stmt E (on_disk (pg_fill G chunk))) (\<lambda>_. checkpoint_truncate E G) s of
               (Inl e, s) \<Rightarrow> (Inl e, s)
             | (Inr _, s) \<Rightarrow> fill_chunks E G policy (remaining - chunk) s)))"
  by pat_completeness auto
termination
  by (relation "measure (\<lambda>(E, G, policy, remaining, s). nat remaining)") (auto simp: SCRUB_CHUNK_BYTES_def)

declare fill_chunks.simps [simp del]

definition scrub_freelist :: "compaction_env \<Rightarrow> 'd pager \<Rightarrow> vacuum_policy \<Rightarrow> ('d, int option) cop" where
  "scrub_freelist E G policy =
     bindS (drop_scrub_table E G) (\<lambda>_.
     bindS (stmt E (ask (pg_free G))) (\<lambda>free_pages.
     if free_pages \<le> 0 then retS (Some 0)
     else bindS (stmt E (ask (pg_page_size G))) (\<lambda>page_size.
       bindS (stmt E (on_disk (pg_create G))) (\<lambda>_.
       bindS (attempt (fill_chunks E G policy (free_pages * page_size))) (\<lambda>filled.
       bindS (attempt (drop_scrub_table E G)) (\<lambda>dropped.
       bindS (liftE filled) (\<lambda>filled.
       bindS (liftE dropped) (\<lambda>_.
       retS (if filled then Some free_pages else None)))))))))"

section \<open>Finishing a store\<close>

record finish_outcome =
  fo_scrubbed_pages :: int
  fo_vacuumed :: bool
  fo_vacuum_pending :: bool

definition row_of :: "compaction_env \<Rightarrow> string \<Rightarrow> ('d, (string \<times> string option) option) cop" where
  "row_of E store = stmt E (on_conn (item_row store STORE_ITEM))"

definition vacuum :: "compaction_env \<Rightarrow> 'd pager \<Rightarrow> string \<Rightarrow> ('d, unit) cop" where
  "vacuum E G store =
     bindS (stmt E (on_disk (pg_vacuum G))) (\<lambda>_. bindS (checkpoint_truncate E G) (\<lambda>_.
     stmt E (on_conn (set_store_state store OK None))))"

definition finish_store_inner :: "compaction_env \<Rightarrow> 'd pager \<Rightarrow> vacuum_policy \<Rightarrow> string \<Rightarrow> ('d, finish_outcome) cop" where
  "finish_store_inner E G policy store =
     bindS (checkpoint_truncate E G) (\<lambda>_.
     bindS (row_of E store) (\<lambda>row.
     let already_scrubbed = (case row of
         Some (state, cursor) \<Rightarrow> state = VACUUM_PENDING \<and> pc_scrubbed (pending_parse cursor) | None \<Rightarrow> False) in
     bindS (if already_scrubbed then retS (Some 0) else scrub_freelist E G policy) (\<lambda>scrubbed. case scrubbed of
       None \<Rightarrow> bindS (stmt E (on_conn (set_pending store pending_default))) (\<lambda>_.
         retS \<lparr>fo_scrubbed_pages = 0, fo_vacuumed = False, fo_vacuum_pending = True\<rparr>)
     | Some pages \<Rightarrow>
         bindS (store_size G) (\<lambda>n.
         bindS (if n \<le> vp_now_max_bytes policy then vacuum_fits E policy n else retS False) (\<lambda>fits.
         if fits then bindS (vacuum E G store) (\<lambda>_.
           retS \<lparr>fo_scrubbed_pages = pages, fo_vacuumed = True, fo_vacuum_pending = False\<rparr>)
         else bindS (stmt E (on_conn (set_pending store \<lparr>pc_scrubbed = True, pc_last_attempt = None\<rparr>))) (\<lambda>_.
           retS \<lparr>fo_scrubbed_pages = pages, fo_vacuumed = False, fo_vacuum_pending = True\<rparr>))))))"

definition finish_store_with :: "compaction_env \<Rightarrow> 'd pager \<Rightarrow> vacuum_policy \<Rightarrow> string \<Rightarrow> ('d, finish_outcome) cop" where
  "finish_store_with E G policy store =
     bindS (stmt E (on_conn require_secure_delete)) (\<lambda>_.
     bindS (stmt E (on_conn ensure_busy_timeout)) (\<lambda>_.
     bindS (stmt E (on_conn ensure_state_table)) (\<lambda>_.
     bindS (attempt (finish_store_inner E G policy store)) (\<lambda>result. case result of
       Inr outcome \<Rightarrow> retS outcome
     | Inl e \<Rightarrow> bindS (attempt (stmt E (on_conn (set_store_state store VACUUM_PENDING None)))) (\<lambda>_. failS e)))))"

definition finish_store :: "compaction_env \<Rightarrow> 'd pager \<Rightarrow> string \<Rightarrow> ('d, finish_outcome) cop" where
  "finish_store E G store = finish_store_with E G vacuum_policy_default store"

section \<open>What a start owes\<close>

definition compaction_owed :: "compaction_env \<Rightarrow> string \<Rightarrow> ('d, bool) cop" where
  "compaction_owed E store =
     bindS (stmt E (on_conn ensure_state_table)) (\<lambda>_. bindS (row_of E store) (\<lambda>row.
     retS (case row of Some (state, _) \<Rightarrow> state = VACUUM_PENDING | None \<Rightarrow> False)))"

text \<open>The part after the guards, with the parsed cursor.\<close>

definition compact_now :: "compaction_env \<Rightarrow> 'd pager \<Rightarrow> vacuum_policy \<Rightarrow> string \<Rightarrow> pending_cursor \<Rightarrow> ('d, bool) cop" where
  "compact_now E G policy store cursor =
     bindS (store_size G) (\<lambda>n.
     if n > vp_now_max_bytes policy then retS False
     else bindS (vacuum_fits E policy n) (\<lambda>fits.
       if \<not> fits then bindS (stmt E (on_conn (set_pending store (cursor\<lparr>pc_last_attempt := Some (ce_now E)\<rparr>)))) (\<lambda>_. retS False)
       else bindS (vacuum E G store) (\<lambda>_. retS True)))"

definition scrub_then_compact :: "compaction_env \<Rightarrow> 'd pager \<Rightarrow> vacuum_policy \<Rightarrow> string \<Rightarrow> pending_cursor \<Rightarrow> ('d, bool) cop" where
  "scrub_then_compact E G policy store cursor =
     (if pc_scrubbed cursor then compact_now E G policy store cursor
      else bindS (scrub_freelist E G policy) (\<lambda>scrubbed. case scrubbed of
        None \<Rightarrow> bindS (stmt E (on_conn (set_pending store (cursor\<lparr>pc_last_attempt := Some (ce_now E)\<rparr>)))) (\<lambda>_. retS False)
      | Some _ \<Rightarrow> let cursor = \<lparr>pc_scrubbed = True, pc_last_attempt = None\<rparr> in
          bindS (stmt E (on_conn (set_pending store cursor))) (\<lambda>_. compact_now E G policy store cursor)))"

text \<open>The difference of the clock readings wraps, as in a release build.\<close>

definition wrap_i64 :: "int \<Rightarrow> int" where
  "wrap_i64 n = (n + 2 ^ 63) mod 2 ^ 64 - 2 ^ 63"

definition run_pending_vacuum_with :: "compaction_env \<Rightarrow> 'd pager \<Rightarrow> vacuum_policy \<Rightarrow> string \<Rightarrow> ('d, bool) cop" where
  "run_pending_vacuum_with E G policy store =
     bindS (stmt E (on_conn ensure_state_table)) (\<lambda>_.
     bindS (row_of E store) (\<lambda>row. case row of
       None \<Rightarrow> retS False
     | Some (state, cursor) \<Rightarrow>
         if state \<noteq> VACUUM_PENDING then retS False
         else let cursor = pending_parse cursor in
           if (case pc_last_attempt cursor of Some attempted \<Rightarrow> wrap_i64 (ce_now E - attempted) < VACUUM_RETRY_SECS | None \<Rightarrow> False) then retS False
           else bindS (stmt E (on_conn require_secure_delete)) (\<lambda>_.
             bindS (stmt E (on_conn ensure_busy_timeout)) (\<lambda>_.
             bindS (checkpoint_truncate E G) (\<lambda>_. scrub_then_compact E G policy store cursor)))))"

definition run_pending_vacuum :: "compaction_env \<Rightarrow> 'd pager \<Rightarrow> string \<Rightarrow> ('d, bool) cop" where
  "run_pending_vacuum E G store = run_pending_vacuum_with E G (start_policy False) store"

definition run_pending_vacuum_gated :: "compaction_env \<Rightarrow> 'd pager \<Rightarrow> string \<Rightarrow> ('d, bool) cop" where
  "run_pending_vacuum_gated E G store = run_pending_vacuum_with E G (start_policy True) store"

definition compact_deferred :: "compaction_env \<Rightarrow> 'd pager \<Rightarrow> string \<Rightarrow> ('d, bool) cop" where
  "compact_deferred E G store = run_pending_vacuum_with E G ungated_policy store"

end
