(* ===== verification/Compaction_Record.thy ===== *)
theory Compaction_Record
  imports Content_Compaction Migration_Runs
begin

text \<open>
  The scrub and the compaction of a store leave a true record: the laws of the file's pages, what one
  pass over the free list does to them, and the record through every failure.
\<close>

section \<open>The pages of a file\<close>

text \<open>
  \<open>dirty\<close> counts the free pages of a file that may still hold what was deleted. What SQLite documents:
  a zero blob takes free pages first and fills each whole; creating or dropping the scratch table,
  whose pages hold only zeros, and a checkpoint leave no new content on free pages; VACUUM leaves no
  free page; the page size is a power of two, at most 64 KiB, and stays.
\<close>

definition pager_laws :: "'d pager \<Rightarrow> ('d \<Rightarrow> int) \<Rightarrow> bool" where
  "pager_laws G dirty \<longleftrightarrow> (\<forall>d. 0 \<le> dirty d \<and> dirty d \<le> pg_free G d
     \<and> 0 < pg_page_size G d \<and> pg_page_size G d dvd SCRUB_CHUNK_BYTES
     \<and> pg_page_size G (pg_create G d) = pg_page_size G d \<and> dirty (pg_create G d) \<le> dirty d
     \<and> pg_page_size G (pg_drop G d) = pg_page_size G d \<and> dirty (pg_drop G d) \<le> dirty d
     \<and> pg_page_size G (snd (pg_checkpoint G d)) = pg_page_size G d \<and> dirty (snd (pg_checkpoint G d)) \<le> dirty d
     \<and> pg_page_size G (pg_vacuum G d) = pg_page_size G d \<and> dirty (pg_vacuum G d) = 0
     \<and> (\<forall>n. pg_page_size G (pg_fill G n d) = pg_page_size G d
          \<and> (0 < n \<longrightarrow> dirty (pg_fill G n d) \<le> max 0 (dirty d - n div pg_page_size G d))))"

text \<open>An operation that leaves no new content on free pages and does not touch the state table.\<close>

definition calm :: "'d pager \<Rightarrow> ('d \<Rightarrow> int) \<Rightarrow> ('d, 'a) cop \<Rightarrow> bool" where
  "calm G dirty m \<longleftrightarrow> (\<forall>s r t. m s = (r, t) \<longrightarrow> dirty (sf_disk t) \<le> dirty (sf_disk s)
     \<and> pg_page_size G (sf_disk t) = pg_page_size G (sf_disk s) \<and> seal_at (sf_conn t) = seal_at (sf_conn s))"

named_theorems calm_intros

lemma calmD:
  assumes "calm G dirty m" "m s = (r, t)"
  shows "dirty (sf_disk t) \<le> dirty (sf_disk s)" "pg_page_size G (sf_disk t) = pg_page_size G (sf_disk s)"
    "seal_at (sf_conn t) = seal_at (sf_conn s)"
  using assms by (auto simp: calm_def)

lemma calm_pure [calm_intros]: "calm G dirty (retS x)" "calm G dirty (failS e)" "calm G dirty (liftE q)" "calm G dirty getS"
  "calm G dirty (Pair q)"
  by (simp_all add: calm_def)

lemma calm_bind [calm_intros]: "calm G dirty m \<Longrightarrow> (\<And>x. calm G dirty (k x)) \<Longrightarrow> calm G dirty (bindS m k)"
  unfolding calm_def bindS_def by (fastforce split: prod.splits sum.splits)

lemma calm_stmt [calm_intros]: "calm G dirty m \<Longrightarrow> calm G dirty (stmt E m)"
proof -
  assume m: "calm G dirty m"
  have "dirty (sf_disk t) \<le> dirty (sf_disk s) \<and> pg_page_size G (sf_disk t) = pg_page_size G (sf_disk s)
      \<and> seal_at (sf_conn t) = seal_at (sf_conn s)" if run: "stmt E m s = (r, t)" for s r t
  proof (cases "ce_fails E (sf_steps s)")
    case True
    then show ?thesis using run by (auto simp: stmt_def Let_def)
  next
    case False
    then have "m (s\<lparr>sf_steps := sf_steps s + 1\<rparr>) = (r, t)" using run by (simp add: stmt_def Let_def)
    from calmD [OF m this] show ?thesis by simp
  qed
  then show ?thesis unfolding calm_def by blast
qed

lemma calm_attempt [calm_intros]: "calm G dirty m \<Longrightarrow> calm G dirty (attempt m)"
  unfolding calm_def attempt_def by (auto split: prod.splits)

lemma calm_if [calm_intros]: "calm G dirty m \<Longrightarrow> calm G dirty n \<Longrightarrow> calm G dirty (if b then m else n)"
  by simp

lemma calm_ask [calm_intros]: "calm G dirty (ask f)"
  by (simp add: ask_def calm_intros)

lemma calm_has_room [calm_intros]: "calm G dirty (has_room E n)" "calm G dirty (vacuum_fits E policy n)" "calm G dirty (store_size G)"
  by (simp_all add: has_room_def vacuum_fits_def store_size_def calm_intros)

lemma calm_disk:
  "(\<And>d. dirty (f d) \<le> dirty d \<and> pg_page_size G (f d) = pg_page_size G d) \<Longrightarrow> calm G dirty (on_disk f)"
  by (simp add: calm_def on_disk_def)

lemma calm_conn: "(\<And>c r c'. m c = (r, c') \<Longrightarrow> seal_at c' = seal_at c) \<Longrightarrow> calm G dirty (on_conn m)"
  by (auto simp: calm_def on_conn_def split: prod.splits)

lemma calm_settings [calm_intros]: "calm G dirty (set_secure_delete mode)" "calm G dirty (on_conn require_secure_delete)"
  "calm G dirty (on_conn ensure_busy_timeout)" "calm G dirty (on_conn ensure_state_table)" "calm G dirty (on_conn (item_row store item))"
  unfolding set_secure_delete_def
  by (auto intro!: calm_conn ext simp: require_secure_delete_def guardS_def ensure_busy_timeout_def ensure_state_table_def
      item_row_def seal_rows_def bindS_def seal_at_def on_data_def split: if_splits sum.splits)

section \<open>The scrub\<close>

lemma pager_lawsD:
  assumes "pager_laws G dirty"
  shows "0 \<le> dirty d" "dirty d \<le> pg_free G d" "0 < pg_page_size G d" "pg_page_size G d dvd SCRUB_CHUNK_BYTES"
    "dirty (pg_create G d) \<le> dirty d \<and> pg_page_size G (pg_create G d) = pg_page_size G d"
    "dirty (pg_drop G d) \<le> dirty d \<and> pg_page_size G (pg_drop G d) = pg_page_size G d"
    "dirty (snd (pg_checkpoint G d)) \<le> dirty d \<and> pg_page_size G (snd (pg_checkpoint G d)) = pg_page_size G d"
    "dirty (pg_vacuum G d) = 0" "pg_page_size G (pg_vacuum G d) = pg_page_size G d"
    "pg_page_size G (pg_fill G n d) = pg_page_size G d"
    "0 < n \<Longrightarrow> dirty (pg_fill G n d) \<le> max 0 (dirty d - n div pg_page_size G d)"
  using assms unfolding pager_laws_def by blast+

lemma calm_checkpoint [calm_intros]:
  assumes "pager_laws G dirty"
  shows "calm G dirty (checkpoint_truncate E G)"
proof -
  have ask: "calm G dirty (\<lambda>s. case pg_checkpoint G (sf_disk s) of (answer, d) \<Rightarrow> (Inr answer, s\<lparr>sf_disk := d\<rparr>))"
  proof -
    have "dirty d \<le> dirty (sf_disk s) \<and> pg_page_size G d = pg_page_size G (sf_disk s)"
      if "pg_checkpoint G (sf_disk s) = (answer, d)" for s :: "'a store_file" and answer d
      using pager_lawsD(7) [OF assms, of "sf_disk s"] that by simp
    then show ?thesis by (auto simp: calm_def split: prod.splits)
  qed
  have "calm G dirty (checkpoint_tries E G n)" for n
    by (induction n) (auto intro!: calm_intros ask split: prod.split)
  then show ?thesis by (simp add: checkpoint_truncate_def)
qed

lemma calm_vacuum [calm_intros]:
  assumes "pager_laws G dirty"
  shows "calm G dirty (on_disk (pg_vacuum G))" "calm G dirty (on_disk (pg_create G))" "calm G dirty (on_disk (pg_drop G))"
    "calm G dirty (drop_scrub_table E G)"
proof -
  have "0 \<le> dirty d" for d by (rule pager_lawsD(1) [OF assms])
  then show "calm G dirty (on_disk (pg_vacuum G))"
    using pager_lawsD(8,9) [OF assms] by (intro calm_disk) simp
  show create: "calm G dirty (on_disk (pg_create G))" and drop: "calm G dirty (on_disk (pg_drop G))"
    using pager_lawsD(5,6) [OF assms] by (auto intro: calm_disk)
  show "calm G dirty (drop_scrub_table E G)"
    unfolding drop_scrub_table_def by (intro calm_intros drop assms)
qed

lemma fill_calm:
  assumes "pager_laws G dirty" "0 < n"
  shows "calm G dirty (on_disk (pg_fill G n))"
proof (rule calm_disk)
  fix d
  have "0 \<le> n div pg_page_size G d" using assms(2) pager_lawsD(3) [OF assms(1), of d] by (simp add: pos_imp_zdiv_nonneg_iff)
  then show "dirty (pg_fill G n d) \<le> dirty d \<and> pg_page_size G (pg_fill G n d) = pg_page_size G d"
    using pager_lawsD(1) [OF assms(1), of d] pager_lawsD(10,11) [OF assms(1), of n d] assms(2) by simp
qed

text \<open>
  Chunk by chunk: the pages still to fill cover the dirty ones, so that none is left when all is filled.
\<close>

lemma fill_chunks_cleans:
  assumes "pager_laws G dirty"
  shows "fill_chunks E G policy remaining s = (r, t) \<Longrightarrow>
    dirty (sf_disk t) \<le> dirty (sf_disk s) \<and> pg_page_size G (sf_disk t) = pg_page_size G (sf_disk s)
    \<and> seal_at (sf_conn t) = seal_at (sf_conn s)
    \<and> (r = Inr True \<longrightarrow> pg_page_size G (sf_disk s) dvd remaining \<longrightarrow> dirty (sf_disk s) * pg_page_size G (sf_disk s) \<le> max 0 remaining
        \<longrightarrow> dirty (sf_disk t) = 0)"
proof (induction "nat remaining" arbitrary: remaining s rule: less_induct)
  case less
  let ?p = "pg_page_size G (sf_disk s)"
  have p: "0 < ?p" "?p dvd SCRUB_CHUNK_BYTES" "0 \<le> dirty (sf_disk s)" using pager_lawsD [OF assms] by blast+
  show ?case
  proof (cases "remaining \<le> 0")
    case True
    then have "t = s" using less.prems by (simp add: fill_chunks.simps)
    moreover have "dirty (sf_disk s) = 0" if "dirty (sf_disk s) * ?p \<le> max 0 remaining"
    proof -
      have "dirty (sf_disk s) * ?p \<le> 0" using that True by simp
      then show ?thesis using p(1,3) by (simp add: mult_le_0_iff)
    qed
    ultimately show ?thesis by blast
  next
    case False
    let ?chunk = "min remaining SCRUB_CHUNK_BYTES"
    let ?room = "has_room E (nat ?chunk + vp_headroom_bytes policy) s"
    let ?step = "bindS (stmt E (on_disk (pg_fill G ?chunk))) (\<lambda>_. checkpoint_truncate E G)"
    have chunk: "0 < ?chunk" using False by (simp add: SCRUB_CHUNK_BYTES_def)
    have calm_step: "calm G dirty ?step" by (intro calm_intros fill_calm assms chunk)
    obtain fits where room: "?room = (Inr fits, s)" by (simp add: has_room_def bindS_def)
    show ?thesis
    proof (cases fits)
      case False
      then have "t = s \<and> r = Inr False" using less.prems \<open>\<not> remaining \<le> 0\<close> room by (simp add: fill_chunks.simps Let_def)
      then show ?thesis by simp
    next
      case True
      obtain q u where q: "?step s = (q, u)" by fastforce
      note u = calmD [OF calm_step q]
      show ?thesis
      proof (cases q)
        case (Inl e)
        then have "t = u \<and> r = Inl e" using less.prems \<open>\<not> remaining \<le> 0\<close> room True q by (simp add: fill_chunks.simps Let_def)
        then show ?thesis using u by simp
      next
        case (Inr x)
        have "fill_chunks E G policy (remaining - ?chunk) u = (r, t)"
          using less.prems \<open>\<not> remaining \<le> 0\<close> room True q Inr by (simp add: fill_chunks.simps [of _ _ _ remaining] Let_def)
        moreover have "nat (remaining - ?chunk) < nat remaining" using chunk False by simp
        ultimately have IH: "dirty (sf_disk t) \<le> dirty (sf_disk u) \<and> pg_page_size G (sf_disk t) = pg_page_size G (sf_disk u)
            \<and> seal_at (sf_conn t) = seal_at (sf_conn u)
            \<and> (r = Inr True \<longrightarrow> pg_page_size G (sf_disk u) dvd remaining - ?chunk
                \<longrightarrow> dirty (sf_disk u) * pg_page_size G (sf_disk u) \<le> max 0 (remaining - ?chunk) \<longrightarrow> dirty (sf_disk t) = 0)"
          using less.hyps by blast
        have "dirty (sf_disk u) * ?p \<le> max 0 (remaining - ?chunk)"
          if dvd: "?p dvd remaining" and cover: "dirty (sf_disk s) * ?p \<le> max 0 remaining"
        proof -
          have "?p dvd ?chunk" using dvd p(2) by (simp add: min_def)
          then obtain k where k: "?chunk = ?p * k" by (elim dvdE)
          have "dirty (sf_disk u) \<le> max 0 (dirty (sf_disk s) - k)"
          proof -
            obtain v where v: "stmt E (on_disk (pg_fill G ?chunk)) s = (Inr (), v)" "checkpoint_truncate E G v = (q, u)"
              using q Inr by (cases "stmt E (on_disk (pg_fill G ?chunk)) s") (auto simp: bindS_def split: sum.splits)
            have "sf_disk v = pg_fill G ?chunk (sf_disk s)"
              using v(1) by (auto simp: stmt_def on_disk_def Let_def split: if_splits)
            moreover have "?chunk div ?p = k" using k p(1) by simp
            ultimately have "dirty (sf_disk v) \<le> max 0 (dirty (sf_disk s) - k)"
              using pager_lawsD(11) [OF assms chunk, of "sf_disk s"] by simp
            moreover have "dirty (sf_disk u) \<le> dirty (sf_disk v)"
              by (rule calmD(1) [OF calm_checkpoint [OF assms] v(2)])
            ultimately show ?thesis by simp
          qed
          then have "dirty (sf_disk u) * ?p \<le> max 0 (dirty (sf_disk s) - k) * ?p"
            using p(1) by (intro mult_right_mono) simp_all
          also have "\<dots> \<le> max 0 (remaining - ?chunk)"
          proof -
            have "(dirty (sf_disk s) - k) * ?p = dirty (sf_disk s) * ?p - ?chunk" using k by (simp add: algebra_simps)
            then show ?thesis using cover False by (simp add: max_def)
          qed
          finally show ?thesis .
        qed
        moreover have "?p dvd remaining - ?chunk" if "?p dvd remaining"
          using that p(2) by (simp add: min_def)
        ultimately show ?thesis using IH u by (metis (no_types, lifting) dual_order.trans)
      qed
    qed
  qed
qed

lemma calm_fill_chunks [calm_intros]: "pager_laws G dirty \<Longrightarrow> calm G dirty (fill_chunks E G policy remaining)"
  unfolding calm_def using fill_chunks_cleans by blast

lemma calm_scrub_freelist [calm_intros]:
  assumes "pager_laws G dirty"
  shows "calm G dirty (scrub_freelist E G policy)"
  unfolding scrub_freelist_def by (intro calm_intros assms)

lemma stmt_Inr: "stmt E m s = (Inr x, t) \<longleftrightarrow> \<not> ce_fails E (sf_steps s) \<and> m (s\<lparr>sf_steps := sf_steps s + 1\<rparr>) = (Inr x, t)"
  by (simp add: stmt_def Let_def)

lemma stmt_ask: "stmt E (ask f) s = (Inr x, t) \<Longrightarrow> x = f (sf_disk s) \<and> sf_disk t = sf_disk s"
  by (auto simp: stmt_Inr ask_def bindS_def)

lemma attempt_Inr: "attempt m s = (Inr r, t) \<longleftrightarrow> m s = (r, t)"
  by (auto simp: attempt_def split: prod.split)

lemma scrub_freelist_cleans:
  assumes laws: "pager_laws G dirty" and run: "scrub_freelist E G policy s = (Inr (Some n), t)"
  shows "dirty (sf_disk t) = 0"
proof -
  have nn: "0 \<le> dirty d" for d by (rule pager_lawsD(1) [OF laws])
  obtain s1 s2 free where s1: "drop_scrub_table E G s = (Inr (), s1)" and s2: "stmt E (ask (pg_free G)) s1 = (Inr free, s2)"
    and rest: "(if free \<le> 0 then retS (Some 0)
      else bindS (stmt E (ask (pg_page_size G))) (\<lambda>page_size.
       bindS (stmt E (on_disk (pg_create G))) (\<lambda>_.
       bindS (attempt (fill_chunks E G policy (free * page_size))) (\<lambda>filled.
       bindS (attempt (drop_scrub_table E G)) (\<lambda>dropped.
       bindS (liftE filled) (\<lambda>filled.
       bindS (liftE dropped) (\<lambda>_.
       retS (if filled then Some free else None)))))))) s2 = (Inr (Some n), t)"
    using run unfolding scrub_freelist_def by (auto simp: bindS_eq_Inr)
  have free: "free = pg_free G (sf_disk s2)" using stmt_ask [OF s2] by simp
  show ?thesis
  proof (cases "free \<le> 0")
    case True
    then have "t = s2" using rest by simp
    then show ?thesis using True free pager_lawsD(2) [OF laws, of "sf_disk s2"] nn [of "sf_disk s2"] by simp
  next
    case False
    obtain ps s3 s4 filled s5 dropped where s3: "stmt E (ask (pg_page_size G)) s2 = (Inr ps, s3)"
      and s4: "stmt E (on_disk (pg_create G)) s3 = (Inr (), s4)"
      and s5: "fill_chunks E G policy (free * ps) s4 = (filled, s5)"
      and t: "drop_scrub_table E G s5 = (dropped, t)" and filled: "filled = Inr True"
      using rest False by (auto simp: bindS_eq_Inr attempt_Inr liftE_def split: if_splits)
    have ps: "ps = pg_page_size G (sf_disk s2)" "sf_disk s3 = sf_disk s2" using stmt_ask [OF s3] by simp_all
    have c4: "calm G dirty (stmt E (on_disk (pg_create G)))" by (intro calm_intros laws)
    have size: "pg_page_size G (sf_disk s4) = ps" and "dirty (sf_disk s4) \<le> dirty (sf_disk s2)"
      using calmD(1,2) [OF c4 s4] ps by simp_all
    then have "dirty (sf_disk s4) \<le> free" using pager_lawsD(2) [OF laws, of "sf_disk s2"] free by simp
    moreover have "0 < ps" using pager_lawsD(3) [OF laws, of "sf_disk s2"] ps by simp
    ultimately have "dirty (sf_disk s4) * ps \<le> free * ps" by (intro mult_right_mono) simp_all
    then have "dirty (sf_disk s5) = 0"
      using fill_chunks_cleans [OF laws s5] filled size by simp
    then show ?thesis using calmD(1) [OF calm_vacuum(4) [OF laws] t] nn [of "sf_disk t"] by simp
  qed
qed

section \<open>The record is true\<close>

text \<open>
  The store's record claims no more than is so: when it says that the store is compacted, or that
  its pages are scrubbed, no free page holds old content.
\<close>

definition claims_clean :: "connection \<Rightarrow> string \<Rightarrow> bool" where
  "claims_clean c store \<longleftrightarrow> (\<exists>r. seal_at c store STORE_ITEM = Some r
     \<and> (sr_state r = OK \<or> sr_state r = VACUUM_PENDING \<and> pc_scrubbed (pending_parse (sr_cursor r))))"

definition recorded_clean :: "('d \<Rightarrow> int) \<Rightarrow> string \<Rightarrow> 'd store_file \<Rightarrow> bool" where
  "recorded_clean dirty store s \<longleftrightarrow> (claims_clean (sf_conn s) store \<longrightarrow> dirty (sf_disk s) \<le> 0)"

lemma calm_recorded: "calm G dirty m \<Longrightarrow> m s = (r, t) \<Longrightarrow> recorded_clean dirty store s \<Longrightarrow> recorded_clean dirty store t"
  using calmD [of G dirty m s r t] by (auto simp: recorded_clean_def claims_clean_def)

lemma calm_keeps: "calm G dirty m \<Longrightarrow> keeps (recorded_clean dirty store) m"
  by (rule keepsI) (rule calm_recorded)

lemma set_state_recorded:
  assumes run: "stmt E (on_conn (set_store_state store state cursor)) s = (r, t)"
    and ok: "recorded_clean dirty store s"
    and claim: "state = OK \<or> state = VACUUM_PENDING \<and> pc_scrubbed (pending_parse cursor) \<Longrightarrow> dirty (sf_disk s) \<le> 0"
  shows "recorded_clean dirty store t \<and> sf_disk t = sf_disk s
    \<and> (r = Inr () \<longrightarrow> (\<exists>q. seal_at (sf_conn t) store STORE_ITEM = Some q \<and> sr_state q = state \<and> sr_cursor q = cursor))"
proof (cases "ce_fails E (sf_steps s)")
  case True
  then show ?thesis using run ok by (auto simp: stmt_def Let_def recorded_clean_def)
next
  case False
  obtain q c where c: "set_store_state store state cursor (sf_conn s) = (q, c)" by fastforce
  then have t: "r = map_err Db q" "sf_conn t = c" "sf_disk t = sf_disk s"
    using run False by (auto simp: stmt_def Let_def on_conn_def)
  show ?thesis
  proof (cases "has_table (sf_conn s)")
    case True
    then have "q = Inr ()" "\<exists>p. seal_at c store STORE_ITEM = Some p \<and> sr_state p = state \<and> sr_cursor p = cursor"
      using set_item_entry [OF True, of store STORE_ITEM state cursor] c
      by (auto simp: set_store_state_is_item item_progress_def split: option.splits)
    then show ?thesis using t claim by (auto simp: recorded_clean_def claims_clean_def)
  next
    case False
    then have "q = Inl NoSuchTable" "c = sf_conn s"
      using c by (auto simp: set_store_state_def write_rows_def seal_rows_def bindS_def has_table_def ok_or_def)
    then show ?thesis using t ok by (auto simp: recorded_clean_def)
  qed
qed

text \<open>Compacting: the record is \<open>ok\<close> only after VACUUM has left no free page.\<close>

lemma vacuum_recorded:
  assumes laws: "pager_laws G dirty" and run: "vacuum E G store s = (r, t)" and ok: "recorded_clean dirty store s"
  shows "recorded_clean dirty store t
    \<and> (r = Inr () \<longrightarrow> dirty (sf_disk t) = 0 \<and> (\<exists>q. seal_at (sf_conn t) store STORE_ITEM = Some q \<and> sr_state q = OK))"
proof -
  let ?pre = "bindS (stmt E (on_disk (pg_vacuum G))) (\<lambda>_. checkpoint_truncate E G)"
  have calm: "calm G dirty ?pre" by (intro calm_intros laws)
  obtain q u where q: "?pre s = (q, u)" by fastforce
  have u: "recorded_clean dirty store u" by (rule calm_recorded [OF calm q ok])
  have run': "(case q of Inl e \<Rightarrow> (Inl e, u) | Inr _ \<Rightarrow> stmt E (on_conn (set_store_state store OK None)) u) = (r, t)"
    using run q by (auto simp: vacuum_def bindS_def split: prod.splits sum.splits)
  show ?thesis
  proof (cases q)
    case (Inl e)
    then show ?thesis using run' u by auto
  next
    case (Inr x)
    obtain v where v: "stmt E (on_disk (pg_vacuum G)) s = (Inr (), v)" "checkpoint_truncate E G v = (q, u)"
      using q Inr by (cases "stmt E (on_disk (pg_vacuum G)) s") (auto simp: bindS_def split: sum.splits)
    have "sf_disk v = pg_vacuum G (sf_disk s)" using v(1) by (auto simp: stmt_Inr on_disk_def)
    then have "dirty (sf_disk u) \<le> 0"
      using calmD(1) [OF calm_checkpoint [OF laws] v(2)] pager_lawsD(8) [OF laws, of "sf_disk s"] by simp
    then show ?thesis
      using set_state_recorded [OF _ u, of E OK None r t] run' Inr pager_lawsD(1) [OF laws, of "sf_disk t"] by auto
  qed
qed

text \<open>Operations that keep the record true, with what holds after a success.\<close>

definition ends :: "('d \<Rightarrow> int) \<Rightarrow> string \<Rightarrow> ('d store_file \<Rightarrow> bool) \<Rightarrow> ('d, 'a) cop \<Rightarrow> ('a \<Rightarrow> 'd store_file \<Rightarrow> bool) \<Rightarrow> bool" where
  "ends dirty store Pre m Post \<longleftrightarrow> (\<forall>s r t. recorded_clean dirty store s \<longrightarrow> Pre s \<longrightarrow> m s = (r, t)
     \<longrightarrow> recorded_clean dirty store t \<and> (\<forall>x. r = Inr x \<longrightarrow> Post x t))"

lemma ends_bind: "ends dirty store Pre m Q \<Longrightarrow> (\<And>x. ends dirty store (Q x) (k x) Post) \<Longrightarrow> ends dirty store Pre (bindS m k) Post"
proof -
  assume m: "ends dirty store Pre m Q" and k: "\<And>x. ends dirty store (Q x) (k x) Post"
  have "recorded_clean dirty store t \<and> (\<forall>x. r = Inr x \<longrightarrow> Post x t)"
    if s: "recorded_clean dirty store s" "Pre s" "bindS m k s = (r, t)" for s r t
  proof -
    obtain q u where q: "m s = (q, u)" by fastforce
    have u: "recorded_clean dirty store u" "\<And>x. q = Inr x \<Longrightarrow> Q x u"
      using m s(1,2) q unfolding ends_def by blast+
    show ?thesis
    proof (cases q)
      case (Inl e)
      then show ?thesis using s(3) q u(1) by (auto simp: bindS_def)
    next
      case (Inr x)
      then have "k x u = (r, t)" using s(3) q by (simp add: bindS_def)
      then show ?thesis using k [of x] u Inr unfolding ends_def by blast
    qed
  qed
  then show ?thesis unfolding ends_def by blast
qed

lemma ends_ret: "(\<And>s. Pre s \<Longrightarrow> Post x s) \<Longrightarrow> ends dirty store Pre (retS x) Post"
  by (simp add: ends_def)

lemma ends_if: "(b \<Longrightarrow> ends dirty store Pre m Post) \<Longrightarrow> (\<not> b \<Longrightarrow> ends dirty store Pre n Post)
  \<Longrightarrow> ends dirty store Pre (if b then m else n) Post"
  by simp

lemma ends_calm: "calm G dirty m \<Longrightarrow> ends dirty store (\<lambda>s. clean \<longrightarrow> dirty (sf_disk s) \<le> 0) m (\<lambda>x t. clean \<longrightarrow> dirty (sf_disk t) \<le> 0)"
proof -
  assume m: "calm G dirty m"
  have "recorded_clean dirty store t \<and> (clean \<longrightarrow> dirty (sf_disk t) \<le> 0)"
    if "recorded_clean dirty store s" "clean \<longrightarrow> dirty (sf_disk s) \<le> 0" "m s = (r, t)" for s r t
    using calm_recorded [OF m that(3,1)] calmD(1) [OF m that(3)] that(2) by auto
  then show ?thesis unfolding ends_def by blast
qed

lemma ends_calm_any: "calm G dirty m \<Longrightarrow> ends dirty store Pre m (\<lambda>x t. True)"
  unfolding ends_def by (auto dest: calm_recorded)

lemma ends_pre: "ends dirty store Pre m Post \<Longrightarrow> (\<And>s. Pre' s \<Longrightarrow> Pre s) \<Longrightarrow> ends dirty store Pre' m Post"
  by (simp add: ends_def)

abbreviation state_is :: "string \<Rightarrow> string \<Rightarrow> 'd store_file \<Rightarrow> bool" where
  "state_is store state t \<equiv> \<exists>q. seal_at (sf_conn t) store STORE_ITEM = Some q \<and> sr_state q = state"

lemma ends_pending:
  assumes "\<And>t. pc_last_attempt p = Some t \<Longrightarrow> is_i64 t"
  shows "ends dirty store (\<lambda>s. pc_scrubbed p \<longrightarrow> dirty (sf_disk s) \<le> 0) (stmt E (on_conn (set_pending store p)))
    (\<lambda>x t. state_is store VACUUM_PENDING t)"
  using set_state_recorded [of E store VACUUM_PENDING "pending_encode p"] pending_round_trip [OF assms]
  by (fastforce simp: ends_def set_pending_def VACUUM_PENDING_def OK_def)

lemma ends_vacuum:
  "pager_laws G dirty \<Longrightarrow> ends dirty store Pre (vacuum E G store) (\<lambda>x t. dirty (sf_disk t) = 0 \<and> state_is store OK t)"
  using vacuum_recorded unfolding ends_def by fastforce

lemma ends_scrub:
  assumes "pager_laws G dirty"
  shows "ends dirty store Pre (scrub_freelist E G policy) (\<lambda>x t. x \<noteq> None \<longrightarrow> dirty (sf_disk t) \<le> 0)"
  unfolding ends_def
  using calm_recorded [OF calm_scrub_freelist [OF assms]] scrub_freelist_cleans [OF assms] by fastforce

definition row_scrubbed :: "(string \<times> string option) option \<Rightarrow> bool" where
  "row_scrubbed row \<longleftrightarrow> (case row of
     Some (state, cursor) \<Rightarrow> state = VACUUM_PENDING \<and> pc_scrubbed (pending_parse cursor) | None \<Rightarrow> False)"

lemma row_of_seal: "row_of E store s = (Inr row, t) \<Longrightarrow> sf_conn t = sf_conn s \<and> sf_disk t = sf_disk s
    \<and> row = map_option (\<lambda>r. (sr_state r, sr_cursor r)) (seal_at (sf_conn s) store STORE_ITEM)"
  by (auto simp: row_of_def stmt_Inr on_conn_def item_row_def seal_rows_def bindS_def seal_at_def ok_or_def
      split: prod.splits option.splits sum.splits)

lemma calm_row_of: "calm G dirty (row_of E store)"
  by (simp add: row_of_def calm_intros)

lemma ends_row: "ends dirty store Pre (row_of E store) (\<lambda>row t. row_scrubbed row \<longrightarrow> dirty (sf_disk t) \<le> 0)"
  unfolding ends_def
proof (intro allI impI)
  fix s r t assume s: "recorded_clean dirty store s" "row_of E store s = (r, t)"
  have "recorded_clean dirty store t"
    by (rule calm_recorded [OF calm_row_of s(2) s(1)])
  moreover have "dirty (sf_disk t) \<le> 0" if "r = Inr row" "row_scrubbed row" for row
    using row_of_seal [of E store s row t] s that
    by (auto simp: row_scrubbed_def recorded_clean_def claims_clean_def split: option.splits prod.splits)
  ultimately show "recorded_clean dirty store t \<and> (\<forall>x. r = Inr x \<longrightarrow> row_scrubbed x \<longrightarrow> dirty (sf_disk t) \<le> 0)" by blast
qed

lemma ends_finish_inner:
  assumes laws: "pager_laws G dirty"
  shows "ends dirty store (\<lambda>s. True) (finish_store_inner E G policy store) (\<lambda>out t.
    if fo_vacuumed out then \<not> fo_vacuum_pending out \<and> dirty (sf_disk t) = 0 \<and> state_is store OK t
    else fo_vacuum_pending out \<and> state_is store VACUUM_PENDING t)"
proof -
  let ?Post = "\<lambda>out t. if fo_vacuumed out then \<not> fo_vacuum_pending out \<and> dirty (sf_disk t) = 0 \<and> state_is store OK t
    else fo_vacuum_pending out \<and> state_is store VACUUM_PENDING t"
  have sized: "ends dirty store (\<lambda>s. dirty (sf_disk s) \<le> 0)
      (bindS (store_size G) (\<lambda>n.
         bindS (if n \<le> vp_now_max_bytes policy then vacuum_fits E policy n else retS False) (\<lambda>fits.
         if fits then bindS (vacuum E G store) (\<lambda>_.
           retS \<lparr>fo_scrubbed_pages = pages, fo_vacuumed = True, fo_vacuum_pending = False\<rparr>)
         else bindS (stmt E (on_conn (set_pending store \<lparr>pc_scrubbed = True, pc_last_attempt = None\<rparr>))) (\<lambda>_.
           retS \<lparr>fo_scrubbed_pages = pages, fo_vacuumed = False, fo_vacuum_pending = True\<rparr>)))) ?Post" for pages
  proof (rule ends_bind [OF ends_pre [OF ends_calm [of G dirty _ _ True]]])
    show "calm G dirty (store_size G)" by (intro calm_intros)
  next
    fix n
    show "ends dirty store (\<lambda>t. True \<longrightarrow> dirty (sf_disk t) \<le> 0)
      (bindS (if n \<le> vp_now_max_bytes policy then vacuum_fits E policy n else retS False) (\<lambda>fits.
         if fits then bindS (vacuum E G store) (\<lambda>_.
           retS \<lparr>fo_scrubbed_pages = pages, fo_vacuumed = True, fo_vacuum_pending = False\<rparr>)
         else bindS (stmt E (on_conn (set_pending store \<lparr>pc_scrubbed = True, pc_last_attempt = None\<rparr>))) (\<lambda>_.
           retS \<lparr>fo_scrubbed_pages = pages, fo_vacuumed = False, fo_vacuum_pending = True\<rparr>))) ?Post"
    proof (rule ends_bind [OF ends_calm [of G dirty _ _ True]])
      show "calm G dirty (if n \<le> vp_now_max_bytes policy then vacuum_fits E policy n else retS False)" by (intro calm_intros)
    next
      fix fits :: bool
      show "ends dirty store (\<lambda>t. True \<longrightarrow> dirty (sf_disk t) \<le> 0)
        (if fits then bindS (vacuum E G store) (\<lambda>_.
           retS \<lparr>fo_scrubbed_pages = pages, fo_vacuumed = True, fo_vacuum_pending = False\<rparr>)
         else bindS (stmt E (on_conn (set_pending store \<lparr>pc_scrubbed = True, pc_last_attempt = None\<rparr>))) (\<lambda>_.
           retS \<lparr>fo_scrubbed_pages = pages, fo_vacuumed = False, fo_vacuum_pending = True\<rparr>)) ?Post"
        by (intro ends_if ends_bind [OF ends_vacuum [OF laws]] ends_bind [OF ends_pre [OF ends_pending]] ends_ret) simp_all
    qed
  qed simp
  have rest: "ends dirty store (\<lambda>t. row_scrubbed row \<longrightarrow> dirty (sf_disk t) \<le> 0)
      (bindS (if row_scrubbed row then retS (Some 0) else scrub_freelist E G policy) (\<lambda>scrubbed. case scrubbed of
        None \<Rightarrow> bindS (stmt E (on_conn (set_pending store pending_default))) (\<lambda>_.
          retS \<lparr>fo_scrubbed_pages = 0, fo_vacuumed = False, fo_vacuum_pending = True\<rparr>)
      | Some pages \<Rightarrow> bindS (store_size G) (\<lambda>n.
         bindS (if n \<le> vp_now_max_bytes policy then vacuum_fits E policy n else retS False) (\<lambda>fits.
         if fits then bindS (vacuum E G store) (\<lambda>_.
           retS \<lparr>fo_scrubbed_pages = pages, fo_vacuumed = True, fo_vacuum_pending = False\<rparr>)
         else bindS (stmt E (on_conn (set_pending store \<lparr>pc_scrubbed = True, pc_last_attempt = None\<rparr>))) (\<lambda>_.
           retS \<lparr>fo_scrubbed_pages = pages, fo_vacuumed = False, fo_vacuum_pending = True\<rparr>))))) ?Post" for row
  proof (rule ends_bind [where Q = "\<lambda>x t. x \<noteq> None \<longrightarrow> dirty (sf_disk t) \<le> 0"])
    show "ends dirty store (\<lambda>t. row_scrubbed row \<longrightarrow> dirty (sf_disk t) \<le> 0)
        (if row_scrubbed row then retS (Some 0) else scrub_freelist E G policy) (\<lambda>x t. x \<noteq> None \<longrightarrow> dirty (sf_disk t) \<le> 0)"
      by (intro ends_if ends_ret ends_scrub [OF laws]) simp
  next
    fix x
    show "ends dirty store (\<lambda>t. x \<noteq> None \<longrightarrow> dirty (sf_disk t) \<le> 0) (case x of
        None \<Rightarrow> bindS (stmt E (on_conn (set_pending store pending_default))) (\<lambda>_.
          retS \<lparr>fo_scrubbed_pages = 0, fo_vacuumed = False, fo_vacuum_pending = True\<rparr>)
      | Some pages \<Rightarrow> bindS (store_size G) (\<lambda>n.
         bindS (if n \<le> vp_now_max_bytes policy then vacuum_fits E policy n else retS False) (\<lambda>fits.
         if fits then bindS (vacuum E G store) (\<lambda>_.
           retS \<lparr>fo_scrubbed_pages = pages, fo_vacuumed = True, fo_vacuum_pending = False\<rparr>)
         else bindS (stmt E (on_conn (set_pending store \<lparr>pc_scrubbed = True, pc_last_attempt = None\<rparr>))) (\<lambda>_.
           retS \<lparr>fo_scrubbed_pages = pages, fo_vacuumed = False, fo_vacuum_pending = True\<rparr>)))) ?Post"
    proof (cases x)
      case None
      then show ?thesis
        by (auto intro!: ends_bind [OF ends_pre [OF ends_pending]] ends_ret simp: pending_default_def)
    next
      case (Some pages)
      then show ?thesis using ends_pre [OF sized [of pages]] by simp
    qed
  qed
  show ?thesis
    unfolding finish_store_inner_def Let_def row_scrubbed_def [symmetric]
    by (rule ends_bind [OF ends_calm_any [OF calm_checkpoint [OF laws]]], rule ends_bind [OF ends_row], rule rest)
qed

lemma ends_attempt: "ends dirty store Pre m Post \<Longrightarrow> ends dirty store Pre (attempt m) (\<lambda>r t. \<forall>x. r = Inr x \<longrightarrow> Post x t)"
  unfolding ends_def attempt_def by (auto split: prod.splits)

lemma ends_fail: "ends dirty store Pre (failS e) Post"
  by (simp add: ends_def)

lemma ends_forget: "ends dirty store Pre m (\<lambda>x t. True)" if "ends dirty store Pre m Post"
  using that by (auto simp: ends_def)

lemma ends_finish:
  assumes laws: "pager_laws G dirty"
  shows "ends dirty store (\<lambda>s. True) (finish_store_with E G policy store) (\<lambda>out t.
    if fo_vacuumed out then \<not> fo_vacuum_pending out \<and> dirty (sf_disk t) = 0 \<and> state_is store OK t
    else fo_vacuum_pending out \<and> state_is store VACUUM_PENDING t)" (is "ends _ _ _ _ ?Post")
proof -
  have owed: "ends dirty store Pre (stmt E (on_conn (set_store_state store VACUUM_PENDING None))) (\<lambda>x t. True)" for Pre
    unfolding ends_def
    using set_state_recorded [of E store VACUUM_PENDING None] by (auto simp: pending_parse_def pending_default_def VACUUM_PENDING_def OK_def)
  have result: "ends dirty store (\<lambda>t. \<forall>x. result = Inr x \<longrightarrow> ?Post x t) (case result of
       Inr outcome \<Rightarrow> retS outcome
     | Inl e \<Rightarrow> bindS (attempt (stmt E (on_conn (set_store_state store VACUUM_PENDING None)))) (\<lambda>_. failS e)) ?Post" for result
  proof (cases result)
    case (Inl e)
    then show ?thesis
      by (auto intro!: ends_bind [OF ends_forget [OF ends_attempt [OF owed]]] ends_fail)
  next
    case (Inr x)
    then show ?thesis by (auto intro!: ends_ret)
  qed
  show ?thesis
    unfolding finish_store_with_def
    by (rule ends_bind [OF ends_calm_any [of G]], intro calm_intros,
        rule ends_bind [OF ends_calm_any [of G]], intro calm_intros,
        rule ends_bind [OF ends_calm_any [of G]], intro calm_intros,
        rule ends_bind [OF ends_attempt [OF ends_pre [OF ends_finish_inner [OF laws]]]], simp, rule result)
qed

lemma ends_compact_now:
  assumes laws: "pager_laws G dirty" and now: "is_i64 (ce_now E)"
  shows "ends dirty store (\<lambda>s. pc_scrubbed cursor \<longrightarrow> dirty (sf_disk s) \<le> 0) (compact_now E G policy store cursor)
    (\<lambda>x t. x \<longrightarrow> dirty (sf_disk t) = 0 \<and> state_is store OK t)" (is "ends _ _ _ _ ?Post")
proof -
  let ?Pre = "\<lambda>s. pc_scrubbed cursor \<longrightarrow> dirty (sf_disk s) \<le> 0"
  have pending: "ends dirty store ?Pre (stmt E (on_conn (set_pending store (cursor\<lparr>pc_last_attempt := Some (ce_now E)\<rparr>)))) (\<lambda>x t. True)"
    by (rule ends_forget [OF ends_pre [OF ends_pending]]) (use now in auto)
  have rest: "ends dirty store ?Pre (if \<not> fits
       then bindS (stmt E (on_conn (set_pending store (cursor\<lparr>pc_last_attempt := Some (ce_now E)\<rparr>)))) (\<lambda>_. retS False)
       else bindS (vacuum E G store) (\<lambda>_. retS True)) ?Post" for fits
    by (intro ends_if ends_bind [OF pending] ends_bind [OF ends_vacuum [OF laws]] ends_ret) simp_all
  have calm: "calm G dirty (store_size G)" "calm G dirty (vacuum_fits E policy n)" for n by (intro calm_intros)+
  show ?thesis
    unfolding compact_now_def
    by (rule ends_bind [OF ends_calm [OF calm(1)]], intro ends_if ends_ret, simp, rule ends_bind [OF ends_calm [OF calm(2)]], rule rest)
qed

lemma ends_scrub_then_compact:
  assumes laws: "pager_laws G dirty" and now: "is_i64 (ce_now E)"
  shows "ends dirty store (\<lambda>s. pc_scrubbed cursor \<longrightarrow> dirty (sf_disk s) \<le> 0) (scrub_then_compact E G policy store cursor)
    (\<lambda>x t. x \<longrightarrow> dirty (sf_disk t) = 0 \<and> state_is store OK t)" (is "ends _ _ _ _ ?Post")
proof (cases "pc_scrubbed cursor")
  case True
  then show ?thesis using ends_compact_now [OF assms, of store cursor policy] by (simp add: scrub_then_compact_def)
next
  case False
  let ?done = "\<lparr>pc_scrubbed = True, pc_last_attempt = None\<rparr>"
  have failed: "ends dirty store Pre (stmt E (on_conn (set_pending store (cursor\<lparr>pc_last_attempt := Some (ce_now E)\<rparr>)))) (\<lambda>x t. True)" for Pre
    by (rule ends_forget [OF ends_pre [OF ends_pending]]) (use now False in auto)
  have scrubbed: "ends dirty store (\<lambda>s. dirty (sf_disk s) \<le> 0) (stmt E (on_conn (set_pending store ?done))) (\<lambda>x t. dirty (sf_disk t) \<le> 0)"
    unfolding ends_def set_pending_def
    using set_state_recorded [of E store VACUUM_PENDING "pending_encode ?done"] by fastforce
  have compact: "ends dirty store (\<lambda>s. dirty (sf_disk s) \<le> 0) (compact_now E G policy store ?done) ?Post"
    by (rule ends_pre [OF ends_compact_now [OF assms]]) simp
  have rest: "ends dirty store (\<lambda>t. x \<noteq> None \<longrightarrow> dirty (sf_disk t) \<le> 0) (case x of
        None \<Rightarrow> bindS (stmt E (on_conn (set_pending store (cursor\<lparr>pc_last_attempt := Some (ce_now E)\<rparr>)))) (\<lambda>_. retS False)
      | Some _ \<Rightarrow> bindS (stmt E (on_conn (set_pending store ?done))) (\<lambda>_. compact_now E G policy store ?done)) ?Post" for x
  proof (cases x)
    case None
    then show ?thesis by (auto intro!: ends_bind [OF failed] ends_ret)
  next
    case (Some n)
    then show ?thesis using ends_bind [OF scrubbed compact] by simp
  qed
  show ?thesis
    using False unfolding scrub_then_compact_def Let_def
    by (simp only: if_False) (rule ends_bind [OF ends_scrub [OF laws]], rule rest)
qed

lemma ends_run_pending:
  assumes laws: "pager_laws G dirty" and now: "is_i64 (ce_now E)"
  shows "ends dirty store (\<lambda>s. True) (run_pending_vacuum_with E G policy store)
    (\<lambda>x t. x \<longrightarrow> dirty (sf_disk t) = 0 \<and> state_is store OK t)" (is "ends _ _ _ _ ?Post")
proof -
  have rest: "ends dirty store (\<lambda>t. row_scrubbed row \<longrightarrow> dirty (sf_disk t) \<le> 0) (case row of
       None \<Rightarrow> retS False
     | Some (state, cursor) \<Rightarrow>
         if state \<noteq> VACUUM_PENDING then retS False
         else let cursor = pending_parse cursor in
           if (case pc_last_attempt cursor of Some attempted \<Rightarrow> wrap_i64 (ce_now E - attempted) < VACUUM_RETRY_SECS | None \<Rightarrow> False) then retS False
           else bindS (stmt E (on_conn require_secure_delete)) (\<lambda>_.
             bindS (stmt E (on_conn ensure_busy_timeout)) (\<lambda>_.
             bindS (checkpoint_truncate E G) (\<lambda>_. scrub_then_compact E G policy store cursor)))) ?Post" for row
  proof (cases row)
    case None
    then show ?thesis by (simp add: ends_ret)
  next
    case (Some r)
    obtain state cursor where r: "r = (state, cursor)" by fastforce
    let ?clean = "pc_scrubbed (pending_parse cursor)"
    have calm: "calm G dirty (stmt E (on_conn require_secure_delete))" "calm G dirty (stmt E (on_conn ensure_busy_timeout))"
        "calm G dirty (checkpoint_truncate E G)"
      by (intro calm_intros laws)+
    have guarded: "ends dirty store (\<lambda>t. ?clean \<longrightarrow> dirty (sf_disk t) \<le> 0)
      (bindS (stmt E (on_conn require_secure_delete)) (\<lambda>_.
             bindS (stmt E (on_conn ensure_busy_timeout)) (\<lambda>_.
             bindS (checkpoint_truncate E G) (\<lambda>_. scrub_then_compact E G policy store (pending_parse cursor))))) ?Post"
      by (rule ends_bind [OF ends_calm [OF calm(1)]], rule ends_bind [OF ends_calm [OF calm(2)]],
          rule ends_bind [OF ends_calm [OF calm(3)]], rule ends_scrub_then_compact [OF assms])
    show ?thesis
      unfolding Some r by (auto simp: Let_def intro!: ends_if ends_ret ends_pre [OF guarded]) (auto simp: row_scrubbed_def)
  qed
  show ?thesis
    unfolding run_pending_vacuum_with_def
    by (rule ends_bind [OF ends_calm_any [of G]], intro calm_intros, rule ends_bind [OF ends_row], rule rest)
qed

text \<open>
  C38. A store's record of its compaction is true, wherever finishing it or the work of a later start
  fails: whenever the record says \<open>ok\<close>, or that the scrub is done, no free page of the file
  holds deleted content. When finishing succeeds the record says what its outcome says, and a compacted
  store has no such page; a start that reports a compaction leaves the store clean and recorded \<open>ok\<close>.
\<close>

theorem compaction_record_true:
  assumes "pager_laws G dirty" "is_i64 (ce_now E)" "recorded_clean dirty store s"
  shows "(finish_store_with E G policy store s = (r, t) \<longrightarrow> recorded_clean dirty store t
      \<and> (\<forall>out. r = Inr out \<longrightarrow> (if fo_vacuumed out then \<not> fo_vacuum_pending out \<and> dirty (sf_disk t) = 0 \<and> state_is store OK t
          else fo_vacuum_pending out \<and> state_is store VACUUM_PENDING t)))
    \<and> (run_pending_vacuum_with E G policy store s = (q, u) \<longrightarrow> recorded_clean dirty store u
      \<and> (q = Inr True \<longrightarrow> dirty (sf_disk u) = 0 \<and> state_is store OK u))"
  using ends_finish [OF assms(1), of store E policy] ends_run_pending [OF assms(1,2), of store policy] assms(3)
  unfolding ends_def by blast

section \<open>From the migration to the clean file\<close>

lemma owed_not_claimed: "owes_scrub store c \<Longrightarrow> \<not> claims_clean c store"
  by (auto simp: owes_scrub_def claims_clean_def OK_def VACUUM_PENDING_def)


end
