(* ===== verification/Compaction_Queue.thy ===== *)
theory Compaction_Queue
  imports Compaction_Record
begin

text \<open>
  crates/core/crypto/src/content\_sqlite.rs, the compactions left to a background thread: the queue, one
  pass over it, and the steps of the worker thread between which other threads queue jobs. Each
  critical section of the queue's lock is one step.
\<close>

datatype job_end = Gone | Ended "compaction_error + bool"

record 'j compaction_queue =
  cq_jobs :: "(string \<times> 'j) list"
  cq_worker :: bool
  cq_running :: "string option"

definition compactions :: "'j compaction_queue" where
  "compactions = \<lparr>cq_jobs = [], cq_worker = False, cq_running = None\<rparr>"

definition compacting_store :: "'j compaction_queue \<Rightarrow> string option" where
  "compacting_store q = cq_running q"

section \<open>Jobs\<close>

text \<open>The stores of the process that are still open; a job holds its owner only weakly.\<close>

type_synonym 'd open_stores = "string \<Rightarrow> 'd store_file option"

definition compaction_job_with :: "compaction_env \<Rightarrow> 'd pager \<Rightarrow> string \<Rightarrow> 'd open_stores \<Rightarrow> job_end \<times> 'd open_stores" where
  "compaction_job_with E G store w = (case w store of
     None \<Rightarrow> (Gone, w)
   | Some s \<Rightarrow> (case compact_deferred E G store s of (r, t) \<Rightarrow> (Ended r, w(store \<mapsto> t))))"

section \<open>Queueing and draining\<close>

definition pop_job :: "'j compaction_queue \<Rightarrow> (string \<times> 'j) option \<times> 'j compaction_queue" where
  "pop_job q = (case cq_jobs q of
     [] \<Rightarrow> (None, q)
   | next_job # rest \<Rightarrow> (Some next_job, q\<lparr>cq_jobs := rest, cq_running := Some (fst next_job)\<rparr>))"

text \<open>The number of compacted stores, when no other thread takes part.\<close>

function run_deferred_compactions ::
  "('j \<Rightarrow> 'w \<Rightarrow> job_end \<times> 'w) \<Rightarrow> nat \<Rightarrow> 'j compaction_queue \<Rightarrow> 'w \<Rightarrow> nat \<times> 'j compaction_queue \<times> 'w" where
  "run_deferred_compactions run vacuumed q w = (case pop_job q of
     (None, q) \<Rightarrow> (vacuumed, q, w)
   | (Some (store, job), q) \<Rightarrow> (case run job w of (ended, w) \<Rightarrow>
       run_deferred_compactions run (if ended = Ended (Inr True) then vacuumed + 1 else vacuumed) (q\<lparr>cq_running := None\<rparr>) w))"
  by pat_completeness auto
termination
  by (relation "measure (\<lambda>(run, n, q, w). length (cq_jobs q))") (auto simp: pop_job_def split: list.splits)

declare run_deferred_compactions.simps [simp del]

text \<open>The result of starting a thread is an argument; a worker that is already there is kept.\<close>

definition defer_compaction :: "bool \<Rightarrow> string \<Rightarrow> 'j \<Rightarrow> 'j compaction_queue \<Rightarrow> bool \<times> 'j compaction_queue" where
  "defer_compaction spawned store job q =
     (let q = q\<lparr>cq_jobs := cq_jobs q @ [(store, job)]\<rparr> in
      if cq_worker q then (False, q)
      else if spawned then (True, q\<lparr>cq_worker := True\<rparr>) else (False, q))"

definition defer_compaction_with :: "bool \<Rightarrow> string \<Rightarrow> string compaction_queue \<Rightarrow> bool \<times> string compaction_queue" where
  "defer_compaction_with spawned store q = defer_compaction spawned store store q"

section \<open>The worker thread\<close>

datatype 'j worker = NoThread | Sleeping | Draining | InJob string 'j | Drained

inductive queue_step :: "bool \<Rightarrow> 'j compaction_queue \<times> 'j worker \<Rightarrow> 'j compaction_queue \<times> 'j worker \<Rightarrow> bool" where
  defer_step: "defer_compaction spawned store job q = (started, q') \<Longrightarrow> (spawns \<Longrightarrow> spawned)
    \<Longrightarrow> queue_step spawns (q, t) (q', if started then Sleeping else t)"
| wake_step: "queue_step spawns (q, Sleeping) (q, Draining)"
| take_step: "pop_job q = (Some (store, job), q') \<Longrightarrow> queue_step spawns (q, Draining) (q', InJob store job)"
| empty_step: "pop_job q = (None, q') \<Longrightarrow> queue_step spawns (q, Draining) (q', Drained)"
| job_step: "queue_step spawns (q, InJob store job) (q\<lparr>cq_running := None\<rparr>, Draining)"
| retire_step: "cq_jobs q = [] \<Longrightarrow> queue_step spawns (q, Drained) (q\<lparr>cq_worker := False\<rparr>, NoThread)"
| again_step: "cq_jobs q \<noteq> [] \<Longrightarrow> queue_step spawns (q, Drained) (q, Sleeping)"

text \<open>Another thread's pass over the queue, and a job that panics: its thread ends.\<close>

inductive other_step :: "'j compaction_queue \<times> 'j worker \<Rightarrow> 'j compaction_queue \<times> 'j worker \<Rightarrow> bool" where
  other_take: "pop_job q = (Some (store, job), q') \<Longrightarrow> other_step (q, t) (q', t)"
| other_done: "other_step (q, t) (q\<lparr>cq_running := None\<rparr>, t)"

inductive panic_step :: "'j compaction_queue \<times> 'j worker \<Rightarrow> 'j compaction_queue \<times> 'j worker \<Rightarrow> bool" where
  panic_step: "panic_step (q, InJob store job) (q, NoThread)"

section \<open>Properties\<close>

lemma run_deferred_no_jobs: "cq_jobs q = [] \<Longrightarrow> run_deferred_compactions run n q w = (n, q, w)"
  by (simp add: run_deferred_compactions.simps [of run n q w] pop_job_def)

lemma run_deferred_next: "cq_jobs q = (store, job) # rest \<Longrightarrow> run job w = (ended, w') \<Longrightarrow>
  run_deferred_compactions run n q w = run_deferred_compactions run (if ended = Ended (Inr True) then n + 1 else n)
    (q\<lparr>cq_jobs := rest, cq_running := None\<rparr>) w'"
  by (simp add: run_deferred_compactions.simps [of run n q w] pop_job_def)

definition all_recorded :: "('d \<Rightarrow> int) \<Rightarrow> 'd open_stores \<Rightarrow> bool" where
  "all_recorded dirty w \<longleftrightarrow> (\<forall>store s. w store = Some s \<longrightarrow> recorded_clean dirty store s)"

lemma job_recorded:
  assumes "pager_laws G dirty" "is_i64 (ce_now E)" "all_recorded dirty w"
    and run: "compaction_job_with E G store w = (ended, w')"
  shows "all_recorded dirty w'" "dom w' = dom w"
    "ended = Ended (Inr True) \<Longrightarrow> \<exists>s. w' store = Some s \<and> dirty (sf_disk s) = 0 \<and> state_is store OK s"
proof -
  have post: "ended = Gone \<and> w' = w \<and> w store = None
      \<or> (\<exists>s r t. w store = Some s \<and> ended = Ended r \<and> w' = w(store \<mapsto> t) \<and> recorded_clean dirty store t
        \<and> (r = Inr True \<longrightarrow> dirty (sf_disk t) = 0 \<and> state_is store OK t))"
  proof (cases "w store")
    case None
    then show ?thesis using run by (simp add: compaction_job_with_def)
  next
    case (Some s)
    obtain r t where ran: "run_pending_vacuum_with E G ungated_policy store s = (r, t)" by fastforce
    have "recorded_clean dirty store s" using assms(3) Some by (simp add: all_recorded_def)
    with ran ends_run_pending [OF assms(1,2), of store ungated_policy]
    have "recorded_clean dirty store t \<and> (r = Inr True \<longrightarrow> dirty (sf_disk t) = 0 \<and> state_is store OK t)"
      unfolding ends_def by blast
    moreover have "Ended r = ended" "w(store \<mapsto> t) = w'" using run Some ran by (simp_all add: compaction_job_with_def compact_deferred_def)
    ultimately show ?thesis using Some by blast
  qed
  show "all_recorded dirty w'" using post assms(3) by (auto simp: all_recorded_def split: if_splits)
  show "dom w' = dom w" using post by (auto split: if_splits)
  show "ended = Ended (Inr True) \<Longrightarrow> \<exists>s. w' store = Some s \<and> dirty (sf_disk s) = 0 \<and> state_is store OK s"
    using post by auto
qed

lemma deferred_recorded:
  assumes "pager_laws G dirty" "is_i64 (ce_now E)"
  shows "all_recorded dirty w \<Longrightarrow> run_deferred_compactions (compaction_job_with E G) n q w = (m, q', w')
    \<Longrightarrow> all_recorded dirty w' \<and> dom w' = dom w \<and> cq_jobs q' = [] \<and> cq_worker q' = cq_worker q \<and> n \<le> m \<and> m \<le> n + length (cq_jobs q)"
proof (induction "cq_jobs q" arbitrary: q n w)
  case Nil
  then show ?case by (simp add: run_deferred_no_jobs)
next
  case (Cons j rest)
  obtain store job where j: "j = (store, job)" by fastforce
  obtain ended w1 where ran: "compaction_job_with E G job w = (ended, w1)" by fastforce
  have kept: "all_recorded dirty w1" "dom w1 = dom w" using job_recorded [OF assms Cons.prems(1) ran] by blast+
  let ?n = "if ended = Ended (Inr True) then n + 1 else n" and ?q = "q\<lparr>cq_jobs := rest, cq_running := None\<rparr>"
  have next_q: "cq_jobs q = (store, job) # rest" using Cons.hyps(2) j by simp
  have "run_deferred_compactions (compaction_job_with E G) ?n ?q w1 = (m, q', w')"
    using Cons.prems(2) run_deferred_next [of q store job rest "compaction_job_with E G" w ended w1 n] next_q ran by simp
  from Cons.hyps(1) [OF _ kept(1) this]
  have "all_recorded dirty w' \<and> dom w' = dom w1 \<and> cq_jobs q' = [] \<and> cq_worker q' = cq_worker q \<and> ?n \<le> m \<and> m \<le> ?n + length rest"
    by simp
  then show ?case using kept(2) next_q by (auto split: if_splits)
qed

text \<open>
  A pass over the queued compactions ends with an empty queue, counts at most the queued jobs, opens
  or closes no store, and leaves every open store's record true: none claims a clean file while free
  pages hold deleted content, however many of the jobs failed.
\<close>

theorem deferred_compactions_recorded:
  assumes "pager_laws G dirty" "is_i64 (ce_now E)" "all_recorded dirty w"
    and "run_deferred_compactions (compaction_job_with E G) 0 q w = (m, q', w')"
  shows "cq_jobs q' = [] \<and> m \<le> length (cq_jobs q) \<and> dom w' = dom w \<and> all_recorded dirty w'"
  using deferred_recorded [OF assms] by simp

definition has_worker :: "'j compaction_queue \<times> 'j worker \<Rightarrow> bool" where
  "has_worker = (\<lambda>(q, t). cq_worker q = (t \<noteq> NoThread))"

definition calm_step :: "bool \<Rightarrow> 'j compaction_queue \<times> 'j worker \<Rightarrow> 'j compaction_queue \<times> 'j worker \<Rightarrow> bool" where
  "calm_step spawns x y \<longleftrightarrow> queue_step spawns x y \<or> other_step x y"

inductive_cases queue_stepE: "queue_step spawns x y"
inductive_cases other_stepE: "other_step x y"
inductive_cases panic_stepE: "panic_step x y"

lemmas queue_ops = defer_compaction_def Let_def pop_job_def

lemma calm_worker: "calm_step spawns x y \<Longrightarrow> has_worker x \<Longrightarrow> has_worker y"
  unfolding calm_step_def
  by (auto elim!: queue_stepE other_stepE simp: has_worker_def queue_ops split: if_splits list.splits)

text \<open>No wake-up is lost: the worker leaves only an empty queue.\<close>

lemma calm_jobs: "calm_step True (q, t) (q', t') \<Longrightarrow> has_worker (q, t) \<Longrightarrow> (cq_jobs q \<noteq> [] \<longrightarrow> t \<noteq> NoThread)
  \<Longrightarrow> cq_jobs q' \<noteq> [] \<longrightarrow> t' \<noteq> NoThread"
  unfolding calm_step_def
  by (auto elim!: queue_stepE other_stepE simp: has_worker_def queue_ops split: if_splits list.splits)

lemma queue_start: "has_worker (compactions, NoThread)" "cq_jobs compactions = []"
  by (simp_all add: has_worker_def compactions_def)

lemma calm_reaches: "(calm_step True)\<^sup>*\<^sup>* (compactions, NoThread) x \<Longrightarrow>
  has_worker x \<and> (cq_jobs (fst x) \<noteq> [] \<longrightarrow> snd x \<noteq> NoThread)"
proof (induction rule: rtranclp_induct)
  case (step x y)
  then show ?case
    using calm_worker [of True x y] calm_jobs [of "fst x" "snd x" "fst y" "snd y"] by (metis prod.collapse)
qed (simp add: queue_start)

lemma worker_moves: "t \<noteq> NoThread \<Longrightarrow> \<exists>y. queue_step spawns (q, t) y"
  by (cases t; cases "pop_job q"; cases "fst (pop_job q)"; cases "cq_jobs q = []")
    (auto intro: queue_step.intros)

text \<open>
  However deferring threads, other passes over the queue and the worker interleave, as long as
  threads start and no job panics, a queued compaction always has a worker thread that can go on, and
  the queue knows of it: nothing waits for a later call to be run.
\<close>

theorem queued_compaction_has_worker:
  assumes "(calm_step True)\<^sup>*\<^sup>* (compactions, NoThread) (q, t)" "cq_jobs q \<noteq> []"
  shows "cq_worker q \<and> (\<exists>y. queue_step spawns (q, t) y \<and> t \<noteq> NoThread)"
  using calm_reaches [OF assms(1)] assms(2) worker_moves [of t spawns q] by (auto simp: has_worker_def)

lemma stranded_step: "calm_step spawns (q, NoThread) (q', t') \<Longrightarrow> cq_worker q \<Longrightarrow> t' = NoThread \<and> cq_worker q'"
  unfolding calm_step_def
  by (auto elim!: queue_stepE other_stepE simp: queue_ops split: if_splits list.splits)

lemma stranded_stays: "(calm_step spawns)\<^sup>*\<^sup>* y z \<Longrightarrow> snd y = NoThread \<and> cq_worker (fst y) \<Longrightarrow> snd z = NoThread \<and> cq_worker (fst z)"
  by (induction rule: rtranclp_induct) (auto dest: stranded_step)

text \<open>
  A job that panics strands the queue: its thread is gone while the queue still counts it as its
  worker, so that whatever is deferred from then on, no thread is ever started again.
\<close>

theorem panicked_job_strands_queue:
  assumes "(calm_step True)\<^sup>*\<^sup>* (compactions, NoThread) x" "panic_step x y" "(calm_step spawns)\<^sup>*\<^sup>* y (q, t)"
  shows "t = NoThread \<and> cq_worker q"
  using stranded_stays [OF assms(3)] calm_reaches [OF assms(1)] assms(2) by (auto elim!: panic_stepE simp: has_worker_def)

end
