(* ===== verification/Field_Cipher.thy ===== *)
theory Field_Cipher
  imports Store_Seal
begin

text \<open>
  crates/core/crypto/src/lib.rs, the ciphers for single fields: \<open>field_cipher\<close> (the master key, with
  retired keys that only open), \<open>plugin_cipher\<close> (one plugin's subkey, its own envelope prefix) and
  \<open>tenant_cipher\<close> (one tenant's subkey, with the record and field as associated data). Random nonces
  are arguments.
\<close>

section \<open>Lossy decoding\<close>

text \<open>
  \<open>String::from_utf8_lossy\<close>: every maximal piece that cannot start a scalar value is replaced by
  U+FFFD. \<open>bad_length\<close> is the length of that piece.
\<close>

definition REPLACEMENT :: string where "REPLACEMENT = map char_of [239, 191, 189 :: nat]"

definition second_ok :: "char \<Rightarrow> char \<Rightarrow> bool" where
  "second_ok a b \<longleftrightarrow>
     (cont_in 224 239 a \<and> cont_in (if ord_of a = 224 then 160 else 128) (if ord_of a = 237 then 159 else 191) b)
   \<or> (cont_in 240 244 a \<and> cont_in (if ord_of a = 240 then 144 else 128) (if ord_of a = 244 then 143 else 191) b)"

definition bad_length :: "string \<Rightarrow> nat" where
  "bad_length s = (case s of
     a # b # rest \<Rightarrow> if \<not> second_ok a b then 1
       else if ord_of a < 240 then 2
       else (case rest of c # _ \<Rightarrow> if cont_in 128 191 c then 3 else 2 | [] \<Rightarrow> 2)
   | _ \<Rightarrow> 1)"

lemma bad_length_pos: "0 < bad_length s"
  by (auto simp: bad_length_def split: list.split)

function lossy :: "string \<Rightarrow> string" where
  "lossy [] = []"
| "lossy (c # cs) = (if scalar_ok (c # take (trailing c) cs)
     then c # take (trailing c) cs @ lossy (drop (trailing c) cs)
     else REPLACEMENT @ lossy (drop (bad_length (c # cs)) (c # cs)))"
  by pat_completeness auto

termination
proof (relation "measure length")
  show "(drop (bad_length (c # cs)) (c # cs), c # cs) \<in> measure length" for c cs
    using bad_length_pos [of "c # cs"] by simp
qed simp_all

lemma lossy_valid: "utf8_valid s \<Longrightarrow> lossy s = s"
  by (induction s rule: scalars.induct) (simp_all add: utf8_valid_def)

definition from_utf8_lossy :: "byte list \<Rightarrow> string" where
  "from_utf8_lossy bs = lossy (of_bytes bs)"

lemma from_utf8_lossy_valid [simp]: "utf8_valid s \<Longrightarrow> from_utf8_lossy (as_bytes s) = s"
  by (simp add: from_utf8_lossy_def lossy_valid)

section \<open>The master-key cipher\<close>

datatype crypto_error = NonceLength nat | DecryptionFailed | EncryptFailed | BadBase64 | ShorterThanNonce
  | ForeignPlugin crypto_error | MasterSealed | EmptyPluginId | BadTenantId | BadComponent
  | Unbound | Mismatch | MalformedEnvelope | ForeignEnvelope

definition ENVELOPE_PREFIX :: string where "ENVELOPE_PREFIX = ''enc:v1:''"
definition PLUGIN_ENVELOPE_PREFIX :: string where "PLUGIN_ENVELOPE_PREFIX = ''encp:v1:''"
definition BOUND_ENVELOPE_PREFIX :: string where "BOUND_ENVELOPE_PREFIX = ''enc:v2:''"
definition KEY_LEN :: nat where "KEY_LEN = 32"

record field_cipher =
  fc_key :: "byte list"
  fc_retired :: "byte list list"

definition field_new :: "byte list \<Rightarrow> field_cipher" where
  "field_new key = \<lparr>fc_key = key, fc_retired = []\<rparr>"

definition with_retired :: "byte list list \<Rightarrow> field_cipher \<Rightarrow> field_cipher" where
  "with_retired retired c = c\<lparr>fc_retired := retired\<rparr>"

fun first_opening :: "platform \<Rightarrow> byte list list \<Rightarrow> byte list \<Rightarrow> byte list \<Rightarrow> byte list option" where
  "first_opening P [] n ct = None"
| "first_opening P (k # ks) n ct = (case aead_decrypt P k n ct [] of
     Some plain \<Rightarrow> Some plain | None \<Rightarrow> first_opening P ks n ct)"

definition decrypt_tracking :: "platform \<Rightarrow> field_cipher \<Rightarrow> byte list \<Rightarrow> byte list \<Rightarrow> crypto_error + (byte list \<times> bool)" where
  "decrypt_tracking P c n ct =
     (if length n \<noteq> NONCE_LEN then Inl (NonceLength (length n))
      else case aead_decrypt P (fc_key c) n ct [] of
        Some plain \<Rightarrow> Inr (plain, False)
      | None \<Rightarrow> (case first_opening P (fc_retired c) n ct of
          Some plain \<Rightarrow> Inr (plain, True)
        | None \<Rightarrow> Inl DecryptionFailed))"

text \<open>The blob in an envelope's body, split at the nonce.\<close>

definition open_blob :: "platform \<Rightarrow> string \<Rightarrow> crypto_error + (byte list \<times> byte list)" where
  "open_blob P encoded = bindE (ok_or BadBase64 (b64_decode P (trim encoded))) (\<lambda>blob.
     if length blob < NONCE_LEN then Inl ShorterThanNonce
     else Inr (take NONCE_LEN blob, drop NONCE_LEN blob))"

definition open_detailed :: "platform \<Rightarrow> field_cipher \<Rightarrow> string \<Rightarrow> crypto_error + string opened" where
  "open_detailed P c stored = (case strip_prefix stored ENVELOPE_PREFIX of
     None \<Rightarrow> Inr \<lparr>op_value = stored, op_needs_reseal = (stored \<noteq> [])\<rparr>
   | Some encoded \<Rightarrow> bindE (open_blob P encoded) (\<lambda>(n, ct).
       bindE (decrypt_tracking P c n ct) (\<lambda>(plain, retired).
       Inr \<lparr>op_value = from_utf8_lossy plain, op_needs_reseal = retired\<rparr>)))"

definition encrypt :: "platform \<Rightarrow> field_cipher \<Rightarrow> byte list \<Rightarrow> byte list \<Rightarrow> crypto_error + (byte list \<times> byte list)" where
  "encrypt P c plaintext n =
     bindE (ok_or EncryptFailed (aead_encrypt P (fc_key c) n plaintext [])) (\<lambda>ct. Inr (n, ct))"

definition decrypt :: "platform \<Rightarrow> field_cipher \<Rightarrow> byte list \<Rightarrow> byte list \<Rightarrow> crypto_error + byte list" where
  "decrypt P c n ct = bindE (decrypt_tracking P c n ct) (\<lambda>(plain, retired). Inr plain)"

definition encrypt_blob_with_aad :: "platform \<Rightarrow> field_cipher \<Rightarrow> byte list \<Rightarrow> byte list \<Rightarrow> byte list \<Rightarrow> crypto_error + byte list" where
  "encrypt_blob_with_aad P c plaintext aad n =
     bindE (ok_or EncryptFailed (aead_encrypt P (fc_key c) n plaintext aad)) (\<lambda>ct. Inr (n @ ct))"

definition decrypt_blob_with_aad :: "platform \<Rightarrow> field_cipher \<Rightarrow> byte list \<Rightarrow> byte list \<Rightarrow> byte list option" where
  "decrypt_blob_with_aad P c blob aad =
     (if length blob < NONCE_LEN then None
      else aead_decrypt P (fc_key c) (take NONCE_LEN blob) (drop NONCE_LEN blob) aad)"

definition seal_with_prefix :: "platform \<Rightarrow> field_cipher \<Rightarrow> string \<Rightarrow> string \<Rightarrow> byte list \<Rightarrow> crypto_error + string" where
  "seal_with_prefix P c prefix plaintext n =
     bindE (encrypt P c (as_bytes plaintext) n) (\<lambda>(n, ct). Inr (prefix @ b64_encode P (n @ ct)))"

definition field_seal :: "platform \<Rightarrow> field_cipher \<Rightarrow> string \<Rightarrow> byte list \<Rightarrow> crypto_error + string" where
  "field_seal P c plaintext n = seal_with_prefix P c ENVELOPE_PREFIX plaintext n"

definition open_body :: "platform \<Rightarrow> field_cipher \<Rightarrow> string \<Rightarrow> crypto_error + string" where
  "open_body P c encoded = bindE (open_blob P encoded) (\<lambda>(n, ct).
     bindE (decrypt P c n ct) (\<lambda>plain. Inr (from_utf8_lossy plain)))"

definition field_open :: "platform \<Rightarrow> field_cipher \<Rightarrow> string \<Rightarrow> crypto_error + string" where
  "field_open P c stored = (case strip_prefix stored ENVELOPE_PREFIX of
     None \<Rightarrow> Inr stored
   | Some encoded \<Rightarrow> open_body P c encoded)"

definition field_is_sealed :: "string \<Rightarrow> bool" where
  "field_is_sealed stored = starts_with stored ENVELOPE_PREFIX"

section \<open>Plugin subkeys\<close>

definition PLUGIN_KDF_SALT :: string where "PLUGIN_KDF_SALT = ''ryu-plugin-crypto-v1''"
definition PLUGIN_KDF_INFO_PREFIX :: string where "PLUGIN_KDF_INFO_PREFIX = ''ryu-plugin-crypto-v1:''"

text \<open>\<open>hkdf_subkey\<close> and \<open>derive_plugin_key\<close> of process_keys.rs.\<close>

definition hkdf_subkey :: "platform \<Rightarrow> byte list \<Rightarrow> string \<Rightarrow> string \<Rightarrow> string \<Rightarrow> byte list" where
  "hkdf_subkey P master salt prefix i = hkdf_sha256 P (as_bytes salt) master (as_bytes prefix @ as_bytes i)"

definition derive_plugin_key :: "platform \<Rightarrow> byte list \<Rightarrow> string \<Rightarrow> byte list" where
  "derive_plugin_key P master plugin_id = hkdf_subkey P master PLUGIN_KDF_SALT PLUGIN_KDF_INFO_PREFIX plugin_id"

record plugin_cipher =
  pc_inner :: field_cipher
  pc_plugin_id :: string
  pc_subkey :: "byte list"
  pc_retired :: "byte list list"

definition from_subkeys :: "string \<Rightarrow> byte list \<Rightarrow> byte list list \<Rightarrow> plugin_cipher" where
  "from_subkeys plugin_id subkey retired =
     \<lparr>pc_inner = with_retired retired (field_new subkey), pc_plugin_id = plugin_id, pc_subkey = subkey,
      pc_retired = retired\<rparr>"

definition plugin_seal :: "platform \<Rightarrow> plugin_cipher \<Rightarrow> string \<Rightarrow> byte list \<Rightarrow> crypto_error + string" where
  "plugin_seal P c plaintext n = seal_with_prefix P (pc_inner c) PLUGIN_ENVELOPE_PREFIX plaintext n"

definition plugin_open :: "platform \<Rightarrow> plugin_cipher \<Rightarrow> string \<Rightarrow> crypto_error + string" where
  "plugin_open P c stored = (case strip_prefix stored PLUGIN_ENVELOPE_PREFIX of
     Some encoded \<Rightarrow> map_err ForeignPlugin (open_body P (pc_inner c) encoded)
   | None \<Rightarrow> if starts_with stored ENVELOPE_PREFIX then Inl MasterSealed else Inr stored)"

definition plugin_is_sealed :: "string \<Rightarrow> bool" where
  "plugin_is_sealed stored = starts_with stored PLUGIN_ENVELOPE_PREFIX"

text \<open>\<open>plugin_cipher\<close>, given the resolved master key and the retired ones.\<close>

definition plugin_cipher_for :: "platform \<Rightarrow> byte list \<Rightarrow> byte list list \<Rightarrow> string \<Rightarrow> crypto_error + plugin_cipher" where
  "plugin_cipher_for P master retired plugin_id = (let plugin_id = trim plugin_id in
     if plugin_id = [] then Inl EmptyPluginId
     else Inr (from_subkeys plugin_id (derive_plugin_key P master plugin_id)
       (map (\<lambda>key. derive_plugin_key P key plugin_id) retired)))"

section \<open>Tenant-bound envelopes\<close>

record seal_context =
  sc_purpose :: string
  sc_fields :: "(string \<times> string) list"

definition seal_context_new :: "string \<Rightarrow> seal_context" where
  "seal_context_new purpose = \<lparr>sc_purpose = purpose, sc_fields = []\<rparr>"

definition seal_context_with :: "string \<Rightarrow> string \<Rightarrow> seal_context \<Rightarrow> seal_context" where
  "seal_context_with lab v c = c\<lparr>sc_fields := sc_fields c @ [(lab, v)]\<rparr>"

definition BOUND_AAD_LABEL :: string where "BOUND_AAD_LABEL = ''ryu-bound-seal-v2''"
definition TENANT_KDF_SALT :: string where "TENANT_KDF_SALT = ''ryu-tenant-crypto-v2''"
definition TENANT_KDF_INFO_PREFIX :: string where "TENANT_KDF_INFO_PREFIX = ''ryu-tenant-crypto-v2:''"

definition bound_data :: "seal_context \<Rightarrow> string \<Rightarrow> byte list" where
  "bound_data c tenant = foldl push_part [] ([as_bytes BOUND_AAD_LABEL, as_bytes ''tenant'', as_bytes tenant,
     as_bytes ''purpose'', as_bytes (sc_purpose c)] @ field_parts (sc_fields c))"

record tenant_cipher =
  tc_legacy :: field_cipher
  tc_bound :: field_cipher
  tc_tenant :: string

definition tenant_new :: "platform \<Rightarrow> byte list \<Rightarrow> string \<Rightarrow> crypto_error + tenant_cipher" where
  "tenant_new P master_key tenant =
     (if tenant = [] \<or> trim tenant \<noteq> tenant \<or> list_ex is_control (chars tenant) then Inl BadTenantId
      else Inr \<lparr>tc_legacy = field_new master_key,
        tc_bound = field_new (hkdf_sha256 P (as_bytes TENANT_KDF_SALT) master_key
          (as_bytes TENANT_KDF_INFO_PREFIX @ as_bytes tenant)),
        tc_tenant = tenant\<rparr>)"

definition tenant_seal :: "platform \<Rightarrow> tenant_cipher \<Rightarrow> string \<Rightarrow> seal_context \<Rightarrow> byte list \<Rightarrow> crypto_error + string" where
  "tenant_seal P c plaintext cx n =
     bindE (encrypt_blob_with_aad P (tc_bound c) (as_bytes plaintext) (bound_data cx (tc_tenant c)) n)
       (\<lambda>blob. Inr (BOUND_ENVELOPE_PREFIX @ b64_encode P blob))"

definition tenant_open :: "platform \<Rightarrow> tenant_cipher \<Rightarrow> string \<Rightarrow> seal_context \<Rightarrow> crypto_error + string" where
  "tenant_open P c stored cx = (case strip_prefix stored BOUND_ENVELOPE_PREFIX of
     None \<Rightarrow> Inl Unbound
   | Some encoded \<Rightarrow> bindE (ok_or MalformedEnvelope (b64_decode P (trim encoded))) (\<lambda>blob.
       if length blob < NONCE_LEN then Inl MalformedEnvelope
       else bindE (ok_or Mismatch (decrypt_blob_with_aad P (tc_bound c) blob (bound_data cx (tc_tenant c))))
         (\<lambda>plain. Inr (from_utf8_lossy plain))))"

datatype opened_field = Bound string | Legacy string

definition needs_reseal :: "opened_field \<Rightarrow> bool" where
  "needs_reseal f = (case f of Bound _ \<Rightarrow> False | Legacy _ \<Rightarrow> True)"

definition into_plaintext :: "opened_field \<Rightarrow> string" where
  "into_plaintext f = (case f of Bound plain \<Rightarrow> plain | Legacy plain \<Rightarrow> plain)"

definition tenant_is_sealed :: "string \<Rightarrow> bool" where
  "tenant_is_sealed stored = starts_with stored BOUND_ENVELOPE_PREFIX"

definition open_allowing_legacy :: "platform \<Rightarrow> tenant_cipher \<Rightarrow> string \<Rightarrow> seal_context \<Rightarrow> crypto_error + opened_field" where
  "open_allowing_legacy P c stored cx =
     (if tenant_is_sealed stored then bindE (tenant_open P c stored cx) (\<lambda>plain. Inr (Bound plain))
      else if \<not> field_is_sealed stored then Inl Unbound
      else bindE (field_open P (tc_legacy c) stored) (\<lambda>plain. Inr (Legacy plain)))"

lemmas prefix_defs = ENVELOPE_PREFIX_def PLUGIN_ENVELOPE_PREFIX_def BOUND_ENVELOPE_PREFIX_def
lemmas [eval_simps] = prefix_defs KEY_LEN_def


section \<open>Round trips\<close>

lemma open_blob_envelope: "b64_laws P \<Longrightarrow> length n = NONCE_LEN \<Longrightarrow> open_blob P (b64_encode P (n @ ct)) = Inr (n, ct)"
  by (simp add: open_blob_def b64_round)

lemma seal_with_prefix_Inr:
  assumes "seal_with_prefix P c prefix v n = Inr s"
  obtains ct where "aead_encrypt P (fc_key c) n (as_bytes v) [] = Some ct" "s = prefix @ b64_encode P (n @ ct)"
  using assms by (auto simp: seal_with_prefix_def encrypt_def bindE_eq_Inr)

lemma decrypt_tracking_current:
  "aead_laws P \<Longrightarrow> length n = NONCE_LEN \<Longrightarrow> aead_encrypt P (fc_key c) n m [] = Some ct \<Longrightarrow> decrypt_tracking P c n ct = Inr (m, False)"
  by (simp add: decrypt_tracking_def aead_open_seal)

lemma open_body_seal:
  assumes "aead_laws P" "b64_laws P" "utf8_valid v" "length n = NONCE_LEN" "aead_encrypt P (fc_key c) n (as_bytes v) [] = Some ct"
  shows "open_body P c (b64_encode P (n @ ct)) = Inr v"
  using assms by (simp add: open_body_def open_blob_envelope decrypt_def decrypt_tracking_current)

lemma field_round_trip:
  assumes "aead_laws P" "b64_laws P" "utf8_valid v" "length n = NONCE_LEN" "field_seal P c v n = Inr s"
  shows "field_open P c s = Inr v" "open_detailed P c s = Inr \<lparr>op_value = v, op_needs_reseal = False\<rparr>" "field_is_sealed s"
proof -
  from assms(5) obtain ct where ct: "aead_encrypt P (fc_key c) n (as_bytes v) [] = Some ct" "s = ENVELOPE_PREFIX @ b64_encode P (n @ ct)"
    unfolding field_seal_def by (rule seal_with_prefix_Inr)
  show "field_open P c s = Inr v" using open_body_seal [OF assms(1-4) ct(1)] by (simp add: field_open_def ct(2))
  show "open_detailed P c s = Inr \<lparr>op_value = v, op_needs_reseal = False\<rparr>"
    using assms(1-4) ct by (simp add: open_detailed_def open_blob_envelope decrypt_tracking_current)
  show "field_is_sealed s" by (auto simp: field_is_sealed_def starts_with_iff ct(2))
qed

lemma plugin_round_trip:
  assumes "aead_laws P" "b64_laws P" "utf8_valid v" "length n = NONCE_LEN" "plugin_seal P c v n = Inr s"
  shows "plugin_open P c s = Inr v"
proof -
  from assms(5) obtain ct where ct: "aead_encrypt P (fc_key (pc_inner c)) n (as_bytes v) [] = Some ct"
    "s = PLUGIN_ENVELOPE_PREFIX @ b64_encode P (n @ ct)"
    unfolding plugin_seal_def by (rule seal_with_prefix_Inr)
  show ?thesis using open_body_seal [OF assms(1-4) ct(1)] by (simp add: plugin_open_def ct(2))
qed

lemma tenant_round_trip:
  assumes "aead_laws P" "b64_laws P" "utf8_valid v" "length n = NONCE_LEN" "tenant_seal P c v cx n = Inr s"
  shows "tenant_open P c s cx = Inr v"
proof -
  from assms(5) obtain ct where ct: "aead_encrypt P (fc_key (tc_bound c)) n (as_bytes v) (bound_data cx (tc_tenant c)) = Some ct"
    "s = BOUND_ENVELOPE_PREFIX @ b64_encode P (n @ ct)"
    by (auto simp: tenant_seal_def encrypt_blob_with_aad_def bindE_eq_Inr)
  then show ?thesis using assms(1-4)
    by (simp add: tenant_open_def decrypt_blob_with_aad_def b64_round aead_open_seal)
qed

interpretation field_sealer: sealer "\<lambda>v. utf8_valid v \<and> aead_laws P \<and> b64_laws P"
  "\<lambda>v (_ :: unit) n. field_seal P c v n" "\<lambda>s _. field_open P c s" for P c
  by unfold_locales (auto simp: utf8_valid_append field_round_trip)

interpretation plugin_sealer: sealer "\<lambda>v. utf8_valid v \<and> aead_laws P \<and> b64_laws P"
  "\<lambda>v (_ :: unit) n. plugin_seal P c v n" "\<lambda>s _. plugin_open P c s" for P c
  by unfold_locales (auto simp: utf8_valid_append plugin_round_trip)

interpretation tenant_sealer: sealer "\<lambda>v. utf8_valid v \<and> aead_laws P \<and> b64_laws P"
  "tenant_seal P c" "tenant_open P c" for P c
  by unfold_locales (auto simp: utf8_valid_append tenant_round_trip)

text \<open>
  Each of the three field ciphers opens what it sealed, and its envelope names its scheme: a
  plugin refuses a value sealed under the master key, a tenant refuses one with no binding. A
  master-key reader hands a plugin's or tenant's envelope back as it is, like legacy plaintext.
\<close>

theorem field_envelopes:
  assumes "aead_laws P" "b64_laws P" "utf8_valid v" "length n = NONCE_LEN"
    and "field_seal P c v n = Inr s" "plugin_seal P p v n = Inr sp" "tenant_seal P t v cx n = Inr st"
  shows "field_open P c s = Inr v \<and> plugin_open P p sp = Inr v \<and> tenant_open P t st cx = Inr v
    \<and> plugin_open P p s = Inl MasterSealed \<and> tenant_open P t s cx = Inl Unbound
    \<and> tenant_open P t sp cx = Inl Unbound \<and> field_open P c sp = Inr sp \<and> field_open P c st = Inr st"
proof -
  have s: "\<exists>x. s = ENVELOPE_PREFIX @ x" "\<exists>x. sp = PLUGIN_ENVELOPE_PREFIX @ x" "\<exists>x. st = BOUND_ENVELOPE_PREFIX @ x"
    using assms(5-7) by (auto simp: field_seal_def plugin_seal_def tenant_seal_def bindE_eq_Inr elim!: seal_with_prefix_Inr)
  then show ?thesis
    using field_sealer.round_trip [OF _ assms(4,5)] plugin_sealer.round_trip [OF _ assms(4,6)]
      tenant_sealer.round_trip [OF _ assms(4,7)] assms(1-3)
    by (auto simp: plugin_open_def tenant_open_def field_open_def strip_prefix_def starts_with_def prefix_defs)
qed

section \<open>Rotation\<close>

lemma first_opening_unique:
  assumes "old \<in> set ks" "aead_decrypt P old n ct [] = Some m" "\<forall>k\<in>set ks. k \<noteq> old \<longrightarrow> aead_decrypt P k n ct [] = None"
  shows "first_opening P ks n ct = Some m"
  using assms by (induction ks) (auto split: option.split)

text \<open>
  Replacing the master key loses nothing sealed before: with the old key retired, a value sealed
  under it opens as it was and is flagged to be sealed again, provided no other key authenticates it.
\<close>

theorem retired_key_opens:
  assumes "aead_laws P" "b64_laws P" "utf8_valid v" "length n = NONCE_LEN"
    and "field_seal P (field_new old) v n = Inr s" "old \<in> set retired" "key \<noteq> old"
    and "\<forall>k\<in>insert key (set retired). k \<noteq> old \<longrightarrow> open_detailed P (field_new k) s = Inl DecryptionFailed"
  shows "open_detailed P (with_retired retired (field_new key)) s = Inr \<lparr>op_value = v, op_needs_reseal = True\<rparr>
    \<and> field_open P (with_retired retired (field_new key)) s = Inr v"
proof -
  from assms(5) obtain ct where ct: "aead_encrypt P old n (as_bytes v) [] = Some ct" "s = ENVELOPE_PREFIX @ b64_encode P (n @ ct)"
    unfolding field_seal_def by (rule seal_with_prefix_Inr) (simp add: field_new_def)
  have open_new: "open_detailed P (field_new k) s = (case aead_decrypt P k n ct [] of
      None \<Rightarrow> Inl DecryptionFailed | Some m \<Rightarrow> Inr \<lparr>op_value = from_utf8_lossy m, op_needs_reseal = False\<rparr>)" for k
    using assms(2,4) by (auto simp: open_detailed_def ct(2) open_blob_envelope decrypt_tracking_def field_new_def split: option.split)
  have none: "aead_decrypt P k n ct [] = None" if "k \<in> insert key (set retired)" "k \<noteq> old" for k
    using assms(8) that unfolding open_new by (auto split: option.splits)
  have "first_opening P retired n ct = Some (as_bytes v)"
    by (rule first_opening_unique [OF assms(6) aead_open_seal [OF assms(1) ct(1)]]) (use none in blast)
  then show ?thesis using none [of key] assms(2-4,7)
    by (simp add: open_detailed_def field_open_def open_body_def decrypt_def ct(2) open_blob_envelope decrypt_tracking_def
      with_retired_def field_new_def)
qed

section \<open>Binding\<close>

definition bound_fits :: "seal_context \<Rightarrow> string \<Rightarrow> bool" where
  "bound_fits c tenant \<longleftrightarrow> length tenant < 2 ^ 64 \<and> length (sc_purpose c) < 2 ^ 64
     \<and> list_all (\<lambda>(l, v). length l < 2 ^ 64 \<and> length v < 2 ^ 64) (sc_fields c)"

lemma bound_data_inject:
  assumes "bound_fits c tenant" "bound_fits d tenant'" "bound_data c tenant = bound_data d tenant'"
  shows "c = d \<and> tenant = tenant'"
proof -
  let ?parts = "\<lambda>c tenant. [as_bytes BOUND_AAD_LABEL, as_bytes ''tenant'', as_bytes tenant,
     as_bytes ''purpose'', as_bytes (sc_purpose c)] @ field_parts (sc_fields c)"
  have fit: "\<forall>p\<in>set (?parts c tenant). length p < 2 ^ 64" if "bound_fits c tenant" for c tenant
    using that field_parts_fit [of "2 ^ 64" "sc_fields c"] by (auto simp: bound_fits_def BOUND_AAD_LABEL_def)
  have "bound_data c tenant = concat (map (\<lambda>p. be_bytes 8 (length p) @ p) (?parts c tenant))" for c tenant
    by (simp only: bound_data_def foldl_push_part append_Nil)
  then have "?parts c tenant = ?parts d tenant'"
    using assms(3) parts_inject [OF fit [OF assms(1)] fit [OF assms(2)]] by (simp only:)
  then show ?thesis by (auto dest: field_parts_inject)
qed

text \<open>
  C14. A tenant's cipher opens only what was encrypted under that tenant's subkey for exactly this
  record and field: whatever text it opens is the encryption of the result with the associated data
  of the tenant and context, and no other tenant or context has that associated data.
\<close>

theorem tenant_opens_only_its_own:
  assumes "aead_laws P" "tenant_open P c stored cx = Inr v" "bound_fits cx (tc_tenant c)"
  shows "\<exists>encoded n ct plain. stored = BOUND_ENVELOPE_PREFIX @ encoded \<and> b64_decode P (trim encoded) = Some (n @ ct)
    \<and> aead_encrypt P (fc_key (tc_bound c)) n plain (bound_data cx (tc_tenant c)) = Some ct \<and> v = from_utf8_lossy plain
    \<and> (\<forall>other tenant. bound_fits other tenant \<longrightarrow> bound_data other tenant = bound_data cx (tc_tenant c) \<longrightarrow>
        other = cx \<and> tenant = tc_tenant c)"
proof -
  from assms(2) obtain encoded blob plain where s: "stored = BOUND_ENVELOPE_PREFIX @ encoded" "b64_decode P (trim encoded) = Some blob"
    "aead_decrypt P (fc_key (tc_bound c)) (take NONCE_LEN blob) (drop NONCE_LEN blob) (bound_data cx (tc_tenant c)) = Some plain"
    "v = from_utf8_lossy plain"
    by (auto simp: tenant_open_def decrypt_blob_with_aad_def bindE_eq_Inr strip_prefix_Some split: option.splits if_splits)
  have "b64_decode P (trim encoded) = Some (take NONCE_LEN blob @ drop NONCE_LEN blob)" using s(2) by simp
  moreover note aead_seal_open [OF assms(1) s(3)]
  ultimately show ?thesis using s(1,4) bound_data_inject [OF _ assms(3)] by blast
qed

end
