(* ===== verification/Process_Keys.thy ===== *)
theory Process_Keys
  imports Field_Cipher
begin

text \<open>
  crates/core/crypto/src/process_keys.rs: how a process without the master key gets a key that seals
  only its own data. Core puts a subkey and its scope into the child's environment; the child reads
  them, refuses a key for another scope, and derives the same subkey when it holds a master key
  itself. The process environment is a map from names to values.
\<close>

type_synonym env = "string \<rightharpoonup> string"

section \<open>Scopes\<close>

definition SEAL_KEY_ENV :: string where "SEAL_KEY_ENV = ''RYU_SEAL_KEY''"
definition SEAL_SCOPE_ENV :: string where "SEAL_SCOPE_ENV = ''RYU_SEAL_SCOPE''"
definition SEAL_RETIRED_KEYS_ENV :: string where "SEAL_RETIRED_KEYS_ENV = ''RYU_SEAL_RETIRED_KEYS''"
definition ENV_MASTER_KEY :: string where "ENV_MASTER_KEY = ''RYU_MASTER_KEY''"

definition SEAL_ENV_VARS :: "string list" where
  "SEAL_ENV_VARS = [SEAL_KEY_ENV, SEAL_SCOPE_ENV, SEAL_RETIRED_KEYS_ENV, ENV_MASTER_KEY]"

lemmas env_names = SEAL_KEY_ENV_def SEAL_SCOPE_ENV_def SEAL_RETIRED_KEYS_ENV_def ENV_MASTER_KEY_def

datatype key_scope = Plugin string | Component string

datatype key_error = EmptyPlugin | BadComponentName | BadScope | BadKey | KeyWithoutScope | BadRetiredKeys
  | WrongScope key_scope key_scope | BadMasterKey | NoKey key_scope | NoHostKey

fun env_value :: "key_scope \<Rightarrow> string" where
  "env_value (Plugin i) = ''plugin:'' @ i"
| "env_value (Component name) = ''component:'' @ name"

definition valid_plugin_id :: "string \<Rightarrow> key_error + string" where
  "valid_plugin_id i = (let i = trim i in if i = [] then Inl EmptyPlugin else Inr i)"

definition component_char :: "char \<Rightarrow> bool" where
  "component_char c \<longleftrightarrow> 97 \<le> ord_of c \<and> ord_of c \<le> 122 \<or> is_ascii_digit (ord_of c) \<or> c = CHR ''-''"

definition valid_component :: "string \<Rightarrow> key_error + string" where
  "valid_component name = (let name = trim name in
     if name = [] \<or> \<not> list_all component_char name then Inl BadComponentName else Inr name)"

definition parse_scope :: "string \<Rightarrow> key_error + key_scope" where
  "parse_scope v = (let v = trim v in
     case strip_prefix v ''plugin:'' of
       Some i \<Rightarrow> bindE (valid_plugin_id i) (\<lambda>i. Inr (Plugin i))
     | None \<Rightarrow> (case strip_prefix v ''component:'' of
         Some name \<Rightarrow> bindE (valid_component name) (\<lambda>name. Inr (Component name))
       | None \<Rightarrow> Inl BadScope))"

section \<open>Component ciphers\<close>

definition COMPONENT_ENVELOPE_PREFIX :: string where "COMPONENT_ENVELOPE_PREFIX = ''encc:v1:''"
definition COMPONENT_KDF_SALT :: string where "COMPONENT_KDF_SALT = ''ryu-component-crypto-v1''"
definition COMPONENT_KDF_INFO_PREFIX :: string where "COMPONENT_KDF_INFO_PREFIX = ''ryu-component-crypto-v1:''"
definition CLOUD_CONTENT_ENVELOPE_PREFIX :: string where "CLOUD_CONTENT_ENVELOPE_PREFIX = ''encm:v1:''"

definition derive_component_key :: "platform \<Rightarrow> byte list \<Rightarrow> string \<Rightarrow> byte list" where
  "derive_component_key P master component = hkdf_subkey P master COMPONENT_KDF_SALT COMPONENT_KDF_INFO_PREFIX component"

definition looks_sealed :: "string \<Rightarrow> bool" where
  "looks_sealed stored = list_ex (starts_with stored) [ENVELOPE_PREFIX, BOUND_ENVELOPE_PREFIX, PLUGIN_ENVELOPE_PREFIX,
     COMPONENT_ENVELOPE_PREFIX, CONTENT_TEXT_PREFIX, CLOUD_CONTENT_ENVELOPE_PREFIX]"

record component_cipher =
  co_inner :: field_cipher
  co_component :: string
  co_subkey :: "byte list"
  co_retired :: "byte list list"

definition component_from_subkeys :: "byte list \<Rightarrow> byte list list \<Rightarrow> string \<Rightarrow> component_cipher" where
  "component_from_subkeys subkey retired component =
     \<lparr>co_inner = with_retired retired (field_new subkey), co_component = component, co_subkey = subkey, co_retired = retired\<rparr>"

definition component_seal :: "platform \<Rightarrow> component_cipher \<Rightarrow> string \<Rightarrow> byte list \<Rightarrow> crypto_error + string" where
  "component_seal P c plaintext n = seal_with_prefix P (co_inner c) COMPONENT_ENVELOPE_PREFIX plaintext n"

definition component_open :: "platform \<Rightarrow> component_cipher \<Rightarrow> string \<Rightarrow> crypto_error + string" where
  "component_open P c stored = (case strip_prefix stored COMPONENT_ENVELOPE_PREFIX of
     Some encoded \<Rightarrow> map_err ForeignPlugin (open_body P (co_inner c) encoded)
   | None \<Rightarrow> if looks_sealed stored then Inl ForeignEnvelope else Inr stored)"

definition component_is_sealed :: "string \<Rightarrow> bool" where
  "component_is_sealed stored = starts_with stored COMPONENT_ENVELOPE_PREFIX"

definition decode_key :: "platform \<Rightarrow> string \<Rightarrow> byte list option" where
  "decode_key P encoded = (case b64_decode P (trim encoded) of
     Some raw \<Rightarrow> if length raw = KEY_LEN then Some raw else None | None \<Rightarrow> None)"

definition plugin_from_subkey_b64 :: "platform \<Rightarrow> string \<Rightarrow> string \<Rightarrow> key_error + plugin_cipher" where
  "plugin_from_subkey_b64 P plugin_id subkey_b64 =
     bindE (ok_or BadKey (decode_key P subkey_b64)) (\<lambda>subkey.
     bindE (valid_plugin_id plugin_id) (\<lambda>i. Inr (from_subkeys i subkey [])))"

definition component_from_subkey_b64 :: "platform \<Rightarrow> string \<Rightarrow> string \<Rightarrow> key_error + component_cipher" where
  "component_from_subkey_b64 P component subkey_b64 =
     bindE (ok_or BadKey (decode_key P subkey_b64)) (\<lambda>subkey.
     bindE (valid_component component) (\<lambda>name. Inr (component_from_subkeys subkey [] name)))"

text \<open>In a process that holds the master key and the retired ones.\<close>

definition component_cipher_for :: "platform \<Rightarrow> byte list \<Rightarrow> byte list list \<Rightarrow> string \<Rightarrow> key_error + component_cipher" where
  "component_cipher_for P master retired component = bindE (valid_component component) (\<lambda>component.
     Inr (component_from_subkeys (derive_component_key P master component)
       (map (\<lambda>key. derive_component_key P key component) retired) component))"

section \<open>Delivery\<close>

fun join :: "char \<Rightarrow> string list \<Rightarrow> string" where
  "join c [] = []"
| "join c [x] = x"
| "join c (x # y # ys) = x @ c # join c (y # ys)"

definition child_env ::
  "platform \<Rightarrow> byte list \<Rightarrow> byte list list \<Rightarrow> (byte list \<Rightarrow> string \<Rightarrow> byte list) \<Rightarrow> key_scope \<Rightarrow> string \<Rightarrow> (string \<times> string) list" where
  "child_env P master retired_masters derive scope i =
     [(SEAL_KEY_ENV, b64_encode P (derive master i)), (SEAL_SCOPE_ENV, env_value scope)]
     @ (if retired_masters \<noteq> []
        then [(SEAL_RETIRED_KEYS_ENV, join (CHR '','') (map (\<lambda>key. b64_encode P (derive key i)) retired_masters))] else [])"

text \<open>\<open>resolved\<close> is the master key and the retired keys, \<open>None\<close> when they cannot be resolved.\<close>

type_synonym master_keys = "byte list \<times> byte list list"

definition plugin_child_env :: "platform \<Rightarrow> master_keys option \<Rightarrow> string \<Rightarrow> key_error + (string \<times> string) list" where
  "plugin_child_env P resolved plugin_id = bindE (valid_plugin_id plugin_id) (\<lambda>plugin_id.
     bindE (ok_or NoHostKey resolved) (\<lambda>(master, retired).
     Inr (child_env P master retired (derive_plugin_key P) (Plugin plugin_id) plugin_id)))"

definition component_child_env :: "platform \<Rightarrow> master_keys option \<Rightarrow> string \<Rightarrow> key_error + (string \<times> string) list" where
  "component_child_env P resolved component = bindE (valid_component component) (\<lambda>component.
     bindE (ok_or NoHostKey resolved) (\<lambda>(master, retired).
     Inr (child_env P master retired (derive_component_key P) (Component component) component)))"

record delivered =
  de_scope :: key_scope
  de_key :: "byte list"
  de_retired :: "byte list list"

definition read_delivered ::
  "platform \<Rightarrow> string option \<Rightarrow> string option \<Rightarrow> string option \<Rightarrow> key_error + delivered option" where
  "read_delivered P key scope retired =
     (case key of
        None \<Rightarrow> Inr None
      | Some key \<Rightarrow> if trim key = [] then Inr None else
          bindE (ok_or BadKey (decode_key P key)) (\<lambda>key.
          bindE (ok_or KeyWithoutScope scope) (\<lambda>scope.
          bindE (parse_scope scope) (\<lambda>scope.
          bindE (case retired of
              None \<Rightarrow> Inr []
            | Some v \<Rightarrow> if trim v = [] then Inr []
                else collect_results (map (\<lambda>item. ok_or BadRetiredKeys (decode_key P item)) (split_on (CHR '','') (trim v))))
            (\<lambda>retired. Inr (Some \<lparr>de_scope = scope, de_key = key, de_retired = retired\<rparr>))))))"

definition delivered_in :: "platform \<Rightarrow> env \<Rightarrow> key_error + delivered option" where
  "delivered_in P e = read_delivered P (e SEAL_KEY_ENV) (e SEAL_SCOPE_ENV) (e SEAL_RETIRED_KEYS_ENV)"

text \<open>\<open>capture_process_seal_key\<close>: what was delivered, and the environment it leaves; a malformed delivery
  is an error that leaves it.\<close>

definition capture_process_seal_key :: "platform \<Rightarrow> env \<Rightarrow> (key_error + delivered option) \<times> env" where
  "capture_process_seal_key P e = (case delivered_in P e of
     Inl x \<Rightarrow> (Inl x, e)
   | Inr d \<Rightarrow> (Inr d, e(SEAL_KEY_ENV := None, SEAL_SCOPE_ENV := None, SEAL_RETIRED_KEYS_ENV := None)))"

definition scrub_seal_env :: "env \<Rightarrow> env" where
  "scrub_seal_env e = fold (\<lambda>name e. e(name := None)) SEAL_ENV_VARS e"

section \<open>The subkey of a process\<close>

definition env_master_key :: "platform \<Rightarrow> env \<Rightarrow> key_error + byte list option" where
  "env_master_key P e = (case e ENV_MASTER_KEY of
     Some v \<Rightarrow> if trim v \<noteq> [] then map_err (\<lambda>_. BadMasterKey) (bindE (ok_or () (decode_key P v)) (\<lambda>k. Inr (Some k))) else Inr None
   | None \<Rightarrow> Inr None)"

text \<open>\<open>host\<close> is the outcome of the installed host's resolution, if one is installed.\<close>

definition process_master_key ::
  "platform \<Rightarrow> (key_error + master_keys) option \<Rightarrow> env \<Rightarrow> key_error + master_keys option" where
  "process_master_key P host e = (case host of
     Some r \<Rightarrow> bindE r (\<lambda>ks. Inr (Some ks))
   | None \<Rightarrow> bindE (env_master_key P e) (\<lambda>m. Inr (map_option (\<lambda>master. (master, [])) m)))"

definition subkey_from ::
  "delivered option \<Rightarrow> key_error + master_keys option \<Rightarrow> key_scope \<Rightarrow> (byte list \<Rightarrow> string \<Rightarrow> byte list) \<Rightarrow> string \<Rightarrow>
   key_error + master_keys" where
  "subkey_from dlv master scope derive i = (case dlv of
     Some d \<Rightarrow> if de_scope d \<noteq> scope then Inl (WrongScope (de_scope d) scope) else Inr (de_key d, de_retired d)
   | None \<Rightarrow> bindE master (\<lambda>m. case m of
       Some (master, retired) \<Rightarrow> Inr (derive master i, map (\<lambda>key. derive key i) retired)
     | None \<Rightarrow> Inl (NoKey scope)))"

definition process_subkey ::
  "platform \<Rightarrow> key_error + delivered option \<Rightarrow> (key_error + master_keys) option \<Rightarrow> env \<Rightarrow> key_scope \<Rightarrow>
   (byte list \<Rightarrow> string \<Rightarrow> byte list) \<Rightarrow> string \<Rightarrow> key_error + master_keys" where
  "process_subkey P dlv host e scope derive i =
     bindE dlv (\<lambda>d. subkey_from d (process_master_key P host e) scope derive i)"

definition plugin_cipher_for_process ::
  "platform \<Rightarrow> key_error + delivered option \<Rightarrow> (key_error + master_keys) option \<Rightarrow> env \<Rightarrow> string \<Rightarrow> key_error + plugin_cipher" where
  "plugin_cipher_for_process P dlv host e plugin_id = bindE (valid_plugin_id plugin_id) (\<lambda>plugin_id.
     bindE (process_subkey P dlv host e (Plugin plugin_id) (derive_plugin_key P) plugin_id) (\<lambda>(subkey, retired).
     Inr (from_subkeys plugin_id subkey retired)))"

definition component_cipher_for_process ::
  "platform \<Rightarrow> key_error + delivered option \<Rightarrow> (key_error + master_keys) option \<Rightarrow> env \<Rightarrow> string \<Rightarrow> key_error + component_cipher" where
  "component_cipher_for_process P dlv host e component = bindE (valid_component component) (\<lambda>component.
     bindE (process_subkey P dlv host e (Component component) (derive_component_key P) component) (\<lambda>(subkey, retired).
     Inr (component_from_subkeys subkey retired component)))"

section \<open>Round trips\<close>

text \<open>Standard base64 writes letters, digits, \<open>+\<close>, \<open>/\<close> and \<open>=\<close>, and nothing only for nothing; HKDF gives the
  32 bytes asked for.\<close>

definition b64_alphabet :: "platform \<Rightarrow> bool" where
  "b64_alphabet P \<longleftrightarrow> (\<forall>bs. CHR '','' \<notin> set (b64_encode P bs) \<and> (b64_encode P bs = [] \<longrightarrow> bs = []))
     \<and> (\<forall>salt ikm info. length (hkdf_sha256 P salt ikm info) = KEY_LEN)"

lemma trim_ascii: "b64_laws P \<Longrightarrow> trim (b64_encode P bs) = b64_encode P bs"
  by (simp add: b64_laws_def trim_no_blank)

lemma decode_key_encode: "b64_laws P \<Longrightarrow> length k = KEY_LEN \<Longrightarrow> decode_key P (b64_encode P k) = Some k"
  by (simp add: decode_key_def b64_round)

lemma split_on_join: "xs \<noteq> [] \<Longrightarrow> \<forall>x\<in>set xs. c \<notin> set x \<Longrightarrow> split_on c (join c xs) = xs"
proof (induction c xs rule: join.induct)
  case (2 c x)
  then show ?case by (simp add: split_on_no_sep)
next
  case (3 c x y ys)
  have "split_on c (x @ c # s) = x # split_on c s" for s
    using 3(3) by (induction x) (auto split: list.split)
  with 3 show ?case by simp
qed simp

lemma valid_plugin_id_Inr: "valid_plugin_id i = Inr j \<Longrightarrow> j = trim i \<and> trim j = j \<and> j \<noteq> []"
  by (auto simp: valid_plugin_id_def Let_def split: if_splits)


lemma trim_keeps:
  assumes "trim i = i" "i \<noteq> []"
  shows "\<not> is_blank (last (scalars i))" "dropWhile is_blank (rev (scalars i)) = rev (scalars i)"
proof -
  have "scalars i = rev (dropWhile is_blank (rev (dropWhile is_blank (scalars i))))"
    using scalars_trim [of i] assms(1) by simp
  then have "length (dropWhile is_blank (rev (dropWhile is_blank (scalars i)))) = length (scalars i)"
    by (metis length_rev)
  moreover have "length (dropWhile is_blank (rev (dropWhile is_blank (scalars i)))) \<le> length (dropWhile is_blank (scalars i))"
    by (metis length_dropWhile_le length_rev)
  moreover have "length (dropWhile is_blank (scalars i)) \<le> length (scalars i)" by (rule length_dropWhile_le)
  ultimately have l: "length (dropWhile is_blank (scalars i)) = length (scalars i)"
    "length (dropWhile is_blank (rev (dropWhile is_blank (scalars i)))) = length (rev (dropWhile is_blank (scalars i)))" by auto
  have same: "dropWhile Q xs = xs" if "length (dropWhile Q xs) = length xs" for Q and xs :: "string list"
    using that takeWhile_dropWhile_id [of Q xs]
    by (metis add_cancel_left_left append_self_conv2 length_0_conv length_append)
  show r: "dropWhile is_blank (rev (scalars i)) = rev (scalars i)"
    using same [OF l(1)] same [OF l(2)] by simp
  show "\<not> is_blank (last (scalars i))"
    using r assms(2) by (metis dropWhile_eq_self_iff hd_rev rev_is_Nil_conv scalars_Nil_iff)
qed

lemma scalars_ascii_append: "\<forall>c\<in>set p. ord_of c < 128 \<Longrightarrow> scalars (p @ i) = map (\<lambda>c. [c]) p @ scalars i"
  by (induction p) (auto simp: trailing_def)

lemma trim_prefixed:
  assumes "\<forall>c\<in>set p. ord_of c < 128 \<and> \<not> is_whitespace (ord_of c)" "p \<noteq> []" "trim i = i" "i \<noteq> []"
  shows "trim (p @ i) = p @ i"
proof -
  have s: "scalars (p @ i) = map (\<lambda>c. [c]) p @ scalars i" using assms(1) by (intro scalars_ascii_append) blast
  obtain a q where p: "p = a # q" using assms(2) by (cases p) auto
  have "\<not> is_blank [a]" using assms(1) p by (simp add: is_blank_def code_point_def)
  then have front: "dropWhile is_blank (scalars (p @ i)) = scalars (p @ i)" unfolding s using p by simp
  have "\<not> is_blank (hd (rev (scalars i)))" using trim_keeps(1) [OF assms(3,4)] by (simp add: hd_rev)
  then have "dropWhile is_blank (rev (scalars i) @ ys) = rev (scalars i) @ ys" for ys
    using assms(4) by (metis dropWhile_eq_self_iff hd_append2 rev_is_Nil_conv scalars_Nil_iff)
  then have "dropWhile is_blank (rev (scalars (p @ i))) = rev (scalars (p @ i))" unfolding s by simp
  with front show ?thesis unfolding trim_def by simp
qed

lemma parse_env_value:
  "valid_plugin_id i = Inr i \<Longrightarrow> parse_scope (env_value (Plugin i)) = Inr (Plugin i)"
  "valid_component j = Inr j \<Longrightarrow> parse_scope (env_value (Component j)) = Inr (Component j)"
proof -
  assume i: "valid_plugin_id i = Inr i"
  then have "trim i = i" "i \<noteq> []" by (auto simp: valid_plugin_id_def Let_def split: if_splits)
  then have "trim (''plugin:'' @ i) = ''plugin:'' @ i"
    by (intro trim_prefixed) (auto simp: eval_simps)
  with i show "parse_scope (env_value (Plugin i)) = Inr (Plugin i)"
    by (simp add: parse_scope_def strip_prefix_def)
next
  assume j: "valid_component j = Inr j"
  then have "trim j = j" "j \<noteq> []" by (auto simp: valid_component_def Let_def split: if_splits)
  then have "trim (''component:'' @ j) = ''component:'' @ j"
    by (intro trim_prefixed) (auto simp: eval_simps)
  with j show "parse_scope (env_value (Component j)) = Inr (Component j)"
    by (simp add: parse_scope_def strip_prefix_def)
qed

text \<open>
  A scope survives the trip through the environment: what is written for a valid plugin id or
  component name parses back to the same scope, and a plugin is never read as a component.
\<close>

lemma scope_round_trip:
  assumes "valid_plugin_id i = Inr i" "valid_component j = Inr j"
  shows "parse_scope (env_value (Plugin i)) = Inr (Plugin i) \<and> parse_scope (env_value (Component j)) = Inr (Component j)
    \<and> env_value (Plugin i) \<noteq> env_value (Component j)"
  using parse_env_value assms by simp

lemma read_child_env:
  assumes "b64_laws P" "b64_alphabet P" "parse_scope (env_value scope) = Inr scope" "\<And>k. length (derive k i) = KEY_LEN"
    and "e SEAL_RETIRED_KEYS_ENV = None"
  shows "delivered_in P (e ++ map_of (child_env P m rs derive scope i)) =
    Inr (Some \<lparr>de_scope = scope, de_key = derive m i, de_retired = map (\<lambda>k. derive k i) rs\<rparr>)"
proof -
  let ?enc = "\<lambda>k. b64_encode P (derive k i)"
  let ?e = "e ++ map_of (child_env P m rs derive scope i)"
  have ne: "?enc k \<noteq> []" for k
    using assms(2,4) unfolding b64_alphabet_def by (metis KEY_LEN_def list.size(3) zero_neq_numeral)
  have key: "?e SEAL_KEY_ENV = Some (?enc m)" "?e SEAL_SCOPE_ENV = Some (env_value scope)"
    "?e SEAL_RETIRED_KEYS_ENV = (if rs = [] then None else Some (join (CHR '','') (map ?enc rs)))"
    using assms(5) by (auto simp: child_env_def env_names map_add_def split: option.split)
  have retired: "collect_results (map (\<lambda>item. ok_or BadRetiredKeys (decode_key P item))
      (split_on (CHR '','') (trim (join (CHR '','') (map ?enc rs))))) = Inr (map (\<lambda>k. derive k i) rs)"
    and nonblank: "trim (join (CHR '','') (map ?enc rs)) \<noteq> []" if "rs \<noteq> []"
  proof -
    have "set (join c xs) \<subseteq> insert c (\<Union> (set ` set xs))" for c and xs :: "string list"
      by (induction c xs rule: join.induct) auto
    then have "\<forall>c\<in>set (join (CHR '','') (map ?enc rs)). ord_of c < 128 \<and> \<not> is_whitespace (ord_of c)"
      using assms(1) unfolding b64_laws_def by (fastforce simp: eval_simps)
    then have t: "trim (join (CHR '','') (map ?enc rs)) = join (CHR '','') (map ?enc rs)" by (rule trim_no_blank)
    have j: "split_on (CHR '','') (join (CHR '','') (map ?enc rs)) = map ?enc rs"
      using that assms(2) by (intro split_on_join) (auto simp: b64_alphabet_def)
    show "collect_results (map (\<lambda>item. ok_or BadRetiredKeys (decode_key P item))
      (split_on (CHR '','') (trim (join (CHR '','') (map ?enc rs))))) = Inr (map (\<lambda>k. derive k i) rs)"
      using decode_key_encode [OF assms(1,4)] by (simp add: t j comp_def)
    have "join (CHR '','') (map ?enc rs) \<noteq> []"
    proof
      assume "join (CHR '','') (map ?enc rs) = []"
      with j have "[[]] = map ?enc rs" by simp
      then obtain k where "?enc k = []" by (cases rs) (auto dest: sym)
      with ne show False by blast
    qed
    then show "trim (join (CHR '','') (map ?enc rs)) \<noteq> []" using t by simp
  qed
  have "trim (?enc m) \<noteq> []" using ne trim_ascii [OF assms(1)] by simp
  then show ?thesis
    unfolding delivered_in_def read_delivered_def key
    using retired nonblank decode_key_encode [OF assms(1,4)] assms(3)
    by (cases "rs = []") simp_all
qed

text \<open>
  C15. A plugin seals with the same key however it was started: the cipher a child builds from the
  environment Core gave it is the cipher Core derives for it, and the one the same binary derives
  when it holds the master key itself, retired keys included. A child refuses the key of another plugin.
\<close>

theorem same_key_however_started:
  assumes "b64_laws P" "b64_alphabet P" "plugin_child_env P (Some (m, rs)) plugin_id = Inr vars"
    and "e SEAL_RETIRED_KEYS_ENV = None" "child = e ++ map_of vars"
  shows "\<exists>c. plugin_cipher_for P m rs plugin_id = Inr c
    \<and> plugin_cipher_for_process P (delivered_in P child) host child plugin_id = Inr c
    \<and> plugin_cipher_for_process P (Inr None) (Some (Inr (m, rs))) e plugin_id = Inr c
    \<and> (\<forall>other j. valid_plugin_id other = Inr j \<longrightarrow> j \<noteq> pc_plugin_id c \<longrightarrow>
        plugin_cipher_for_process P (delivered_in P child) host child other = Inl (WrongScope (Plugin (pc_plugin_id c)) (Plugin j)))"
proof -
  obtain i where i: "valid_plugin_id plugin_id = Inr i" "vars = child_env P m rs (derive_plugin_key P) (Plugin i) i"
    using assms(3) by (auto simp: plugin_child_env_def bindE_eq_Inr)
  have j: "i = trim plugin_id" "trim i = i" "i \<noteq> []" using valid_plugin_id_Inr [OF i(1)] by auto
  then have v: "valid_plugin_id i = Inr i" by (simp add: valid_plugin_id_def)
  have len: "length (derive_plugin_key P k i) = KEY_LEN" for k
    using assms(2) by (simp add: b64_alphabet_def derive_plugin_key_def hkdf_subkey_def)
  have d: "delivered_in P child = Inr (Some \<lparr>de_scope = Plugin i, de_key = derive_plugin_key P m i,
      de_retired = map (\<lambda>k. derive_plugin_key P k i) rs\<rparr>)"
    unfolding assms(5) i(2)
    by (rule read_child_env) (use assms(1,2,4) parse_env_value(1) [OF v] len in auto)
  let ?c = "from_subkeys i (derive_plugin_key P m i) (map (\<lambda>k. derive_plugin_key P k i) rs)"
  have "plugin_cipher_for P m rs plugin_id = Inr ?c" using j by (simp add: plugin_cipher_for_def Let_def)
  moreover have "plugin_cipher_for_process P (delivered_in P child) host child plugin_id = Inr ?c"
    "plugin_cipher_for_process P (Inr None) (Some (Inr (m, rs))) e plugin_id = Inr ?c"
    by (simp_all add: plugin_cipher_for_process_def i(1) d process_subkey_def subkey_from_def process_master_key_def)
  moreover have "plugin_cipher_for_process P (delivered_in P child) host child other = Inl (WrongScope (Plugin i) (Plugin j))"
    if "valid_plugin_id other = Inr j" "j \<noteq> i" for other j
    using that by (auto simp: plugin_cipher_for_process_def d process_subkey_def subkey_from_def)
  ultimately show ?thesis by (intro exI [of _ ?c]) (simp add: from_subkeys_def)
qed

text \<open>
  A key goes no further than the process it was delivered to: after the capture nothing is
  delivered to a child that inherits the environment, and a scrubbed environment holds no variable
  that carries key material and is unchanged elsewhere.
\<close>

theorem keys_are_not_inherited:
  "(\<forall>d e'. capture_process_seal_key P e = (Inr d, e') \<longrightarrow> delivered_in P e' = Inr None \<and> delivered_in P e = Inr d)
   \<and> (\<forall>n. scrub_seal_env e n = (if n \<in> set SEAL_ENV_VARS then None else e n))"
  by (auto simp: capture_process_seal_key_def delivered_in_def read_delivered_def scrub_seal_env_def SEAL_ENV_VARS_def
    env_names split: sum.splits)

end
