(* ===== verification/Key_Ladder.thy ===== *)
theory Key_Ladder
  imports Content_Crypto Process_Keys
begin

text \<open>
  crates/core/crypto/src/lib.rs, the ladder that resolves the master key: the environment, then the OS
  keychain, then a key file in the data folder. The world is what the folder and the keyring hold. The
  keyring is the keyring crate over the OS credential store: a parameter, a record of its two
  functions over a state of its own.
\<close>

section \<open>The keyring\<close>

datatype keyring_reply = Password string | NoEntry | KeyringError

text \<open>\<open>kr_get\<close> opens the entry of an account and reads it, \<open>kr_set\<close> writes it, reporting success.\<close>

record 'k keyring =
  kr_get :: "'k \<Rightarrow> string \<Rightarrow> keyring_reply"
  kr_set :: "string \<Rightarrow> string \<Rightarrow> 'k \<Rightarrow> bool \<times> 'k"

text \<open>What the code relies on: a write that fails changes nothing, and one that succeeds changes no other
  account. That it reads back is checked by the code.\<close>

definition keyring_laws :: "'k keyring \<Rightarrow> bool" where
  "keyring_laws R \<longleftrightarrow> (\<forall>a b v k k' ok. kr_set R a v k = (ok, k') \<longrightarrow> \<not> ok \<or> a \<noteq> b \<longrightarrow> kr_get R k' b = kr_get R k b)
     \<and> (\<forall>a v k k'. kr_set R a v k = (False, k') \<longrightarrow> k' = k)"

section \<open>The keychain port\<close>

datatype keychain_state = KeyHeld "byte list" | KeychainEmpty | KeychainCorrupt | KeychainUnavailable

text \<open>The implementations of the \<open>Keychain\<close> trait: an account of the OS keychain, or none.\<close>

datatype keychain = OsKeychain string | DisabledKeychain

definition keychain_get :: "platform \<Rightarrow> 'k keyring \<Rightarrow> keychain \<Rightarrow> 'k \<Rightarrow> keychain_state" where
  "keychain_get P R kc k = (case kc of
     DisabledKeychain \<Rightarrow> KeychainUnavailable
   | OsKeychain account \<Rightarrow> (case kr_get R k account of
       Password stored \<Rightarrow> (case decode_key P stored of Some key \<Rightarrow> KeyHeld key | None \<Rightarrow> KeychainCorrupt)
     | NoEntry \<Rightarrow> KeychainEmpty
     | KeyringError \<Rightarrow> KeychainUnavailable))"

definition keychain_store :: "platform \<Rightarrow> 'k keyring \<Rightarrow> keychain \<Rightarrow> byte list \<Rightarrow> 'k \<Rightarrow> bool \<times> 'k" where
  "keychain_store P R kc key k = (case kc of
     DisabledKeychain \<Rightarrow> (False, k)
   | OsKeychain account \<Rightarrow> kr_set R account (b64_encode P key) k)"

text \<open>Without the \<open>os-keychain\<close> feature the source must be explicit.\<close>

definition require_explicit_custody_without_keychain :: "bool \<Rightarrow> bool \<Rightarrow> bool" where
  "require_explicit_custody_without_keychain env_key_present keychain_disabled \<longleftrightarrow> env_key_present \<or> keychain_disabled"

section \<open>Key files\<close>

datatype key_file = NoFile | UnreadableFile | KeyText string

datatype master_key_source = FromEnv | FromKeychain | FromFile

fun source_text :: "master_key_source \<Rightarrow> string" where
  "source_text FromEnv = ''env''"
| "source_text FromKeychain = ''keychain''"
| "source_text FromFile = ''file''"

datatype custody_error = ReadingKey | CorruptKeyFile | WritingKey | KeyVanished | RetiringKey | BadEnvKey
  | GenerationRefused string | StoredDiffers | StoredCorrupt | StoredUnverified | FileKeyRefused | KeychainIsCorrupt
  | NewerFormat | RecordIO | KeyMismatch | RetiredSetFull | NoCandidate | ProbeFailed | IsCurrentKey | InKeychainSlot
  | BundleMalformed | EnvKeyDiffers | CopyFailed

definition read_key_file :: "platform \<Rightarrow> key_file \<Rightarrow> custody_error + byte list option" where
  "read_key_file P f = (case f of
     NoFile \<Rightarrow> Inr None
   | UnreadableFile \<Rightarrow> Inl ReadingKey
   | KeyText encoded \<Rightarrow> if \<not> utf8_valid encoded then Inl ReadingKey
       else (case decode_key P encoded of Some key \<Rightarrow> Inr (Some key) | None \<Rightarrow> Inl CorruptKeyFile))"

text \<open>
  Publishing a key at a path that held \<open>f\<close> when the caller last looked, without replacing what is
  there: \<open>rival\<close> is the key file another process published in between, \<open>NoFile\<close> when none did.
  \<open>fails\<close> says whether writing the temporary file and publishing it fail.
\<close>

definition write_key_file ::
  "platform \<Rightarrow> bool \<times> bool \<Rightarrow> key_file \<Rightarrow> byte list \<Rightarrow> (key_file, custody_error, byte list) op" where
  "write_key_file P fails rival key f =
     (if fst fails then (Inl WritingKey, f)
      else let f = (if f = NoFile then rival else f) in
        if f \<noteq> NoFile then (bindE (read_key_file P f) (ok_or KeyVanished), f)
        else if snd fails then (Inl WritingKey, f)
        else (Inr key, KeyText (b64_encode P key)))"

record key_paths =
  kp_master :: key_file
  kp_legacy :: key_file

record 'k key_world =
  kw_keyring :: 'k
  kw_paths :: key_paths

text \<open>The file that holds a copy of a key, if one does.\<close>

definition key_file_copy :: "platform \<Rightarrow> byte list \<Rightarrow> key_paths \<Rightarrow> key_file option" where
  "key_file_copy P key paths = find (\<lambda>f. read_key_file P f = Inr (Some key)) [kp_master paths, kp_legacy paths]"

definition effective_source :: "platform \<Rightarrow> master_key_source \<Rightarrow> byte list \<Rightarrow> key_paths \<Rightarrow> master_key_source" where
  "effective_source P source key paths =
     (if source = FromKeychain \<and> key_file_copy P key paths \<noteq> None then FromFile else source)"

section \<open>The ladder\<close>

text \<open>What one resolution draws: the key it would generate, which writes and removals fail, and what another
  process publishes at the master key's path meanwhile.\<close>

record ladder_draws =
  ld_generated :: "byte list"
  ld_write_fails :: "bool \<times> bool"
  ld_remove_fails :: bool
  ld_rival :: key_file

definition retire_matching_legacy_key :: "platform \<Rightarrow> ladder_draws \<Rightarrow> byte list \<Rightarrow> (('k, 'z) key_world_scheme, custody_error, unit) op" where
  "retire_matching_legacy_key P L keychain_key w =
     (case read_key_file P (kp_legacy (kw_paths w)) of
        Inl e \<Rightarrow> (Inl e, w)
      | Inr None \<Rightarrow> (Inr (), w)
      | Inr (Some legacy) \<Rightarrow>
          if legacy \<noteq> keychain_key then (Inr (), w)
          else if ld_remove_fails L then (Inl RetiringKey, w)
          else (Inr (), w\<lparr>kw_paths := (kw_paths w)\<lparr>kp_legacy := NoFile\<rparr>\<rparr>))"

definition store_in_keychain :: "platform \<Rightarrow> 'k keyring \<Rightarrow> keychain \<Rightarrow> byte list \<Rightarrow> (('k, 'z) key_world_scheme, custody_error, bool) op" where
  "store_in_keychain P R kc key w = (case keychain_store P R kc key (kw_keyring w) of
     (ok, k) \<Rightarrow> (Inr ok, w\<lparr>kw_keyring := k\<rparr>))"

definition publish_master :: "platform \<Rightarrow> ladder_draws \<Rightarrow> byte list \<Rightarrow> (('k, 'z) key_world_scheme, custody_error, byte list) op" where
  "publish_master P L key w = (case write_key_file P (ld_write_fails L) (ld_rival L) key (kp_master (kw_paths w)) of
     (r, f) \<Rightarrow> (r, w\<lparr>kw_paths := (kw_paths w)\<lparr>kp_master := f\<rparr>\<rparr>))"

text \<open>The keychain answered that it is empty: adopt the folder's key, or generate one.\<close>

definition adopt_or_generate ::
  "platform \<Rightarrow> ladder_draws \<Rightarrow> bool \<Rightarrow> string option \<Rightarrow> byte list option \<Rightarrow> (('k, 'z) key_world_scheme, custody_error, byte list) op" where
  "adopt_or_generate P L allow_file evidence legacy w =
     (bindE (if allow_file then read_key_file P (kp_master (kw_paths w)) else Inr None) (\<lambda>file_key.
      case (case file_key of Some k \<Rightarrow> Some k | None \<Rightarrow> legacy) of
        Some existing \<Rightarrow> Inr existing
      | None \<Rightarrow> (case evidence of Some reason \<Rightarrow> Inl (GenerationRefused reason) | None \<Rightarrow> Inr (ld_generated L))), w)"

definition seed_keychain ::
  "platform \<Rightarrow> 'k keyring \<Rightarrow> keychain \<Rightarrow> ladder_draws \<Rightarrow> bool \<Rightarrow> string option \<Rightarrow> byte list option \<Rightarrow>
   (('k, 'z) key_world_scheme, custody_error, byte list \<times> master_key_source) op" where
  "seed_keychain P R kc L allow_file evidence legacy =
     bindS (adopt_or_generate P L allow_file evidence legacy) (\<lambda>key.
     bindS (store_in_keychain P R kc key) (\<lambda>stored.
     if stored then
       bindS getS (\<lambda>w. case keychain_get P R kc (kw_keyring w) of
         KeyHeld persisted \<Rightarrow> if persisted = key
           then bindS (retire_matching_legacy_key P L key) (\<lambda>_. retS (key, FromKeychain))
           else failS StoredDiffers
       | KeychainCorrupt \<Rightarrow> failS StoredCorrupt
       | _ \<Rightarrow> failS StoredUnverified)
     else if \<not> allow_file then failS FileKeyRefused
     else bindS getS (\<lambda>w. bindS (liftE (read_key_file P (kp_master (kw_paths w)))) (\<lambda>existing.
       bindS (case existing of Some existing \<Rightarrow> retS existing | None \<Rightarrow> publish_master P L key) (\<lambda>key.
       retS (key, FromFile))))))"

definition file_fallback ::
  "platform \<Rightarrow> ladder_draws \<Rightarrow> bool \<Rightarrow> string option \<Rightarrow> byte list option \<Rightarrow>
   (('k, 'z) key_world_scheme, custody_error, byte list \<times> master_key_source) op" where
  "file_fallback P L allow_file evidence legacy =
     (if \<not> allow_file then failS FileKeyRefused
      else bindS getS (\<lambda>w. bindS (liftE (read_key_file P (kp_master (kw_paths w)))) (\<lambda>master. case master of
        Some key \<Rightarrow> retS (key, FromFile)
      | None \<Rightarrow> bindS (case legacy of
            Some existing \<Rightarrow> retS existing
          | None \<Rightarrow> (case evidence of Some reason \<Rightarrow> failS (GenerationRefused reason) | None \<Rightarrow> retS (ld_generated L)))
          (\<lambda>generated. bindS (publish_master P L generated) (\<lambda>key. retS (key, FromFile))))))"

text \<open>\<open>evidence\<close> is what the generation guard finds: \<open>None\<close> when a key may be generated.\<close>

definition load_master_key_guarded ::
  "platform \<Rightarrow> 'k keyring \<Rightarrow> keychain \<Rightarrow> ladder_draws \<Rightarrow> string option \<Rightarrow> bool \<Rightarrow> string option \<Rightarrow>
   (('k, 'z) key_world_scheme, custody_error, byte list \<times> master_key_source) op" where
  "load_master_key_guarded P R kc L env allow_file evidence = (case env of
     Some encoded \<Rightarrow> (case decode_key P encoded of
         Some key \<Rightarrow> retS (key, FromEnv)
       | None \<Rightarrow> failS BadEnvKey)
   | None \<Rightarrow>
       bindS getS (\<lambda>w.
       bindS (liftE (read_key_file P (kp_legacy (kw_paths w)))) (\<lambda>legacy.
       case keychain_get P R kc (kw_keyring w) of
         KeyHeld key \<Rightarrow> bindS (retire_matching_legacy_key P L key) (\<lambda>_. retS (key, FromKeychain))
       | KeychainEmpty \<Rightarrow> seed_keychain P R kc L allow_file evidence legacy
       | KeychainCorrupt \<Rightarrow> failS KeychainIsCorrupt
       | KeychainUnavailable \<Rightarrow> file_fallback P L allow_file evidence legacy)))"

section \<open>Copying a profile's key\<close>

datatype key_copy = Copied | DestinationOccupied | SourceMissing | CopyUnavailable

definition copy_master_key_with ::
  "platform \<Rightarrow> 'k keyring \<Rightarrow> keychain \<Rightarrow> keychain \<Rightarrow> 'k \<Rightarrow> key_copy \<times> 'k" where
  "copy_master_key_with P R source dest k = (case keychain_get P R source k of
     KeyHeld key \<Rightarrow> (case keychain_get P R dest k of
         KeyHeld _ \<Rightarrow> (DestinationOccupied, k)
       | KeychainEmpty \<Rightarrow> (case keychain_store P R dest key k of
           (ok, k') \<Rightarrow> (if ok then Copied else CopyUnavailable, k'))
       | _ \<Rightarrow> (CopyUnavailable, k))
   | KeychainEmpty \<Rightarrow> (SourceMissing, k)
   | _ \<Rightarrow> (CopyUnavailable, k))"

definition KEYRING_ACCOUNT :: string where "KEYRING_ACCOUNT = ''master-key''"

definition copy_master_key_between_profiles ::
  "platform \<Rightarrow> 'k keyring \<Rightarrow> string \<Rightarrow> string \<Rightarrow> 'k \<Rightarrow> key_copy \<times> 'k" where
  "copy_master_key_between_profiles P R from_suffix to_suffix =
     copy_master_key_with P R (OsKeychain (KEYRING_ACCOUNT @ from_suffix)) (OsKeychain (KEYRING_ACCOUNT @ to_suffix))"

section \<open>Keys are never lost\<close>

text \<open>The keys that can be read from the keychain or the folder.\<close>

definition held :: "platform \<Rightarrow> 'k keyring \<Rightarrow> keychain \<Rightarrow> byte list \<Rightarrow> ('k, 'z) key_world_scheme \<Rightarrow> bool" where
  "held P R kc k w \<longleftrightarrow> keychain_get P R kc (kw_keyring w) = KeyHeld k
     \<or> read_key_file P (kp_master (kw_paths w)) = Inr (Some k) \<or> read_key_file P (kp_legacy (kw_paths w)) = Inr (Some k)"

lemma read_NoFile [simp]: "read_key_file P NoFile = Inr None"
  by (simp add: read_key_file_def)

lemma read_key_text [simp]: "b64_laws P \<Longrightarrow> length k = KEY_LEN \<Longrightarrow> read_key_file P (KeyText (b64_encode P k)) = Inr (Some k)"
proof -
  assume P: "b64_laws P" "length k = KEY_LEN"
  then have "utf8_valid (b64_encode P k)" by (simp add: b64_laws_def utf8_valid_def ascii_scalars scalar_ok_def)
  with P show ?thesis by (simp add: read_key_file_def decode_key_encode)
qed

lemma read_key_file_length: "read_key_file P f = Inr (Some k) \<Longrightarrow> length k = KEY_LEN"
  by (auto simp: read_key_file_def decode_key_def split: key_file.splits option.splits if_splits)

lemma retire_matching_cases:
  assumes "retire_matching_legacy_key P L key w = (r, t)"
  shows "t = w \<or> read_key_file P (kp_legacy (kw_paths w)) = Inr (Some key) \<and> t = w\<lparr>kw_paths := (kw_paths w)\<lparr>kp_legacy := NoFile\<rparr>\<rparr>"
  using assms by (auto simp: retire_matching_legacy_key_def split: sum.splits option.splits if_splits)

lemma retire_matching_held:
  assumes "keychain_get P R kc (kw_keyring w) = KeyHeld key" "retire_matching_legacy_key P L key w = (r, t)" "held P R kc k w"
  shows "held P R kc k t"
  using retire_matching_cases [OF assms(2)] assms(1,3) by (auto simp: held_def)

lemma publish_master_held: "keeps (held P R kc k) (publish_master P L key)"
  by (rule keepsI) (auto simp: publish_master_def write_key_file_def held_def Let_def split: if_splits)

text \<open>The ladder, branch by branch.\<close>

lemma seed_keychain_step:
  assumes "adopt_or_generate P L allow ev legacy w = (Inr key, w)" "keychain_store P R kc key (kw_keyring w) = (ok, kr)"
  shows "seed_keychain P R kc L allow ev legacy w = (let w = w\<lparr>kw_keyring := kr\<rparr> in
    if ok then (case keychain_get P R kc kr of
        KeyHeld persisted \<Rightarrow> if persisted = key
          then (case retire_matching_legacy_key P L key w of (Inl e, t) \<Rightarrow> (Inl e, t) | (Inr _, t) \<Rightarrow> (Inr (key, FromKeychain), t))
          else (Inl StoredDiffers, w)
      | KeychainCorrupt \<Rightarrow> (Inl StoredCorrupt, w)
      | _ \<Rightarrow> (Inl StoredUnverified, w))
    else if \<not> allow then (Inl FileKeyRefused, w)
    else (case read_key_file P (kp_master (kw_paths w)) of
        Inl e \<Rightarrow> (Inl e, w)
      | Inr (Some existing) \<Rightarrow> (Inr (existing, FromFile), w)
      | Inr None \<Rightarrow> (case publish_master P L key w of (Inl e, t) \<Rightarrow> (Inl e, t) | (Inr k, t) \<Rightarrow> (Inr (k, FromFile), t))))"
proof -
  have s: "store_in_keychain P R kc key w = (Inr ok, w\<lparr>kw_keyring := kr\<rparr>)" by (simp add: store_in_keychain_def assms(2))
  show ?thesis
    by (simp add: seed_keychain_def assms(1) s Let_def bindS_def split: keychain_state.split sum.split option.split prod.split)
qed

lemma seed_keychain_fails:
  "adopt_or_generate P L allow ev legacy w = (Inl e, v) \<Longrightarrow> seed_keychain P R kc L allow ev legacy w = (Inl e, w)"
  by (auto simp: seed_keychain_def adopt_or_generate_def)

lemma file_fallback_step:
  "file_fallback P L allow ev legacy w =
    (if \<not> allow then (Inl FileKeyRefused, w)
     else case read_key_file P (kp_master (kw_paths w)) of
       Inl e \<Rightarrow> (Inl e, w)
     | Inr (Some key) \<Rightarrow> (Inr (key, FromFile), w)
     | Inr None \<Rightarrow> (case (case legacy of Some k \<Rightarrow> Inr k
           | None \<Rightarrow> case ev of Some reason \<Rightarrow> Inl (GenerationRefused reason) | None \<Rightarrow> Inr (ld_generated L)) of
         Inl e \<Rightarrow> (Inl e, w)
       | Inr g \<Rightarrow> (case publish_master P L g w of (Inl e, t) \<Rightarrow> (Inl e, t) | (Inr k, t) \<Rightarrow> (Inr (k, FromFile), t))))"
  by (simp add: file_fallback_def bindS_def split: sum.split option.split prod.split)

lemma load_step:
  "load_master_key_guarded P R kc L None allow ev w =
    (case read_key_file P (kp_legacy (kw_paths w)) of
       Inl e \<Rightarrow> (Inl e, w)
     | Inr legacy \<Rightarrow> (case keychain_get P R kc (kw_keyring w) of
         KeyHeld key \<Rightarrow> (case retire_matching_legacy_key P L key w of (Inl e, t) \<Rightarrow> (Inl e, t) | (Inr _, t) \<Rightarrow> (Inr (key, FromKeychain), t))
       | KeychainEmpty \<Rightarrow> seed_keychain P R kc L allow ev legacy w
       | KeychainCorrupt \<Rightarrow> (Inl KeychainIsCorrupt, w)
       | KeychainUnavailable \<Rightarrow> file_fallback P L allow ev legacy w))"
  by (simp add: load_master_key_guarded_def bindS_def split: keychain_state.split sum.split prod.split)

lemma load_env_step:
  "load_master_key_guarded P R kc L (Some e) allow ev w =
    (case decode_key P e of Some key \<Rightarrow> (Inr (key, FromEnv), w) | None \<Rightarrow> (Inl BadEnvKey, w))"
  by (simp add: load_master_key_guarded_def split: option.split)

lemmas ladder_splits = prod.splits sum.splits option.splits keychain_state.splits if_splits

lemma seed_keychain_held:
  assumes "keychain_get P R kc (kw_keyring w) = KeychainEmpty" "seed_keychain P R kc L allow ev legacy w = (r, t)" "held P R kc k w"
  shows "held P R kc k t"
proof (cases "adopt_or_generate P L allow ev legacy w")
  case (Pair a b)
  then have b: "b = w" by (simp add: adopt_or_generate_def)
  show ?thesis
  proof (cases a)
    case (Inl e)
    with assms(2,3) seed_keychain_fails [of P L allow ev legacy w e b R kc] Pair show ?thesis by simp
  next
    case (Inr key)
    obtain ok kr where st: "keychain_store P R kc key (kw_keyring w) = (ok, kr)" by fastforce
    let ?w = "w\<lparr>kw_keyring := kr\<rparr>"
    have h: "held P R kc k ?w" using assms(1,3) by (auto simp: held_def)
    have m: "keychain_get P R kc kr = KeyHeld key \<Longrightarrow> retire_matching_legacy_key P L key ?w = (q, v) \<Longrightarrow> held P R kc k v" for q v
      using retire_matching_held [of P R kc ?w key] h by simp
    from assms(2) show ?thesis
      using h m keepsD [OF publish_master_held h]
      unfolding seed_keychain_step [OF Pair [unfolded Inr b] st] Let_def
      by (auto split: ladder_splits)
  qed
qed

lemma load_held:
  assumes "load_master_key_guarded P R kc L env allow ev w = (r, t)" "held P R kc k w"
  shows "held P R kc k t"
proof (cases env)
  case (Some e)
  with assms show ?thesis by (auto simp: load_env_step split: option.splits)
next
  case None
  have f: "held P R kc k v" if "file_fallback P L allow ev legacy w = (q, v)" for legacy q v
    using that assms(2) keepsD [OF publish_master_held assms(2)] by (auto simp: file_fallback_step split: ladder_splits)
  from assms(1) show ?thesis
    using assms(2) f seed_keychain_held [OF _ _ assms(2)] retire_matching_held [OF _ _ assms(2)]
    unfolding None load_step by (auto split: ladder_splits)
qed

text \<open>Key files in place are not replaced, readable or not.\<close>

lemma publish_master_kept: "kp_master (kw_paths w) \<noteq> NoFile \<Longrightarrow> publish_master P L key w = (r, t) \<Longrightarrow> t = w"
  by (auto simp: publish_master_def write_key_file_def Let_def split: if_splits)

lemma master_kept:
  assumes "kp_master (kw_paths w) \<noteq> NoFile" "load_master_key_guarded P R kc L env allow ev w = (r, t)"
  shows "kp_master (kw_paths t) = kp_master (kw_paths w)"
proof (cases env)
  case (Some e)
  with assms show ?thesis by (auto simp: load_env_step split: option.splits)
next
  case None
  have f: "v = w" if "file_fallback P L allow ev legacy w = (q, v)" for legacy q v
    using that publish_master_kept [OF assms(1)] by (auto simp: file_fallback_step split: ladder_splits)
  have s: "kp_master (kw_paths v) = kp_master (kw_paths w)" if g: "seed_keychain P R kc L allow ev legacy w = (q, v)" for legacy q v
  proof (cases "adopt_or_generate P L allow ev legacy w")
    case (Pair a b)
    then have b: "b = w" by (simp add: adopt_or_generate_def)
    show ?thesis
    proof (cases a)
      case (Inl e)
      with g seed_keychain_fails [of P L allow ev legacy w e b R kc] Pair show ?thesis by simp
    next
      case (Inr key)
      obtain ok kr where st: "keychain_store P R kc key (kw_keyring w) = (ok, kr)" by fastforce
      have nf: "kp_master (kw_paths (w\<lparr>kw_keyring := kr\<rparr>)) \<noteq> NoFile" using assms(1) by simp
      from g show ?thesis
        unfolding seed_keychain_step [OF Pair [unfolded Inr b] st] Let_def
        by (auto dest!: retire_matching_cases publish_master_kept [OF nf] split: ladder_splits)
    qed
  qed
  show ?thesis
  proof (cases "\<exists>x. read_key_file P (kp_legacy (kw_paths w)) = Inr x")
    case True
    with assms(2) None show ?thesis
      by (cases "keychain_get P R kc (kw_keyring w)")
        (auto simp: load_step dest: f s dest!: retire_matching_cases split: prod.splits sum.splits)
  next
    case False
    with assms(2) None show ?thesis by (auto simp: load_step split: sum.splits)
  qed
qed

text \<open>
  Resolving the master key destroys no key, whatever it is answered and wherever it fails: every key
  the keychain or the folder held is held afterwards, a key file in place is never replaced, and a
  corrupt keychain is left alone.
\<close>

theorem ladder_loses_no_key:
  assumes "load_master_key_guarded P R kc L env allow ev w = (r, t)"
  shows "(held P R kc k w \<longrightarrow> held P R kc k t)
    \<and> (kp_master (kw_paths w) \<noteq> NoFile \<longrightarrow> kp_master (kw_paths t) = kp_master (kw_paths w))
    \<and> (keychain_get P R kc (kw_keyring w) = KeychainCorrupt \<longrightarrow> t = w)"
proof -
  have "t = w" if "keychain_get P R kc (kw_keyring w) = KeychainCorrupt"
    using assms that by (cases env) (auto simp: load_step load_env_step split: sum.splits option.splits)
  then show ?thesis using load_held [OF assms] master_kept [OF _ assms] by blast
qed

section \<open>Resolved keys are kept\<close>

lemma file_key_again:
  assumes "load_master_key_guarded P R kc L None allow ev w = (Inr (k', s'), t')" "allow"
    and "read_key_file P (kp_master (kw_paths w)) = Inr (Some k)"
    and "keychain_get P R kc (kw_keyring w) = KeychainEmpty \<or> keychain_get P R kc (kw_keyring w) = KeychainUnavailable"
  shows "k' = k"
  using assms(4)
proof
  assume "keychain_get P R kc (kw_keyring w) = KeychainUnavailable"
  with assms(1-3) show ?thesis by (auto simp: load_step file_fallback_step split: sum.splits)
next
  assume "keychain_get P R kc (kw_keyring w) = KeychainEmpty"
  then obtain legacy where s: "seed_keychain P R kc L allow ev legacy w = (Inr (k', s'), t')"
    using assms(1) by (auto simp: load_step split: sum.splits)
  have a: "adopt_or_generate P L allow ev legacy w = (Inr k, w)" using assms(2,3) by (simp add: adopt_or_generate_def)
  obtain ok kr where st: "keychain_store P R kc k (kw_keyring w) = (ok, kr)" by fastforce
  from s show ?thesis using assms(2,3) unfolding seed_keychain_step [OF a st] Let_def
    by (auto split: ladder_splits)
qed

lemma publish_master_Inr:
  assumes "b64_laws P" "length key = KEY_LEN" "publish_master P L key w = (Inr k, t)"
  shows "read_key_file P (kp_master (kw_paths t)) = Inr (Some k)" "kw_keyring t = kw_keyring w"
  using assms by (auto simp: publish_master_def write_key_file_def Let_def bindE_eq_Inr ok_or_def split: if_splits option.splits)

lemma seed_keychain_Inr:
  assumes "b64_laws P" "keyring_laws R" "length (ld_generated L) = KEY_LEN"
    and "\<And>l. legacy = Some l \<Longrightarrow> length l = KEY_LEN"
    and "seed_keychain P R kc L allow ev legacy w = (Inr (k, src), t)"
  shows "src = FromKeychain \<and> keychain_get P R kc (kw_keyring t) = KeyHeld k
    \<or> src = FromFile \<and> allow \<and> read_key_file P (kp_master (kw_paths t)) = Inr (Some k) \<and> kw_keyring t = kw_keyring w"
proof -
  obtain key where a: "adopt_or_generate P L allow ev legacy w = (Inr key, w)"
    using assms(5) by (auto simp: seed_keychain_def adopt_or_generate_def elim!: bindS_cases)
  have len: "length key = KEY_LEN"
    using a assms(3,4) read_key_file_length
    by (auto simp: adopt_or_generate_def bindE_eq_Inr split: option.splits if_splits)
  obtain ok kr where st: "keychain_store P R kc key (kw_keyring w) = (ok, kr)" by fastforce
  have kr: "kr = kw_keyring w" if "\<not> ok" using st that assms(2)
    by (auto simp: keychain_store_def keyring_laws_def split: keychain.splits)
  have retire: "kw_keyring v = kw_keyring u" if "retire_matching_legacy_key P L key u = (q, v)" for q and u v :: "('a, 'b) key_world_scheme"
    using retire_matching_cases [OF that] by auto
  show ?thesis
  proof (cases ok)
    case True
    from assms(5) obtain u where "keychain_get P R kc kr = KeyHeld key" "retire_matching_legacy_key P L key (w\<lparr>kw_keyring := kr\<rparr>) = (Inr u, t)"
      "k = key" "src = FromKeychain"
      unfolding seed_keychain_step [OF a st] Let_def using True by (auto split: ladder_splits)
    with retire [of "w\<lparr>kw_keyring := kr\<rparr>" "Inr u" t] show ?thesis by simp
  next
    case False
    have kw: "w\<lparr>kw_keyring := kr\<rparr> = w" using kr [OF False] by simp
    from assms(5) show ?thesis
      unfolding seed_keychain_step [OF a st] Let_def kw using False
      by (auto dest: publish_master_Inr [OF assms(1) len] split: sum.splits option.splits if_splits prod.splits)
  qed
qed

lemma load_durable:
  assumes "b64_laws P" "keyring_laws R" "length (ld_generated L) = KEY_LEN"
    and "load_master_key_guarded P R kc L env allow ev w = (Inr (k, src), t)"
  shows "case src of
      FromEnv \<Rightarrow> env \<noteq> None \<and> decode_key P (the env) = Some k \<and> t = w
    | FromKeychain \<Rightarrow> env = None \<and> keychain_get P R kc (kw_keyring t) = KeyHeld k
    | FromFile \<Rightarrow> env = None \<and> allow \<and> read_key_file P (kp_master (kw_paths t)) = Inr (Some k)
        \<and> (keychain_get P R kc (kw_keyring t) = KeychainEmpty \<or> keychain_get P R kc (kw_keyring t) = KeychainUnavailable)"
proof (cases env)
  case (Some e)
  with assms(4) show ?thesis by (auto simp: load_env_step split: option.splits)
next
  case None
  from assms(4) None obtain legacy where lg: "read_key_file P (kp_legacy (kw_paths w)) = Inr legacy"
    by (auto simp: load_step split: sum.splits)
  have len: "length l = KEY_LEN" if "legacy = Some l" for l using lg that by (simp add: read_key_file_length)
  show ?thesis
  proof (cases "keychain_get P R kc (kw_keyring w)")
    case (KeyHeld key)
    with assms(4) None lg show ?thesis
      by (auto simp: load_step split: prod.splits sum.splits dest!: retire_matching_cases)
  next
    case KeychainEmpty
    with assms(4) None lg have "seed_keychain P R kc L allow ev legacy w = (Inr (k, src), t)"
      by (simp add: load_step)
    from seed_keychain_Inr [OF assms(1-3) len this] KeychainEmpty None show ?thesis by auto
  next
    case KeychainCorrupt
    with assms(4) None lg show ?thesis by (simp add: load_step)
  next
    case KeychainUnavailable
    with assms(4) None lg have f: "file_fallback P L allow ev legacy w = (Inr (k, src), t)"
      by (simp add: load_step)
    have "src = FromFile" "allow" "read_key_file P (kp_master (kw_paths t)) = Inr (Some k)" "kw_keyring t = kw_keyring w"
      using f unfolding file_fallback_step
      by (auto dest: publish_master_Inr [OF assms(1) assms(3)] publish_master_Inr [OF assms(1) len] split: ladder_splits)
    with KeychainUnavailable None show ?thesis by simp
  qed
qed

text \<open>
  A resolved key is where it was resolved from: in the environment, in the keychain, which read it
  back, or in the key file, also when another process published its own key first. A restart under the
  same conditions never resolves another key.
\<close>

theorem resolved_key_survives_restart:
  assumes "b64_laws P" "keyring_laws R" "length (ld_generated L) = KEY_LEN"
    and "load_master_key_guarded P R kc L env allow ev w = (Inr (k, src), t)"
    and "load_master_key_guarded P R kc L' env allow ev' t = (Inr (k', src'), t')"
  shows "k' = k \<and> (case src of
      FromEnv \<Rightarrow> env \<noteq> None \<and> decode_key P (the env) = Some k \<and> t = w
    | FromKeychain \<Rightarrow> keychain_get P R kc (kw_keyring t) = KeyHeld k
    | FromFile \<Rightarrow> read_key_file P (kp_master (kw_paths t)) = Inr (Some k))"
proof (cases src)
  case FromEnv
  with load_durable [OF assms(1-4)] assms(5) show ?thesis by (auto simp: load_env_step split: option.splits)
next
  case FromKeychain
  with load_durable [OF assms(1-4)] assms(5) show ?thesis
    by (auto simp: load_step split: prod.splits sum.splits)
next
  case FromFile
  with load_durable [OF assms(1-4)] have d: "env = None" "allow" "read_key_file P (kp_master (kw_paths t)) = Inr (Some k)"
    "keychain_get P R kc (kw_keyring t) = KeychainEmpty \<or> keychain_get P R kc (kw_keyring t) = KeychainUnavailable" by auto
  from file_key_again [OF assms(5) [unfolded d(1)] d(2-4)] d(3) FromFile show ?thesis by simp
qed

text \<open>
  C20. No key is made up over sealed data: when the generation guard finds a reason, a resolved key is
  the environment's, one the keychain or the folder already held, or the one another process published.
\<close>

theorem no_key_over_sealed_data:
  assumes "load_master_key_guarded P R kc L env allow (Some reason) w = (Inr (k, src), t)"
  shows "env \<noteq> None \<and> decode_key P (the env) = Some k \<or> held P R kc k w \<or> read_key_file P (ld_rival L) = Inr (Some k)"
proof (cases env)
  case (Some e)
  with assms show ?thesis by (auto simp: load_env_step split: option.splits)
next
  case None
  then obtain legacy where lg: "read_key_file P (kp_legacy (kw_paths w)) = Inr legacy"
    using assms by (auto simp: load_step split: sum.splits)
  have pub: "key = k \<or> read_key_file P (ld_rival L) = Inr (Some k) \<or> read_key_file P (kp_master (kw_paths v)) = Inr (Some k)"
    if "publish_master P L key v = (Inr k, u)" for key u and v :: "('a, 'b) key_world_scheme"
    using that by (auto simp: publish_master_def write_key_file_def Let_def bindE_eq_Inr ok_or_def split: if_splits option.splits)
  show ?thesis
  proof (cases "keychain_get P R kc (kw_keyring w)")
    case KeychainEmpty
    with assms None lg have s: "seed_keychain P R kc L allow (Some reason) legacy w = (Inr (k, src), t)"
      by (simp add: load_step)
    then obtain key where a: "adopt_or_generate P L allow (Some reason) legacy w = (Inr key, w)"
      by (auto simp: seed_keychain_def adopt_or_generate_def elim!: bindS_cases)
    then have key: "held P R kc key w" using lg
      by (auto simp: adopt_or_generate_def held_def bindE_eq_Inr split: option.splits if_splits)
    obtain ok kr where st: "keychain_store P R kc key (kw_keyring w) = (ok, kr)" by fastforce
    from s key pub [of key "w\<lparr>kw_keyring := kr\<rparr>"] show ?thesis
      unfolding seed_keychain_step [OF a st] Let_def
      by (auto simp: held_def split: ladder_splits)
  next
    case KeychainUnavailable
    from assms None lg KeychainUnavailable show ?thesis
      using pub [of _ w t] by (fastforce simp: load_step file_fallback_step held_def split: ladder_splits)
  qed (use assms None lg in \<open>auto simp: load_step held_def split: prod.splits sum.splits\<close>)
qed

end
