(* ===== verification/Key_Custody.thy ===== *)
theory Key_Custody
  imports Key_Ladder
begin

text \<open>
  crates/core/crypto/src/custody.rs: which key is the data folder's. The folder records the key check
  value (KCV) of the key that sealed it and an index of retired keys; resolution checks the ladder's key
  against the record and recovers another candidate when it does not match. A JSON file is what serde
  reads from it.
\<close>

section \<open>Records on disk\<close>

record kcv_record =
  kv_kcv :: string
  kv_custody :: string
  kv_written_at :: int

record retired_entry =
  re_kcv :: string
  re_custody :: string
  re_retired_at :: int

record data_format =
  df_format :: int
  df_min_reader :: int

definition DATA_FORMAT :: int where "DATA_FORMAT = 2"
definition SUPPORTED_MIN_READER :: int where "SUPPORTED_MIN_READER = 2"
definition MAX_RETIRED_KEYS :: nat where "MAX_RETIRED_KEYS = 4"

datatype 'a json_file = NoJson | BrokenJson | Json 'a

definition read_json :: "'a json_file \<Rightarrow> custody_error + 'a option" where
  "read_json f = (case f of NoJson \<Rightarrow> Inr None | BrokenJson \<Rightarrow> Inl RecordIO | Json x \<Rightarrow> Inr (Some x))"

text \<open>The keyring and the key files, and the records of the folder; \<open>secrets/retired/<kcv>.key\<close> by KCV.\<close>

record 'k custody_world = "'k key_world" +
  cw_kcv :: "kcv_record json_file"
  cw_index :: "retired_entry list json_file"
  cw_format :: "data_format json_file"
  cw_retired :: "string \<Rightarrow> key_file"

text \<open>What one operation draws: the ladder's draws, the clock in seconds, which file operations fail, and
  the key file another process publishes meanwhile where a retired key is written.\<close>

record custody_draws =
  cd_ladder :: ladder_draws
  cd_now :: int
  cd_fails :: "nat \<Rightarrow> bool"
  cd_rival :: key_file

text \<open>A file replaced by a temporary one: written whole, or left as it was.\<close>

definition write_atomic :: "custody_draws \<Rightarrow> nat \<Rightarrow> ('s \<Rightarrow> 's) \<Rightarrow> ('s, custody_error, unit) op" where
  "write_atomic D site write w = (if cd_fails D site then (Inl RecordIO, w) else (Inr (), write w))"

definition write_kcv_record :: "custody_draws \<Rightarrow> nat \<Rightarrow> string \<Rightarrow> string \<Rightarrow> ('k custody_world, custody_error, unit) op" where
  "write_kcv_record D site kcv custody = write_atomic D site (\<lambda>w. w\<lparr>cw_kcv :=
     Json \<lparr>kv_kcv = kcv, kv_custody = custody, kv_written_at = cd_now D\<rparr>\<rparr>)"

definition read_retired_index :: "'k custody_world \<Rightarrow> custody_error + retired_entry list" where
  "read_retired_index w = bindE (read_json (cw_index w)) (\<lambda>i. Inr (case i of Some keys \<Rightarrow> keys | None \<Rightarrow> []))"

definition write_retired_index :: "custody_draws \<Rightarrow> nat \<Rightarrow> retired_entry list \<Rightarrow> ('k custody_world, custody_error, unit) op" where
  "write_retired_index D site keys = write_atomic D site (\<lambda>w. w\<lparr>cw_index := Json keys\<rparr>)"

definition check_data_format :: "'k custody_world \<Rightarrow> custody_error + unit" where
  "check_data_format w = bindE (read_json (cw_format w)) (\<lambda>marker. case marker of
     Some m \<Rightarrow> if df_min_reader m > SUPPORTED_MIN_READER then Inl NewerFormat else Inr ()
   | None \<Rightarrow> Inr ())"

definition write_data_format :: "custody_draws \<Rightarrow> ('k custody_world, custody_error, unit) op" where
  "write_data_format D w = (case check_data_format w of
     Inl e \<Rightarrow> (Inl e, w)
   | Inr _ \<Rightarrow> (case read_json (cw_format w) of
       Inl e \<Rightarrow> (Inl e, w)
     | Inr current \<Rightarrow>
         if (case current of Some m \<Rightarrow> df_format m \<ge> DATA_FORMAT \<and> df_min_reader m \<ge> SUPPORTED_MIN_READER | None \<Rightarrow> False)
         then (Inr (), w)
         else write_atomic D 0 (\<lambda>w. w\<lparr>cw_format :=
           Json \<lparr>df_format = DATA_FORMAT, df_min_reader = SUPPORTED_MIN_READER\<rparr>\<rparr>) w))"

section \<open>Inputs\<close>

datatype key_probe = ProbePassed | NoSealedData | ProbeRejected

record custody_inputs =
  ci_env :: "string option"
  ci_keychain :: keychain
  ci_keychain_enabled :: bool
  ci_allow_file :: bool
  ci_records_kcv :: bool
  ci_account_base :: string
  ci_probe :: "field_cipher \<Rightarrow> key_probe"
  ci_host_evidence :: "string option"
  ci_store_evidence :: "string option"

text \<open>What the host and the process's environment say; \<open>os_keychain\<close> is the build's feature. Without it an
  account of the OS keychain reads as unavailable and never stores, like the disabled keychain.\<close>

record crypto_host =
  ch_suffix :: string
  ch_allow_file_key :: bool
  ch_records_kcv :: bool
  ch_probe :: "field_cipher \<Rightarrow> key_probe"
  ch_evidence :: "string option"
  ch_store_evidence :: "string option"

definition ENV_KEYCHAIN :: string where "ENV_KEYCHAIN = ''RYU_KEYCHAIN''"

definition keychain_disabled :: "env \<Rightarrow> bool" where
  "keychain_disabled e = (case e ENV_KEYCHAIN of Some v \<Rightarrow> eq_ignore_ascii_case (trim v) ''off'' | None \<Rightarrow> False)"

definition host_inputs :: "bool \<Rightarrow> crypto_host \<Rightarrow> env \<Rightarrow> custody_inputs option" where
  "host_inputs os_keychain host e =
     (let account = KEYRING_ACCOUNT @ ch_suffix host;
          env_value = (case e ENV_MASTER_KEY of Some v \<Rightarrow> if trim v \<noteq> [] then Some v else None | None \<Rightarrow> None);
          disabled = keychain_disabled e in
      if \<not> os_keychain \<and> \<not> require_explicit_custody_without_keychain (env_value \<noteq> None) disabled then None
      else Some \<lparr>ci_env = env_value,
        ci_keychain = (if disabled \<or> \<not> os_keychain then DisabledKeychain else OsKeychain account),
        ci_keychain_enabled = (\<not> disabled \<and> os_keychain),
        ci_allow_file = ch_allow_file_key host, ci_records_kcv = ch_records_kcv host,
        ci_account_base = account, ci_probe = ch_probe host,
        ci_host_evidence = ch_evidence host, ci_store_evidence = ch_store_evidence host\<rparr>)"

definition host_sealed_evidence :: "custody_inputs \<Rightarrow> 'k custody_world \<Rightarrow> string option" where
  "host_sealed_evidence I w = (case ci_host_evidence I of
     Some reason \<Rightarrow> Some reason
   | None \<Rightarrow> if (case read_retired_index w of Inr keys \<Rightarrow> keys \<noteq> [] | Inl _ \<Rightarrow> False)
       then Some ''retired master keys are recorded'' else ci_store_evidence I)"

section \<open>The vault of retired keys\<close>

definition retired_account :: "custody_inputs \<Rightarrow> string \<Rightarrow> keychain" where
  "retired_account I kcv = OsKeychain (ci_account_base I @ '':retired:'' @ kcv)"

definition vault_load :: "platform \<Rightarrow> 'k keyring \<Rightarrow> custody_inputs \<Rightarrow> retired_entry \<Rightarrow> 'k custody_world \<Rightarrow> custody_error + byte list" where
  "vault_load P R I entry w =
     bindE (if re_custody entry = ''keychain'' then
         (if \<not> ci_keychain_enabled I then Inl NoCandidate
          else (case keychain_get P R (retired_account I (re_kcv entry)) (kw_keyring w) of
              KeyHeld key \<Rightarrow> Inr key | _ \<Rightarrow> Inl NoCandidate))
       else bindE (read_key_file P (cw_retired w (re_kcv entry))) (ok_or NoCandidate))
     (\<lambda>key. if key_check_value P key \<noteq> re_kcv entry then Inl KeyMismatch else Inr key)"

definition vault_load_all :: "platform \<Rightarrow> 'k keyring \<Rightarrow> custody_inputs \<Rightarrow> 'k custody_world \<Rightarrow> (retired_entry \<times> byte list) list" where
  "vault_load_all P R I w = (case read_retired_index w of
     Inl _ \<Rightarrow> []
   | Inr entries \<Rightarrow> List.map_filter (\<lambda>entry. case vault_load P R I entry w of
       Inr key \<Rightarrow> Some (entry, key) | Inl _ \<Rightarrow> None) entries)"

text \<open>The keychain part of \<open>retire\<close>: whether the slot took the key and reads it back.\<close>

definition retire_in_keychain :: "platform \<Rightarrow> 'k keyring \<Rightarrow> custody_inputs \<Rightarrow> byte list \<Rightarrow> ('k custody_world, custody_error, bool) op" where
  "retire_in_keychain P R I key = (let slot = retired_account I (key_check_value P key) in
     bindS (store_in_keychain P R slot key) (\<lambda>stored.
     bindS getS (\<lambda>w. retS (stored \<and> keychain_get P R slot (kw_keyring w) = KeyHeld key))))"

text \<open>The file part: the directory, then the key file unless one is there.\<close>

definition retire_in_file :: "platform \<Rightarrow> custody_draws \<Rightarrow> nat \<Rightarrow> byte list \<Rightarrow> ('k custody_world, custody_error, unit) op" where
  "retire_in_file P D site key w = (let kcv = key_check_value P key in
     if cd_fails D site then (Inl RecordIO, w)
     else (case read_key_file P (cw_retired w kcv) of
         Inl e \<Rightarrow> (Inl e, w)
       | Inr (Some _) \<Rightarrow> (Inr (), w)
       | Inr None \<Rightarrow>
           (case write_key_file P (cd_fails D (site + 1), cd_fails D (site + 2)) (cd_rival D) key (cw_retired w kcv) of
              (r, f) \<Rightarrow> (bindE r (\<lambda>_. Inr ()), w\<lparr>cw_retired := (cw_retired w)(kcv := f)\<rparr>))))"

definition vault_retire ::
  "platform \<Rightarrow> 'k keyring \<Rightarrow> custody_inputs \<Rightarrow> custody_draws \<Rightarrow> nat \<Rightarrow> byte list \<Rightarrow> bool \<Rightarrow>
   ('k custody_world, custody_error, retired_entry) op" where
  "vault_retire P R I D site key prefer_keychain = (let kcv = key_check_value P key in
     bindS getS (\<lambda>w.
     bindS (liftE (read_retired_index w)) (\<lambda>index.
     case find (\<lambda>entry. re_kcv entry = kcv) index of
       Some existing \<Rightarrow> retS existing
     | None \<Rightarrow>
         if length index \<ge> MAX_RETIRED_KEYS then failS RetiredSetFull
         else bindS (if prefer_keychain \<and> ci_keychain_enabled I then retire_in_keychain P R I key else retS False) (\<lambda>stored.
           bindS (if stored then retS () else retire_in_file P D site key) (\<lambda>_.
           let entry = \<lparr>re_kcv = kcv, re_custody = (if stored then ''keychain'' else ''file''), re_retired_at = cd_now D\<rparr> in
           bindS (write_retired_index D (site + 3) (index @ [entry])) (\<lambda>_. retS entry))))))"

section \<open>Candidates\<close>

datatype key_source_kind = KindEnv | KindKeychain | KindFile | KindLegacyMemory | KindRetired string

fun kind_name :: "key_source_kind \<Rightarrow> string" where
  "kind_name KindEnv = ''env''"
| "kind_name KindKeychain = ''keychain''"
| "kind_name KindFile = ''file''"
| "kind_name KindLegacyMemory = ''memory''"
| "kind_name (KindRetired kcv) = ''retired:'' @ kcv"

definition kind_custody :: "key_source_kind \<Rightarrow> master_key_source" where
  "kind_custody k = (case k of KindEnv \<Rightarrow> FromEnv | KindKeychain \<Rightarrow> FromKeychain | _ \<Rightarrow> FromFile)"

definition candidates :: "platform \<Rightarrow> 'k keyring \<Rightarrow> custody_inputs \<Rightarrow> 'k custody_world \<Rightarrow> (key_source_kind \<times> byte list) list" where
  "candidates P R I w =
     (case Option.bind (ci_env I) (decode_key P) of Some key \<Rightarrow> [(KindEnv, key)] | None \<Rightarrow> [])
   @ (case keychain_get P R (ci_keychain I) (kw_keyring w) of KeyHeld key \<Rightarrow> [(KindKeychain, key)] | _ \<Rightarrow> [])
   @ (case read_key_file P (kp_master (kw_paths w)) of Inr (Some key) \<Rightarrow> [(KindFile, key)] | _ \<Rightarrow> [])
   @ (case read_key_file P (kp_legacy (kw_paths w)) of Inr (Some key) \<Rightarrow> [(KindLegacyMemory, key)] | _ \<Rightarrow> [])
   @ map (\<lambda>(entry, key). (KindRetired (re_kcv entry), key)) (vault_load_all P R I w)"

section \<open>Resolution\<close>

datatype master_key_health = HealthOk | RecoveredFrom string | HealthMismatch | Unresolved

record resolution =
  res_key :: "byte list"
  res_source :: master_key_source
  res_retired :: "byte list list"
  res_health :: master_key_health

definition guard_evidence :: "custody_inputs \<Rightarrow> kcv_record option \<Rightarrow> 'k custody_world \<Rightarrow> string option" where
  "guard_evidence I recorded w = (case recorded of
     Some r \<Rightarrow> Some (''a key check value is recorded ('' @ kv_kcv r @ '')'')
   | None \<Rightarrow> host_sealed_evidence I w)"

definition retired_except :: "(retired_entry \<times> byte list) list \<Rightarrow> byte list \<Rightarrow> byte list list" where
  "retired_except all key = filter (\<lambda>k. k \<noteq> key) (map snd all)"

definition recovered :: "(retired_entry \<times> byte list) list \<Rightarrow> key_source_kind \<times> byte list \<Rightarrow> resolution" where
  "recovered all c = \<lparr>res_key = snd c, res_source = kind_custody (fst c), res_retired = retired_except all (snd c),
     res_health = RecoveredFrom (kind_name (fst c))\<rparr>"

definition keep_primary :: "byte list \<Rightarrow> resolution \<Rightarrow> resolution" where
  "keep_primary primary r = (if primary \<in> set (res_retired r) then r else r\<lparr>res_retired := res_retired r @ [primary]\<rparr>)"

text \<open>A mismatched key that is not the operator's is kept in the vault; failing to is only logged.\<close>

definition retire_mismatched ::
  "platform \<Rightarrow> 'k keyring \<Rightarrow> custody_inputs \<Rightarrow> custody_draws \<Rightarrow> byte list \<Rightarrow> master_key_source \<Rightarrow> 'k custody_world \<Rightarrow> 'k custody_world" where
  "retire_mismatched P R I D primary source w =
     (if source \<noteq> FromEnv then snd (vault_retire P R I D 0 primary (source = FromKeychain) w) else w)"

definition resolve_recorded ::
  "platform \<Rightarrow> 'k keyring \<Rightarrow> custody_inputs \<Rightarrow> custody_draws \<Rightarrow> kcv_record \<Rightarrow> (retired_entry \<times> byte list) list \<Rightarrow> byte list \<Rightarrow>
   master_key_source \<Rightarrow> ('k custody_world, custody_error, resolution) op" where
  "resolve_recorded P R I D record all primary source w =
     (if kv_kcv record = key_check_value P primary
      then (Inr \<lparr>res_key = primary, res_source = source, res_retired = retired_except all primary, res_health = HealthOk\<rparr>, w)
      else if source = FromEnv \<and> \<not> list_ex (\<lambda>(entry, _). re_kcv entry = key_check_value P primary) all
      then (Inl KeyMismatch, w)
      else (case find (\<lambda>(_, key). key_check_value P key = kv_kcv record) (candidates P R I w) of
          None \<Rightarrow> (Inl KeyMismatch, w)
        | Some c \<Rightarrow> (Inr (keep_primary primary (recovered all c)), retire_mismatched P R I D primary source w)))"

definition resolve_unrecorded ::
  "platform \<Rightarrow> 'k keyring \<Rightarrow> custody_inputs \<Rightarrow> custody_draws \<Rightarrow> (retired_entry \<times> byte list) list \<Rightarrow> byte list \<Rightarrow>
   master_key_source \<Rightarrow> ('k custody_world, custody_error, resolution) op" where
  "resolve_unrecorded P R I D all primary source w =
     (let resolved = \<lparr>res_key = primary, res_source = source, res_retired = retired_except all primary, res_health = HealthOk\<rparr> in
      if \<not> ci_records_kcv I then (Inr resolved, w)
      else if ci_probe I (field_new primary) \<noteq> ProbeRejected
      then bindS (write_kcv_record D 4 (key_check_value P primary)
          (source_text (effective_source P source primary (kw_paths w)))) (\<lambda>_. retS resolved) w
      else (case find (\<lambda>(_, key). key \<noteq> primary \<and> ci_probe I (field_new key) = ProbePassed) (candidates P R I w) of
          None \<Rightarrow> (Inl KeyMismatch, w)
        | Some c \<Rightarrow> bindS (write_kcv_record D 4 (key_check_value P (snd c)) (kind_name (fst c)))
            (\<lambda>_. retS (keep_primary primary (recovered all c))) (retire_mismatched P R I D primary source w)))"

definition resolve :: "platform \<Rightarrow> 'k keyring \<Rightarrow> custody_inputs \<Rightarrow> custody_draws \<Rightarrow> ('k custody_world, custody_error, resolution) op" where
  "resolve P R I D =
     bindS getS (\<lambda>w.
     bindS (liftE (check_data_format w)) (\<lambda>_.
     bindS (liftE (read_json (cw_kcv w))) (\<lambda>recorded w.
     case load_master_key_guarded P R (ci_keychain I) (cd_ladder D) (ci_env I) (ci_allow_file I) (guard_evidence I recorded w) w of
       (Inl e, w) \<Rightarrow> (case recorded of
           None \<Rightarrow> (Inl e, w)
         | Some record \<Rightarrow> (case find (\<lambda>(_, key). key_check_value P key = kv_kcv record) (candidates P R I w) of
             None \<Rightarrow> (Inl e, w)
           | Some c \<Rightarrow> (Inr (recovered (vault_load_all P R I w) c), w)))
     | (Inr (primary, source), w) \<Rightarrow> (let all = vault_load_all P R I w in
         case recorded of
           Some record \<Rightarrow> resolve_recorded P R I D record all primary source w
         | None \<Rightarrow> resolve_unrecorded P R I D all primary source w))))"

section \<open>The process's key\<close>

text \<open>The once-cells of a process: what \<open>global_cipher\<close> resolved, and the health of the last resolution.\<close>

record global_key =
  gk_resolved :: "(field_cipher \<times> byte list \<times> byte list list \<times> master_key_source) option"
  gk_health :: master_key_health

definition global_cipher ::
  "platform \<Rightarrow> 'k keyring \<Rightarrow> custody_inputs \<Rightarrow> custody_draws \<Rightarrow> (global_key \<times> 'k custody_world, custody_error, field_cipher) op" where
  "global_cipher P R I D s = (case s of (g, w) \<Rightarrow> (case gk_resolved g of
     Some (cipher, _) \<Rightarrow> (Inr cipher, s)
   | None \<Rightarrow> (case resolve P R I D w of
       (Inl e, w) \<Rightarrow> (Inl e, (if e = KeyMismatch then g\<lparr>gk_health := HealthMismatch\<rparr> else g, w))
     | (Inr r, w) \<Rightarrow> (let cipher = with_retired (res_retired r) (field_new (res_key r)) in
         (Inr cipher, (g\<lparr>gk_resolved := Some (cipher, res_key r, res_retired r,
             effective_source P (res_source r) (res_key r) (kw_paths w)), gk_health := res_health r\<rparr>, w))))))"

definition resolved_master_and_retired ::
  "platform \<Rightarrow> 'k keyring \<Rightarrow> custody_inputs \<Rightarrow> custody_draws \<Rightarrow> (global_key \<times> 'k custody_world, custody_error, byte list \<times> byte list list) op" where
  "resolved_master_and_retired P R I D =
     bindS (global_cipher P R I D) (\<lambda>_ (g, w). case gk_resolved g of
       Some (_, master, retired, _) \<Rightarrow> (Inr (master, retired), g, w)
     | None \<Rightarrow> (Inl NoCandidate, g, w))"

text \<open>The backup of the master key; the wrapping cipher's nonce is \<open>n\<close>.\<close>

definition seal_backup_master_key ::
  "platform \<Rightarrow> 'k keyring \<Rightarrow> custody_inputs \<Rightarrow> custody_draws \<Rightarrow> field_cipher \<Rightarrow> byte list \<Rightarrow>
   (global_key \<times> 'k custody_world, custody_error, crypto_error + string) op" where
  "seal_backup_master_key P R I D wrapping n =
     bindS (resolved_master_and_retired P R I D) (\<lambda>(key, _). retS (field_seal P wrapping (b64_encode P key) n))"

fun health_text :: "master_key_health \<Rightarrow> string" where
  "health_text Unresolved = ''unresolved''"
| "health_text HealthOk = ''ok''"
| "health_text (RecoveredFrom src) = ''recovered_from_'' @ src"
| "health_text HealthMismatch = ''mismatch''"

text \<open>The report of a key's custody: which of the two paths it names.\<close>

definition KEYRING_SERVICE :: string where "KEYRING_SERVICE = ''ryu''"

datatype key_path = MasterPath | LegacyPath

record key_custody =
  kcu_source :: master_key_source
  kcu_env_var :: string
  kcu_service :: string
  kcu_account :: string
  kcu_key_file :: "key_path option"
  kcu_legacy_present :: bool

definition key_file_of :: "platform \<Rightarrow> byte list \<Rightarrow> key_paths \<Rightarrow> key_path option" where
  "key_file_of P key paths = (if read_key_file P (kp_master paths) = Inr (Some key) then Some MasterPath
     else if read_key_file P (kp_legacy paths) = Inr (Some key) then Some LegacyPath else None)"

definition key_custody ::
  "platform \<Rightarrow> 'k keyring \<Rightarrow> custody_inputs \<Rightarrow> custody_draws \<Rightarrow> (global_key \<times> 'k custody_world, custody_error, key_custody) op" where
  "key_custody P R I D =
     bindS (global_cipher P R I D) (\<lambda>_ (g, w). case gk_resolved g of
       None \<Rightarrow> (Inl NoCandidate, g, w)
     | Some (_, key, _, source) \<Rightarrow> (Inr \<lparr>kcu_source = source, kcu_env_var = ENV_MASTER_KEY, kcu_service = KEYRING_SERVICE,
         kcu_account = ci_account_base I,
         kcu_key_file = (if source = FromFile then Some (case key_file_of P key (kw_paths w) of Some p \<Rightarrow> p | None \<Rightarrow> MasterPath) else None),
         kcu_legacy_present = (kp_legacy (kw_paths w) \<noteq> NoFile)\<rparr>, g, w))"

end
