(* ===== verification/Store_Probes.thy ===== *)
theory Store_Probes
  imports Content_Sqlite Key_Custody
begin

text \<open>
  crates/core/crypto/src/content\_sqlite.rs, what key custody reads from the databases of a data folder: a
  sample of the sealed messages, to try a candidate key on, and the key check values stores record.
\<close>

definition PROBE_SAMPLES :: nat where "PROBE_SAMPLES = 3"

section \<open>Sealed messages\<close>

text \<open>
  The rows of the table of messages, by rowid, or None where the file or table is missing or not readable.
  The operator LIKE folds the case of ASCII letters; it takes a blob as text, while reading a string
  from a blob is an error and the row is left out. The text of a number never matches.
\<close>

type_synonym message_rows = "(int \<times> sql_value) list"

definition like_sealed :: "sql_value \<Rightarrow> bool" where
  "like_sealed v = (case v of
     Text s \<Rightarrow> starts_with (to_ascii_lowercase s) ENVELOPE_PREFIX
   | Blob b \<Rightarrow> starts_with (to_ascii_lowercase (of_bytes b)) ENVELOPE_PREFIX
   | _ \<Rightarrow> False)"

definition select_messages :: "bool \<Rightarrow> message_rows \<Rightarrow> message_rows" where
  "select_messages descending rows =
     (let sorted = sort_key fst (filter (\<lambda>r. like_sealed (snd r)) rows) in
      take PROBE_SAMPLES (if descending then rev sorted else sorted))"

definition text_rows :: "message_rows \<Rightarrow> (int \<times> string) list" where
  "text_rows rows = List.map_filter (\<lambda>(i, v). case v of Text s \<Rightarrow> Some (i, s) | _ \<Rightarrow> None) rows"

definition add_row :: "int \<times> string \<Rightarrow> (int \<times> string) list \<Rightarrow> (int \<times> string) list" where
  "add_row row sample = (if list_ex (\<lambda>r. fst r = fst row) sample then sample else sample @ [row])"

text \<open>The table as each of the two statements finds it.\<close>

definition sealed_message_sample :: "message_rows option \<Rightarrow> message_rows option \<Rightarrow> string list" where
  "sealed_message_sample first second = (case (first, second) of
     (Some newest, Some oldest) \<Rightarrow> map snd
       (fold add_row (text_rows (select_messages False oldest)) (fold add_row (text_rows (select_messages True newest)) []))
   | _ \<Rightarrow> [])"

definition probe_sealed_messages :: "platform \<Rightarrow> message_rows option \<Rightarrow> message_rows option \<Rightarrow> field_cipher \<Rightarrow> key_probe" where
  "probe_sealed_messages P first second cipher =
     (let sample = sealed_message_sample first second in
      if sample = [] then NoSealedData
      else if list_ex (\<lambda>stored. \<not> isl (field_open P cipher stored)) sample then ProbePassed
      else ProbeRejected)"

section \<open>Recorded key check values\<close>

text \<open>A directory: the extension of each file, if it has one, and the state table of the database in it.\<close>

type_synonym db_entry = "string option \<times> seal_row list option"

definition recorded_store_kcvs :: "db_entry list option \<Rightarrow> (string \<times> string) list" where
  "recorded_store_kcvs entries = concat (map (\<lambda>(extension, table).
     if extension = Some ''db'' then (case table of
         None \<Rightarrow> []
       | Some rows \<Rightarrow> List.map_filter (\<lambda>r. if sr_item r = STORE_ITEM then map_option (Pair (sr_store r)) (sr_kcv r) else None) rows)
     else []) (case entries of None \<Rightarrow> [] | Some es \<Rightarrow> es))"

text \<open>The evidence for sealed data that key custody takes from the stores.\<close>

definition store_evidence :: "db_entry list option \<Rightarrow> string option" where
  "store_evidence entries = (case recorded_store_kcvs entries of
     [] \<Rightarrow> None | (store, _) # _ \<Rightarrow> Some (store @ '' records a sealing key''))"

section \<open>Properties\<close>

lemma add_row_keeps: "r \<in> set sample \<Longrightarrow> r \<in> set (fold add_row rows sample)"
  by (induction rows arbitrary: sample) (auto simp: add_row_def)

lemma add_row_adds: "r \<in> set rows \<Longrightarrow> \<exists>q\<in>set (fold add_row rows sample). fst q = fst r"
proof (induction rows arbitrary: sample)
  case (Cons q rows)
  have "\<exists>p\<in>set (add_row q sample). fst p = fst q" by (auto simp: add_row_def list_ex_iff)
  then show ?case using Cons add_row_keeps [of _ "add_row q sample" rows] by (cases "r = q") auto
qed simp

lemma add_row_from: "q \<in> set (fold add_row rows sample) \<Longrightarrow> q \<in> set rows \<or> q \<in> set sample"
  by (induction rows arbitrary: sample) (force simp: add_row_def split: if_splits)+

lemma text_rows_iff: "(i, s) \<in> set (text_rows rows) \<longleftrightarrow> (i, Text s) \<in> set rows"
  by (induction rows) (auto simp: text_rows_def map_filter_def split: sql_value.splits)

lemma select_messages_from: "r \<in> set (select_messages d rows) \<Longrightarrow> r \<in> set rows \<and> like_sealed (snd r)"
  by (auto simp: select_messages_def Let_def dest!: in_set_takeD split: if_splits)

lemma sample_from:
  assumes "s \<in> set (sealed_message_sample (Some newest) (Some oldest))"
  shows "\<exists>i. ((i, Text s) \<in> set newest \<or> (i, Text s) \<in> set oldest) \<and> like_sealed (Text s)"
proof -
  obtain i where "(i, s) \<in> set (fold add_row (text_rows (select_messages False oldest)) (fold add_row (text_rows (select_messages True newest)) []))"
    using assms by (auto simp: sealed_message_sample_def)
  then have "(i, s) \<in> set (text_rows (select_messages False oldest))
      \<or> (i, s) \<in> set (fold add_row (text_rows (select_messages True newest)) [])"
    by (rule add_row_from)
  then have "(i, Text s) \<in> set (select_messages False oldest) \<or> (i, Text s) \<in> set (select_messages True newest)"
    using add_row_from [of "(i, s)" "text_rows (select_messages True newest)" "[]"] text_rows_iff by auto
  then show ?thesis using select_messages_from [of "(i, Text s)"] by auto
qed

text \<open>The newest sealed message is always tried.\<close>

lemma newest_selected:
  assumes "distinct (map fst rows)" "(i, v) \<in> set rows" "like_sealed v" "\<And>j w. (j, w) \<in> set rows \<Longrightarrow> like_sealed w \<Longrightarrow> j \<le> i"
  shows "(i, v) \<in> set (select_messages True rows)"
proof -
  let ?l = "filter (\<lambda>r. like_sealed (snd r)) rows"
  let ?s = "sort_key fst ?l"
  have ne: "?s \<noteq> []" and mem: "(i, v) \<in> set ?s" using assms(2,3) by (auto simp: filter_empty_conv simp flip: set_empty2)
  obtain j w where top: "last ?s = (j, w)" by fastforce
  have jw: "(j, w) \<in> set ?s" using last_in_set [OF ne] top by simp
  obtain k where k: "k < length ?s" "?s ! k = (i, v)" using mem by (metis in_set_conv_nth)
  have sorted: "sorted (map fst ?s)" by simp
  have "map fst ?s ! k \<le> map fst ?s ! (length ?s - 1)"
    using sorted_nth_mono [OF sorted, of k "length ?s - 1"] k(1) by simp
  then have "i \<le> j" using k top ne by (simp add: last_conv_nth)
  moreover have "j \<le> i" using assms(4) jw by auto
  ultimately have "v = w" using assms(1,2) jw eq_key_imp_eq_value [of rows i v w] by auto
  then have "last ?s = (i, v)" using top \<open>i \<le> j\<close> \<open>j \<le> i\<close> by simp
  then have "rev ?s = (i, v) # tl (rev ?s)" using ne by (metis hd_rev list.collapse rev_is_Nil_conv)
  then have "(i, v) \<in> set (take 3 (rev ?s))" by (metis list.set_intros(1) numeral_3_eq_3 take_Suc_Cons)
  then show ?thesis by (simp add: select_messages_def Let_def PROBE_SAMPLES_def)
qed

lemma sample_has_newest:
  assumes "(i, Text s) \<in> set (select_messages True newest)" "distinct (map fst newest)"
  shows "s \<in> set (sealed_message_sample (Some newest) (Some oldest))"
proof -
  have s: "(i, s) \<in> set (text_rows (select_messages True newest))" using assms(1) by (simp add: text_rows_iff)
  obtain q where q: "q \<in> set (fold add_row (text_rows (select_messages True newest)) [])" "fst q = i"
    using add_row_adds [OF s, of "[]"] by auto
  have "(i, Text (snd q)) \<in> set newest"
    using add_row_from [OF q(1)] text_rows_iff [of "fst q" "snd q"] select_messages_from q(2) by fastforce
  moreover have "(i, Text s) \<in> set newest" using select_messages_from [OF assms(1)] by simp
  ultimately have "snd q = s" using assms(2) eq_key_imp_eq_value by fastforce
  then show ?thesis
    using add_row_keeps [OF q(1)] q(2) by (force simp: sealed_message_sample_def)
qed

lemma newest_message_passes:
  assumes "distinct (map fst newest)" "(i, Text s) \<in> set newest" "like_sealed (Text s)"
    and "\<And>j v. (j, v) \<in> set newest \<Longrightarrow> like_sealed v \<Longrightarrow> j \<le> i" "field_open P cipher s = Inr m"
  shows "probe_sealed_messages P (Some newest) (Some oldest) cipher = ProbePassed"
proof -
  have "s \<in> set (sealed_message_sample (Some newest) (Some oldest))"
    by (rule sample_has_newest [OF newest_selected [OF assms(1-4)] assms(1)])
  then show ?thesis using assms(5) by (force simp: probe_sealed_messages_def Let_def list_ex_iff)
qed

lemma probe_passed_by:
  assumes "probe_sealed_messages P (Some newest) (Some oldest) cipher = ProbePassed"
  shows "\<exists>j t m. ((j, Text t) \<in> set newest \<or> (j, Text t) \<in> set oldest) \<and> like_sealed (Text t) \<and> field_open P cipher t = Inr m"
proof -
  obtain t where t: "t \<in> set (sealed_message_sample (Some newest) (Some oldest))" "\<not> isl (field_open P cipher t)"
    using assms by (auto simp: probe_sealed_messages_def Let_def list_ex_iff split: if_splits)
  then show ?thesis using sample_from [OF t(1)] by (metis sum.collapse(2))
qed

text \<open>
  C40. A message that is not sealed makes the probe pass every key: the statement matches the
  prefix in any case of letters, and a value without the exact prefix opens as it is under any key. One
  such message, newer than the sealed ones, and a wrong key is taken for the folder's.
\<close>

theorem unsealed_message_passes_every_key:
  assumes "distinct (map fst newest)" "(i, Text s) \<in> set newest" "\<not> field_is_sealed s"
    and "starts_with (to_ascii_lowercase s) ENVELOPE_PREFIX" "\<And>j v. (j, v) \<in> set newest \<Longrightarrow> like_sealed v \<Longrightarrow> j \<le> i"
  shows "probe_sealed_messages P (Some newest) (Some oldest) cipher = ProbePassed"
proof (rule newest_message_passes [OF assms(1,2) _ assms(5)])
  show "field_open P cipher s = Inr s"
    using assms(3) by (simp add: field_open_def field_is_sealed_def strip_prefix_def starts_with_def)
qed (use assms(4) in \<open>simp_all add: like_sealed_def\<close>)

end
