(* ===== verification/Sample_Compaction.thy ===== *)
theory Sample_Compaction
  imports Compaction_Queue Store_Probes Sample_Migration
begin

text \<open>
  A file that counts its free pages, all of them dirty until they are filled: the properties of
  compaction are applied to it, also after the interrupted migration.
\<close>

definition page_file :: "int pager" where
  "page_file = \<lparr>pg_free = (\<lambda>d. max 0 d), pg_page_size = (\<lambda>d. 4096), pg_checkpoint = (\<lambda>d. ((0, 2, 2), d)),
     pg_create = (\<lambda>d. d), pg_fill = (\<lambda>n d. max 0 (max 0 d - n div 4096)), pg_drop = (\<lambda>d. d), pg_vacuum = (\<lambda>d. 0),
     pg_file_size = (\<lambda>d. Some 100000)\<rparr>"

definition dirty_pages :: "int \<Rightarrow> int" where "dirty_pages d = max 0 d"

lemma page_file_sel [simp]: "pg_free page_file d = max 0 d" "pg_page_size page_file d = 4096" "pg_checkpoint page_file d = ((0, 2, 2), d)"
  "pg_create page_file d = d" "pg_fill page_file n d = max 0 (max 0 d - n div 4096)" "pg_drop page_file d = d"
  "pg_vacuum page_file d = 0" "pg_file_size page_file d = Some 100000"
  by (simp_all add: page_file_def)

lemma page_file_laws: "pager_laws page_file dirty_pages"
  by (simp add: pager_laws_def dirty_pages_def SCRUB_CHUNK_BYTES_def)

definition small_policy :: vacuum_policy where
  "small_policy = \<lparr>vp_now_max_bytes = 200000, vp_headroom_bytes = 1000\<rparr>"

definition roomy :: compaction_env where
  "roomy = \<lparr>ce_fails = (\<lambda>i. False), ce_free_space = (\<lambda>i. Some 400000), ce_now = 5\<rparr>"

text \<open>The steps of a run in which nothing fails.\<close>

abbreviation tick :: "int store_file \<Rightarrow> int store_file" where
  "tick s \<equiv> s\<lparr>sf_steps := Suc (sf_steps s)\<rparr>"

lemma roomy_stmt: "stmt roomy m s = m (tick s)"
  by (simp add: stmt_def roomy_def Let_def)

lemma on_disk_step: "on_disk f s = (Inr (), s\<lparr>sf_disk := f (sf_disk s)\<rparr>)"
  by (simp add: on_disk_def)

lemma ask_step: "ask f s = (Inr (f (sf_disk s)), s)"
  by (simp add: ask_def bindS_def)

lemma attempt_step: "m s = (Inr x, t) \<Longrightarrow> attempt m s = (Inr (Inr x), t)"
  by (simp add: attempt_def)

lemma secure_step: "set_secure_delete v s = (Inr (), s\<lparr>sf_conn := (sf_conn s)\<lparr>cn_secure_delete := v\<rparr>\<rparr>)"
  by (simp add: set_secure_delete_def on_conn_def map_err_def)

lemma roomy_checkpoint: "checkpoint_truncate roomy page_file s = (Inr (), tick s)"
  by (simp add: checkpoint_truncate_def CHECKPOINT_ATTEMPTS_def numeral_3_eq_3 roomy_stmt bindS_def)

lemma roomy_drop: "drop_scrub_table roomy page_file s
    = (Inr (), s\<lparr>sf_conn := (sf_conn s)\<lparr>cn_secure_delete := 1\<rparr>, sf_steps := Suc (Suc (Suc (Suc (sf_steps s))))\<rparr>)"
  by (simp add: drop_scrub_table_def bindS_def roomy_stmt secure_step on_disk_step attempt_def roomy_checkpoint liftE_def)

lemma roomy_room: "n \<le> 400000 \<Longrightarrow> has_room roomy n s = (Inr True, s)"
  by (simp add: has_room_def roomy_def bindS_def)

lemma roomy_fill: "fill_chunks roomy page_file small_policy 40960 s = (Inr True,
    s\<lparr>sf_disk := max 0 (max 0 (sf_disk s) - 10), sf_steps := Suc (Suc (sf_steps s))\<rparr>)"
  by (simp add: fill_chunks.simps [of _ _ _ 40960] fill_chunks.simps [of _ _ _ 0] Let_def SCRUB_CHUNK_BYTES_def roomy_room
      small_policy_def bindS_def roomy_stmt on_disk_step roomy_checkpoint)

lemma roomy_scrub: "sf_disk s = 10 \<Longrightarrow> \<exists>t. scrub_freelist roomy page_file small_policy s = (Inr (Some 10), t)
    \<and> sf_disk t = 0 \<and> sd_seal (cn_data (sf_conn t)) = sd_seal (cn_data (sf_conn s))"
  by (simp add: scrub_freelist_def bindS_def roomy_drop roomy_stmt ask_step on_disk_step attempt_def roomy_fill liftE_def)

lemma set_state_step: "sd_seal (cn_data (sf_conn s)) = Some rows \<Longrightarrow> \<exists>t. on_conn (set_store_state store st cur) s = (Inr (), t)"
  by (simp add: on_conn_def set_store_state_def write_rows_def seal_rows_def bindS_def ok_or_def map_err_def liftE_def)

lemma roomy_vacuum:
  assumes "sd_seal (cn_data (sf_conn s)) = Some rows"
  shows "\<exists>t. vacuum roomy page_file store s = (Inr (), t)"
  using set_state_step [of "tick (tick (tick (s\<lparr>sf_disk := 0\<rparr>)))" rows store OK None] assms
  by (simp add: vacuum_def bindS_def roomy_stmt on_disk_step roomy_checkpoint)

lemma roomy_inner:
  assumes row: "item_row ''s'' STORE_ITEM (sf_conn s) = (Inr (Some (VACUUM_PENDING, cur)), sf_conn s)"
    and "\<not> pc_scrubbed (pending_parse cur)" "sd_seal (cn_data (sf_conn s)) = Some rows" "sf_disk s = 10"
  shows "\<exists>t. finish_store_inner roomy page_file small_policy ''s'' s
    = (Inr \<lparr>fo_scrubbed_pages = 10, fo_vacuumed = True, fo_vacuum_pending = False\<rparr>, t)"
proof -
  obtain t where t: "scrub_freelist roomy page_file small_policy (tick (tick s)) = (Inr (Some 10), t)"
      "sd_seal (cn_data (sf_conn t)) = Some rows"
    using roomy_scrub [of "tick (tick s)"] assms(3,4) by auto
  obtain u where u: "vacuum roomy page_file ''s'' t = (Inr (), u)" using roomy_vacuum [OF t(2)] by blast
  have read: "row_of roomy ''s'' (tick s) = (Inr (Some (VACUUM_PENDING, cur)), tick (tick s))"
    by (simp add: row_of_def roomy_stmt on_conn_def row map_err_def)
  have fits: "vacuum_fits roomy small_policy 100000 t = (Inr True, t)"
    by (simp add: vacuum_fits_def roomy_room small_policy_def U64_MAX_def)
  have "store_size page_file t = (Inr 100000, t)" by (simp add: store_size_def ask_step)
  then show ?thesis
    by (simp add: finish_store_inner_def bindS_def roomy_checkpoint read [simplified] assms(2) Let_def t(1) [simplified] u fits
        small_policy_def [THEN arg_cong [where f = vp_now_max_bytes]])
qed

lemma owing_finishes:
  assumes "owes_scrub ''s'' c" "cn_secure_delete c = 1"
  shows "\<exists>t. finish_store_with roomy page_file small_policy ''s'' \<lparr>sf_conn = c, sf_disk = 10, sf_steps = 0\<rparr>
    = (Inr \<lparr>fo_scrubbed_pages = 10, fo_vacuumed = True, fo_vacuum_pending = False\<rparr>, t)"
proof -
  obtain r where r: "seal_at c ''s'' STORE_ITEM = Some r" "sr_state r = VACUUM_PENDING" "\<not> pc_scrubbed (pending_parse (sr_cursor r))"
    using assms(1) by (auto simp: owes_scrub_def)
  obtain rows where rows: "sd_seal (cn_data c) = Some rows" "find (for_item ''s'' STORE_ITEM) rows = Some r"
    using r(1) by (auto simp: seal_at_def bind_eq_Some_conv)
  let ?c = "if cn_busy_timeout c \<le> 0 then c\<lparr>cn_busy_timeout := 5000\<rparr> else c"
  let ?s = "\<lparr>sf_conn = ?c, sf_disk = 10, sf_steps = 3\<rparr>"
  have tables: "stmt roomy (on_conn require_secure_delete) \<lparr>sf_conn = c, sf_disk = (10::int), sf_steps = 0\<rparr>
      = (Inr (), \<lparr>sf_conn = c, sf_disk = 10, sf_steps = 1\<rparr>)"
    "stmt roomy (on_conn ensure_busy_timeout) \<lparr>sf_conn = c, sf_disk = (10::int), sf_steps = 1\<rparr>
      = (Inr (), \<lparr>sf_conn = ?c, sf_disk = 10, sf_steps = 2\<rparr>)"
    "stmt roomy (on_conn ensure_state_table) \<lparr>sf_conn = ?c, sf_disk = (10::int), sf_steps = 2\<rparr> = (Inr (), ?s)"
    by (simp_all add: roomy_stmt on_conn_def require_secure_delete_def bindS_def guardS_def guardE_def assms(2) map_err_def
        ensure_busy_timeout_def ensure_state_table_def on_data_def rows(1) liftE_def)
  have row: "item_row ''s'' STORE_ITEM (sf_conn ?s) = (Inr (Some (VACUUM_PENDING, sr_cursor r)), sf_conn ?s)"
    by (simp add: item_row_def seal_rows_def bindS_def ok_or_def rows r liftE_def)
  obtain t where "finish_store_inner roomy page_file small_policy ''s'' ?s
    = (Inr \<lparr>fo_scrubbed_pages = 10, fo_vacuumed = True, fo_vacuum_pending = False\<rparr>, t)"
    using roomy_inner [OF row r(3), of rows] rows(1) by (cases "cn_busy_timeout c \<le> 0") auto
  then show ?thesis
    by (simp only: finish_store_with_def bindS_def tables prod.case sum.case attempt_def retS_def) simp
qed

lemma owing_claims: "owes_scrub ''s'' c \<Longrightarrow> \<not> claims_clean c ''s''"
  by (auto simp: owes_scrub_def claims_clean_def OK_def VACUUM_PENDING_def)

definition owing_row :: seal_row where
  "owing_row = \<lparr>sr_store = ''s'', sr_item = STORE_ITEM, sr_state = VACUUM_PENDING,
     sr_cursor = None, sr_kcv = Some ''k'', sr_min_reader = 2\<rparr>"

definition owing :: "int store_file" where
  "owing = \<lparr>sf_conn = on_data (sd_seal_update (\<lambda>_. Some [owing_row])) note_store, sf_disk = 10, sf_steps = 0\<rparr>"

lemma owing_owes: "owes_scrub ''s'' (sf_conn owing)" "cn_secure_delete (sf_conn owing) = 1"
  by (simp_all add: owes_scrub_def owing_def on_data_def seal_at_def owing_row_def for_item_def pending_parse_def
      pending_default_def note_store_def)

lemma compaction_record_true_witness:
  "\<exists>t. finish_store_with roomy page_file small_policy ''s'' owing
      = (Inr \<lparr>fo_scrubbed_pages = 10, fo_vacuumed = True, fo_vacuum_pending = False\<rparr>, t)
    \<and> dirty_pages (sf_disk t) = 0 \<and> state_is ''s'' OK t"
proof -
  obtain t where t: "finish_store_with roomy page_file small_policy ''s'' owing
      = (Inr \<lparr>fo_scrubbed_pages = 10, fo_vacuumed = True, fo_vacuum_pending = False\<rparr>, t)"
    using owing_finishes [OF owing_owes] unfolding owing_def by auto
  have "recorded_clean dirty_pages ''s'' owing"
    using owing_claims [OF owing_owes(1)] by (simp add: recorded_clean_def)
  moreover have "is_i64 (ce_now roomy)" by (simp add: roomy_def is_i64_def)
  ultimately have "dirty_pages (sf_disk t) = 0 \<and> state_is ''s'' OK t"
    using compaction_record_true [OF page_file_laws, of roomy "''s''" owing small_policy _ t] t by fastforce
  with t show ?thesis by blast
qed

lemma note_cipher_store: "cc_store note_cipher = ''s''"
  by (simp add: note_cipher_def)

lemma stopped_secure: "map_option (\<lambda>(r, c). cn_secure_delete c) (note_run (\<lambda>i. i = 4)) = Some 1"
  by code_simp


section \<open>The queue and the probes\<close>

definition one_job :: "string compaction_queue" where
  "one_job = \<lparr>cq_jobs = [(''s'', ''s'')], cq_worker = True, cq_running = None\<rparr>"

definition job_running :: "string compaction_queue" where
  "job_running = \<lparr>cq_jobs = [], cq_worker = True, cq_running = Some ''s''\<rparr>"

lemma one_job_deferred: "calm_step spawns (compactions, NoThread) (one_job, Sleeping)"
  unfolding calm_step_def
  using defer_step [of True "''s''" "''s''" compactions True one_job spawns NoThread]
  by (simp add: defer_compaction_def Let_def compactions_def one_job_def)

lemma job_taken: "(calm_step True)\<^sup>*\<^sup>* (compactions, NoThread) (job_running, InJob ''s'' ''s'')"
proof -
  have "calm_step True (one_job, Sleeping) (one_job, Draining)" by (simp add: calm_step_def wake_step)
  moreover have "calm_step True (one_job, Draining) (job_running, InJob ''s'' ''s'')"
    unfolding calm_step_def by (intro disjI1 take_step) (simp add: pop_job_def one_job_def job_running_def)
  ultimately show ?thesis using one_job_deferred [of True] by (meson r_into_rtranclp rtranclp.rtrancl_into_rtrancl)
qed

lemma queued_compaction_has_worker_witness: "cq_worker one_job \<and> (\<exists>y. queue_step True (one_job, Sleeping) y \<and> Sleeping \<noteq> (NoThread :: string worker))"
  by (rule queued_compaction_has_worker [OF r_into_rtranclp [of "calm_step True", OF one_job_deferred]]) (simp add: one_job_def)

lemma panicked_job_strands_queue_witness:
  "calm_step True (job_running, NoThread) (snd (defer_compaction_with True ''t'' job_running), NoThread)
    \<and> cq_worker (snd (defer_compaction_with True ''t'' job_running))"
proof -
  let ?q = "snd (defer_compaction_with True ''t'' job_running)"
  have step: "calm_step True (job_running, NoThread) (?q, NoThread)"
    unfolding calm_step_def
    using defer_step [of True "''t''" "''t''" job_running False ?q True NoThread]
    by (simp add: defer_compaction_with_def defer_compaction_def Let_def job_running_def)
  have "NoThread = (NoThread :: string worker) \<and> cq_worker ?q"
    by (rule panicked_job_strands_queue [OF job_taken panic_step r_into_rtranclp [of "calm_step True", OF step]])
  with step show ?thesis by simp
qed

lemma unsealed_message_passes_every_key_witness:
  "probe_sealed_messages sample_platform (Some [(1, Text ''enc:v1:AAAA''), (2, Text ''Enc:v1: is our prefix'')]) (Some []) (field_new (replicate 32 7)) = ProbePassed"
  by (rule unsealed_message_passes_every_key [of _ 2 "''Enc:v1: is our prefix''"])
    (auto simp: char_of_def bit_simps field_is_sealed_def starts_with_def ENVELOPE_PREFIX_def to_ascii_lowercase_def ascii_lower_char_def eval_simps)

end
