(* ===== verification/App_Key.thy ===== *)
theory App_Key
  imports Key_Custody
begin

text \<open>
  crates/core/crypto/src/app\_key.rs: keys of apps, each in a slot of its own. A slot has a keychain
  account, one key file and the record of the key check value it resolved to. The ladder is the
  master key's; the record pins the key when the keychain and the file disagree.
\<close>

section \<open>Slots\<close>

definition DESKTOP :: string where "DESKTOP = ''desktop-seal-key''"

definition is_ascii_lowercase :: "nat \<Rightarrow> bool" where
  "is_ascii_lowercase n \<longleftrightarrow> 97 \<le> n \<and> n \<le> 122"

definition ends_with :: "string \<Rightarrow> string \<Rightarrow> bool" where
  "ends_with s p \<longleftrightarrow> length p \<le> length s \<and> drop (length s - length p) s = p"

datatype app_error = InvalidSlot | CollidesWithMaster | NoHost | ExplicitCustodyNeeded | LadderFailed custody_error
  | NotTheRecordedKey

definition validate_slot :: "string \<Rightarrow> app_error + unit" where
  "validate_slot slot =
     (if slot = [] \<or> length slot > 64
         \<or> \<not> list_all (\<lambda>c. is_ascii_lowercase (ord_of c) \<or> is_ascii_digit (ord_of c) \<or> c = CHR ''-'') slot
      then Inl InvalidSlot
      else if slot = KEYRING_ACCOUNT \<or> starts_with slot (KEYRING_ACCOUNT @ ''-'') then Inl CollidesWithMaster
      else Inr ())"

record app_key =
  ay_key :: "byte list"
  ay_retired :: "byte list list"

record app_kcv_record =
  av_kcv :: string
  av_custody :: string

text \<open>What one slot has: its keyring, \<open>secrets/<slot>.key\<close>, \<open>state/<slot>.kcv.json\<close> and the names in \<open>secrets/\<close>.\<close>

record 'k app_world =
  aw_keyring :: 'k
  aw_file :: key_file
  aw_record :: "app_kcv_record json_file"
  aw_secrets :: "string list"

text \<open>The draws of one resolution: those of the ladder, and whether writing the record fails.\<close>

record app_draws =
  al_ladder :: ladder_draws
  al_record_fails :: bool

definition app_key_paths :: "'k app_world \<Rightarrow> key_paths" where
  "app_key_paths w = \<lparr>kp_master = aw_file w, kp_legacy = aw_file w\<rparr>"

definition read_app_kcv :: "'k app_world \<Rightarrow> custody_error + string option" where
  "read_app_kcv w = bindE (read_json (aw_record w)) (\<lambda>record. Inr (map_option av_kcv record))"

text \<open>Writing the record is best effort.\<close>

definition write_app_kcv :: "app_draws \<Rightarrow> string \<Rightarrow> master_key_source \<Rightarrow> 'k app_world \<Rightarrow> 'k app_world" where
  "write_app_kcv D kcv source w =
     (if al_record_fails D then w
      else w\<lparr>aw_record := Json \<lparr>av_kcv = kcv, av_custody = source_text source\<rparr>\<rparr>)"

definition sealed_file_prefix :: "string \<Rightarrow> string option" where
  "sealed_file_prefix slot = (if slot = DESKTOP then Some ''desktop-'' else None)"

definition sealed_file_evidence :: "string \<Rightarrow> 'k app_world \<Rightarrow> string option" where
  "sealed_file_evidence slot w = Option.bind (sealed_file_prefix slot) (\<lambda>prefix.
     map_option (\<lambda>name. name @ '' holds sealed data'')
       (find (\<lambda>name. starts_with name prefix \<and> ends_with name ''.sealed'') (aw_secrets w)))"

section \<open>Resolution\<close>

text \<open>
  The ladder over the slot's account and file. Both of the ladder's paths are the one file: it reads
  the file before it changes either, and changes at most one of them.
\<close>

definition app_ladder ::
  "platform \<Rightarrow> 'k keyring \<Rightarrow> keychain \<Rightarrow> ladder_draws \<Rightarrow> string option \<Rightarrow> bool \<Rightarrow> string option \<Rightarrow>
   ('k app_world, app_error, byte list \<times> master_key_source) op" where
  "app_ladder P R kc L env allow_file evidence w =
     (case load_master_key_guarded P R kc L env allow_file evidence \<lparr>kw_keyring = aw_keyring w, kw_paths = app_key_paths w\<rparr> of
        (r, t) \<Rightarrow> (map_err LadderFailed r, w\<lparr>aw_keyring := kw_keyring t,
          aw_file := (if kp_legacy (kw_paths t) \<noteq> aw_file w then kp_legacy (kw_paths t) else kp_master (kw_paths t))\<rparr>))"

text \<open>
  \<open>ObservedKeychain\<close>: whether the ladder found the keychain unavailable, and the key it found or stored
  there when it answered. With the key in the environment it does not ask.
\<close>

definition observed_unavailable :: "platform \<Rightarrow> 'k keyring \<Rightarrow> keychain \<Rightarrow> string option \<Rightarrow> 'k app_world \<Rightarrow> bool" where
  "observed_unavailable P R kc env w \<longleftrightarrow> env = None \<and> keychain_get P R kc (aw_keyring w) = KeychainUnavailable"

definition observed_held :: "byte list \<times> master_key_source \<Rightarrow> byte list option" where
  "observed_held answer = (if snd answer = FromKeychain then Some (fst answer) else None)"

definition app_evidence :: "string \<Rightarrow> 'k app_world \<Rightarrow> string option" where
  "app_evidence slot w = (case read_app_kcv w of
       Inr (Some kcv) \<Rightarrow> Some (''a key check value is recorded ('' @ kcv @ '')'')
     | Inr None \<Rightarrow> sealed_file_evidence slot w
     | Inl e \<Rightarrow> Some ''the key check record is unreadable'')"

fun add_candidates :: "byte list list \<Rightarrow> byte list option list \<Rightarrow> byte list list" where
  "add_candidates keys [] = keys"
| "add_candidates keys (None # rest) = add_candidates keys rest"
| "add_candidates keys (Some k # rest) = add_candidates (if k \<in> set keys then keys else keys @ [k]) rest"

text \<open>The key the record pins, or the ladder's.\<close>

definition pinned_key ::
  "platform \<Rightarrow> string option \<Rightarrow> bool \<Rightarrow> byte list \<times> master_key_source \<Rightarrow> byte list list \<Rightarrow> app_error + byte list" where
  "pinned_key P recorded_kcv unavailable answer keys = (case answer of (ladder_key, source) \<Rightarrow>
     case recorded_kcv of
       Some kcv \<Rightarrow>
         if kcv \<noteq> key_check_value P ladder_key \<and> source \<noteq> FromEnv then
           (case find (\<lambda>k. key_check_value P k = kcv) keys of
              Some pinned \<Rightarrow> Inr pinned
            | None \<Rightarrow> if source = FromFile \<and> unavailable then Inl NotTheRecordedKey else Inr ladder_key)
         else Inr ladder_key
     | None \<Rightarrow> Inr ladder_key)"

definition resolve_app_key ::
  "platform \<Rightarrow> 'k keyring \<Rightarrow> keychain \<Rightarrow> app_draws \<Rightarrow> string \<Rightarrow> string option \<Rightarrow> bool \<Rightarrow> ('k app_world, app_error, app_key) op" where
  "resolve_app_key P R kc D slot env allow_file w0 =
     (let recorded = read_app_kcv w0;
          unavailable = observed_unavailable P R kc env w0;
          evidence = (if unavailable then app_evidence slot w0 else None) in
      bindS (app_ladder P R kc (al_ladder D) env allow_file evidence) (\<lambda>answer. bindS getS (\<lambda>w.
      let file_key = (if allow_file then (case read_key_file P (aw_file w) of Inr k \<Rightarrow> k | Inl _ \<Rightarrow> None) else None);
          keys = add_candidates [fst answer] [Option.bind env (decode_key P), observed_held answer, file_key];
          recorded_kcv = (case recorded of Inr r \<Rightarrow> r | Inl _ \<Rightarrow> None) in
      bindS (liftE (pinned_key P recorded_kcv unavailable answer keys)) (\<lambda>key.
      bindS (if recorded_kcv \<noteq> Some (key_check_value P key)
             then modifyS (write_app_kcv D (key_check_value P key) (snd answer)) else retS ()) (\<lambda>_.
      retS \<lparr>ay_key = key, ay_retired = filter (\<lambda>k. k \<noteq> key) keys\<rparr>)))) w0)"

section \<open>The process\<close>

text \<open>The keys a process has resolved, by slot, and the world of each slot.\<close>

record 'k app_process =
  ap_cache :: "string \<Rightarrow> app_key option"
  ap_world :: "string \<Rightarrow> 'k app_world"

definition app_keychain :: "bool \<Rightarrow> crypto_host \<Rightarrow> env \<Rightarrow> string \<Rightarrow> keychain" where
  "app_keychain os_keychain host e slot =
     (if keychain_disabled e \<or> \<not> os_keychain then DisabledKeychain else OsKeychain (slot @ ch_suffix host))"

definition resolve_cached ::
  "platform \<Rightarrow> 'k keyring \<Rightarrow> bool \<Rightarrow> crypto_host option \<Rightarrow> env \<Rightarrow> app_draws \<Rightarrow> string \<Rightarrow> ('k app_process, app_error, app_key) op" where
  "resolve_cached P R os_keychain host e D slot p =
     (case validate_slot slot of Inl err \<Rightarrow> (Inl err, p)
      | Inr _ \<Rightarrow> (case ap_cache p slot of Some cached \<Rightarrow> (Inr cached, p)
        | None \<Rightarrow> (case host of None \<Rightarrow> (Inl NoHost, p)
          | Some host \<Rightarrow>
              if \<not> os_keychain \<and> \<not> require_explicit_custody_without_keychain (e ENV_MASTER_KEY \<noteq> None) (keychain_disabled e)
              then (Inl ExplicitCustodyNeeded, p)
              else (case resolve_app_key P R (app_keychain os_keychain host e slot) D slot (e ENV_MASTER_KEY)
                      (ch_allow_file_key host) (ap_world p slot) of
                  (Inl err, w) \<Rightarrow> (Inl err, p\<lparr>ap_world := (ap_world p)(slot := w)\<rparr>)
                | (Inr app, w) \<Rightarrow> (Inr app, p\<lparr>ap_world := (ap_world p)(slot := w), ap_cache := (ap_cache p)(slot \<mapsto> app)\<rparr>)))))"

definition app_key_bytes ::
  "platform \<Rightarrow> 'k keyring \<Rightarrow> bool \<Rightarrow> crypto_host option \<Rightarrow> env \<Rightarrow> app_draws \<Rightarrow> string \<Rightarrow> ('k app_process, app_error, byte list \<times> byte list list) op" where
  "app_key_bytes P R os_keychain host e D slot =
     bindS (resolve_cached P R os_keychain host e D slot) (\<lambda>app. retS (ay_key app, ay_retired app))"

definition app_cipher ::
  "platform \<Rightarrow> 'k keyring \<Rightarrow> bool \<Rightarrow> crypto_host option \<Rightarrow> env \<Rightarrow> app_draws \<Rightarrow> string \<Rightarrow> ('k app_process, app_error, field_cipher) op" where
  "app_cipher P R os_keychain host e D slot =
     bindS (resolve_cached P R os_keychain host e D slot) (\<lambda>app. retS (with_retired (ay_retired app) (field_new (ay_key app))))"

section \<open>The ladder of a slot\<close>

text \<open>The keys that can be read from the slot.\<close>

definition app_held :: "platform \<Rightarrow> 'k keyring \<Rightarrow> keychain \<Rightarrow> byte list \<Rightarrow> 'k app_world \<Rightarrow> bool" where
  "app_held P R kc k w \<longleftrightarrow> keychain_get P R kc (aw_keyring w) = KeyHeld k \<or> read_key_file P (aw_file w) = Inr (Some k)"

lemma set_add_candidates: "set (add_candidates keys os) = set keys \<union> {k. Some k \<in> set os}"
  by (induction keys os rule: add_candidates.induct) auto

text \<open>The ladder removes the file only when the keychain holds its key.\<close>

lemma legacy_removed:
  assumes "load_master_key_guarded P R kc L env allow ev w = (r, t)" "kp_legacy (kw_paths t) \<noteq> kp_legacy (kw_paths w)"
  shows "\<exists>key. read_key_file P (kp_legacy (kw_paths w)) = Inr (Some key) \<and> keychain_get P R kc (kw_keyring t) = KeyHeld key
    \<and> kp_legacy (kw_paths t) = NoFile"
proof -
  have retire: "\<exists>key. read_key_file P (kp_legacy (kw_paths w)) = Inr (Some key) \<and> keychain_get P R kc (kw_keyring t) = KeyHeld key
      \<and> kp_legacy (kw_paths t) = NoFile"
    if "retire_matching_legacy_key P L key v = (q, t)" "keychain_get P R kc (kw_keyring v) = KeyHeld key"
      "kp_legacy (kw_paths v) = kp_legacy (kw_paths w)" for key v q
    using retire_matching_cases [OF that(1)] that(2,3) assms(2) by auto
  have publish: "kp_legacy (kw_paths t) = kp_legacy (kw_paths w)"
    if "publish_master P L key v = (q, t)" "kp_legacy (kw_paths v) = kp_legacy (kw_paths w)" for key v q
    using that by (auto simp: publish_master_def split: prod.splits)
  have env: "env = None" using assms by (cases env) (auto simp: load_env_step split: option.splits)
  have fallback: "kp_legacy (kw_paths t) = kp_legacy (kw_paths w)" if "file_fallback P L allow ev legacy w = (q, t)" for legacy q
    using that publish by (auto simp: file_fallback_step split: ladder_splits)
  show ?thesis
  proof (cases "keychain_get P R kc (kw_keyring w) = KeychainEmpty")
    case False
    then show ?thesis
      using assms(1) retire [of _ w] fallback assms(2) unfolding env load_step by (auto split: ladder_splits)
  next
    case True
    then obtain legacy q where seed: "seed_keychain P R kc L allow ev legacy w = (q, t)"
      using assms unfolding env load_step by (auto split: sum.splits)
    show ?thesis
    proof (cases "fst (adopt_or_generate P L allow ev legacy w)")
      case (Inl e)
      then have "adopt_or_generate P L allow ev legacy w = (Inl e, w)" by (simp add: adopt_or_generate_def)
      then show ?thesis using seed_keychain_fails seed assms(2) by fastforce
    next
      case (Inr key)
      then have adopt: "adopt_or_generate P L allow ev legacy w = (Inr key, w)" by (simp add: adopt_or_generate_def)
      obtain ok kr where st: "keychain_store P R kc key (kw_keyring w) = (ok, kr)" by fastforce
      show ?thesis
        using seed assms(2) retire [of key "w\<lparr>kw_keyring := kr\<rparr>"] publish [of key "w\<lparr>kw_keyring := kr\<rparr>"]
        unfolding seed_keychain_step [OF adopt st] Let_def by (auto split: ladder_splits)
    qed
  qed
qed

lemma app_ladder_held:
  assumes "app_ladder P R kc L env allow ev w = (r, w')" "app_held P R kc k w"
  shows "app_held P R kc k w'"
proof -
  let ?v = "\<lparr>kw_keyring = aw_keyring w, kw_paths = app_key_paths w\<rparr>"
  obtain q t where load: "load_master_key_guarded P R kc L env allow ev ?v = (q, t)" by fastforce
  have w': "aw_keyring w' = kw_keyring t"
      "aw_file w' = (if kp_legacy (kw_paths t) \<noteq> aw_file w then kp_legacy (kw_paths t) else kp_master (kw_paths t))"
    using assms(1) load by (auto simp: app_ladder_def)
  have held: "held P R kc k ?v \<Longrightarrow> held P R kc k t" using load_held [OF load] .
  have "held P R kc k ?v" using assms(2) by (auto simp: app_held_def held_def app_key_paths_def)
  then have t: "held P R kc k t" by (rule held)
  show ?thesis
  proof (cases "kp_legacy (kw_paths t) = aw_file w")
    case True
    have "kp_master (kw_paths t) = aw_file w \<or> aw_file w = NoFile"
      using master_kept [OF _ load] by (auto simp: app_key_paths_def)
    then show ?thesis using True t w' by (auto simp: app_held_def held_def)
  next
    case False
    then obtain key where key: "read_key_file P (aw_file w) = Inr (Some key)" "keychain_get P R kc (kw_keyring t) = KeyHeld key"
      using legacy_removed [OF load] by (auto simp: app_key_paths_def)
    moreover have "kp_master (kw_paths t) = aw_file w"
      using master_kept [OF _ load] key(1) by (cases "aw_file w") (auto simp: app_key_paths_def)
    ultimately show ?thesis using t w' False legacy_removed [OF load] by (auto simp: app_held_def held_def app_key_paths_def)
  qed
qed

lemma app_ladder_keychain:
  assumes "app_ladder P R kc L None allow ev w = (Inr (key, source), w')" "keychain_get P R kc (aw_keyring w) = KeyHeld k"
  shows "key = k \<and> source = FromKeychain
    \<and> (read_key_file P (aw_file w) = Inr (Some f) \<longrightarrow> f \<noteq> k \<longrightarrow> aw_file w' = aw_file w)"
  using assms by (auto simp: app_ladder_def load_step app_key_paths_def split: ladder_splits dest!: retire_matching_cases)

lemma app_ladder_file:
  assumes "app_ladder P R kc L None allow ev w = (Inr (key, source), w')" "read_key_file P (aw_file w) = Inr (Some f)"
    and "keychain_get P R kc (aw_keyring w) \<in> {KeychainEmpty, KeychainUnavailable}" "allow"
  shows "key = f"
proof -
  let ?v = "\<lparr>kw_keyring = aw_keyring w, kw_paths = app_key_paths w\<rparr>"
  obtain q t where load: "load_master_key_guarded P R kc L None allow ev ?v = (q, t)" by fastforce
  then have "q = Inr (key, source)" using assms(1) by (cases q) (auto simp: app_ladder_def)
  then show ?thesis using file_key_again [OF load [unfolded \<open>q = _\<close>] assms(4)] assms(2,3) by (auto simp: app_key_paths_def)
qed

lemma app_ladder_corrupt:
  "app_ladder P R kc L None allow ev w = (Inr x, w') \<Longrightarrow> keychain_get P R kc (aw_keyring w) \<noteq> KeychainCorrupt"
  by (auto simp: app_ladder_def load_step split: ladder_splits)

section \<open>Resolving a slot\<close>

lemma resolve_app_key_cases:
  assumes "resolve_app_key P R kc D slot env allow w = (Inr app, w')"
  obtains key source v where
    "app_ladder P R kc (al_ladder D) env allow (if observed_unavailable P R kc env w then app_evidence slot w else None) w
      = (Inr (key, source), v)"
    "set (ay_key app # ay_retired app) = set (add_candidates [key] [Option.bind env (decode_key P),
      observed_held (key, source), if allow then (case read_key_file P (aw_file v) of Inr k \<Rightarrow> k | Inl _ \<Rightarrow> None) else None])"
    "pinned_key P (case read_app_kcv w of Inr r \<Rightarrow> r | Inl _ \<Rightarrow> None) (observed_unavailable P R kc env w) (key, source)
      (add_candidates [key] [Option.bind env (decode_key P), observed_held (key, source),
        if allow then (case read_key_file P (aw_file v) of Inr k \<Rightarrow> k | Inl _ \<Rightarrow> None) else None]) = Inr (ay_key app)"
    "aw_keyring w' = aw_keyring v" "aw_file w' = aw_file v"
proof -
  let ?un = "observed_unavailable P R kc env w"
  obtain answer v where lad: "app_ladder P R kc (al_ladder D) env allow (if ?un then app_evidence slot w else None) w = (Inr answer, v)"
    using assms by (auto simp: resolve_app_key_def Let_def elim!: bindS_cases)
  obtain key source where answer: "answer = (key, source)" by fastforce
  let ?keys = "add_candidates [key] [Option.bind env (decode_key P), observed_held (key, source),
        if allow then (case read_key_file P (aw_file v) of Inr k \<Rightarrow> k | Inl _ \<Rightarrow> None) else None]"
  let ?pin = "pinned_key P (case read_app_kcv w of Inr r \<Rightarrow> r | Inl _ \<Rightarrow> None) ?un (key, source) ?keys"
  have run: "resolve_app_key P R kc D slot env allow w = (case ?pin of Inl e \<Rightarrow> (Inl e, v)
      | Inr k \<Rightarrow> (Inr \<lparr>ay_key = k, ay_retired = filter (\<lambda>x. x \<noteq> k) ?keys\<rparr>,
          if (case read_app_kcv w of Inr r \<Rightarrow> r | Inl _ \<Rightarrow> None) \<noteq> Some (key_check_value P k)
          then write_app_kcv D (key_check_value P k) source v else v))"
    using lad by (simp add: resolve_app_key_def Let_def bindS_def answer split: sum.split)
  obtain k where pin: "?pin = Inr k"
    and app: "app = \<lparr>ay_key = k, ay_retired = filter (\<lambda>x. x \<noteq> k) ?keys\<rparr>"
    and w': "w' = v \<or> w' = write_app_kcv D (key_check_value P k) source v"
    using assms unfolding run by (cases ?pin) (auto split: if_splits)
  have w'': "aw_keyring w' = aw_keyring v" "aw_file w' = aw_file v" using w' by (auto simp: write_app_kcv_def)
  have "k \<in> set ?keys"
    using pin by (auto simp: pinned_key_def set_add_candidates find_Some_iff split: option.splits if_splits dest: nth_mem)
  then have "set (ay_key app # ay_retired app) = set ?keys" by (auto simp: app)
  with lad pin w'' show ?thesis using that [of key source v] by (simp add: answer app)
qed

lemma pinned_key_kcv:
  assumes "pinned_key P (Some kcv) unavailable (key, source) keys = Inr k" "source \<noteq> FromEnv"
    and "key_check_value P key = kcv \<or> (\<exists>c\<in>set keys. key_check_value P c = kcv)"
  shows "key_check_value P k = kcv"
proof (cases "key_check_value P key = kcv")
  case True
  with assms(1) show ?thesis by (simp add: pinned_key_def)
next
  case False
  then obtain c where "c \<in> set keys" "key_check_value P c = kcv" using assms(3) by blast
  then have "find (\<lambda>k. key_check_value P k = kcv) keys \<noteq> None" by (auto simp: find_None_iff)
  then obtain d where "find (\<lambda>k. key_check_value P k = kcv) keys = Some d" by blast
  moreover from this have "key_check_value P d = kcv" by (auto simp: find_Some_iff)
  ultimately show ?thesis using assms(1,2) False by (simp add: pinned_key_def)
qed

lemma seed_keychain_source: "seed_keychain P R kc L allow ev legacy v = (Inr (k, s), t) \<Longrightarrow> s \<noteq> FromEnv"
  by (auto simp: seed_keychain_def bindS_def split: ladder_splits)

lemma app_ladder_source:
  assumes "app_ladder P R kc L None allow ev w = (Inr (key, source), w')"
  shows "source \<noteq> FromEnv"
  using assms
  by (auto simp: app_ladder_def load_step file_fallback_step split: ladder_splits dest: seed_keychain_source)

text \<open>A key the slot held is among the candidates, and still held.\<close>

lemma candidate_held:
  assumes lad: "app_ladder P R kc L None allow ev w = (Inr (key, source), v)"
    and held: "keychain_get P R kc (aw_keyring w) = KeyHeld k \<or> allow \<and> read_key_file P (aw_file w) = Inr (Some k)"
  shows "k \<in> set (add_candidates [key] [Option.bind None (decode_key P), observed_held (key, source),
    if allow then (case read_key_file P (aw_file v) of Inr k \<Rightarrow> k | Inl _ \<Rightarrow> None) else None])"
proof (cases "keychain_get P R kc (aw_keyring w)")
  case (KeyHeld k0)
  have answer: "key = k0" "read_key_file P (aw_file w) = Inr (Some k) \<longrightarrow> k \<noteq> k0 \<longrightarrow> aw_file v = aw_file w"
    using app_ladder_keychain [OF lad KeyHeld, of k] by simp_all
  then show ?thesis using held KeyHeld by (cases "k = k0") (auto simp: set_add_candidates)
next
  case KeychainCorrupt
  then show ?thesis using app_ladder_corrupt [OF lad] by simp
qed (use held app_ladder_file [OF lad, of k] in \<open>auto simp: set_add_candidates\<close>)

text \<open>
  The record decides. When a slot without a key in the environment resolves and any key it holds,
  in its keychain account or in its file, has the recorded key check value, the key it resolves to
  has it: a keychain and a file that disagree never change the key.
\<close>

theorem app_key_is_recorded:
  assumes "resolve_app_key P R kc D slot None allow w = (Inr app, w')" and "aw_record w = Json rec"
    and "keychain_get P R kc (aw_keyring w) = KeyHeld k \<or> allow \<and> read_key_file P (aw_file w) = Inr (Some k)"
    and "key_check_value P k = av_kcv rec"
  shows "key_check_value P (ay_key app) = av_kcv rec"
proof -
  obtain key source v where run:
    "app_ladder P R kc (al_ladder D) None allow (if observed_unavailable P R kc None w then app_evidence slot w else None) w
      = (Inr (key, source), v)"
    "pinned_key P (case read_app_kcv w of Inr r \<Rightarrow> r | Inl _ \<Rightarrow> None) (observed_unavailable P R kc None w) (key, source)
      (add_candidates [key] [Option.bind None (decode_key P), observed_held (key, source),
        if allow then (case read_key_file P (aw_file v) of Inr k \<Rightarrow> k | Inl _ \<Rightarrow> None) else None]) = Inr (ay_key app)"
    by (rule resolve_app_key_cases [OF assms(1)])
  have "read_app_kcv w = Inr (Some (av_kcv rec))" using assms(2) by (simp add: read_app_kcv_def read_json_def)
  then have pin: "pinned_key P (Some (av_kcv rec)) (observed_unavailable P R kc None w) (key, source)
      (add_candidates [key] [Option.bind None (decode_key P), observed_held (key, source),
        if allow then (case read_key_file P (aw_file v) of Inr k \<Rightarrow> k | Inl _ \<Rightarrow> None) else None]) = Inr (ay_key app)"
    using run(2) by simp
  show ?thesis
    by (rule pinned_key_kcv [OF pin app_ladder_source [OF run(1)]])
      (use candidate_held [OF run(1) assms(3)] assms(4) in blast)
qed


end
