(* ===== verification/Blind_Index.thy ===== *)
theory Blind_Index
  imports Process_Keys "HOL-Library.List_Lexorder" "HOL-Library.Char_ord"
begin

text \<open>
  crates/core/crypto/src/blind\_index.rs: keyed tokens by which a store finds rows by a sealed value.
  Unicode (the crates unicode-normalization and unicode-properties, and the case tables of the
  standard library) is the record \<open>unicode\<close>, an argument of the definitions that use it.
\<close>

section \<open>Unicode\<close>

text \<open>A scalar value is given by its UTF-8 bytes, as \<open>scalars\<close> gives it.\<close>

datatype category_group = LetterGroup | MarkGroup | NumberGroup | PunctuationGroup | SymbolGroup | SeparatorGroup | OtherGroup

record unicode =
  nfkc :: "string \<Rightarrow> string"
  to_lowercase :: "string \<Rightarrow> string"
  general_category_group :: "string \<Rightarrow> category_group"

definition is_term_char :: "unicode \<Rightarrow> string \<Rightarrow> bool" where
  "is_term_char U ch \<longleftrightarrow> general_category_group U ch \<in> {LetterGroup, MarkGroup, NumberGroup}"

definition BLIND_TOKEN_PREFIX :: string where "BLIND_TOKEN_PREFIX = ''bi1:''"
definition TERMS_FIELD :: string where "TERMS_FIELD = ''terms''"
definition BLIND_KDF_SALT :: string where "BLIND_KDF_SALT = ''ryu-blind-index-v1''"
definition BLIND_KDF_INFO_PREFIX :: string where "BLIND_KDF_INFO_PREFIX = ''ryu-blind-index-v1:''"
definition MIN_TERM_CHARS :: nat where "MIN_TERM_CHARS = 2"
definition MAX_TERM_CHARS :: nat where "MAX_TERM_CHARS = 64"

definition STOPWORDS :: "string list" where
  "STOPWORDS = [
     ''a'', ''an'', ''and'', ''are'', ''as'', ''at'', ''be'', ''but'', ''by'', ''for'', ''from'', ''has'', ''have'', ''he'',
     ''her'', ''his'', ''i'', ''if'', ''in'', ''into'', ''is'', ''it'', ''its'', ''me'', ''my'', ''no'', ''not'', ''of'', ''on'',
     ''or'', ''our'', ''she'', ''so'', ''that'', ''the'', ''their'', ''them'', ''there'', ''they'', ''this'', ''to'', ''was'',
     ''we'', ''were'', ''what'', ''when'', ''which'', ''who'', ''will'', ''with'', ''you'', ''your'']"

section \<open>Terms\<close>

definition casefold :: "unicode \<Rightarrow> string \<Rightarrow> string" where
  "casefold U v = nfkc U (to_lowercase U (nfkc U (trim v)))"

definition normalize_email :: "unicode \<Rightarrow> string \<Rightarrow> string" where
  "normalize_email U v = casefold U v"

text \<open>\<open>str::split\<close> at every scalar that is no term character.\<close>

fun split_terms :: "(string \<Rightarrow> bool) \<Rightarrow> string list \<Rightarrow> string list list" where
  "split_terms t [] = [[]]"
| "split_terms t (x # xs) = (if t x
     then (case split_terms t xs of [] \<Rightarrow> [[x]] | raw # raws \<Rightarrow> (x # raw) # raws)
     else [] # split_terms t xs)"

definition term_of_raw :: "string list \<Rightarrow> string option" where
  "term_of_raw raw =
     (if length raw < MIN_TERM_CHARS then None
      else let t = concat (take MAX_TERM_CHARS raw) in if t \<in> set STOPWORDS then None else Some t)"

definition raw_terms :: "unicode \<Rightarrow> string \<Rightarrow> string list" where
  "raw_terms U txt = List.map_filter term_of_raw
     (split_terms (is_term_char U) (scalars (nfkc U (to_lowercase U (nfkc U txt)))))"

text \<open>A \<open>BTreeSet\<close> of byte strings: each once, in bytewise order.\<close>

definition tokenize_terms :: "unicode \<Rightarrow> string \<Rightarrow> string list" where
  "tokenize_terms U txt = sort (remdups (raw_terms U txt))"

section \<open>Tokens\<close>

record blind_index =
  bi_key :: "byte list"
  bi_store :: string
  bi_field :: string

definition blind_info :: "string \<Rightarrow> string \<Rightarrow> byte list" where
  "blind_info store field = concat [as_bytes BLIND_KDF_INFO_PREFIX, as_bytes store, [0], as_bytes field]"

definition blind_from_root :: "platform \<Rightarrow> byte list \<Rightarrow> string \<Rightarrow> string \<Rightarrow> blind_index" where
  "blind_from_root P root store field =
     \<lparr>bi_key = hkdf_sha256 P (as_bytes BLIND_KDF_SALT) root (blind_info store field), bi_store = store, bi_field = field\<rparr>"

definition mac16 :: "platform \<Rightarrow> blind_index \<Rightarrow> string \<Rightarrow> string" where
  "mac16 P b v = hex_encode P (take 16 (hmac_sha256 P (bi_key b) (as_bytes v)))"

definition token :: "platform \<Rightarrow> blind_index \<Rightarrow> string \<Rightarrow> string" where
  "token P b normalized = BLIND_TOKEN_PREFIX @ mac16 P b normalized"

definition token_casefold :: "platform \<Rightarrow> unicode \<Rightarrow> blind_index \<Rightarrow> string \<Rightarrow> string" where
  "token_casefold P U b v = token P b (casefold U v)"

definition term_token :: "platform \<Rightarrow> blind_index \<Rightarrow> string \<Rightarrow> string" where
  "term_token P b t = mac16 P b t"

definition term_tokens :: "platform \<Rightarrow> unicode \<Rightarrow> blind_index \<Rightarrow> string \<Rightarrow> string list" where
  "term_tokens P U b txt = map (term_token P b) (tokenize_terms U txt)"

definition fts_document :: "platform \<Rightarrow> unicode \<Rightarrow> blind_index \<Rightarrow> string \<Rightarrow> string" where
  "fts_document P U b txt = join CHR '' '' (term_tokens P U b txt)"

fun join_and :: "string list \<Rightarrow> string" where
  "join_and [] = []"
| "join_and [x] = x"
| "join_and (x # xs) = x @ '' AND '' @ join_and xs"

definition fts_query :: "platform \<Rightarrow> unicode \<Rightarrow> blind_index \<Rightarrow> string \<Rightarrow> string option" where
  "fts_query P U b query = (let tokens = term_tokens P U b query in if tokens = [] then None else Some (join_and tokens))"

section \<open>In a process\<close>

text \<open>The index of a plugin's or a component's own process is rooted at its subkey.\<close>

definition plugin_blind_index_for_process ::
  "platform \<Rightarrow> key_error + delivered option \<Rightarrow> (key_error + master_keys) option \<Rightarrow> env \<Rightarrow> string \<Rightarrow> string \<Rightarrow> string
    \<Rightarrow> key_error + blind_index" where
  "plugin_blind_index_for_process P dlv host e plugin_id store field =
     bindE (plugin_cipher_for_process P dlv host e plugin_id) (\<lambda>c. Inr (blind_from_root P (pc_subkey c) store field))"

definition component_blind_index_for_process ::
  "platform \<Rightarrow> key_error + delivered option \<Rightarrow> (key_error + master_keys) option \<Rightarrow> env \<Rightarrow> string \<Rightarrow> string \<Rightarrow> string
    \<Rightarrow> key_error + blind_index" where
  "component_blind_index_for_process P dlv host e component store field =
     bindE (component_cipher_for_process P dlv host e component) (\<lambda>c. Inr (blind_from_root P (co_subkey c) store field))"

section \<open>The terms of a text\<close>

lemma set_tokenize_terms: "set (tokenize_terms U txt) = set (raw_terms U txt)"
  by (simp add: tokenize_terms_def)

lemma split_terms_chars: "raw \<in> set (split_terms t xs) \<Longrightarrow> x \<in> set raw \<Longrightarrow> t x \<and> x \<in> set xs"
  by (induction t xs arbitrary: raw rule: split_terms.induct) (auto split: if_splits list.splits, blast+)

text \<open>
  The terms of a text are in strict bytewise order, so that every holder of the key derives the
  same document; none is a stopword, and each is made of 2 to 64 term characters of the normalized
  text.
\<close>

theorem terms_well_formed:
  "sorted_wrt (<) (tokenize_terms U txt) \<and> (\<forall>t. t \<in> set (tokenize_terms U txt) \<longrightarrow> t \<notin> set STOPWORDS
    \<and> (\<exists>raw. t = concat raw \<and> MIN_TERM_CHARS \<le> length raw \<and> length raw \<le> MAX_TERM_CHARS
        \<and> list_all (is_term_char U) raw \<and> set raw \<subseteq> set (scalars (nfkc U (to_lowercase U (nfkc U txt))))))"
proof -
  have "t \<notin> set STOPWORDS \<and> (\<exists>raw. t = concat raw \<and> MIN_TERM_CHARS \<le> length raw \<and> length raw \<le> MAX_TERM_CHARS
        \<and> list_all (is_term_char U) raw \<and> set raw \<subseteq> set (scalars (nfkc U (to_lowercase U (nfkc U txt)))))"
    if t: "t \<in> set (raw_terms U txt)" for t
  proof -
    let ?xs = "scalars (nfkc U (to_lowercase U (nfkc U txt)))"
    obtain raw where raw: "raw \<in> set (split_terms (is_term_char U) ?xs)" "term_of_raw raw = Some t"
      using t by (auto simp: raw_terms_def List.map_filter_def)
    then have "t = concat (take MAX_TERM_CHARS raw)" "MIN_TERM_CHARS \<le> length raw" "t \<notin> set STOPWORDS"
      by (auto simp: term_of_raw_def Let_def split: if_splits)
    moreover have "x \<in> set (take MAX_TERM_CHARS raw) \<Longrightarrow> is_term_char U x \<and> x \<in> set ?xs" for x
      using split_terms_chars [OF raw(1)] by (meson in_set_takeD)
    ultimately show ?thesis
      by (intro conjI exI [of _ "take MAX_TERM_CHARS raw"])
        (auto simp: list_all_iff MIN_TERM_CHARS_def MAX_TERM_CHARS_def)
  qed
  moreover have "sorted_wrt (<) (tokenize_terms U txt)"
    by (simp add: tokenize_terms_def strict_sorted_iff)
  ultimately show ?thesis by (simp add: set_tokenize_terms)
qed

section \<open>Searching\<close>

text \<open>
  What SQLite's FTS5 documents of a table with \<open>detail=none, tokenize='ascii'\<close>: a row matches a
  conjunction of words when its document has each of them.
\<close>

definition fts_match :: "string \<Rightarrow> string \<Rightarrow> bool" where
  "fts_match document query \<longleftrightarrow>
     set (filter (\<lambda>w. w \<noteq> ''AND'') (split_on CHR '' '' query)) \<subseteq> set (split_on CHR '' '' document)"

text \<open>Hexadecimal text is lower case and has no space.\<close>

definition hex_plain :: "platform \<Rightarrow> bool" where
  "hex_plain P \<longleftrightarrow> (\<forall>bs. CHR '' '' \<notin> set (hex_encode P bs) \<and> CHR ''A'' \<notin> set (hex_encode P bs))"

lemma split_on_and: "xs \<noteq> [] \<Longrightarrow> \<forall>x\<in>set xs. CHR '' '' \<notin> set x
  \<Longrightarrow> set (filter (\<lambda>w. w \<noteq> ''AND'') (split_on CHR '' '' (join_and xs))) = {x \<in> set xs. x \<noteq> ''AND''}"
proof (induction xs rule: join_and.induct)
  case (3 x y ys)
  have split: "split_on CHR '' '' (a @ CHR '' '' # b) = a # split_on CHR '' '' b" if "CHR '' '' \<notin> set a" for a b
    using that by (induction a) auto
  have "join_and (x # y # ys) = x @ CHR '' '' # ''AND'' @ CHR '' '' # join_and (y # ys)" by simp
  then have "split_on CHR '' '' (join_and (x # y # ys)) = x # ''AND'' # split_on CHR '' '' (join_and (y # ys))"
    using split [of x] split [of "''AND''"] 3(3) by simp
  with 3 show ?case by auto
qed (auto simp: split_on_no_sep)

lemma token_plain: "hex_plain P \<Longrightarrow> CHR '' '' \<notin> set (term_token P b t) \<and> term_token P b t \<noteq> ''AND''"
  unfolding hex_plain_def term_token_def mac16_def by (metis list.set_intros(1))

text \<open>
  C37. A search over sealed text finds exactly the rows it should: for a query with terms, the match
  expression selects the document of a text if and only if every term of the query is a term of
  the text; a query without terms has no match expression. The tokens of the terms concerned are
  assumed not to collide.
\<close>

theorem blind_search_exact:
  assumes "hex_plain P" "hex_laws P"
    and "inj_on (term_token P b) (set (tokenize_terms U query) \<union> set (tokenize_terms U txt))"
  shows "(fts_query P U b query = None \<longleftrightarrow> tokenize_terms U query = [])
    \<and> (fts_query P U b query = Some q
      \<longrightarrow> (fts_match (fts_document P U b txt) q \<longleftrightarrow> set (tokenize_terms U query) \<subseteq> set (tokenize_terms U txt)))"
proof -
  let ?f = "term_token P b" and ?Q = "tokenize_terms U query" and ?T = "tokenize_terms U txt"
  have plain: "\<forall>x\<in>set (map ?f ts). CHR '' '' \<notin> set x" for ts using token_plain [OF assms(1)] by auto
  have "fts_match (fts_document P U b txt) q \<longleftrightarrow> set ?Q \<subseteq> set ?T"
    if q: "fts_query P U b query = Some q"
  proof -
    have Q: "?Q \<noteq> []" "q = join_and (map ?f ?Q)"
      using q by (auto simp: fts_query_def term_tokens_def Let_def split: if_splits)
    have "set (filter (\<lambda>w. w \<noteq> ''AND'') (split_on CHR '' '' q)) = ?f ` set ?Q"
      using split_on_and [of "map ?f ?Q"] plain Q token_plain [OF assms(1)] by auto
    moreover have "set (split_on CHR '' '' (fts_document P U b txt)) = (if ?T = [] then {[]} else ?f ` set ?T)"
    proof (cases "?T = []")
      case False
      then have "split_on CHR '' '' (fts_document P U b txt) = map ?f ?T"
        unfolding fts_document_def term_tokens_def using plain by (intro split_on_join) auto
      with False show ?thesis by simp
    qed (simp add: fts_document_def term_tokens_def)
    moreover have "?f t \<noteq> []" for t
    proof -
      have "length (?f t) = 32" using assms(2) by (simp add: hex_laws_def term_token_def mac16_def)
      then show ?thesis by auto
    qed
    ultimately have "fts_match (fts_document P U b txt) q \<longleftrightarrow> ?f ` set ?Q \<subseteq> ?f ` set ?T"
      using Q(1) hd_in_set [of ?Q] by (cases "?T = []") (auto simp: fts_match_def image_subset_iff)
    also have "\<dots> \<longleftrightarrow> set ?Q \<subseteq> set ?T" using assms(3) unfolding inj_on_def by blast
    finally show ?thesis .
  qed
  then show ?thesis by (simp add: fts_query_def term_tokens_def Let_def)
qed

text \<open>The key of an index is derived for its store and field only, as long as store names have no NUL.\<close>

lemma blind_info_unambiguous:
  assumes "blind_info store field = blind_info store' field'" "CHR 0x00 \<notin> set store" "CHR 0x00 \<notin> set store'"
  shows "store' = store \<and> field' = field"
proof -
  have split: "a = a' \<and> b = b'" if "as_bytes a @ 0 # b = as_bytes a' @ 0 # b'" "CHR 0x00 \<notin> set a" "CHR 0x00 \<notin> set a'" for a a' and b b' :: "byte list"
  proof -
    have nz: "0 \<notin> set (as_bytes c)" if "CHR 0x00 \<notin> set c" for c
    proof
      assume "0 \<in> set (as_bytes c)"
      then have "CHR 0x00 \<in> set (of_bytes (as_bytes c))" by (auto simp: of_bytes_def image_iff char_of_def bit_0 intro!: bexI [of _ 0])
      with that show False by simp
    qed
    have "takeWhile (\<lambda>x. x \<noteq> 0) (as_bytes c @ 0 # d) = as_bytes c" if "CHR 0x00 \<notin> set c" for c and d :: "byte list"
      using takeWhile_append2 [of "as_bytes c" "\<lambda>x. x \<noteq> 0" "0 # d"] nz [OF that] by fastforce
    with that have "as_bytes a = as_bytes a'" by metis
    then have "of_bytes (as_bytes a) = of_bytes (as_bytes a')" by simp
    with that show ?thesis by simp
  qed
  have "as_bytes field = as_bytes field' \<Longrightarrow> field = field'"
    by (metis of_bytes_as_bytes)
  with split [of store "as_bytes field" store' "as_bytes field'"] assms show ?thesis by (simp add: blind_info_def)
qed

end
