(* ===== verification/Content_Keys.thy ===== *)
theory Content_Keys
  imports App_Key Blind_Index
begin

text \<open>
  crates/core/crypto/src/content.rs, the process constructors: the content ciphers of a process that
  holds the master key, of a plugin's or a component's own process and of an app's slot, the keys of
  webview stores, and the blind index of Core (blind\_index.rs).
\<close>

datatype content_key_error = KeyFailed key_error | AppKeyFailed app_error | NoContentKey | EmptyPluginId
  | BadStoreName | StoreNamePanic

text \<open>Without the feature \<open>test-ephemeral-host\<close> there is no other root. \<open>host\<close> is the outcome of the installed
  host's resolution.\<close>

definition process_root_and_retired ::
  "platform \<Rightarrow> (key_error + master_keys) option \<Rightarrow> env \<Rightarrow> content_key_error + master_keys" where
  "process_root_and_retired P host e = (case host of
     Some r \<Rightarrow> map_err KeyFailed r
   | None \<Rightarrow> bindE (map_err KeyFailed (env_master_key P e)) (\<lambda>m. case m of
       Some root \<Rightarrow> Inr (root, []) | None \<Rightarrow> Inl NoContentKey))"

definition cipher_of_roots :: "platform \<Rightarrow> byte list \<Rightarrow> byte list list \<Rightarrow> string \<Rightarrow> content_key_error + content_cipher" where
  "cipher_of_roots P root retired store =
     bindE (ok_or StoreNamePanic (from_root P root store)) (\<lambda>c. Inr (with_retired_roots P retired c))"

text \<open>
  \<open>note_content_use\<close>: once in a process, a host that owns the data folder writes the data-format
  marker; a failure is logged.
\<close>

definition note_content_use :: "custody_inputs option \<Rightarrow> custody_draws \<Rightarrow> bool \<times> 'k custody_world \<Rightarrow> bool \<times> 'k custody_world" where
  "note_content_use I D s = (case s of (noted, w) \<Rightarrow>
     if noted then s
     else case I of
         None \<Rightarrow> (True, w)
       | Some I \<Rightarrow> if \<not> ci_records_kcv I then (True, w) else (True, snd (write_data_format D w)))"

definition content_cipher ::
  "platform \<Rightarrow> (key_error + master_keys) option \<Rightarrow> env \<Rightarrow> custody_inputs option \<Rightarrow> custody_draws \<Rightarrow> string \<Rightarrow>
   (bool \<times> 'k custody_world, content_key_error, content_cipher) op" where
  "content_cipher P host e I D store s = (case process_root_and_retired P host e of
     Inl err \<Rightarrow> (Inl err, s)
   | Inr (root, retired) \<Rightarrow> (cipher_of_roots P root retired store, note_content_use I D s))"

definition plugin_content_cipher ::
  "platform \<Rightarrow> (key_error + master_keys) option \<Rightarrow> env \<Rightarrow> string \<Rightarrow> string \<Rightarrow> content_key_error + content_cipher" where
  "plugin_content_cipher P host e plugin_id store = (let plugin_id = trim plugin_id in
     if plugin_id = [] then Inl EmptyPluginId
     else bindE (process_root_and_retired P host e) (\<lambda>(root, retired).
       cipher_of_roots P (derive_plugin_key P root plugin_id) (map (\<lambda>k. derive_plugin_key P k plugin_id) retired) store))"

definition plugin_cipher_content :: "platform \<Rightarrow> plugin_cipher \<Rightarrow> string \<Rightarrow> content_key_error + content_cipher" where
  "plugin_cipher_content P c store = cipher_of_roots P (pc_subkey c) (pc_retired c) store"

definition component_cipher_content :: "platform \<Rightarrow> component_cipher \<Rightarrow> string \<Rightarrow> content_key_error + content_cipher" where
  "component_cipher_content P c store = cipher_of_roots P (co_subkey c) (co_retired c) store"

definition plugin_content_cipher_for_process ::
  "platform \<Rightarrow> key_error + delivered option \<Rightarrow> (key_error + master_keys) option \<Rightarrow> env \<Rightarrow> string \<Rightarrow> string \<Rightarrow>
   content_key_error + content_cipher" where
  "plugin_content_cipher_for_process P dlv host e plugin_id store =
     bindE (map_err KeyFailed (plugin_cipher_for_process P dlv host e plugin_id)) (\<lambda>c. plugin_cipher_content P c store)"

definition component_content_cipher_for_process ::
  "platform \<Rightarrow> key_error + delivered option \<Rightarrow> (key_error + master_keys) option \<Rightarrow> env \<Rightarrow> string \<Rightarrow> string \<Rightarrow>
   content_key_error + content_cipher" where
  "component_content_cipher_for_process P dlv host e component store =
     bindE (map_err KeyFailed (component_cipher_for_process P dlv host e component)) (\<lambda>c. component_cipher_content P c store)"

definition lift_app :: "('s, app_error, 'a) op \<Rightarrow> ('s, content_key_error, 'a) op" where
  "lift_app m s = (case m s of (r, t) \<Rightarrow> (map_err AppKeyFailed r, t))"

definition app_content_cipher ::
  "platform \<Rightarrow> 'k keyring \<Rightarrow> bool \<Rightarrow> crypto_host option \<Rightarrow> env \<Rightarrow> app_draws \<Rightarrow> string \<Rightarrow> string \<Rightarrow>
   ('k app_process, content_key_error, content_cipher) op" where
  "app_content_cipher P R os_keychain host e D slot store =
     bindS (lift_app (app_key_bytes P R os_keychain host e D slot)) (\<lambda>(root, retired).
     liftE (cipher_of_roots P root retired store))"

section \<open>Webview stores\<close>

record webview_keys =
  wk_current :: "byte list"
  wk_retired :: "byte list list"

definition derive_webview_key :: "platform \<Rightarrow> byte list \<Rightarrow> string \<Rightarrow> byte list" where
  "derive_webview_key P app_key store =
     hkdf32 P app_key (as_bytes ''ryu-webview-key-v1'') [as_bytes ''ryu-webview-key-v1:'', as_bytes store]"

fun webview_retired :: "byte list \<Rightarrow> byte list list \<Rightarrow> byte list list \<Rightarrow> byte list list" where
  "webview_retired current retired [] = retired"
| "webview_retired current retired (k # ks) =
     webview_retired current (if k \<noteq> current \<and> k \<notin> set retired then retired @ [k] else retired) ks"

definition webview_keys_from :: "platform \<Rightarrow> byte list \<Rightarrow> byte list list \<Rightarrow> string \<Rightarrow> webview_keys" where
  "webview_keys_from P root retired_roots store = (let current = derive_webview_key P root store in
     \<lparr>wk_current = current, wk_retired = webview_retired current [] (map (\<lambda>k. derive_webview_key P k store) retired_roots)\<rparr>)"

definition app_webview_keys ::
  "platform \<Rightarrow> 'k keyring \<Rightarrow> bool \<Rightarrow> crypto_host option \<Rightarrow> env \<Rightarrow> app_draws \<Rightarrow> string \<Rightarrow> string \<Rightarrow>
   ('k app_process, content_key_error, webview_keys) op" where
  "app_webview_keys P R os_keychain host e D slot store =
     (if \<not> store_name_ok store then failS BadStoreName
      else bindS (lift_app (app_key_bytes P R os_keychain host e D slot)) (\<lambda>(root, retired).
        retS (webview_keys_from P root retired store)))"

definition app_webview_key_bytes ::
  "platform \<Rightarrow> 'k keyring \<Rightarrow> bool \<Rightarrow> crypto_host option \<Rightarrow> env \<Rightarrow> app_draws \<Rightarrow> string \<Rightarrow> string \<Rightarrow>
   ('k app_process, content_key_error, byte list) op" where
  "app_webview_key_bytes P R os_keychain host e D slot store =
     bindS (app_webview_keys P R os_keychain host e D slot store) (\<lambda>keys. retS (wk_current keys))"

section \<open>The blind index of Core\<close>

definition blind_index_for ::
  "platform \<Rightarrow> (key_error + master_keys) option \<Rightarrow> env \<Rightarrow> string \<Rightarrow> string \<Rightarrow> content_key_error + blind_index" where
  "blind_index_for P host e store field =
     bindE (process_root_and_retired P host e) (\<lambda>(root, _). Inr (blind_from_root P root store field))"

section \<open>One key, wherever it is derived\<close>

text \<open>
  A plugin's own process, with the subkey Core delivered to it, builds the content cipher that Core
  builds for the plugin: it opens what Core sealed and the other way round.
\<close>

theorem plugin_content_agrees:
  assumes "delivered_in P child = Inr (Some d)" "de_scope d = Plugin (trim plugin_id)" "trim plugin_id \<noteq> []"
    and "de_key d = derive_plugin_key P root (trim plugin_id)"
    and "de_retired d = map (\<lambda>k. derive_plugin_key P k (trim plugin_id)) retired"
    and "process_root_and_retired P host e = Inr (root, retired)"
  shows "plugin_content_cipher_for_process P (delivered_in P child) host' child plugin_id store
    = plugin_content_cipher P host e plugin_id store"
  using assms
  by (simp add: plugin_content_cipher_for_process_def plugin_content_cipher_def plugin_cipher_for_process_def
      valid_plugin_id_def process_subkey_def subkey_from_def plugin_cipher_content_def from_subkeys_def Let_def)

lemma set_webview_retired: "set (webview_retired c r ks) = set r \<union> (set ks - {c})"
  by (induction c r ks rule: webview_retired.induct) auto

lemma distinct_webview_retired: "distinct r \<Longrightarrow> distinct (webview_retired c r ks)"
  by (induction c r ks rule: webview_retired.induct) auto

text \<open>The keys handed to a webview are those of all roots, each once, the current one first.\<close>

lemma webview_keys_complete:
  "set (wk_current (webview_keys_from P root roots store) # wk_retired (webview_keys_from P root roots store))
     = (\<lambda>k. derive_webview_key P k store) ` set (root # roots)
   \<and> distinct (wk_current (webview_keys_from P root roots store) # wk_retired (webview_keys_from P root roots store))"
  by (auto simp: webview_keys_from_def Let_def set_webview_retired distinct_webview_retired)

end
