(* ===== verification/Key_Changes.thy ===== *)
theory Key_Changes
  imports Key_Custody
begin

text \<open>
  crates/core/crypto/src/custody.rs, what changes a data folder's key: \<open>keys adopt\<close>, \<open>keys retire\<close>, the
  export and import of key bundles, the files of a recovered folder and the copy of retired keys between
  profiles; and the report of what a folder holds.
\<close>

section \<open>Adopting, retiring, importing\<close>

datatype adopt_from = AdoptEnv | AdoptKeychain | AdoptFile | AdoptRetired string

fun wanted_kind :: "adopt_from \<Rightarrow> key_source_kind" where
  "wanted_kind AdoptEnv = KindEnv"
| "wanted_kind AdoptKeychain = KindKeychain"
| "wanted_kind AdoptFile = KindFile"
| "wanted_kind (AdoptRetired kcv) = KindRetired kcv"

record adopt_outcome =
  ao_kcv :: string
  ao_custody :: string
  ao_retired :: "string option"

definition candidate_key :: "platform \<Rightarrow> 'k keyring \<Rightarrow> custody_inputs \<Rightarrow> adopt_from \<Rightarrow> 'k custody_world \<Rightarrow> custody_error + byte list" where
  "candidate_key P R I src w = bindE (ok_or NoCandidate (find (\<lambda>(kind, _). kind = wanted_kind src) (candidates P R I w)))
     (\<lambda>(_, key). Inr key)"

definition persistent_key :: "platform \<Rightarrow> 'k keyring \<Rightarrow> custody_inputs \<Rightarrow> 'k custody_world \<Rightarrow> (byte list \<times> master_key_source) option" where
  "persistent_key P R I w = (case keychain_get P R (ci_keychain I) (kw_keyring w) of
     KeyHeld key \<Rightarrow> Some (key, FromKeychain)
   | _ \<Rightarrow> (case read_key_file P (kp_master (kw_paths w)) of Inr (Some key) \<Rightarrow> Some (key, FromFile) | _ \<Rightarrow> None))"

definition is_retired_kind :: "key_source_kind \<Rightarrow> bool" where
  "is_retired_kind k = (case k of KindRetired _ \<Rightarrow> True | _ \<Rightarrow> False)"

definition recorded_current_key :: "platform \<Rightarrow> 'k keyring \<Rightarrow> custody_inputs \<Rightarrow> 'k custody_world \<Rightarrow> custody_error + byte list option" where
  "recorded_current_key P R I w = bindE (read_json (cw_kcv w)) (\<lambda>record. Inr (case record of
     None \<Rightarrow> None
   | Some r \<Rightarrow> map_option snd (find (\<lambda>(kind, key). \<not> is_retired_kind kind \<and> key_check_value P key = kv_kcv r) (candidates P R I w))))"

text \<open>The keys to retire, in order and without repetition, none of them the new one.\<close>

definition add_distinct :: "byte list \<Rightarrow> byte list option \<Rightarrow> byte list list \<Rightarrow> byte list list" where
  "add_distinct key k ks = (case k of Some k \<Rightarrow> if k \<noteq> key \<and> k \<notin> set ks then ks @ [k] else ks | None \<Rightarrow> ks)"

definition keys_to_retire :: "byte list \<Rightarrow> byte list option \<Rightarrow> byte list option \<Rightarrow> byte list list \<Rightarrow> byte list list" where
  "keys_to_retire key previous recorded extra =
     fold (\<lambda>k. add_distinct key (Some k)) extra (add_distinct key recorded (add_distinct key previous []))"

text \<open>The \<open>i\<close>-th key's file operations draw from their own sites.\<close>

fun retire_each ::
  "platform \<Rightarrow> 'k keyring \<Rightarrow> custody_inputs \<Rightarrow> custody_draws \<Rightarrow> nat \<Rightarrow> byte list list \<Rightarrow> ('k custody_world, custody_error, unit) op" where
  "retire_each P R I D site [] = retS ()"
| "retire_each P R I D site (old # ks) =
     bindS (vault_retire P R I D site old (ci_keychain_enabled I)) (\<lambda>_. retire_each P R I D (site + 4) ks)"

definition store_current ::
  "platform \<Rightarrow> 'k keyring \<Rightarrow> custody_inputs \<Rightarrow> custody_draws \<Rightarrow> byte list \<Rightarrow> ('k custody_world, custody_error, string) op" where
  "store_current P R I D key =
     bindS (if ci_keychain_enabled I
         then bindS (store_in_keychain P R (ci_keychain I) key) (\<lambda>stored.
           bindS getS (\<lambda>w. retS (stored \<and> keychain_get P R (ci_keychain I) (kw_keyring w) = KeyHeld key)))
         else retS False) (\<lambda>in_keychain.
     if in_keychain then retS ''keychain''
     else if \<not> ci_allow_file I then failS FileKeyRefused
     else bindS (write_atomic D 0 (\<lambda>w. w\<lparr>kw_paths := (kw_paths w)\<lparr>kp_master := KeyText (b64_encode P key)\<rparr>\<rparr>)) (\<lambda>_.
       retS ''file''))"

definition install_current ::
  "platform \<Rightarrow> 'k keyring \<Rightarrow> custody_inputs \<Rightarrow> custody_draws \<Rightarrow> byte list \<Rightarrow> byte list list \<Rightarrow>
   ('k custody_world, custody_error, adopt_outcome) op" where
  "install_current P R I D key extra_retired =
     bindS getS (\<lambda>w. let kcv = key_check_value P key; previous = persistent_key P R I w in
     bindS (liftE (recorded_current_key P R I w)) (\<lambda>recorded_key.
     bindS (liftE (read_retired_index w)) (\<lambda>existing.
     let to_retire = keys_to_retire key (map_option fst previous) recorded_key extra_retired;
         new_entries = length (filter (\<lambda>k. \<not> list_ex (\<lambda>entry. re_kcv entry = key_check_value P k) existing) to_retire) in
     if length existing + new_entries > MAX_RETIRED_KEYS then failS RetiredSetFull
     else bindS (retire_each P R I D 2 to_retire) (\<lambda>_.
       bindS (store_current P R I D key) (\<lambda>custody.
       bindS (write_kcv_record D 1 kcv custody) (\<lambda>_.
       let other = (\<lambda>k. case k of Some k \<Rightarrow> if k \<noteq> key then Some k else None | None \<Rightarrow> None) in
       retS \<lparr>ao_kcv = kcv, ao_custody = custody,
         ao_retired = map_option (key_check_value P)
           (case other recorded_key of Some k \<Rightarrow> Some k | None \<Rightarrow> other (map_option fst previous))\<rparr>))))))"

definition adopt_with ::
  "platform \<Rightarrow> 'k keyring \<Rightarrow> custody_inputs \<Rightarrow> custody_draws \<Rightarrow> adopt_from \<Rightarrow> bool \<Rightarrow> ('k custody_world, custody_error, adopt_outcome) op" where
  "adopt_with P R I D src accept_unreadable =
     bindS getS (\<lambda>w.
     bindS (liftE (candidate_key P R I src w)) (\<lambda>key.
     bindS (liftE (read_json (cw_kcv w))) (\<lambda>recorded.
     if map_option kv_kcv recorded \<noteq> Some (key_check_value P key) \<and> ci_probe I (field_new key) = ProbeRejected
       \<and> \<not> accept_unreadable
     then failS ProbeFailed
     else install_current P R I D key [])))"

definition retire_with ::
  "platform \<Rightarrow> 'k keyring \<Rightarrow> custody_inputs \<Rightarrow> custody_draws \<Rightarrow> string \<Rightarrow> ('k custody_world, custody_error, retired_entry) op" where
  "retire_with P R I D kcv =
     bindS getS (\<lambda>w.
     bindS (liftE (read_json (cw_kcv w))) (\<lambda>recorded.
     if map_option kv_kcv recorded = Some kcv then failS IsCurrentKey
     else bindS (liftE (ok_or NoCandidate (find (\<lambda>(kind, key). key_check_value P key = kcv \<and> \<not> is_retired_kind kind)
         (candidates P R I w)))) (\<lambda>(kind, key).
       if kind = KindKeychain then failS InKeychainSlot
       else bindS (vault_retire P R I D 0 key (ci_keychain_enabled I)) (\<lambda>entry w.
         if kind \<in> {KindFile, KindLegacyMemory} \<and> vault_load P R I entry w = Inr key
         then (if cd_fails D 4 then (Inl RecordIO, w)
           else (Inr entry, w\<lparr>kw_paths := (if kind = KindFile then (kw_paths w)\<lparr>kp_master := NoFile\<rparr>
             else (kw_paths w)\<lparr>kp_legacy := NoFile\<rparr>)\<rparr>))
         else (Inr entry, w)))))"

text \<open>Key bundles: \<open>bundle_json\<close> prints one as JSON and \<open>bundle_of_json\<close> parses it.\<close>

record key_bundle =
  kb_kcv :: string
  kb_current :: string
  kb_retired :: "string list"

record bundle_codec =
  bundle_json :: "key_bundle \<Rightarrow> string"
  bundle_of_json :: "string \<Rightarrow> key_bundle option"

definition bundle_of :: "platform \<Rightarrow> byte list \<Rightarrow> byte list list \<Rightarrow> key_bundle" where
  "bundle_of P current retired = \<lparr>kb_kcv = key_check_value P current, kb_current = b64_encode P current,
     kb_retired = map (b64_encode P) retired\<rparr>"

definition seal_raw_key_bundle ::
  "platform \<Rightarrow> bundle_codec \<Rightarrow> field_cipher \<Rightarrow> byte list \<Rightarrow> byte list list \<Rightarrow> byte list \<Rightarrow> crypto_error + string" where
  "seal_raw_key_bundle P J wrapping current retired n =
     field_seal P wrapping (bundle_json J (bundle_of P current (filter (\<lambda>k. k \<noteq> current) retired))) n"

definition seal_key_bundle ::
  "platform \<Rightarrow> bundle_codec \<Rightarrow> field_cipher \<Rightarrow> custody_error + byte list \<times> byte list list \<Rightarrow> byte list \<Rightarrow> crypto_error + string" where
  "seal_key_bundle P J wrapping resolved n = bindE (map_err (\<lambda>_. DecryptionFailed) resolved) (\<lambda>(current, retired).
     field_seal P wrapping (bundle_json J (bundle_of P current retired)) n)"

definition open_key_bundle ::
  "platform \<Rightarrow> bundle_codec \<Rightarrow> field_cipher \<Rightarrow> string \<Rightarrow> custody_error + byte list \<times> byte list list" where
  "open_key_bundle P J wrapping sealed =
     bindE (map_err (\<lambda>_. BundleMalformed) (field_open P wrapping sealed)) (\<lambda>json.
     bindE (ok_or BundleMalformed (bundle_of_json J json)) (\<lambda>bundle.
     bindE (ok_or BundleMalformed (decode_key P (kb_current bundle))) (\<lambda>current.
     if key_check_value P current \<noteq> kb_kcv bundle then Inl BundleMalformed
     else bindE (collect_results (map (\<lambda>key. ok_or BundleMalformed (decode_key P key)) (kb_retired bundle))) (\<lambda>retired.
       Inr (current, retired)))))"

definition live_kind :: "key_source_kind \<Rightarrow> bool" where
  "live_kind k \<longleftrightarrow> k \<in> {KindEnv, KindKeychain, KindFile}"

definition import_with ::
  "platform \<Rightarrow> 'k keyring \<Rightarrow> custody_inputs \<Rightarrow> custody_draws \<Rightarrow> byte list \<Rightarrow> byte list list \<Rightarrow> ('k custody_world, custody_error, adopt_outcome) op" where
  "import_with P R I D current retired =
     (if (case Option.bind (ci_env I) (decode_key P) of Some k \<Rightarrow> k \<noteq> current \<and> k \<notin> set retired | None \<Rightarrow> False)
      then failS EnvKeyDiffers
      else bindS getS (\<lambda>w.
        bindS (liftE (read_json (cw_kcv w))) (\<lambda>recorded.
        if map_option kv_kcv recorded = Some (key_check_value P current)
          \<and> list_ex (\<lambda>(kind, key). live_kind kind \<and> key = current) (candidates P R I w)
        then bindS (retire_each P R I D 2 (filter (\<lambda>k. k \<noteq> current) retired)) (\<lambda>_.
          retS \<lparr>ao_kcv = key_check_value P current, ao_custody = (case recorded of Some r \<Rightarrow> kv_custody r | None \<Rightarrow> []),
            ao_retired = None\<rparr>)
        else install_current P R I D current retired)))"

definition import_key_bundle ::
  "platform \<Rightarrow> bundle_codec \<Rightarrow> 'k keyring \<Rightarrow> custody_inputs \<Rightarrow> custody_draws \<Rightarrow> field_cipher \<Rightarrow> string \<Rightarrow>
   ('k custody_world, custody_error, adopt_outcome) op" where
  "import_key_bundle P J R I D wrapping sealed =
     bindS (liftE (open_key_bundle P J wrapping sealed)) (\<lambda>(current, retired). import_with P R I D current retired)"

section \<open>Recovered folders and profile copies\<close>

text \<open>The retired keys written as files: the entries so far, and the sites of the next key.\<close>

fun install_retired ::
  "platform \<Rightarrow> custody_draws \<Rightarrow> byte list \<Rightarrow> retired_entry list \<Rightarrow> nat \<Rightarrow> retired_entry list \<Rightarrow> byte list list \<Rightarrow>
   ('k custody_world, custody_error, retired_entry list) op" where
  "install_retired P D current previous site entries [] = retS entries"
| "install_retired P D current previous site entries (key # ks) = (let kcv = key_check_value P key in
     if key = current \<or> list_ex (\<lambda>entry. re_kcv entry = kcv) entries
     then install_retired P D current previous site entries ks
     else if length entries \<ge> MAX_RETIRED_KEYS then failS RetiredSetFull
     else if cd_fails D site then failS RecordIO
     else bindS (write_atomic D (site + 1) (\<lambda>w. w\<lparr>cw_retired := (cw_retired w)(kcv := KeyText (b64_encode P key))\<rparr>)) (\<lambda>_.
       install_retired P D current previous (site + 2)
         (entries @ [\<lparr>re_kcv = kcv, re_custody = ''file'',
           re_retired_at = (case find (\<lambda>entry. re_kcv entry = kcv) previous of Some e \<Rightarrow> re_retired_at e | None \<Rightarrow> cd_now D)\<rparr>]) ks))"

definition install_file_custody ::
  "platform \<Rightarrow> custody_draws \<Rightarrow> byte list \<Rightarrow> byte list list \<Rightarrow> ('k custody_world, custody_error, unit) op" where
  "install_file_custody P D current retired =
     (if cd_fails D 0 then failS RecordIO
      else bindS getS (\<lambda>w.
        let previous = (case read_retired_index w of Inr keys \<Rightarrow> keys | Inl _ \<Rightarrow> []) in
        bindS (install_retired P D current previous 4 [] retired) (\<lambda>entries.
        bindS (write_retired_index D 1 entries) (\<lambda>_.
        bindS (write_atomic D 2 (\<lambda>w. w\<lparr>kw_paths := (kw_paths w)\<lparr>kp_master := KeyText (b64_encode P current)\<rparr>\<rparr>)) (\<lambda>_.
        write_kcv_record D 3 (key_check_value P current) ''file'')))))"

definition retired_slot :: "string \<Rightarrow> string \<Rightarrow> keychain" where
  "retired_slot base kcv = OsKeychain (base @ '':retired:'' @ kcv)"

text \<open>Over the entries of the index; how many keys were copied.\<close>

fun copy_retired_keys_with ::
  "platform \<Rightarrow> 'k keyring \<Rightarrow> string \<Rightarrow> string \<Rightarrow> nat \<Rightarrow> retired_entry list \<Rightarrow> ('k, custody_error, nat) op" where
  "copy_retired_keys_with P R from_base to_base copied [] = retS copied"
| "copy_retired_keys_with P R from_base to_base copied (entry # es) =
     (if re_custody entry \<noteq> ''keychain'' then copy_retired_keys_with P R from_base to_base copied es
      else bindS getS (\<lambda>k. let target = retired_slot to_base (re_kcv entry) in
        case keychain_get P R (retired_slot from_base (re_kcv entry)) k of
          KeyHeld key \<Rightarrow>
            if key_check_value P key \<noteq> re_kcv entry then copy_retired_keys_with P R from_base to_base copied es
            else (case keychain_get P R target k of
                KeyHeld h \<Rightarrow> if h = key then copy_retired_keys_with P R from_base to_base copied es else failS CopyFailed
              | KeychainEmpty \<Rightarrow> (\<lambda>k. case keychain_store P R target key k of (stored, k) \<Rightarrow>
                  if stored \<and> keychain_get P R target k = KeyHeld key
                  then copy_retired_keys_with P R from_base to_base (copied + 1) es k
                  else (Inl CopyFailed, k))
              | _ \<Rightarrow> failS CopyFailed)
        | KeychainEmpty \<Rightarrow> copy_retired_keys_with P R from_base to_base copied es
        | _ \<Rightarrow> failS CopyFailed))"

section \<open>Reports\<close>

record candidate_report =
  cr_source :: key_source_kind
  cr_kcv :: string
  cr_matches_recorded :: bool

record master_key_report =
  mkr_recorded :: "kcv_record option"
  mkr_candidates :: "candidate_report list"
  mkr_retired :: "retired_entry list"
  mkr_data_format :: "data_format option"
  mkr_keychain_enabled :: bool
  mkr_health :: master_key_health

definition master_key_report_for ::
  "platform \<Rightarrow> 'k keyring \<Rightarrow> custody_inputs \<Rightarrow> master_key_health \<Rightarrow> 'k custody_world \<Rightarrow> custody_error + master_key_report" where
  "master_key_report_for P R I hl w =
     bindE (read_json (cw_kcv w)) (\<lambda>recorded.
     bindE (read_retired_index w) (\<lambda>retired.
     bindE (read_json (cw_format w)) (\<lambda>format.
     Inr \<lparr>mkr_recorded = recorded,
       mkr_candidates = map (\<lambda>(src, key). let kcv = key_check_value P key in
         \<lparr>cr_source = src, cr_kcv = kcv, cr_matches_recorded = (map_option kv_kcv recorded = Some kcv)\<rparr>) (candidates P R I w),
       mkr_retired = retired, mkr_data_format = format, mkr_keychain_enabled = ci_keychain_enabled I, mkr_health = hl\<rparr>)))"

end
