(* ===== verification/Custody_Safety.thy ===== *)
theory Custody_Safety
  imports Key_Changes
begin

text \<open>
  What custody promises (crates/core/crypto/src/custody.rs): a folder with a recorded key check value is
  only ever opened with a key that has it, and no operation loses a key it could read.
\<close>

section \<open>Frames\<close>

lemma keeps_if [intro]: "keeps I m \<Longrightarrow> keeps I n \<Longrightarrow> keeps I (if b then m else n)"
  by simp

lemma keeps_option [intro]: "keeps I m \<Longrightarrow> (\<And>x. keeps I (f x)) \<Longrightarrow> keeps I (case v of None \<Rightarrow> m | Some x \<Rightarrow> f x)"
  by (cases v) auto

lemma keeps_keychain_state [intro]:
  "(\<And>k. keeps I (f k)) \<Longrightarrow> keeps I a \<Longrightarrow> keeps I b \<Longrightarrow> keeps I c \<Longrightarrow>
   keeps I (case v of KeyHeld k \<Rightarrow> f k | KeychainEmpty \<Rightarrow> a | KeychainCorrupt \<Rightarrow> b | KeychainUnavailable \<Rightarrow> c)"
  by (cases v) auto

text \<open>What the three steps of the ladder that write keep, the ladder keeps.\<close>

lemma load_keeps:
  assumes "\<And>key. keeps I (store_in_keychain P R kc key)" "\<And>key. keeps I (publish_master P L key)"
    and "\<And>key. keeps I (retire_matching_legacy_key P L key)"
  shows "keeps I (load_master_key_guarded P R kc L env allow ev)"
proof -
  have a: "keeps I (adopt_or_generate P L allow ev legacy)" for legacy by (auto simp: keeps_def adopt_or_generate_def)
  have s: "keeps I (seed_keychain P R kc L allow ev legacy)" for legacy
    unfolding seed_keychain_def
    by (intro keeps_bindS keeps_pure keeps_if keeps_option keeps_keychain_state a assms)
  have f: "keeps I (file_fallback P L allow ev legacy)" for legacy
    unfolding file_fallback_def by (intro keeps_bindS keeps_pure keeps_if keeps_option assms)
  show ?thesis unfolding load_master_key_guarded_def
    by (intro keeps_bindS keeps_pure keeps_if keeps_option keeps_keychain_state s f assms)
qed

lemma ladder_steps_more:
  "store_in_keychain P R kc key w = (r, t) \<Longrightarrow> key_world.more t = key_world.more w"
  "publish_master P L key w = (r1, t) \<Longrightarrow> key_world.more t = key_world.more w"
  "retire_matching_legacy_key P L key w = (r2, t) \<Longrightarrow> key_world.more t = key_world.more w"
  by (auto simp: store_in_keychain_def publish_master_def split: prod.splits dest!: retire_matching_cases)

lemma load_more:
  assumes "load_master_key_guarded P R kc L env allow ev w = (r, t)"
  shows "key_world.more t = key_world.more w"
proof -
  have "keeps (\<lambda>v. key_world.more v = key_world.more w) (load_master_key_guarded P R kc L env allow ev)"
    by (rule load_keeps; rule keepsI) (metis ladder_steps_more)+
  from keepsD [of "\<lambda>v. key_world.more v = key_world.more w" _ w, OF this refl assms] show ?thesis .
qed

lemma same_records:
  fixes w t :: "'k custody_world"
  assumes "key_world.more t = key_world.more w"
  shows "cw_kcv t = cw_kcv w" "cw_index t = cw_index w" "cw_format t = cw_format w" "cw_retired t = cw_retired w"
  using assms by (cases t; cases w; simp)+

lemmas load_records = same_records [OF load_more]

section \<open>The recorded key\<close>

lemma resolve_recorded_Inr:
  assumes "resolve_recorded P R I D record all primary source w = (Inr r, t)"
  shows "key_check_value P (res_key r) = kv_kcv record"
  using assms
  by (auto simp: resolve_recorded_def keep_primary_def recovered_def dest!: find_SomeD split: if_splits option.splits prod.splits)

lemma find_candidate:
  assumes "find (\<lambda>(_, key). key_check_value P key = kcv) cs = Some c"
  shows "c \<in> set cs" "key_check_value P (snd c) = kcv"
  using assms by (auto dest!: find_SomeD split: prod.splits)

lemma vault_retire_keeps:
  assumes "\<And>u r t key. store_in_keychain P R (retired_account I (key_check_value P key)) key u = (r, t) \<Longrightarrow> J u \<Longrightarrow> J t"
    and "\<And>u f. J u \<Longrightarrow> J (u\<lparr>cw_retired := f\<rparr>)" "\<And>u f. J u \<Longrightarrow> J (u\<lparr>cw_index := f\<rparr>)"
  shows "keeps J (vault_retire P R I D site key pk)"
  unfolding vault_retire_def Let_def
proof (intro keeps_bindS keeps_pure keeps_if keeps_option)
  show "keeps J (retire_in_keychain P R I key)"
    unfolding retire_in_keychain_def Let_def
    by (intro keeps_bindS keeps_pure; rule keepsI) (use assms(1) in blast)
  show "keeps J (retire_in_file P D site key)"
    by (rule keepsI) (auto simp: retire_in_file_def Let_def assms(2) split: if_splits sum.splits option.splits prod.splits)
  show "keeps J (write_retired_index D (site + 3) x)" for x
    by (rule keepsI) (auto simp: write_retired_index_def write_atomic_def assms(3) split: if_splits)
qed

lemma retire_mismatched_records:
  "cw_kcv (retire_mismatched P R I D primary source w) = cw_kcv w"
proof -
  obtain q v where v: "vault_retire P R I D 0 primary (source = FromKeychain) w = (q, v)" by fastforce
  have "keeps (\<lambda>v. cw_kcv v = cw_kcv w) (vault_retire P R I D 0 primary (source = FromKeychain))"
    by (rule vault_retire_keeps) (auto simp: store_in_keychain_def split: prod.splits)
  from keepsD [of "\<lambda>v. cw_kcv v = cw_kcv w" _ w, OF this refl v] v show ?thesis by (simp add: retire_mismatched_def)
qed

text \<open>
  C18. A data folder is only ever opened with its own key: when a key check value is recorded, a key
  that resolves has it, wherever it was found, and the record stands; in a host that records, a
  folder without one has one afterwards, that of the key it was opened with.
\<close>

theorem resolve_uses_recorded_key:
  assumes "resolve P R I D w = (Inr r, t)"
  shows "case cw_kcv w of
      Json record \<Rightarrow> key_check_value P (res_key r) = kv_kcv record \<and> cw_kcv t = cw_kcv w
    | NoJson \<Rightarrow> ci_records_kcv I \<longrightarrow> (\<exists>record. cw_kcv t = Json record \<and> kv_kcv record = key_check_value P (res_key r))
    | BrokenJson \<Rightarrow> False"
proof -
  let ?load = "\<lambda>recorded. load_master_key_guarded P R (ci_keychain I) (cd_ladder D) (ci_env I) (ci_allow_file I) (guard_evidence I recorded w) w"
  show ?thesis
  proof (cases "cw_kcv w")
    case NoJson
    with assms obtain primary source v where l: "?load None = (Inr (primary, source), v)"
      and u: "resolve_unrecorded P R I D (vault_load_all P R I v) primary source v = (Inr r, t)"
      by (auto simp: resolve_def read_json_def bindS_liftE Let_def split: sum.splits prod.splits)
    from u show ?thesis using NoJson
      by (auto simp: resolve_unrecorded_def Let_def write_kcv_record_def write_atomic_def bindS_def keep_primary_def recovered_def
        split: if_splits option.splits prod.splits)
  next
    case BrokenJson
    with assms show ?thesis by (auto simp: resolve_def read_json_def bindS_liftE split: sum.splits)
  next
    case (Json rc)
    obtain q v where l: "?load (Some rc) = (q, v)" by fastforce
    have k: "cw_kcv v = cw_kcv w" by (rule load_records(1) [OF l])
    show ?thesis
    proof (cases q)
      case (Inl e)
      with assms l Json k show ?thesis
        by (auto simp: resolve_def read_json_def bindS_liftE recovered_def dest: find_candidate(2) split: sum.splits option.splits)
    next
      case (Inr p)
      obtain primary source where p: "p = (primary, source)" by fastforce
      from assms l Json Inr p have u: "resolve_recorded P R I D rc (vault_load_all P R I v) primary source v = (Inr r, t)"
        by (auto simp: resolve_def read_json_def bindS_liftE Let_def split: sum.splits)
      then have "cw_kcv t = cw_kcv v"
        by (auto simp: resolve_recorded_def retire_mismatched_records split: if_splits option.splits)
      with resolve_recorded_Inr [OF u] k Json show ?thesis by simp
    qed
  qed
qed

section \<open>Keys are never lost\<close>

text \<open>The inputs the host's are: the keychain is the folder's account, or none when it is disabled.\<close>

definition inputs_ok :: "custody_inputs \<Rightarrow> bool" where
  "inputs_ok I \<longleftrightarrow> ci_keychain I = (if ci_keychain_enabled I then OsKeychain (ci_account_base I) else DisabledKeychain)"

lemma host_inputs_ok: "host_inputs os_keychain host e = Some I \<Longrightarrow> inputs_ok I"
  by (auto simp: host_inputs_def inputs_ok_def Let_def split: if_splits)

text \<open>The keys the folder can be opened with: those of its candidates.\<close>

definition holds :: "platform \<Rightarrow> 'k keyring \<Rightarrow> custody_inputs \<Rightarrow> byte list \<Rightarrow> 'k custody_world \<Rightarrow> bool" where
  "holds P R I k w \<longleftrightarrow> k \<in> snd ` set (candidates P R I w)"

definition in_vault :: "platform \<Rightarrow> 'k keyring \<Rightarrow> custody_inputs \<Rightarrow> byte list \<Rightarrow> 'k custody_world \<Rightarrow> bool" where
  "in_vault P R I k w \<longleftrightarrow> (\<exists>entries e. read_retired_index w = Inr entries \<and> e \<in> set entries \<and> vault_load P R I e w = Inr k)"

lemma set_map_filter_option: "y \<in> set (List.map_filter f xs) \<longleftrightarrow> (\<exists>x\<in>set xs. f x = Some y)"
  by (induction xs) (auto simp: List.map_filter_simps split: option.split)

lemma vault_load_all_iff:
  "(e, k) \<in> set (vault_load_all P R I w) \<longleftrightarrow>
    (\<exists>entries. read_retired_index w = Inr entries \<and> e \<in> set entries \<and> vault_load P R I e w = Inr k)"
proof -
  have "(case x of Inr key \<Rightarrow> Some (d, key) | Inl _ \<Rightarrow> None) = Some (e, k) \<longleftrightarrow> d = e \<and> x = Inr k"
    for x :: "custody_error + byte list" and d by (cases x) auto
  then show ?thesis by (cases "read_retired_index w") (auto simp: vault_load_all_def set_map_filter_option)
qed

lemma in_vault_iff: "in_vault P R I k w \<longleftrightarrow> k \<in> snd ` set (vault_load_all P R I w)"
proof
  assume "in_vault P R I k w"
  then obtain e where "(e, k) \<in> set (vault_load_all P R I w)" unfolding in_vault_def vault_load_all_iff by blast
  then show "k \<in> snd ` set (vault_load_all P R I w)" by force
next
  assume "k \<in> snd ` set (vault_load_all P R I w)"
  then obtain e where "(e, k) \<in> set (vault_load_all P R I w)" by force
  then show "in_vault P R I k w" unfolding in_vault_def vault_load_all_iff by blast
qed

lemma holds_iff: "holds P R I k w \<longleftrightarrow>
    Option.bind (ci_env I) (decode_key P) = Some k \<or> held P R (ci_keychain I) k w \<or> in_vault P R I k w"
proof -
  have v: "in_vault P R I k w \<longleftrightarrow> k \<in> snd ` set (map (\<lambda>(entry, key). (KindRetired (re_kcv entry), key)) (vault_load_all P R I w))"
    unfolding in_vault_iff by force
  show ?thesis
    unfolding v holds_def candidates_def held_def
    by (simp only: set_append image_Un Un_iff) (auto split: option.split keychain_state.split sum.split)
qed

lemma keychain_get_other:
  assumes "keyring_laws R" "store_in_keychain P R (OsKeychain a) key w = (r, t)" "a \<noteq> b"
  shows "keychain_get P R (OsKeychain b) (kw_keyring t) = keychain_get P R (OsKeychain b) (kw_keyring w)"
proof -
  obtain ok where "kr_set R a (b64_encode P key) (kw_keyring w) = (ok, kw_keyring t)"
    using assms(2) by (auto simp: store_in_keychain_def keychain_store_def split: prod.splits)
  then have "kr_get R (kw_keyring t) b = kr_get R (kw_keyring w) b" using assms(1,3) unfolding keyring_laws_def by blast
  then show ?thesis by (simp add: keychain_get_def)
qed

lemma retired_account_neq: "ci_account_base I @ '':retired:'' @ kcv \<noteq> ci_account_base I"
  by simp

lemma vault_load_cong:
  assumes "keychain_get P R (retired_account I (re_kcv e)) (kw_keyring t) = keychain_get P R (retired_account I (re_kcv e)) (kw_keyring w)"
    and "cw_retired t (re_kcv e) = cw_retired w (re_kcv e)"
  shows "vault_load P R I e t = vault_load P R I e w"
  using assms by (simp add: vault_load_def)

lemma load_accounts:
  assumes "keyring_laws R" "inputs_ok I" "load_master_key_guarded P R (ci_keychain I) L env allow ev w = (r, t)"
  shows "keychain_get P R (retired_account I kcv) (kw_keyring t) = keychain_get P R (retired_account I kcv) (kw_keyring w)"
proof -
  let ?g = "\<lambda>v. keychain_get P R (retired_account I kcv) (kw_keyring v)"
  have s: "?g v = ?g u" if "store_in_keychain P R (ci_keychain I) key u = (q, v)" for key q u v
  proof (cases "ci_keychain_enabled I")
    case True
    with that assms(2) have "store_in_keychain P R (OsKeychain (ci_account_base I)) key u = (q, v)" by (simp add: inputs_ok_def)
    from keychain_get_other [OF assms(1) this] show ?thesis by (simp add: retired_account_def)
  next
    case False
    with that assms(2) show ?thesis by (auto simp: inputs_ok_def store_in_keychain_def keychain_store_def)
  qed
  have p: "?g v = ?g u" if "publish_master P L key u = (q, v)" for key q u v
    using that by (auto simp: publish_master_def split: prod.splits)
  have m: "?g v = ?g u" if "retire_matching_legacy_key P L key u = (q, v)" for key q u v
    using retire_matching_cases [OF that] by auto
  have "keeps (\<lambda>v. ?g v = ?g w) (load_master_key_guarded P R (ci_keychain I) L env allow ev)"
    by (rule load_keeps; rule keepsI) (metis s p m)+
  from keepsD [of "\<lambda>v. ?g v = ?g w" _ w, OF this refl assms(3)] show ?thesis .
qed

lemma load_holds:
  assumes "keyring_laws R" "inputs_ok I" "load_master_key_guarded P R (ci_keychain I) L env allow ev w = (r, t)" "holds P R I k w"
  shows "holds P R I k t"
proof -
  have v: "vault_load P R I e t = vault_load P R I e w" for e
    using load_accounts [OF assms(1-3)] load_records(4) [OF assms(3)] by (intro vault_load_cong) simp_all
  have "read_retired_index t = read_retired_index w" using load_records(2) [OF assms(3)] by (simp add: read_retired_index_def)
  then have "in_vault P R I k t = in_vault P R I k w" by (simp add: in_vault_def v)
  with load_held [OF assms(3)] assms(4) show ?thesis unfolding holds_iff by blast
qed

text \<open>A key moved to the vault: nothing the vault or a slot held is touched.\<close>

lemma holds_extends:
  assumes "holds P R I k w"
    and "keychain_get P R (ci_keychain I) (kw_keyring t) = keychain_get P R (ci_keychain I) (kw_keyring w)"
    and "kw_paths t = kw_paths w"
    and "\<And>entries e. read_retired_index w = Inr entries \<Longrightarrow> e \<in> set entries \<Longrightarrow>
      (\<exists>more. read_retired_index t = Inr (entries @ more)) \<and> vault_load P R I e t = vault_load P R I e w"
  shows "holds P R I k t"
proof -
  have "in_vault P R I k t" if "in_vault P R I k w"
    using that assms(4) unfolding in_vault_def by (metis Un_iff set_append)
  with assms(1-3) show ?thesis by (auto simp: holds_iff held_def)
qed

lemma retire_in_keychain_frame:
  assumes "keyring_laws R" "inputs_ok I" "retire_in_keychain P R I key w = (r, t)"
  shows "key_world.more t = key_world.more w" "kw_paths t = kw_paths w"
    "keychain_get P R (ci_keychain I) (kw_keyring t) = keychain_get P R (ci_keychain I) (kw_keyring w)"
    "kcv \<noteq> key_check_value P key \<Longrightarrow>
      keychain_get P R (retired_account I kcv) (kw_keyring t) = keychain_get P R (retired_account I kcv) (kw_keyring w)"
proof -
  let ?a = "ci_account_base I @ '':retired:'' @ key_check_value P key"
  from assms(3) obtain q where s: "store_in_keychain P R (OsKeychain ?a) key w = (q, t)"
    by (auto simp: retire_in_keychain_def retired_account_def Let_def bindS_def split: prod.splits sum.splits)
  show "key_world.more t = key_world.more w" "kw_paths t = kw_paths w"
    using s by (auto simp: store_in_keychain_def split: prod.splits)
  show "keychain_get P R (ci_keychain I) (kw_keyring t) = keychain_get P R (ci_keychain I) (kw_keyring w)"
    using keychain_get_other [OF assms(1) s, of "ci_account_base I"] assms(2) by (auto simp: inputs_ok_def keychain_get_def)
  show "kcv \<noteq> key_check_value P key \<Longrightarrow>
      keychain_get P R (retired_account I kcv) (kw_keyring t) = keychain_get P R (retired_account I kcv) (kw_keyring w)"
    using keychain_get_other [OF assms(1) s] by (simp add: retired_account_def)
qed

lemma retire_in_file_frame:
  assumes "retire_in_file P D site key w = (r, t)"
  shows "kw_keyring t = kw_keyring w" "kw_paths t = kw_paths w" "cw_index t = cw_index w" "cw_kcv t = cw_kcv w"
    "kcv \<noteq> key_check_value P key \<Longrightarrow> cw_retired t kcv = cw_retired w kcv"
  using assms by (auto simp: retire_in_file_def Let_def split: if_splits sum.splits option.splits prod.splits)

text \<open>The steps of \<open>vault_retire\<close> that do something: the slot, the file, the index.\<close>

lemma vault_retire_steps:
  assumes "vault_retire P R I D site key pk w = (r, t)"
  obtains (unchanged) "t = w"
  | (stored) index stored u q v where "read_retired_index w = Inr index" "find (\<lambda>entry. re_kcv entry = key_check_value P key) index = None"
      "length index < MAX_RETIRED_KEYS"
      "(if pk \<and> ci_keychain_enabled I then retire_in_keychain P R I key else retS False) w = (Inr stored, u)"
      "(if stored then retS () else retire_in_file P D site key) u = (q, v)"
      "\<forall>e. q = Inl e \<longrightarrow> r = Inl e \<and> t = v"
      "\<forall>x. q = Inr x \<longrightarrow> (let entry = \<lparr>re_kcv = key_check_value P key,
          re_custody = (if stored then ''keychain'' else ''file''), re_retired_at = cd_now D\<rparr> in
        bindS (write_retired_index D (site + 3) (index @ [entry])) (\<lambda>_. retS entry)) v = (r, t)"
proof (cases "read_retired_index w")
  case (Inl e)
  with assms have "t = w" by (simp add: vault_retire_def Let_def bindS_liftE)
  then show ?thesis by (rule unchanged)
next
  case (Inr index)
  let ?kcv = "key_check_value P key"
  show ?thesis
  proof (cases "find (\<lambda>entry. re_kcv entry = ?kcv) index = None \<and> length index < MAX_RETIRED_KEYS")
    case False
    with assms Inr have "t = w" by (auto simp: vault_retire_def Let_def bindS_liftE split: option.splits if_splits)
    then show ?thesis by (rule unchanged)
  next
    case True
    obtain stored u where m: "(if pk \<and> ci_keychain_enabled I then retire_in_keychain P R I key else retS False) w = (Inr stored, u)"
    proof -
      have "\<exists>st u. retire_in_keychain P R I key w = (Inr st, u)"
        by (cases "keychain_store P R (retired_account I ?kcv) key (kw_keyring w)")
          (simp add: retire_in_keychain_def Let_def store_in_keychain_def bindS_def)
      then show ?thesis using that by (cases "pk \<and> ci_keychain_enabled I") auto
    qed
    obtain q v where n: "(if stored then retS () else retire_in_file P D site key) u = (q, v)" by fastforce
    let ?K = "let entry = \<lparr>re_kcv = ?kcv, re_custody = (if stored then ''keychain'' else ''file''), re_retired_at = cd_now D\<rparr> in
       bindS (write_retired_index D (site + 3) (index @ [entry])) (\<lambda>_. retS entry)"
    have "bindS (if stored then retS () else retire_in_file P D site key) (\<lambda>_. ?K) u = (r, t)"
      using assms Inr True m by (simp add: vault_retire_def Let_def bindS_liftE not_le)
    then have "(case q of Inl e \<Rightarrow> (Inl e, v) | Inr x \<Rightarrow> ?K v) = (r, t)" using n by (cases q) (simp_all only: bindS_Inl bindS_Inr sum.case)
    then have rest: "\<forall>e. q = Inl e \<longrightarrow> r = Inl e \<and> t = v" "\<forall>x. q = Inr x \<longrightarrow> ?K v = (r, t)" by auto
    from True have "find (\<lambda>entry. re_kcv entry = ?kcv) index = None" "length index < MAX_RETIRED_KEYS" by auto
    then show ?thesis by (rule stored [OF Inr _ _ m n rest])
  qed
qed

lemma vault_retire_frame:
  assumes "keyring_laws R" "inputs_ok I" "vault_retire P R I D site key pk w = (r, t)"
  shows "kw_paths t = kw_paths w" "cw_kcv t = cw_kcv w"
    "keychain_get P R (ci_keychain I) (kw_keyring t) = keychain_get P R (ci_keychain I) (kw_keyring w)"
    "read_retired_index w = Inr entries \<Longrightarrow> e \<in> set entries \<Longrightarrow>
      (\<exists>more. read_retired_index t = Inr (entries @ more)) \<and> vault_load P R I e t = vault_load P R I e w"
proof -
  let ?g = "\<lambda>v. keychain_get P R (ci_keychain I) (kw_keyring v)"
  have "kw_paths t = kw_paths w \<and> cw_kcv t = cw_kcv w \<and> ?g t = ?g w
    \<and> (\<forall>entries e. read_retired_index w = Inr entries \<longrightarrow> e \<in> set entries \<longrightarrow>
      (\<exists>more. read_retired_index t = Inr (entries @ more)) \<and> vault_load P R I e t = vault_load P R I e w)"
    using assms(3)
  proof (cases rule: vault_retire_steps)
    case unchanged
    then show ?thesis by (metis append_Nil2)
  next
    case (stored index st u q v)
    let ?kcv = "key_check_value P key"
    have u: "key_world.more u = key_world.more w" "kw_paths u = kw_paths w" "?g u = ?g w"
      and ua: "\<And>kcv. kcv \<noteq> ?kcv \<Longrightarrow>
        keychain_get P R (retired_account I kcv) (kw_keyring u) = keychain_get P R (retired_account I kcv) (kw_keyring w)"
      using stored(4) retire_in_keychain_frame [OF assms(1,2)] by (auto split: if_splits)
    note ur = same_records [OF u(1)]
    have v: "kw_keyring v = kw_keyring u" "kw_paths v = kw_paths u" "cw_index v = cw_index u" "cw_kcv v = cw_kcv u"
      and vr: "\<And>kcv. kcv \<noteq> ?kcv \<Longrightarrow> cw_retired v kcv = cw_retired u kcv"
      using stored(5) retire_in_file_frame by (auto split: if_splits)
    have t: "kw_keyring t = kw_keyring v \<and> kw_paths t = kw_paths v \<and> cw_kcv t = cw_kcv v \<and> cw_retired t = cw_retired v
      \<and> (\<exists>more. read_retired_index t = Inr (index @ more))"
    proof (cases q)
      case (Inl e)
      with stored(1,6) v(3) ur(2) show ?thesis by (auto simp: read_retired_index_def)
    next
      case (Inr x)
      with stored(1,7) v(3) ur(2) show ?thesis
        by (auto simp: write_retired_index_def write_atomic_def read_retired_index_def read_json_def Let_def bindS_def split: if_splits)
    qed
    have "vault_load P R I e t = vault_load P R I e w" if "e \<in> set index" for e
    proof -
      have "re_kcv e \<noteq> ?kcv" using stored(2) that by (auto simp: find_None_iff)
      then show ?thesis using ua vr t v(1) ur(4) by (intro vault_load_cong) simp_all
    qed
    then show ?thesis using t u(2,3) v(1,2,4) ur(1) stored(1) by auto
  qed
  then show "kw_paths t = kw_paths w" "cw_kcv t = cw_kcv w" "?g t = ?g w"
    "read_retired_index w = Inr entries \<Longrightarrow> e \<in> set entries \<Longrightarrow>
      (\<exists>more. read_retired_index t = Inr (entries @ more)) \<and> vault_load P R I e t = vault_load P R I e w" by blast+
qed

lemma vault_retire_holds:
  assumes "keyring_laws R" "inputs_ok I" "vault_retire P R I D site key pk w = (r, t)" "holds P R I k w"
  shows "holds P R I k t"
  by (rule holds_extends [OF assms(4)]) (use vault_retire_frame [OF assms(1-3)] in blast)+

lemma candidates_kcv [simp]: "candidates P R I (w\<lparr>cw_kcv := x\<rparr>) = candidates P R I w"
proof -
  have "vault_load P R I e (w\<lparr>cw_kcv := x\<rparr>) = vault_load P R I e w" for e by (simp add: vault_load_def)
  then show ?thesis by (simp add: candidates_def vault_load_all_def read_retired_index_def cong: sum.case_cong)
qed

lemma write_kcv_record_holds: "write_kcv_record D site kcv custody w = (r, t) \<Longrightarrow> holds P R I k t = holds P R I k w"
  by (auto simp: write_kcv_record_def write_atomic_def holds_def split: if_splits)

lemma retire_mismatched_holds:
  assumes "keyring_laws R" "inputs_ok I" "holds P R I k w"
  shows "holds P R I k (retire_mismatched P R I D primary source w)"
proof -
  obtain q v where "vault_retire P R I D 0 primary (source = FromKeychain) w = (q, v)" by fastforce
  with vault_retire_holds [OF assms(1,2) this assms(3)] assms(3) show ?thesis by (simp add: retire_mismatched_def)
qed

lemma resolve_holds:
  assumes "keyring_laws R" "inputs_ok I" "resolve P R I D w = (r, t)" "holds P R I k w"
  shows "holds P R I k t"
proof (cases "check_data_format w = Inr () \<and> (\<exists>recorded. read_json (cw_kcv w) = Inr recorded)")
  case False
  with assms(3,4) show ?thesis by (auto simp: resolve_def bindS_liftE split: sum.splits)
next
  case True
  then obtain recorded where rd: "check_data_format w = Inr ()" "read_json (cw_kcv w) = Inr recorded" by blast
  obtain q v where l: "load_master_key_guarded P R (ci_keychain I) (cd_ladder D) (ci_env I) (ci_allow_file I) (guard_evidence I recorded w) w = (q, v)"
    by fastforce
  have v: "holds P R I k v" by (rule load_holds [OF assms(1,2) l assms(4)])
  note m = retire_mismatched_holds [OF assms(1,2) v]
  show ?thesis
  proof (cases q)
    case (Inl e)
    with assms(3) rd l v show ?thesis by (auto simp: resolve_def split: option.splits)
  next
    case (Inr p)
    obtain primary source where p: "p = (primary, source)" by fastforce
    show ?thesis
    proof (cases recorded)
      case None
      with assms(3) rd l Inr p have "resolve_unrecorded P R I D (vault_load_all P R I v) primary source v = (r, t)"
        by (simp add: resolve_def Let_def)
      then show ?thesis using v m
        by (auto simp: resolve_unrecorded_def Let_def write_kcv_record_holds split: if_splits option.splits elim!: bindS_cases)
    next
      case (Some rc)
      with assms(3) rd l Inr p have "resolve_recorded P R I D rc (vault_load_all P R I v) primary source v = (r, t)"
        by (simp add: resolve_def Let_def)
      then show ?thesis using v m by (auto simp: resolve_recorded_def split: if_splits option.splits)
    qed
  qed
qed

lemma vault_retire_entry:
  assumes "vault_retire P R I D site key pk w = (Inr entry, t)"
  shows "\<exists>entries. read_retired_index t = Inr entries \<and> entry \<in> set entries"
proof (cases "\<exists>index. read_retired_index w = Inr index \<and> find (\<lambda>e. re_kcv e = key_check_value P key) index \<noteq> None")
  case True
  with assms show ?thesis by (auto simp: vault_retire_def Let_def dest: find_SomeD)
next
  case False
  from assms show ?thesis
  proof (cases rule: vault_retire_steps)
    case unchanged
    with assms False show ?thesis
      by (auto simp: vault_retire_def Let_def bindS_liftE write_retired_index_def write_atomic_def read_retired_index_def read_json_def
        elim!: bindS_cases split: sum.splits option.splits if_splits)
  next
    case (stored index st u q v)
    then obtain x where "q = Inr x" by (cases q) auto
    with stored(7) show ?thesis
      by (auto simp: write_retired_index_def write_atomic_def read_retired_index_def read_json_def Let_def bindS_def split: if_splits)
  qed
qed

lemma candidates_slot:
  "(KindFile, k) \<in> set (candidates P R I w) \<Longrightarrow> read_key_file P (kp_master (kw_paths w)) = Inr (Some k)"
  "(KindLegacyMemory, k) \<in> set (candidates P R I w) \<Longrightarrow> read_key_file P (kp_legacy (kw_paths w)) = Inr (Some k)"
  by (auto simp: candidates_def split: option.splits keychain_state.splits sum.splits)

lemma in_vault_paths [simp]: "in_vault P R I k (w\<lparr>kw_paths := ps\<rparr>) = in_vault P R I k w"
  by (simp add: in_vault_def read_retired_index_def vault_load_def)

lemma retire_with_holds:
  assumes "keyring_laws R" "inputs_ok I" "retire_with P R I D kcv w = (r, t)" "holds P R I k w"
  shows "holds P R I k t"
proof (cases "t = w")
  case True
  with assms(4) show ?thesis by simp
next
  case False
  with assms(3) obtain kind key q v where
    f: "find (\<lambda>(kind, key). key_check_value P key = kcv \<and> \<not> is_retired_kind kind) (candidates P R I w) = Some (kind, key)"
    and v: "vault_retire P R I D 0 key (ci_keychain_enabled I) w = (q, v)"
    and t: "t = v \<or> (\<exists>entry. q = Inr entry \<and> vault_load P R I entry v = Inr key
      \<and> (kind = KindFile \<and> t = v\<lparr>kw_paths := (kw_paths v)\<lparr>kp_master := NoFile\<rparr>\<rparr>
        \<or> kind = KindLegacyMemory \<and> t = v\<lparr>kw_paths := (kw_paths v)\<lparr>kp_legacy := NoFile\<rparr>\<rparr>))"
    by (auto simp: retire_with_def bindS_liftE ok_or_def elim!: bindS_cases split: sum.splits option.splits if_splits)
  have hv: "holds P R I k v" by (rule vault_retire_holds [OF assms(1,2) v assms(4)])
  have p: "kw_paths v = kw_paths w" by (rule vault_retire_frame(1) [OF assms(1,2) v])
  have c: "(kind, key) \<in> set (candidates P R I w)" using f by (auto dest: find_SomeD)
  from t show ?thesis
  proof
    assume "t = v"
    with hv show ?thesis by simp
  next
    assume "\<exists>entry. q = Inr entry \<and> vault_load P R I entry v = Inr key
      \<and> (kind = KindFile \<and> t = v\<lparr>kw_paths := (kw_paths v)\<lparr>kp_master := NoFile\<rparr>\<rparr>
        \<or> kind = KindLegacyMemory \<and> t = v\<lparr>kw_paths := (kw_paths v)\<lparr>kp_legacy := NoFile\<rparr>\<rparr>)"
    then obtain entry where e: "q = Inr entry" "vault_load P R I entry v = Inr key"
      and s: "kind = KindFile \<and> t = v\<lparr>kw_paths := (kw_paths v)\<lparr>kp_master := NoFile\<rparr>\<rparr>
        \<or> kind = KindLegacyMemory \<and> t = v\<lparr>kw_paths := (kw_paths v)\<lparr>kp_legacy := NoFile\<rparr>\<rparr>" by blast
    have "in_vault P R I key v" using vault_retire_entry [OF v [unfolded e(1)]] e(2) unfolding in_vault_def by blast
    with s c hv p candidates_slot(1) [of key P R I w] candidates_slot(2) [of key P R I w] show ?thesis unfolding holds_iff held_def by auto
  qed
qed

text \<open>
  C19. Neither a resolution nor \<open>keys retire\<close> loses a key, whatever fails on the way: every key a candidate
  slot or the vault held can still be read from one of them, also when a mismatched key is moved to the
  vault and when a retired key's file is removed.
\<close>

theorem custody_loses_no_key:
  assumes "keyring_laws R" "inputs_ok I" "resolve P R I D w = (r, t) \<or> retire_with P R I D kcv w = (q, t)"
    and "holds P R I k w"
  shows "holds P R I k t"
  using assms(3) resolve_holds [OF assms(1,2) _ assms(4)] retire_with_holds [OF assms(1,2) _ assms(4)] by blast

end
