(* ===== verification/Custody_Adopt.thy ===== *)
theory Custody_Adopt
  imports Custody_Safety
begin

text \<open>
  \<open>keys adopt\<close>, key bundles and recovered folders (crates/core/crypto/src/custody.rs): an adopted key is the
  folder's key and the keys it replaces are kept, a bundle carries its keys, and a folder recovered from
  one opens with them.
\<close>

section \<open>Adopting a key\<close>

lemma decode_key_length: "decode_key P s = Some k \<Longrightarrow> length k = KEY_LEN"
  by (auto simp: decode_key_def split: option.splits if_splits)

lemma keychain_get_length: "keychain_get P R kc kr = KeyHeld k \<Longrightarrow> length k = KEY_LEN"
  by (auto simp: keychain_get_def dest: decode_key_length split: keychain.splits keyring_reply.splits option.splits)

lemma vault_load_length: "vault_load P R I e w = Inr k \<Longrightarrow> length k = KEY_LEN"
  by (auto simp: vault_load_def bindE_eq_Inr ok_or_def dest: keychain_get_length read_key_file_length
    split: if_splits keychain_state.splits option.splits)

lemma holds_length: "holds P R I k w \<Longrightarrow> length k = KEY_LEN"
  by (auto simp: holds_iff held_def in_vault_def Option.bind_eq_Some_conv dest: keychain_get_length read_key_file_length vault_load_length decode_key_length)

text \<open>After the keys to retire, the new key is stored and recorded.\<close>

lemma store_current_Inr:
  assumes "b64_laws P" "length key = KEY_LEN" "store_current P R I D key w = (Inr custody, t)"
  shows "held P R (ci_keychain I) key t"
  using assms by (auto simp: store_current_def held_def write_atomic_def elim!: bindS_cases split: if_splits)

lemma install_current_Inr:
  assumes "b64_laws P" "length key = KEY_LEN" "install_current P R I D key extra w = (Inr out, t)"
  shows "held P R (ci_keychain I) key t" "\<exists>rc. cw_kcv t = Json rc \<and> kv_kcv rc = key_check_value P key"
    "ao_kcv out = key_check_value P key"
proof -
  from assms(3) obtain custody u v x where s: "store_current P R I D key u = (Inr custody, v)"
    and k: "write_kcv_record D 1 (key_check_value P key) custody v = (Inr x, t)" and o: "ao_kcv out = key_check_value P key"
    by (auto simp: install_current_def Let_def elim!: bindS_cases split: if_splits)
  have "held P R (ci_keychain I) key v" by (rule store_current_Inr [OF assms(1,2) s])
  then show "held P R (ci_keychain I) key t" "\<exists>rc. cw_kcv t = Json rc \<and> kv_kcv rc = key_check_value P key"
    using k by (auto simp: write_kcv_record_def write_atomic_def held_def split: if_splits)
  show "ao_kcv out = key_check_value P key" by (rule o)
qed

lemma load_source:
  assumes "load_master_key_guarded P R kc L None allow ev w = (Inr (k, src), t)"
  shows "src \<noteq> FromEnv"
proof -
  have f: "src \<noteq> FromEnv" if "file_fallback P L allow ev legacy w = (Inr (k, src), t)" for legacy
    using that unfolding file_fallback_step by (auto split: ladder_splits)
  have s: "src \<noteq> FromEnv" if g: "seed_keychain P R kc L allow ev legacy w = (Inr (k, src), t)" for legacy
    using g by (auto simp: seed_keychain_def elim!: bindS_cases split: ladder_splits)
  from assms f s show ?thesis by (auto simp: load_step split: ladder_splits)
qed

lemma find_some: "x \<in> set xs \<Longrightarrow> p x \<Longrightarrow> \<exists>y. find p xs = Some y"
  by (cases "find p xs") (auto simp: find_None_iff)

text \<open>A key that is held and recorded is the one a restart without \<open>RYU_MASTER_KEY\<close> resolves.\<close>

lemma recorded_key_resolves:
  assumes "held P R (ci_keychain I) key w" "cw_kcv w = Json rc" "kv_kcv rc = key_check_value P key"
    and "check_data_format w = Inr ()" "ci_env I = None"
  shows "\<exists>r v. resolve P R I D w = (Inr r, v) \<and> key_check_value P (res_key r) = key_check_value P key"
proof -
  obtain q v where l: "load_master_key_guarded P R (ci_keychain I) (cd_ladder D) (ci_env I) (ci_allow_file I) (guard_evidence I (Some rc) w) w = (q, v)"
    by fastforce
  have "held P R (ci_keychain I) key v" by (rule load_held [OF l assms(1)])
  then have "holds P R I key v" by (simp add: holds_iff)
  then obtain kind where "(kind, key) \<in> set (candidates P R I v)" by (auto simp: holds_def)
  from find_some [OF this, of "\<lambda>(_, key). key_check_value P key = kv_kcv rc"]
  obtain c where c: "find (\<lambda>(_, key). key_check_value P key = kv_kcv rc) (candidates P R I v) = Some c" using assms(3) by auto
  note ck = find_candidate(2) [OF c]
  have j: "read_json (cw_kcv w) = Inr (Some rc)" by (simp add: assms(2) read_json_def)
  show ?thesis
  proof (cases q)
    case (Inl e)
    with l c j assms(4) have "resolve P R I D w = (Inr (recovered (vault_load_all P R I v) c), v)" by (simp add: resolve_def)
    with ck assms(3) show ?thesis by (simp add: recovered_def)
  next
    case (Inr p)
    obtain primary source where p: "p = (primary, source)" by fastforce
    have s: "source \<noteq> FromEnv" using l unfolding Inr p assms(5) by (rule load_source)
    have "resolve P R I D w = resolve_recorded P R I D rc (vault_load_all P R I v) primary source v"
      using l j assms(4) unfolding Inr p by (simp add: resolve_def Let_def)
    moreover have "\<exists>r u. resolve_recorded P R I D rc (vault_load_all P R I v) primary source v = (Inr r, u)"
      using s c by (simp add: resolve_recorded_def)
    ultimately show ?thesis using resolve_recorded_Inr assms(3) by metis
  qed
qed

lemma retire_each_keeps:
  "(\<And>site key. keeps J (vault_retire P R I D site key (ci_keychain_enabled I))) \<Longrightarrow> keeps J (retire_each P R I D site ks)"
  by (induction ks arbitrary: site) auto

lemma install_current_format:
  assumes "install_current P R I D key extra w = (r, t)"
  shows "cw_format t = cw_format w"
proof -
  let ?J = "\<lambda>v. cw_format v = cw_format w"
  have st: "store_in_keychain P R kc k u = (q, v) \<Longrightarrow> ?J u \<Longrightarrow> ?J v" for kc k u q v
    by (auto simp: store_in_keychain_def split: prod.splits)
  have "keeps ?J (retire_each P R I D site ks)" for site ks
    by (intro retire_each_keeps vault_retire_keeps) (use st in auto)
  moreover have "keeps ?J (store_current P R I D key)"
    unfolding store_current_def
    by (intro keeps_bindS keeps_pure keeps_if; rule keepsI) (auto dest: st simp: write_atomic_def split: if_splits)
  moreover have "keeps ?J (write_kcv_record D site kcv custody)" for site kcv custody
    by (rule keepsI) (auto simp: write_kcv_record_def write_atomic_def split: if_splits)
  ultimately have "keeps ?J (install_current P R I D key extra)"
    unfolding install_current_def Let_def by (intro keeps_bindS keeps_pure keeps_if) auto
  from keepsD [of ?J _ w, OF this refl assms] show ?thesis .
qed

lemma adopt_with_installs:
  assumes "adopt_with P R I D src acc w = (Inr out, t)"
  obtains key where "length key = KEY_LEN" "install_current P R I D key [] w = (Inr out, t)"
proof -
  from assms obtain key where c: "candidate_key P R I src w = Inr key" and i: "install_current P R I D key [] w = (Inr out, t)"
    by (auto simp: adopt_with_def bindS_liftE split: sum.splits if_splits)
  have "holds P R I key w"
    using c by (auto simp: candidate_key_def holds_def bindE_eq_Inr ok_or_def dest!: find_SomeD split: option.splits prod.splits) force
  then show thesis using that i holds_length by blast
qed

text \<open>
  An adopted key is the folder's key: after \<open>keys adopt\<close> succeeds, a start without
  \<open>RYU_MASTER_KEY\<close> resolves a key with its key check value, whatever the keychain and the files do
  meanwhile.
\<close>

theorem adopted_key_resolves:
  assumes "b64_laws P" "check_data_format w = Inr ()" "adopt_with P R I D src acc w = (Inr out, t)"
  shows "\<exists>r v. resolve P R (I\<lparr>ci_env := None\<rparr>) D' t = (Inr r, v) \<and> key_check_value P (res_key r) = ao_kcv out"
proof -
  obtain key where len: "length key = KEY_LEN" and i: "install_current P R I D key [] w = (Inr out, t)"
    using adopt_with_installs [OF assms(3)] by blast
  note k = install_current_Inr [OF assms(1) len i]
  have f: "check_data_format t = Inr ()" using assms(2) install_current_format [OF i] by (simp add: check_data_format_def)
  obtain rc where rc: "cw_kcv t = Json rc" "kv_kcv rc = key_check_value P key" using k(2) by blast
  have "held P R (ci_keychain (I\<lparr>ci_env := None\<rparr>)) key t" using k(1) by simp
  from recorded_key_resolves [OF this rc f, of D'] show ?thesis using k(3) by simp
qed

section \<open>Adopting keeps the key it replaces\<close>

text \<open>A vault as the operations leave it: its entries load, and a key file there holds the key it is named after.\<close>

definition vault_tidy :: "platform \<Rightarrow> 'k keyring \<Rightarrow> custody_inputs \<Rightarrow> 'k custody_world \<Rightarrow> bool" where
  "vault_tidy P R I w \<longleftrightarrow>
     (\<forall>index e. read_retired_index w = Inr index \<longrightarrow> e \<in> set index \<longrightarrow> (\<exists>k. vault_load P R I e w = Inr k))
   \<and> (\<forall>kcv k. read_key_file P (cw_retired w kcv) = Inr (Some k) \<longrightarrow> key_check_value P k = kcv)"

definition in_index :: "string \<Rightarrow> 'k custody_world \<Rightarrow> bool" where
  "in_index kcv w \<longleftrightarrow> (\<exists>index. read_retired_index w = Inr index \<and> kcv \<in> re_kcv ` set index)"

lemma vault_load_kcv: "vault_load P R I e w = Inr k \<Longrightarrow> key_check_value P k = re_kcv e"
  by (auto simp: vault_load_def bindE_eq_Inr split: if_splits)

lemma tidy_holds: "vault_tidy P R I w \<Longrightarrow> in_index kcv w \<Longrightarrow> \<exists>k. holds P R I k w \<and> key_check_value P k = kcv"
  unfolding vault_tidy_def in_index_def holds_iff in_vault_def by (blast dest: vault_load_kcv)

lemma retire_in_file_Inr:
  assumes "b64_laws P" "length key = KEY_LEN" "cd_rival D = NoFile" "retire_in_file P D site key u = (Inr x, v)"
    and "\<And>k. read_key_file P (cw_retired u (key_check_value P key)) = Inr (Some k) \<Longrightarrow> key_check_value P k = key_check_value P key"
  shows "\<exists>k. read_key_file P (cw_retired v (key_check_value P key)) = Inr (Some k) \<and> key_check_value P k = key_check_value P key"
proof -
  have n: "f = NoFile" if "read_key_file P f = Inr None" for f
    using that by (auto simp: read_key_file_def split: key_file.splits if_splits option.splits)
  from assms(4) show ?thesis
    using assms(1-3,5) by (auto simp: retire_in_file_def write_key_file_def Let_def dest!: n split: if_splits sum.splits option.splits)
qed

lemma vault_retire_tidy:
  assumes "b64_laws P" "keyring_laws R" "inputs_ok I" "cd_rival D = NoFile" "length key = KEY_LEN"
    and "vault_tidy P R I w" "vault_retire P R I D site key pk w = (Inr entry, t)"
  shows "vault_tidy P R I t" "in_index (key_check_value P key) t"
proof -
  let ?kcv = "key_check_value P key"
  have "vault_tidy P R I t \<and> in_index ?kcv t"
  proof (cases "\<exists>index. read_retired_index w = Inr index \<and> find (\<lambda>e. re_kcv e = ?kcv) index \<noteq> None")
    case True
    then obtain index x where ix: "read_retired_index w = Inr index" "find (\<lambda>e. re_kcv e = ?kcv) index = Some x" by blast
    with assms(7) have "t = w" by (simp add: vault_retire_def Let_def)
    moreover have "?kcv \<in> re_kcv ` set index" using find_SomeD [OF ix(2)] by (metis image_eqI)
    ultimately show ?thesis using ix assms(6) by (simp add: in_index_def)
  next
    case False
    from assms(7) show ?thesis
    proof (cases rule: vault_retire_steps)
      case unchanged
      with assms(7) False have False
        by (auto simp: vault_retire_def Let_def bindS_liftE write_retired_index_def write_atomic_def read_retired_index_def read_json_def
          elim!: bindS_cases split: sum.splits option.splits if_splits)
      then show ?thesis ..
    next
      case (stored index st u q v)
      then obtain x where q: "q = Inr x" by (cases q) auto
      let ?e = "\<lparr>re_kcv = ?kcv, re_custody = (if st then ''keychain'' else ''file''), re_retired_at = cd_now D\<rparr>"
      have t: "t = v\<lparr>cw_index := Json (index @ [?e])\<rparr>"
        using stored(7) q by (auto simp: write_retired_index_def write_atomic_def Let_def bindS_def split: if_splits)
      have idx: "read_retired_index t = Inr (index @ [?e])" by (simp add: t read_retired_index_def read_json_def)
      have old: "\<exists>k. vault_load P R I e t = Inr k" if "e \<in> set index" for e
        using vault_retire_frame(4) [OF assms(2,3,7) stored(1) that] assms(6) stored(1) that unfolding vault_tidy_def by metis
      have ur: "cw_retired u = cw_retired w"
        using stored(4) same_records(4) [OF retire_in_keychain_frame(1) [OF assms(2,3)]] by (auto split: if_splits)
      have kfile: "\<exists>k. read_key_file P (cw_retired v ?kcv) = Inr (Some k) \<and> key_check_value P k = ?kcv" if "\<not> st"
        using retire_in_file_Inr [OF assms(1,5,4), of site u x v] stored(5) q that ur assms(6) by (simp add: vault_tidy_def)
      have new: "\<exists>k. vault_load P R I ?e t = Inr k"
      proof (cases st)
        case True
        with stored(4) have e: "ci_keychain_enabled I" and r: "retire_in_keychain P R I key w = (Inr True, u)" by (auto split: if_splits)
        then have "keychain_get P R (retired_account I ?kcv) (kw_keyring u) = KeyHeld key"
          by (auto simp: retire_in_keychain_def Let_def bindS_eq_Inr)
        with stored(5) True e show ?thesis by (simp add: vault_load_def t)
      next
        case False
        then show ?thesis using kfile by (auto simp: vault_load_def t)
      qed
      have v: "cw_retired v kcv = cw_retired w kcv" if "kcv \<noteq> ?kcv" for kcv
        using stored(5) retire_in_file_frame(5) [of P D site key u q v, OF _ that] ur by (cases st) auto
      have "key_check_value P k = kcv" if "read_key_file P (cw_retired t kcv) = Inr (Some k)" for kcv k
      proof (cases "kcv = ?kcv")
        case True
        show ?thesis
        proof (cases st)
          case st: True
          with stored(5) ur that True assms(6) show ?thesis by (simp add: vault_tidy_def t)
        next
          case False
          with kfile that True show ?thesis by (auto simp: t)
        qed
      next
        case False
        with v that assms(6) show ?thesis by (simp add: vault_tidy_def t)
      qed
      then have "vault_tidy P R I t" using old new idx by (auto simp: vault_tidy_def)
      then show ?thesis using idx by (auto simp: in_index_def)
    qed
  qed
  then show "vault_tidy P R I t" "in_index ?kcv t" by blast+
qed

lemma vault_retire_index:
  assumes "keyring_laws R" "inputs_ok I" "vault_retire P R I D site key pk w = (r, t)" "in_index kcv w"
  shows "in_index kcv t"
  using vault_retire_frame(4) [OF assms(1-3)] assms(4) unfolding in_index_def by fastforce

lemma retire_each_tidy:
  assumes "b64_laws P" "keyring_laws R" "inputs_ok I" "cd_rival D = NoFile"
    and "\<forall>k\<in>set ks. length k = KEY_LEN" "vault_tidy P R I w" "retire_each P R I D site ks w = (Inr x, t)"
  shows "vault_tidy P R I t \<and> kw_paths t = kw_paths w \<and> (\<forall>kcv. in_index kcv w \<longrightarrow> in_index kcv t)
    \<and> (\<forall>k\<in>set ks. in_index (key_check_value P k) t)"
  using assms(5-7)
proof (induction ks arbitrary: site w)
  case (Cons k ks)
  from Cons.prems(3) obtain e v where v: "vault_retire P R I D site k (ci_keychain_enabled I) w = (Inr e, v)"
    and r: "retire_each P R I D (site + 4) ks v = (Inr x, t)" by (auto simp: bindS_eq_Inr)
  have len: "length k = KEY_LEN" using Cons.prems(1) by simp
  note tv = vault_retire_tidy [OF assms(1-4) len Cons.prems(2) v]
  have "\<forall>k\<in>set ks. length k = KEY_LEN" using Cons.prems(1) by simp
  from Cons.IH [OF this tv(1) r] show ?case
    using tv(2) vault_retire_index [OF assms(2,3) v] vault_retire_frame(1) [OF assms(2,3) v] by auto
qed simp

lemma vault_stays:
  assumes "vault_tidy P R I w" "in_index kcv w" "cw_index t = cw_index w" "cw_retired t = cw_retired w"
    and "\<And>kcv. keychain_get P R (retired_account I kcv) (kw_keyring t) = keychain_get P R (retired_account I kcv) (kw_keyring w)"
  shows "vault_tidy P R I t" "in_index kcv t"
proof -
  have v: "vault_load P R I e t = vault_load P R I e w" for e
    by (rule vault_load_cong) (simp_all add: assms(4,5))
  have i: "read_retired_index t = read_retired_index w" by (simp add: read_retired_index_def assms(3))
  show "vault_tidy P R I t" "in_index kcv t" using assms(1,2,4) by (simp_all add: vault_tidy_def in_index_def v i)
qed

lemma store_current_vault:
  fixes w :: "'k custody_world"
  assumes "keyring_laws R" "inputs_ok I" "store_current P R I D key w = (r, t)"
  shows "cw_index t = cw_index w \<and> cw_retired t = cw_retired w
    \<and> keychain_get P R (retired_account I kcv) (kw_keyring t) = keychain_get P R (retired_account I kcv) (kw_keyring w)"
proof -
  let ?g = "\<lambda>v. keychain_get P R (retired_account I kcv) (kw_keyring v)"
  let ?J = "\<lambda>v. cw_index v = cw_index w \<and> cw_retired v = cw_retired w \<and> ?g v = ?g w"
  have s: "?J v" if "store_in_keychain P R (ci_keychain I) k u = (q, v)" "?J u" for k q and u v :: "'k custody_world"
  proof -
    have "?g v = ?g u"
    proof (cases "ci_keychain_enabled I")
      case True
      with that(1) assms(2) have "store_in_keychain P R (OsKeychain (ci_account_base I)) k u = (q, v)" by (simp add: inputs_ok_def)
      from keychain_get_other [OF assms(1) this] show ?thesis by (simp add: retired_account_def)
    next
      case False
      with that(1) assms(2) show ?thesis by (auto simp: inputs_ok_def store_in_keychain_def keychain_store_def)
    qed
    moreover have "cw_index v = cw_index u" "cw_retired v = cw_retired u"
      using same_records [OF ladder_steps_more(1) [OF that(1)]] by auto
    ultimately show ?thesis using that(2) by simp
  qed
  have "keeps ?J (store_current P R I D key)"
    unfolding store_current_def
    by (intro keeps_bindS keeps_pure keeps_if; rule keepsI) (use s in \<open>auto simp: write_atomic_def split: if_splits\<close>)
  from keepsD [of ?J _ w, OF this _ assms(3)] show ?thesis by simp
qed

lemma persistent_key_holds: "map_option fst (persistent_key P R I w) = Some k \<Longrightarrow> holds P R I k w"
  by (auto simp: holds_iff held_def persistent_key_def split: keychain_state.splits sum.splits option.splits)

lemma recorded_key_holds: "recorded_current_key P R I w = Inr (Some k) \<Longrightarrow> holds P R I k w"
  by (auto simp: holds_def recorded_current_key_def bindE_eq_Inr split: option.splits dest!: find_SomeD) force

lemma install_current_keeps:
  assumes "b64_laws P" "keyring_laws R" "inputs_ok I" "cd_rival D = NoFile" "vault_tidy P R I w" "length key = KEY_LEN"
    and "install_current P R I D key [] w = (Inr out, t)"
    and "map_option fst (persistent_key P R I w) = Some old \<or> recorded_current_key P R I w = Inr (Some old)"
  shows "\<exists>k. holds P R I k t \<and> key_check_value P k = key_check_value P old"
proof (cases "old = key")
  case True
  with install_current_Inr(1) [OF assms(1,6,7)] show ?thesis by (auto simp: holds_iff)
next
  case False
  from assms(7) obtain recorded ks u v custody x y where r: "recorded_current_key P R I w = Inr recorded"
    and ks: "ks = keys_to_retire key (map_option fst (persistent_key P R I w)) recorded []"
    and u: "retire_each P R I D 2 ks w = (Inr x, u)" and v: "store_current P R I D key u = (Inr custody, v)"
    and k: "write_kcv_record D 1 (key_check_value P key) custody v = (Inr y, t)"
    by (auto simp: install_current_def Let_def bindS_eq_Inr split: if_splits)
  have mem: "old \<in> set ks" using assms(8) r False
    by (auto simp: ks keys_to_retire_def add_distinct_def split: option.splits)
  have "length k' = KEY_LEN" if "k' \<in> set ks" for k'
  proof -
    have "map_option fst (persistent_key P R I w) = Some k' \<or> recorded = Some k'"
      using that by (cases "persistent_key P R I w") (auto simp: ks keys_to_retire_def add_distinct_def split: option.splits if_splits)
    then have "holds P R I k' w" using r persistent_key_holds recorded_key_holds by (metis (full_types))
    then show ?thesis by (rule holds_length)
  qed
  then have "\<forall>k'\<in>set ks. length k' = KEY_LEN" by blast
  from retire_each_tidy [OF assms(1-4) this assms(5) u] mem
  have tu: "vault_tidy P R I u" "in_index (key_check_value P old) u" by auto
  note sv = store_current_vault [OF assms(2,3) v]
  have tv: "vault_tidy P R I v" "in_index (key_check_value P old) v"
    using vault_stays [OF tu, of v] sv by auto
  have "cw_index t = cw_index v" "cw_retired t = cw_retired v" "kw_keyring t = kw_keyring v"
    using k by (auto simp: write_kcv_record_def write_atomic_def split: if_splits)
  with vault_stays [OF tv, of t] tidy_holds show ?thesis by auto
qed

text \<open>
  C21. \<open>keys adopt\<close> keeps the keys it replaces: when it succeeds on a tidy vault, the key the folder would have
  resolved from its keychain or its key file and the key it recorded can still be read, from the vault or a
  live slot, by their key check values.
\<close>

theorem adopting_keeps_the_old_key:
  assumes "b64_laws P" "keyring_laws R" "inputs_ok I" "cd_rival D = NoFile" "vault_tidy P R I w"
    and "adopt_with P R I D src acc w = (Inr out, t)"
    and "map_option fst (persistent_key P R I w) = Some old \<or> recorded_current_key P R I w = Inr (Some old)"
  shows "\<exists>k. holds P R I k t \<and> key_check_value P k = key_check_value P old"
proof -
  obtain key where key: "length key = KEY_LEN" "install_current P R I D key [] w = (Inr out, t)"
    using adopt_with_installs [OF assms(6)] by blast
  show ?thesis by (rule install_current_keeps [OF assms(1-5) key assms(7)])
qed

section \<open>Key bundles\<close>

text \<open>
  A sealed key bundle carries its keys: whoever holds the wrapping key opens it to the current key and
  the retired ones in order, without the current one among them.
\<close>

theorem bundle_round_trip:
  assumes "aead_laws P" "b64_laws P" "length n = NONCE_LEN" "length current = KEY_LEN" "\<forall>k\<in>set retired. length k = KEY_LEN"
    and "bundle_of_json J (bundle_json J (bundle_of P current (filter (\<lambda>k. k \<noteq> current) retired)))
      = Some (bundle_of P current (filter (\<lambda>k. k \<noteq> current) retired))"
    and "utf8_valid (bundle_json J (bundle_of P current (filter (\<lambda>k. k \<noteq> current) retired)))"
    and "seal_raw_key_bundle P J wrapping current retired n = Inr s"
  shows "open_key_bundle P J wrapping s = Inr (current, filter (\<lambda>k. k \<noteq> current) retired)"
proof -
  let ?r = "filter (\<lambda>k. k \<noteq> current) retired"
  have o: "field_open P wrapping s = Inr (bundle_json J (bundle_of P current ?r))"
    using field_round_trip(1) [OF assms(1,2,7,3)] assms(8) by (simp add: seal_raw_key_bundle_def)
  have "collect_results (map (\<lambda>key. ok_or BundleMalformed (decode_key P key)) (map (b64_encode P) ks)) = Inr ks"
    if "\<forall>k\<in>set ks. length k = KEY_LEN" for ks
    using that by (induction ks) (simp_all add: assms(2) decode_key_encode ok_or_def)
  then have "collect_results (map (\<lambda>key. ok_or BundleMalformed (decode_key P key)) (kb_retired (bundle_of P current ?r))) = Inr ?r"
    using assms(5) by (simp add: bundle_of_def)
  with o show ?thesis
    by (simp add: open_key_bundle_def assms(6) ok_or_def) (simp add: bundle_of_def assms(2,4) decode_key_encode ok_or_def)
qed

section \<open>Recovered folders\<close>

definition key_entry :: "platform \<Rightarrow> byte list \<Rightarrow> 'k custody_world \<Rightarrow> retired_entry \<Rightarrow> bool" where
  "key_entry P current w e \<longleftrightarrow> re_custody e = ''file'' \<and> (\<exists>k. cw_retired w (re_kcv e) = KeyText (b64_encode P k)
     \<and> length k = KEY_LEN \<and> k \<noteq> current \<and> key_check_value P k = re_kcv e)"

lemma install_retired_entries:
  assumes "install_retired P D current previous site entries ks w = (Inr es, t)" "\<forall>k\<in>set ks. length k = KEY_LEN"
    and "\<forall>e\<in>set entries. key_entry P current w e"
  shows "(\<forall>e\<in>set es. key_entry P current t e) \<and> set entries \<subseteq> set es
    \<and> (\<forall>k\<in>set ks. k = current \<or> key_check_value P k \<in> re_kcv ` set es) \<and> t = w\<lparr>cw_retired := cw_retired t\<rparr>"
  using assms
proof (induction P D current previous site entries ks arbitrary: w rule: install_retired.induct)
  case (2 P D current previous site entries key ks)
  let ?kcv = "key_check_value P key"
  let ?old = "list_ex (\<lambda>entry. re_kcv entry = ?kcv) entries"
  show ?case
  proof (cases "key = current \<or> ?old")
    case True
    with "2.prems"(1) have i: "install_retired P D current previous site entries ks w = (Inr es, t)" by (simp add: Let_def)
    from "2.IH"(1) [OF refl True i] "2.prems"(2,3)
    have r: "(\<forall>e\<in>set es. key_entry P current t e) \<and> set entries \<subseteq> set es
      \<and> (\<forall>k\<in>set ks. k = current \<or> key_check_value P k \<in> re_kcv ` set es) \<and> t = w\<lparr>cw_retired := cw_retired t\<rparr>" by simp
    have "key = current \<or> ?kcv \<in> re_kcv ` set es"
      using True r by (auto simp: list_ex_iff) (metis image_eqI subsetD)
    with r show ?thesis by simp
  next
    case False
    let ?e = "\<lparr>re_kcv = ?kcv, re_custody = ''file'',
      re_retired_at = (case find (\<lambda>entry. re_kcv entry = ?kcv) previous of Some e \<Rightarrow> re_retired_at e | None \<Rightarrow> cd_now D)\<rparr>"
    let ?w = "w\<lparr>cw_retired := (cw_retired w)(?kcv := KeyText (b64_encode P key))\<rparr>"
    from "2.prems"(1) False have g: "\<not> MAX_RETIRED_KEYS \<le> length entries" "\<not> cd_fails D site"
      and i: "install_retired P D current previous (site + 2) (entries @ [?e]) ks ?w = (Inr es, t)"
      by (auto simp: Let_def write_atomic_def bindS_def split: if_splits)
    have len: "length key = KEY_LEN" using "2.prems"(2) by simp
    have "key_entry P current ?w e" if "e \<in> set (entries @ [?e])" for e
    proof (cases "e = ?e")
      case True
      with len False show ?thesis by (auto simp: key_entry_def)
    next
      case ne: False
      with that have m: "e \<in> set entries" by auto
      with False have "re_kcv e \<noteq> ?kcv" by (auto simp: list_ex_iff)
      with m "2.prems"(3) show ?thesis by (auto simp: key_entry_def)
    qed
    then have ke: "\<forall>e\<in>set (entries @ [?e]). key_entry P current ?w e" by blast
    have lens: "\<forall>k\<in>set ks. length k = KEY_LEN" using "2.prems"(2) by simp
    from "2.IH"(2) [OF refl False g i lens ke]
    have r: "(\<forall>e\<in>set es. key_entry P current t e) \<and> set (entries @ [?e]) \<subseteq> set es
      \<and> (\<forall>k\<in>set ks. k = current \<or> key_check_value P k \<in> re_kcv ` set es) \<and> t = ?w\<lparr>cw_retired := cw_retired t\<rparr>" .
    then have "?e \<in> set es" by auto
    then have "re_kcv ?e \<in> re_kcv ` set es" by (rule imageI)
    with r show ?thesis by simp
  qed
qed simp

lemma install_file_custody_Inr:
  assumes "install_file_custody P D current retired w = (Inr x, t)" "\<forall>k\<in>set retired. length k = KEY_LEN"
  obtains es rc where "read_retired_index t = Inr es" "\<forall>e\<in>set es. key_entry P current t e"
    "\<forall>k\<in>set retired. k = current \<or> key_check_value P k \<in> re_kcv ` set es"
    "kp_master (kw_paths t) = KeyText (b64_encode P current)" "kp_legacy (kw_paths t) = kp_legacy (kw_paths w)"
    "cw_kcv t = Json rc" "kv_kcv rc = key_check_value P current" "cw_format t = cw_format w"
proof -
  from assms(1) obtain es u where i: "install_retired P D current
      (case read_retired_index w of Inr keys \<Rightarrow> keys | Inl _ \<Rightarrow> []) 4 [] retired w = (Inr es, u)"
    and t: "t = u\<lparr>cw_index := Json es, kw_paths := (kw_paths u)\<lparr>kp_master := KeyText (b64_encode P current)\<rparr>,
      cw_kcv := Json \<lparr>kv_kcv = key_check_value P current, kv_custody = ''file'', kv_written_at = cd_now D\<rparr>\<rparr>"
    by (auto simp: install_file_custody_def Let_def write_retired_index_def write_kcv_record_def write_atomic_def bindS_eq_Inr split: if_splits)
  have "\<forall>e\<in>set []. key_entry P current w e" by simp
  note e = install_retired_entries [OF i assms(2) this]
  obtain f where u: "u = w\<lparr>cw_retired := f\<rparr>" using e by (elim conjE) (rule that)
  have f: "kw_paths u = kw_paths w" "cw_format u = cw_format w" by (simp_all add: u)
  have e: "\<forall>e\<in>set es. key_entry P current u e" "\<forall>k\<in>set retired. k = current \<or> key_check_value P k \<in> re_kcv ` set es"
    by (rule conjunct1 [OF e], rule conjunct1 [OF conjunct2 [OF conjunct2 [OF e]]])
  show thesis
    by (rule that [of es "\<lparr>kv_kcv = key_check_value P current, kv_custody = ''file'', kv_written_at = cd_now D\<rparr>"])
      (use e f in \<open>auto simp: t key_entry_def read_retired_index_def read_json_def\<close>)
qed

text \<open>
  C26. A recovered folder opens: once a backup's keys are installed as files, a node started on the folder
  without a keychain and without \<open>RYU_MASTER_KEY\<close> resolves exactly the backup's current key, healthy, with
  every retired key among those it opens old values with, by key check value.
\<close>

theorem recovered_folder_opens:
  assumes "b64_laws P" "length current = KEY_LEN" "\<forall>k\<in>set retired. length k = KEY_LEN"
    and "install_file_custody P D current retired w = (Inr x, t)" "check_data_format w = Inr ()"
    and "read_key_file P (kp_legacy (kw_paths w)) = Inr legacy"
    and "ci_keychain I = DisabledKeychain" "ci_env I = None" "ci_allow_file I"
  shows "\<exists>r. resolve P R I D' t = (Inr r, t) \<and> res_key r = current \<and> res_health r = HealthOk
    \<and> (\<forall>k\<in>set retired. k = current \<or> key_check_value P k \<in> key_check_value P ` set (res_retired r))"
proof -
  from install_file_custody_Inr [OF assms(4,3)] obtain es rc where t: "read_retired_index t = Inr es" "\<forall>e\<in>set es. key_entry P current t e"
    "\<forall>k\<in>set retired. k = current \<or> key_check_value P k \<in> re_kcv ` set es"
    "kp_master (kw_paths t) = KeyText (b64_encode P current)" "kp_legacy (kw_paths t) = kp_legacy (kw_paths w)"
    "cw_kcv t = Json rc" "kv_kcv rc = key_check_value P current" "cw_format t = cw_format w" .
  let ?all = "vault_load_all P R I t"
  have m: "read_key_file P (kp_master (kw_paths t)) = Inr (Some current)" by (simp add: t(4) assms(1,2))
  have "load_master_key_guarded P R (ci_keychain I) (cd_ladder D') (ci_env I) (ci_allow_file I) ev t = (Inr (current, FromFile), t)" for ev
    using assms(6-9) m t(5) by (simp add: load_step file_fallback_step keychain_get_def)
  moreover have "check_data_format t = Inr ()" using assms(5) t(8) by (simp add: check_data_format_def)
  ultimately have r: "resolve P R I D' t = (Inr \<lparr>res_key = current, res_source = FromFile,
      res_retired = retired_except ?all current, res_health = HealthOk\<rparr>, t)"
    by (simp add: resolve_def read_json_def t(6) Let_def resolve_recorded_def t(7))
  have "key_check_value P k \<in> key_check_value P ` set (retired_except ?all current)" if "k \<in> set retired" "k \<noteq> current" for k
  proof -
    from that t(3) obtain e where e: "e \<in> set es" "re_kcv e = key_check_value P k" by auto
    with t(2) obtain k' where k': "re_custody e = ''file''" "cw_retired t (re_kcv e) = KeyText (b64_encode P k')"
      "length k' = KEY_LEN" "k' \<noteq> current" "key_check_value P k' = re_kcv e" unfolding key_entry_def by blast
    then have "vault_load P R I e t = Inr k'" by (simp add: vault_load_def assms(1) ok_or_def)
    with t(1) e(1) have "(e, k') \<in> set ?all" by (simp add: vault_load_all_iff)
    then have "k' \<in> set (retired_except ?all current)" using k'(4) by (force simp: retired_except_def)
    then show ?thesis using k'(5) e(2) by (metis image_eqI)
  qed
  with r show ?thesis by auto
qed

end
