(* ===== verification/Secret_Sealer.thy ===== *)
theory Secret_Sealer
  imports Process_Keys
begin

text \<open>
  crates/core/crypto/src/sealed.rs and secret_file.rs: the \<open>SecretSealer\<close> trait over the three field
  ciphers, the string field that seals when it is written, redaction, and files that hold one secret.
  The trait is a record of its functions and a locale of what every implementation promises; stores
  are proved once against the locale. A file is what its path holds.
\<close>

section \<open>The trait\<close>

record secret_sealer =
  ss_seal :: "string \<Rightarrow> byte list \<Rightarrow> crypto_error + string"
  ss_open :: "string \<Rightarrow> crypto_error + string"
  ss_is_sealed :: "string \<Rightarrow> bool"
  ss_open_tracking :: "string \<Rightarrow> crypto_error + string opened"

text \<open>The provided methods.\<close>

definition default_open_tracking ::
  "(string \<Rightarrow> crypto_error + string) \<Rightarrow> (string \<Rightarrow> bool) \<Rightarrow> string \<Rightarrow> crypto_error + string opened" where
  "default_open_tracking opens is_sealed stored = bindE (opens stored) (\<lambda>v.
     Inr \<lparr>op_value = v, op_needs_reseal = (stored \<noteq> [] \<and> \<not> is_sealed stored)\<rparr>)"

definition reseal_if_plaintext :: "secret_sealer \<Rightarrow> string \<Rightarrow> byte list \<Rightarrow> crypto_error + string option" where
  "reseal_if_plaintext S stored n =
     (if stored = [] \<or> ss_is_sealed S stored then Inr None
      else bindE (ss_open S stored) (\<lambda>plaintext. bindE (ss_seal S plaintext n) (\<lambda>s. Inr (Some s))))"

text \<open>The implementations.\<close>

definition field_secrets :: "platform \<Rightarrow> field_cipher \<Rightarrow> secret_sealer" where
  "field_secrets P c = \<lparr>ss_seal = field_seal P c,
     ss_open = (\<lambda>stored. if \<not> field_is_sealed stored \<and> looks_sealed stored then Inl ForeignEnvelope
       else field_open P c stored),
     ss_is_sealed = field_is_sealed,
     ss_open_tracking = (\<lambda>stored. if \<not> field_is_sealed stored \<and> looks_sealed stored then Inl ForeignEnvelope
       else open_detailed P c stored)\<rparr>"

definition plugin_secret_open :: "platform \<Rightarrow> plugin_cipher \<Rightarrow> string \<Rightarrow> crypto_error + string" where
  "plugin_secret_open P c stored = (if \<not> plugin_is_sealed stored \<and> looks_sealed stored then Inl ForeignEnvelope
     else plugin_open P c stored)"

definition plugin_secrets :: "platform \<Rightarrow> plugin_cipher \<Rightarrow> secret_sealer" where
  "plugin_secrets P c = \<lparr>ss_seal = plugin_seal P c, ss_open = plugin_secret_open P c, ss_is_sealed = plugin_is_sealed,
     ss_open_tracking = default_open_tracking (plugin_secret_open P c) plugin_is_sealed\<rparr>"

definition component_secrets :: "platform \<Rightarrow> component_cipher \<Rightarrow> secret_sealer" where
  "component_secrets P c = \<lparr>ss_seal = component_seal P c, ss_open = component_open P c, ss_is_sealed = component_is_sealed,
     ss_open_tracking = default_open_tracking (component_open P c) component_is_sealed\<rparr>"

section \<open>Master-key conveniences\<close>

text \<open>\<open>global\<close> is the outcome of resolving the process's cipher.\<close>

definition seal_str :: "platform \<Rightarrow> crypto_error + field_cipher \<Rightarrow> string \<Rightarrow> byte list \<Rightarrow> crypto_error + string" where
  "seal_str P global plaintext n = bindE global (\<lambda>c. field_seal P c plaintext n)"

definition open_str_tracking :: "platform \<Rightarrow> crypto_error + field_cipher \<Rightarrow> string \<Rightarrow> crypto_error + string opened" where
  "open_str_tracking P global stored =
     (if \<not> looks_sealed stored then Inr \<lparr>op_value = stored, op_needs_reseal = (stored \<noteq> [])\<rparr>
      else bindE global (\<lambda>c. ss_open_tracking (field_secrets P c) stored))"

definition open_str :: "platform \<Rightarrow> crypto_error + field_cipher \<Rightarrow> string \<Rightarrow> crypto_error + string" where
  "open_str P global stored = bindE (open_str_tracking P global stored) (\<lambda>opened. Inr (op_value opened))"

section \<open>Sealed strings\<close>

record sealed_string =
  sst_value :: string
  sst_needs_reseal :: bool

definition sealed_string_new :: "string \<Rightarrow> sealed_string" where
  "sealed_string_new v = \<lparr>sst_value = v, sst_needs_reseal = False\<rparr>"

definition sealed_string_eq :: "sealed_string \<Rightarrow> sealed_string \<Rightarrow> bool" where
  "sealed_string_eq a b = (sst_value a = sst_value b)"

definition sealed_serialize :: "crypto_error + secret_sealer \<Rightarrow> sealed_string \<Rightarrow> byte list \<Rightarrow> crypto_error + string" where
  "sealed_serialize src v n = (if sst_value v = [] then Inr []
     else bindE src (\<lambda>S. ss_seal S (sst_value v) n))"

definition sealed_deserialize :: "crypto_error + secret_sealer \<Rightarrow> string \<Rightarrow> crypto_error + sealed_string" where
  "sealed_deserialize src stored =
     (if \<not> looks_sealed stored then Inr \<lparr>sst_value = stored, sst_needs_reseal = (stored \<noteq> [])\<rparr>
      else bindE src (\<lambda>S. bindE (ss_open S stored) (\<lambda>v. Inr \<lparr>sst_value = v, sst_needs_reseal = False\<rparr>)))"

section \<open>Redaction\<close>

definition BULLET :: string where "BULLET = [CHR 0xE2, CHR 0x80, CHR 0xA2]"

definition REDACTED :: string where "REDACTED = concat (replicate 6 BULLET)"

definition redact :: "string \<Rightarrow> string" where
  "redact v = (if v = [] then [] else REDACTED)"

definition redact_opt :: "string option \<Rightarrow> string option" where
  "redact_opt v = (case v of Some s \<Rightarrow> if s = [] then None else Some REDACTED | None \<Rightarrow> None)"

definition is_placeholder :: "string \<Rightarrow> bool" where
  "is_placeholder v = (let v = trim v in v \<noteq> [] \<and> list_all (\<lambda>c. c = 8226 \<or> c = 42) (chars v))"

definition keep_if_redacted :: "string \<Rightarrow> string option \<Rightarrow> string option" where
  "keep_if_redacted incoming current = (if is_placeholder incoming then current else Some incoming)"

section \<open>Secret files\<close>

datatype secret_node = MissingFile | SymlinkFile | DirectoryNode | SpecialFile | RegularFile string

datatype file_error = IsSymlink | NotRegular | TooLarge | NotText | SealedWithoutKey | Crypto crypto_error
  | ReadFailed | WriteFailed

definition MAX_SECRET_FILE_BYTES :: nat where "MAX_SECRET_FILE_BYTES = 16 * 1024"

definition read_body :: "draws \<Rightarrow> secret_node \<Rightarrow> file_error + string option" where
  "read_body D node = (case node of
     MissingFile \<Rightarrow> Inr None
   | SymlinkFile \<Rightarrow> Inl IsSymlink
   | RegularFile body \<Rightarrow> if length body > MAX_SECRET_FILE_BYTES then Inl TooLarge
       else if io_fails D 0 then Inl ReadFailed
       else if \<not> utf8_valid body then Inl NotText
       else Inr (if trim body \<noteq> [] then Some (trim body) else None)
   | _ \<Rightarrow> Inl NotRegular)"

definition read_secret_file :: "draws \<Rightarrow> secret_node \<Rightarrow> secret_sealer option \<Rightarrow> file_error + string opened option" where
  "read_secret_file D node src = bindE (read_body D node) (\<lambda>body. case body of
     None \<Rightarrow> Inr None
   | Some body \<Rightarrow> if \<not> looks_sealed body then Inr (Some \<lparr>op_value = body, op_needs_reseal = True\<rparr>)
       else (case src of
         None \<Rightarrow> Inl SealedWithoutKey
       | Some S \<Rightarrow> bindE (map_err Crypto (ss_open S body)) (\<lambda>v.
           Inr (Some \<lparr>op_value = trim v, op_needs_reseal = False\<rparr>))))"

text \<open>The temporary file is renamed over the path once it is written and synced: a failure before that
  (\<open>io_fails D 1\<close>, or a directory in the way) leaves the path as it is, one of the permissions set after it
  (\<open>io_fails D 2\<close>) does not.\<close>

definition write_body :: "draws \<Rightarrow> string \<Rightarrow> (secret_node, file_error, unit) op" where
  "write_body D body node =
     (if node = SymlinkFile then (Inl IsSymlink, node)
      else if io_fails D 1 \<or> node = DirectoryNode then (Inl WriteFailed, node)
      else if io_fails D 2 then (Inl WriteFailed, RegularFile body)
      else (Inr (), RegularFile body))"

definition write_secret_file :: "draws \<Rightarrow> string \<Rightarrow> secret_sealer \<Rightarrow> (secret_node, file_error, unit) op" where
  "write_secret_file D v S = bindS (liftE (map_err Crypto (ss_seal S v (nonce D 0)))) (\<lambda>sealed. write_body D sealed)"

definition reseal_secret_file :: "draws \<Rightarrow> secret_sealer \<Rightarrow> (secret_node, file_error, bool) op" where
  "reseal_secret_file D S node = (case read_secret_file D node (Some S) of
     Inl e \<Rightarrow> (Inl e, node)
   | Inr (Some opened) \<Rightarrow> if op_needs_reseal opened
       then bindS (write_secret_file D (op_value opened) S) (\<lambda>_. retS True) node else (Inr False, node)
   | Inr None \<Rightarrow> (Inr False, node))"

lemma looks_sealed_Nil [simp]: "\<not> looks_sealed []"
  by (simp add: looks_sealed_def starts_with_def prefix_defs COMPONENT_ENVELOPE_PREFIX_def
      CONTENT_TEXT_PREFIX_def CLOUD_CONTENT_ENVELOPE_PREFIX_def)

section \<open>What every implementation promises\<close>

locale secret_sealing =
  fixes fits :: "string \<Rightarrow> bool" and S :: secret_sealer
  assumes seal_opens: "fits v \<Longrightarrow> length n = NONCE_LEN \<Longrightarrow> ss_seal S v n = Inr s \<Longrightarrow> ss_open S s = Inr v \<and> ss_is_sealed S s"
    and plain_opens: "\<not> looks_sealed v \<Longrightarrow> ss_open S v = Inr v"
    and sealed_looks: "ss_is_sealed S s \<Longrightarrow> looks_sealed s"
    and envelope_plain: "fits v \<Longrightarrow> ss_seal S v n = Inr s \<Longrightarrow> \<forall>c\<in>set s. ord_of c < 128 \<and> \<not> is_whitespace (ord_of c)"
    and foreign_refused: "looks_sealed s \<Longrightarrow> \<not> ss_is_sealed S s \<Longrightarrow> ss_open S s \<noteq> Inr v"
begin

text \<open>Resealing a store's values once: plaintext becomes an envelope that opens as it, nothing is sealed
  twice, and another scheme's envelope is never wrapped.\<close>

lemma reseal_once:
  assumes "reseal_if_plaintext S stored n = Inr r" "fits stored" "length n = NONCE_LEN"
  shows "case r of None \<Rightarrow> stored = [] \<or> ss_is_sealed S stored
     | Some s \<Rightarrow> \<not> looks_sealed stored \<and> ss_open S s = Inr stored \<and> (\<forall>n'. reseal_if_plaintext S s n' = Inr None)"
proof (cases r)
  case None
  with assms(1) show ?thesis by (auto simp: reseal_if_plaintext_def bindE_eq_Inr split: if_splits)
next
  case (Some s)
  with assms(1) obtain v where v: "\<not> ss_is_sealed S stored" "ss_open S stored = Inr v" "ss_seal S v n = Inr s"
    by (auto simp: reseal_if_plaintext_def bindE_eq_Inr split: if_splits)
  have plain: "\<not> looks_sealed stored" using foreign_refused v(1,2) by blast
  then have "v = stored" using plain_opens v(2) by simp
  with seal_opens [OF assms(2,3)] v(3) plain Some show ?thesis by (simp add: reseal_if_plaintext_def)
qed

lemma sealed_string_round_trip:
  assumes "fits (sst_value v)" "length n = NONCE_LEN" "sealed_serialize (Inr S) v n = Inr s"
  shows "sealed_deserialize (Inr S) s = Inr (v\<lparr>sst_needs_reseal := False\<rparr>)" "s = [] \<or> ss_is_sealed S s"
proof -
  have "sealed_deserialize (Inr S) s = Inr (v\<lparr>sst_needs_reseal := False\<rparr>) \<and> (s = [] \<or> ss_is_sealed S s)"
  proof (cases "sst_value v = []")
    case True
    with assms(3) have "s = []" by (simp add: sealed_serialize_def)
    then show ?thesis using True by (simp add: sealed_deserialize_def)
  next
    case False
    with assms(3) have "ss_seal S (sst_value v) n = Inr s" by (simp add: sealed_serialize_def)
    with seal_opens [OF assms(1,2)] sealed_looks show ?thesis by (simp add: sealed_deserialize_def)
  qed
  then show "sealed_deserialize (Inr S) s = Inr (v\<lparr>sst_needs_reseal := False\<rparr>)" "s = [] \<or> ss_is_sealed S s" by auto
qed

lemma read_envelope:
  assumes "fits v" "length n = NONCE_LEN" "ss_seal S v n = Inr s" "\<not> io_fails D 0"
  shows "read_secret_file D (RegularFile s) (Some S) =
    (if length s \<le> MAX_SECRET_FILE_BYTES then Inr (Some \<lparr>op_value = trim v, op_needs_reseal = False\<rparr>) else Inl TooLarge)"
proof -
  have o: "ss_open S s = Inr v" "looks_sealed s" using seal_opens [OF assms(1-3)] sealed_looks by blast+
  have p: "\<forall>c\<in>set s. ord_of c < 128 \<and> \<not> is_whitespace (ord_of c)" by (rule envelope_plain [OF assms(1,3)])
  then have "utf8_valid s" "trim s = s" by (auto simp: utf8_valid_def ascii_scalars scalar_ok_def trim_no_blank)
  moreover have "s \<noteq> []" using o(2) looks_sealed_Nil by metis
  ultimately show ?thesis using o assms(4) by (auto simp: read_secret_file_def read_body_def)
qed

lemma write_then_read:
  assumes "fits v" "length (nonce D 0) = NONCE_LEN" "write_secret_file D v S node = (Inr (), node')" "\<not> io_fails D' 0"
  shows "\<exists>s. ss_seal S v (nonce D 0) = Inr s \<and> node' = RegularFile s \<and> read_secret_file D' node' (Some S) =
    (if length s \<le> MAX_SECRET_FILE_BYTES then Inr (Some \<lparr>op_value = trim v, op_needs_reseal = False\<rparr>) else Inl TooLarge)"
proof -
  from assms(3) obtain s where s: "ss_seal S v (nonce D 0) = Inr s" "node' = RegularFile s"
    by (auto simp: write_secret_file_def bindS_def liftE_def write_body_def split: sum.splits if_splits)
  with read_envelope [OF assms(1,2) s(1) assms(4)] show ?thesis by blast
qed

lemma reseal_keeps_value:
  assumes "fits (op_value opened)" "length (nonce D 0) = NONCE_LEN" "\<not> io_fails D' 0"
    and "read_secret_file D node (Some S) = Inr (Some opened)" "reseal_secret_file D S node = (r, node')"
    and "\<And>s. ss_seal S (op_value opened) (nonce D 0) = Inr s \<Longrightarrow> length s \<le> MAX_SECRET_FILE_BYTES"
  shows "\<exists>after. read_secret_file D' node' (Some S) = Inr (Some after) \<and> op_value after = op_value opened
    \<and> (r = Inr True \<longrightarrow> \<not> op_needs_reseal after)"
proof -
  obtain body where body: "node = RegularFile body" "op_value opened = trim (op_value opened)"
    using assms(4) by (auto simp: read_secret_file_def read_body_def bindE_eq_Inr split: secret_node.splits option.splits if_splits)
  have same: "read_secret_file D' node (Some S) = Inr (Some opened)"
    using assms(3,4) by (auto simp: read_secret_file_def read_body_def body(1) bindE_eq_Inr split: if_splits)
  show ?thesis
  proof (cases "node' = node")
    case True
    moreover have "\<not> op_needs_reseal opened" if "r = Inr True"
    proof
      assume "op_needs_reseal opened"
      with assms(4,5) that obtain s where s: "ss_seal S (op_value opened) (nonce D 0) = Inr s" "node' = RegularFile s"
        by (auto simp: reseal_secret_file_def write_secret_file_def bindS_def liftE_def write_body_def retS_def
          split: sum.splits if_splits)
      from read_envelope [OF assms(1,2) s(1) assms(3)] assms(6) [OF s(1)] same True s(2)
      have "op_needs_reseal opened = False" by (auto dest: arg_cong [where f = op_needs_reseal])
      with \<open>op_needs_reseal opened\<close>
      show False by simp
    qed
    ultimately show ?thesis using same by blast
  next
    case False
    with assms(4,5) obtain s where s: "ss_seal S (op_value opened) (nonce D 0) = Inr s" "node' = RegularFile s"
      by (auto simp: reseal_secret_file_def write_secret_file_def bindS_def liftE_def write_body_def retS_def
        split: sum.splits if_splits)
    with read_envelope [OF assms(1,2) s(1) assms(3)] assms(6) [OF s(1)] body(2) show ?thesis by simp
  qed
qed

end

lemma looks_sealed_own:
  "field_is_sealed s \<Longrightarrow> looks_sealed s" "plugin_is_sealed s \<Longrightarrow> looks_sealed s" "component_is_sealed s \<Longrightarrow> looks_sealed s"
  by (simp_all add: looks_sealed_def field_is_sealed_def plugin_is_sealed_def component_is_sealed_def)

lemma component_round_trip:
  assumes "aead_laws P" "b64_laws P" "utf8_valid v" "length n = NONCE_LEN" "component_seal P c v n = Inr s"
  shows "component_open P c s = Inr v" "component_is_sealed s"
proof -
  from assms(5) obtain ct where ct: "aead_encrypt P (fc_key (co_inner c)) n (as_bytes v) [] = Some ct"
    "s = COMPONENT_ENVELOPE_PREFIX @ b64_encode P (n @ ct)"
    unfolding component_seal_def by (rule seal_with_prefix_Inr)
  show "component_open P c s = Inr v" using open_body_seal [OF assms(1-4) ct(1)] by (simp add: component_open_def ct(2))
  show "component_is_sealed s" by (auto simp: component_is_sealed_def starts_with_iff ct(2))
qed

lemma plugin_seal_marks: "plugin_seal P c v n = Inr s \<Longrightarrow> plugin_is_sealed s"
  unfolding plugin_seal_def by (erule seal_with_prefix_Inr) (auto simp: plugin_is_sealed_def starts_with_iff)

lemma envelope_chars:
  assumes "b64_laws P" "seal_with_prefix P c prefix v n = Inr s" "\<forall>x\<in>set prefix. ord_of x < 128 \<and> \<not> is_whitespace (ord_of x)"
  shows "\<forall>x\<in>set s. ord_of x < 128 \<and> \<not> is_whitespace (ord_of x)"
proof -
  obtain ct where "s = prefix @ b64_encode P (n @ ct)" using assms(2) by (rule seal_with_prefix_Inr)
  with assms(1,3) show ?thesis unfolding b64_laws_def by auto
qed

lemma prefix_chars:
  "\<forall>x\<in>set ENVELOPE_PREFIX. ord_of x < 128 \<and> \<not> is_whitespace (ord_of x)"
  "\<forall>x\<in>set PLUGIN_ENVELOPE_PREFIX. ord_of x < 128 \<and> \<not> is_whitespace (ord_of x)"
  "\<forall>x\<in>set COMPONENT_ENVELOPE_PREFIX. ord_of x < 128 \<and> \<not> is_whitespace (ord_of x)"
  by (simp_all add: prefix_defs COMPONENT_ENVELOPE_PREFIX_def ord_of_def is_whitespace_def)

interpretation field_store: secret_sealing "\<lambda>v. utf8_valid v \<and> aead_laws P \<and> b64_laws P" "field_secrets P c" for P c
proof unfold_locales
  show "ss_open (field_secrets P c) s = Inr v \<and> ss_is_sealed (field_secrets P c) s"
    if "utf8_valid v \<and> aead_laws P \<and> b64_laws P" "length n = NONCE_LEN" "ss_seal (field_secrets P c) v n = Inr s" for v n s
    using that field_round_trip [of P v n c s] by (simp add: field_secrets_def)
  show "ss_open (field_secrets P c) v = Inr v" if "\<not> looks_sealed v" for v
    using that looks_sealed_own(1) [of v]
    by (auto simp: field_secrets_def field_open_def field_is_sealed_def starts_with_def strip_prefix_def)
  show "\<forall>x\<in>set s. ord_of x < 128 \<and> \<not> is_whitespace (ord_of x)"
    if "utf8_valid v \<and> aead_laws P \<and> b64_laws P" "ss_seal (field_secrets P c) v n = Inr s" for v n s
    using that envelope_chars [OF _ _ prefix_chars(1), of P "c" v n s] by (simp add: field_secrets_def field_seal_def)
  show "looks_sealed s" if "ss_is_sealed (field_secrets P c) s" for s
    using that looks_sealed_own(1) by (simp add: field_secrets_def)
  show "ss_open (field_secrets P c) s \<noteq> Inr v" if "looks_sealed s" "\<not> ss_is_sealed (field_secrets P c) s" for s v
    using that by (simp add: field_secrets_def)
qed

interpretation plugin_store: secret_sealing "\<lambda>v. utf8_valid v \<and> aead_laws P \<and> b64_laws P" "plugin_secrets P c" for P c
proof unfold_locales
  show "ss_open (plugin_secrets P c) s = Inr v \<and> ss_is_sealed (plugin_secrets P c) s"
    if "utf8_valid v \<and> aead_laws P \<and> b64_laws P" "length n = NONCE_LEN" "ss_seal (plugin_secrets P c) v n = Inr s" for v n s
    using that plugin_round_trip [of P v n c s] plugin_seal_marks [of P c v n s]
    by (simp add: plugin_secrets_def plugin_secret_open_def)
  show "ss_open (plugin_secrets P c) v = Inr v" if "\<not> looks_sealed v" for v
    using that looks_sealed_own(1,2) [of v]
    by (auto simp: plugin_secrets_def plugin_secret_open_def plugin_open_def field_is_sealed_def plugin_is_sealed_def
      starts_with_def strip_prefix_def)
  show "\<forall>x\<in>set s. ord_of x < 128 \<and> \<not> is_whitespace (ord_of x)"
    if "utf8_valid v \<and> aead_laws P \<and> b64_laws P" "ss_seal (plugin_secrets P c) v n = Inr s" for v n s
    using that envelope_chars [OF _ _ prefix_chars(2), of P "pc_inner c" v n s] by (simp add: plugin_secrets_def plugin_seal_def)
  show "looks_sealed s" if "ss_is_sealed (plugin_secrets P c) s" for s
    using that looks_sealed_own(2) by (simp add: plugin_secrets_def)
  show "ss_open (plugin_secrets P c) s \<noteq> Inr v" if "looks_sealed s" "\<not> ss_is_sealed (plugin_secrets P c) s" for s v
    using that by (simp add: plugin_secrets_def plugin_secret_open_def)
qed

interpretation component_store: secret_sealing "\<lambda>v. utf8_valid v \<and> aead_laws P \<and> b64_laws P" "component_secrets P c" for P c
proof unfold_locales
  show "ss_open (component_secrets P c) s = Inr v \<and> ss_is_sealed (component_secrets P c) s"
    if "utf8_valid v \<and> aead_laws P \<and> b64_laws P" "length n = NONCE_LEN" "ss_seal (component_secrets P c) v n = Inr s" for v n s
    using that component_round_trip [of P v n c s] by (simp add: component_secrets_def)
  show "ss_open (component_secrets P c) v = Inr v" if "\<not> looks_sealed v" for v
    using that looks_sealed_own(3) [of v]
    by (auto simp: component_secrets_def component_open_def component_is_sealed_def starts_with_def strip_prefix_def)
  show "\<forall>x\<in>set s. ord_of x < 128 \<and> \<not> is_whitespace (ord_of x)"
    if "utf8_valid v \<and> aead_laws P \<and> b64_laws P" "ss_seal (component_secrets P c) v n = Inr s" for v n s
    using that envelope_chars [OF _ _ prefix_chars(3), of P "co_inner c" v n s] by (simp add: component_secrets_def component_seal_def)
  show "looks_sealed s" if "ss_is_sealed (component_secrets P c) s" for s
    using that looks_sealed_own(3) by (simp add: component_secrets_def)
  show "ss_open (component_secrets P c) s \<noteq> Inr v" if "looks_sealed s" "\<not> ss_is_sealed (component_secrets P c) s" for s v
    using that by (auto simp: component_secrets_def component_open_def component_is_sealed_def starts_with_def strip_prefix_def)
qed

section \<open>Stores\<close>

text \<open>
  A secret field of a configuration file never reaches the file in the clear and comes back as it
  was: whichever cipher the process holds, what is written is empty or carries that cipher's envelope,
  and reading it gives the same value, with nothing left to reseal.
\<close>

theorem sealed_fields_round_trip:
  assumes "aead_laws P" "b64_laws P" "utf8_valid (sst_value v)" "length n = NONCE_LEN"
    and "S = field_secrets P c \<or> S = plugin_secrets P p \<or> S = component_secrets P k"
    and "sealed_serialize (Inr S) v n = Inr s"
  shows "sealed_deserialize (Inr S) s = Inr (v\<lparr>sst_needs_reseal := False\<rparr>) \<and> (s = [] \<or> ss_is_sealed S s)"
  using assms field_store.sealed_string_round_trip [of v P n c s] plugin_store.sealed_string_round_trip [of v P n p s]
    component_store.sealed_string_round_trip [of v P n k s]
  by blast

text \<open>
  Resealing a value is safe to run on every open: it seals plaintext once, into an envelope that
  opens as that plaintext, leaves its own envelopes alone, and never wraps another scheme's.
\<close>

theorem reseal_is_idempotent:
  assumes "aead_laws P" "b64_laws P" "utf8_valid stored" "length n = NONCE_LEN"
    and "S = field_secrets P c \<or> S = plugin_secrets P p \<or> S = component_secrets P k"
    and "reseal_if_plaintext S stored n = Inr r"
  shows "case r of None \<Rightarrow> stored = [] \<or> ss_is_sealed S stored
     | Some s \<Rightarrow> \<not> looks_sealed stored \<and> ss_open S s = Inr stored \<and> (\<forall>n'. reseal_if_plaintext S s n' = Inr None)"
  using assms field_store.reseal_once [of P c stored n r] plugin_store.reseal_once [of P p stored n r]
    component_store.reseal_once [of P k stored n r]
  by blast

lemma scalars_REDACTED: "scalars REDACTED = replicate 6 BULLET"
  unfolding REDACTED_def
  by (intro scalars_concat) (simp add: numeral_eq_Suc full_group_def short_group_def BULLET_def trailing_def ord_of_def)

lemma placeholder_REDACTED: "is_placeholder REDACTED" "\<not> is_placeholder []"
proof -
  have bullet: "code_point BULLET = 8226" by (simp add: code_point_def BULLET_def ord_of_def)
  then have "\<not> is_blank BULLET" by (simp add: is_blank_def is_whitespace_def)
  then have "trim REDACTED = REDACTED"
    by (simp add: trim_def scalars_REDACTED) (simp add: REDACTED_def)
  moreover have "REDACTED \<noteq> []" using scalars_REDACTED by (auto simp: numeral_eq_Suc)
  ultimately show "is_placeholder REDACTED"
    by (simp add: is_placeholder_def chars_def scalars_REDACTED bullet list_all_iff)
  show "\<not> is_placeholder []" by (simp add: is_placeholder_def trim_def)
qed

text \<open>
  Sending a redacted view back keeps the stored secret: a GET shows a placeholder or nothing, and a
  PUT of exactly what was shown leaves a set secret as it is, and an unset one unset.
\<close>

lemma redacted_view_keeps_secret:
  "keep_if_redacted (redact v) (Some v) = Some v \<and> redact v \<in> {[], REDACTED}
   \<and> (redact_opt (Some v) = None \<longleftrightarrow> v = [])"
  by (simp add: keep_if_redacted_def redact_def redact_opt_def placeholder_REDACTED)

text \<open>
  C17. A secret file gives back what was written: after a successful write the path holds only the
  envelope, and reading it gives the trimmed secret when the envelope fits 16 KiB. A longer one is
  written all the same, and every later read refuses it.
\<close>

theorem secret_file_round_trip:
  assumes "aead_laws P" "b64_laws P" "utf8_valid v" "length (nonce D 0) = NONCE_LEN" "\<not> io_fails D' 0"
    and "S = field_secrets P c \<or> S = plugin_secrets P p \<or> S = component_secrets P k"
    and "write_secret_file D v S node = (Inr (), node')"
  shows "\<exists>s. ss_seal S v (nonce D 0) = Inr s \<and> node' = RegularFile s \<and> read_secret_file D' node' (Some S) =
    (if length s \<le> MAX_SECRET_FILE_BYTES then Inr (Some \<lparr>op_value = trim v, op_needs_reseal = False\<rparr>) else Inl TooLarge)"
  using assms(6)
proof (elim disjE)
  show ?thesis if "S = field_secrets P c"
    using field_store.write_then_read [OF _ assms(4) _ assms(5)] assms(1-3,7) that by blast
  show ?thesis if "S = plugin_secrets P p"
    using plugin_store.write_then_read [OF _ assms(4) _ assms(5)] assms(1-3,7) that by blast
  show ?thesis if "S = component_secrets P k"
    using component_store.write_then_read [OF _ assms(4) _ assms(5)] assms(1-3,7) that by blast
qed


end
