(* ===== verification/Sample_Keys.thy ===== *)
theory Sample_Keys
  imports Secret_Sealer Sample_Platform
begin

text \<open>
  Concrete keys and ciphers: each property of the ciphers, process keys and secret files is applied
  where its hypotheses hold. \<open>keyed_platform\<close> differs from the sample platform in that its tag
  depends on the key, so that a wrong key fails.
\<close>

definition key_tag :: "byte list \<Rightarrow> byte list" where
  "key_tag k = take 16 (k @ replicate 16 0)"

definition keyed_platform :: platform where
  "keyed_platform = sample_platform\<lparr>
     aead_encrypt := (\<lambda>k n m a. Some (m @ key_tag k)),
     aead_decrypt := (\<lambda>k n c a. if length c < 16 \<or> drop (length c - 16) c \<noteq> key_tag k then None
       else Some (take (length c - 16) c))\<rparr>"

lemma length_key_tag [simp]: "length (key_tag k) = 16"
  by (simp add: key_tag_def)

lemma keyed_aead_laws: "aead_laws keyed_platform"
proof -
  have "c = take (length c - 16) c @ drop (length c - 16) c" for c :: "byte list" by simp
  then show ?thesis
    unfolding aead_laws_def by (auto simp: keyed_platform_def split: if_splits)
      (metis append_take_drop_id)
qed

lemma keyed_b64_laws: "b64_laws keyed_platform"
  using sample_b64_laws by (simp add: b64_laws_def keyed_platform_def)

lemma letters_no_comma: "CHR '','' \<notin> set (letters_of_bytes bs)"
proof (induction bs)
  case (Cons b bs)
  have "unat b div 16 < 16" using unat_byte_less [of b] by simp
  then have "ord_of (letter (unat b div 16)) \<noteq> ord_of (CHR '','')" "ord_of (letter (unat b mod 16)) \<noteq> ord_of (CHR '','')"
    by (simp_all add: ord_letter) (simp_all add: ord_of_def)
  with Cons show ?case by auto
qed simp

lemma sample_b64_alphabet: "b64_alphabet sample_platform"
proof -
  have "letters_of_bytes bs = [] \<Longrightarrow> bs = []" for bs by (cases bs) auto
  then show ?thesis using letters_no_comma by (simp add: b64_alphabet_def sample_platform_def KEY_LEN_def)
qed

definition key_of :: "nat \<Rightarrow> byte list" where
  "key_of i = replicate 32 (of_nat i)"

definition sample_nonce :: "byte list" where "sample_nonce = replicate 12 7"

lemmas sample_keys [simp] = keyed_aead_laws keyed_b64_laws sample_b64_alphabet

lemma sample_nonce_length: "length sample_nonce = NONCE_LEN"
  by (simp add: sample_nonce_def NONCE_LEN_def)

lemma sample_secret: "utf8_valid ''s''"
  by (simp add: utf8_valid_def scalar_ok_def eval_simps)

definition sample_tenant :: tenant_cipher where
  "sample_tenant = \<lparr>tc_legacy = field_new (key_of 1), tc_bound = field_new (key_of 2), tc_tenant = ''t''\<rparr>"

definition sample_context :: seal_context where
  "sample_context = seal_context_with ''field'' ''token'' (seal_context_new ''oauth'')"

lemma sample_seal:
  "seal_with_prefix sample_platform c prefix v n = Inr (prefix @ letters_of_bytes (n @ as_bytes v @ sample_tag))"
  "seal_with_prefix keyed_platform c prefix v n = Inr (prefix @ letters_of_bytes (n @ as_bytes v @ key_tag (fc_key c)))"
  by (simp_all add: seal_with_prefix_def encrypt_def sample_platform_def keyed_platform_def ok_or_def)

lemma sample_tenant_seal:
  "tenant_seal sample_platform c v cx n = Inr (BOUND_ENVELOPE_PREFIX @ letters_of_bytes (n @ as_bytes v @ sample_tag))"
  by (simp add: tenant_seal_def encrypt_blob_with_aad_def sample_platform_def ok_or_def)

lemma sample_seals:
  "field_seal sample_platform c v n = Inr (ENVELOPE_PREFIX @ letters_of_bytes (n @ as_bytes v @ sample_tag))"
  "plugin_seal sample_platform p v n = Inr (PLUGIN_ENVELOPE_PREFIX @ letters_of_bytes (n @ as_bytes v @ sample_tag))"
  by (simp_all add: field_seal_def plugin_seal_def sample_seal)

section \<open>Field ciphers\<close>

lemma field_envelopes_witness:
  "\<exists>s. field_seal sample_platform (field_new (key_of 1)) ''s'' sample_nonce = Inr s
    \<and> field_open sample_platform (field_new (key_of 1)) s = Inr ''s''"
  using field_envelopes [OF sample_aead_laws sample_b64_laws sample_secret sample_nonce_length
      sample_seals sample_tenant_seal] sample_seals(1) by blast

lemma retired_key_opens_witness:
  "\<exists>s. field_seal keyed_platform (field_new (key_of 1)) ''s'' sample_nonce = Inr s
    \<and> field_open keyed_platform (with_retired [key_of 2, key_of 1] (field_new (key_of 3))) s = Inr ''s''"
proof -
  let ?s = "ENVELOPE_PREFIX @ letters_of_bytes (sample_nonce @ as_bytes ''s'' @ key_tag (key_of 1))"
  have s: "field_seal keyed_platform (field_new (key_of 1)) ''s'' sample_nonce = Inr ?s"
    by (simp add: field_seal_def sample_seal field_new_def)
  have "open_detailed keyed_platform (field_new (key_of k)) ?s = Inl DecryptionFailed" if "k = 2 \<or> k = 3" for k
    using that open_blob_envelope [OF keyed_b64_laws sample_nonce_length, of "as_bytes ''s'' @ key_tag (key_of 1)"]
    by (auto simp: open_detailed_def decrypt_tracking_def sample_nonce_length field_new_def key_of_def key_tag_def keyed_platform_def
      sample_platform_def as_bytes_def)
  then have "\<forall>k\<in>insert (key_of 3) (set [key_of 2, key_of 1]). k \<noteq> key_of 1 \<longrightarrow>
      open_detailed keyed_platform (field_new k) ?s = Inl DecryptionFailed" by auto
  then show ?thesis
    using retired_key_opens [OF keyed_aead_laws keyed_b64_laws sample_secret sample_nonce_length s, of "[key_of 2, key_of 1]" "key_of 3"] s
    by (auto simp: key_of_def)
qed

lemma tenant_opens_only_its_own_witness:
  "\<exists>stored plain. tenant_open sample_platform sample_tenant stored sample_context = Inr ''s''
    \<and> ''s'' = from_utf8_lossy plain"
proof -
  have o: "tenant_open sample_platform sample_tenant (BOUND_ENVELOPE_PREFIX @ letters_of_bytes (sample_nonce @ as_bytes ''s'' @ sample_tag))
      sample_context = Inr ''s''"
    using tenant_sealer.round_trip [OF _ sample_nonce_length sample_tenant_seal [of sample_tenant "''s''" sample_context]] sample_secret by simp
  show ?thesis
    using tenant_opens_only_its_own [OF sample_aead_laws o] o
    by (fastforce simp: bound_fits_def sample_tenant_def sample_context_def seal_context_with_def seal_context_new_def)
qed

section \<open>Process keys\<close>

lemma sample_plugin_id: "valid_plugin_id ''p'' = Inr ''p''"
  by (simp add: valid_plugin_id_def eval_simps)

lemma scope_round_trip_witness:
  "parse_scope (env_value (Component ''a'')) = Inr (Component ''a'')"
proof -
  have "valid_component ''a'' = Inr ''a''" by (simp add: valid_component_def component_char_def eval_simps)
  then show ?thesis using scope_round_trip [OF sample_plugin_id] by blast
qed

lemma same_key_however_started_witness:
  "\<exists>vars c. plugin_child_env sample_platform (Some (key_of 1, [key_of 2])) ''p'' = Inr vars
    \<and> plugin_cipher_for_process sample_platform (delivered_in sample_platform (map_of vars)) None (map_of vars) ''p'' = Inr c
    \<and> plugin_cipher_for sample_platform (key_of 1) [key_of 2] ''p'' = Inr c"
proof -
  obtain vars where v: "plugin_child_env sample_platform (Some (key_of 1, [key_of 2])) ''p'' = Inr vars"
    by (simp add: plugin_child_env_def sample_plugin_id ok_or_def)
  show ?thesis
    using same_key_however_started [OF sample_b64_laws sample_b64_alphabet v, of Map.empty "map_of vars" None] v by force
qed

lemma keys_are_not_inherited_witness:
  "\<exists>e'. capture_process_seal_key sample_platform [SEAL_KEY_ENV \<mapsto> []] = (Inr None, e')
    \<and> delivered_in sample_platform e' = Inr None"
proof -
  obtain e' where "capture_process_seal_key sample_platform [SEAL_KEY_ENV \<mapsto> []] = (Inr None, e')"
    by (simp add: capture_process_seal_key_def delivered_in_def read_delivered_def trim_def)
  then show ?thesis using keys_are_not_inherited [of sample_platform "[SEAL_KEY_ENV \<mapsto> []]"] by blast
qed

section \<open>Stores\<close>

definition sample_secrets :: secret_sealer where
  "sample_secrets = field_secrets sample_platform (field_new (key_of 1))"

definition sample_envelope :: string where
  "sample_envelope = ENVELOPE_PREFIX @ letters_of_bytes (sample_nonce @ as_bytes ''s'' @ sample_tag)"

lemma sample_secrets_seal: "ss_seal sample_secrets ''s'' sample_nonce = Inr sample_envelope"
  by (simp add: sample_secrets_def field_secrets_def sample_seals sample_envelope_def)

lemma sample_envelope_fits: "length sample_envelope \<le> MAX_SECRET_FILE_BYTES"
  by (simp add: sample_envelope_def sample_nonce_def sample_tag_def prefix_defs MAX_SECRET_FILE_BYTES_def as_bytes_def)

lemma sample_is_field:
  "sample_secrets = field_secrets sample_platform (field_new (key_of 1))
   \<or> sample_secrets = plugin_secrets sample_platform p \<or> sample_secrets = component_secrets sample_platform k"
  by (simp add: sample_secrets_def)

lemma sample_plain: "\<not> looks_sealed ''s''"
  by (simp add: looks_sealed_def starts_with_def prefix_defs COMPONENT_ENVELOPE_PREFIX_def
      CONTENT_TEXT_PREFIX_def CLOUD_CONTENT_ENVELOPE_PREFIX_def)

lemma sealed_fields_round_trip_witness:
  "sealed_deserialize (Inr sample_secrets) sample_envelope = Inr (sealed_string_new ''s'')"
  using sealed_fields_round_trip [OF sample_aead_laws sample_b64_laws _ sample_nonce_length sample_is_field,
      of "sealed_string_new ''s''" sample_envelope] sample_secret sample_secrets_seal
  by (simp add: sealed_string_new_def sealed_serialize_def)

lemma reseal_is_idempotent_witness:
  "reseal_if_plaintext sample_secrets ''s'' sample_nonce = Inr (Some sample_envelope)
   \<and> reseal_if_plaintext sample_secrets sample_envelope sample_nonce = Inr None"
proof -
  have "reseal_if_plaintext sample_secrets ''s'' sample_nonce = Inr (Some sample_envelope)"
    using sample_secrets_seal sample_plain looks_sealed_own(1) [of "''s''"]
    by (auto simp: reseal_if_plaintext_def sample_secrets_def field_secrets_def field_open_def field_is_sealed_def
      starts_with_def strip_prefix_def)
  with reseal_is_idempotent [OF sample_aead_laws sample_b64_laws sample_secret sample_nonce_length sample_is_field this]
  show ?thesis by simp
qed

definition sample_file_draws :: draws where
  "sample_file_draws = (sample_draws 0)\<lparr>nonce := (\<lambda>i. sample_nonce)\<rparr>"

lemma sample_file: "\<not> io_fails sample_file_draws i" "nonce sample_file_draws i = sample_nonce"
  by (simp_all add: sample_file_draws_def sample_draws_def)

lemma secret_file_round_trip_witness:
  "write_secret_file sample_file_draws ''s'' sample_secrets MissingFile = (Inr (), RegularFile sample_envelope)
   \<and> read_secret_file sample_file_draws (RegularFile sample_envelope) (Some sample_secrets)
     = Inr (Some \<lparr>op_value = ''s'', op_needs_reseal = False\<rparr>)"
proof -
  have w: "write_secret_file sample_file_draws ''s'' sample_secrets MissingFile = (Inr (), RegularFile sample_envelope)"
    by (simp add: write_secret_file_def bindS_def liftE_def write_body_def sample_file sample_secrets_seal)
  have "trim ''s'' = ''s''" by (simp add: eval_simps)
  with secret_file_round_trip [OF sample_aead_laws sample_b64_laws sample_secret _ sample_file(1) sample_is_field w]
    sample_envelope_fits w sample_nonce_length show ?thesis by (auto simp: sample_file)
qed


end
