(* ===== verification/Sample_Custody.thy ===== *)
theory Sample_Custody
  imports Custody_Adopt Sample_Keys
begin

text \<open>
  A concrete keyring, folder and platform: each property of the ladder and of custody is applied where
  its hypotheses hold, and a concrete adoption that loses a key. The key check value of a sample key is the
  hex text of its first 16 bytes.
\<close>

section \<open>The sample folder\<close>

text \<open>Accounts and whether the keyring takes writes.\<close>

definition sample_keyring :: "((string \<Rightarrow> string option) \<times> bool) keyring" where
  "sample_keyring = \<lparr>kr_get = (\<lambda>k a. case fst k a of Some v \<Rightarrow> Password v | None \<Rightarrow> NoEntry),
     kr_set = (\<lambda>a v k. if snd k then (True, ((fst k)(a \<mapsto> v), True)) else (False, k))\<rparr>"

lemma sample_keyring_laws: "keyring_laws sample_keyring"
  by (auto simp: keyring_laws_def sample_keyring_def split: if_splits)

definition custody_platform :: platform where
  "custody_platform = sample_platform\<lparr>hmac_sha256 := (\<lambda>k m. take 32 (k @ replicate 32 0))\<rparr>"

lemma custody_b64_laws: "b64_laws custody_platform"
  using sample_b64_laws by (simp add: b64_laws_def custody_platform_def)

lemma custody_aead_laws: "aead_laws custody_platform"
proof -
  have e: "aead_encrypt custody_platform = aead_encrypt sample_platform" "aead_decrypt custody_platform = aead_decrypt sample_platform"
    by (simp_all add: custody_platform_def)
  show ?thesis unfolding aead_laws_def e by (rule sample_aead_laws [unfolded aead_laws_def])
qed

lemma key_of_length: "length (key_of i) = KEY_LEN"
  by (simp add: key_of_def KEY_LEN_def)

lemma sample_kcv: "key_check_value custody_platform (key_of i) = letters_of_bytes (replicate 16 (of_nat i))"
  by (simp add: key_check_value_def custody_platform_def sample_platform_def key_of_def del: letters_of_bytes.simps)

lemma sample_kcv_eq: "key_check_value custody_platform (key_of i) = key_check_value custody_platform (key_of j)
    \<longleftrightarrow> (of_nat i :: byte) = of_nat j"
proof
  assume "key_check_value custody_platform (key_of i) = key_check_value custody_platform (key_of j)"
  then have "bytes_of_letters (letters_of_bytes (replicate 16 (of_nat i))) = bytes_of_letters (letters_of_bytes (replicate 16 (of_nat j)))"
    by (simp add: sample_kcv)
  then show "(of_nat i :: byte) = of_nat j" by (simp add: letters_round del: letters_of_bytes.simps bytes_of_letters.simps)
qed (simp add: sample_kcv)

abbreviation key_text :: "nat \<Rightarrow> string" where
  "key_text i \<equiv> b64_encode custody_platform (key_of i)"

lemma key_text_decodes: "decode_key custody_platform (key_text i) = Some (key_of i)"
  by (simp add: decode_key_encode custody_b64_laws key_of_length)

lemma key_text_reads: "read_key_file custody_platform (KeyText (key_text i)) = Inr (Some (key_of i))"
  by (simp add: custody_b64_laws key_of_length)

definition sample_ladder :: ladder_draws where
  "sample_ladder = \<lparr>ld_generated = key_of 9, ld_write_fails = (False, False), ld_remove_fails = False, ld_rival = NoFile\<rparr>"

definition sample_custody_draws :: custody_draws where
  "sample_custody_draws = \<lparr>cd_ladder = sample_ladder, cd_now = 5, cd_fails = (\<lambda>i. False), cd_rival = NoFile\<rparr>"

text \<open>The keychain holds key 4, recorded as the folder's; the key file holds another, key 2.\<close>

definition sample_folder :: "bool \<Rightarrow> ((string \<Rightarrow> string option) \<times> bool) custody_world" where
  "sample_folder writable = \<lparr>kw_keyring = ([''master-key'' \<mapsto> key_text 4], writable),
     kw_paths = \<lparr>kp_master = KeyText (key_text 2), kp_legacy = NoFile\<rparr>,
     cw_kcv = Json \<lparr>kv_kcv = key_check_value custody_platform (key_of 4), kv_custody = ''keychain'', kv_written_at = 1\<rparr>,
     cw_index = NoJson, cw_format = NoJson, cw_retired = (\<lambda>kcv. NoFile)\<rparr>"

definition sample_inputs :: "string option \<Rightarrow> custody_inputs" where
  "sample_inputs e = \<lparr>ci_env = e, ci_keychain = OsKeychain ''master-key'', ci_keychain_enabled = True,
     ci_allow_file = True, ci_records_kcv = True, ci_account_base = ''master-key'', ci_probe = (\<lambda>c. ProbePassed),
     ci_host_evidence = None, ci_store_evidence = None\<rparr>"

lemma sample_folder_sel [simp]:
  "kw_keyring (sample_folder b) = ([''master-key'' \<mapsto> key_text 4], b)"
  "kw_paths (sample_folder b) = \<lparr>kp_master = KeyText (key_text 2), kp_legacy = NoFile\<rparr>"
  "cw_kcv (sample_folder b) = Json \<lparr>kv_kcv = key_check_value custody_platform (key_of 4), kv_custody = ''keychain'', kv_written_at = 1\<rparr>"
  "cw_index (sample_folder b) = NoJson" "cw_format (sample_folder b) = NoJson" "cw_retired (sample_folder b) = (\<lambda>kcv. NoFile)"
  by (simp_all add: sample_folder_def)

lemma sample_inputs_sel [simp]:
  "ci_env (sample_inputs e) = e" "ci_keychain (sample_inputs e) = OsKeychain ''master-key''"
  "ci_keychain_enabled (sample_inputs e)" "ci_allow_file (sample_inputs e)" "ci_records_kcv (sample_inputs e)"
  "ci_account_base (sample_inputs e) = ''master-key''" "ci_probe (sample_inputs e) c = ProbePassed"
  by (simp_all add: sample_inputs_def)

lemma sample_draws_sel [simp]:
  "cd_ladder sample_custody_draws = sample_ladder" "cd_now sample_custody_draws = 5" "cd_fails sample_custody_draws i = False"
  "cd_rival sample_custody_draws = NoFile"
  by (simp_all add: sample_custody_draws_def)

lemma sample_inputs_ok: "inputs_ok (sample_inputs e)"
  by (simp add: inputs_ok_def sample_inputs_def)

lemma sample_keychain: "keychain_get custody_platform sample_keyring (OsKeychain a) k =
    (case fst k a of Some v \<Rightarrow> (case decode_key custody_platform v of Some key \<Rightarrow> KeyHeld key | None \<Rightarrow> KeychainCorrupt)
     | None \<Rightarrow> KeychainEmpty)"
  by (simp add: keychain_get_def sample_keyring_def split: option.split)

lemmas sample_folder_simps = sample_keychain key_text_decodes key_text_reads

section \<open>The ladder\<close>

lemma sample_load:
  "load_master_key_guarded custody_platform sample_keyring (OsKeychain ''master-key'') sample_ladder None True ev (sample_folder b)
    = (Inr (key_of 4, FromKeychain), sample_folder b)"
  by (simp add: load_step sample_folder_simps retire_matching_legacy_key_def)

lemma ladder_loses_no_key_witness:
  "\<exists>r t. load_master_key_guarded custody_platform sample_keyring (OsKeychain ''master-key'') sample_ladder None True None (sample_folder True) = (r, t)
    \<and> held custody_platform sample_keyring (OsKeychain ''master-key'') (key_of 2) t"
proof -
  have "held custody_platform sample_keyring (OsKeychain ''master-key'') (key_of 2) (sample_folder True)"
    by (simp add: held_def sample_folder_simps)
  with ladder_loses_no_key [OF sample_load [of None True]] sample_load show ?thesis by blast
qed

lemma resolved_key_survives_restart_witness:
  "keychain_get custody_platform sample_keyring (OsKeychain ''master-key'') (kw_keyring (sample_folder True)) = KeyHeld (key_of 4)"
  using resolved_key_survives_restart [OF custody_b64_laws sample_keyring_laws _ sample_load [of None True] sample_load [of None True]]
  by (simp add: sample_ladder_def key_of_length)

lemma no_key_over_sealed_data_witness:
  "held custody_platform sample_keyring (OsKeychain ''master-key'') (key_of 4) (sample_folder True)"
  using no_key_over_sealed_data [OF sample_load [of "Some ''sealed''" True]]
  by (simp add: sample_ladder_def)

section \<open>Custody\<close>

lemma sample_resolution:
  "resolve custody_platform sample_keyring (sample_inputs None) sample_custody_draws (sample_folder True)
    = (Inr \<lparr>res_key = key_of 4, res_source = FromKeychain, res_retired = [], res_health = HealthOk\<rparr>, sample_folder True)"
  by (simp add: resolve_def check_data_format_def read_json_def sample_load
      resolve_recorded_def retired_except_def vault_load_all_def read_retired_index_def
      map_filter_simps)

lemma resolve_uses_recorded_key_witness:
  "\<exists>r. resolve custody_platform sample_keyring (sample_inputs None) sample_custody_draws (sample_folder True) = (Inr r, sample_folder True)
    \<and> key_check_value custody_platform (res_key r) = key_check_value custody_platform (key_of 4)"
  using resolve_uses_recorded_key [OF sample_resolution] sample_resolution
  by auto

lemma sample_holds: "holds custody_platform sample_keyring (sample_inputs e) (key_of 2) (sample_folder b)"
  by (simp add: holds_iff held_def sample_folder_simps)

lemma custody_loses_no_key_witness:
  "\<exists>r t. resolve custody_platform sample_keyring (sample_inputs None) sample_custody_draws (sample_folder True) = (r, t)
    \<and> holds custody_platform sample_keyring (sample_inputs None) (key_of 2) t"
  using custody_loses_no_key [OF sample_keyring_laws sample_inputs_ok disjI1 [OF sample_resolution] sample_holds] sample_resolution
  by blast

section \<open>Adoption\<close>

lemma sample_candidates:
  "candidates custody_platform sample_keyring (sample_inputs None) (sample_folder b) = [(KindKeychain, key_of 4), (KindFile, key_of 2)]"
  "candidates custody_platform sample_keyring (sample_inputs (Some (key_text 3))) (sample_folder b)
    = [(KindEnv, key_of 3), (KindKeychain, key_of 4), (KindFile, key_of 2)]"
  by (simp_all add: candidates_def sample_folder_simps vault_load_all_def read_retired_index_def read_json_def map_filter_simps)

lemma key_of_eq: "key_of i = key_of j \<longleftrightarrow> (of_nat i :: byte) = of_nat j"
  by (simp add: key_of_def)

lemma sample_index: "read_retired_index (sample_folder b) = Inr []"
  by (simp add: read_retired_index_def read_json_def)

lemma sample_tidy: "vault_tidy custody_platform sample_keyring I (sample_folder b)"
  using sample_index [of b] by (simp add: vault_tidy_def)

lemma sample_previous:
  "persistent_key custody_platform sample_keyring (sample_inputs e) (sample_folder b) = Some (key_of 4, FromKeychain)"
  by (simp add: persistent_key_def sample_folder_simps)

lemma sample_recorded:
  "recorded_current_key custody_platform sample_keyring (sample_inputs None) (sample_folder b) = Inr (Some (key_of 4))"
  "recorded_current_key custody_platform sample_keyring (sample_inputs (Some (key_text 3))) (sample_folder b) = Inr (Some (key_of 4))"
  by (simp_all add: recorded_current_key_def sample_candidates read_json_def is_retired_kind_def sample_kcv_eq)

lemma sample_to_retire: "of_nat i \<noteq> (4 :: byte) \<Longrightarrow> keys_to_retire (key_of i) (Some (key_of 4)) (Some (key_of 4)) [] = [key_of 4]"
  by (auto simp: keys_to_retire_def add_distinct_def key_of_eq)

lemma sample_set: "kr_set sample_keyring a v k = (if snd k then (True, ((fst k)(a \<mapsto> v), True)) else (False, k))"
  by (simp add: sample_keyring_def)

lemma sample_retire:
  "\<exists>k' entry. vault_retire custody_platform sample_keyring (sample_inputs e) sample_custody_draws 2 (key_of 4) True (sample_folder True)
    = (Inr entry, (sample_folder True)\<lparr>kw_keyring := (k', True), cw_index := Json [entry]\<rparr>)"
  by (simp add: vault_retire_def Let_def sample_index MAX_RETIRED_KEYS_def retire_in_keychain_def store_in_keychain_def
    keychain_store_def retired_account_def sample_set bindS_def sample_keychain key_text_decodes write_retired_index_def write_atomic_def) (rule exI, rule refl)

lemma sample_install:
  "\<exists>out t. install_current custody_platform sample_keyring (sample_inputs None) sample_custody_draws (key_of 2) [] (sample_folder True) = (Inr out, t)"
proof -
  obtain k' entry where r: "vault_retire custody_platform sample_keyring (sample_inputs None) sample_custody_draws 2 (key_of 4) True (sample_folder True)
      = (Inr entry, (sample_folder True)\<lparr>kw_keyring := (k', True), cw_index := Json [entry]\<rparr>)" using sample_retire by blast
  show ?thesis
    using sample_to_retire [of 2]
    by (simp add: install_current_def Let_def sample_previous sample_recorded sample_index MAX_RETIRED_KEYS_def bindS_def r
      store_current_def store_in_keychain_def keychain_store_def sample_set sample_keychain key_text_decodes
      write_kcv_record_def write_atomic_def)
qed

lemma sample_adoption:
  "\<exists>out t. adopt_with custody_platform sample_keyring (sample_inputs None) sample_custody_draws AdoptFile False (sample_folder True) = (Inr out, t)"
  using sample_install by (simp add: adopt_with_def candidate_key_def sample_candidates ok_or_def read_json_def)

lemma sample_format: "check_data_format (sample_folder b) = Inr ()"
  by (simp add: check_data_format_def read_json_def)

lemma adopted_key_resolves_witness:
  "\<exists>out t r v. adopt_with custody_platform sample_keyring (sample_inputs None) sample_custody_draws AdoptFile False (sample_folder True) = (Inr out, t)
    \<and> resolve custody_platform sample_keyring (sample_inputs None\<lparr>ci_env := None\<rparr>) sample_custody_draws t = (Inr r, v)
    \<and> key_check_value custody_platform (res_key r) = ao_kcv out"
  using sample_adoption adopted_key_resolves [OF custody_b64_laws sample_format] by blast

lemma adopting_keeps_the_old_key_witness:
  "\<exists>out t k. adopt_with custody_platform sample_keyring (sample_inputs None) sample_custody_draws AdoptFile False (sample_folder True) = (Inr out, t)
    \<and> holds custody_platform sample_keyring (sample_inputs None) k t
    \<and> key_check_value custody_platform k = key_check_value custody_platform (key_of 4)"
proof -
  obtain out t where a: "adopt_with custody_platform sample_keyring (sample_inputs None) sample_custody_draws AdoptFile False (sample_folder True) = (Inr out, t)"
    using sample_adoption by blast
  from adopting_keeps_the_old_key [OF custody_b64_laws sample_keyring_laws sample_inputs_ok _ sample_tidy a, of "key_of 4"] a
  show ?thesis by (auto simp: sample_previous)
qed

text \<open>
  An adoption that loses a key. The keychain holds key 4, the key file key 2, and key 3 of the environment is
  adopted while the keychain takes no writes: the new key falls to the key file, which is replaced, and key 2
  is nowhere any more. Only the keychain's key and the recorded one were retired.
\<close>

lemma adopting_can_lose_a_key:
  "\<exists>out t. holds custody_platform sample_keyring (sample_inputs (Some (key_text 3))) (key_of 2) (sample_folder False)
    \<and> adopt_with custody_platform sample_keyring (sample_inputs (Some (key_text 3))) sample_custody_draws AdoptEnv False (sample_folder False)
      = (Inr out, t)
    \<and> \<not> holds custody_platform sample_keyring (sample_inputs (Some (key_text 3))) (key_of 2) t"
proof -
  let ?I = "sample_inputs (Some (key_text 3))"
  let ?kcv = "key_check_value custody_platform (key_of 4)"
  let ?w = "(sample_folder False)\<lparr>cw_retired := (\<lambda>kcv. NoFile)(?kcv := KeyText (key_text 4)),
    cw_index := Json [\<lparr>re_kcv = ?kcv, re_custody = ''file'', re_retired_at = 5\<rparr>]\<rparr>"
  have r: "\<exists>entry. vault_retire custody_platform sample_keyring ?I sample_custody_draws 2 (key_of 4) True (sample_folder False) = (Inr entry, ?w)"
    by (simp add: vault_retire_def Let_def sample_index MAX_RETIRED_KEYS_def retire_in_keychain_def store_in_keychain_def
      keychain_store_def retired_account_def sample_set bindS_def write_retired_index_def write_atomic_def retire_in_file_def write_key_file_def)
  then obtain entry where r: "vault_retire custody_platform sample_keyring ?I sample_custody_draws 2 (key_of 4) True (sample_folder False) = (Inr entry, ?w)"
    by blast
  let ?t = "?w\<lparr>kw_paths := \<lparr>kp_master = KeyText (key_text 3), kp_legacy = NoFile\<rparr>,
    cw_kcv := Json \<lparr>kv_kcv = key_check_value custody_platform (key_of 3), kv_custody = ''file'', kv_written_at = 5\<rparr>\<rparr>"
  have "\<exists>out. install_current custody_platform sample_keyring ?I sample_custody_draws (key_of 3) [] (sample_folder False) = (Inr out, ?t)"
    using sample_to_retire [of 3]
    by (simp add: install_current_def Let_def sample_previous sample_recorded sample_index MAX_RETIRED_KEYS_def bindS_def r
      store_current_def store_in_keychain_def keychain_store_def sample_set
      write_kcv_record_def write_atomic_def)
  then have a: "\<exists>out. adopt_with custody_platform sample_keyring ?I sample_custody_draws AdoptEnv False (sample_folder False) = (Inr out, ?t)"
    by (simp add: adopt_with_def candidate_key_def sample_candidates ok_or_def read_json_def)
  have i: "read_retired_index ?t = Inr [\<lparr>re_kcv = ?kcv, re_custody = ''file'', re_retired_at = 5\<rparr>]"
    by (simp add: read_retired_index_def read_json_def)
  have "\<not> in_vault custody_platform sample_keyring ?I (key_of 2) ?t"
    using i by (auto simp: in_vault_def vault_load_def key_text_reads ok_or_def key_of_eq)
  then have "\<not> holds custody_platform sample_keyring ?I (key_of 2) ?t"
    by (simp add: holds_iff held_def key_text_decodes key_of_eq sample_keychain key_text_reads)
  with a sample_holds show ?thesis by blast
qed

section \<open>Bundles and recovered folders\<close>

text \<open>A codec that writes the members one after another, each ended by a comma.\<close>

definition members :: "string list \<Rightarrow> string" where
  "members xs = concat (map (\<lambda>s. s @ '','') xs)"

fun members_of :: "string \<Rightarrow> string \<Rightarrow> string list" where
  "members_of cur [] = []"
| "members_of cur (c # cs) = (if c = CHR '','' then cur # members_of [] cs else members_of (cur @ [c]) cs)"

lemma members_of_member: "CHR '','' \<notin> set s \<Longrightarrow> members_of cur (s @ '','' @ r) = (cur @ s) # members_of [] r"
  by (induction s arbitrary: cur) auto

lemma members_of_members: "\<forall>s\<in>set xs. CHR '','' \<notin> set s \<Longrightarrow> members_of [] (members xs) = xs"
  by (induction xs) (simp_all add: members_def members_of_member [of _ "[]", simplified])

definition sample_codec :: bundle_codec where
  "sample_codec = \<lparr>bundle_json = (\<lambda>b. members (kb_kcv b # kb_current b # kb_retired b)),
     bundle_of_json = (\<lambda>s. case members_of [] s of
       kcv # current # retired \<Rightarrow> Some \<lparr>kb_kcv = kcv, kb_current = current, kb_retired = retired\<rparr> | _ \<Rightarrow> None)\<rparr>"

lemma sample_bundle: "bundle_of custody_platform (key_of i) ks = \<lparr>kb_kcv = letters_of_bytes (replicate 16 (of_nat i)),
    kb_current = letters_of_bytes (key_of i), kb_retired = map letters_of_bytes ks\<rparr>"
proof -
  have "b64_encode custody_platform = letters_of_bytes" by (simp add: custody_platform_def sample_platform_def)
  then show ?thesis by (simp add: bundle_of_def sample_kcv)
qed

lemma sample_codec_round:
  "bundle_of_json sample_codec (bundle_json sample_codec (bundle_of custody_platform (key_of i) ks)) = Some (bundle_of custody_platform (key_of i) ks)"
proof -
  have "\<forall>s\<in>set (kb_kcv b # kb_current b # kb_retired b). CHR '','' \<notin> set s" if "b = bundle_of custody_platform (key_of i) ks" for b
    using that letters_no_comma by (auto simp: sample_bundle simp del: letters_of_bytes.simps)
  from members_of_members [OF this [OF refl]] show ?thesis by (simp add: sample_codec_def)
qed

lemma sample_bundle_text: "utf8_valid (bundle_json sample_codec (bundle_of custody_platform (key_of i) ks))"
proof -
  have "ord_of c < 128" if "c \<in> set (bundle_json sample_codec (bundle_of custody_platform (key_of i) ks))" for c
    using that letters_plain by (auto simp: sample_codec_def members_def sample_bundle ord_of_def simp del: letters_of_bytes.simps split: if_splits)
  then show ?thesis by (simp add: utf8_valid_def ascii_scalars scalar_ok_def)
qed

lemma bundle_round_trip_witness:
  "\<exists>s. seal_raw_key_bundle custody_platform sample_codec (field_new (key_of 7)) (key_of 4) [key_of 4, key_of 2] sample_nonce = Inr s
    \<and> open_key_bundle custody_platform sample_codec (field_new (key_of 7)) s = Inr (key_of 4, [key_of 2])"
proof -
  obtain s where s: "seal_raw_key_bundle custody_platform sample_codec (field_new (key_of 7)) (key_of 4) [key_of 4, key_of 2] sample_nonce = Inr s"
    by (simp add: seal_raw_key_bundle_def field_seal_def seal_with_prefix_def encrypt_def custody_platform_def sample_platform_def ok_or_def)
  from bundle_round_trip [OF custody_aead_laws custody_b64_laws sample_nonce_length key_of_length _ sample_codec_round sample_bundle_text s] s
  show ?thesis by (simp add: key_of_length key_of_eq)
qed

definition file_inputs :: custody_inputs where
  "file_inputs = (sample_inputs None)\<lparr>ci_keychain := DisabledKeychain, ci_keychain_enabled := False\<rparr>"

lemma recovered_folder_opens_witness:
  "\<exists>t r. install_file_custody custody_platform sample_custody_draws (key_of 5) [key_of 6] (sample_folder True) = (Inr (), t)
    \<and> resolve custody_platform sample_keyring file_inputs sample_custody_draws t = (Inr r, t) \<and> res_key r = key_of 5"
proof -
  have "\<exists>t. install_file_custody custody_platform sample_custody_draws (key_of 5) [key_of 6] (sample_folder True) = (Inr (), t)"
    by (simp add: install_file_custody_def sample_index Let_def key_of_eq MAX_RETIRED_KEYS_def bindS_def write_atomic_def
      write_retired_index_def write_kcv_record_def)
  then obtain t where t: "install_file_custody custody_platform sample_custody_draws (key_of 5) [key_of 6] (sample_folder True) = (Inr (), t)" by blast
  from recovered_folder_opens [OF custody_b64_laws key_of_length _ t sample_format, of None file_inputs]
  show ?thesis using t by (auto simp: file_inputs_def key_of_length)
qed

end
