(* ===== verification/Sample_Apps.thy ===== *)
theory Sample_Apps
  imports Content_Keys Sample_Custody
begin

text \<open>
  An app's slot whose keychain and key file disagree, a sealed text and its index: each property of app
  keys and blind indexes is applied where its hypotheses hold.
\<close>

definition desktop_slot :: "((string \<Rightarrow> string option) \<times> bool) app_world" where
  "desktop_slot = \<lparr>aw_keyring = ([DESKTOP \<mapsto> key_text 4], True), aw_file = KeyText (key_text 2),
     aw_record = Json \<lparr>av_kcv = key_check_value custody_platform (key_of 2), av_custody = ''file''\<rparr>, aw_secrets = []\<rparr>"

definition slot_draws :: app_draws where
  "slot_draws = \<lparr>al_ladder = sample_ladder, al_record_fails = False\<rparr>"

lemma desktop_sel [simp]: "aw_keyring desktop_slot = ([DESKTOP \<mapsto> key_text 4], True)" "aw_file desktop_slot = KeyText (key_text 2)"
  "aw_record desktop_slot = Json \<lparr>av_kcv = key_check_value custody_platform (key_of 2), av_custody = ''file''\<rparr>"
  by (simp_all add: desktop_slot_def)

lemma keys_differ [simp]: "key_of 2 \<noteq> key_of 4" "key_of 4 \<noteq> key_of 2"
  by (simp_all add: key_of_def)

lemma desktop_ladder: "app_ladder custody_platform sample_keyring (OsKeychain DESKTOP) sample_ladder None True ev desktop_slot
    = (Inr (key_of 4, FromKeychain), desktop_slot)"
  by (simp add: app_ladder_def load_step sample_folder_simps retire_matching_legacy_key_def app_key_paths_def)

lemma desktop_run: "resolve_app_key custody_platform sample_keyring (OsKeychain DESKTOP) slot_draws DESKTOP None True desktop_slot
    = (Inr \<lparr>ay_key = key_of 2, ay_retired = [key_of 4]\<rparr>, desktop_slot)"
  by (simp add: resolve_app_key_def desktop_ladder slot_draws_def Let_def observed_held_def read_app_kcv_def read_json_def
      pinned_key_def sample_folder_simps sample_kcv_eq bindS_def)

lemma app_key_is_recorded_witness:
  "resolve_app_key custody_platform sample_keyring (OsKeychain DESKTOP) slot_draws DESKTOP None True desktop_slot
      = (Inr \<lparr>ay_key = key_of 2, ay_retired = [key_of 4]\<rparr>, desktop_slot)
    \<and> key_check_value custody_platform (key_of 2) = av_kcv \<lparr>av_kcv = key_check_value custody_platform (key_of 2), av_custody = ''file''\<rparr>"
  using app_key_is_recorded [OF desktop_run, of _ "key_of 2"] desktop_run by (simp add: sample_folder_simps)


section \<open>A sealed text\<close>

definition plain_unicode :: unicode where
  "plain_unicode = \<lparr>nfkc = (\<lambda>s. s), to_lowercase = (\<lambda>s. s),
     general_category_group = (\<lambda>c. if c = '' '' then SeparatorGroup else LetterGroup)\<rparr>"

text \<open>A platform whose tokens tell these texts apart: the first bytes of the message.\<close>

definition echo_platform :: platform where
  "echo_platform = sample_platform\<lparr>hmac_sha256 := \<lambda>key msg. take 32 (msg @ replicate 32 0)\<rparr>"

definition note_index :: blind_index where
  "note_index = blind_from_root echo_platform (key_of 2) ''notes'' TERMS_FIELD"

lemma echo_laws: "hex_laws echo_platform" "hex_plain echo_platform"
proof -
  show "hex_laws echo_platform" using sample_hex_laws by (simp add: hex_laws_def echo_platform_def min_def)
  have "CHR '' '' \<notin> set (letters_of_bytes bs) \<and> CHR ''A'' \<notin> set (letters_of_bytes bs)" for bs
  proof (induction bs)
    case (Cons b bs)
    have "ord_of (letter n) = 97 + n" if "n < 16" for n using that by (rule ord_letter)
    moreover have "unat b div 16 < 16" "unat b mod 16 < 16" using unat_byte_less [of b] by simp_all
    ultimately have "ord_of (letter (unat b div 16)) \<ge> 97" "ord_of (letter (unat b mod 16)) \<ge> 97" by simp_all
    then have "letter (unat b div 16) \<notin> {CHR '' '', CHR ''A''}" "letter (unat b mod 16) \<notin> {CHR '' '', CHR ''A''}"
      by (auto simp: ord_of_def)
    with Cons show ?case by auto
  qed simp
  then show "hex_plain echo_platform" by (simp add: hex_plain_def echo_platform_def sample_platform_def)
qed

lemma note_terms: "tokenize_terms plain_unicode ''the red fox ran'' = [''fox'', ''ran'', ''red'']"
  "tokenize_terms plain_unicode ''red fox'' = [''fox'', ''red'']"
  by code_simp+

lemma note_tokens_differ: "distinct (map (term_token echo_platform note_index) [''fox'', ''ran'', ''red''])"
  by code_simp

lemma blind_search_exact_witness:
  "\<exists>q. fts_query echo_platform plain_unicode note_index ''red fox'' = Some q
    \<and> fts_match (fts_document echo_platform plain_unicode note_index ''the red fox ran'') q"
proof -
  have "inj_on (term_token echo_platform note_index) (set [''fox'', ''ran'', ''red''])"
    using note_tokens_differ by (simp only: distinct_map)
  then have inj: "inj_on (term_token echo_platform note_index)
      (set (tokenize_terms plain_unicode ''red fox'') \<union> set (tokenize_terms plain_unicode ''the red fox ran''))"
    by (rule inj_on_subset) (simp add: note_terms)
  obtain q where "fts_query echo_platform plain_unicode note_index ''red fox'' = Some q"
    by (simp add: fts_query_def term_tokens_def note_terms Let_def)
  with blind_search_exact [OF echo_laws(2,1) inj, of q] show ?thesis by (simp add: note_terms)
qed

lemma terms_well_formed_witness:
  "sorted_wrt (<) (tokenize_terms plain_unicode ''the red fox ran'') \<and> ''fox'' \<notin> set STOPWORDS"
  using terms_well_formed [of plain_unicode "''the red fox ran''"] by (simp add: note_terms)

end
