(* ===== verification/Model_Stream.thy ===== *)
theory Model_Stream
  imports Complex_Main Rust_Text
begin

text \<open>
  crates/core/app-events/src/lib.rs, the model stream client: the request and its bounds, the
  server-sent-event frames of the response and what the stream yields. The HTTP transport is the
  list of byte chunks the response body arrives in (or a transport error in place of one); reading
  a JSON value is the parameter \<open>J\<close>, which says which of the cases of
  \<open>parse_model_stream_frame\<close> a text is.
\<close>

section \<open>The request\<close>

definition MAX_MODEL_ID_BYTES :: nat where "MAX_MODEL_ID_BYTES = 256"
definition MAX_MODEL_PROVIDER_BYTES :: nat where "MAX_MODEL_PROVIDER_BYTES = 64"
definition MAX_MODEL_REQUEST_ID_BYTES :: nat where "MAX_MODEL_REQUEST_ID_BYTES = 128"
definition MAX_MODEL_MESSAGES :: nat where "MAX_MODEL_MESSAGES = 40"
definition MAX_MODEL_MESSAGE_BYTES :: nat where "MAX_MODEL_MESSAGE_BYTES = 32 * 1024"
definition MAX_MODEL_CONTEXT_BYTES :: nat where "MAX_MODEL_CONTEXT_BYTES = 128 * 1024"
definition MAX_MODEL_OUTPUT_TOKENS :: nat where "MAX_MODEL_OUTPUT_TOKENS = 4096"

record model_stream_message =
  mm_content :: string
  mm_role :: string

text \<open>An \<open>f32\<close> is its value, or \<open>None\<close> when it is not finite.\<close>

record model_stream_request =
  mr_messages :: "model_stream_message list"
  mr_model :: string
  mr_provider :: "string option"
  mr_request_id :: string
  mr_max_tokens :: "nat option"
  mr_temperature :: "rat option option"

datatype model_stream_error = NotHosted | InvalidRequest string | Transport string
  | Rejected nat string | Protocol string

datatype model_stream_event = TextDelta string string | Completed string | FailedEvent string string string

definition validate_text :: "string \<Rightarrow> nat \<Rightarrow> string \<Rightarrow> model_stream_error + unit" where
  "validate_text v max_bytes field =
     guardE (InvalidRequest (field @ '' is empty, too long, or invalid''))
       (\<not> (trim v = [] \<or> length v > max_bytes \<or> list_ex is_control (chars v)))"

definition unsupported_control :: "nat \<Rightarrow> bool" where
  "unsupported_control n \<longleftrightarrow> is_control n \<and> n \<notin> {10, 13, 9}"

text \<open>The loop over the messages; \<open>acc\<close> (\<open>total\<close>) is a \<open>usize\<close> that saturates.\<close>

definition saturating_add :: "nat \<Rightarrow> nat \<Rightarrow> nat" where
  "saturating_add a b = min (a + b) (2 ^ 64 - 1)"

fun validate_messages :: "nat \<Rightarrow> model_stream_message list \<Rightarrow> model_stream_error + nat" where
  "validate_messages acc [] = Inr acc"
| "validate_messages acc (m # ms) =
     bindE (guardE (InvalidRequest ''message role is not supported'')
       (mm_role m \<in> {''system'', ''user'', ''assistant''})) (\<lambda>_.
     bindE (guardE (InvalidRequest ''message content is empty or too long'')
       (\<not> (mm_content m = [] \<or> length (mm_content m) > MAX_MODEL_MESSAGE_BYTES))) (\<lambda>_.
     bindE (guardE (InvalidRequest ''message content contains unsupported control characters'')
       (\<not> list_ex unsupported_control (chars (mm_content m)))) (\<lambda>_.
     validate_messages (saturating_add acc (length (mm_content m))) ms)))"

definition validate_provider :: "string option \<Rightarrow> model_stream_error + unit" where
  "validate_provider p = (case p of None \<Rightarrow> Inr ()
     | Some provider \<Rightarrow> bindE (validate_text provider MAX_MODEL_PROVIDER_BYTES ''provider'') (\<lambda>_.
         guardE (InvalidRequest ''provider must be a provider slot, not a URL'')
           (\<not> (contains provider ''://'' \<or> contains provider ''/''))))"

definition validate_request :: "model_stream_request \<Rightarrow> model_stream_error + unit" where
  "validate_request r =
     bindE (validate_text (mr_model r) MAX_MODEL_ID_BYTES ''model'') (\<lambda>_.
     bindE (validate_text (mr_request_id r) MAX_MODEL_REQUEST_ID_BYTES ''requestId'') (\<lambda>_.
     bindE (guardE (InvalidRequest ''messages must contain 1..40 items'')
       (\<not> (mr_messages r = [] \<or> length (mr_messages r) > MAX_MODEL_MESSAGES))) (\<lambda>_.
     bindE (validate_messages 0 (mr_messages r)) (\<lambda>bytes.
     bindE (guardE (InvalidRequest ''message context is too large'')
       (\<not> bytes > MAX_MODEL_CONTEXT_BYTES)) (\<lambda>_.
     bindE (validate_provider (mr_provider r)) (\<lambda>_.
     bindE (guardE (InvalidRequest ''maxTokens must be between 1 and 4096'')
       (case mr_max_tokens r of None \<Rightarrow> True | Some n \<Rightarrow> \<not> (n = 0 \<or> n > MAX_MODEL_OUTPUT_TOKENS))) (\<lambda>_.
     guardE (InvalidRequest ''temperature must be between 0 and 2'')
       (case mr_temperature r of None \<Rightarrow> True | Some None \<Rightarrow> False
        | Some (Some q) \<Rightarrow> 0 \<le> q \<and> q \<le> 2))))))))"

lemma validate_messages_Inr:
  assumes "validate_messages acc ms = Inr bytes" "acc \<le> 2 ^ 64 - 1"
  shows "bytes = min (acc + sum_list (map (length \<circ> mm_content) ms)) (2 ^ 64 - 1)
    \<and> (\<forall>m\<in>set ms. mm_role m \<in> {''system'', ''user'', ''assistant''} \<and> mm_content m \<noteq> []
        \<and> length (mm_content m) \<le> MAX_MODEL_MESSAGE_BYTES)"
  using assms
proof (induction ms arbitrary: acc)
  case Nil
  then show ?case by simp
next
  case (Cons m ms)
  from Cons.prems(1) have go: "validate_messages (saturating_add acc (length (mm_content m))) ms = Inr bytes"
    and m: "mm_role m \<in> {''system'', ''user'', ''assistant''}" "mm_content m \<noteq> []"
      "length (mm_content m) \<le> MAX_MODEL_MESSAGE_BYTES"
    by (auto simp: bindE_eq_Inr)
  have "saturating_add acc (length (mm_content m)) \<le> 2 ^ 64 - 1" by (simp add: saturating_add_def)
  note IH = Cons.IH [OF go this]
  have "min (min (acc + k) M + s) M = min (acc + (k + s)) M" for k s M :: nat by simp
  with IH m show ?case by (simp add: saturating_add_def)
qed

text \<open>
  A request that passes validation is within every bound: 1 to 40 messages of known roles, each
  non-empty and at most 32 KiB, 128 KiB together (the saturating sum never hides an overflow).
\<close>

lemma valid_request_bounds:
  assumes "validate_request r = Inr ()"
  shows "mr_messages r \<noteq> [] \<and> length (mr_messages r) \<le> MAX_MODEL_MESSAGES
    \<and> sum_list (map (length \<circ> mm_content) (mr_messages r)) \<le> MAX_MODEL_CONTEXT_BYTES
    \<and> (\<forall>m\<in>set (mr_messages r). mm_role m \<in> {''system'', ''user'', ''assistant''} \<and> mm_content m \<noteq> []
        \<and> length (mm_content m) \<le> MAX_MODEL_MESSAGE_BYTES)"
proof -
  from assms obtain bytes where b: "validate_messages 0 (mr_messages r) = Inr bytes" "bytes \<le> MAX_MODEL_CONTEXT_BYTES"
    and n: "mr_messages r \<noteq> []" "length (mr_messages r) \<le> MAX_MODEL_MESSAGES"
    by (auto simp: validate_request_def bindE_eq_Inr)
  from validate_messages_Inr [OF b(1)] b(2) have "sum_list (map (length \<circ> mm_content) (mr_messages r)) \<le> MAX_MODEL_CONTEXT_BYTES"
    by (auto simp: MAX_MODEL_CONTEXT_BYTES_def min_def split: if_splits)
  with validate_messages_Inr [OF b(1)] n show ?thesis by simp
qed

lemma valid_request_bounds_witness:
  "sum_list (map (length \<circ> mm_content) [\<lparr>mm_content = ''hi'', mm_role = ''user''\<rparr>]) \<le> MAX_MODEL_CONTEXT_BYTES"
proof -
  let ?r = "\<lparr>mr_messages = [\<lparr>mm_content = ''hi'', mm_role = ''user''\<rparr>], mr_model = ''m1'', mr_provider = Some ''local'',
    mr_request_id = ''req_1'', mr_max_tokens = Some 2048, mr_temperature = Some (Some (1 / 5))\<rparr>"
  have "validate_request ?r = Inr ()"
    by (simp add: validate_request_def validate_text_def validate_provider_def saturating_add_def
      unsupported_control_def contains_def MAX_MODEL_ID_BYTES_def MAX_MODEL_REQUEST_ID_BYTES_def MAX_MODEL_MESSAGES_def
      MAX_MODEL_MESSAGE_BYTES_def MAX_MODEL_CONTEXT_BYTES_def MAX_MODEL_PROVIDER_BYTES_def MAX_MODEL_OUTPUT_TOKENS_def eval_simps)
  from valid_request_bounds [OF this] show ?thesis by simp
qed

section \<open>Frames\<close>

text \<open>What a text is to \<open>parse_model_stream_frame\<close>: no JSON, one of the three events, JSON
  that reports an error, or any other JSON.\<close>

datatype frame_value = NotJson | IsEvent model_stream_event | ReportsError | OtherJson

fun find_sse_frame_boundary :: "byte list \<Rightarrow> nat option" where
  "find_sse_frame_boundary (a # b # bs) =
     (if a = 10 \<and> b = 10 then Some 0 else map_option Suc (find_sse_frame_boundary (b # bs)))"
| "find_sse_frame_boundary bs = None"

text \<open>\<open>str::lines\<close>: split at newlines, without an empty last line, a trailing \<open>\r\<close> dropped.\<close>

definition drop_cr :: "string \<Rightarrow> string" where
  "drop_cr l = (if l \<noteq> [] \<and> last l = CHR 0x0D then butlast l else l)"

definition text_lines :: "string \<Rightarrow> string list" where
  "text_lines s = map drop_cr (let ls = split_on (CHR 0x0A) s in if last ls = [] then butlast ls else ls)"

fun first_data :: "string list \<Rightarrow> string" where
  "first_data [] = []"
| "first_data (l # ls) = (case strip_prefix l ''data:'' of Some d \<Rightarrow> trim d | None \<Rightarrow> first_data ls)"

definition parse_model_stream_frame ::
  "(string \<Rightarrow> frame_value) \<Rightarrow> byte list \<Rightarrow> string \<Rightarrow> model_stream_error + model_stream_event option" where
  "parse_model_stream_frame J frame rid =
     bindE (ok_or (Protocol ''stream frame is not UTF-8'') (from_utf8 frame)) (\<lambda>body.
     let d = first_data (text_lines body) in
     if d = [] then Inr None
     else if d = ''[DONE]'' then Inr (Some (Completed rid))
     else (case J d of
         NotJson \<Rightarrow> Inl (Protocol ''stream frame is not valid JSON'')
       | IsEvent e \<Rightarrow> Inr (Some e)
       | ReportsError \<Rightarrow> Inr (Some (FailedEvent rid ''providerError'' ''model stream failed''))
       | OtherJson \<Rightarrow> Inr None))"

section \<open>The stream\<close>

type_synonym stream_item = "model_stream_error + model_stream_event"

fun is_terminal_event :: "model_stream_event \<Rightarrow> bool" where
  "is_terminal_event (TextDelta rid d) = False"
| "is_terminal_event (Completed rid) = True"
| "is_terminal_event (FailedEvent rid c m) = True"

lemma boundary_bound: "find_sse_frame_boundary bs = Some n \<Longrightarrow> n + 2 \<le> length bs"
  by (induction bs arbitrary: n rule: find_sse_frame_boundary.induct) (auto split: if_splits)

text \<open>The inner loop: the frames buffered so far, up to a terminal one.\<close>

function drain_frames ::
  "(string \<Rightarrow> frame_value) \<Rightarrow> string \<Rightarrow> byte list \<Rightarrow> stream_item list \<times> byte list \<times> bool" where
  "drain_frames J rid buffer =
     (case find_sse_frame_boundary buffer of
        None \<Rightarrow> ([], buffer, False)
      | Some n \<Rightarrow> let rest = drop (n + 2) buffer in
          (case parse_model_stream_frame J (take n buffer) rid of
             Inl e \<Rightarrow> ([Inl e], rest, True)
           | Inr None \<Rightarrow> drain_frames J rid rest
           | Inr (Some e) \<Rightarrow>
               if is_terminal_event e then ([Inr e], rest, True)
               else (case drain_frames J rid rest of (items, r, t) \<Rightarrow> (Inr e # items, r, t))))"
  by pat_completeness auto
termination
  by (relation "measure (\<lambda>(J, rid, b). length b)") (auto dest: boundary_bound)

declare drain_frames.simps [simp del]

text \<open>The outer loop over the chunks of the body, from a buffer.\<close>

fun stream_items ::
  "(string \<Rightarrow> frame_value) \<Rightarrow> string \<Rightarrow> byte list \<Rightarrow> (string + byte list) list \<Rightarrow> stream_item list" where
  "stream_items J rid buffer [] = [Inl (Protocol ''stream ended without a terminal event'')]"
| "stream_items J rid buffer (Inl e # chunks) = [Inl (Transport e)]"
| "stream_items J rid buffer (Inr bytes # chunks) =
     (case drain_frames J rid (buffer @ bytes) of
        (items, rest, terminal) \<Rightarrow> if terminal then items else items @ stream_items J rid rest chunks)"

text \<open>\<open>ModelStreamClient::stream\<close>; \<open>send\<close> is the POST: a transport error, or the status, the \<open>code\<close>
  member of a JSON error body and the chunks.\<close>

record http_response =
  resp_status :: nat
  resp_code :: "string option"
  resp_chunks :: "(string + byte list) list"

record stream_client =
  sc_endpoint :: "string option"
  sc_token :: "string option"

definition model_stream ::
  "(string \<Rightarrow> frame_value) \<Rightarrow> (model_stream_request \<Rightarrow> string + http_response) \<Rightarrow> stream_client \<Rightarrow>
   model_stream_request \<Rightarrow> model_stream_error + stream_item list" where
  "model_stream J send c request =
     bindE (validate_request request) (\<lambda>_.
     bindE (guardE NotHosted (sc_endpoint c \<noteq> None \<and> sc_token c \<noteq> None)) (\<lambda>_.
     bindE (map_err Transport (send request)) (\<lambda>resp.
     if \<not> (200 \<le> resp_status resp \<and> resp_status resp < 300)
     then Inl (Rejected (resp_status resp)
       (case resp_code resp of Some c \<Rightarrow> c | None \<Rightarrow> ''modelStreamRejected''))
     else Inr (stream_items J (mr_request_id request) [] (resp_chunks resp)))))"

section \<open>Chunking\<close>

lemma boundary_append: "find_sse_frame_boundary bs = Some n \<Longrightarrow> find_sse_frame_boundary (bs @ xs) = Some n"
  by (induction bs arbitrary: n rule: find_sse_frame_boundary.induct) (auto split: if_splits)

text \<open>One frame of the inner loop, given its boundary.\<close>

lemma drain_step:
  assumes "find_sse_frame_boundary buffer = Some n"
  shows "drain_frames J rid buffer =
    (case parse_model_stream_frame J (take n buffer) rid of
       Inl e \<Rightarrow> ([Inl e], drop (n + 2) buffer, True)
     | Inr None \<Rightarrow> drain_frames J rid (drop (n + 2) buffer)
     | Inr (Some e) \<Rightarrow> if is_terminal_event e then ([Inr e], drop (n + 2) buffer, True)
         else (case drain_frames J rid (drop (n + 2) buffer) of (items, r, t) \<Rightarrow> (Inr e # items, r, t)))"
  by (subst drain_frames.simps) (simp only: assms Let_def option.case)

lemma drain_stop: "find_sse_frame_boundary buffer = None \<Longrightarrow> drain_frames J rid buffer = ([], buffer, False)"
  by (subst drain_frames.simps) simp

text \<open>The result of the inner loop, continued with more bytes unless it has ended.\<close>

definition resume :: "(string \<Rightarrow> frame_value) \<Rightarrow> string \<Rightarrow> byte list \<Rightarrow>
    stream_item list \<times> byte list \<times> bool \<Rightarrow> stream_item list \<times> byte list \<times> bool" where
  "resume J rid xs p = (case p of (items, rest, t) \<Rightarrow>
     if t then (items, rest @ xs, True)
     else (case drain_frames J rid (rest @ xs) of (later, r, t) \<Rightarrow> (items @ later, r, t)))"

lemma resume_Cons: "resume J rid xs (case p of (items, y) \<Rightarrow> (i # items, y))
    = (case resume J rid xs p of (items, y) \<Rightarrow> (i # items, y))"
  by (cases p) (simp add: resume_def split: prod.split)

lemma drain_append: "drain_frames J rid (buffer @ xs) = resume J rid xs (drain_frames J rid buffer)"
proof (induction "length buffer" arbitrary: buffer rule: less_induct)
  case less
  show ?case
  proof (cases "find_sse_frame_boundary buffer")
    case None
    then show ?thesis by (simp add: drain_stop resume_def split: prod.split)
  next
    case (Some n)
    then have n: "n + 2 \<le> length buffer" by (rule boundary_bound)
    have parts: "take n (buffer @ xs) = take n buffer" "drop (n + 2) (buffer @ xs) = drop (n + 2) buffer @ xs"
      using n by simp_all
    have IH: "drain_frames J rid (drop (n + 2) buffer @ xs) = resume J rid xs (drain_frames J rid (drop (n + 2) buffer))"
      by (rule less) (use n in simp)
    show ?thesis
    proof (cases "parse_model_stream_frame J (take n buffer) rid")
      case (Inl e)
      then show ?thesis
        unfolding drain_step [OF Some] drain_step [OF boundary_append [OF Some]] parts by (simp add: resume_def)
    next
      case (Inr ev)
      then show ?thesis
        unfolding drain_step [OF Some] drain_step [OF boundary_append [OF Some]] parts IH
        by (cases ev) (simp_all add: resume_Cons resume_def [of J rid xs "(a, b, True)" for a b] del: add_2_eq_Suc')
    qed
  qed
qed

text \<open>Induction over the frames of a buffer.\<close>

lemma frames_induct [case_names stop frame]:
  assumes stop: "\<And>b. find_sse_frame_boundary b = None \<Longrightarrow> Q b"
    and frame: "\<And>b n. find_sse_frame_boundary b = Some n \<Longrightarrow> Q (drop (n + 2) b) \<Longrightarrow> Q b"
  shows "Q b"
proof (induction "length b" arbitrary: b rule: less_induct)
  case less
  show ?case
  proof (cases "find_sse_frame_boundary b")
    case None
    then show ?thesis by (rule stop)
  next
    case (Some n)
    then have "length (drop (n + 2) b) < length b" using boundary_bound by fastforce
    from frame [OF Some less [OF this]] show ?thesis .
  qed
qed

lemma drain_rest: "drain_frames J rid b = (items, rest, False) \<Longrightarrow> drain_frames J rid rest = ([], rest, False)"
proof (induction b arbitrary: items rule: frames_induct)
  case (stop b)
  then show ?case by (simp add: drain_stop)
next
  case (frame b n)
  from frame.prems show ?case
    unfolding drain_step [OF frame.hyps]
    by (auto simp del: add_2_eq_Suc' split: sum.splits option.splits if_splits prod.splits dest: frame.IH)
qed

lemma stream_items_concat:
  assumes "drain_frames J rid buffer = ([], buffer, False)"
  shows "stream_items J rid buffer (map Inr chunks) = (case drain_frames J rid (buffer @ concat chunks) of
    (items, rest, t) \<Rightarrow> if t then items else items @ [Inl (Protocol ''stream ended without a terminal event'')])"
  using assms
proof (induction chunks arbitrary: buffer)
  case Nil
  then show ?case by simp
next
  case (Cons c chunks)
  obtain items rest t where d: "drain_frames J rid (buffer @ c) = (items, rest, t)" by (cases "drain_frames J rid (buffer @ c)")
  have all: "drain_frames J rid (buffer @ concat (c # chunks)) = resume J rid (concat chunks) (items, rest, t)"
    using drain_append [of J rid "buffer @ c" "concat chunks"] d by simp
  show ?case
  proof (cases t)
    case True
    then show ?thesis unfolding all by (simp add: d resume_def)
  next
    case False
    then have "drain_frames J rid rest = ([], rest, False)" using d drain_rest [of J rid "buffer @ c" items rest] by simp
    from Cons.IH [OF this] False show ?thesis
      unfolding all by (simp add: d resume_def split: prod.split)
  qed
qed

text \<open>
  C12. Chunking is invisible: however the transport cuts the response into chunks, the stream yields the
  items of the whole body, even when a frame, its boundary or a character straddles chunks.
\<close>

theorem chunking_is_invisible:
  "stream_items J rid [] (map Inr chunks) = stream_items J rid [] [Inr (concat chunks)]"
  using stream_items_concat [of J rid "[]" chunks] stream_items_concat [of J rid "[]" "[concat chunks]"]
  by (simp add: drain_stop)

section \<open>How a stream ends\<close>

fun ends_stream :: "stream_item \<Rightarrow> bool" where
  "ends_stream (Inl e) = True"
| "ends_stream (Inr e) = is_terminal_event e"

definition ended :: "stream_item list \<times> byte list \<times> bool \<Rightarrow> bool" where
  "ended p = (case p of (items, rest, t) \<Rightarrow>
     if t then (\<exists>front i. items = front @ [i] \<and> ends_stream i \<and> (\<forall>x\<in>set front. \<not> ends_stream x))
     else (\<forall>x\<in>set items. \<not> ends_stream x))"

lemma ended_Cons:
  assumes "ended p" "\<not> ends_stream x"
  shows "ended (case p of (items, r, t) \<Rightarrow> (x # items, r, t))"
proof -
  obtain items r t where p: "p = (items, r, t)" by (cases p)
  show ?thesis
  proof (cases t)
    case True
    with assms(1) p obtain front i where "items = front @ [i]" "ends_stream i" "\<forall>x\<in>set front. \<not> ends_stream x"
      by (auto simp: ended_def)
    with True p assms(2) show ?thesis
      by (simp add: ended_def)
  next
    case False
    with assms p show ?thesis by (simp add: ended_def)
  qed
qed

lemma drain_ended: "ended (drain_frames J rid b)"
proof (induction b rule: frames_induct)
  case (stop b)
  then show ?case by (simp add: drain_stop ended_def)
next
  case (frame b n)
  show ?case
  proof (cases "parse_model_stream_frame J (take n b) rid")
    case (Inl e)
    then show ?thesis unfolding drain_step [OF frame.hyps] by (simp add: ended_def)
  next
    case (Inr ev)
    show ?thesis
    proof (cases ev)
      case None
      with Inr frame.IH show ?thesis unfolding drain_step [OF frame.hyps] by (simp del: add_2_eq_Suc')
    next
      case (Some e)
      with Inr show ?thesis using ended_Cons [OF frame.IH, of "Inr e"]
        unfolding drain_step [OF frame.hyps] by (simp add: ended_def [of "([Inr e], y)" for y] del: add_2_eq_Suc')
    qed
  qed
qed

lemma stream_ends_at_last:
  "\<exists>front i. stream_items J rid buffer chunks = front @ [i] \<and> ends_stream i \<and> (\<forall>x\<in>set front. \<not> ends_stream x)"
proof (induction J rid buffer chunks rule: stream_items.induct)
  case (3 J rid buffer bytes chunks)
  obtain items rest t where d: "drain_frames J rid (buffer @ bytes) = (items, rest, t)"
    by (cases "drain_frames J rid (buffer @ bytes)")
  show ?case
  proof (cases t)
    case True
    with drain_ended [of J rid "buffer @ bytes"] d show ?thesis by (simp add: ended_def)
  next
    case False
    obtain front i where "stream_items J rid rest chunks = front @ [i]" "ends_stream i" "\<forall>x\<in>set front. \<not> ends_stream x"
      using 3 [OF d [symmetric] refl False] by blast
    with drain_ended [of J rid "buffer @ bytes"] d False show ?thesis
      by (intro exI [of _ "items @ front"] exI [of _ i]) (auto simp: ended_def)
  qed
qed simp_all

text \<open>
  C15. A stream always ends, and ends once: whatever the transport delivers, it yields finitely many
  items of which exactly the last is terminal (a completed or failed event, or an error).
\<close>

theorem stream_ends_once:
  "\<exists>front i. stream_items J rid buffer chunks = front @ [i] \<and> ends_stream i \<and> \<not> list_ex ends_stream front"
  using stream_ends_at_last [of J rid buffer chunks] by (simp add: list_ex_iff)

end
