(* ===== verification/Room_Limits.thy ===== *)
theory Room_Limits
  imports Platform
begin

text \<open>
  backend/src/limits.rs: the caps of the Rooms API and the validation of what clients send.
  Every validator returns the value to store (trimmed, for the one-line fields) or the message of
  the 400 response. Url parsing is the platform's.
\<close>

definition INVITE_TTL_SECS :: int where "INVITE_TTL_SECS = 10 * 60"
definition SESSION_TTL_SECS :: int where "SESSION_TTL_SECS = 12 * 60 * 60"
definition MAX_PARTICIPANTS :: nat where "MAX_PARTICIPANTS = 8"
definition MAX_HISTORY_MESSAGES :: nat where "MAX_HISTORY_MESSAGES = 40"
definition MAX_RETAINED_RUNS :: nat where "MAX_RETAINED_RUNS = 100"
definition MAX_MODEL_ID_CHARS :: nat where "MAX_MODEL_ID_CHARS = 256"
definition MAX_PROMPT_CHARS :: nat where "MAX_PROMPT_CHARS = 16000"
definition MAX_MESSAGE_CHARS :: nat where "MAX_MESSAGE_CHARS = 32000"
definition MAX_DELTA_CHARS :: nat where "MAX_DELTA_CHARS = 4096"
definition MAX_DISPLAY_NAME_CHARS :: nat where "MAX_DISPLAY_NAME_CHARS = 80"
definition MAX_IDEMPOTENCY_KEY_CHARS :: nat where "MAX_IDEMPOTENCY_KEY_CHARS = 128"
definition MAX_SHARE_ORIGIN_CHARS :: nat where "MAX_SHARE_ORIGIN_CHARS = 2048"

definition validate_non_empty :: "string \<Rightarrow> nat \<Rightarrow> string \<Rightarrow> string + string" where
  "validate_non_empty value max_chars field = (let value = trim value in
     if value = [] then Inl (field @ '' is required'')
     else if length (chars value) > max_chars then Inl (field @ '' is too long'')
     else if list_ex is_control (chars value) then Inl (field @ '' contains control characters'')
     else Inr value)"

definition validate_model_id :: "string \<Rightarrow> string + string" where
  "validate_model_id value = validate_non_empty value MAX_MODEL_ID_CHARS ''modelId''"

definition validate_prompt :: "string \<Rightarrow> string + string" where
  "validate_prompt value = validate_non_empty value MAX_PROMPT_CHARS ''text''"

text \<open>Newline, carriage return and tab are the control characters a delta may hold.\<close>

definition text_break :: "nat \<Rightarrow> bool" where
  "text_break n \<longleftrightarrow> n = 10 \<or> n = 13 \<or> n = 9"

definition validate_delta :: "string \<Rightarrow> string + string" where
  "validate_delta value =
     (if value = [] then Inl ''delta is required''
      else if length (chars value) > MAX_DELTA_CHARS then Inl ''delta is too long''
      else if list_ex (\<lambda>c. is_control c \<and> \<not> text_break c) (chars value)
        then Inl ''delta contains unsupported control characters''
      else Inr value)"

definition validate_display_name :: "string \<Rightarrow> string + string" where
  "validate_display_name value = validate_non_empty value MAX_DISPLAY_NAME_CHARS ''displayName''"

definition validate_share_origin :: "platform \<Rightarrow> string \<Rightarrow> string + string" where
  "validate_share_origin P value =
     bindE (validate_non_empty value MAX_SHARE_ORIGIN_CHARS ''shareOrigin'') (\<lambda>origin.
     bindE (ok_or ''shareOrigin must be a valid URL'' (url_parse P origin)) (\<lambda>parsed.
     if url_scheme parsed \<notin> {''http'', ''https''} \<or> url_host parsed = None
        \<or> url_username parsed \<noteq> [] \<or> url_password parsed \<noteq> None \<or> url_query parsed \<noteq> None
        \<or> url_fragment parsed \<noteq> None \<or> url_path parsed \<notin> {[], ''/''}
     then Inl ''shareOrigin must be an HTTP(S) origin without credentials or a path''
     else let host = (case url_host parsed of None \<Rightarrow> [] | Some h \<Rightarrow> h) in
       if eq_ignore_ascii_case host ''localhost'' \<or> host = ''127.0.0.1'' \<or> host = ''::1''
          \<or> host = ''0.0.0.0''
       then Inl ''shareOrigin must be reachable by another device''
       else Inr (trim_end_matches (CHR ''/'') origin)))"

lemmas [eval_simps] = INVITE_TTL_SECS_def SESSION_TTL_SECS_def MAX_PARTICIPANTS_def
  MAX_HISTORY_MESSAGES_def MAX_RETAINED_RUNS_def MAX_MODEL_ID_CHARS_def MAX_PROMPT_CHARS_def
  MAX_MESSAGE_CHARS_def MAX_DELTA_CHARS_def MAX_DISPLAY_NAME_CHARS_def
  MAX_IDEMPOTENCY_KEY_CHARS_def MAX_SHARE_ORIGIN_CHARS_def validate_non_empty_def
  validate_model_id_def validate_prompt_def validate_delta_def validate_display_name_def
  validate_share_origin_def text_break_def

lemmas validator_defs = validate_model_id_def validate_prompt_def validate_display_name_def

lemma validate_non_empty_Inr:
  "validate_non_empty v n f = Inr w \<longleftrightarrow>
     w = trim v \<and> w \<noteq> [] \<and> length (chars w) \<le> n \<and> (\<forall>c\<in>set (chars w). \<not> is_control c)"
  by (auto simp: validate_non_empty_def Let_def list_ex_iff)

lemma validate_delta_Inr:
  "validate_delta v = Inr w \<longleftrightarrow> w = v \<and> v \<noteq> [] \<and> length (chars v) \<le> MAX_DELTA_CHARS
     \<and> (\<forall>c\<in>set (chars v). is_control c \<longrightarrow> text_break c)"
  by (auto simp: validate_delta_def list_ex_iff)

text \<open>
  A validated one-line field is trimmed, non-empty, within its cap and free of control
  characters, and validating what was accepted gives the same value back: what a client reads
  from a snapshot it can send again unchanged.
\<close>

lemma validated_field_stable:
  assumes "validate_non_empty v n f = Inr w"
  shows "validate_non_empty w n f = Inr w \<and> trim w = w \<and> w \<noteq> [] \<and> length (chars w) \<le> n
    \<and> list_all (\<lambda>c. \<not> is_control c) (chars w)"
proof -
  have w: "w = trim v" and rest: "w \<noteq> []" "length (chars w) \<le> n" "\<forall>c\<in>set (chars w). \<not> is_control c"
    using iffD1 [OF validate_non_empty_Inr assms] by blast+
  have t: "trim w = w" by (simp only: w trim_idem)
  show ?thesis
    using rest by (simp only: validate_non_empty_Inr list_all_iff t) simp
qed

theorem validated_field_stable_witness:
  "validate_non_empty ''a room'' 80 ''displayName'' = Inr ''a room'' \<and> ''a room'' \<noteq> []"
proof -
  have h: "validate_non_empty ''  a room '' 80 ''displayName'' = Inr ''a room''"
    by (simp add: validate_non_empty_def eval_simps)
  show ?thesis using validated_field_stable [OF h] by simp
qed

text \<open>An accepted share origin is an http(s) origin that another device can reach.\<close>

lemma validate_share_origin_Inr:
  assumes "validate_share_origin P v = Inr w"
  obtains u h where "url_parse P (trim v) = Some u" and "url_host u = Some h"
    and "url_scheme u \<in> {''http'', ''https''}" and "url_username u = []" and "url_password u = None"
    and "url_query u = None" and "url_fragment u = None" and "url_path u \<in> {[], ''/''}"
    and "\<not> eq_ignore_ascii_case h ''localhost''" and "h \<notin> {''127.0.0.1'', ''::1'', ''0.0.0.0''}"
    and "w = trim_end_matches (CHR ''/'') (trim v)"
proof -
  from assms obtain u where t: "validate_non_empty v MAX_SHARE_ORIGIN_CHARS ''shareOrigin'' = Inr (trim v)"
    and u: "url_parse P (trim v) = Some u"
    by (auto simp: validate_share_origin_def bindE_eq_Inr validate_non_empty_Inr)
  show thesis
    using assms by (intro that [OF u, of "the (url_host u)"])
      (simp_all add: validate_share_origin_def t u Let_def split: if_splits option.splits)
qed

end
