(* ===== verification/Room_Types.thy ===== *)
theory Room_Types
  imports Room_Limits
begin

text \<open>
  backend/src/model.rs and the text encodings of backend/src/store.rs: the data a snapshot
  carries, the room, run and participant states as enums, and the names they are stored under.
\<close>

datatype room_status = RoomIdle | RoomRunning | RoomFailed | RoomClosed

datatype run_status = RunQueued | RunRunning | RunCompleted | RunFailed | RunCanceled

datatype message_role = User | Assistant

datatype participant_role = Host | Guest | Viewer

record room_message =
  msg_id :: string
  msg_role :: message_role
  msg_text :: string
  msg_participant_id :: "string option"
  msg_created_at :: string

record room_run =
  run_run_id :: string
  run_request_id :: string
  run_idempotency_key :: "string option"
  run_status :: run_status
  run_partial_text :: string
  run_error_code :: "string option"
  run_error_message :: "string option"
  run_started_at :: "string option"
  run_finished_at :: "string option"

record room_participant_summary =
  part_id :: string
  part_display_name :: string
  part_role :: participant_role
  part_online :: bool

record room_snapshot =
  snap_contract :: string
  snap_schema_version :: nat
  snap_id :: string
  snap_status :: room_status
  snap_model_id :: string
  snap_engine :: string
  snap_messages :: "room_message list"
  snap_current_run :: "room_run option"
  snap_participants :: "room_participant_summary list"
  snap_updated_at :: string

record room_session =
  sess_room_id :: string
  sess_participant_id :: string
  sess_role :: participant_role
  sess_display_name :: string
  sess_secret :: string

definition parse_room_status :: "string \<Rightarrow> room_status option" where
  "parse_room_status v =
     (if v = ''idle'' then Some RoomIdle else if v = ''running'' then Some RoomRunning
      else if v = ''failed'' then Some RoomFailed else if v = ''closed'' then Some RoomClosed
      else None)"

definition parse_run_status :: "string \<Rightarrow> run_status option" where
  "parse_run_status v =
     (if v = ''queued'' then Some RunQueued else if v = ''running'' then Some RunRunning
      else if v = ''completed'' then Some RunCompleted else if v = ''failed'' then Some RunFailed
      else if v = ''canceled'' then Some RunCanceled else None)"

fun run_status_text :: "run_status \<Rightarrow> string" where
  "run_status_text RunQueued = ''queued''"
| "run_status_text RunRunning = ''running''"
| "run_status_text RunCompleted = ''completed''"
| "run_status_text RunFailed = ''failed''"
| "run_status_text RunCanceled = ''canceled''"

definition parse_message_role :: "string \<Rightarrow> message_role option" where
  "parse_message_role v =
     (if v = ''user'' then Some User else if v = ''assistant'' then Some Assistant else None)"

definition parse_participant_role :: "string \<Rightarrow> participant_role option" where
  "parse_participant_role v =
     (if v = ''host'' then Some Host else if v = ''guest'' then Some Guest
      else if v = ''viewer'' then Some Viewer else None)"

lemma parse_run_status_text [simp]: "parse_run_status (run_status_text s) = Some s"
  by (cases s) (simp_all add: parse_run_status_def)

lemma run_status_text_inj [simp]: "run_status_text s = run_status_text t \<longleftrightarrow> s = t"
  by (metis option.inject parse_run_status_text)

lemma parse_room_status_simps [simp]:
  "parse_room_status ''idle'' = Some RoomIdle" "parse_room_status ''running'' = Some RoomRunning"
  "parse_room_status ''failed'' = Some RoomFailed" "parse_room_status ''closed'' = Some RoomClosed"
  by (simp_all add: parse_room_status_def)

lemma parse_role_simps [simp]:
  "parse_participant_role ''host'' = Some Host" "parse_participant_role ''guest'' = Some Guest"
  "parse_message_role ''user'' = Some User" "parse_message_role ''assistant'' = Some Assistant"
  by (simp_all add: parse_participant_role_def parse_message_role_def)

section \<open>Identifiers\<close>

definition id_char :: "nat \<Rightarrow> bool" where
  "id_char n \<longleftrightarrow> is_ascii_alphanumeric n \<or> n = 95 \<or> n = 45"

text \<open>\<open>validate_room_id\<close> of the store, with the message of its error as the left value.\<close>

definition validate_room_id :: "string \<Rightarrow> string + string" where
  "validate_room_id value = (let value = trim value in
     if length value < 13 \<or> length value > 105 \<or> \<not> starts_with value ''room_''
        \<or> list_ex (\<lambda>c. \<not> id_char c) (chars value)
     then Inl ''roomId is invalid'' else Inr value)"

definition opaque_id :: "string \<Rightarrow> string \<Rightarrow> string" where
  "opaque_id prefix u = prefix @ u"

lemmas [eval_simps] = id_char_def validate_room_id_def opaque_id_def parse_room_status_def
  parse_run_status_def parse_message_role_def parse_participant_role_def

lemma validate_room_id_Inr:
  "validate_room_id v = Inr w \<longleftrightarrow> w = trim v \<and> 13 \<le> length w \<and> length w \<le> 105
     \<and> starts_with w ''room_'' \<and> (\<forall>c\<in>set (chars w). id_char c)"
  by (auto simp: validate_room_id_def Let_def list_ex_iff not_less)

lemma validate_room_id_stable: "validate_room_id v = Inr w \<Longrightarrow> validate_room_id w = Inr w"
  by (auto simp: validate_room_id_Inr)

end
