(* ===== verification/Room_Db.thy ===== *)
theory Room_Db
  imports Room_Types Store_Seal
begin

text \<open>
  rooms.db as backend/src/store.rs lays it out (\<open>initialize\<close>): one record per table row, with
  TEXT columns as strings, nullable columns as options and BLOB digests as bytes; the INSERT
  statements with their PRIMARY KEY, UNIQUE and FOREIGN KEY constraints; UPDATE statements with
  the number of rows they touch; and deleting participants with the cascade to their sessions.
  Operations are over \<open>db\<close>, in the error monad of the prelude; \<open>atomically\<close> is a transaction.
  SQLite's own failures (disk full, I/O) are not modelled: a statement fails on its constraints.
\<close>

section \<open>Errors\<close>

datatype db_error = Constraint | InvalidQuery | NoRows

datatype store_error = Database db_error | Invalid string | NotFound | RoomBusy | Closed
  | Forbidden | InviteUnavailable | Conflict | Lock | Seal seal_error

fun store_error_code :: "store_error \<Rightarrow> string" where
  "store_error_code (Database _) = ''storeUnavailable''"
| "store_error_code Lock = ''storeUnavailable''"
| "store_error_code (Seal _) = ''storeUnavailable''"
| "store_error_code (Invalid _) = ''invalidArgs''"
| "store_error_code NotFound = ''roomNotFound''"
| "store_error_code RoomBusy = ''roomBusy''"
| "store_error_code Closed = ''roomClosed''"
| "store_error_code Forbidden = ''forbidden''"
| "store_error_code InviteUnavailable = ''inviteUnavailable''"
| "store_error_code Conflict = ''conflict''"

section \<open>Tables\<close>

record room_row =
  r_id :: string
  r_schema_version :: nat
  r_contract :: string
  r_status :: string
  r_model_id :: string
  r_engine :: string
  r_share_origin :: string
  r_created_at :: string
  r_updated_at :: string

record message_row =
  m_id :: string
  m_room_id :: string
  m_role :: string
  m_text :: string
  m_participant_id :: "string option"
  m_created_at :: string

record run_row =
  u_id :: string
  u_room_id :: string
  u_request_id :: string
  u_idempotency_key :: "string option"
  u_input_text :: string
  u_status :: string
  u_partial_text :: string
  u_error_code :: "string option"
  u_error_message :: "string option"
  u_started_at :: "string option"
  u_finished_at :: "string option"
  u_created_at :: string

record invite_row =
  i_room_id :: string
  i_digest :: "byte list"
  i_expires_at :: string
  i_revoked_at :: "string option"

record participant_row =
  p_id :: string
  p_room_id :: string
  p_display_name :: string
  p_role :: string
  p_online :: bool
  p_created_at :: string
  p_last_seen_at :: string

record session_row =
  s_digest :: "byte list"
  s_room_id :: string
  s_participant_id :: string
  s_role :: string
  s_expires_at :: string
  s_revoked_at :: "string option"

record db =
  t_rooms :: "room_row list"
  t_messages :: "message_row list"
  t_runs :: "run_row list"
  t_invites :: "invite_row list"
  t_participants :: "participant_row list"
  t_sessions :: "session_row list"

definition initialize :: db where
  "initialize = \<lparr>t_rooms = [], t_messages = [], t_runs = [], t_invites = [], t_participants = [],
     t_sessions = []\<rparr>"

section \<open>Statements\<close>

type_synonym 'a dbop = "(db, store_error, 'a) op"

definition query :: "(db \<Rightarrow> 'a) \<Rightarrow> 'a dbop" where
  "query f d = (Inr (f d), d)"

definition guardS :: "'e \<Rightarrow> bool \<Rightarrow> ('s, 'e, unit) op" where
  "guardS e b = (if b then retS () else failS e)"

definition insert_when :: "bool \<Rightarrow> db \<Rightarrow> db \<Rightarrow> (store_error + unit) \<times> db" where
  "insert_when ok d d' = (if ok then (Inr (), d') else (Inl (Database Constraint), d))"

definition room_exists :: "db \<Rightarrow> string \<Rightarrow> bool" where
  "room_exists d i \<longleftrightarrow> i \<in> set (map r_id (t_rooms d))"

definition insert_room :: "room_row \<Rightarrow> unit dbop" where
  "insert_room r d = insert_when (r_id r \<notin> set (map r_id (t_rooms d))) d
     (d\<lparr>t_rooms := t_rooms d @ [r]\<rparr>)"

definition insert_message :: "message_row \<Rightarrow> unit dbop" where
  "insert_message m d = insert_when (m_id m \<notin> set (map m_id (t_messages d)) \<and> room_exists d (m_room_id m))
     d (d\<lparr>t_messages := t_messages d @ [m]\<rparr>)"

definition run_key_free :: "run_row \<Rightarrow> run_row list \<Rightarrow> bool" where
  "run_key_free u us \<longleftrightarrow> u_idempotency_key u = None
     \<or> (u_room_id u, u_idempotency_key u) \<notin> set (map (\<lambda>v. (u_room_id v, u_idempotency_key v)) us)"

definition insert_run :: "run_row \<Rightarrow> unit dbop" where
  "insert_run u d = insert_when (u_id u \<notin> set (map u_id (t_runs d)) \<and> room_exists d (u_room_id u)
       \<and> run_key_free u (t_runs d))
     d (d\<lparr>t_runs := t_runs d @ [u]\<rparr>)"

definition insert_invite :: "invite_row \<Rightarrow> unit dbop" where
  "insert_invite i d = insert_when (i_room_id i \<notin> set (map i_room_id (t_invites d))
       \<and> room_exists d (i_room_id i))
     d (d\<lparr>t_invites := t_invites d @ [i]\<rparr>)"

definition insert_participant :: "participant_row \<Rightarrow> unit dbop" where
  "insert_participant p d = insert_when (p_id p \<notin> set (map p_id (t_participants d))
       \<and> room_exists d (p_room_id p))
     d (d\<lparr>t_participants := t_participants d @ [p]\<rparr>)"

definition insert_session :: "session_row \<Rightarrow> unit dbop" where
  "insert_session s d = insert_when (s_digest s \<notin> set (map s_digest (t_sessions d))
       \<and> room_exists d (s_room_id s) \<and> s_participant_id s \<in> set (map p_id (t_participants d)))
     d (d\<lparr>t_sessions := t_sessions d @ [s]\<rparr>)"

text \<open>\<open>UPDATE\<close> and \<open>DELETE\<close> return the number of rows they touched.\<close>

definition update_rooms :: "(room_row \<Rightarrow> bool) \<Rightarrow> (room_row \<Rightarrow> room_row) \<Rightarrow> nat dbop" where
  "update_rooms P f d = (Inr (cnt P (t_rooms d)), d\<lparr>t_rooms := upd P f (t_rooms d)\<rparr>)"

definition update_runs :: "(run_row \<Rightarrow> bool) \<Rightarrow> (run_row \<Rightarrow> run_row) \<Rightarrow> nat dbop" where
  "update_runs P f d = (Inr (cnt P (t_runs d)), d\<lparr>t_runs := upd P f (t_runs d)\<rparr>)"

definition update_invites :: "(invite_row \<Rightarrow> bool) \<Rightarrow> (invite_row \<Rightarrow> invite_row) \<Rightarrow> nat dbop" where
  "update_invites P f d = (Inr (cnt P (t_invites d)), d\<lparr>t_invites := upd P f (t_invites d)\<rparr>)"

definition update_sessions :: "(session_row \<Rightarrow> bool) \<Rightarrow> (session_row \<Rightarrow> session_row) \<Rightarrow> nat dbop" where
  "update_sessions P f d = (Inr (cnt P (t_sessions d)), d\<lparr>t_sessions := upd P f (t_sessions d)\<rparr>)"

definition update_participants ::
  "(participant_row \<Rightarrow> bool) \<Rightarrow> (participant_row \<Rightarrow> participant_row) \<Rightarrow> nat dbop" where
  "update_participants P f d =
     (Inr (cnt P (t_participants d)), d\<lparr>t_participants := upd P f (t_participants d)\<rparr>)"

definition delete_participants :: "(participant_row \<Rightarrow> bool) \<Rightarrow> nat dbop" where
  "delete_participants P d = (let gone = map p_id (filter P (t_participants d)) in
     (Inr (cnt P (t_participants d)),
      d\<lparr>t_participants := del P (t_participants d),
        t_sessions := del (\<lambda>s. s_participant_id s \<in> set gone) (t_sessions d)\<rparr>))"

definition delete_runs :: "(run_row \<Rightarrow> bool) \<Rightarrow> nat dbop" where
  "delete_runs P d = (Inr (cnt P (t_runs d)), d\<lparr>t_runs := del P (t_runs d)\<rparr>)"

definition delete_messages :: "(message_row \<Rightarrow> bool) \<Rightarrow> nat dbop" where
  "delete_messages P d = (Inr (cnt P (t_messages d)), d\<lparr>t_messages := del P (t_messages d)\<rparr>)"

section \<open>Running statements one after another\<close>

named_theorems stmt_simps \<open>a bound statement applied to a database\<close>

lemma bind_query [stmt_simps]: "bindS (query f) k d = k (f d) d"
  by (simp add: query_def bindS_def)

lemma bind_guardS [stmt_simps]: "bindS (guardS e b) k s = (if b then k () s else (Inl e, s))"
  by (simp add: guardS_def bindS_def)

lemma bind_liftE [stmt_simps]:
  "bindS (liftE m) k s = (case m of Inl e \<Rightarrow> (Inl e, s) | Inr x \<Rightarrow> k x s)"
  by (simp add: bindS_def split: sum.split)

lemma bind_retS [stmt_simps]: "bindS (retS x) k s = k x s"
  by (simp add: bindS_def)

lemma bind_failS [stmt_simps]: "bindS (failS e) k s = (Inl e, s)"
  by (simp add: bindS_def)

lemma bind_updates [stmt_simps]:
  "bindS (update_rooms P f1) k d = k (cnt P (t_rooms d)) (d\<lparr>t_rooms := upd P f1 (t_rooms d)\<rparr>)"
  "bindS (update_runs Q f2) k d = k (cnt Q (t_runs d)) (d\<lparr>t_runs := upd Q f2 (t_runs d)\<rparr>)"
  "bindS (update_invites R f3) k d = k (cnt R (t_invites d)) (d\<lparr>t_invites := upd R f3 (t_invites d)\<rparr>)"
  "bindS (update_sessions S f4) k d = k (cnt S (t_sessions d)) (d\<lparr>t_sessions := upd S f4 (t_sessions d)\<rparr>)"
  "bindS (update_participants T f5) k d =
     k (cnt T (t_participants d)) (d\<lparr>t_participants := upd T f5 (t_participants d)\<rparr>)"
  "bindS (delete_runs Q) k d = k (cnt Q (t_runs d)) (d\<lparr>t_runs := del Q (t_runs d)\<rparr>)"
  "bindS (delete_messages U) k d = k (cnt U (t_messages d)) (d\<lparr>t_messages := del U (t_messages d)\<rparr>)"
  by (simp_all add: bindS_def update_rooms_def update_runs_def update_invites_def
    update_sessions_def update_participants_def delete_runs_def delete_messages_def)

lemma bind_delete_participants [stmt_simps]:
  "bindS (delete_participants P) k d =
     k (cnt P (t_participants d)) (d\<lparr>t_participants := del P (t_participants d),
        t_sessions := del (\<lambda>s. s_participant_id s \<in> set (map p_id (filter P (t_participants d))))
          (t_sessions d)\<rparr>)"
  by (simp add: bindS_def delete_participants_def Let_def)

lemma bind_insert_when:
  "insert_when ok d d' = (r, e) \<Longrightarrow> (ok \<and> r = Inr () \<and> e = d') \<or> (\<not> ok \<and> r = Inl (Database Constraint) \<and> e = d)"
  by (auto simp: insert_when_def split: if_splits)

lemmas insert_defs = insert_room_def insert_message_def insert_run_def insert_invite_def
  insert_participant_def insert_session_def

lemma bind_inserts [stmt_simps]:
  "bindS (insert_room r) k d = (if r_id r \<notin> set (map r_id (t_rooms d))
     then k () (d\<lparr>t_rooms := t_rooms d @ [r]\<rparr>) else (Inl (Database Constraint), d))"
  "bindS (insert_message m) k d = (if m_id m \<notin> set (map m_id (t_messages d)) \<and> room_exists d (m_room_id m)
     then k () (d\<lparr>t_messages := t_messages d @ [m]\<rparr>) else (Inl (Database Constraint), d))"
  "bindS (insert_run u) k d = (if u_id u \<notin> set (map u_id (t_runs d)) \<and> room_exists d (u_room_id u)
       \<and> run_key_free u (t_runs d)
     then k () (d\<lparr>t_runs := t_runs d @ [u]\<rparr>) else (Inl (Database Constraint), d))"
  "bindS (insert_invite i) k d = (if i_room_id i \<notin> set (map i_room_id (t_invites d))
       \<and> room_exists d (i_room_id i)
     then k () (d\<lparr>t_invites := t_invites d @ [i]\<rparr>) else (Inl (Database Constraint), d))"
  "bindS (insert_participant p) k d = (if p_id p \<notin> set (map p_id (t_participants d))
       \<and> room_exists d (p_room_id p)
     then k () (d\<lparr>t_participants := t_participants d @ [p]\<rparr>) else (Inl (Database Constraint), d))"
  "bindS (insert_session s) k d = (if s_digest s \<notin> set (map s_digest (t_sessions d))
       \<and> room_exists d (s_room_id s) \<and> s_participant_id s \<in> set (map p_id (t_participants d))
     then k () (d\<lparr>t_sessions := t_sessions d @ [s]\<rparr>) else (Inl (Database Constraint), d))"
  by (simp_all add: bindS_def insert_defs insert_when_def)

lemma atomically_cases:
  assumes "atomically m d = (r, e)"
  obtains (rolled_back) x where "r = Inl x" "e = d" | (committed) x where "r = Inr x" "m d = (Inr x, e)"
  using assms by (auto simp: atomically_def split: prod.splits sum.splits)

lemmas [eval_simps] = initialize_def query_def guardS_def insert_when_def room_exists_def
  insert_defs run_key_free_def update_rooms_def update_runs_def update_invites_def
  update_sessions_def update_participants_def delete_participants_def delete_runs_def
  delete_messages_def

end
