(* ===== verification/Room_Store.thy ===== *)
theory Room_Store
  imports Room_Db
begin

text \<open>
  backend/src/store.rs: the Rooms store. A \<open>room_store\<close> is the database, how the store seals and
  the count of values it could not open. Every method of \<open>RoomStore\<close> is one operation; the uuids,
  nonces and clock readings it draws come from its \<open>draws\<close> argument, numbered in the order the code
  draws them. A method that locks the connection runs alone, so a call is one step, except
  \<open>append_user_turn\<close>, which commits the turn and then locks again to read the snapshot: its two
  parts are separate operations.
\<close>

section \<open>The store and its sealed cells\<close>

definition CONTRACT :: string where "CONTRACT = ''rooms/1''"
definition ENGINE :: string where "ENGINE = ''mesh-llm''"
definition STORE :: string where "STORE = ''rooms.db''"
definition PLUGIN_ID :: string where "PLUGIN_ID = ''@ryu/rooms''"

record room_store =
  rs_db :: db
  rs_seal :: store_seal
  rs_unreadable :: "64 word"

type_synonym 'a storeop = "(room_store, store_error, 'a) op"

record create_room_input =
  cr_model_id :: string
  cr_share_origin :: string

record created_room =
  created_snapshot :: room_snapshot
  created_invite :: string
  created_share_origin :: string

record issued_invite =
  issued_secret :: string
  issued_share_origin :: string

record submit_turn_input =
  st_text :: string
  st_idempotency_key :: "string option"

record accepted_run =
  acc_run :: room_run
  acc_user_message :: room_message
  acc_snapshot :: room_snapshot

record run_terminal =
  rt_status :: run_status
  rt_error_code :: "string option"
  rt_error_message :: "string option"

definition ctx :: "string \<Rightarrow> string \<Rightarrow> string \<Rightarrow> content_context" where
  "ctx table column i = for_id (table @ ''.'' @ column) i"

definition sealing_seal ::
  "platform \<Rightarrow> store_seal \<Rightarrow> string \<Rightarrow> content_context \<Rightarrow> byte list \<Rightarrow> store_error + string" where
  "sealing_seal P seal value c n = map_err Seal (seal_text P seal value c n)"

definition sealing_seal_opt ::
  "platform \<Rightarrow> store_seal \<Rightarrow> string option \<Rightarrow> content_context \<Rightarrow> byte list \<Rightarrow> store_error + string option" where
  "sealing_seal_opt P seal value c n = map_err Seal (seal_opt P seal value c n)"

definition sealing_open ::
  "platform \<Rightarrow> store_seal \<Rightarrow> string \<Rightarrow> content_context \<Rightarrow> store_error + string" where
  "sealing_open P seal stored c = map_err Seal (seal_open_text P seal stored c)"

definition sealing_open_opt ::
  "platform \<Rightarrow> store_seal \<Rightarrow> string option \<Rightarrow> content_context \<Rightarrow> store_error + string option" where
  "sealing_open_opt P seal stored c = map_err Seal (open_opt P seal stored c)"

text \<open>\<open>skip\<close>: a row that does not open is counted (the counter wraps like the atomic it is).\<close>

definition skip :: "unit storeop" where
  "skip = modifyS (\<lambda>s. s\<lparr>rs_unreadable := rs_unreadable s + 1\<rparr>)"

definition with_connection :: "'a dbop \<Rightarrow> 'a storeop" where
  "with_connection f s = (case f (rs_db s) of (r, d) \<Rightarrow> (r, s\<lparr>rs_db := d\<rparr>))"

definition with_transaction :: "'a dbop \<Rightarrow> 'a storeop" where
  "with_transaction f = with_connection (atomically f)"

definition with_seal :: "(store_seal \<Rightarrow> 'a storeop) \<Rightarrow> 'a storeop" where
  "with_seal f s = f (rs_seal s) s"

definition digest :: "platform \<Rightarrow> string \<Rightarrow> byte list" where
  "digest P value = sha256 P (as_bytes value)"

definition opaque_secret :: "draws \<Rightarrow> nat \<Rightarrow> string" where
  "opaque_secret D i = uuid D i"

definition now_text :: "platform \<Rightarrow> draws \<Rightarrow> nat \<Rightarrow> string" where
  "now_text P D i = to_rfc3339 P (clock D i)"

definition text_in :: "platform \<Rightarrow> int \<Rightarrow> int \<Rightarrow> string" where
  "text_in P t secs = to_rfc3339 P (t + secs * NANOS)"

definition future_timestamp :: "platform \<Rightarrow> string \<Rightarrow> int \<Rightarrow> bool" where
  "future_timestamp P value t = (case parse_rfc3339 P value of Some parsed \<Rightarrow> parsed > t | None \<Rightarrow> False)"

definition active_text :: "string \<Rightarrow> bool" where
  "active_text status \<longleftrightarrow> status = ''queued'' \<or> status = ''running''"

definition active :: "run_row \<Rightarrow> bool" where
  "active u \<longleftrightarrow> active_text (u_status u)"

section \<open>Reading\<close>

text \<open>The rows that open, in order; every other row is skipped and counted.\<close>

fun open_each :: "('a \<Rightarrow> store_error + 'b) \<Rightarrow> 'a list \<Rightarrow> 'b list storeop" where
  "open_each f [] = retS []"
| "open_each f (x # xs) =
     (case f x of
        Inr y \<Rightarrow> bindS (open_each f xs) (\<lambda>ys. retS (y # ys))
      | Inl e \<Rightarrow> bindS skip (\<lambda>_. open_each f xs))"

definition row_to_message :: "message_row \<Rightarrow> store_error + room_message" where
  "row_to_message m = bindE (ok_or (Database InvalidQuery) (parse_message_role (m_role m))) (\<lambda>role.
     Inr \<lparr>msg_id = m_id m, msg_role = role, msg_text = m_text m,
       msg_participant_id = m_participant_id m, msg_created_at = m_created_at m\<rparr>)"

definition message_order :: "message_row \<Rightarrow> string \<times> string" where
  "message_order m = (m_created_at m, m_id m)"

definition recent_messages :: "db \<Rightarrow> string \<Rightarrow> message_row list" where
  "recent_messages d room_id = rev (take MAX_HISTORY_MESSAGES
     (newest_first message_order (filter (\<lambda>m. m_room_id m = room_id) (t_messages d))))"

definition open_message :: "platform \<Rightarrow> store_seal \<Rightarrow> room_message \<Rightarrow> store_error + room_message" where
  "open_message P seal m =
     bindE (sealing_open P seal (msg_text m) (ctx ''room_messages'' ''text'' (msg_id m)))
       (\<lambda>t. Inr (m\<lparr>msg_text := t\<rparr>))"

text \<open>\<open>query_map\<close> reads the newest rows; they are reversed once all of them parsed.\<close>

definition load_messages :: "platform \<Rightarrow> string \<Rightarrow> room_message list storeop" where
  "load_messages P room_id s =
     bindS (liftE (collect_results (map row_to_message (rev (recent_messages (rs_db s) room_id)))))
       (\<lambda>ms. open_each (open_message P (rs_seal s)) (rev ms)) s"

definition participant_order :: "participant_row \<Rightarrow> string \<times> string" where
  "participant_order p = (p_created_at p, p_id p)"

definition row_to_participant :: "participant_row \<Rightarrow> store_error + room_participant_summary" where
  "row_to_participant p =
     bindE (ok_or (Database InvalidQuery) (parse_participant_role (p_role p))) (\<lambda>role.
     Inr \<lparr>part_id = p_id p, part_display_name = p_display_name p, part_role = role,
       part_online = p_online p\<rparr>)"

definition open_participant ::
  "platform \<Rightarrow> store_seal \<Rightarrow> room_participant_summary \<Rightarrow> store_error + room_participant_summary" where
  "open_participant P seal p =
     bindE (sealing_open P seal (part_display_name p)
       (ctx ''room_participants'' ''display_name'' (part_id p)))
       (\<lambda>t. Inr (p\<lparr>part_display_name := t\<rparr>))"

definition room_participants :: "db \<Rightarrow> string \<Rightarrow> participant_row list" where
  "room_participants d room_id =
     sort_key participant_order (filter (\<lambda>p. p_room_id p = room_id) (t_participants d))"

definition load_participants :: "platform \<Rightarrow> string \<Rightarrow> room_participant_summary list storeop" where
  "load_participants P room_id s =
     bindS (liftE (collect_results (map row_to_participant (room_participants (rs_db s) room_id))))
       (open_each (open_participant P (rs_seal s))) s"

definition row_to_run :: "run_row \<Rightarrow> store_error + room_run" where
  "row_to_run u = bindE (ok_or (Database InvalidQuery) (parse_run_status (u_status u))) (\<lambda>st.
     Inr \<lparr>run_run_id = u_id u, run_request_id = u_request_id u,
       run_idempotency_key = u_idempotency_key u, run_status = st,
       run_partial_text = u_partial_text u, run_error_code = u_error_code u,
       run_error_message = u_error_message u, run_started_at = u_started_at u,
       run_finished_at = u_finished_at u\<rparr>)"

definition open_run :: "platform \<Rightarrow> store_seal \<Rightarrow> room_run \<Rightarrow> store_error + room_run" where
  "open_run P seal run =
     bindE (sealing_open P seal (run_partial_text run) (ctx ''room_runs'' ''partial_text'' (run_run_id run)))
       (\<lambda>partial.
     bindE (sealing_open_opt P seal (run_error_message run)
         (ctx ''room_runs'' ''error_message'' (run_run_id run)))
       (\<lambda>message. Inr (run\<lparr>run_partial_text := partial, run_error_message := message\<rparr>)))"

definition open_run_or_blank :: "platform \<Rightarrow> room_run \<Rightarrow> room_run storeop" where
  "open_run_or_blank P run = with_seal (\<lambda>seal.
     case open_run P seal run of
       Inr opened \<Rightarrow> retS opened
     | Inl e \<Rightarrow> bindS skip (\<lambda>_. retS (run\<lparr>run_partial_text := [], run_error_message := None\<rparr>)))"

definition run_order :: "run_row \<Rightarrow> string \<times> string" where
  "run_order u = (u_created_at u, u_id u)"

definition shown_status :: "string \<Rightarrow> bool" where
  "shown_status st \<longleftrightarrow> active_text st \<or> st = ''failed''"

definition current_run_row :: "db \<Rightarrow> string \<Rightarrow> run_row option" where
  "current_run_row d room_id =
     (case newest_first run_order
        (filter (\<lambda>u. u_room_id u = room_id \<and> shown_status (u_status u)) (t_runs d)) of
        [] \<Rightarrow> None | u # _ \<Rightarrow> Some u)"

definition load_current_run :: "platform \<Rightarrow> string \<Rightarrow> room_run option storeop" where
  "load_current_run P room_id s =
     (case current_run_row (rs_db s) room_id of
        None \<Rightarrow> retS None s
      | Some u \<Rightarrow> bindS (liftE (row_to_run u)) (\<lambda>run.
          bindS (open_run_or_blank P run) (\<lambda>opened. retS (Some opened))) s)"

definition snapshot_from_connection :: "platform \<Rightarrow> string \<Rightarrow> room_snapshot option storeop" where
  "snapshot_from_connection P room_id s =
     (case find (\<lambda>r. r_id r = room_id) (t_rooms (rs_db s)) of
        None \<Rightarrow> retS None s
      | Some r \<Rightarrow>
          bindS (load_messages P room_id) (\<lambda>messages.
          bindS (load_current_run P room_id) (\<lambda>current_run.
          bindS (load_participants P room_id) (\<lambda>participants.
          bindS (liftE (ok_or (Database InvalidQuery) (parse_room_status (r_status r)))) (\<lambda>status.
          retS (Some \<lparr>snap_contract = CONTRACT, snap_schema_version = 1, snap_id = room_id,
            snap_status = status, snap_model_id = r_model_id r, snap_engine = ENGINE,
            snap_messages = messages, snap_current_run = current_run,
            snap_participants = participants, snap_updated_at = r_updated_at r\<rparr>))))) s)"

definition valid_room :: "string \<Rightarrow> (string \<Rightarrow> ('s, store_error, 'a) op) \<Rightarrow> ('s, store_error, 'a) op" where
  "valid_room room_id k = bindS (liftE (map_err Invalid (validate_room_id room_id))) k"

definition snapshot :: "platform \<Rightarrow> string \<Rightarrow> room_snapshot option storeop" where
  "snapshot P room_id = valid_room room_id (snapshot_from_connection P)"

fun snapshots :: "platform \<Rightarrow> string list \<Rightarrow> room_snapshot list storeop" where
  "snapshots P [] = retS []"
| "snapshots P (i # ids) =
     bindS (snapshot P i) (\<lambda>room. bindS (snapshots P ids) (\<lambda>rooms.
       retS (case room of None \<Rightarrow> rooms | Some r \<Rightarrow> r # rooms)))"

definition room_order :: "room_row \<Rightarrow> string \<times> string" where
  "room_order r = (r_updated_at r, r_id r)"

definition list_rooms :: "platform \<Rightarrow> room_snapshot list storeop" where
  "list_rooms P =
     bindS (with_connection (query (\<lambda>d. map r_id (newest_first room_order (t_rooms d))))) (snapshots P)"

definition required_snapshot :: "platform \<Rightarrow> string \<Rightarrow> room_snapshot storeop" where
  "required_snapshot P room_id =
     bindS (snapshot P room_id) (\<lambda>room. liftE (ok_or NotFound room))"

definition host_session :: "platform \<Rightarrow> string \<Rightarrow> room_session storeop" where
  "host_session P room_id = valid_room room_id (\<lambda>room_id. with_seal (\<lambda>seal.
     with_connection (
       bindS (query (\<lambda>d. find (\<lambda>p. p_room_id p = room_id \<and> p_role p = ''host'') (t_participants d))) (\<lambda>p.
       bindS (liftE (ok_or NotFound p)) (\<lambda>p.
       bindS (liftE (sealing_open P seal (p_display_name p)
           (ctx ''room_participants'' ''display_name'' (p_id p)))) (\<lambda>name.
       retS \<lparr>sess_room_id = room_id, sess_participant_id = p_id p, sess_role = Host,
         sess_display_name = name, sess_secret = []\<rparr>))))))"

definition run_by_id :: "platform \<Rightarrow> string \<Rightarrow> string \<Rightarrow> room_run option storeop" where
  "run_by_id P room_id i = with_seal (\<lambda>seal. with_connection (
     bindS (query (\<lambda>d. find (\<lambda>u. u_room_id u = room_id \<and> u_id u = i) (t_runs d))) (\<lambda>u.
     liftE (traverse_opt (\<lambda>u. bindE (row_to_run u) (open_run P seal)) u))))"

end
