(* ===== verification/Room_Ops.thy ===== *)
theory Room_Ops
  imports Room_Store
begin

text \<open>
  backend/src/store.rs, the methods that write: rooms and invites, participants and sessions,
  turns and runs. Methods that open a transaction are \<open>atomically\<close> (an error rolls back); the
  others commit every statement by itself, in the order the code has them.
\<close>

section \<open>Rooms\<close>

definition create_room_tx ::
  "room_row \<Rightarrow> invite_row \<Rightarrow> participant_row \<Rightarrow> unit dbop" where
  "create_room_tx room invite host = atomically (
     bindS (insert_room room) (\<lambda>_. bindS (insert_invite invite) (\<lambda>_. insert_participant host)))"

definition new_room_row :: "platform \<Rightarrow> draws \<Rightarrow> string \<Rightarrow> string \<Rightarrow> string \<Rightarrow> room_row" where
  "new_room_row P D room_id model_id share_origin =
     \<lparr>r_id = room_id, r_schema_version = 1, r_contract = CONTRACT, r_status = ''idle'',
      r_model_id = model_id, r_engine = ENGINE, r_share_origin = share_origin,
      r_created_at = now_text P D 0, r_updated_at = now_text P D 0\<rparr>"

definition new_participant_row ::
  "platform \<Rightarrow> draws \<Rightarrow> string \<Rightarrow> string \<Rightarrow> string \<Rightarrow> string \<Rightarrow> participant_row" where
  "new_participant_row P D participant_id room_id name role =
     \<lparr>p_id = participant_id, p_room_id = room_id, p_display_name = name, p_role = role,
      p_online = True, p_created_at = now_text P D 0, p_last_seen_at = now_text P D 0\<rparr>"

definition create_room :: "platform \<Rightarrow> draws \<Rightarrow> create_room_input \<Rightarrow> created_room storeop" where
  "create_room P D input =
     bindS (liftE (map_err Invalid (validate_model_id (cr_model_id input)))) (\<lambda>model_id.
     bindS (liftE (map_err Invalid (validate_share_origin P (cr_share_origin input)))) (\<lambda>share_origin.
     let room_id = opaque_id ''room_'' (uuid D 0);
         participant_id = opaque_id ''member_'' (uuid D 1);
         invite = opaque_secret D 2 in
     with_seal (\<lambda>seal.
     bindS (liftE (sealing_seal P seal ''Host''
       (ctx ''room_participants'' ''display_name'' participant_id) (nonce D 0))) (\<lambda>host_name.
     bindS (with_connection (create_room_tx
       (new_room_row P D room_id model_id share_origin)
       \<lparr>i_room_id = room_id, i_digest = digest P invite,
        i_expires_at = text_in P (clock D 0) INVITE_TTL_SECS, i_revoked_at = None\<rparr>
       (new_participant_row P D participant_id room_id host_name ''host''))) (\<lambda>_.
     bindS (required_snapshot P room_id) (\<lambda>room.
     retS \<lparr>created_snapshot = room, created_invite = invite, created_share_origin = share_origin\<rparr>))))))"

section \<open>Invites and sessions\<close>

text \<open>\<open>room_participants p LEFT JOIN room_sessions s ON s.participant_id = p.id\<close>\<close>

definition left_join_sessions ::
  "participant_row list \<Rightarrow> session_row list \<Rightarrow> (participant_row \<times> session_row option) list" where
  "left_join_sessions ps ss = concat (map (\<lambda>p.
     case filter (\<lambda>s. s_participant_id s = p_id p) ss of
       [] \<Rightarrow> [(p, None)]
     | matched \<Rightarrow> map (\<lambda>s. (p, Some s)) matched) ps)"

definition live_session :: "platform \<Rightarrow> int \<Rightarrow> session_row option \<Rightarrow> bool" where
  "live_session P t s =
     (case s of None \<Rightarrow> False
      | Some s \<Rightarrow> s_revoked_at s = None \<and> future_timestamp P (s_expires_at s) t)"

text \<open>The ids of the live participants of a room: the host, and guests with a live session.\<close>

definition live_participants :: "platform \<Rightarrow> int \<Rightarrow> string \<Rightarrow> db \<Rightarrow> string list" where
  "live_participants P t room_id d = remdups (map (p_id \<circ> fst)
     (filter (\<lambda>(p, s). p_role p = ''host'' \<or> live_session P t s)
       (left_join_sessions (filter (\<lambda>p. p_room_id p = room_id) (t_participants d)) (t_sessions d))))"

definition exchange_tx ::
  "platform \<Rightarrow> draws \<Rightarrow> byte list \<Rightarrow> byte list \<Rightarrow> string \<Rightarrow> string \<Rightarrow> string dbop" where
  "exchange_tx P D invite_digest session_digest participant_id sealed_name = atomically (
     bindS (query (\<lambda>d. find (\<lambda>i. i_digest i = invite_digest) (t_invites d))) (\<lambda>invite.
     bindS (liftE (ok_or InviteUnavailable invite)) (\<lambda>invite.
     bindS (guardS InviteUnavailable
       (i_revoked_at invite = None \<and> future_timestamp P (i_expires_at invite) (clock D 0))) (\<lambda>_.
     let room_id = i_room_id invite in
     bindS (query (\<lambda>d. find (\<lambda>r. r_id r = room_id) (t_rooms d))) (\<lambda>room.
     bindS (liftE (ok_or (Database NoRows) room)) (\<lambda>room.
     bindS (guardS InviteUnavailable (r_status room \<noteq> ''closed'')) (\<lambda>_.
     bindS (query (\<lambda>d. length (live_participants P (clock D 0) room_id d))) (\<lambda>live.
     bindS (guardS Conflict (live < MAX_PARTICIPANTS)) (\<lambda>_.
     bindS (insert_participant (new_participant_row P D participant_id room_id sealed_name ''guest'')) (\<lambda>_.
     bindS (insert_session \<lparr>s_digest = session_digest, s_room_id = room_id,
       s_participant_id = participant_id, s_role = ''guest'',
       s_expires_at = text_in P (clock D 0) SESSION_TTL_SECS, s_revoked_at = None\<rparr>) (\<lambda>_.
     retS room_id)))))))))))"

definition raw_secret_ok :: "string \<Rightarrow> bool" where
  "raw_secret_ok raw \<longleftrightarrow> raw \<noteq> [] \<and> length raw \<le> 128"

definition exchange_invite :: "platform \<Rightarrow> draws \<Rightarrow> string \<Rightarrow> string \<Rightarrow> room_session storeop" where
  "exchange_invite P D raw display_name =
     bindS (liftE (map_err Invalid (validate_display_name display_name))) (\<lambda>display_name.
     let raw = trim raw in
     bindS (guardS InviteUnavailable (raw_secret_ok raw \<and> \<not> list_ex is_control (chars raw))) (\<lambda>_.
     let session_secret = opaque_secret D 0;
         participant_id = opaque_id ''member_'' (uuid D 1) in
     with_seal (\<lambda>seal.
     bindS (liftE (sealing_seal P seal display_name
       (ctx ''room_participants'' ''display_name'' participant_id) (nonce D 0))) (\<lambda>sealed_name.
     bindS (with_connection (exchange_tx P D (digest P raw) (digest P session_secret) participant_id
       sealed_name)) (\<lambda>room_id.
     retS \<lparr>sess_room_id = room_id, sess_participant_id = participant_id, sess_role = Guest,
       sess_display_name = display_name, sess_secret = session_secret\<rparr>)))))"

definition is_guest_of :: "string \<Rightarrow> participant_row \<Rightarrow> bool" where
  "is_guest_of room_id p \<longleftrightarrow> p_room_id p = room_id \<and> p_role p = ''guest''"

definition revoke_sessions :: "string \<Rightarrow> string \<Rightarrow> nat dbop" where
  "revoke_sessions room_id now = update_sessions
     (\<lambda>s. s_room_id s = room_id \<and> s_revoked_at s = None) (\<lambda>s. s\<lparr>s_revoked_at := Some now\<rparr>)"

definition issue_tx :: "platform \<Rightarrow> draws \<Rightarrow> string \<Rightarrow> string dbop" where
  "issue_tx P D room_id = atomically (
     bindS (query (\<lambda>d. find (\<lambda>r. r_id r = room_id) (t_rooms d))) (\<lambda>room.
     bindS (liftE (ok_or NotFound room)) (\<lambda>room.
     bindS (guardS Closed (r_status room \<noteq> ''closed'')) (\<lambda>_.
     bindS (update_invites (\<lambda>i. i_room_id i = room_id)
       (\<lambda>i. i\<lparr>i_digest := digest P (opaque_secret D 0),
         i_expires_at := text_in P (clock D 0) INVITE_TTL_SECS, i_revoked_at := None\<rparr>)) (\<lambda>changed.
     bindS (guardS NotFound (changed \<noteq> 0)) (\<lambda>_.
     bindS (revoke_sessions room_id (now_text P D 0)) (\<lambda>_.
     bindS (delete_participants (is_guest_of room_id)) (\<lambda>_.
     retS (r_share_origin room)))))))))"

definition issue_invite :: "platform \<Rightarrow> draws \<Rightarrow> string \<Rightarrow> issued_invite storeop" where
  "issue_invite P D room_id = valid_room room_id (\<lambda>room_id.
     bindS (with_connection (issue_tx P D room_id)) (\<lambda>share_origin.
     retS \<lparr>issued_secret = opaque_secret D 0, issued_share_origin = share_origin\<rparr>))"

text \<open>\<open>room_sessions s JOIN room_participants p ON p.id = s.participant_id\<close>\<close>

definition join_participants ::
  "session_row list \<Rightarrow> participant_row list \<Rightarrow> (session_row \<times> participant_row) list" where
  "join_participants ss ps = concat (map (\<lambda>s.
     map (\<lambda>p. (s, p)) (filter (\<lambda>p. p_id p = s_participant_id s) ps)) ss)"

definition resolve_session :: "platform \<Rightarrow> draws \<Rightarrow> string \<Rightarrow> room_session option storeop" where
  "resolve_session P D raw = (let raw = trim raw in
     if \<not> raw_secret_ok raw then retS None
     else with_seal (\<lambda>seal. with_connection (
       bindS (query (\<lambda>d. find (\<lambda>(s, p). s_digest s = digest P raw)
         (join_participants (t_sessions d) (t_participants d)))) (\<lambda>found.
       case found of
         None \<Rightarrow> retS None
       | Some (s, p) \<Rightarrow>
           if s_revoked_at s \<noteq> None \<or> \<not> future_timestamp P (s_expires_at s) (clock D 0) then retS None
           else bindS (liftE (sealing_open P seal (p_display_name p)
               (ctx ''room_participants'' ''display_name'' (s_participant_id s)))) (\<lambda>name.
             bindS (liftE (ok_or (Database InvalidQuery) (parse_participant_role (s_role s)))) (\<lambda>role.
             retS (Some \<lparr>sess_room_id = s_room_id s, sess_participant_id = s_participant_id s,
               sess_role = role, sess_display_name = name, sess_secret = raw\<rparr>)))))))"

definition close_db :: "platform \<Rightarrow> draws \<Rightarrow> string \<Rightarrow> unit dbop" where
  "close_db P D room_id =
     bindS (update_rooms (\<lambda>r. r_id r = room_id \<and> r_status r \<noteq> ''closed'')
       (\<lambda>r. r\<lparr>r_status := ''closed'', r_updated_at := now_text P D 0\<rparr>)) (\<lambda>changed.
     bindS (guardS NotFound (changed \<noteq> 0)) (\<lambda>_.
     bindS (update_invites (\<lambda>i. i_room_id i = room_id \<and> i_revoked_at i = None)
       (\<lambda>i. i\<lparr>i_revoked_at := Some (now_text P D 1)\<rparr>)) (\<lambda>_.
     bindS (revoke_sessions room_id (now_text P D 2)) (\<lambda>_.
     bindS (update_participants (\<lambda>p. p_room_id p = room_id) (\<lambda>p. p\<lparr>p_online := False\<rparr>)) (\<lambda>_.
     retS ())))))"

definition close_room :: "platform \<Rightarrow> draws \<Rightarrow> string \<Rightarrow> unit storeop" where
  "close_room P D room_id = valid_room room_id (\<lambda>room_id. with_connection (close_db P D room_id))"

definition revoke_db :: "platform \<Rightarrow> draws \<Rightarrow> string \<Rightarrow> unit dbop" where
  "revoke_db P D room_id =
     bindS (update_invites (\<lambda>i. i_room_id i = room_id \<and> i_revoked_at i = None)
       (\<lambda>i. i\<lparr>i_revoked_at := Some (now_text P D 0)\<rparr>)) (\<lambda>changed.
     bindS (guardS NotFound (changed \<noteq> 0)) (\<lambda>_.
     bindS (revoke_sessions room_id (now_text P D 1)) (\<lambda>_.
     bindS (delete_participants (is_guest_of room_id)) (\<lambda>_.
     retS ()))))"

definition revoke_invite :: "platform \<Rightarrow> draws \<Rightarrow> string \<Rightarrow> unit storeop" where
  "revoke_invite P D room_id = valid_room room_id (\<lambda>room_id. with_connection (revoke_db P D room_id))"

text \<open>\<open>raw_invite_for_test\<close>: whatever the row, no raw invite is read back.\<close>

definition raw_invite_for_test :: "string \<Rightarrow> string option storeop" where
  "raw_invite_for_test room_id = with_connection (
     bindS (query (\<lambda>d. find (\<lambda>i. i_room_id i = room_id) (t_invites d))) (\<lambda>has_row. retS None))"

section \<open>Turns\<close>

definition start_turn ::
  "platform \<Rightarrow> draws \<Rightarrow> store_seal \<Rightarrow> room_session \<Rightarrow> string \<Rightarrow> string option \<Rightarrow> (string \<times> string option) dbop" where
  "start_turn P D seal session text key = (let room_id = sess_room_id session in
     bindS (query (\<lambda>d. cnt (\<lambda>u. u_room_id u = room_id \<and> active u) (t_runs d))) (\<lambda>running.
     bindS (guardS RoomBusy (running = 0)) (\<lambda>_.
     let now = now_text P D 0;
         message_id = opaque_id ''msg_'' (uuid D 0);
         run_id = opaque_id ''run_'' (uuid D 1);
         request_id = opaque_id ''req_'' (uuid D 2) in
     bindS (liftE (sealing_seal P seal text (ctx ''room_messages'' ''text'' message_id) (nonce D 0))) (\<lambda>message.
     bindS (liftE (sealing_seal P seal text (ctx ''room_runs'' ''input_text'' run_id) (nonce D 1))) (\<lambda>input.
     bindS (liftE (sealing_seal P seal [] (ctx ''room_runs'' ''partial_text'' run_id) (nonce D 2))) (\<lambda>partial.
     bindS (insert_message \<lparr>m_id = message_id, m_room_id = room_id, m_role = ''user'', m_text = message,
       m_participant_id = Some (sess_participant_id session), m_created_at = now\<rparr>) (\<lambda>_.
     bindS (insert_run \<lparr>u_id = run_id, u_room_id = room_id, u_request_id = request_id,
       u_idempotency_key = key, u_input_text = input, u_status = ''running'', u_partial_text = partial,
       u_error_code = None, u_error_message = None, u_started_at = Some now, u_finished_at = None,
       u_created_at = now\<rparr>) (\<lambda>_.
     bindS (update_rooms (\<lambda>r. r_id r = room_id)
       (\<lambda>r. r\<lparr>r_status := ''running'', r_updated_at := now\<rparr>)) (\<lambda>_.
     retS (run_id, Some message_id))))))))))"

definition append_user_turn_tx ::
  "platform \<Rightarrow> draws \<Rightarrow> store_seal \<Rightarrow> room_session \<Rightarrow> string \<Rightarrow> string option \<Rightarrow> (string \<times> string option) dbop" where
  "append_user_turn_tx P D seal session text key = atomically (let room_id = sess_room_id session in
     bindS (query (\<lambda>d. find (\<lambda>r. r_id r = room_id) (t_rooms d))) (\<lambda>room.
     bindS (liftE (ok_or NotFound room)) (\<lambda>room.
     bindS (guardS Closed (r_status room \<noteq> ''closed'')) (\<lambda>_.
     case key of
       None \<Rightarrow> start_turn P D seal session text key
     | Some k \<Rightarrow>
         bindS (query (\<lambda>d. find (\<lambda>u. u_room_id u = room_id \<and> u_idempotency_key u = Some k) (t_runs d))) (\<lambda>existing.
         case existing of
           None \<Rightarrow> start_turn P D seal session text key
         | Some u \<Rightarrow>
             bindS (liftE (sealing_open P seal (u_input_text u) (ctx ''room_runs'' ''input_text'' (u_id u)))) (\<lambda>previous.
             bindS (guardS Conflict (previous = text)) (\<lambda>_.
             retS (u_id u, None))))))))"

definition append_user_turn_reply ::
  "platform \<Rightarrow> string \<Rightarrow> string \<Rightarrow> string \<times> string option \<Rightarrow> accepted_run storeop" where
  "append_user_turn_reply P room_id text ids = (case ids of (run_id, message_id) \<Rightarrow>
     bindS (required_snapshot P room_id) (\<lambda>snap.
     bindS (case message_id of
         Some _ \<Rightarrow> liftE (ok_or NotFound (snap_current_run snap))
       | None \<Rightarrow> bindS (run_by_id P room_id run_id) (\<lambda>run. liftE (ok_or NotFound run))) (\<lambda>run.
     bindS (liftE (ok_or NotFound (find
       (\<lambda>m. msg_role m = User \<and> msg_text m = text
         \<and> (case message_id of None \<Rightarrow> True | Some i \<Rightarrow> msg_id m = i)) (rev (snap_messages snap))))) (\<lambda>user_message.
     retS \<lparr>acc_run = run, acc_user_message = user_message, acc_snapshot = snap\<rparr>))))"

text \<open>Up to the commit; the connection is unlocked before the reply is read.\<close>

definition commit_user_turn ::
  "platform \<Rightarrow> draws \<Rightarrow> room_session \<Rightarrow> submit_turn_input \<Rightarrow> (string \<times> string \<times> string option) storeop" where
  "commit_user_turn P D session input =
     bindS (guardS Forbidden (sess_role session \<in> {Host, Guest})) (\<lambda>_.
     bindS (liftE (map_err Invalid (validate_prompt (st_text input)))) (\<lambda>text.
     bindS (liftE (map_err Invalid (traverse_opt
       (\<lambda>k. validate_non_empty k MAX_IDEMPOTENCY_KEY_CHARS ''idempotencyKey'') (st_idempotency_key input)))) (\<lambda>key.
     bindS (with_seal (\<lambda>seal. with_connection (append_user_turn_tx P D seal session text key))) (\<lambda>ids.
     retS (text, ids)))))"

definition append_user_turn ::
  "platform \<Rightarrow> draws \<Rightarrow> room_session \<Rightarrow> submit_turn_input \<Rightarrow> accepted_run storeop" where
  "append_user_turn P D session input =
     bindS (commit_user_turn P D session input) (\<lambda>(text, ids).
     append_user_turn_reply P (sess_room_id session) text ids)"

section \<open>Runs\<close>

definition append_delta_db ::
  "platform \<Rightarrow> draws \<Rightarrow> store_seal \<Rightarrow> string \<Rightarrow> string \<Rightarrow> string \<Rightarrow> unit dbop" where
  "append_delta_db P D seal room_id run_id delta =
     bindS (query (\<lambda>d. find (\<lambda>u. u_id u = run_id \<and> u_room_id u = room_id \<and> u_status u = ''running'')
       (t_runs d))) (\<lambda>u.
     bindS (liftE (ok_or NotFound u)) (\<lambda>u.
     bindS (liftE (sealing_open P seal (u_partial_text u) (ctx ''room_runs'' ''partial_text'' run_id))) (\<lambda>current.
     let combined = current @ delta in
     bindS (guardS (Invalid ''assistant output is too long'') (length (chars combined) \<le> MAX_MESSAGE_CHARS)) (\<lambda>_.
     bindS (liftE (sealing_seal P seal combined (ctx ''room_runs'' ''partial_text'' run_id) (nonce D 0))) (\<lambda>cell.
     bindS (update_runs (\<lambda>u. u_id u = run_id \<and> u_room_id u = room_id \<and> u_status u = ''running'')
       (\<lambda>u. u\<lparr>u_partial_text := cell\<rparr>)) (\<lambda>_.
     bindS (update_rooms (\<lambda>r. r_id r = room_id) (\<lambda>r. r\<lparr>r_updated_at := now_text P D 0\<rparr>)) (\<lambda>_.
     retS ())))))))"

definition append_delta :: "platform \<Rightarrow> draws \<Rightarrow> string \<Rightarrow> string \<Rightarrow> string \<Rightarrow> unit storeop" where
  "append_delta P D room_id run_id delta =
     bindS (liftE (map_err Invalid (validate_delta delta))) (\<lambda>delta.
     with_seal (\<lambda>seal. with_connection (append_delta_db P D seal room_id run_id delta)))"

text \<open>\<open>DELETE .. WHERE id NOT IN (SELECT id .. ORDER BY created_at DESC, id DESC LIMIT n)\<close>\<close>

definition trim_runs :: "string \<Rightarrow> unit dbop" where
  "trim_runs room_id =
     bindS (query (\<lambda>d. map u_id (take MAX_RETAINED_RUNS
       (newest_first run_order (filter (\<lambda>u. u_room_id u = room_id) (t_runs d)))))) (\<lambda>kept.
     bindS (delete_runs (\<lambda>u. u_room_id u = room_id \<and> u_id u \<notin> set kept)) (\<lambda>_. retS ()))"

definition trim_messages :: "string \<Rightarrow> unit dbop" where
  "trim_messages room_id =
     bindS (query (\<lambda>d. map m_id (take MAX_HISTORY_MESSAGES
       (newest_first message_order (filter (\<lambda>m. m_room_id m = room_id) (t_messages d)))))) (\<lambda>kept.
     bindS (delete_messages (\<lambda>m. m_room_id m = room_id \<and> m_id m \<notin> set kept)) (\<lambda>_. retS ()))"

definition add_reply :: "platform \<Rightarrow> draws \<Rightarrow> store_seal \<Rightarrow> string \<Rightarrow> string \<Rightarrow> unit dbop" where
  "add_reply P D seal room_id partial_text = (let message_id = opaque_id ''msg_'' (uuid D 0) in
     bindS (liftE (sealing_seal P seal partial_text (ctx ''room_messages'' ''text'' message_id) (nonce D 0))) (\<lambda>text.
     insert_message \<lparr>m_id = message_id, m_room_id = room_id, m_role = ''assistant'', m_text = text,
       m_participant_id = None, m_created_at = now_text P D 0\<rparr>))"

text \<open>The part of \<open>finish_run\<close> that ends an active run whose partial text opened.\<close>

definition settle_run ::
  "platform \<Rightarrow> draws \<Rightarrow> store_seal \<Rightarrow> string \<Rightarrow> string \<Rightarrow> run_terminal \<Rightarrow> string \<Rightarrow> unit dbop" where
  "settle_run P D seal room_id run_id terminal partial_text =
     bindS (if rt_status terminal = RunCompleted \<and> partial_text \<noteq> []
            then add_reply P D seal room_id partial_text else retS ()) (\<lambda>_.
     bindS (liftE (sealing_seal_opt P seal (rt_error_message terminal)
       (ctx ''room_runs'' ''error_message'' run_id) (nonce D 1))) (\<lambda>error_message.
     let status = run_status_text (rt_status terminal) in
     bindS (update_runs (\<lambda>u. u_id u = run_id \<and> u_room_id u = room_id)
       (\<lambda>u. u\<lparr>u_status := status, u_error_code := rt_error_code terminal,
         u_error_message := error_message, u_finished_at := Some (now_text P D 0)\<rparr>)) (\<lambda>_.
     let room_status = (if status = ''failed'' then ''failed'' else ''idle'') in
     bindS (update_rooms (\<lambda>r. r_id r = room_id)
       (\<lambda>r. r\<lparr>r_status := (if r_status r = ''closed'' then ''closed'' else room_status),
         r_updated_at := now_text P D 0\<rparr>)) (\<lambda>_.
     bindS (trim_runs room_id) (\<lambda>_. trim_messages room_id)))))"

definition finish_tx ::
  "platform \<Rightarrow> draws \<Rightarrow> store_seal \<Rightarrow> string \<Rightarrow> string \<Rightarrow> run_terminal \<Rightarrow> unit dbop" where
  "finish_tx P D seal room_id run_id terminal = atomically (
     bindS (query (\<lambda>d. find (\<lambda>u. u_id u = run_id \<and> u_room_id u = room_id) (t_runs d))) (\<lambda>u.
     bindS (liftE (ok_or NotFound u)) (\<lambda>u.
     if \<not> active u then retS ()
     else
       bindS (liftE (sealing_open P seal (u_partial_text u) (ctx ''room_runs'' ''partial_text'' run_id)))
         (settle_run P D seal room_id run_id terminal))))"

definition finish_run ::
  "platform \<Rightarrow> draws \<Rightarrow> string \<Rightarrow> string \<Rightarrow> run_terminal \<Rightarrow> room_snapshot storeop" where
  "finish_run P D room_id run_id terminal = valid_room room_id (\<lambda>room_id.
     bindS (with_seal (\<lambda>seal. with_connection (finish_tx P D seal room_id run_id terminal))) (\<lambda>_.
     required_snapshot P room_id))"

definition stop_db :: "platform \<Rightarrow> draws \<Rightarrow> string \<Rightarrow> string \<Rightarrow> string \<Rightarrow> unit dbop" where
  "stop_db P D room_id run_id message =
     bindS (update_runs (\<lambda>u. u_id u = run_id \<and> u_room_id u = room_id \<and> active u)
       (\<lambda>u. u\<lparr>u_status := ''canceled'', u_error_code := Some ''canceled'',
         u_error_message := Some message, u_finished_at := Some (now_text P D 0)\<rparr>)) (\<lambda>changed.
     bindS (guardS NotFound (changed \<noteq> 0)) (\<lambda>_.
     bindS (update_rooms (\<lambda>r. r_id r = room_id)
       (\<lambda>r. r\<lparr>r_status := (if r_status r = ''closed'' then ''closed'' else ''idle''),
         r_updated_at := now_text P D 1\<rparr>)) (\<lambda>_.
     retS ())))"

definition stop_run :: "platform \<Rightarrow> draws \<Rightarrow> string \<Rightarrow> string \<Rightarrow> unit storeop" where
  "stop_run P D room_id run_id = valid_room room_id (\<lambda>room_id. with_seal (\<lambda>seal.
     bindS (liftE (sealing_seal P seal ''generation stopped''
       (ctx ''room_runs'' ''error_message'' run_id) (nonce D 0))) (\<lambda>message.
     with_connection (stop_db P D room_id run_id message))))"

text \<open>The recovery loop: the \<open>i\<close>-th run's message is sealed with the \<open>i\<close>-th nonce.\<close>

fun recover_each ::
  "platform \<Rightarrow> draws \<Rightarrow> store_seal \<Rightarrow> bool \<Rightarrow> string \<Rightarrow> nat \<Rightarrow> nat \<Rightarrow> string list \<Rightarrow> nat dbop" where
  "recover_each P D seal writable now i changed [] = retS changed"
| "recover_each P D seal writable now i changed (run_id # ids) =
     bindS (liftE (if writable
       then bindE (sealing_seal P seal ''generation interrupted by node restart''
         (ctx ''room_runs'' ''error_message'' run_id) (nonce D i)) (\<lambda>m. Inr (Some m))
       else Inr None)) (\<lambda>message.
     bindS (update_runs (\<lambda>u. u_id u = run_id \<and> active u)
       (\<lambda>u. u\<lparr>u_status := ''failed'', u_error_code := Some ''nodeRestarted'',
         u_error_message := message, u_finished_at := Some now\<rparr>)) (\<lambda>n.
     recover_each P D seal writable now (Suc i) (changed + n) ids))"

definition recover_db :: "platform \<Rightarrow> draws \<Rightarrow> store_seal \<Rightarrow> nat dbop" where
  "recover_db P D seal = (let now = now_text P D 0 in
     bindS (query (\<lambda>d. map u_id (filter active (t_runs d)))) (\<lambda>ids.
     let writable = (case ensure_writable seal of Inr _ \<Rightarrow> True | Inl _ \<Rightarrow> False) in
     bindS (recover_each P D seal writable now 0 0 ids) (\<lambda>changed.
     bindS (update_rooms (\<lambda>r. r_status r = ''running'')
       (\<lambda>r. r\<lparr>r_status := ''failed'', r_updated_at := now\<rparr>)) (\<lambda>_.
     retS changed))))"

definition recover_running :: "platform \<Rightarrow> draws \<Rightarrow> nat storeop" where
  "recover_running P D = with_seal (\<lambda>seal. with_connection (recover_db P D seal))"

lemmas [eval_simps] = with_connection_def with_transaction_def with_seal_def opaque_secret_def
  now_text_def text_in_def future_timestamp_def active_def active_text_def live_participants_def
  left_join_sessions_def live_session_def join_participants_def raw_secret_ok_def is_guest_of_def

end
