(* ===== verification/Room_Inv.thy ===== *)
theory Room_Inv
  imports Room_Ops
begin

text \<open>
  The invariant of rooms.db and that every database operation of the store keeps it: keys are
  distinct, references resolve, enum columns parse, a room has at most one active run and is
  \<open>running\<close> exactly while it has one (or is closed), every room has one host and one invite row, a
  closed room has no unrevoked invite or session, and an idempotency key names one run of a room.
  \<open>*_effect\<close> lemmas state what a committed operation did to the tables.
\<close>

section \<open>The invariant\<close>

definition inv_keys :: "db \<Rightarrow> bool" where
  "inv_keys d \<longleftrightarrow> distinct (map r_id (t_rooms d)) \<and> distinct (map m_id (t_messages d))
     \<and> distinct (map u_id (t_runs d)) \<and> distinct (map i_room_id (t_invites d))
     \<and> distinct (map p_id (t_participants d)) \<and> distinct (map s_digest (t_sessions d))"

text \<open>A session belongs to a guest of its room.\<close>

definition owned :: "participant_row list \<Rightarrow> session_row \<Rightarrow> bool" where
  "owned ps s \<longleftrightarrow> (\<exists>p\<in>set ps. p_id p = s_participant_id s \<and> p_room_id p = s_room_id s \<and> p_role p = ''guest'')"

definition inv_refs :: "db \<Rightarrow> bool" where
  "inv_refs d \<longleftrightarrow> (\<forall>m\<in>set (t_messages d). room_exists d (m_room_id m))
     \<and> (\<forall>u\<in>set (t_runs d). room_exists d (u_room_id u))
     \<and> (\<forall>i\<in>set (t_invites d). room_exists d (i_room_id i))
     \<and> (\<forall>p\<in>set (t_participants d). room_exists d (p_room_id p))
     \<and> (\<forall>s\<in>set (t_sessions d). owned (t_participants d) s)"

definition inv_enums :: "db \<Rightarrow> bool" where
  "inv_enums d \<longleftrightarrow> (\<forall>r\<in>set (t_rooms d). parse_room_status (r_status r) \<noteq> None)
     \<and> (\<forall>m\<in>set (t_messages d). parse_message_role (m_role m) \<noteq> None)
     \<and> (\<forall>u\<in>set (t_runs d). parse_run_status (u_status u) \<noteq> None)
     \<and> (\<forall>p\<in>set (t_participants d). p_role p = ''host'' \<or> p_role p = ''guest'')
     \<and> (\<forall>s\<in>set (t_sessions d). s_role s = ''guest'')"

definition active_runs :: "db \<Rightarrow> string \<Rightarrow> nat" where
  "active_runs d room_id = cnt (\<lambda>u. u_room_id u = room_id \<and> active u) (t_runs d)"

definition inv_runs :: "db \<Rightarrow> bool" where
  "inv_runs d \<longleftrightarrow> (\<forall>r\<in>set (t_rooms d). active_runs d (r_id r) \<le> 1
     \<and> (r_status r = ''running'' \<longrightarrow> active_runs d (r_id r) = 1)
     \<and> (r_status r \<notin> {''running'', ''closed''} \<longrightarrow> active_runs d (r_id r) = 0))"

definition inv_hosts :: "db \<Rightarrow> bool" where
  "inv_hosts d \<longleftrightarrow> (\<forall>r\<in>set (t_rooms d).
     cnt (\<lambda>p. p_room_id p = r_id r \<and> p_role p = ''host'') (t_participants d) = 1
     \<and> r_id r \<in> set (map i_room_id (t_invites d)))"

definition inv_closed :: "db \<Rightarrow> bool" where
  "inv_closed d \<longleftrightarrow> (\<forall>r\<in>set (t_rooms d). r_status r = ''closed'' \<longrightarrow>
     (\<forall>i\<in>set (t_invites d). i_room_id i = r_id r \<longrightarrow> i_revoked_at i \<noteq> None)
     \<and> (\<forall>s\<in>set (t_sessions d). s_room_id s = r_id r \<longrightarrow> s_revoked_at s \<noteq> None)
     \<and> (\<forall>p\<in>set (t_participants d). p_room_id p = r_id r \<longrightarrow> \<not> p_online p))"

definition inv_retry :: "db \<Rightarrow> bool" where
  "inv_retry d \<longleftrightarrow> distinct (map (\<lambda>u. (u_room_id u, u_idempotency_key u))
     (filter (\<lambda>u. u_idempotency_key u \<noteq> None) (t_runs d)))"

definition db_base :: "db \<Rightarrow> bool" where
  "db_base d \<longleftrightarrow> inv_keys d \<and> inv_refs d \<and> inv_enums d \<and> inv_hosts d \<and> inv_closed d \<and> inv_retry d"

definition db_inv :: "db \<Rightarrow> bool" where
  "db_inv d \<longleftrightarrow> inv_keys d \<and> inv_refs d \<and> inv_enums d \<and> inv_runs d \<and> inv_hosts d \<and> inv_closed d
     \<and> inv_retry d"

lemma db_inv_base: "db_inv d \<longleftrightarrow> db_base d \<and> inv_runs d"
  by (auto simp: db_inv_def db_base_def)

lemmas inv_defs = inv_keys_def inv_refs_def inv_enums_def inv_runs_def inv_hosts_def inv_closed_def
  inv_retry_def

section \<open>Effects of the statements of one method\<close>

lemma owned_simps [simp]:
  "owned ps (s\<lparr>s_revoked_at := x\<rparr>) = owned ps s"
  "owned (ps @ qs) s \<longleftrightarrow> owned ps s \<or> owned qs s"
  "owned [p] s \<longleftrightarrow> p_id p = s_participant_id s \<and> p_room_id p = s_room_id s \<and> p_role p = ''guest''"
  by (auto simp: owned_def)

lemma owned_upd:
  "(\<And>p. p_id (f p) = p_id p \<and> p_room_id (f p) = p_room_id p \<and> p_role (f p) = p_role p) \<Longrightarrow>
   owned (upd T f ps) s = owned ps s"
  by (induction ps) (auto simp: owned_def upd_def)

lemma owned_del:
  "owned ps s \<Longrightarrow> s_participant_id s \<notin> set (map p_id (filter T ps)) \<Longrightarrow> owned (del T ps) s"
proof -
  assume "owned ps s" and gone: "s_participant_id s \<notin> set (map p_id (filter T ps))"
  then obtain p where p: "p \<in> set ps" "p_id p = s_participant_id s" "p_room_id p = s_room_id s" "p_role p = ''guest''"
    unfolding owned_def by blast
  have "\<not> T p"
  proof
    assume "T p"
    then have "p_id p \<in> set (map p_id (filter T ps))" using p(1) by simp
    then show False using gone p(2) by simp
  qed
  with p show ?thesis unfolding owned_def set_del by blast
qed

lemma create_inv:
  assumes "db_inv d" "r_id r \<notin> set (map r_id (t_rooms d))"
    "i_room_id i = r_id r" "p_room_id p = r_id r" "p_id p \<notin> set (map p_id (t_participants d))"
    "p_role p = ''host''" "r_status r = ''idle''"
  shows "db_inv (d\<lparr>t_rooms := t_rooms d @ [r], t_invites := t_invites d @ [i],
     t_participants := t_participants d @ [p]\<rparr>)"
proof -
  have "\<forall>x\<in>set (t_participants d). p_room_id x \<noteq> r_id r" "\<forall>x\<in>set (t_runs d). u_room_id x \<noteq> r_id r"
    "\<forall>x\<in>set (t_invites d). i_room_id x \<noteq> r_id r"
    using assms(1,2) unfolding db_inv_def inv_refs_def room_exists_def by metis+
  moreover have "\<forall>x\<in>set (t_rooms d). r_id x \<noteq> r_id r"
    using assms(2) by (metis image_eqI set_map)
  moreover have "cnt (\<lambda>u. u_room_id u = r_id r \<and> active u) (t_runs d) = 0"
    using calculation by (auto simp: cnt_0_iff)
  ultimately show ?thesis using assms
    apply (simp add: db_inv_def)
    apply (intro conjI)
    subgoal by (auto simp: inv_keys_def)
    subgoal by (auto simp: inv_refs_def room_exists_def)
    subgoal by (auto simp: inv_enums_def)
    subgoal by (simp add: inv_runs_def active_runs_def)
    subgoal by (auto simp: inv_hosts_def cnt_0_iff)
    subgoal by (auto simp: inv_closed_def inv_refs_def)
    subgoal by (auto simp: inv_retry_def)
    done
qed

lemma guest_inv:
  assumes "db_inv d" "r \<in> set (t_rooms d)" "r_status r \<noteq> ''closed''" "p_room_id p = r_id r" "s_room_id s = r_id r"
    "s_participant_id s = p_id p" "p_role p = ''guest''" "s_role s = ''guest''"
    "p_id p \<notin> set (map p_id (t_participants d))" "s_digest s \<notin> set (map s_digest (t_sessions d))"
  shows "db_inv (d\<lparr>t_participants := t_participants d @ [p], t_sessions := t_sessions d @ [s]\<rparr>)"
proof -
  have "r' = r" if "r' \<in> set (t_rooms d)" "r_id r' = r_id r" for r'
    using assms(1,2) that by (auto simp: db_inv_def inv_keys_def distinct_map inj_on_def)
  then show ?thesis using assms
    apply (simp add: db_inv_def)
    apply (intro conjI)
    subgoal by (auto simp: inv_keys_def)
    subgoal by (auto simp: inv_refs_def room_exists_def)
    subgoal by (auto simp: inv_enums_def)
    subgoal by (auto simp: inv_runs_def active_runs_def)
    subgoal by (auto simp: inv_hosts_def)
    subgoal by (fastforce simp: inv_closed_def inv_refs_def)
    subgoal by (auto simp: inv_retry_def)
    done
qed


lemma unique_room: "db_inv d \<Longrightarrow> r \<in> set (t_rooms d) \<Longrightarrow> r' \<in> set (t_rooms d) \<Longrightarrow> r_id r' = r_id r \<Longrightarrow> r' = r"
  by (auto simp: db_inv_def inv_keys_def distinct_map inj_on_def)

text \<open>Rotating or revoking an invite: its row, every session revoked, the guests and their sessions gone.\<close>

lemma cut_inv:
  assumes "db_inv d" "\<And>i. i_room_id (f i) = i_room_id i"
    "\<And>i. i \<in> set (t_invites d) \<Longrightarrow> i_room_id i = room_id \<Longrightarrow> i_revoked_at (f i) = None \<Longrightarrow>
       \<forall>r\<in>set (t_rooms d). r_id r = room_id \<longrightarrow> r_status r \<noteq> ''closed''"
    "\<And>i. Q i \<Longrightarrow> i_room_id i = room_id"
  shows "db_inv (d\<lparr>t_invites := upd Q f (t_invites d),
     t_participants := del (is_guest_of room_id) (t_participants d),
     t_sessions := del (\<lambda>s. s_participant_id s \<in> set (map p_id (filter (is_guest_of room_id) (t_participants d))))
       (upd (\<lambda>s. s_room_id s = room_id \<and> s_revoked_at s = None) (\<lambda>s. s\<lparr>s_revoked_at := Some now\<rparr>) (t_sessions d))\<rparr>)"
    (is "db_inv ?d")
proof -
  have host: "cnt (\<lambda>p. p_room_id p = i \<and> p_role p = ''host'') (del (is_guest_of room_id) ps)
     = cnt (\<lambda>p. p_room_id p = i \<and> p_role p = ''host'') ps" for i ps
    by (intro cnt_del_same) (auto simp: is_guest_of_def)
  have inv_ids: "map i_room_id (upd Q f (t_invites d)) = map i_room_id (t_invites d)"
    using assms(2) by (intro map_upd) auto
  have dig: "map s_digest (upd S (\<lambda>s. s\<lparr>s_revoked_at := Some now\<rparr>) xs) = map s_digest xs" for S xs
    by (intro map_upd) auto
  have "inv_keys ?d" using assms(1) by (auto simp: db_inv_def inv_keys_def inv_ids dig intro!: distinct_map_del)
  moreover have "\<forall>s\<in>set (t_sessions ?d). owned (t_participants ?d) s"
  proof
    fix s
    assume s: "s \<in> set (t_sessions ?d)"
    then have "owned (t_participants d) s"
      using assms(1) by (auto simp: db_inv_def inv_refs_def set_del set_upd)
    with s show "owned (t_participants ?d) s" by (auto simp: set_del intro!: owned_del)
  qed
  then have "inv_refs ?d" using assms(1,2) by (simp add: db_inv_def inv_refs_def room_exists_def set_del ball_upd)
  moreover have "inv_enums ?d" using assms(1) by (auto simp: db_inv_def inv_enums_def set_del set_upd)
  moreover have "inv_runs ?d" using assms(1) by (auto simp: db_inv_def inv_runs_def active_runs_def)
  moreover have "inv_hosts ?d" using assms(1) unfolding db_inv_def inv_hosts_def by (simp add: host inv_ids)
  moreover have "inv_closed ?d" using assms unfolding db_inv_def inv_closed_def
    apply (intro conjI ballI impI)
    subgoal by (fastforce simp: set_upd)
    subgoal by (fastforce simp: set_upd set_del)
    subgoal by (fastforce simp: set_upd set_del)
    done
  moreover have "inv_retry ?d" using assms(1) by (auto simp: db_inv_def inv_retry_def)
  ultimately show ?thesis by (simp add: db_inv_def)
qed


lemma message_add_inv:
  assumes "db_inv d" "m_id m \<notin> set (map m_id (t_messages d))" "room_exists d (m_room_id m)"
    "parse_message_role (m_role m) \<noteq> None"
  shows "db_inv (d\<lparr>t_messages := t_messages d @ [m]\<rparr>)"
  using assms by (auto simp: db_inv_def inv_defs room_exists_def active_runs_def)

lemma message_del_inv: "db_inv d \<Longrightarrow> db_inv (d\<lparr>t_messages := del Q (t_messages d)\<rparr>)"
  by (simp add: db_inv_def inv_defs room_exists_def active_runs_def set_del distinct_map_del)

lemma run_del_inv:
  assumes "db_inv d" "\<And>u. u \<in> set (t_runs d) \<Longrightarrow> Q u \<Longrightarrow> \<not> active u"
  shows "db_inv (d\<lparr>t_runs := del Q (t_runs d)\<rparr>)"
proof -
  have "active_runs (d\<lparr>t_runs := del Q (t_runs d)\<rparr>) i = active_runs d i" for i
    unfolding active_runs_def using assms(2) by (auto intro: cnt_del_same)
  moreover have "inv_retry (d\<lparr>t_runs := del Q (t_runs d)\<rparr>)"
    using assms(1) distinct_map_filter_del by (auto simp: db_inv_def inv_retry_def)
  ultimately show ?thesis using assms(1)
    by (simp add: db_inv_def inv_keys_def inv_refs_def inv_enums_def inv_runs_def inv_hosts_def inv_closed_def
      room_exists_def set_del distinct_map_del)
qed

lemma filter_upd_key:
  "(\<And>u. u_idempotency_key (f u) = u_idempotency_key u \<and> u_room_id (f u) = u_room_id u) \<Longrightarrow>
   map (\<lambda>u. (u_room_id u, u_idempotency_key u)) (filter (\<lambda>u. u_idempotency_key u \<noteq> None) (upd Q f us))
     = map (\<lambda>u. (u_room_id u, u_idempotency_key u)) (filter (\<lambda>u. u_idempotency_key u \<noteq> None) us)"
  by (induction us) (auto simp: upd_def)

text \<open>Any update of run cells and room status, given what it does to the active runs.\<close>

definition run_frame :: "(run_row \<Rightarrow> run_row) \<Rightarrow> bool" where
  "run_frame f \<longleftrightarrow> (\<forall>u. u_id (f u) = u_id u \<and> u_room_id (f u) = u_room_id u
     \<and> u_idempotency_key (f u) = u_idempotency_key u)"

lemma runs_upd_base:
  assumes "db_base d" "run_frame f" "\<And>r. r_id (g r) = r_id r"
    and "\<And>u. u \<in> set (t_runs d) \<Longrightarrow> Q u \<Longrightarrow> parse_run_status (u_status (f u)) \<noteq> None"
    and "\<And>r. r \<in> set (t_rooms d) \<Longrightarrow> R r \<Longrightarrow> parse_room_status (r_status (g r)) \<noteq> None"
    and "\<And>r. r \<in> set (t_rooms d) \<Longrightarrow> R r \<Longrightarrow> r_status (g r) = ''closed'' \<Longrightarrow> r_status r = ''closed''"
  shows "db_base (d\<lparr>t_runs := upd Q f (t_runs d), t_rooms := upd R g (t_rooms d)\<rparr>)" (is "db_base ?d")
proof -
  have ids: "map r_id (upd R g (t_rooms d)) = map r_id (t_rooms d)"
    using assms(3) by (intro map_upd) auto
  have uids: "map u_id (upd Q f (t_runs d)) = map u_id (t_runs d)"
    using assms(2) by (intro map_upd) (auto simp: run_frame_def)
  have "inv_keys ?d" using assms(1) by (simp add: db_base_def inv_keys_def ids uids)
  moreover have "inv_refs ?d"
    using assms(1,2) by (simp add: db_base_def inv_refs_def room_exists_def ids ball_upd run_frame_def flip: set_map)
  moreover have "inv_enums ?d" using assms(1,4,5) by (auto simp: db_base_def inv_enums_def ball_upd)
  moreover have "inv_hosts ?d" using assms(1,3) by (simp add: db_base_def inv_hosts_def ball_upd)
  moreover have "inv_closed ?d" using assms(1,3,6) unfolding db_base_def inv_closed_def by (simp add: ball_upd)
  moreover have "inv_retry ?d" using assms(1,2) filter_upd_key [of f Q "t_runs d"]
    by (simp add: db_base_def inv_retry_def run_frame_def)
  ultimately show ?thesis by (simp add: db_base_def)
qed

text \<open>A run of a room leaves the active states: the room has no active run any more.\<close>

lemma settled_count:
  assumes "db_inv d" "u \<in> set (t_runs d)" "active u" "u_room_id u = i" "Q u" "run_frame f"
    and "\<And>v. Q v \<Longrightarrow> u_room_id v = i" and "\<And>v. Q v \<Longrightarrow> \<not> active (f v)"
  shows "cnt (\<lambda>v. u_room_id v = j \<and> active v) (upd Q f (t_runs d)) = (if j = i then 0 else active_runs d j)"
proof (cases "j = i")
  case True
  have "active_runs d i \<le> 1"
    using assms(1,2,4) by (auto simp: db_inv_def inv_runs_def inv_refs_def room_exists_def)
  then have "v = u" if "v \<in> set (t_runs d)" "u_room_id v = i" "active v" for v
    using that assms(2-4) unfolding active_runs_def by (blast intro: cnt_le_1_unique)
  then have "\<forall>v\<in>set (upd Q f (t_runs d)). \<not> (u_room_id v = i \<and> active v)"
    using assms(5,8) by (auto simp: ball_upd)
  then show ?thesis using True by (simp add: cnt_0_iff)
next
  case False
  then have "cnt (\<lambda>v. u_room_id v = j \<and> active v) (upd Q f (t_runs d)) = active_runs d j"
    unfolding active_runs_def using assms(6,7) by (intro cnt_upd_same) (auto simp: run_frame_def)
  with False show ?thesis by simp
qed

lemma settle_inv:
  assumes inv: "db_inv d" and u: "u \<in> set (t_runs d)" "active u" "u_room_id u = i" "Q u" and f: "run_frame f"
    and q: "\<And>v. Q v \<Longrightarrow> u_room_id v = i" "\<And>v. Q v \<Longrightarrow> \<not> active (f v)"
    and st: "\<And>v. Q v \<Longrightarrow> parse_run_status (u_status (f v)) \<noteq> None" and room: "st = ''idle'' \<or> st = ''failed''"
  shows "db_inv (d\<lparr>t_runs := upd Q f (t_runs d), t_rooms := upd (\<lambda>r. r_id r = i)
     (\<lambda>r. r\<lparr>r_status := (if r_status r = ''closed'' then ''closed'' else st), r_updated_at := now\<rparr>) (t_rooms d)\<rparr>)"
    (is "db_inv ?d")
proof -
  have "db_base ?d" using inv f st room unfolding db_inv_base
    by (intro runs_upd_base) (auto split: if_splits)
  moreover have "inv_runs ?d"
    using inv room settled_count [where Q = Q, OF inv u f q] by (auto simp: db_inv_def inv_runs_def active_runs_def ball_upd)
  ultimately show ?thesis by (simp add: db_inv_base)
qed

lemma close_inv:
  assumes "db_inv d"
  shows "db_inv (d\<lparr>t_rooms := upd (\<lambda>r. r_id r = i \<and> r_status r \<noteq> ''closed'') (\<lambda>r. r\<lparr>r_status := ''closed'', r_updated_at := n1\<rparr>) (t_rooms d),
     t_invites := upd (\<lambda>v. i_room_id v = i \<and> i_revoked_at v = None) (\<lambda>v. v\<lparr>i_revoked_at := Some n2\<rparr>) (t_invites d),
     t_sessions := upd (\<lambda>s. s_room_id s = i \<and> s_revoked_at s = None) (\<lambda>s. s\<lparr>s_revoked_at := Some n3\<rparr>) (t_sessions d),
     t_participants := upd (\<lambda>p. p_room_id p = i) (\<lambda>p. p\<lparr>p_online := False\<rparr>) (t_participants d)\<rparr>)" (is "db_inv ?d")
proof -
  have m: "map r_id (upd R (\<lambda>r. r\<lparr>r_status := ''closed'', r_updated_at := n1\<rparr>) rs) = map r_id rs"
    "map i_room_id (upd V (\<lambda>v. v\<lparr>i_revoked_at := Some n2\<rparr>) vs) = map i_room_id vs"
    "map s_digest (upd S (\<lambda>s. s\<lparr>s_revoked_at := Some n3\<rparr>) ss) = map s_digest ss"
    "map p_id (upd T (\<lambda>p. p\<lparr>p_online := False\<rparr>) ps) = map p_id ps" for R rs V vs S ss T ps
    by (auto simp: map_upd)
  have host: "cnt (\<lambda>p. p_room_id p = j \<and> p_role p = ''host'') (upd T (\<lambda>p. p\<lparr>p_online := False\<rparr>) ps)
      = cnt (\<lambda>p. p_room_id p = j \<and> p_role p = ''host'') ps" for j T ps
    by (intro cnt_upd_same) auto
  have re: "room_exists ?d x = room_exists d x" for x
    by (simp add: room_exists_def m flip: set_map)
  have "inv_keys ?d" using assms by (simp add: db_inv_def inv_keys_def m)
  moreover have "inv_refs ?d" using assms
    by (auto simp: db_inv_def inv_refs_def re ball_upd owned_upd)
  moreover have "inv_enums ?d" using assms by (auto simp: db_inv_def inv_enums_def ball_upd)
  moreover have "inv_runs ?d" using assms by (auto simp: db_inv_def inv_runs_def active_runs_def ball_upd)
  moreover have "inv_hosts ?d" using assms by (auto simp add: db_inv_def inv_hosts_def ball_upd host m simp flip: set_map)
  moreover have "inv_closed ?d" using assms unfolding db_inv_def inv_closed_def by (simp add: ball_upd)
  moreover have "inv_retry ?d" using assms by (simp add: db_inv_def inv_retry_def)
  ultimately show ?thesis by (simp add: db_inv_def)
qed


lemma start_inv:
  assumes inv: "db_inv d" and r: "r \<in> set (t_rooms d)" "r_id r = room_id" "r_status r \<noteq> ''closed''"
    and idle: "active_runs d room_id = 0"
    and m: "m_id m \<notin> set (map m_id (t_messages d))" "m_room_id m = room_id" "m_role m = ''user''"
    and u: "u_id u \<notin> set (map u_id (t_runs d))" "u_room_id u = room_id" "u_status u = ''running''" "run_key_free u (t_runs d)"
  shows "db_inv (d\<lparr>t_messages := t_messages d @ [m], t_runs := t_runs d @ [u],
     t_rooms := upd (\<lambda>r. r_id r = room_id) (\<lambda>r. r\<lparr>r_status := ''running'', r_updated_at := now\<rparr>) (t_rooms d)\<rparr>)"
    (is "db_inv ?d")
proof -
  have ids: "map r_id (upd R (\<lambda>r. r\<lparr>r_status := ''running'', r_updated_at := now\<rparr>) rs) = map r_id rs" for R rs
    by (intro map_upd) auto
  have re: "room_exists ?d x = room_exists d x" for x
    by (simp add: room_exists_def ids flip: set_map)
  have here: "room_exists d room_id" using r by (auto simp: room_exists_def)
  have same: "r' = r" if "r' \<in> set (t_rooms d)" "r_id r' = room_id" for r'
    using unique_room [OF inv r(1) that(1)] that(2) r(2) by simp
  have runs: "active_runs ?d i = active_runs d i + (if i = room_id then 1 else 0)" for i
    using u(2,3) by (simp add: active_runs_def active_def active_text_def)
  have "inv_keys ?d" using inv m(1) u(1) by (simp add: db_inv_def inv_keys_def ids)
  moreover have "inv_refs ?d" using inv here m(2) u(2) by (auto simp: db_inv_def inv_refs_def re)
  moreover have "inv_enums ?d" using inv m(3) u(3)
    by (auto simp: db_inv_def inv_enums_def ball_upd parse_message_role_def parse_run_status_def)
  moreover have "inv_runs ?d" using inv idle by (simp add: db_inv_def inv_runs_def ball_upd runs)
  moreover have "inv_hosts ?d" using inv by (auto simp: db_inv_def inv_hosts_def ball_upd)
  moreover have "inv_closed ?d" using inv by (auto simp: db_inv_def inv_closed_def ball_upd)
  moreover have "inv_retry ?d" using inv u(4) by (auto simp: db_inv_def inv_retry_def run_key_free_def)
  ultimately show ?thesis by (simp add: db_inv_def)
qed

section \<open>Every method keeps the invariant\<close>

lemma create_tx_keeps:
  assumes "i_room_id i = r_id r" "p_room_id p = r_id r" "p_role p = ''host''" "r_status r = ''idle''"
  shows "keeps db_inv (create_room_tx r i p)"
  unfolding create_room_tx_def
proof (rule atomically_keepsI)
  fix d x e
  assume inv: "db_inv d" and ok: "bindS (insert_room r) (\<lambda>_. bindS (insert_invite i) (\<lambda>_. insert_participant p)) d = (Inr x, e)"
  then have "r_id r \<notin> set (map r_id (t_rooms d))" "p_id p \<notin> set (map p_id (t_participants d))"
    "e = d\<lparr>t_rooms := t_rooms d @ [r], t_invites := t_invites d @ [i], t_participants := t_participants d @ [p]\<rparr>"
    by (auto simp: stmt_simps insert_participant_def insert_when_def split: if_splits)
  with create_inv [OF inv] assms show "db_inv e" by simp
qed

lemma exchange_tx_keeps: "keeps db_inv (exchange_tx P D idg sdg pid name)"
  unfolding exchange_tx_def
proof (rule atomically_keepsI, goal_cases)
  case (1 d x e)
  then obtain r where r: "r \<in> set (t_rooms d)" "r_status r \<noteq> ''closed''"
    and new: "pid \<notin> set (map p_id (t_participants d))" "sdg \<notin> set (map s_digest (t_sessions d))"
    and e: "e = d\<lparr>t_participants := t_participants d @ [new_participant_row P D pid (r_id r) name ''guest''],
      t_sessions := t_sessions d @ [\<lparr>s_digest = sdg, s_room_id = r_id r, s_participant_id = pid, s_role = ''guest'',
       s_expires_at = text_in P (clock D 0) SESSION_TTL_SECS, s_revoked_at = None\<rparr>]\<rparr>"
    by (auto simp: stmt_simps Let_def new_participant_row_def split: sum.splits if_splits option.splits dest!: find_SomeD)
  show ?case unfolding e
    using 1(1) r new by (intro guest_inv [where r = r]) (auto simp: new_participant_row_def)
qed

lemma not_closed_room:
  assumes "db_inv d" "r \<in> set (t_rooms d)" "r_status r \<noteq> ''closed''"
  shows "\<forall>r'\<in>set (t_rooms d). r_id r' = r_id r \<longrightarrow> r_status r' \<noteq> ''closed''"
  using unique_room [OF assms(1,2)] assms(3) by blast

lemma issue_tx_keeps: "keeps db_inv (issue_tx P D room_id)"
  unfolding issue_tx_def
proof (rule atomically_keepsI, goal_cases)
  case (1 d x e)
  let ?f = "\<lambda>i. i\<lparr>i_digest := digest P (opaque_secret D 0), i_expires_at := text_in P (clock D 0) INVITE_TTL_SECS, i_revoked_at := None\<rparr>"
  from 1(2) obtain r where r: "r \<in> set (t_rooms d)" "r_id r = room_id" "r_status r \<noteq> ''closed''"
    and e: "e = d\<lparr>t_invites := upd (\<lambda>i. i_room_id i = room_id) ?f (t_invites d),
     t_participants := del (is_guest_of room_id) (t_participants d),
     t_sessions := del (\<lambda>s. s_participant_id s \<in> set (map p_id (filter (is_guest_of room_id) (t_participants d))))
       (upd (\<lambda>s. s_room_id s = room_id \<and> s_revoked_at s = None) (\<lambda>s. s\<lparr>s_revoked_at := Some (now_text P D 0)\<rparr>) (t_sessions d))\<rparr>"
    by (auto simp: stmt_simps revoke_sessions_def split: sum.splits if_splits option.splits dest!: find_SomeD)
  show ?case unfolding e
    using not_closed_room [OF 1(1) r(1,3)] r(2) by (intro cut_inv [OF 1(1)]) auto
qed


lemma close_db_keeps: "keeps db_inv (close_db P D room_id)"
proof (rule keepsI, goal_cases)
  case (1 d x e)
  then show ?case
    using close_inv [OF 1(1)] by (auto simp: close_db_def stmt_simps revoke_sessions_def upd_none split: if_splits)
qed

lemma revoke_db_effect:
  assumes "revoke_db P D room_id d = (r, e)"
  shows "(r = Inl NotFound \<and> e = d) \<or>
    (r = Inr () \<and> e = d\<lparr>t_invites := upd (\<lambda>i. i_room_id i = room_id \<and> i_revoked_at i = None)
        (\<lambda>i. i\<lparr>i_revoked_at := Some (now_text P D 0)\<rparr>) (t_invites d),
     t_participants := del (is_guest_of room_id) (t_participants d),
     t_sessions := del (\<lambda>s. s_participant_id s \<in> set (map p_id (filter (is_guest_of room_id) (t_participants d))))
       (upd (\<lambda>s. s_room_id s = room_id \<and> s_revoked_at s = None) (\<lambda>s. s\<lparr>s_revoked_at := Some (now_text P D 1)\<rparr>) (t_sessions d))\<rparr>)"
  using assms by (auto simp: revoke_db_def stmt_simps revoke_sessions_def upd_none split: if_splits)

lemma revoke_db_keeps: "keeps db_inv (revoke_db P D room_id)"
proof (rule keepsI, goal_cases)
  case (1 d x e)
  from revoke_db_effect [OF 1(2)] show ?case
    using 1(1) by (elim disjE conjE) (simp, simp only:, intro cut_inv, auto)
qed

lemma start_turn_effect:
  assumes "start_turn P D seal session text key d = (Inr ids, e)"
  obtains c1 c2 c3 where
    "sealing_seal P seal text (ctx ''room_messages'' ''text'' (opaque_id ''msg_'' (uuid D 0))) (nonce D 0) = Inr c1"
    "sealing_seal P seal text (ctx ''room_runs'' ''input_text'' (opaque_id ''run_'' (uuid D 1))) (nonce D 1) = Inr c2"
    "sealing_seal P seal [] (ctx ''room_runs'' ''partial_text'' (opaque_id ''run_'' (uuid D 1))) (nonce D 2) = Inr c3"
    "active_runs d (sess_room_id session) = 0"
    "opaque_id ''msg_'' (uuid D 0) \<notin> set (map m_id (t_messages d))"
    "opaque_id ''run_'' (uuid D 1) \<notin> set (map u_id (t_runs d))"
    "room_exists d (sess_room_id session)"
    "ids = (opaque_id ''run_'' (uuid D 1), Some (opaque_id ''msg_'' (uuid D 0)))"
    "\<exists>m u. e = d\<lparr>t_messages := t_messages d @ [m], t_runs := t_runs d @ [u],
       t_rooms := upd (\<lambda>r. r_id r = sess_room_id session) (\<lambda>r. r\<lparr>r_status := ''running'', r_updated_at := now_text P D 0\<rparr>) (t_rooms d)\<rparr>
     \<and> m = \<lparr>m_id = opaque_id ''msg_'' (uuid D 0), m_room_id = sess_room_id session, m_role = ''user'', m_text = c1,
       m_participant_id = Some (sess_participant_id session), m_created_at = now_text P D 0\<rparr>
     \<and> u = \<lparr>u_id = opaque_id ''run_'' (uuid D 1), u_room_id = sess_room_id session, u_request_id = opaque_id ''req_'' (uuid D 2),
       u_idempotency_key = key, u_input_text = c2, u_status = ''running'', u_partial_text = c3,
       u_error_code = None, u_error_message = None, u_started_at = Some (now_text P D 0), u_finished_at = None,
       u_created_at = now_text P D 0\<rparr> \<and> run_key_free u (t_runs d)"
  using assms
  by (simp add: start_turn_def stmt_simps Let_def active_runs_def split: sum.splits if_splits)

lemma append_user_turn_tx_keeps: "keeps db_inv (append_user_turn_tx P D seal session text key)"
  unfolding append_user_turn_tx_def Let_def
proof (rule atomically_keepsI, goal_cases)
  case (1 d x e)
  then obtain r where r: "r \<in> set (t_rooms d)" "r_id r = sess_room_id session" "r_status r \<noteq> ''closed''"
    and go: "e = d \<or> start_turn P D seal session text key d = (Inr x, e)"
    by (auto simp: stmt_simps retS_def split: sum.splits if_splits option.splits dest!: find_SomeD)
  then show ?case
    using 1(1) start_inv [OF 1(1) r] by (auto elim!: start_turn_effect)
qed


lemma append_delta_db_keeps: "keeps db_inv (append_delta_db P D seal room_id rid delta)"
proof (rule keepsI, goal_cases)
  case (1 d x e)
  have "db_inv (d\<lparr>t_runs := upd Q (\<lambda>u. u\<lparr>u_partial_text := c\<rparr>) (t_runs d),
      t_rooms := upd R (\<lambda>r. r\<lparr>r_updated_at := now\<rparr>) (t_rooms d)\<rparr>)" for Q c R now
  proof -
    have "cnt (\<lambda>u. u_room_id u = j \<and> active u) (upd Q (\<lambda>u. u\<lparr>u_partial_text := c\<rparr>) us)
       = cnt (\<lambda>u. u_room_id u = j \<and> active u) us" for j us
      by (intro cnt_upd_same) (auto simp: active_def)
    with 1(1) show ?thesis unfolding db_inv_base
      by (intro conjI runs_upd_base) (auto simp: run_frame_def db_base_def inv_enums_def inv_runs_def active_runs_def ball_upd)
  qed
  then show ?case using 1 by (auto simp: append_delta_db_def stmt_simps Let_def split: sum.splits if_splits)
qed

lemma trim_runs_run: "trim_runs i d = (Inr (), d\<lparr>t_runs := del (\<lambda>u. u_room_id u = i \<and> u_id u \<notin> set (map u_id (take MAX_RETAINED_RUNS
       (newest_first run_order (filter (\<lambda>u. u_room_id u = i) (t_runs d)))))) (t_runs d)\<rparr>)"
  by (simp add: trim_runs_def stmt_simps)

lemma trim_messages_run: "trim_messages i d = (Inr (), d\<lparr>t_messages := del (\<lambda>u. m_room_id u = i \<and> m_id u \<notin> set (map m_id (take MAX_HISTORY_MESSAGES
       (newest_first message_order (filter (\<lambda>u. m_room_id u = i) (t_messages d)))))) (t_messages d)\<rparr>)"
  by (simp add: trim_messages_def stmt_simps)

lemma stop_db_keeps: "keeps db_inv (stop_db P D room_id rid message)"
proof (rule keepsI, goal_cases)
  case (1 d x e)
  show ?case
  proof (cases "cnt (\<lambda>u. u_id u = rid \<and> u_room_id u = room_id \<and> active u) (t_runs d) = 0")
    case True
    then show ?thesis using 1 by (simp add: stop_db_def stmt_simps upd_none)
  next
    case False
    then obtain u where "u \<in> set (t_runs d)" "active u" "u_room_id u = room_id" "u_id u = rid"
      by (auto simp: cnt_0_iff)
    then show ?thesis using 1 False
      by (auto simp: stop_db_def stmt_simps intro!: settle_inv [where u = u]
        simp: run_frame_def active_def active_text_def parse_run_status_def)
  qed
qed


definition is_terminal :: "run_status \<Rightarrow> bool" where
  "is_terminal st \<longleftrightarrow> st \<in> {RunCompleted, RunFailed, RunCanceled}"

definition settled_run :: "platform \<Rightarrow> draws \<Rightarrow> run_terminal \<Rightarrow> string option \<Rightarrow> run_row \<Rightarrow> run_row" where
  "settled_run P D terminal error_message u = u\<lparr>u_status := run_status_text (rt_status terminal),
     u_error_code := rt_error_code terminal, u_error_message := error_message,
     u_finished_at := Some (now_text P D 0)\<rparr>"

definition settled_room :: "string \<Rightarrow> string \<Rightarrow> room_row \<Rightarrow> room_row" where
  "settled_room st now r = r\<lparr>r_status := (if r_status r = ''closed'' then ''closed'' else st), r_updated_at := now\<rparr>"

definition trim_room :: "string \<Rightarrow> db \<Rightarrow> db" where
  "trim_room i d = snd (trim_messages i (snd (trim_runs i d)))"

text \<open>What a committed \<open>finish_run\<close> did to the database.\<close>

definition reply_row :: "platform \<Rightarrow> draws \<Rightarrow> string \<Rightarrow> string \<Rightarrow> message_row" where
  "reply_row P D room_id cell = \<lparr>m_id = opaque_id ''msg_'' (uuid D 0), m_room_id = room_id, m_role = ''assistant'',
     m_text = cell, m_participant_id = None, m_created_at = now_text P D 0\<rparr>"

definition finished :: "platform \<Rightarrow> draws \<Rightarrow> string \<Rightarrow> string \<Rightarrow> run_terminal \<Rightarrow> string option \<Rightarrow> db \<Rightarrow> db" where
  "finished P D room_id rid terminal error_message d = trim_room room_id
     (d\<lparr>t_runs := upd (\<lambda>u. u_id u = rid \<and> u_room_id u = room_id) (settled_run P D terminal error_message) (t_runs d),
       t_rooms := upd (\<lambda>r. r_id r = room_id)
         (settled_room (if rt_status terminal = RunFailed then ''failed'' else ''idle'') (now_text P D 0)) (t_rooms d)\<rparr>)"

lemma run_status_failed [simp]: "run_status_text st = ''failed'' \<longleftrightarrow> st = RunFailed"
  by (cases st) auto

lemma settle_run_Inr:
  assumes "settle_run P D seal room_id rid terminal partial d = (Inr x, e)"
  obtains d1 msg where "(if rt_status terminal = RunCompleted \<and> partial \<noteq> []
        then add_reply P D seal room_id partial else retS ()) d = (Inr (), d1)"
    and "sealing_seal_opt P seal (rt_error_message terminal) (ctx ''room_runs'' ''error_message'' rid) (nonce D 1) = Inr msg"
    and "e = finished P D room_id rid terminal msg d1"
proof -
  obtain v d1 where "(if rt_status terminal = RunCompleted \<and> partial \<noteq> []
        then add_reply P D seal room_id partial else retS ()) d = (Inr v, d1)"
    using assms unfolding settle_run_def bindS_eq_Inr by blast
  then have d1: "(if rt_status terminal = RunCompleted \<and> partial \<noteq> []
        then add_reply P D seal room_id partial else retS ()) d = (Inr (), d1)" by simp
  with assms obtain msg where "sealing_seal_opt P seal (rt_error_message terminal)
      (ctx ''room_runs'' ''error_message'' rid) (nonce D 1) = Inr msg"
    by (auto simp: settle_run_def stmt_simps split: sum.splits)
  with assms d1 show thesis
    by (intro that) (auto simp: settle_run_def stmt_simps finished_def trim_room_def settled_run_def [abs_def]
      settled_room_def [abs_def] trim_runs_run trim_messages_run Let_def)
qed

lemma finish_tx_effect:
  assumes "finish_tx P D seal room_id rid terminal d = (Inr x, e)"
  obtains (noop) u where "u \<in> set (t_runs d)" "u_id u = rid" "u_room_id u = room_id" "\<not> active u" "e = d"
  | (ends) u partial msg d1 where "u \<in> set (t_runs d)" "u_id u = rid" "u_room_id u = room_id" "active u"
      "sealing_open P seal (u_partial_text u) (ctx ''room_runs'' ''partial_text'' rid) = Inr partial"
      "sealing_seal_opt P seal (rt_error_message terminal) (ctx ''room_runs'' ''error_message'' rid) (nonce D 1) = Inr msg"
      "(if rt_status terminal = RunCompleted \<and> partial \<noteq> []
        then add_reply P D seal room_id partial else retS ()) d = (Inr (), d1)"
      "e = finished P D room_id rid terminal msg d1"
proof -
  from assms obtain u where u: "u \<in> set (t_runs d)" "u_id u = rid" "u_room_id u = room_id"
    and go: "if active u then \<exists>partial. sealing_open P seal (u_partial_text u) (ctx ''room_runs'' ''partial_text'' rid) = Inr partial
       \<and> settle_run P D seal room_id rid terminal partial d = (Inr x, e) else e = d"
    by (auto simp: finish_tx_def atomically_Inr stmt_simps retS_def split: sum.splits if_splits dest!: find_SomeD)
  show thesis
    using go u noop ends by (cases "active u") (auto elim!: settle_run_Inr)
qed

lemma add_reply_Inr:
  assumes "add_reply P D seal room_id partial d = (Inr x, d1)"
  obtains cell where "sealing_seal P seal partial (ctx ''room_messages'' ''text'' (opaque_id ''msg_'' (uuid D 0))) (nonce D 0) = Inr cell"
    and "d1 = d\<lparr>t_messages := t_messages d @ [reply_row P D room_id cell]\<rparr>"
    and "opaque_id ''msg_'' (uuid D 0) \<notin> set (map m_id (t_messages d))" and "room_exists d room_id"
  using assms by (auto simp: add_reply_def Let_def stmt_simps insert_message_def insert_when_def reply_row_def
    split: sum.splits if_splits)

lemma trim_room_inv:
  assumes "db_inv d" "\<And>u. u \<in> set (t_runs d) \<Longrightarrow> u_room_id u = i \<Longrightarrow> \<not> active u"
  shows "db_inv (trim_room i d)"
proof -
  have "db_inv (snd (trim_messages i d'))" if "db_inv d'" for d'
    using that by (simp add: trim_messages_run message_del_inv)
  moreover have "db_inv (snd (trim_runs i d))"
    unfolding trim_runs_run snd_conv by (rule run_del_inv) (use assms in auto)
  ultimately show ?thesis by (simp add: trim_room_def)
qed

lemma finished_inv:
  assumes inv: "db_inv d" and u: "u \<in> set (t_runs d)" "active u" "u_room_id u = i" "u_id u = rid" and t: "is_terminal (rt_status terminal)"
  shows "db_inv (finished P D i rid terminal msg d)"
proof -
  let ?Q = "\<lambda>v. u_id v = rid \<and> u_room_id v = i"
  let ?f = "settled_run P D terminal msg"
  have f: "run_frame ?f" "\<And>v. \<not> active (?f v)" "\<And>v. parse_run_status (u_status (?f v)) \<noteq> None"
    using t by (auto simp: run_frame_def settled_run_def is_terminal_def active_def active_text_def)
  note count = settled_count [where Q = ?Q and j = i, OF inv u(1,2,3) _ f(1) _ f(2)]
  show ?thesis unfolding finished_def settled_room_def [abs_def]
    using count u f by (intro trim_room_inv settle_inv [OF inv u(1,2,3)]) (auto simp: cnt_0_iff)
qed

lemma finish_tx_keeps:
  assumes "is_terminal (rt_status terminal)"
  shows "keeps db_inv (finish_tx P D seal room_id rid terminal)"
proof (rule keepsI, goal_cases)
  case (1 d r e)
  show ?case
  proof (cases r)
    case (Inl x)
    with 1 show ?thesis by (auto simp: finish_tx_def dest: atomically_Inl)
  next
    case (Inr x)
    with 1(2) have "finish_tx P D seal room_id rid terminal d = (Inr x, e)" by simp
    then show ?thesis
    proof (cases rule: finish_tx_effect)
      case (noop u)
      with 1 show ?thesis by simp
    next
      case (ends u partial msg d1)
      have "db_inv d1 \<and> t_runs d1 = t_runs d"
      proof (cases "rt_status terminal = RunCompleted \<and> partial \<noteq> []")
        case True
        with ends(7) have "add_reply P D seal room_id partial d = (Inr (), d1)" by simp
        then show ?thesis
          by (rule add_reply_Inr) (use 1(1) in \<open>auto simp: reply_row_def parse_message_role_def intro!: message_add_inv\<close>)
      next
        case False
        with ends(7) 1(1) show ?thesis by simp
      qed
      with ends assms finished_inv show ?thesis by (metis (no_types))
    qed
  qed
qed


section \<open>Recovery\<close>

definition recovered_run :: "string \<Rightarrow> string option \<Rightarrow> run_row \<Rightarrow> run_row" where
  "recovered_run now message u = u\<lparr>u_status := ''failed'', u_error_code := Some ''nodeRestarted'',
     u_error_message := message, u_finished_at := Some now\<rparr>"

lemma recover_each_Cons: "recover_each P D seal w now i n (rid # ids) d =
    (case (if w then bindE (sealing_seal P seal ''generation interrupted by node restart''
         (ctx ''room_runs'' ''error_message'' rid) (nonce D i)) (\<lambda>m. Inr (Some m)) else Inr None) of
       Inl e \<Rightarrow> (Inl e, d)
     | Inr m \<Rightarrow> recover_each P D seal w now (Suc i) (n + cnt (\<lambda>u. u_id u = rid \<and> active u) (t_runs d)) ids
         (d\<lparr>t_runs := upd (\<lambda>u. u_id u = rid \<and> active u) (recovered_run now m) (t_runs d)\<rparr>))"
  by (simp add: stmt_simps recovered_run_def [abs_def] split: sum.split)

lemma recovered_run_simps [simp]:
  "u_id (recovered_run now m u) = u_id u" "u_room_id (recovered_run now m u) = u_room_id u"
  "u_status (recovered_run now m u) = ''failed''" "\<not> active (recovered_run now m u)"
  "u_partial_text (recovered_run now m u) = u_partial_text u"
  by (simp_all add: recovered_run_def active_def active_text_def)

text \<open>Recovery touches only active runs; none of the listed ones stays active.\<close>

lemma recover_each_base:
  assumes "recover_each P D seal w now i n ids d = (Inr k, e)" and "db_base d"
  shows "db_base e \<and> t_rooms e = t_rooms d \<and> t_messages e = t_messages d \<and> map u_id (t_runs e) = map u_id (t_runs d)
    \<and> (\<forall>u\<in>set (t_runs e). active u \<longrightarrow> u \<in> set (t_runs d) \<and> u_id u \<notin> set ids)
    \<and> (distinct ids \<longrightarrow> k = n + cnt (\<lambda>u. active u \<and> u_id u \<in> set ids) (t_runs d))"
  using assms
proof (induction ids arbitrary: i n d)
  case Nil
  then show ?case by (auto simp: retS_def cnt_def)
next
  case (Cons rid ids)
  let ?Q = "\<lambda>u. u_id u = rid \<and> active u"
  from Cons.prems obtain m where
    go: "recover_each P D seal w now (Suc i) (n + cnt ?Q (t_runs d)) ids (d\<lparr>t_runs := upd ?Q (recovered_run now m) (t_runs d)\<rparr>) = (Inr k, e)"
    by (auto simp: recover_each_Cons simp del: recover_each.simps split: sum.splits)
  have "db_base (d\<lparr>t_runs := upd ?Q (recovered_run now m) (t_runs d), t_rooms := upd (\<lambda>_. False) id (t_rooms d)\<rparr>)"
    using Cons.prems(2) by (intro runs_upd_base) (auto simp: run_frame_def recovered_run_def parse_run_status_def)
  moreover have "upd (\<lambda>_. False) id (t_rooms d) = t_rooms d" by (simp add: upd_def)
  ultimately have "db_base (d\<lparr>t_runs := upd ?Q (recovered_run now m) (t_runs d)\<rparr>)" by simp
  note IH = Cons.IH [OF go this]
  have "\<forall>u\<in>set (upd ?Q (recovered_run now m) (t_runs d)). active u \<longrightarrow> u \<in> set (t_runs d) \<and> u_id u \<noteq> rid"
    by (auto simp: ball_upd)
  moreover have "map u_id (upd ?Q (recovered_run now m) us) = map u_id us" for us
    by (intro map_upd) simp
  moreover have "cnt ?Q us + cnt (\<lambda>u. active u \<and> u_id u \<in> set ids) (upd ?Q (recovered_run now m) us)
      = cnt (\<lambda>u. active u \<and> u_id u \<in> set (rid # ids)) us" if "rid \<notin> set ids" for us
    using that by (induction us) (auto simp: upd_def)
  ultimately show ?case using IH by auto
qed

lemma recover_db_inv:
  assumes "recover_db P D seal d = (Inr k, e)" and "db_inv d"
  shows "db_inv e \<and> (\<forall>u\<in>set (t_runs e). \<not> active u) \<and> k = cnt active (t_runs d)
    \<and> t_messages e = t_messages d \<and> map u_id (t_runs e) = map u_id (t_runs d)"
proof -
  from assms(1) obtain w e' where
    each: "recover_each P D seal w (now_text P D 0) 0 0 (map u_id (filter active (t_runs d))) d = (Inr k, e')"
    and e: "e = e'\<lparr>t_rooms := upd (\<lambda>r. r_status r = ''running'') (\<lambda>r. r\<lparr>r_status := ''failed'', r_updated_at := now_text P D 0\<rparr>) (t_rooms e')\<rparr>"
    by (auto simp: recover_db_def Let_def stmt_simps update_rooms_def elim!: bindS_cases)
  have "distinct (map u_id (filter active (t_runs d)))"
    using assms(2) by (simp add: db_inv_def inv_keys_def distinct_map_filter)
  moreover have "db_base d" using assms(2) by (simp add: db_inv_base)
  ultimately have base: "db_base e'" and
    act: "\<forall>u\<in>set (t_runs e'). active u \<longrightarrow> u \<in> set (t_runs d) \<and> u_id u \<notin> set (map u_id (filter active (t_runs d)))"
    and rest: "t_messages e' = t_messages d" "map u_id (t_runs e') = map u_id (t_runs d)"
    and k: "k = 0 + cnt (\<lambda>u. active u \<and> u_id u \<in> set (map u_id (filter active (t_runs d)))) (t_runs d)"
    using recover_each_base [OF each] by blast+
  have count: "k = cnt active (t_runs d)"
    unfolding k add_0_left cnt_def by (intro arg_cong [where f = length] filter_cong) auto
  have none: "\<forall>u\<in>set (t_runs e'). \<not> active u" using act by auto
  have "db_base (e'\<lparr>t_runs := upd (\<lambda>_. False) id (t_runs e'), t_rooms := t_rooms e\<rparr>)"
    unfolding e using base by simp (intro runs_upd_base, auto simp: run_frame_def)
  moreover have same: "upd (\<lambda>_. False) id us = us" for us :: "run_row list" by (simp add: upd_def)
  ultimately have "db_base e" by (simp add: e same)
  moreover have "active_runs e i = 0" for i using none by (auto simp: active_runs_def cnt_0_iff e)
  then have "inv_runs e" by (auto simp: inv_runs_def e ball_upd)
  ultimately show ?thesis using none rest count by (simp add: db_inv_base e)
qed

end
