(* ===== verification/Room_Steps.thy ===== *)
theory Room_Steps
  imports Room_Inv
begin

text \<open>
  The store as a state machine: \<open>store_step\<close> is one call of a method of \<open>RoomStore\<close> (backend/src/store.rs)
  or a restart, \<open>db_step\<close> what a call does to the tables, and \<open>reachable\<close> the stores any sequence of
  calls leads to. Reading methods leave the tables alone; every other method ends in one
  database step; recovery at startup always completes; reachable stores satisfy the invariant.
\<close>

section \<open>Reading leaves the tables alone\<close>

definition reads :: "'a storeop \<Rightarrow> bool" where
  "reads m \<longleftrightarrow> (\<forall>s r t. m s = (r, t) \<longrightarrow> rs_db t = rs_db s \<and> rs_seal t = rs_seal s)"

lemma readsD: "reads m \<Longrightarrow> m s = (r, t) \<Longrightarrow> rs_db t = rs_db s \<and> rs_seal t = rs_seal s"
  by (auto simp: reads_def)

lemma reads_pure [intro, simp]: "reads (retS x)" "reads (failS e)" "reads (liftE r)" "reads skip" "reads (guardS e b)"
  "reads (Pair r)"
  by (auto simp: reads_def skip_def guardS_def)

lemma reads_bindS [intro]: "reads m \<Longrightarrow> (\<And>x. reads (k x)) \<Longrightarrow> reads (bindS m k)"
  by (auto simp: reads_def elim!: bindS_cases)

lemma reads_with_seal [intro]: "(\<And>seal. reads (f seal)) \<Longrightarrow> reads (with_seal f)"
  by (auto simp: reads_def with_seal_def)

lemma reads_eta: "(\<And>s0. reads (\<lambda>s. m s0 s)) \<Longrightarrow> reads (\<lambda>s. m s s)"
  by (auto simp: reads_def)

lemma with_connection_eq:
  "with_connection f s = (r, t) \<longleftrightarrow> (\<exists>d. f (rs_db s) = (r, d) \<and> t = s\<lparr>rs_db := d\<rparr>)"
  by (auto simp: with_connection_def split: prod.splits)

lemma reads_with_connection: "(\<And>d r e. f d = (r, e) \<Longrightarrow> e = d) \<Longrightarrow> reads (with_connection f)"
  by (auto simp: reads_def with_connection_eq)

lemma reads_open_each [intro]: "reads (open_each f xs)"
  by (induction f xs rule: open_each.induct) (auto split: sum.splits)

lemma reads_load [intro]: "reads (load_messages P i)" "reads (load_participants P i)"
  unfolding load_messages_def [abs_def] load_participants_def [abs_def]
  by (rule reads_eta, rule reads_bindS [OF reads_pure(3)], rule reads_open_each)+

lemma reads_open_run_or_blank [intro]: "reads (open_run_or_blank P run)"
  unfolding open_run_or_blank_def by (rule reads_with_seal) (auto split: sum.splits)

lemma reads_load_current_run [intro]: "reads (load_current_run P i)"
proof -
  have "reads (\<lambda>s. (case current_run_row (rs_db s0) i of None \<Rightarrow> retS None s
      | Some u \<Rightarrow> bindS (liftE (row_to_run u)) (\<lambda>run. bindS (open_run_or_blank P run) (\<lambda>opened. retS (Some opened))) s))" for s0
    by (cases "current_run_row (rs_db s0) i") (auto intro!: reads_bindS)
  then show ?thesis unfolding load_current_run_def [abs_def] by (rule reads_eta)
qed

lemma reads_snapshot [intro]: "reads (snapshot P i)"
proof -
  have "reads (snapshot_from_connection P j)" for j
    unfolding reads_def snapshot_from_connection_def
    by (auto split: option.splits elim!: bindS_cases dest!: readsD [OF reads_load(1)] readsD [OF reads_load(2)]
      readsD [OF reads_load_current_run] split: sum.splits)
  then show ?thesis by (auto simp: snapshot_def valid_room_def)
qed

lemma reads_snapshots [intro]: "reads (snapshots P ids)"
  by (induction ids) auto

lemma reads_required_snapshot [intro]: "reads (required_snapshot P i)"
  by (auto simp: required_snapshot_def)

lemma reads_query [intro]: "reads (with_connection (bindS (query f) k))"
  if "\<And>x d r e. k x d = (r, e) \<Longrightarrow> e = d"
  using that by (intro reads_with_connection) (auto simp: stmt_simps)

lemma liftE_same: "liftE m d = (r, e) \<Longrightarrow> e = d"
  by simp

lemma reads_run_by_id [intro]: "reads (run_by_id P i j)"
  by (auto simp: run_by_id_def intro!: reads_query)

lemma reads_turn_reply [intro]: "reads (append_user_turn_reply P i text ids)"
  unfolding append_user_turn_reply_def
  by (auto split: prod.splits option.splits intro!: reads_bindS)

lemma reads_others:
  "reads (list_rooms P)" "reads (host_session P i)" "reads (resolve_session P D raw)" "reads (raw_invite_for_test i)"
  unfolding list_rooms_def host_session_def resolve_session_def raw_invite_for_test_def valid_room_def Let_def
  by (auto intro!: reads_bindS reads_with_connection reads_with_seal
    simp: stmt_simps query_def split: sum.splits option.splits prod.splits if_splits)


section \<open>Steps of the store\<close>

text \<open>What any method of the store can do to the tables.\<close>

inductive db_step :: "platform \<Rightarrow> draws \<Rightarrow> store_seal \<Rightarrow> db \<Rightarrow> db \<Rightarrow> bool" for P D seal where
  created: "create_room_tx (new_room_row P D i model origin)
      \<lparr>i_room_id = i, i_digest = digest P secret, i_expires_at = text_in P (clock D 0) INVITE_TTL_SECS, i_revoked_at = None\<rparr>
      (new_participant_row P D j i name ''host'') d = (r, e) \<Longrightarrow> db_step P D seal d e"
| joined: "exchange_tx P D invite session j name d = (r, e) \<Longrightarrow> db_step P D seal d e"
| issued: "issue_tx P D i d = (r, e) \<Longrightarrow> db_step P D seal d e"
| revoked: "revoke_db P D i d = (r, e) \<Longrightarrow> db_step P D seal d e"
| closed: "close_db P D i d = (r, e) \<Longrightarrow> db_step P D seal d e"
| turned: "append_user_turn_tx P D seal session text key d = (r, e) \<Longrightarrow> db_step P D seal d e"
| extended: "append_delta_db P D seal i u delta d = (r, e) \<Longrightarrow> db_step P D seal d e"
| ended: "finish_tx P D seal i u terminal d = (r, e) \<Longrightarrow> is_terminal (rt_status terminal) \<Longrightarrow> db_step P D seal d e"
| stopped: "stop_db P D i u message d = (r, e) \<Longrightarrow> db_step P D seal d e"
| recovered: "recover_db P D seal d = (r, e) \<Longrightarrow> db_step P D seal d e"

text \<open>One call of a method of the store; \<open>reopened\<close> is a restart of the process, with any key.\<close>

inductive store_step :: "platform \<Rightarrow> draws \<Rightarrow> room_store \<Rightarrow> room_store \<Rightarrow> bool" for P D where
  step_create: "create_room P D input s = (r, t) \<Longrightarrow> store_step P D s t"
| step_list: "list_rooms P s = (r, t) \<Longrightarrow> store_step P D s t"
| step_snapshot: "snapshot P i s = (r, t) \<Longrightarrow> store_step P D s t"
| step_host: "host_session P i s = (r, t) \<Longrightarrow> store_step P D s t"
| step_exchange: "exchange_invite P D raw name s = (r, t) \<Longrightarrow> store_step P D s t"
| step_issue: "issue_invite P D i s = (r, t) \<Longrightarrow> store_step P D s t"
| step_resolve: "resolve_session P D raw s = (r, t) \<Longrightarrow> store_step P D s t"
| step_turn: "commit_user_turn P D session input s = (r, t) \<Longrightarrow> store_step P D s t"
| step_reply: "append_user_turn_reply P i text ids s = (r, t) \<Longrightarrow> store_step P D s t"
| step_delta: "append_delta P D i u delta s = (r, t) \<Longrightarrow> store_step P D s t"
| step_finish: "finish_run P D i u terminal s = (r, t) \<Longrightarrow> is_terminal (rt_status terminal) \<Longrightarrow> store_step P D s t"
| step_stop: "stop_run P D i u s = (r, t) \<Longrightarrow> store_step P D s t"
| step_close: "close_room P D i s = (r, t) \<Longrightarrow> store_step P D s t"
| step_revoke: "revoke_invite P D i s = (r, t) \<Longrightarrow> store_step P D s t"
| step_recover: "recover_running P D s = (r, t) \<Longrightarrow> store_step P D s t"
| reopened: "store_step P D s (s\<lparr>rs_seal := seal, rs_unreadable := 0\<rparr>)"

lemma with_seal_eq [simp]: "with_seal f s = f (rs_seal s) s"
  by (simp add: with_seal_def)

lemma valid_room_cases:
  assumes "valid_room i k s = (r, t)"
  obtains "r = Inl (Invalid ''roomId is invalid'')" "t = s" | j where "validate_room_id i = Inr j" "k j s = (r, t)"
proof (cases "validate_room_id i")
  case (Inl e)
  then have "e = ''roomId is invalid''" by (auto simp: validate_room_id_def Let_def split: if_splits)
  with Inl assms that(1) show thesis by (auto simp: valid_room_def stmt_simps)
next
  case (Inr j)
  with assms that(2) show thesis by (auto simp: valid_room_def stmt_simps)
qed

text \<open>Each method ends in one of its database steps, or leaves the tables alone.\<close>

definition acts :: "platform \<Rightarrow> draws \<Rightarrow> store_seal \<Rightarrow> 'a storeop \<Rightarrow> bool" where
  "acts P D seal m \<longleftrightarrow> (\<forall>s r t. rs_seal s = seal \<longrightarrow> m s = (r, t) \<longrightarrow> rs_seal t = seal
     \<and> (rs_db t = rs_db s \<or> db_step P D seal (rs_db s) (rs_db t)))"

lemma reads_acts: "reads m \<Longrightarrow> acts P D seal m"
  unfolding reads_def acts_def by metis

lemma acts_after: "reads m \<Longrightarrow> (\<And>x. acts P D seal (k x)) \<Longrightarrow> acts P D seal (bindS m k)"
  unfolding acts_def
proof (intro allI impI)
  fix s r t
  assume m: "reads m" and k: "\<And>x. \<forall>s r t. rs_seal s = seal \<longrightarrow> k x s = (r, t) \<longrightarrow> rs_seal t = seal
     \<and> (rs_db t = rs_db s \<or> db_step P D seal (rs_db s) (rs_db t))" and s: "rs_seal s = seal" and go: "bindS m k s = (r, t)"
  from go show "rs_seal t = seal \<and> (rs_db t = rs_db s \<or> db_step P D seal (rs_db s) (rs_db t))"
  proof (cases rule: bindS_cases)
    case (fail e)
    from readsD [OF m fail(1)] s show ?thesis by metis
  next
    case (go x u)
    from readsD [OF m go(1)] k [of x] s go(2) show ?thesis by metis
  qed
qed

lemma acts_before: "acts P D seal m \<Longrightarrow> (\<And>x. reads (k x)) \<Longrightarrow> acts P D seal (bindS m k)"
  unfolding acts_def
proof (intro allI impI)
  fix s r t
  assume k: "\<And>x. reads (k x)" and m: "\<forall>s r t. rs_seal s = seal \<longrightarrow> m s = (r, t) \<longrightarrow> rs_seal t = seal
     \<and> (rs_db t = rs_db s \<or> db_step P D seal (rs_db s) (rs_db t))" and s: "rs_seal s = seal" and go: "bindS m k s = (r, t)"
  from go show "rs_seal t = seal \<and> (rs_db t = rs_db s \<or> db_step P D seal (rs_db s) (rs_db t))"
  proof (cases rule: bindS_cases)
    case (fail e)
    with m s show ?thesis by blast
  next
    case (go x u)
    from readsD [OF k go(2)] m s go(1) show ?thesis by metis
  qed
qed

lemma acts_with_seal: "acts P D seal (f seal) \<Longrightarrow> acts P D seal (with_seal f)"
  unfolding acts_def with_seal_def by blast

lemma acts_with_connection:
  "(\<And>d r e. f d = (r, e) \<Longrightarrow> db_step P D seal d e) \<Longrightarrow> acts P D seal (with_connection f)"
  by (auto simp: acts_def with_connection_eq)

lemmas acts_intros = acts_after acts_with_seal acts_with_connection

lemma acts_liftE: "(\<And>x. acts P D seal (k x)) \<Longrightarrow> acts P D seal (bindS (liftE m) k)"
  by (rule acts_after [OF reads_pure(3)])

lemma acts_guardS: "(\<And>x. acts P D seal (k x)) \<Longrightarrow> acts P D seal (bindS (guardS e b) k)"
  by (rule acts_after [OF reads_pure(5)])

lemma acts_valid_room: "(\<And>j. acts P D seal (k j)) \<Longrightarrow> acts P D seal (valid_room i k)"
  unfolding valid_room_def by (rule acts_liftE)

lemma acts_last: "(\<And>d r e. f d = (r, e) \<Longrightarrow> db_step P D seal d e) \<Longrightarrow> (\<And>x. reads (k x)) \<Longrightarrow>
    acts P D seal (bindS (with_connection f) k)"
  by (rule acts_before [OF acts_with_connection])

lemma acts_create: "acts P D seal (create_room P D input)"
  unfolding create_room_def Let_def
  by (rule acts_liftE, rule acts_liftE, rule acts_with_seal, rule acts_liftE, rule acts_last,
    rule db_step.created, assumption, rule reads_bindS [OF reads_required_snapshot], rule reads_pure)

lemma acts_exchange: "acts P D seal (exchange_invite P D raw name)"
  unfolding exchange_invite_def Let_def
  by (rule acts_liftE, rule acts_guardS, rule acts_with_seal, rule acts_liftE, rule acts_last,
    rule db_step.joined, assumption, rule reads_pure)

lemma acts_issue: "acts P D seal (issue_invite P D i)"
  unfolding issue_invite_def
  by (rule acts_valid_room, rule acts_last, rule db_step.issued, assumption, rule reads_pure)

lemma acts_close: "acts P D seal (close_room P D i)"
  unfolding close_room_def by (rule acts_valid_room, rule acts_with_connection, rule db_step.closed)

lemma acts_revoke: "acts P D seal (revoke_invite P D i)"
  unfolding revoke_invite_def by (rule acts_valid_room, rule acts_with_connection, rule db_step.revoked)

lemma acts_turn: "acts P D seal (commit_user_turn P D session input)"
  unfolding commit_user_turn_def
  by (rule acts_guardS, rule acts_liftE, rule acts_liftE, rule acts_before, rule acts_with_seal,
    rule acts_with_connection, rule db_step.turned, assumption, rule reads_pure)

lemma acts_delta: "acts P D seal (append_delta P D i u delta)"
  unfolding append_delta_def
  by (rule acts_liftE, rule acts_with_seal, rule acts_with_connection, rule db_step.extended)

lemma acts_stop: "acts P D seal (stop_run P D i u)"
  unfolding stop_run_def
  by (rule acts_valid_room, rule acts_with_seal, rule acts_liftE, rule acts_with_connection, rule db_step.stopped)

lemma acts_recover: "acts P D seal (recover_running P D)"
  unfolding recover_running_def
  by (rule acts_with_seal, rule acts_with_connection, rule db_step.recovered)

lemma acts_finish: "is_terminal (rt_status terminal) \<Longrightarrow> acts P D seal (finish_run P D i u terminal)"
  unfolding finish_run_def
  by (rule acts_valid_room, rule acts_before, rule acts_with_seal, rule acts_with_connection,
    rule db_step.ended, assumption, assumption, rule reads_required_snapshot)

lemma actsD: "acts P D (rs_seal s) m \<Longrightarrow> m s = (r, t) \<Longrightarrow>
    rs_seal t = rs_seal s \<and> (rs_db t = rs_db s \<or> db_step P D (rs_seal s) (rs_db s) (rs_db t))"
  unfolding acts_def by blast

text \<open>Each step of the store is one of the database steps, or leaves the tables alone.\<close>

lemma store_step_db:
  assumes "store_step P D s t"
  shows "rs_db t = rs_db s \<or> db_step P D (rs_seal s) (rs_db s) (rs_db t)"
  using assms
  by cases (blast dest: actsD [OF acts_create] actsD [OF acts_exchange] actsD [OF acts_issue]
    actsD [OF acts_close] actsD [OF acts_revoke] actsD [OF acts_turn] actsD [OF acts_delta]
    actsD [OF acts_stop] actsD [OF acts_recover] actsD [OF acts_finish] readsD [OF reads_others(1)]
    readsD [OF reads_others(2)] readsD [OF reads_others(3)] readsD [OF reads_snapshot]
    readsD [OF reads_turn_reply] | simp)+


section \<open>Recovery always completes\<close>

lemma short_message_seals:
  assumes "aead_total P" "length v < 2 ^ 10" "ensure_writable seal = Inr ()"
  shows "\<exists>c. sealing_seal P seal v c0 n = Inr c"
proof (cases seal)
  case (Sealing c)
  have "length (as_bytes v) < 2 ^ 38 - 64" using assms(2) by simp
  then obtain ct where "aead_encrypt P (ck_key (cc_current c)) n (as_bytes v) (cipher_aad c c0) = Some ct"
    using assms(1) unfolding aead_total_def by blast
  with Sealing show ?thesis by (simp add: sealing_seal_def seal_text_with_nonce_def)
qed (use assms in \<open>auto simp: sealing_seal_def\<close>)

lemma recover_each_total:
  assumes "aead_total P" "w \<Longrightarrow> ensure_writable seal = Inr ()"
  shows "\<exists>k e. recover_each P D seal w now i n ids d = (Inr k, e)"
proof (induction ids arbitrary: i n d)
  case Nil
  then show ?case by simp
next
  case (Cons rid ids)
  have "\<exists>m. (if w then bindE (sealing_seal P seal ''generation interrupted by node restart''
         (ctx ''room_runs'' ''error_message'' rid) (nonce D i)) (\<lambda>m. Inr (Some m)) else Inr None) = Inr m"
    using short_message_seals [OF assms(1) _ assms(2), of "''generation interrupted by node restart''"
      "ctx ''room_runs'' ''error_message'' rid" "nonce D i"] by auto
  then show ?case using Cons by (auto simp del: recover_each.simps simp: recover_each_Cons)
qed

lemma recover_db_total:
  assumes "aead_total P"
  shows "\<exists>k e. recover_db P D seal d = (Inr k, e)"
proof -
  let ?w = "case ensure_writable seal of Inl _ \<Rightarrow> False | Inr _ \<Rightarrow> True"
  obtain k e where "recover_each P D seal ?w (now_text P D 0) 0 0 (map u_id (filter active (t_runs d))) d = (Inr k, e)"
    using recover_each_total [OF assms, of ?w seal D "now_text P D 0" 0 0 "map u_id (filter active (t_runs d))" d]
    by (cases "ensure_writable seal") auto
  then show ?thesis
    by (auto simp: recover_db_def Let_def stmt_simps)
qed

section \<open>The invariant of reachable stores\<close>

lemma db_step_inv:
  assumes "aead_total P" "db_step P D seal d e" "db_inv d"
  shows "db_inv e"
  using assms(2)
proof cases
  case (created i model origin secret j name r)
  then show ?thesis
    by (intro keepsD [OF create_tx_keeps assms(3)]) (auto simp: new_room_row_def new_participant_row_def)
next
  case (joined invite session j name r)
  then show ?thesis using keepsD [OF exchange_tx_keeps assms(3)] by blast
next
  case (issued i r)
  then show ?thesis using keepsD [OF issue_tx_keeps assms(3)] by blast
next
  case (revoked i r)
  then show ?thesis using keepsD [OF revoke_db_keeps assms(3)] by blast
next
  case (closed i r)
  then show ?thesis using keepsD [OF close_db_keeps assms(3)] by blast
next
  case (turned member body key r)
  then show ?thesis using keepsD [OF append_user_turn_tx_keeps assms(3)] by blast
next
  case (extended i u delta r)
  then show ?thesis using keepsD [OF append_delta_db_keeps assms(3)] by blast
next
  case (ended i u terminal r)
  then show ?thesis using keepsD [OF finish_tx_keeps assms(3)] by blast
next
  case (stopped i u message r)
  then show ?thesis using keepsD [OF stop_db_keeps assms(3)] by blast
next
  case (recovered r)
  obtain k e' where "recover_db P D seal d = (Inr k, e')"
    using recover_db_total [OF assms(1)] by blast
  with recovered recover_db_inv assms(3) show ?thesis by auto
qed

lemma initialize_inv: "db_inv initialize"
  by (simp add: initialize_def db_inv_def inv_defs)

text \<open>A store opened on an empty database, after any number of calls and restarts.\<close>

definition fresh_store :: "store_seal \<Rightarrow> room_store" where
  "fresh_store seal = \<lparr>rs_db = initialize, rs_seal = seal, rs_unreadable = 0\<rparr>"

inductive reachable :: "platform \<Rightarrow> room_store \<Rightarrow> bool" for P where
  fresh: "reachable P (fresh_store seal)"
| step: "reachable P s \<Longrightarrow> store_step P D s t \<Longrightarrow> reachable P t"

lemma store_step_inv:
  assumes "aead_total P" "store_step P D s t" "db_inv (rs_db s)"
  shows "db_inv (rs_db t)"
  using store_step_db [OF assms(2)] db_step_inv [OF assms(1) _ assms(3)] assms(3) by auto

lemma reachable_inv: "reachable P s \<Longrightarrow> aead_total P \<Longrightarrow> db_inv (rs_db s)"
  by (induction rule: reachable.induct) (auto simp: fresh_store_def initialize_inv store_step_inv)

end
