(* ===== verification/Room_Effects.thy ===== *)
theory Room_Effects
  imports Room_Steps
begin

text \<open>
  What one committed method of the store (backend/src/store.rs) does to participants, sessions and
  invites, and the capacity of rooms: the live participants of a room only grow by an exchange, an
  exchange counts them first, and time only ends sessions. \<open>clocked\<close> stores are those reached by
  calls whose clock readings never go back.
\<close>

section \<open>Liveness of participants\<close>

lemma live_iff: "i \<in> set (live_participants P t room d) \<longleftrightarrow>
   (\<exists>p\<in>set (t_participants d). p_room_id p = room \<and> p_id p = i \<and>
     (p_role p = ''host'' \<or> (\<exists>s\<in>set (t_sessions d). s_participant_id s = p_id p \<and> live_session P t (Some s))))"
  (is "?l \<longleftrightarrow> ?r")
proof -
  have row: "(q, s) \<in> set (case ms of [] \<Rightarrow> [(p, None)] | matched \<Rightarrow> map (\<lambda>s. (p, Some s)) matched) \<longleftrightarrow>
      q = p \<and> (case s of None \<Rightarrow> ms = [] | Some s \<Rightarrow> s \<in> set ms)" for q p s and ms :: "session_row list"
    by (cases ms) (auto split: option.splits)
  have join: "(p, s) \<in> set (left_join_sessions ps ss) \<longleftrightarrow> p \<in> set ps \<and>
     (case s of None \<Rightarrow> filter (\<lambda>s. s_participant_id s = p_id p) ss = []
      | Some s \<Rightarrow> s \<in> set ss \<and> s_participant_id s = p_id p)" for p s ps ss
    unfolding left_join_sessions_def by (auto simp: row split: option.splits)
  show ?thesis
  proof
    assume ?l
    then obtain p s where ps: "(p, s) \<in> set (left_join_sessions (filter (\<lambda>p. p_room_id p = room) (t_participants d)) (t_sessions d))"
      and i: "p_id p = i" and live: "p_role p = ''host'' \<or> live_session P t s"
      by (auto simp: live_participants_def)
    from ps i have p: "p \<in> set (t_participants d)" "p_room_id p = room" "p_id p = i"
      and s: "case s of None \<Rightarrow> True | Some s \<Rightarrow> s \<in> set (t_sessions d) \<and> s_participant_id s = p_id p"
      by (auto simp: join split: option.splits)
    have "p_role p = ''host'' \<or> (\<exists>s\<in>set (t_sessions d). s_participant_id s = p_id p \<and> live_session P t (Some s))"
      using s live by (cases s) (auto simp: live_session_def)
    with p show ?r by blast
  next
    assume ?r
    then obtain p where p: "p \<in> set (t_participants d)" "p_room_id p = room" "p_id p = i"
      and live: "p_role p = ''host'' \<or> (\<exists>s\<in>set (t_sessions d). s_participant_id s = p_id p \<and> live_session P t (Some s))"
      by blast
    let ?joined = "left_join_sessions (filter (\<lambda>p. p_room_id p = room) (t_participants d)) (t_sessions d)"
    have "\<exists>s. (p, s) \<in> set ?joined \<and> (p_role p = ''host'' \<or> live_session P t s)"
    proof (cases "\<exists>s\<in>set (t_sessions d). s_participant_id s = p_id p \<and> live_session P t (Some s)")
      case True
      then obtain s where s: "s \<in> set (t_sessions d)" "s_participant_id s = p_id p" "live_session P t (Some s)" by blast
      then show ?thesis using p by (intro exI [of _ "Some s"]) (simp add: join)
    next
      case False
      with live have host: "p_role p = ''host''" by blast
      show ?thesis
      proof (cases "filter (\<lambda>s. s_participant_id s = p_id p) (t_sessions d)")
        case Nil
        with host p show ?thesis by (intro exI [of _ None]) (simp add: join)
      next
        case (Cons s ss)
        then have "s \<in> set (t_sessions d) \<and> s_participant_id s = p_id p"
          by (auto dest: filter_eq_ConsD)
        with host p show ?thesis by (intro exI [of _ "Some s"]) (simp add: join)
      qed
    qed
    then show ?l using p(3) by (force simp: live_participants_def)
  qed
qed

definition live_count :: "platform \<Rightarrow> int \<Rightarrow> string \<Rightarrow> db \<Rightarrow> nat" where
  "live_count P t room d = length (live_participants P t room d)"

lemma live_count_card: "live_count P t room d = card (set (live_participants P t room d))"
  by (simp add: live_count_def live_participants_def distinct_card flip: distinct_card)

lemma live_count_mono:
  "set (live_participants P t room d) \<subseteq> set (live_participants P t' room' d') \<Longrightarrow>
   live_count P t room d \<le> live_count P t' room' d'"
  by (simp add: live_count_card card_mono)

text \<open>Time only ends sessions.\<close>

lemma live_later: "t \<le> t' \<Longrightarrow> live_count P t' room d \<le> live_count P t room d"
  by (rule live_count_mono) (fastforce simp: live_iff live_session_def future_timestamp_def split: option.splits)


lemma room_unknown: "db_inv d \<Longrightarrow> \<not> room_exists d i \<Longrightarrow> p \<in> set (t_participants d) \<Longrightarrow> p_room_id p \<noteq> i"
  by (auto simp: db_inv_def inv_refs_def)

lemma exchange_tx_effect:
  assumes "exchange_tx P D idg sdg pid name d = (r, e)"
  obtains x where "r = Inl x" "e = d"
  | i room where "r = Inr (i_room_id i)" "i \<in> set (t_invites d)" "i_digest i = idg" "i_revoked_at i = None"
    "future_timestamp P (i_expires_at i) (clock D 0)" "room \<in> set (t_rooms d)" "r_id room = i_room_id i"
    "r_status room \<noteq> ''closed''" "live_count P (clock D 0) (i_room_id i) d < MAX_PARTICIPANTS"
    "pid \<notin> set (map p_id (t_participants d))" "sdg \<notin> set (map s_digest (t_sessions d))"
    "e = d\<lparr>t_participants := t_participants d @ [new_participant_row P D pid (i_room_id i) name ''guest''],
      t_sessions := t_sessions d @ [\<lparr>s_digest = sdg, s_room_id = i_room_id i, s_participant_id = pid, s_role = ''guest'',
       s_expires_at = text_in P (clock D 0) SESSION_TTL_SECS, s_revoked_at = None\<rparr>]\<rparr>"
proof (cases r)
  case (Inl x)
  with assms that(1) show thesis by (auto simp: exchange_tx_def dest: atomically_Inl)
next
  case (Inr x)
  with assms obtain i room where "r = Inr (i_room_id i)" "i \<in> set (t_invites d)" "i_digest i = idg" "i_revoked_at i = None"
    "future_timestamp P (i_expires_at i) (clock D 0)" "room \<in> set (t_rooms d)" "r_id room = i_room_id i"
    "r_status room \<noteq> ''closed''" "live_count P (clock D 0) (i_room_id i) d < MAX_PARTICIPANTS"
    "pid \<notin> set (map p_id (t_participants d))" "sdg \<notin> set (map s_digest (t_sessions d))"
    "e = d\<lparr>t_participants := t_participants d @ [new_participant_row P D pid (i_room_id i) name ''guest''],
      t_sessions := t_sessions d @ [\<lparr>s_digest = sdg, s_room_id = i_room_id i, s_participant_id = pid, s_role = ''guest'',
       s_expires_at = text_in P (clock D 0) SESSION_TTL_SECS, s_revoked_at = None\<rparr>]\<rparr>"
    by (auto simp: exchange_tx_def atomically_Inr stmt_simps Let_def live_count_def new_participant_row_def
      split: sum.splits if_splits dest!: find_SomeD)
  with that(2) show thesis by blast
qed

lemma live_count_add_guest:
  assumes "db_inv d" "p_id p \<notin> set (map p_id (t_participants d))" "s_participant_id s = p_id p"
  shows "live_count P t room (d\<lparr>t_participants := t_participants d @ [p], t_sessions := t_sessions d @ [s]\<rparr>)
    \<le> live_count P t room d + (if p_room_id p = room then 1 else 0)" (is "live_count P t room ?d \<le> _")
proof -
  have new: "p_id q \<noteq> p_id p" if "q \<in> set (t_participants d)" for q
    using assms(2) that by (metis image_eqI set_map)
  have sub: "set (live_participants P t room ?d) \<subseteq>
      set (live_participants P t room d) \<union> (if p_room_id p = room then {p_id p} else {})"
  proof
    fix x
    assume "x \<in> set (live_participants P t room ?d)"
    then obtain q where q: "q \<in> set (t_participants d) \<or> q = p" "p_room_id q = room" "p_id q = x"
      and live: "p_role q = ''host'' \<or> (\<exists>y\<in>set (t_sessions d) \<union> {s}. s_participant_id y = p_id q \<and> live_session P t (Some y))"
      unfolding live_iff by auto
    show "x \<in> set (live_participants P t room d) \<union> (if p_room_id p = room then {p_id p} else {})"
    proof (cases "q = p")
      case True
      with q show ?thesis by simp
    next
      case False
      with q have old: "q \<in> set (t_participants d)" by blast
      have "p_role q = ''host'' \<or> (\<exists>y\<in>set (t_sessions d). s_participant_id y = p_id q \<and> live_session P t (Some y))"
        using live new [OF old] assms(3) by auto
      with old q(2,3) have "x \<in> set (live_participants P t room d)" unfolding live_iff by blast
      then show ?thesis by blast
    qed
  qed
  have "card (A \<union> (if b then {x} else {})) \<le> card A + (if b then 1 else 0)" if "finite A" for A :: "'b set" and b x
    using that by (auto simp: card_insert_if)
  with card_mono [OF _ sub] show ?thesis
    unfolding live_count_card by (smt (verit) List.finite_set dual_order.trans finite.emptyI finite.insertI finite_Un)
qed

lemma live_count_create:
  assumes "db_inv d" "r_id r \<notin> set (map r_id (t_rooms d))" "p_room_id p = r_id r"
    "p_id p \<notin> set (map p_id (t_participants d))"
  shows "live_count P t room (d\<lparr>t_rooms := t_rooms d @ [r], t_invites := t_invites d @ [i], t_participants := t_participants d @ [p]\<rparr>)
    \<le> max 1 (live_count P t room d)" (is "live_count P t room ?d \<le> _")
proof (cases "room = r_id r")
  case True
  then have "p_room_id q \<noteq> room" if "q \<in> set (t_participants d)" for q
    using assms(1,2) that by (intro room_unknown) (auto simp: room_exists_def)
  then have "set (live_participants P t room ?d) \<subseteq> {p_id p}"
    using assms(3) by (auto simp: live_iff)
  from card_mono [OF _ this] show ?thesis by (simp add: live_count_card)
next
  case False
  then have "set (live_participants P t room ?d) \<subseteq> set (live_participants P t room d)"
    using assms(3) by (auto simp: live_iff)
  then show ?thesis by (simp add: live_count_mono le_max_iff_disj)
qed


text \<open>Turns and runs leave invites, participants and sessions alone.\<close>

definition people :: "db \<Rightarrow> invite_row list \<times> participant_row list \<times> session_row list" where
  "people d = (t_invites d, t_participants d, t_sessions d)"

lemma keeps_people [intro]:
  "keeps (\<lambda>d. people d = x) (query f)" "keeps (\<lambda>d. people d = x) (guardS e b)"
  "keeps (\<lambda>d. people d = x) (insert_message m)" "keeps (\<lambda>d. people d = x) (insert_run u)"
  "keeps (\<lambda>d. people d = x) (update_rooms Q f1)" "keeps (\<lambda>d. people d = x) (update_runs R f2)"
  "keeps (\<lambda>d. people d = x) (delete_runs R)" "keeps (\<lambda>d. people d = x) (delete_messages S)"
  "keeps (\<lambda>d. people d = x) (Pair r)"
  by (auto simp: keeps_def people_def query_def guardS_def insert_defs insert_when_def update_rooms_def
    update_runs_def delete_runs_def delete_messages_def split: if_splits)

lemma keeps_people_cases [intro]:
  "(\<And>y. keeps I (f y)) \<Longrightarrow> keeps I g \<Longrightarrow> keeps I (case z of None \<Rightarrow> g | Some y \<Rightarrow> f y)"
  "keeps I m \<Longrightarrow> keeps I n \<Longrightarrow> keeps I (if b then m else n)"
  by (auto split: option.split)

lemma keeps_people_ops:
  "keeps (\<lambda>d. people d = x) (append_user_turn_tx P D seal session body key)"
  "keeps (\<lambda>d. people d = x) (append_delta_db P D seal i u delta)"
  "keeps (\<lambda>d. people d = x) (finish_tx P D seal i u terminal)"
  "keeps (\<lambda>d. people d = x) (stop_db P D i u message)"
proof -
  have start: "keeps (\<lambda>d. people d = x) (start_turn P D seal session body k)" for k
    unfolding start_turn_def Let_def by (intro keeps_bindS keeps_people keeps_pure)
  show "keeps (\<lambda>d. people d = x) (append_user_turn_tx P D seal session body key)"
    unfolding append_user_turn_tx_def Let_def
    by (intro keeps_atomically keeps_bindS keeps_people keeps_pure keeps_people_cases start)
  show "keeps (\<lambda>d. people d = x) (append_delta_db P D seal i u delta)"
    unfolding append_delta_db_def Let_def by (intro keeps_bindS keeps_people keeps_pure)
  show "keeps (\<lambda>d. people d = x) (finish_tx P D seal i u terminal)"
    unfolding finish_tx_def settle_run_def add_reply_def trim_runs_def trim_messages_def Let_def
    by (intro keeps_atomically keeps_bindS keeps_people keeps_pure keeps_people_cases)
  show "keeps (\<lambda>d. people d = x) (stop_db P D i u message)"
    unfolding stop_db_def by (intro keeps_bindS keeps_people keeps_pure)
qed

lemma keeps_people_recover: "keeps (\<lambda>d. people d = x) (recover_db P D seal)"
proof -
  have each: "keeps (\<lambda>d. people d = x) (recover_each P D seal w now i n ids)" for w now i n ids
  proof (induction ids arbitrary: i n)
    case Nil
    show ?case unfolding recover_each.simps by (rule keeps_pure)
  next
    case (Cons a ids)
    show ?case unfolding recover_each.simps by (intro keeps_bindS keeps_people keeps_pure Cons)
  qed
  show ?thesis unfolding recover_db_def Let_def by (intro keeps_bindS keeps_people keeps_pure each)
qed

lemma people_same:
  "append_user_turn_tx P D seal session body key d = (r1, e) \<Longrightarrow> people e = people d"
  "append_delta_db P D seal i u delta d = (r2, e) \<Longrightarrow> people e = people d"
  "finish_tx P D seal i u terminal d = (r3, e) \<Longrightarrow> people e = people d"
  "stop_db P D i u message d = (r4, e) \<Longrightarrow> people e = people d"
  "recover_db P D seal d = (r5, e) \<Longrightarrow> people e = people d"
  by (rule keepsD [OF keeps_people_ops(1) refl] keepsD [OF keeps_people_ops(2) refl]
    keepsD [OF keeps_people_ops(3) refl] keepsD [OF keeps_people_ops(4) refl]
    keepsD [OF keeps_people_recover refl], assumption)+

lemma people_step:
  assumes "db_step P D seal d e"
  shows "people e = people d \<or>
    (\<exists>i model origin secret j name r. create_room_tx (new_room_row P D i model origin)
      \<lparr>i_room_id = i, i_digest = digest P secret, i_expires_at = text_in P (clock D 0) INVITE_TTL_SECS, i_revoked_at = None\<rparr>
      (new_participant_row P D j i name ''host'') d = (r, e)) \<or>
    (\<exists>invite session j name r. exchange_tx P D invite session j name d = (r, e)) \<or>
    (\<exists>i r. issue_tx P D i d = (r, e)) \<or> (\<exists>i r. revoke_db P D i d = (r, e)) \<or> (\<exists>i r. close_db P D i d = (r, e))"
  using assms by cases (use people_same in \<open>metis\<close>)+

text \<open>Cutting a room's guests off: every session of the room revoked, the guests gone with theirs.\<close>

definition cut_sessions :: "string \<Rightarrow> string \<Rightarrow> session_row list \<Rightarrow> session_row list" where
  "cut_sessions room now ss = upd (\<lambda>s. s_room_id s = room \<and> s_revoked_at s = None) (\<lambda>s. s\<lparr>s_revoked_at := Some now\<rparr>) ss"

definition drop_guests :: "string \<Rightarrow> string \<Rightarrow> db \<Rightarrow> db" where
  "drop_guests room now d = d\<lparr>t_participants := del (is_guest_of room) (t_participants d),
     t_sessions := del (\<lambda>s. s_participant_id s \<in> set (map p_id (filter (is_guest_of room) (t_participants d))))
       (cut_sessions room now (t_sessions d))\<rparr>"

lemma issue_tx_effect:
  assumes "issue_tx P D room d = (r, e)"
  shows "((\<exists>x. r = Inl x) \<and> e = d) \<or>
    (\<exists>rm\<in>set (t_rooms d). r_id rm = room \<and> r_status rm \<noteq> ''closed'' \<and> r = Inr (r_share_origin rm)
      \<and> e = drop_guests room (now_text P D 0) (d\<lparr>t_invites := upd (\<lambda>i. i_room_id i = room)
       (\<lambda>i. i\<lparr>i_digest := digest P (opaque_secret D 0), i_expires_at := text_in P (clock D 0) INVITE_TTL_SECS,
          i_revoked_at := None\<rparr>) (t_invites d)\<rparr>))"
proof (cases r)
  case (Inl x)
  with assms show ?thesis by (auto simp: issue_tx_def dest: atomically_Inl)
next
  case (Inr x)
  with assms show ?thesis
    by (auto simp: issue_tx_def atomically_Inr stmt_simps revoke_sessions_def drop_guests_def cut_sessions_def
      split: sum.splits if_splits dest!: find_SomeD)
qed

lemma revoke_db_drop:
  "revoke_db P D room d = (r, e) \<Longrightarrow> (r = Inl NotFound \<and> e = d) \<or> (r = Inr ()
    \<and> e = drop_guests room (now_text P D 1) (d\<lparr>t_invites := upd (\<lambda>i. i_room_id i = room \<and> i_revoked_at i = None)
        (\<lambda>i. i\<lparr>i_revoked_at := Some (now_text P D 0)\<rparr>) (t_invites d)\<rparr>))"
  by (drule revoke_db_effect) (auto simp: drop_guests_def cut_sessions_def)

lemma close_db_effect:
  assumes "close_db P D room d = (r, e)"
  shows "(r = Inl NotFound \<and> e = d \<and> (\<forall>rm\<in>set (t_rooms d). r_id rm = room \<longrightarrow> r_status rm = ''closed'')) \<or>
    (r = Inr () \<and> e = d\<lparr>t_rooms := upd (\<lambda>r. r_id r = room \<and> r_status r \<noteq> ''closed'') (\<lambda>r. r\<lparr>r_status := ''closed'', r_updated_at := now_text P D 0\<rparr>) (t_rooms d),
     t_invites := upd (\<lambda>v. i_room_id v = room \<and> i_revoked_at v = None) (\<lambda>v. v\<lparr>i_revoked_at := Some (now_text P D 1)\<rparr>) (t_invites d),
     t_sessions := cut_sessions room (now_text P D 2) (t_sessions d),
     t_participants := upd (\<lambda>p. p_room_id p = room) (\<lambda>p. p\<lparr>p_online := False\<rparr>) (t_participants d)\<rparr>)"
proof (cases "cnt (\<lambda>r. r_id r = room \<and> r_status r \<noteq> ''closed'') (t_rooms d) = 0")
  case True
  with assms show ?thesis by (auto simp: close_db_def stmt_simps upd_none) (auto simp: cnt_0_iff)
next
  case False
  with assms show ?thesis by (simp add: close_db_def stmt_simps revoke_sessions_def cut_sessions_def)
qed

lemma unrevoked_cut: "s \<in> set (cut_sessions room now ss) \<Longrightarrow> s_revoked_at s = None \<Longrightarrow> s \<in> set ss \<and> s_room_id s \<noteq> room"
  by (auto simp: cut_sessions_def set_upd split: if_splits)
    (metis option.distinct(1) session_row.select_convs(6) session_row.surjective session_row.update_convs(6))

text \<open>Participants and sessions never come to life, but by creating a room and exchanging an invite.\<close>

definition shrinks :: "db \<Rightarrow> db \<Rightarrow> bool" where
  "shrinks d e \<longleftrightarrow> (\<forall>q\<in>set (t_participants e). \<exists>p\<in>set (t_participants d). p_id p = p_id q \<and> p_room_id p = p_room_id q \<and> p_role p = p_role q)
     \<and> (\<forall>s\<in>set (t_sessions e). s_revoked_at s = None \<longrightarrow> s \<in> set (t_sessions d))"

lemma shrinks_live: "shrinks d e \<Longrightarrow> live_count P t room e \<le> live_count P t room d"
proof (rule live_count_mono, rule subsetI)
  fix x
  assume sh: "shrinks d e" and "x \<in> set (live_participants P t room e)"
  then obtain q where q: "q \<in> set (t_participants e)" "p_room_id q = room" "p_id q = x"
    and live: "p_role q = ''host'' \<or> (\<exists>y\<in>set (t_sessions e). s_participant_id y = p_id q \<and> live_session P t (Some y))"
    unfolding live_iff by blast
  obtain q0 where q0: "q0 \<in> set (t_participants d)" "p_id q0 = p_id q" "p_room_id q0 = p_room_id q" "p_role q0 = p_role q"
    using sh q(1) unfolding shrinks_def by blast
  have "p_role q = ''host'' \<or> (\<exists>y\<in>set (t_sessions d). s_participant_id y = p_id q \<and> live_session P t (Some y))"
    using live sh by (auto simp: live_session_def shrinks_def)
  with q0 q(2,3) show "x \<in> set (live_participants P t room d)" unfolding live_iff by metis
qed

lemma shrinks_people: "people e = people d \<Longrightarrow> shrinks d e"
  by (auto simp: people_def shrinks_def)

lemma shrinks_drop: "shrinks d (drop_guests room now (d\<lparr>t_invites := x\<rparr>))"
  by (auto simp: shrinks_def drop_guests_def set_del dest: unrevoked_cut)

lemma shrinks_close: "shrinks d (d\<lparr>t_rooms := a, t_invites := b, t_sessions := cut_sessions room now (t_sessions d),
     t_participants := upd (\<lambda>p. p_room_id p = room) (\<lambda>p. p\<lparr>p_online := False\<rparr>) (t_participants d)\<rparr>)"
  by (auto simp: shrinks_def set_upd dest: unrevoked_cut)


lemma create_tx_effect:
  assumes "create_room_tx rm i p d = (r, e)"
  shows "e = d \<or> (r = Inr () \<and> r_id rm \<notin> set (map r_id (t_rooms d)) \<and> p_id p \<notin> set (map p_id (t_participants d))
    \<and> i_room_id i \<notin> set (map i_room_id (t_invites d))
    \<and> e = d\<lparr>t_rooms := t_rooms d @ [rm], t_invites := t_invites d @ [i], t_participants := t_participants d @ [p]\<rparr>)"
proof (cases r)
  case (Inl x)
  with assms show ?thesis by (auto simp: create_room_tx_def dest: atomically_Inl)
next
  case (Inr x)
  with assms show ?thesis
    by (auto simp: create_room_tx_def atomically_Inr stmt_simps insert_participant_def insert_when_def split: if_splits)
qed

lemma db_step_live:
  assumes step: "db_step P D seal d e" and inv: "db_inv d" and t: "clock D 0 \<le> t"
    and cap: "live_count P t room d \<le> MAX_PARTICIPANTS"
  shows "live_count P t room e \<le> MAX_PARTICIPANTS"
  using people_step [OF step]
proof (elim disjE exE)
  assume "people e = people d"
  with cap shrinks_live [OF shrinks_people] show ?thesis using le_trans by blast
next
  fix i r
  assume "issue_tx P D i d = (r, e)"
  with issue_tx_effect have "e = d \<or> (\<exists>x. e = drop_guests i (now_text P D 0) (d\<lparr>t_invites := x\<rparr>))" by blast
  with cap shrinks_live [OF shrinks_drop] show ?thesis using le_trans by blast
next
  fix i r
  assume "revoke_db P D i d = (r, e)"
  with revoke_db_drop have "e = d \<or> (\<exists>x. e = drop_guests i (now_text P D 1) (d\<lparr>t_invites := x\<rparr>))" by blast
  with cap shrinks_live [OF shrinks_drop] show ?thesis using le_trans by blast
next
  fix i r
  assume "close_db P D i d = (r, e)"
  with cap shrinks_live [OF shrinks_close] show ?thesis by (blast dest: close_db_effect intro: le_trans)
next
  fix i model origin secret j name r
  assume "create_room_tx (new_room_row P D i model origin)
      \<lparr>i_room_id = i, i_digest = digest P secret, i_expires_at = text_in P (clock D 0) INVITE_TTL_SECS, i_revoked_at = None\<rparr>
      (new_participant_row P D j i name ''host'') d = (r, e)"
  from create_tx_effect [OF this] show ?thesis
  proof (elim disjE conjE)
    assume e: "e = d\<lparr>t_rooms := t_rooms d @ [new_room_row P D i model origin], t_invites := t_invites d @ [\<lparr>i_room_id = i, i_digest = digest P secret,
        i_expires_at = text_in P (clock D 0) INVITE_TTL_SECS, i_revoked_at = None\<rparr>], t_participants := t_participants d @ [new_participant_row P D j i name ''host'']\<rparr>"
      and new: "r_id (new_room_row P D i model origin) \<notin> set (map r_id (t_rooms d))"
        "p_id (new_participant_row P D j i name ''host'') \<notin> set (map p_id (t_participants d))"
    have "live_count P t room e \<le> max 1 (live_count P t room d)"
      unfolding e by (rule live_count_create [OF inv new(1) _ new(2)]) (simp add: new_room_row_def new_participant_row_def)
    with cap show ?thesis by (simp add: MAX_PARTICIPANTS_def)
  qed (use cap in simp)
next
  fix invite session j name r
  assume "exchange_tx P D invite session j name d = (r, e)"
  then show ?thesis
  proof (cases rule: exchange_tx_effect)
    case (1 x)
    with cap show ?thesis by simp
  next
    case (2 i rm)
    have "live_count P t room e \<le> live_count P t room d + (if i_room_id i = room then 1 else 0)"
      unfolding 2 using live_count_add_guest [OF inv, of "new_participant_row P D j (i_room_id i) name ''guest''"
        "\<lparr>s_digest = session, s_room_id = i_room_id i, s_participant_id = j, s_role = ''guest'',
          s_expires_at = text_in P (clock D 0) SESSION_TTL_SECS, s_revoked_at = None\<rparr>" P t room] 2(10)
      by (simp add: new_participant_row_def)
    moreover have "i_room_id i = room \<Longrightarrow> live_count P t room d < MAX_PARTICIPANTS"
      using live_later [OF t, of P room d] 2(9) by simp
    ultimately show ?thesis using cap by (auto split: if_splits)
  qed
qed

text \<open>A store reached by calls whose clock readings never go back; \<open>now\<close> bounds them all.\<close>

inductive clocked :: "platform \<Rightarrow> int \<Rightarrow> room_store \<Rightarrow> bool" for P where
  clock_fresh: "clocked P now (fresh_store seal)"
| clock_step: "clocked P now s \<Longrightarrow> store_step P D s t \<Longrightarrow> (\<forall>i. now \<le> clock D i \<and> clock D i \<le> later)
    \<Longrightarrow> clocked P later t"

lemma clocked_reachable: "clocked P now s \<Longrightarrow> reachable P s"
  by (induction rule: clocked.induct) (auto intro: reachable.intros)

lemma clocked_capacity:
  "clocked P now s \<Longrightarrow> aead_total P \<Longrightarrow> now \<le> t \<Longrightarrow> live_count P t room (rs_db s) \<le> MAX_PARTICIPANTS"
proof (induction arbitrary: t rule: clocked.induct)
  case (clock_fresh now seal)
  then show ?case by (simp add: fresh_store_def initialize_def live_count_def live_participants_def left_join_sessions_def)
next
  case (clock_step now s D s' later)
  have inv: "db_inv (rs_db s)" using clock_step by (blast intro: reachable_inv clocked_reachable)
  have le: "now \<le> t" "clock D 0 \<le> t" using clock_step by (meson order_trans)+
  from store_step_db [OF clock_step(2)] show ?case
    using clock_step.IH [OF clock_step(5) le(1)] db_step_live [OF _ inv le(2)] by metis
qed

end
