(* ===== verification/Room_Runs.thy ===== *)
theory Room_Runs
  imports Room_Effects
begin

text \<open>
  What stays across every call of the Rooms store (backend/src/store.rs): a run that has ended, and
  a room that is closed.
\<close>

section \<open>Runs of other methods stay\<close>

lemma recover_each_inactive:
  assumes "recover_each P D seal w now i n ids d = (r, e)" "u \<in> set (t_runs d)" "\<not> active u"
  shows "u \<in> set (t_runs e)"
  using assms
proof (induction ids arbitrary: i n d)
  case Nil
  then show ?case by simp
next
  case (Cons rid ids)
  show ?case
  proof (cases "(if w then bindE (sealing_seal P seal ''generation interrupted by node restart''
         (ctx ''room_runs'' ''error_message'' rid) (nonce D i)) (\<lambda>m. Inr (Some m)) else Inr None)")
    case (Inl x)
    with Cons.prems show ?thesis by (simp del: recover_each.simps add: recover_each_Cons)
  next
    case (Inr m)
    have "u \<in> set (upd (\<lambda>u. u_id u = rid \<and> active u) (recovered_run now m) (t_runs d))"
      using Cons.prems(2,3) unfolding set_upd by force
    with Cons.IH Inr Cons.prems show ?thesis
      by (simp del: recover_each.simps add: recover_each_Cons)
  qed
qed

lemma recover_db_inactive:
  assumes "recover_db P D seal d = (r, e)" "u \<in> set (t_runs d)" "\<not> active u"
  shows "u \<in> set (t_runs e)"
  using assms(1) recover_each_inactive [OF _ assms(2,3)]
  by (auto simp: recover_db_def Let_def stmt_simps update_rooms_def elim!: bindS_cases)

lemma upd_other: "x \<in> set xs \<Longrightarrow> \<not> Q x \<Longrightarrow> x \<in> set (upd Q f xs)"
  by (induction xs) (auto simp: upd_def)

lemma trim_room_runs: "u \<in> set (t_runs d) \<Longrightarrow> distinct (map u_id (t_runs d)) \<Longrightarrow>
    u \<in> set (t_runs (trim_room i d)) \<or> (\<forall>v\<in>set (t_runs (trim_room i d)). u_id v \<noteq> u_id u)"
  unfolding trim_room_def trim_runs_run trim_messages_run snd_conv
  by (auto simp: set_del distinct_map inj_on_def)

lemma finished_runs_other:
  assumes "u \<in> set (t_runs d)" "distinct (map u_id (t_runs d))" "\<not> (u_id u = rid \<and> u_room_id u = i)"
  shows "u \<in> set (t_runs (finished P D i rid terminal msg d)) \<or> (\<forall>v\<in>set (t_runs (finished P D i rid terminal msg d)). u_id v \<noteq> u_id u)"
proof -
  have "map u_id (upd Q (settled_run P D terminal msg) us) = map u_id us" for Q us
    by (intro map_upd) (simp add: settled_run_def)
  then show ?thesis
    unfolding finished_def using assms by (intro trim_room_runs) (auto intro: upd_other)
qed

lemma unique_run: "db_inv d \<Longrightarrow> u \<in> set (t_runs d) \<Longrightarrow> v \<in> set (t_runs d) \<Longrightarrow> u_id v = u_id u \<Longrightarrow> v = u"
  by (auto simp: db_inv_def inv_keys_def distinct_map inj_on_def)

lemma add_reply_frame: "add_reply P D seal i partial d = (r, d1) \<Longrightarrow> t_runs d1 = t_runs d \<and> t_rooms d1 = t_rooms d"
  by (auto simp: add_reply_def Let_def stmt_simps insert_message_def insert_when_def split: sum.splits if_splits)

lemma finish_keeps_inactive:
  assumes "finish_tx P D seal i rid terminal d = (r, e)" "db_inv d" "u \<in> set (t_runs d)" "\<not> active u"
  shows "u \<in> set (t_runs e) \<or> (\<forall>v\<in>set (t_runs e). u_id v \<noteq> u_id u)"
proof (cases r)
  case (Inl x)
  with assms show ?thesis by (auto simp: finish_tx_def dest: atomically_Inl)
next
  case (Inr x)
  with assms(1) have "finish_tx P D seal i rid terminal d = (Inr x, e)" by simp
  then show ?thesis
  proof (cases rule: finish_tx_effect)
    case (noop v)
    with assms show ?thesis by simp
  next
    case (ends v partial msg d1)
    have "t_runs d1 = t_runs d"
      using ends(7) by (auto dest: add_reply_frame split: if_splits)
    moreover have "\<not> (u_id u = rid \<and> u_room_id u = i)"
      using unique_run [OF assms(2,3) ends(1)] ends(2,4) assms(4) by metis
    ultimately show ?thesis
      using finished_runs_other [of u d1 rid i P D terminal msg] assms(2,3) ends(8)
      by (simp add: db_inv_def inv_keys_def)
  qed
qed

lemma start_turn_runs:
  "start_turn P D seal session body key d = (r, e) \<Longrightarrow> set (t_runs d) \<subseteq> set (t_runs e)"
  by (auto simp: start_turn_def stmt_simps Let_def update_rooms_def split: if_splits sum.splits)

lemma turn_tx_runs:
  assumes "append_user_turn_tx P D seal session body key d = (r, e)"
  shows "set (t_runs d) \<subseteq> set (t_runs e)"
proof (cases r)
  case (Inl x)
  with assms show ?thesis by (auto simp: append_user_turn_tx_def dest: atomically_Inl)
next
  case (Inr x)
  with assms show ?thesis
    by (auto simp: append_user_turn_tx_def atomically_Inr Let_def stmt_simps retS_def
      split: sum.splits if_splits option.splits dest!: start_turn_runs)
qed

lemma db_step_inactive:
  assumes step: "db_step P D seal d e" and inv: "db_inv d" and u: "u \<in> set (t_runs d)" "\<not> active u"
  shows "u \<in> set (t_runs e) \<or> (\<forall>v\<in>set (t_runs e). u_id v \<noteq> u_id u)"
  using step
proof cases
  case (created i model origin secret j name r)
  then show ?thesis using u by (auto dest!: create_tx_effect)
next
  case (joined invite member j name r)
  then show ?thesis using u by (auto elim!: exchange_tx_effect)
next
  case (issued i r)
  from issue_tx_effect [OF issued] show ?thesis using u by (auto simp: drop_guests_def)
next
  case (revoked i r)
  from revoke_db_drop [OF revoked] show ?thesis using u by (auto simp: drop_guests_def)
next
  case (closed i r)
  from close_db_effect [OF closed] show ?thesis using u by auto
next
  case (turned member body key r)
  then show ?thesis using u turn_tx_runs by blast
next
  case (extended i v delta r)
  then show ?thesis using u
    by (auto simp: append_delta_db_def Let_def stmt_simps active_def active_text_def intro: upd_other
      split: sum.splits if_splits)
next
  case (ended i v terminal r)
  then show ?thesis using finish_keeps_inactive inv u by blast
next
  case (stopped i v message r)
  then show ?thesis using u by (auto simp: stop_db_def stmt_simps intro: upd_other split: if_splits)
next
  case (recovered r)
  then show ?thesis using recover_db_inactive u by blast
qed

text \<open>
  C7. A run that has ended never changes again: whatever is called next, its row stays exactly as
  it is until retention removes it.
\<close>

theorem ended_runs_frozen:
  assumes "reachable P s" "aead_total P" "store_step P D s t"
    and "u \<in> set (t_runs (rs_db s))" "u_status u \<noteq> ''queued''" "u_status u \<noteq> ''running''"
  shows "u \<in> set (t_runs (rs_db t)) \<or> (\<forall>v\<in>set (t_runs (rs_db t)). u_id v \<noteq> u_id u)"
proof -
  have "\<not> active u" using assms(5,6) by (simp add: active_def active_text_def)
  from store_step_db [OF assms(3)] show ?thesis
    using db_step_inactive [OF _ reachable_inv [OF assms(1,2)] assms(4) \<open>\<not> active u\<close>] assms(4) by metis
qed

section \<open>Committing a turn\<close>

lemma commit_user_turn_Inr:
  assumes "commit_user_turn P D session input s = (Inr (body, ids), t)"
  obtains key where "sess_role session \<in> {Host, Guest}" "validate_prompt (st_text input) = Inr body"
    "traverse_opt (\<lambda>k. validate_non_empty k MAX_IDEMPOTENCY_KEY_CHARS ''idempotencyKey'') (st_idempotency_key input) = Inr key"
    "append_user_turn_tx P D (rs_seal s) session body key (rs_db s) = (Inr ids, rs_db t)" "t = s\<lparr>rs_db := rs_db t\<rparr>"
  using assms
  by (auto simp: commit_user_turn_def stmt_simps with_connection_eq split: if_splits sum.splits elim!: bindS_cases)

section \<open>Closed rooms stay closed\<close>

definition closed_in :: "string \<Rightarrow> db \<Rightarrow> bool" where
  "closed_in i d \<longleftrightarrow> (\<exists>r\<in>set (t_rooms d). r_id r = i \<and> r_status r = ''closed'')"

lemma closed_in_upd:
  "(\<And>r. r_id (f r) = r_id r) \<Longrightarrow> (\<And>r. Q r \<Longrightarrow> r_status r = ''closed'' \<Longrightarrow> r_status (f r) = ''closed'') \<Longrightarrow>
   closed_in i d \<Longrightarrow> closed_in i (d\<lparr>t_rooms := upd Q f (t_rooms d)\<rparr>)"
  unfolding closed_in_def by (auto simp: set_upd) (metis (full_types))

lemma closed_in_rooms: "t_rooms e = t_rooms d \<Longrightarrow> closed_in i e = closed_in i d"
  by (simp add: closed_in_def)


lemma closed_in_keeps [intro]:
  "keeps (closed_in i) (query f)" "keeps (closed_in i) (guardS e b)"
  "keeps (closed_in i) (insert_message m)" "keeps (closed_in i) (insert_run u)"
  "keeps (closed_in i) (update_runs R f2)" "keeps (closed_in i) (delete_runs R)"
  "keeps (closed_in i) (delete_messages S)"
  by (auto simp: keeps_def closed_in_def query_def guardS_def insert_defs insert_when_def
    update_runs_def delete_runs_def delete_messages_def split: if_splits)

lemma closed_in_update_rooms:
  "(\<And>r. r_id (f r) = r_id r) \<Longrightarrow> (\<And>r. Q r \<Longrightarrow> r_status r = ''closed'' \<Longrightarrow> r_status (f r) = ''closed'') \<Longrightarrow>
   keeps (closed_in i) (update_rooms Q f)"
  by (auto simp: keeps_def update_rooms_def intro: closed_in_upd)

lemma closed_in_ops:
  "keeps (closed_in i) (append_delta_db P D seal j u delta)"
  "keeps (closed_in i) (finish_tx P D seal j u terminal)"
  "keeps (closed_in i) (stop_db P D j u message)"
  unfolding append_delta_db_def finish_tx_def settle_run_def add_reply_def trim_runs_def trim_messages_def
    stop_db_def Let_def
  by (intro keeps_atomically keeps_bindS closed_in_keeps keeps_pure keeps_people_cases closed_in_update_rooms; simp)+

lemma closed_in_recover: "keeps (closed_in i) (recover_db P D seal)"
proof -
  have each: "keeps (closed_in i) (recover_each P D seal w now k n ids)" for w now k n ids
  proof (induction ids arbitrary: k n)
    case Nil
    show ?case unfolding recover_each.simps by (rule keeps_pure)
  next
    case (Cons a ids)
    show ?case unfolding recover_each.simps by (intro keeps_bindS closed_in_keeps keeps_pure Cons)
  qed
  show ?thesis unfolding recover_db_def Let_def
    by (intro keeps_bindS closed_in_keeps keeps_pure each closed_in_update_rooms; simp)
qed

text \<open>No turn is accepted in a closed room.\<close>

lemma closed_refuses_turn:
  assumes inv: "db_inv d" and closed: "closed_in (sess_room_id session) d"
  shows "append_user_turn_tx P D seal session body key d = (Inl Closed, d)"
proof -
  obtain r where r: "r \<in> set (t_rooms d)" "r_id r = sess_room_id session" "r_status r = ''closed''"
    using closed by (auto simp: closed_in_def)
  have "find (\<lambda>r. r_id r = sess_room_id session) (t_rooms d) = Some r"
  proof (cases "find (\<lambda>r. r_id r = sess_room_id session) (t_rooms d)")
    case None
    with r show ?thesis by (auto simp: find_None_iff)
  next
    case (Some r')
    from find_SomeD [OF Some] unique_room [OF inv r(1)] r(2) Some show ?thesis by auto
  qed
  with r(3) show ?thesis
    by (simp add: append_user_turn_tx_def Let_def atomically_def stmt_simps)
qed

lemma turn_other_rooms:
  assumes "append_user_turn_tx P D seal session body key d = (r, e)" "sess_room_id session \<noteq> i" "closed_in i d"
  shows "closed_in i e"
proof -
  have other: "keeps (closed_in i) (update_rooms Q f)" if "\<And>r. Q r \<Longrightarrow> r_id r \<noteq> i" for Q f
  proof (rule keepsI)
    fix d n e
    assume "closed_in i d" and e: "update_rooms Q f d = (n, e)"
    then obtain r where r: "r \<in> set (t_rooms d)" "r_id r = i" "r_status r = ''closed''" by (auto simp: closed_in_def)
    then have "r \<in> set (upd Q f (t_rooms d))" using that by (intro upd_other) blast+
    with r(2,3) e show "closed_in i e" by (auto simp: closed_in_def update_rooms_def)
  qed
  have here: "r_id r \<noteq> i" if "r_id r = sess_room_id session" for r using assms(2) that by simp
  have start: "keeps (closed_in i) (start_turn P D seal session body k)" for k
    unfolding start_turn_def Let_def
    by (intro keeps_bindS closed_in_keeps keeps_pure other here)
  have "keeps (closed_in i) (append_user_turn_tx P D seal session body key)"
    unfolding append_user_turn_tx_def Let_def
    by (intro keeps_atomically keeps_bindS closed_in_keeps keeps_pure keeps_people_cases start)
  from keepsD [OF this assms(3,1)] show ?thesis .
qed


lemma db_step_closed:
  assumes step: "db_step P D seal d e" and inv: "db_inv d" and c: "closed_in i d"
  shows "closed_in i e"
  using step
proof cases
  case (created j model origin secret k name r)
  then show ?thesis using c by (auto simp: closed_in_def dest!: create_tx_effect)
next
  case (joined invite member j name r)
  then show ?thesis using c by (auto simp: closed_in_def elim!: exchange_tx_effect)
next
  case (issued j r)
  from issue_tx_effect [OF issued] show ?thesis using c by (auto simp: drop_guests_def closed_in_def)
next
  case (revoked j r)
  from revoke_db_drop [OF revoked] show ?thesis using c by (auto simp: drop_guests_def closed_in_def)
next
  case (closed j r)
  from close_db_effect [OF closed] show ?thesis
    using c by (auto simp: closed_in_def set_upd) (metis (full_types))+
next
  case (turned member body key r)
  then show ?thesis using turn_other_rooms c closed_refuses_turn [OF inv] by (metis snd_conv)
next
  case (extended j v delta r)
  then show ?thesis using keepsD [OF closed_in_ops(1) c] by blast
next
  case (ended j v terminal r)
  then show ?thesis using keepsD [OF closed_in_ops(2) c] by blast
next
  case (stopped j v message r)
  then show ?thesis using keepsD [OF closed_in_ops(3) c] by blast
next
  case (recovered r)
  then show ?thesis using keepsD [OF closed_in_recover c] by blast
qed

text \<open>
  Closing is final: once a room is closed no call reopens it, and no turn is accepted in it.
\<close>

theorem closed_forever:
  assumes "reachable P s" "aead_total P" "r \<in> set (t_rooms (rs_db s))" "r_status r = ''closed''"
    and "store_step P D s t"
  shows "(\<exists>r'\<in>set (t_rooms (rs_db t)). r_id r' = r_id r \<and> r_status r' = ''closed'')
    \<and> (\<forall>D' session input x u. sess_room_id session = r_id r \<longrightarrow>
        commit_user_turn P D' session input t \<noteq> (Inr x, u))"
proof -
  have inv: "db_inv (rs_db s)" by (rule reachable_inv [OF assms(1,2)])
  have inv': "db_inv (rs_db t)" by (rule store_step_inv [OF assms(2,5) inv])
  have "closed_in (r_id r) (rs_db s)" using assms(3,4) by (auto simp: closed_in_def)
  then have c: "closed_in (r_id r) (rs_db t)"
    using store_step_db [OF assms(5)] db_step_closed [OF _ inv] by metis
  have "commit_user_turn P D' session input t \<noteq> (Inr x, u)" if "sess_room_id session = r_id r" for D' session input x u
  proof
    assume "commit_user_turn P D' session input t = (Inr x, u)"
    moreover obtain body ids where "x = (body, ids)" by (cases x)
    ultimately show False
      using closed_refuses_turn [OF inv', of session] c that by (auto elim!: commit_user_turn_Inr)
  qed
  with c show ?thesis by (auto simp: closed_in_def)
qed

end
