(* ===== verification/Room_Turns.thy ===== *)
theory Room_Turns
  imports Room_Runs
begin

text \<open>
  Submitting a turn to the Rooms store (backend/src/store.rs, \<open>append_user_turn\<close>): one active run a
  room, what a new turn stores, and retries under an idempotency key.
\<close>

section \<open>One run at a time\<close>

lemma turn_tx_Inr:
  assumes "append_user_turn_tx P D seal session body key d = (Inr ids, e)"
  obtains (retry) u k where "key = Some k" "u \<in> set (t_runs d)" "u_room_id u = sess_room_id session"
      "u_idempotency_key u = Some k" "ids = (u_id u, None)" "e = d"
      "sealing_open P seal (u_input_text u) (ctx ''room_runs'' ''input_text'' (u_id u)) = Inr body"
  | (new) "start_turn P D seal session body key d = (Inr ids, e)"
proof -
  have "(\<exists>u k. key = Some k \<and> u \<in> set (t_runs d) \<and> u_room_id u = sess_room_id session \<and> u_idempotency_key u = Some k
      \<and> ids = (u_id u, None) \<and> e = d \<and> sealing_open P seal (u_input_text u) (ctx ''room_runs'' ''input_text'' (u_id u)) = Inr body)
    \<or> start_turn P D seal session body key d = (Inr ids, e)"
    using assms
    by (auto simp: append_user_turn_tx_def Let_def atomically_Inr stmt_simps split: sum.splits if_splits option.splits
      dest!: find_SomeD)
  with retry new show thesis by blast
qed

text \<open>What a new turn adds to the tables.\<close>

definition turn_message :: "platform \<Rightarrow> draws \<Rightarrow> room_session \<Rightarrow> string \<Rightarrow> message_row" where
  "turn_message P D session cell = \<lparr>m_id = opaque_id ''msg_'' (uuid D 0), m_room_id = sess_room_id session,
     m_role = ''user'', m_text = cell, m_participant_id = Some (sess_participant_id session),
     m_created_at = now_text P D 0\<rparr>"

definition turn_run :: "platform \<Rightarrow> draws \<Rightarrow> room_session \<Rightarrow> string option \<Rightarrow> string \<Rightarrow> string \<Rightarrow> run_row" where
  "turn_run P D session key input partial = \<lparr>u_id = opaque_id ''run_'' (uuid D 1), u_room_id = sess_room_id session,
     u_request_id = opaque_id ''req_'' (uuid D 2), u_idempotency_key = key, u_input_text = input,
     u_status = ''running'', u_partial_text = partial, u_error_code = None, u_error_message = None,
     u_started_at = Some (now_text P D 0), u_finished_at = None, u_created_at = now_text P D 0\<rparr>"

lemma active_turn_run [simp]: "active (turn_run P D session key a b)" "u_room_id (turn_run P D session key a b) = sess_room_id session"
  by (simp_all add: turn_run_def active_def active_text_def)

lemma start_turn_Inr:
  assumes "start_turn P D seal session body key d = (Inr ids, e)"
  obtains c1 c2 c3 where
    "sealing_seal P seal body (ctx ''room_messages'' ''text'' (opaque_id ''msg_'' (uuid D 0))) (nonce D 0) = Inr c1"
    "sealing_seal P seal body (ctx ''room_runs'' ''input_text'' (opaque_id ''run_'' (uuid D 1))) (nonce D 1) = Inr c2"
    "sealing_seal P seal [] (ctx ''room_runs'' ''partial_text'' (opaque_id ''run_'' (uuid D 1))) (nonce D 2) = Inr c3"
    "ids = (opaque_id ''run_'' (uuid D 1), Some (opaque_id ''msg_'' (uuid D 0)))"
    "active_runs d (sess_room_id session) = 0"
    "e = d\<lparr>t_messages := t_messages d @ [turn_message P D session c1], t_runs := t_runs d @ [turn_run P D session key c2 c3],
       t_rooms := upd (\<lambda>r. r_id r = sess_room_id session) (\<lambda>r. r\<lparr>r_status := ''running'', r_updated_at := now_text P D 0\<rparr>) (t_rooms d)\<rparr>"
  using assms by (rule start_turn_effect) (auto simp: turn_message_def turn_run_def)

lemma upd_hit: "x \<in> set xs \<Longrightarrow> Q x \<Longrightarrow> f x \<in> set (upd Q f xs)"
  by (induction xs) (auto simp: upd_def)

lemma sealing_round_trip:
  assumes "aead_laws P" "b64_laws P" "utf8_valid v" "length n = NONCE_LEN" "sealing_seal P seal v c0 n = Inr cell"
  shows "sealing_open P seal cell c0 = Inr v"
  using assms seal_text_round_trip [of P v n seal c0 cell] by (simp add: sealing_seal_def sealing_open_def)

lemma turn_starts:
  assumes "reachable P s" "aead_total P" "aead_laws P" "b64_laws P"
    and "commit_user_turn P D session input s = (Inr (body, rid, Some mid), t)"
    and "utf8_valid body" "\<forall>i. length (nonce D i) = NONCE_LEN"
  shows "active_runs (rs_db s) (sess_room_id session) = 0 \<and> active_runs (rs_db t) (sess_room_id session) = 1
    \<and> (\<exists>u\<in>set (t_runs (rs_db t)). u_id u = rid \<and> u_room_id u = sess_room_id session \<and> u_status u = ''running''
        \<and> sealing_open P (rs_seal t) (u_input_text u) (ctx ''room_runs'' ''input_text'' rid) = Inr body
        \<and> sealing_open P (rs_seal t) (u_partial_text u) (ctx ''room_runs'' ''partial_text'' rid) = Inr [])
    \<and> (\<exists>m\<in>set (t_messages (rs_db t)). m_id m = mid \<and> m_room_id m = sess_room_id session \<and> m_role m = ''user''
        \<and> sealing_open P (rs_seal t) (m_text m) (ctx ''room_messages'' ''text'' mid) = Inr body)
    \<and> (\<exists>r\<in>set (t_rooms (rs_db t)). r_id r = sess_room_id session \<and> r_status r = ''running'')"
  using assms(5)
proof (rule commit_user_turn_Inr)
  fix key
  assume tx: "append_user_turn_tx P D (rs_seal s) session body key (rs_db s) = (Inr (rid, Some mid), rs_db t)"
    and t: "t = s\<lparr>rs_db := rs_db t\<rparr>"
  have seal: "rs_seal t = rs_seal s" using t by (metis room_store.select_convs(2) room_store.surjective room_store.update_convs(1))
  from tx have start: "start_turn P D (rs_seal s) session body key (rs_db s) = (Inr (rid, Some mid), rs_db t)"
    by (rule turn_tx_Inr) auto
  have room: "room_exists (rs_db s) (sess_room_id session)"
    using start by (rule start_turn_effect)
  from start show ?thesis
  proof (rule start_turn_Inr)
    fix c1 c2 c3
    assume c: "sealing_seal P (rs_seal s) body (ctx ''room_messages'' ''text'' (opaque_id ''msg_'' (uuid D 0))) (nonce D 0) = Inr c1"
      "sealing_seal P (rs_seal s) body (ctx ''room_runs'' ''input_text'' (opaque_id ''run_'' (uuid D 1))) (nonce D 1) = Inr c2"
      "sealing_seal P (rs_seal s) [] (ctx ''room_runs'' ''partial_text'' (opaque_id ''run_'' (uuid D 1))) (nonce D 2) = Inr c3"
      and ids: "(rid, Some mid) = (opaque_id ''run_'' (uuid D 1), Some (opaque_id ''msg_'' (uuid D 0)))"
      and idle: "active_runs (rs_db s) (sess_room_id session) = 0"
      and e: "rs_db t = (rs_db s)\<lparr>t_messages := t_messages (rs_db s) @ [turn_message P D session c1], t_runs := t_runs (rs_db s) @ [turn_run P D session key c2 c3],
       t_rooms := upd (\<lambda>r. r_id r = sess_room_id session) (\<lambda>r. r\<lparr>r_status := ''running'', r_updated_at := now_text P D 0\<rparr>) (t_rooms (rs_db s))\<rparr>"
    have opens: "sealing_open P (rs_seal s) c1 (ctx ''room_messages'' ''text'' (opaque_id ''msg_'' (uuid D 0))) = Inr body"
      "sealing_open P (rs_seal s) c2 (ctx ''room_runs'' ''input_text'' (opaque_id ''run_'' (uuid D 1))) = Inr body"
      "sealing_open P (rs_seal s) c3 (ctx ''room_runs'' ''partial_text'' (opaque_id ''run_'' (uuid D 1))) = Inr []"
      using sealing_round_trip [OF assms(3,4,6) _ c(1)] sealing_round_trip [OF assms(3,4,6) _ c(2)]
        sealing_round_trip [OF assms(3,4) utf8_valid_Nil _ c(3)] assms(7) by blast+
    have "active_runs (rs_db t) (sess_room_id session) = 1"
      using idle unfolding e active_runs_def by simp
    moreover have "\<exists>r\<in>set (t_rooms (rs_db t)). r_id r = sess_room_id session \<and> r_status r = ''running''"
    proof -
      obtain x where "x \<in> set (t_rooms (rs_db s))" "r_id x = sess_room_id session"
        using room by (auto simp: room_exists_def)
      from upd_hit [OF this(1), where Q = "\<lambda>r. r_id r = sess_room_id session"
          and f = "\<lambda>r. r\<lparr>r_status := ''running'', r_updated_at := now_text P D 0\<rparr>"] this(2)
      show ?thesis unfolding e by (auto intro: bexI [rotated])
    qed
    moreover have "turn_run P D session key c2 c3 \<in> set (t_runs (rs_db t))" "turn_message P D session c1 \<in> set (t_messages (rs_db t))"
      unfolding e by simp_all
    ultimately show ?thesis
      using idle ids seal opens
      by (intro conjI bexI [of _ "turn_run P D session key c2 c3"] bexI [of _ "turn_message P D session c1"])
        (auto simp: turn_run_def turn_message_def)
  qed
qed


text \<open>
  C2. A turn that starts a run finds no active run in the room and leaves exactly one: a
  running run whose input, and a user message whose text, open as the validated prompt. The
  room is running.
\<close>

theorem turn_starts_one_run:
  assumes "reachable P s" "aead_total P" "aead_laws P" "b64_laws P"
    and "commit_user_turn P D session input s = (Inr (body, rid, Some mid), t)"
    and "utf8_valid body" "\<forall>i. length (nonce D i) = NONCE_LEN"
  shows "active_runs (rs_db s) (sess_room_id session) = 0 \<and> active_runs (rs_db t) (sess_room_id session) = 1
    \<and> (\<exists>u\<in>set (t_runs (rs_db t)). u_id u = rid \<and> u_room_id u = sess_room_id session \<and> u_status u = ''running''
        \<and> sealing_open P (rs_seal t) (u_input_text u) (ctx ''room_runs'' ''input_text'' rid) = Inr body
        \<and> sealing_open P (rs_seal t) (u_partial_text u) (ctx ''room_runs'' ''partial_text'' rid) = Inr [])
    \<and> (\<exists>m\<in>set (t_messages (rs_db t)). m_id m = mid \<and> m_room_id m = sess_room_id session \<and> m_role m = ''user''
        \<and> sealing_open P (rs_seal t) (m_text m) (ctx ''room_messages'' ''text'' mid) = Inr body)
    \<and> (\<exists>r\<in>set (t_rooms (rs_db t)). r_id r = sess_room_id session \<and> r_status r = ''running'')"
  using assms by (rule turn_starts)

text \<open>A room with an active run refuses every turn that is not a retry of it.\<close>

lemma busy_refused:
  assumes "active_runs d (sess_room_id session) \<noteq> 0"
    and "\<And>u. u \<in> set (t_runs d) \<Longrightarrow> u_room_id u = sess_room_id session \<Longrightarrow> key \<noteq> None \<Longrightarrow> u_idempotency_key u \<noteq> key"
  shows "\<exists>x. append_user_turn_tx P D seal session body key d = (Inl x, d)"
proof (cases "append_user_turn_tx P D seal session body key d")
  case (Pair r e)
  show ?thesis
  proof (cases r)
    case (Inl x)
    with Pair show ?thesis by (auto simp: append_user_turn_tx_def dest: atomically_Inl)
  next
    case (Inr ids)
    with Pair have "append_user_turn_tx P D seal session body key d = (Inr ids, e)" by simp
    then show ?thesis
    proof (cases rule: turn_tx_Inr)
      case (retry u k)
      with assms(2) show ?thesis by fastforce
    next
      case new
      then show ?thesis by (rule start_turn_Inr) (use assms(1) in simp)
    qed
  qed
qed

lemma commit_user_turn_run:
  assumes "sess_role session \<in> {Host, Guest}" "validate_prompt (st_text input) = Inr body"
    "traverse_opt (\<lambda>k. validate_non_empty k MAX_IDEMPOTENCY_KEY_CHARS ''idempotencyKey'') (st_idempotency_key input) = Inr key"
  shows "commit_user_turn P D session input s = (case append_user_turn_tx P D (rs_seal s) session body key (rs_db s) of
     (Inl e, d) \<Rightarrow> (Inl e, s\<lparr>rs_db := d\<rparr>) | (Inr ids, d) \<Rightarrow> (Inr (body, ids), s\<lparr>rs_db := d\<rparr>))"
proof -
  have "commit_user_turn P D session input s =
      bindS (with_seal (\<lambda>seal. with_connection (append_user_turn_tx P D seal session body key))) (\<lambda>ids. retS (body, ids)) s"
    using assms by (simp add: commit_user_turn_def stmt_simps)
  then show ?thesis
    by (cases "append_user_turn_tx P D (rs_seal s) session body key (rs_db s)")
      (simp add: bindS_def with_connection_def split: sum.split)
qed

lemma retry_tx:
  assumes inv: "db_inv d" and r: "r \<in> set (t_rooms d)" "r_id r = sess_room_id session" "r_status r \<noteq> ''closed''"
    and u: "u \<in> set (t_runs d)" "u_room_id u = sess_room_id session" "u_idempotency_key u = Some k"
    and o: "sealing_open P seal (u_input_text u) (ctx ''room_runs'' ''input_text'' (u_id u)) = Inr prior"
  shows "append_user_turn_tx P D seal session body (Some k) d = (if prior = body then (Inr (u_id u, None), d) else (Inl Conflict, d))"
proof -
  have "find (\<lambda>r. r_id r = sess_room_id session) (t_rooms d) = Some r"
  proof (cases "find (\<lambda>r. r_id r = sess_room_id session) (t_rooms d)")
    case None
    with r show ?thesis by (auto simp: find_None_iff)
  next
    case (Some r')
    with find_SomeD [OF Some] unique_room [OF inv r(1)] r(2) show ?thesis by metis
  qed
  moreover have "find (\<lambda>u. u_room_id u = sess_room_id session \<and> u_idempotency_key u = Some k) (t_runs d) = Some u"
  proof (cases "find (\<lambda>u. u_room_id u = sess_room_id session \<and> u_idempotency_key u = Some k) (t_runs d)")
    case None
    with u show ?thesis by (auto simp: find_None_iff)
  next
    case (Some v)
    have "inj_on (\<lambda>u. (u_room_id u, u_idempotency_key u)) (set (filter (\<lambda>u. u_idempotency_key u \<noteq> None) (t_runs d)))"
      using inv by (auto simp: db_inv_def inv_retry_def distinct_map)
    moreover have "v \<in> set (filter (\<lambda>u. u_idempotency_key u \<noteq> None) (t_runs d))" "u \<in> set (filter (\<lambda>u. u_idempotency_key u \<noteq> None) (t_runs d))"
      using find_SomeD [OF Some] u by auto
    ultimately have "v = u" using find_SomeD [OF Some] u by (metis (no_types, lifting) inj_onD)
    with Some show ?thesis by simp
  qed
  ultimately show ?thesis using r(3) o
    by (simp add: append_user_turn_tx_def Let_def atomically_def stmt_simps)
qed


text \<open>
  C8. Sending the same turn again under its idempotency key starts nothing: the retry is answered
  with the run the first call started and the database is left as it is. The same key with another
  text is a conflict.
\<close>

theorem retry_is_idempotent:
  assumes "reachable P s" "aead_total P" "aead_laws P" "b64_laws P"
    and "commit_user_turn P D session input s = (Inr (body, rid, Some mid), t)" "st_idempotency_key input \<noteq> None"
    and "utf8_valid body" "\<forall>i. length (nonce D i) = NONCE_LEN"
    and "sess_room_id again = sess_room_id session" "sess_role again \<in> {Host, Guest}"
    and "st_idempotency_key input' = st_idempotency_key input" "validate_prompt (st_text input') = Inr body'"
  shows "commit_user_turn P D' again input' t =
    (if body' = body then (Inr (body, rid, None), t) else (Inl Conflict, t))"
  using assms(5)
proof (rule commit_user_turn_Inr)
  fix key
  assume role: "sess_role session \<in> {Host, Guest}"
    and key: "traverse_opt (\<lambda>k. validate_non_empty k MAX_IDEMPOTENCY_KEY_CHARS ''idempotencyKey'') (st_idempotency_key input) = Inr key"
    and tx: "append_user_turn_tx P D (rs_seal s) session body key (rs_db s) = (Inr (rid, Some mid), rs_db t)"
    and t: "t = s\<lparr>rs_db := rs_db t\<rparr>"
  have seal: "rs_seal t = rs_seal s" using t by (metis room_store.select_convs(2) room_store.surjective room_store.update_convs(1))
  obtain k where k: "key = Some k" using key assms(6) by (auto simp: traverse_opt_eq_Inr)
  have inv: "db_inv (rs_db t)"
    using keepsD [OF append_user_turn_tx_keeps reachable_inv [OF assms(1,2)] tx] .
  from tx have "start_turn P D (rs_seal s) session body key (rs_db s) = (Inr (rid, Some mid), rs_db t)"
    by (rule turn_tx_Inr) auto
  then obtain c1 c2 c3 where e: "rs_db t = (rs_db s)\<lparr>t_messages := t_messages (rs_db s) @ [turn_message P D session c1],
       t_runs := t_runs (rs_db s) @ [turn_run P D session key c2 c3],
       t_rooms := upd (\<lambda>r. r_id r = sess_room_id session) (\<lambda>r. r\<lparr>r_status := ''running'', r_updated_at := now_text P D 0\<rparr>) (t_rooms (rs_db s))\<rparr>"
    and c2: "sealing_seal P (rs_seal s) body (ctx ''room_runs'' ''input_text'' rid) (nonce D 1) = Inr c2"
    and rid: "rid = opaque_id ''run_'' (uuid D 1)"
    by (rule start_turn_Inr) auto
  obtain r where r: "r \<in> set (t_rooms (rs_db t))" "r_id r = sess_room_id session" "r_status r = ''running''"
    using turn_starts [OF assms(1-5,7,8)] by blast
  let ?u = "turn_run P D session key c2 c3"
  have u: "?u \<in> set (t_runs (rs_db t))" "u_room_id ?u = sess_room_id again" "u_idempotency_key ?u = Some k" "u_id ?u = rid"
    using assms(9) k rid by (simp_all add: e) (simp_all add: turn_run_def)
  have o: "sealing_open P (rs_seal t) (u_input_text ?u) (ctx ''room_runs'' ''input_text'' (u_id ?u)) = Inr body"
    using sealing_round_trip [OF assms(3,4,7) _ c2] assms(8) u(4) seal by (simp add: turn_run_def)
  have "append_user_turn_tx P D' (rs_seal t) again body' (Some k) (rs_db t) =
      (if body = body' then (Inr (u_id ?u, None), rs_db t) else (Inl Conflict, rs_db t))"
    using r assms(9) by (intro retry_tx [OF inv r(1) _ _ u(1-3) o]) auto
  then show ?thesis
    using commit_user_turn_run [of again input' body' "Some k" P D' t] assms(10-12) key k u(4) by auto
qed

end
