(* ===== verification/Room_Output.thy ===== *)
theory Room_Output
  imports Room_Turns
begin

text \<open>
  backend/src/store.rs, what streaming and ending a run leave behind: \<open>append_delta\<close> is one open,
  extend, seal step on the stored cell (the contract of Store_Seal), so the cell accumulates the
  deltas; \<open>finish_run\<close> settles the run, keeps the reply and trims the room.
\<close>

section \<open>Streaming\<close>

text \<open>What a delta does: the one running run with that id, its partial text opened, extended, sealed.\<close>

lemma append_delta_Inr:
  assumes "append_delta P D room rid delta s = (Inr (), t)"
  obtains u old cell where "u \<in> set (t_runs (rs_db s))" "u_id u = rid" "u_room_id u = room" "u_status u = ''running''"
    "sealing_open P (rs_seal s) (u_partial_text u) (ctx ''room_runs'' ''partial_text'' rid) = Inr old"
    "delta \<noteq> []" "length (chars delta) \<le> MAX_DELTA_CHARS" "length (chars (old @ delta)) \<le> MAX_MESSAGE_CHARS"
    "sealing_seal P (rs_seal s) (old @ delta) (ctx ''room_runs'' ''partial_text'' rid) (nonce D 0) = Inr cell"
    "t = s\<lparr>rs_db := (rs_db s)\<lparr>t_runs := upd (\<lambda>u. u_id u = rid \<and> u_room_id u = room \<and> u_status u = ''running'')
        (\<lambda>u. u\<lparr>u_partial_text := cell\<rparr>) (t_runs (rs_db s)),
       t_rooms := upd (\<lambda>r. r_id r = room) (\<lambda>r. r\<lparr>r_updated_at := now_text P D 0\<rparr>) (t_rooms (rs_db s))\<rparr>\<rparr>"
proof -
  from assms obtain d where delta: "validate_delta delta = Inr delta"
    and db: "append_delta_db P D (rs_seal s) room rid delta (rs_db s) = (Inr (), d)" and t: "t = s\<lparr>rs_db := d\<rparr>"
    by (auto simp: append_delta_def stmt_simps with_connection_eq validate_delta_Inr split: sum.splits)
  from db obtain u old cell where "find (\<lambda>u. u_id u = rid \<and> u_room_id u = room \<and> u_status u = ''running'') (t_runs (rs_db s)) = Some u"
    "sealing_open P (rs_seal s) (u_partial_text u) (ctx ''room_runs'' ''partial_text'' rid) = Inr old"
    "length (chars (old @ delta)) \<le> MAX_MESSAGE_CHARS"
    "sealing_seal P (rs_seal s) (old @ delta) (ctx ''room_runs'' ''partial_text'' rid) (nonce D 0) = Inr cell"
    "d = (rs_db s)\<lparr>t_runs := upd (\<lambda>u. u_id u = rid \<and> u_room_id u = room \<and> u_status u = ''running'')
        (\<lambda>u. u\<lparr>u_partial_text := cell\<rparr>) (t_runs (rs_db s)),
       t_rooms := upd (\<lambda>r. r_id r = room) (\<lambda>r. r\<lparr>r_updated_at := now_text P D 0\<rparr>) (t_rooms (rs_db s))\<rparr>"
    by (auto simp: append_delta_db_def Let_def stmt_simps split: sum.splits if_splits)
  then show thesis using t delta that find_SomeD by (force simp: validate_delta_Inr)
qed

text \<open>The text a run has streamed so far, as the store opens it.\<close>

definition partial_of :: "platform \<Rightarrow> room_store \<Rightarrow> string \<Rightarrow> string \<Rightarrow> string option" where
  "partial_of P s room rid =
     (case find (\<lambda>u. u_id u = rid \<and> u_room_id u = room \<and> u_status u = ''running'') (t_runs (rs_db s)) of
        None \<Rightarrow> None
      | Some u \<Rightarrow> (case sealing_open P (rs_seal s) (u_partial_text u) (ctx ''room_runs'' ''partial_text'' rid) of
          Inl e \<Rightarrow> None | Inr v \<Rightarrow> Some v))"

lemma find_unique_run:
  assumes "db_inv d" "u \<in> set (t_runs d)" "u_id u = rid" "Q u"
  shows "find (\<lambda>u. u_id u = rid \<and> Q u) (t_runs d) = Some u"
proof (cases "find (\<lambda>u. u_id u = rid \<and> Q u) (t_runs d)")
  case None
  with assms show ?thesis by (auto simp: find_None_iff)
next
  case (Some v)
  with find_SomeD [OF Some] unique_run [OF assms(1,2)] assms(3) show ?thesis by metis
qed

definition cell_of :: "room_store \<Rightarrow> string \<Rightarrow> string \<Rightarrow> string option" where
  "cell_of s room rid =
     map_option u_partial_text (find (\<lambda>u. u_id u = rid \<and> u_room_id u = room \<and> u_status u = ''running'') (t_runs (rs_db s)))"

lemma partial_of_cell: "partial_of P s room rid = Some v \<longleftrightarrow> (\<exists>c. cell_of s room rid = Some c
    \<and> seal_open_text P (rs_seal s) c (ctx ''room_runs'' ''partial_text'' rid) = Inr v)"
  by (auto simp: partial_of_def cell_of_def sealing_open_def split: option.splits sum.splits)

text \<open>On the stored cell a delta is one open, extend, seal step of the sealing contract.\<close>

lemma append_delta_cell:
  assumes inv: "db_inv (rs_db s)" "db_inv (rs_db t)"
    and go: "append_delta P D room rid delta s = (Inr (), t)" and c: "cell_of s room rid = Some c"
  shows "\<exists>c'. cell_of t room rid = Some c' \<and> rs_seal t = rs_seal s \<and>
    bindE (seal_open_text P (rs_seal s) c (ctx ''room_runs'' ''partial_text'' rid))
      (\<lambda>v. seal_text P (rs_seal s) (v @ delta) (ctx ''room_runs'' ''partial_text'' rid) (nonce D 0)) = Inr c'"
  using go
proof (rule append_delta_Inr)
  fix u old cell
  let ?Q = "\<lambda>u. u_id u = rid \<and> u_room_id u = room \<and> u_status u = ''running''"
  assume u: "u \<in> set (t_runs (rs_db s))" "u_id u = rid" "u_room_id u = room" "u_status u = ''running''"
    and old: "sealing_open P (rs_seal s) (u_partial_text u) (ctx ''room_runs'' ''partial_text'' rid) = Inr old"
    and cell: "sealing_seal P (rs_seal s) (old @ delta) (ctx ''room_runs'' ''partial_text'' rid) (nonce D 0) = Inr cell"
    and t: "t = s\<lparr>rs_db := (rs_db s)\<lparr>t_runs := upd ?Q (\<lambda>u. u\<lparr>u_partial_text := cell\<rparr>) (t_runs (rs_db s)),
       t_rooms := upd (\<lambda>r. r_id r = room) (\<lambda>r. r\<lparr>r_updated_at := now_text P D 0\<rparr>) (t_rooms (rs_db s))\<rparr>\<rparr>"
  have "find ?Q (t_runs (rs_db s)) = Some u"
    using find_unique_run [OF inv(1) u(1,2), of "\<lambda>u. u_room_id u = room \<and> u_status u = ''running''"] u by simp
  with c have c_def: "c = u_partial_text u" by (simp add: cell_of_def)
  let ?u = "u\<lparr>u_partial_text := cell\<rparr>"
  have "?u \<in> set (t_runs (rs_db t))" using u by (simp add: t upd_hit)
  then have "find ?Q (t_runs (rs_db t)) = Some ?u"
    using find_unique_run [OF inv(2), of ?u rid "\<lambda>u. u_room_id u = room \<and> u_status u = ''running''"] u by simp
  then have "cell_of t room rid = Some cell" by (simp add: cell_of_def)
  then show ?thesis using old cell c_def by (simp add: sealing_open_def sealing_seal_def t)
qed

text \<open>Streaming a list of deltas, each with its own draws; it stops at the first that fails.\<close>

fun stream_deltas :: "platform \<Rightarrow> string \<Rightarrow> string \<Rightarrow> (draws \<times> string) list \<Rightarrow> unit storeop" where
  "stream_deltas P room rid [] = retS ()"
| "stream_deltas P room rid ((D, delta) # rest) =
     bindS (append_delta P D room rid delta) (\<lambda>_. stream_deltas P room rid rest)"

lemma append_delta_inv:
  assumes "append_delta P D room rid delta s = (r, t)" "db_inv (rs_db s)"
  shows "db_inv (rs_db t)"
proof (cases "validate_delta delta")
  case (Inl e)
  with assms show ?thesis by (simp add: append_delta_def stmt_simps)
next
  case (Inr d)
  with assms(1) keepsD [OF append_delta_db_keeps assms(2)] show ?thesis
    by (auto simp: append_delta_def stmt_simps with_connection_eq)
qed

lemma stream_deltas_cell:
  assumes "db_inv (rs_db s)" "stream_deltas P room rid pieces s = (Inr (), t)" "cell_of s room rid = Some c"
  shows "\<exists>c'. cell_of t room rid = Some c' \<and> rs_seal t = rs_seal s \<and> db_inv (rs_db t) \<and>
    store_sealer.append_sealed P (rs_seal s) (ctx ''room_runs'' ''partial_text'' rid) c
      (map (\<lambda>(D, delta). (delta, nonce D 0)) pieces) = Inr c'"
  using assms
proof (induction pieces arbitrary: s c)
  case Nil
  then show ?case by simp
next
  case (Cons p pieces)
  obtain D delta where p: "p = (D, delta)" by (cases p)
  with Cons.prems(2) obtain u where one: "append_delta P D room rid delta s = (Inr (), u)"
    and rest: "stream_deltas P room rid pieces u = (Inr (), t)" by (auto simp: bindS_eq_Inr)
  have inv: "db_inv (rs_db u)" by (rule append_delta_inv [OF one Cons.prems(1)])
  from append_delta_cell [OF Cons.prems(1) inv one Cons.prems(3)] obtain c1 where
    c1: "cell_of u room rid = Some c1" "rs_seal u = rs_seal s" and
    step: "bindE (seal_open_text P (rs_seal s) c (ctx ''room_runs'' ''partial_text'' rid))
      (\<lambda>v. seal_text P (rs_seal s) (v @ delta) (ctx ''room_runs'' ''partial_text'' rid) (nonce D 0)) = Inr c1" by blast
  from Cons.IH [OF inv rest c1(1)] step c1(2) p show ?case
    by (auto simp: bindE_eq_Inr)
qed

lemma streamed_text:
  assumes "aead_laws P" "b64_laws P" "reachable P s" "aead_total P"
    and "stream_deltas P room rid pieces s = (Inr (), t)"
    and "partial_of P s room rid = Some v" "utf8_valid v"
    and "\<forall>(D, delta) \<in> set pieces. utf8_valid delta \<and> length (nonce D 0) = NONCE_LEN"
  shows "partial_of P t room rid = Some (v @ concat (map snd pieces))"
proof -
  obtain c where c: "cell_of s room rid = Some c"
    "seal_open_text P (rs_seal s) c (ctx ''room_runs'' ''partial_text'' rid) = Inr v"
    using assms(6) by (auto simp: partial_of_cell)
  from stream_deltas_cell [OF reachable_inv [OF assms(3,4)] assms(5) c(1)] obtain c' where
    c': "cell_of t room rid = Some c'" "rs_seal t = rs_seal s" "store_sealer.append_sealed P (rs_seal s)
      (ctx ''room_runs'' ''partial_text'' rid) c (map (\<lambda>(D, delta). (delta, nonce D 0)) pieces) = Inr c'" by blast
  have fst: "map fst (map (\<lambda>(D, delta). (delta, nonce D 0)) pieces) = map snd pieces"
    by (induction pieces) auto
  have "seal_open_text P (rs_seal s) c' (ctx ''room_runs'' ''partial_text'' rid) = Inr (v @ concat (map snd pieces))"
    using store_sealer.append_sealed_opens [OF c(2) _ _ c'(3)] assms(1,2,7,8) unfolding fst by fastforce
  with c' show ?thesis by (simp add: partial_of_cell)
qed

text \<open>
  Streaming deltas into a running run accumulates exactly their concatenation, whatever the
  sealing of the cell: every delta that was acknowledged is there, once and in order.
\<close>

theorem streamed_text_accumulates:
  assumes "aead_laws P" "b64_laws P" "reachable P s" "aead_total P"
    and "stream_deltas P room rid pieces s = (Inr (), t)"
    and "partial_of P s room rid = Some v" "utf8_valid v"
    and "\<forall>(D, delta) \<in> set pieces. utf8_valid delta \<and> length (nonce D 0) = NONCE_LEN"
  shows "partial_of P t room rid = Some (v @ concat (map snd pieces))"
  using assms by (rule streamed_text)


section \<open>Retention\<close>

lemma kept_bound:
  fixes key :: "'r \<Rightarrow> 'k"
  assumes "distinct (map key rows)"
  shows "cnt R (del (\<lambda>r. R r \<and> key r \<notin> set (map key (take n (newest_first order (filter R rows))))) rows) \<le> n"
    (is "cnt R ?rows \<le> n")
proof -
  let ?kept = "map key (take n (newest_first order (filter R rows)))"
  have d: "distinct (map key (filter R ?rows))"
    using assms by (simp add: distinct_map_filter distinct_map_del)
  have "set (map key (filter R ?rows)) \<subseteq> set ?kept" by (auto simp: set_del)
  then have "card (set (map key (filter R ?rows))) \<le> card (set ?kept)" by (rule card_mono [OF finite_set])
  also have "\<dots> \<le> length ?kept" by (rule card_length)
  also have "\<dots> \<le> n" by simp
  finally show ?thesis using distinct_card [OF d] by (simp add: cnt_def)
qed

lemma trim_room_bounds:
  assumes "distinct (map u_id (t_runs d))" "distinct (map m_id (t_messages d))"
  shows "cnt (\<lambda>u. u_room_id u = i) (t_runs (trim_room i d)) \<le> MAX_RETAINED_RUNS
    \<and> cnt (\<lambda>m. m_room_id m = i) (t_messages (trim_room i d)) \<le> MAX_HISTORY_MESSAGES"
  using kept_bound [OF assms(1), of "\<lambda>u. u_room_id u = i" MAX_RETAINED_RUNS run_order]
    kept_bound [OF assms(2), of "\<lambda>m. m_room_id m = i" MAX_HISTORY_MESSAGES message_order]
  by (simp add: trim_room_def trim_runs_run trim_messages_run)

text \<open>Splitting a successful \<open>finish_run\<close> into its commit and its snapshot.\<close>

lemma finish_run_Inr:
  assumes "finish_run P D room rid terminal s = (Inr snap, t)"
  obtains s1 where "finish_tx P D (rs_seal s) (trim room) rid terminal (rs_db s) = (Inr (), rs_db s1)"
    "s1 = s\<lparr>rs_db := rs_db s1\<rparr>" "required_snapshot P (trim room) s1 = (Inr snap, t)" "rs_db t = rs_db s1" "rs_seal t = rs_seal s"
    "validate_room_id room = Inr (trim room)"
proof -
  from assms obtain d where ok: "validate_room_id room = Inr (trim room)"
    and tx: "finish_tx P D (rs_seal s) (trim room) rid terminal (rs_db s) = (Inr (), d)"
    and snap: "required_snapshot P (trim room) (s\<lparr>rs_db := d\<rparr>) = (Inr snap, t)"
    by (auto simp: finish_run_def with_connection_eq validate_room_id_Inr bindS_eq_Inr elim!: valid_room_cases)
  have "rs_db t = d \<and> rs_seal t = rs_seal s" using readsD [OF reads_required_snapshot snap] by simp
  with that [of "s\<lparr>rs_db := d\<rparr>"] ok tx snap show thesis by simp
qed

text \<open>Ending an active run: the run row is settled, the room is no longer running, rows are trimmed.\<close>

lemma finish_tx_ends:
  assumes inv: "db_inv d" and tx: "finish_tx P D seal room rid terminal d = (Inr x, e)"
    and ends_ok: "is_terminal (rt_status terminal)"
    and u: "u \<in> set (t_runs d)" "u_id u = rid" "u_room_id u = room" "active u"
  obtains partial msg d1 where
    "sealing_open P seal (u_partial_text u) (ctx ''room_runs'' ''partial_text'' rid) = Inr partial"
    "(if rt_status terminal = RunCompleted \<and> partial \<noteq> []
        then add_reply P D seal room partial else retS ()) d = (Inr (), d1)"
    "e = finished P D room rid terminal msg d1"
    "db_inv d1" "t_runs d1 = t_runs d" "t_rooms d1 = t_rooms d"
  using tx
proof (cases rule: finish_tx_effect)
  case (noop v)
  with u unique_run [OF inv u(1) noop(1)] show thesis by metis
next
  case (ends v partial msg d1)
  have vu: "v = u" using unique_run [OF inv u(1) ends(1)] ends(2) u(2) by simp
  have "db_inv d1 \<and> t_runs d1 = t_runs d \<and> t_rooms d1 = t_rooms d"
  proof (cases "rt_status terminal = RunCompleted \<and> partial \<noteq> []")
    case True
    with ends(7) have "add_reply P D seal room partial d = (Inr (), d1)" by simp
    then show ?thesis
      by (rule add_reply_Inr) (use inv in \<open>auto simp: reply_row_def parse_message_role_def intro!: message_add_inv\<close>)
  next
    case False
    with ends(7) inv show ?thesis by simp
  qed
  with that ends vu show thesis by blast
qed

lemma finished_bounds:
  assumes "db_inv d"
  shows "cnt (\<lambda>u. u_room_id u = i) (t_runs (finished P D i rid terminal msg d)) \<le> MAX_RETAINED_RUNS
    \<and> cnt (\<lambda>m. m_room_id m = i) (t_messages (finished P D i rid terminal msg d)) \<le> MAX_HISTORY_MESSAGES"
proof -
  have "map u_id (upd Q (settled_run P D terminal msg) us) = map u_id us" for Q us
    by (intro map_upd) (simp add: settled_run_def)
  then show ?thesis unfolding finished_def
    using assms by (intro trim_room_bounds) (simp_all add: db_inv_def inv_keys_def)
qed

text \<open>
  Ending an active run trims its room: at most \<open>MAX_RETAINED_RUNS\<close> runs and
  \<open>MAX_HISTORY_MESSAGES\<close> messages of it are left, and no run of the room is active.
\<close>

theorem retention_after_finish:
  assumes "reachable P s" "aead_total P" "finish_run P D room rid terminal s = (Inr snap, t)"
    and "is_terminal (rt_status terminal)"
    and "u \<in> set (t_runs (rs_db s))" "u_id u = rid" "u_room_id u = trim room" "u_status u = ''running''"
  shows "cnt (\<lambda>u. u_room_id u = trim room) (t_runs (rs_db t)) \<le> MAX_RETAINED_RUNS
    \<and> cnt (\<lambda>m. m_room_id m = trim room) (t_messages (rs_db t)) \<le> MAX_HISTORY_MESSAGES
    \<and> active_runs (rs_db t) (trim room) = 0"
  using assms(3)
proof (rule finish_run_Inr)
  fix s1
  assume tx: "finish_tx P D (rs_seal s) (trim room) rid terminal (rs_db s) = (Inr (), rs_db s1)" and t: "rs_db t = rs_db s1"
  have inv: "db_inv (rs_db s)" by (rule reachable_inv [OF assms(1,2)])
  have act: "active u" using assms(8) by (simp add: active_def active_text_def)
  from inv tx assms(4,5,6,7) act show ?thesis
  proof (rule finish_tx_ends)
    fix partial msg d1
    assume e: "rs_db s1 = finished P D (trim room) rid terminal msg d1" and d1: "db_inv d1" "t_runs d1 = t_runs (rs_db s)"
    let ?Q = "\<lambda>v. u_id v = rid \<and> u_room_id v = trim room"
    have f: "run_frame (settled_run P D terminal msg)" "\<And>v. \<not> active (settled_run P D terminal msg v)"
      using assms(4) by (auto simp: run_frame_def settled_run_def is_terminal_def active_def active_text_def)
    have "cnt (\<lambda>v. u_room_id v = trim room \<and> active v) (upd ?Q (settled_run P D terminal msg) (t_runs d1)) = 0"
      using settled_count [where Q = ?Q and j = "trim room" and u = u, OF d1(1)] f assms(5-7) act d1(2) by simp
    then have "active_runs (rs_db s1) (trim room) = 0"
      by (auto simp: e finished_def trim_room_def trim_runs_run trim_messages_run active_runs_def cnt_0_iff set_del)
    with finished_bounds [OF d1(1)] t show ?thesis by (simp add: e)
  qed
qed

end
