(* ===== verification/Room_Replies.thy ===== *)
theory Room_Replies
  imports Room_Output
begin

text \<open>
  backend/src/store.rs, what a snapshot shows after a run completed: the reply is its last message.
\<close>

section \<open>What a snapshot shows\<close>

definition opened_of :: "('a \<Rightarrow> store_error + 'b) \<Rightarrow> 'a list \<Rightarrow> 'b list" where
  "opened_of f xs = concat (map (\<lambda>x. case f x of Inr y \<Rightarrow> [y] | Inl e \<Rightarrow> []) xs)"

lemma open_each_eq: "\<exists>n. open_each f xs s = (Inr (opened_of f xs), s\<lparr>rs_unreadable := n\<rparr>)"
proof (induction xs arbitrary: s)
  case Nil
  have "s = s\<lparr>rs_unreadable := rs_unreadable s\<rparr>" by simp
  then show ?case unfolding opened_of_def by (metis concat.simps(1) list.simps(8) open_each.simps(1) op_simps(1))
next
  case (Cons x xs)
  show ?case
  proof (cases "f x")
    case (Inl e)
    obtain n where "open_each f xs (s\<lparr>rs_unreadable := rs_unreadable s + 1\<rparr>) = (Inr (opened_of f xs), s\<lparr>rs_unreadable := n\<rparr>)"
      using Cons [of "s\<lparr>rs_unreadable := rs_unreadable s + 1\<rparr>"] by auto
    with Inl show ?thesis by (auto simp: skip_def opened_of_def)
  next
    case (Inr y)
    with Cons [of s] show ?thesis by (auto simp: opened_of_def)
  qed
qed

lemma newest_first_top:
  fixes key :: "'r \<Rightarrow> 'k::linorder"
  assumes "x \<in> set rows" "\<And>y. y \<in> set rows \<Longrightarrow> y \<noteq> x \<Longrightarrow> key y < key x"
  shows "\<exists>rest. newest_first key rows = x # rest"
proof (cases "newest_first key rows")
  case Nil
  then show ?thesis using assms(1) set_newest_first [of key rows] by auto
next
  case (Cons r rest)
  then have "r \<in> set rows" using set_newest_first [of key rows] by (metis list.set_intros(1))
  with newest_first_hd_greatest [OF Cons assms(1)] assms(2) [of r] Cons show ?thesis by force
qed

lemma recent_ends_with:
  assumes "m \<in> set (t_messages d)" "m_room_id m = i"
    and "\<And>x. x \<in> set (t_messages d) \<Longrightarrow> m_room_id x = i \<Longrightarrow> x \<noteq> m \<Longrightarrow> message_order x < message_order m"
  shows "\<exists>older. recent_messages d i = older @ [m]"
proof -
  obtain rest where "newest_first message_order (filter (\<lambda>m. m_room_id m = i) (t_messages d)) = m # rest"
    using newest_first_top [of m "filter (\<lambda>m. m_room_id m = i) (t_messages d)" message_order] assms by auto
  then show ?thesis by (simp add: recent_messages_def MAX_HISTORY_MESSAGES_def)
qed

text \<open>The newest message of the room survives trimming.\<close>

lemma trim_keeps_newest:
  assumes "m \<in> set (t_messages d)" "m_room_id m = i"
    and "\<And>x. x \<in> set (t_messages d) \<Longrightarrow> m_room_id x = i \<Longrightarrow> x \<noteq> m \<Longrightarrow> message_order x < message_order m"
  shows "m \<in> set (t_messages (trim_room i d))"
proof -
  obtain rest where "newest_first message_order (filter (\<lambda>m. m_room_id m = i) (t_messages d)) = m # rest"
    using newest_first_top [of m "filter (\<lambda>m. m_room_id m = i) (t_messages d)" message_order] assms by auto
  then show ?thesis using assms(1) by (simp add: trim_room_def trim_runs_run trim_messages_run set_del MAX_HISTORY_MESSAGES_def)
qed

lemma trim_messages_subset: "set (t_messages (trim_room i d)) \<subseteq> set (t_messages d)"
  by (auto simp: trim_room_def trim_runs_run trim_messages_run set_del)

lemma load_messages_last:
  assumes "load_messages P i s = (Inr ms, t)" "recent_messages (rs_db s) i = older @ [m]"
    and "row_to_message m = Inr x" "open_message P (rs_seal s) x = Inr y"
  shows "\<exists>before. ms = before @ [y]"
proof -
  from assms(1) obtain xs where xs: "map row_to_message (rev (recent_messages (rs_db s) i)) = map Inr xs"
    and op: "open_each (open_message P (rs_seal s)) (rev xs) s = (Inr ms, t)"
    unfolding load_messages_def bindS_eq_Inr liftE_def prod.inject collect_results_Inr by metis
  from xs assms(2,3) obtain ys where "xs = x # ys" by (cases xs) auto
  with op open_each_eq [of "open_message P (rs_seal s)" "rev xs" s] assms(4) show ?thesis
    by (auto simp: opened_of_def)
qed

lemma required_snapshot_Inr:
  assumes "required_snapshot P i s = (Inr snap, t)"
  obtains r u v w where "find (\<lambda>r. r_id r = trim i) (t_rooms (rs_db s)) = Some r"
    "load_messages P (trim i) s = (Inr (snap_messages snap), u)"
    "load_current_run P (trim i) u = (Inr (snap_current_run snap), v)"
    "load_participants P (trim i) v = (Inr (snap_participants snap), t)"
    "parse_room_status (r_status r) = Some (snap_status snap)" "snap_id snap = trim i" "snap_model_id snap = r_model_id r"
  using assms that
  by (auto simp: required_snapshot_def bindS_eq_Inr snapshot_def snapshot_from_connection_def validate_room_id_Inr
     elim!: valid_room_cases split: option.splits)

section \<open>The reply\<close>

lemma trim_room_messages: "t_messages (trim_room i d) = del (\<lambda>m. m_room_id m = i \<and> m_id m \<notin> set (map m_id
    (take MAX_HISTORY_MESSAGES (newest_first message_order (filter (\<lambda>m. m_room_id m = i) (t_messages d)))))) (t_messages d)"
  unfolding trim_room_def trim_runs_run trim_messages_run by simp

lemma finished_messages: "t_messages (finished P D i rid terminal msg d) = t_messages (trim_room i d)"
  unfolding finished_def trim_room_messages by simp

lemma reply_is_last:
  assumes "d1 = d\<lparr>t_messages := t_messages d @ [reply_row P D i cell]\<rparr>"
    and "\<forall>m\<in>set (t_messages d). m_room_id m = i \<longrightarrow> m_created_at m < now_text P D 0"
  shows "\<exists>older. recent_messages (finished P D i rid terminal msg d1) i = older @ [reply_row P D i cell]"
proof -
  let ?m = "reply_row P D i cell"
  have m: "?m \<in> set (t_messages d1)" "m_room_id ?m = i" by (simp_all add: assms(1) reply_row_def)
  have top: "message_order x < message_order ?m" if "x \<in> set (t_messages d1)" "m_room_id x = i" "x \<noteq> ?m" for x
    using that assms by (auto simp: message_order_def reply_row_def less_prod_def)
  have "?m \<in> set (t_messages (finished P D i rid terminal msg d1))"
    unfolding finished_messages by (rule trim_keeps_newest [OF m top])
  then show ?thesis
  proof (rule recent_ends_with [OF _ m(2)])
    fix x
    assume x: "x \<in> set (t_messages (finished P D i rid terminal msg d1))" "m_room_id x = i" "x \<noteq> ?m"
    then show "message_order x < message_order ?m"
      using trim_messages_subset [of i d1] unfolding finished_messages by (intro top) auto
  qed
qed

lemma finished_room:
  assumes "find (\<lambda>r. r_id r = i) (t_rooms (finished P D i rid terminal msg d)) = Some r" "rt_status terminal = RunCompleted"
  shows "r_status r \<in> {''idle'', ''closed''}"
proof -
  have r: "r \<in> set (t_rooms (finished P D i rid terminal msg d))" "r_id r = i" using find_SomeD [OF assms(1)] by auto
  have rooms: "t_rooms (finished P D i rid terminal msg d) =
      upd (\<lambda>r. r_id r = i) (settled_room ''idle'' (now_text P D 0)) (t_rooms d)"
    unfolding finished_def trim_room_def trim_runs_run trim_messages_run using assms(2) by simp
  from r(1) obtain r0 where "r = (if r_id r0 = i then settled_room ''idle'' (now_text P D 0) r0 else r0)"
    unfolding rooms set_upd by blast
  with r(2) show ?thesis by (auto simp: settled_room_def split: if_splits)
qed

lemma partial_of_run:
  assumes "partial_of P s room rid = Some v"
  obtains u where "u \<in> set (t_runs (rs_db s))" "u_id u = rid" "u_room_id u = room" "u_status u = ''running''" "active u"
    "sealing_open P (rs_seal s) (u_partial_text u) (ctx ''room_runs'' ''partial_text'' rid) = Inr v"
  using assms that find_SomeD
  by (auto simp: partial_of_def active_def active_text_def split: option.splits sum.splits dest!: find_SomeD)

lemma finish_delivers:
  assumes "aead_laws P" "aead_total P" "b64_laws P" "reachable P s"
    and "finish_run P D room rid terminal s = (Inr snap, t)" "rt_status terminal = RunCompleted"
    and "partial_of P s (trim room) rid = Some v" "v \<noteq> []" "utf8_valid v" "length (nonce D 0) = NONCE_LEN"
    and "\<forall>m\<in>set (t_messages (rs_db s)). m_room_id m = trim room \<longrightarrow> m_created_at m < now_text P D 0"
  shows "(\<exists>before m. snap_messages snap = before @ [m] \<and> msg_role m = Assistant \<and> msg_text m = v
      \<and> msg_participant_id m = None) \<and> snap_status snap \<in> {RoomIdle, RoomClosed}"
  using assms(5)
proof (rule finish_run_Inr)
  fix s1
  assume tx: "finish_tx P D (rs_seal s) (trim room) rid terminal (rs_db s) = (Inr (), rs_db s1)"
    and s1: "s1 = s\<lparr>rs_db := rs_db s1\<rparr>" and snap: "required_snapshot P (trim room) s1 = (Inr snap, t)"
  have inv: "db_inv (rs_db s)" by (rule reachable_inv [OF assms(4,2)])
  have ok: "is_terminal (rt_status terminal)" using assms(6) by (simp add: is_terminal_def)
  show ?thesis using assms(7)
  proof (rule partial_of_run)
    fix u
    assume u: "u \<in> set (t_runs (rs_db s))" "u_id u = rid" "u_room_id u = trim room" "active u"
      and v: "sealing_open P (rs_seal s) (u_partial_text u) (ctx ''room_runs'' ''partial_text'' rid) = Inr v"
    show ?thesis using inv tx ok u
    proof (rule finish_tx_ends)
      fix partial msg d1
      assume p: "sealing_open P (rs_seal s) (u_partial_text u) (ctx ''room_runs'' ''partial_text'' rid) = Inr partial"
        and r: "(if rt_status terminal = RunCompleted \<and> partial \<noteq> [] then add_reply P D (rs_seal s) (trim room) partial else retS ())
          (rs_db s) = (Inr (), d1)" and e: "rs_db s1 = finished P D (trim room) rid terminal msg d1"
      have "add_reply P D (rs_seal s) (trim room) v (rs_db s) = (Inr (), d1)" using r p v assms(6,8) by simp
      then obtain cell where
        cell: "sealing_seal P (rs_seal s) v (ctx ''room_messages'' ''text'' (opaque_id ''msg_'' (uuid D 0))) (nonce D 0) = Inr cell"
        and d1: "d1 = (rs_db s)\<lparr>t_messages := t_messages (rs_db s) @ [reply_row P D (trim room) cell]\<rparr>"
        by (rule add_reply_Inr)
      obtain older where last: "recent_messages (rs_db s1) (trim room) = older @ [reply_row P D (trim room) cell]"
        unfolding e using reply_is_last [OF d1 assms(11)] by blast
      let ?m = "\<lparr>msg_id = opaque_id ''msg_'' (uuid D 0), msg_role = Assistant, msg_text = cell,
        msg_participant_id = None, msg_created_at = now_text P D 0\<rparr>"
      have row: "row_to_message (reply_row P D (trim room) cell) = Inr ?m"
        by (simp add: row_to_message_def reply_row_def parse_message_role_def)
      have seal: "rs_seal s1 = rs_seal s" using s1 by (metis room_store.select_convs(2) room_store.update_convs(1) room_store.surjective)
      have opened: "open_message P (rs_seal s1) ?m = Inr (?m\<lparr>msg_text := v\<rparr>)"
        using sealing_round_trip [OF assms(1,3,9,10) cell] by (simp add: open_message_def seal)
      show ?thesis using snap
      proof (rule required_snapshot_Inr)
        fix r w x y
        assume room: "find (\<lambda>r. r_id r = trim (trim room)) (t_rooms (rs_db s1)) = Some r"
          and ms: "load_messages P (trim (trim room)) s1 = (Inr (snap_messages snap), w)"
          and st: "parse_room_status (r_status r) = Some (snap_status snap)"
        obtain before where "snap_messages snap = before @ [?m\<lparr>msg_text := v\<rparr>]"
          using load_messages_last [OF ms _ row opened] last by auto
        moreover have "snap_status snap \<in> {RoomIdle, RoomClosed}"
          using finished_room [of "trim room" P D rid terminal msg d1 r] room e assms(6) st by (auto simp: parse_room_status_def)
        ultimately show ?thesis by simp
      qed
    qed
  qed
qed


end
