(* ===== verification/Room_Sessions.thy ===== *)
theory Room_Sessions
  imports Room_Effects
begin

text \<open>
  Properties of invites and sessions of the Rooms store (backend/src/store.rs): what an exchange
  creates resolves until it expires or is cut off, and what closing, revoking and rotating end.
\<close>

section \<open>Sessions\<close>

lemma resolve_session_Some:
  assumes "resolve_session P D raw s = (Inr (Some sess), t)"
  obtains x p where "x \<in> set (t_sessions (rs_db s))" "p \<in> set (t_participants (rs_db s))" "p_id p = s_participant_id x"
    "s_digest x = digest P (trim raw)" "s_revoked_at x = None" "future_timestamp P (s_expires_at x) (clock D 0)"
    "sess_room_id sess = s_room_id x" "sess_participant_id sess = s_participant_id x" "t = s"
  using assms
  by (auto simp: resolve_session_def Let_def with_connection_eq stmt_simps join_participants_def
    split: if_splits option.splits sum.splits dest!: find_SomeD)

lemma exchange_invite_Inr:
  assumes "exchange_invite P D raw name s = (Inr sess, t)"
  obtains sealed i where "validate_display_name name = Inr (sess_display_name sess)"
    "sealing_seal P (rs_seal s) (sess_display_name sess)
       (ctx ''room_participants'' ''display_name'' (sess_participant_id sess)) (nonce D 0) = Inr sealed"
    "exchange_tx P D (digest P (trim raw)) (digest P (sess_secret sess)) (sess_participant_id sess) sealed (rs_db s)
       = (Inr (sess_room_id sess), rs_db t)"
    "t = s\<lparr>rs_db := rs_db t\<rparr>" "sess_secret sess = uuid D 0" "sess_role sess = Guest"
    "sess_participant_id sess = opaque_id ''member_'' (uuid D 1)"
  using assms
  by (auto simp: exchange_invite_def Let_def with_connection_eq stmt_simps opaque_secret_def
    split: sum.splits if_splits elim!: bindS_cases)

text \<open>The effect of the three methods that cut guests off, on sessions and invites.\<close>

definition no_session :: "string \<Rightarrow> db \<Rightarrow> bool" where
  "no_session room d \<longleftrightarrow> (\<forall>x\<in>set (t_sessions d). s_room_id x = room \<longrightarrow> s_revoked_at x \<noteq> None)"

definition no_invite :: "string \<Rightarrow> db \<Rightarrow> bool" where
  "no_invite room d \<longleftrightarrow> (\<forall>i\<in>set (t_invites d). i_room_id i = room \<longrightarrow> i_revoked_at i \<noteq> None)"

lemma no_session_resolve: "no_session room (rs_db s) \<Longrightarrow> resolve_session P D raw s = (Inr (Some sess), t)
    \<Longrightarrow> sess_room_id sess \<noteq> room"
  by (erule resolve_session_Some) (auto simp: no_session_def)

lemma no_invite_exchange:
  assumes "no_invite room (rs_db s)" "exchange_invite P D raw name s = (Inr sess, t)"
  shows "sess_room_id sess \<noteq> room"
  using assms(2)
proof (rule exchange_invite_Inr)
  fix sealed
  assume "exchange_tx P D (digest P (trim raw)) (digest P (sess_secret sess)) (sess_participant_id sess) sealed (rs_db s)
       = (Inr (sess_room_id sess), rs_db t)"
  then show ?thesis
    by (cases rule: exchange_tx_effect) (use assms(1) in \<open>auto simp: no_invite_def\<close>)
qed

lemma drop_guests_no_session: "no_session room (drop_guests room now d)"
  by (auto simp: no_session_def drop_guests_def set_del dest: unrevoked_cut)

lemma issue_no_session: "issue_invite P D i s = (Inr x, t) \<Longrightarrow> no_session (trim i) (rs_db t)"
  by (auto simp: issue_invite_def with_connection_eq stmt_simps validate_room_id_Inr drop_guests_no_session
    elim!: valid_room_cases bindS_cases dest!: issue_tx_effect)

lemma revoke_no_session:
  "revoke_invite P D i s = (Inr (), t) \<Longrightarrow> no_session (trim i) (rs_db t) \<and> no_invite (trim i) (rs_db t)"
proof -
  assume "revoke_invite P D i s = (Inr (), t)"
  then have "revoke_db P D (trim i) (rs_db s) = (Inr (), rs_db t)"
    by (auto simp: revoke_invite_def with_connection_eq validate_room_id_Inr elim!: valid_room_cases)
  then show ?thesis
    by (auto dest!: revoke_db_drop simp: drop_guests_no_session) (auto simp: no_invite_def drop_guests_def ball_upd)
qed

lemma close_no_session:
  "close_room P D i s = (Inr (), t) \<Longrightarrow> no_session (trim i) (rs_db t) \<and> no_invite (trim i) (rs_db t)"
proof -
  assume "close_room P D i s = (Inr (), t)"
  then have "close_db P D (trim i) (rs_db s) = (Inr (), rs_db t)"
    by (auto simp: close_room_def with_connection_eq validate_room_id_Inr elim!: valid_room_cases)
  from close_db_effect [OF this] show ?thesis
    by (auto simp: no_session_def no_invite_def ball_upd dest: unrevoked_cut)
qed

text \<open>
  Closing a room or revoking its invite cuts every guest off at once: no session secret
  resolves to the room any more and no invite secret exchanges for it.
\<close>

theorem guests_cut_off:
  assumes "close_room P D i s = (Inr (), t) \<or> revoke_invite P D i s = (Inr (), t)"
  shows "(\<forall>D' raw sess u. resolve_session P D' raw t = (Inr (Some sess), u) \<longrightarrow> sess_room_id sess \<noteq> trim i)
    \<and> (\<forall>D' raw name sess u. exchange_invite P D' raw name t = (Inr sess, u) \<longrightarrow> sess_room_id sess \<noteq> trim i)"
proof -
  have "no_session (trim i) (rs_db t) \<and> no_invite (trim i) (rs_db t)"
    using assms close_no_session revoke_no_session by blast
  then show ?thesis using no_session_resolve no_invite_exchange by metis
qed

lemma drop_guests_invites [simp]: "t_invites (drop_guests room now d) = t_invites d"
  by (simp add: drop_guests_def)


section \<open>An exchanged session resolves\<close>

lemma find_append_last: "(\<And>x. x \<in> set xs \<Longrightarrow> \<not> Q x) \<Longrightarrow> find Q (xs @ ys) = find Q ys"
  by (induction xs) auto

lemma join_append: "join_participants (ss @ [x]) ps =
    join_participants ss ps @ map (Pair x) (filter (\<lambda>p. p_id p = s_participant_id x) ps)"
  by (simp add: join_participants_def)

lemma exchange_resolve:
  assumes laws: "aead_laws P" "b64_laws P" "clock_laws P" and inv: "db_inv (rs_db s)"
    and ex: "exchange_invite P D raw name s = (Inr sess, t)"
    and draw: "length (nonce D 0) = NONCE_LEN" "raw_secret_ok (uuid D 0)" "trim (uuid D 0) = uuid D 0"
    and name: "utf8_valid (sess_display_name sess)"
    and time: "instant_ok (clock D 0 + SESSION_TTL_SECS * NANOS)" "clock D' 0 < clock D 0 + SESSION_TTL_SECS * NANOS"
  shows "resolve_session P D' (sess_secret sess) t = (Inr (Some sess), t)"
  using ex
proof (rule exchange_invite_Inr)
  fix sealed
  assume seal: "sealing_seal P (rs_seal s) (sess_display_name sess)
       (ctx ''room_participants'' ''display_name'' (sess_participant_id sess)) (nonce D 0) = Inr sealed"
    and tx: "exchange_tx P D (digest P (trim raw)) (digest P (sess_secret sess)) (sess_participant_id sess) sealed (rs_db s)
       = (Inr (sess_room_id sess), rs_db t)"
    and rest: "t = s\<lparr>rs_db := rs_db t\<rparr>" "sess_secret sess = uuid D 0" "sess_role sess = Guest"
  have opens: "sealing_open P (rs_seal s) sealed
       (ctx ''room_participants'' ''display_name'' (sess_participant_id sess)) = Inr (sess_display_name sess)"
    using seal seal_text_round_trip [OF laws(1,2) name draw(1)] by (simp add: sealing_seal_def sealing_open_def)
  have same: "rs_seal t = rs_seal s" using rest(1) by (metis room_store.select_convs(2) room_store.surjective room_store.update_convs(1))
  from tx show ?thesis
  proof (cases rule: exchange_tx_effect)
    case (2 i rm)
    let ?p = "new_participant_row P D (sess_participant_id sess) (i_room_id i) sealed ''guest''"
    let ?x = "\<lparr>s_digest = digest P (sess_secret sess), s_room_id = i_room_id i, s_participant_id = sess_participant_id sess,
      s_role = ''guest'', s_expires_at = text_in P (clock D 0) SESSION_TTL_SECS, s_revoked_at = None\<rparr>"
    have none: "filter (\<lambda>p. p_id p = sess_participant_id sess) (t_participants (rs_db s)) = []"
      using 2(10) unfolding filter_empty_conv by (metis image_eqI set_map)
    have old: "s_digest (fst q) \<noteq> digest P (sess_secret sess)" if "q \<in> set (join_participants (t_sessions (rs_db s)) ps)" for q ps
    proof -
      have "s_digest x \<noteq> digest P (sess_secret sess)" if "x \<in> set (t_sessions (rs_db s))" for x
        using 2(11) that by (metis image_eqI set_map)
      then show ?thesis using that by (auto simp: join_participants_def)
    qed
    have later: "find (\<lambda>(x, p). s_digest x = digest P (sess_secret sess))
        (join_participants (t_sessions (rs_db s)) ps @ ys) = find (\<lambda>(x, p). s_digest x = digest P (sess_secret sess)) ys" for ps ys
      by (rule find_append_last) (use old in force)
    have "find (\<lambda>(x, p). s_digest x = digest P (sess_secret sess))
        (join_participants (t_sessions (rs_db t)) (t_participants (rs_db t))) = Some (?x, ?p)"
      using none unfolding 2
      by (simp add: join_append later) (simp add: new_participant_row_def)
    moreover have "future_timestamp P (text_in P (clock D 0) SESSION_TTL_SECS) (clock D' 0)"
      using laws(3) time by (simp add: future_timestamp_def text_in_def)
    ultimately show ?thesis
      using draw rest 2(1) opens
      by (simp add: resolve_session_def Let_def with_connection_eq stmt_simps same new_participant_row_def)
  qed simp
qed

end
