(* ===== verification/Room_Contracts.thy ===== *)
theory Room_Contracts
  imports Room_Replies Room_Sessions Room_Effects
begin

text \<open>
  backend/src/store.rs as its callers rely on it: what every reachable store satisfies, that a call
  that is refused changes nothing, that recovery and snapshots always answer.
\<close>

section \<open>Every reachable store\<close>

text \<open>
  C1. Every store that calls and restarts can lead to satisfies the database invariant: keys are
  unique, rows refer to existing rooms and participants, enum columns parse, each room has one host
  and at most one active run, and exactly one when its status is running; closed rooms have only
  revoked invites and sessions; no two runs of a room share an idempotency key.
\<close>

theorem store_invariant:
  assumes "reachable P s" "aead_total P"
  shows "db_inv (rs_db s)"
  using assms by (rule reachable_inv)

text \<open>
  C5. As long as the clock never goes back, no room ever has more than \<open>MAX_PARTICIPANTS\<close> live
  participants (the host, and the guests with an unexpired session).
\<close>

theorem room_capacity:
  assumes "clocked P now s" "aead_total P" "now \<le> t"
  shows "length (live_participants P t room (rs_db s)) \<le> MAX_PARTICIPANTS"
  using clocked_capacity [OF assms] by (simp add: live_count_def)

text \<open>
  A guest who exchanges an invite can use the session at once and until it expires: its secret
  resolves to exactly the session the exchange returned.
\<close>

theorem exchanged_session_resolves:
  assumes "aead_laws P" "b64_laws P" "clock_laws P" "aead_total P" "reachable P s"
    and "exchange_invite P D raw name s = (Inr sess, t)"
    and "length (nonce D 0) = NONCE_LEN" "raw_secret_ok (uuid D 0)" "trim (uuid D 0) = uuid D 0"
    and "utf8_valid (sess_display_name sess)"
    and "instant_ok (clock D 0 + SESSION_TTL_SECS * NANOS)" "clock D' 0 < clock D 0 + SESSION_TTL_SECS * NANOS"
  shows "resolve_session P D' (sess_secret sess) t = (Inr (Some sess), t)"
  using exchange_resolve [OF assms(1-3) reachable_inv [OF assms(5,4)] assms(6-12)] .

section \<open>Refused calls\<close>

definition db_untouched :: "'a dbop \<Rightarrow> bool" where
  "db_untouched m \<longleftrightarrow> (\<forall>d e u. m d = (Inl e, u) \<longrightarrow> u = d)"

definition untouched :: "'a storeop \<Rightarrow> bool" where
  "untouched m \<longleftrightarrow> (\<forall>s e t. m s = (Inl e, t) \<longrightarrow> t = s)"

lemma untouched_connection [intro]: "db_untouched f \<Longrightarrow> untouched (with_connection f)"
  unfolding untouched_def db_untouched_def with_connection_def by (auto split: prod.splits)

lemma untouched_seal [intro]: "(\<And>x. untouched (f x)) \<Longrightarrow> untouched (with_seal f)"
  by (auto simp: untouched_def)

lemma untouched_liftE [intro]: "(\<And>x. untouched (k x)) \<Longrightarrow> untouched (bindS (liftE m) k)"
  by (auto simp: untouched_def bindS_liftE split: sum.splits)

lemma untouched_guard [intro]: "(\<And>x. untouched (k x)) \<Longrightarrow> untouched (bindS (guardS e b) k)"
  by (auto simp: untouched_def guardS_def bindS_def)

lemma untouched_then [intro]: "untouched m \<Longrightarrow> (\<And>x s. fst (f x s) \<in> range Inr) \<Longrightarrow> untouched (bindS m f)"
  unfolding untouched_def by (metis bindS_cases fst_conv rangeE sum.distinct(1) sum.inject(1))

lemma untouched_valid_room [intro]: "(\<And>j. untouched (k j)) \<Longrightarrow> untouched (valid_room i k)"
  unfolding valid_room_def by (rule untouched_liftE)

lemma untouched_atomically [intro]: "db_untouched (atomically f)"
  by (auto simp: db_untouched_def dest: atomically_Inl)

lemma untouched_dbs [intro]:
  "db_untouched (close_db P D i)" "db_untouched (revoke_db P D i)" "db_untouched (stop_db P D i rid message)"
  "db_untouched (append_delta_db P D seal i rid delta)" "db_untouched (issue_tx P D i)"
  "db_untouched (exchange_tx P D a b c n)" "db_untouched (append_user_turn_tx P D seal session body key)"
proof -
  show "db_untouched (issue_tx P D i)" "db_untouched (exchange_tx P D a b c n)"
      "db_untouched (append_user_turn_tx P D seal session body key)"
    unfolding issue_tx_def exchange_tx_def append_user_turn_tx_def by (rule untouched_atomically)+
qed (auto simp: db_untouched_def close_db_def revoke_db_def stop_db_def append_delta_db_def
    revoke_sessions_def stmt_simps Let_def upd_none split: sum.splits if_splits option.splits)

lemma untouched_calls:
  "untouched (commit_user_turn P D session input)" "untouched (exchange_invite P D raw name)"
  "untouched (issue_invite P D i)" "untouched (close_room P D i)" "untouched (revoke_invite P D i)"
  "untouched (append_delta P D i rid delta)" "untouched (stop_run P D i rid)"
  unfolding commit_user_turn_def exchange_invite_def issue_invite_def close_room_def revoke_invite_def
    append_delta_def stop_run_def Let_def
  by (intro untouched_liftE untouched_guard untouched_seal untouched_valid_room untouched_then
    untouched_connection untouched_dbs; simp)+


section \<open>Recovery\<close>

text \<open>
  C4. Recovery after a restart always succeeds, sealed store or not, read-only or not: it reports how
  many runs were active, leaves none active and no room running, and keeps every message.
\<close>

theorem recovery_settles_every_run:
  assumes "reachable P s" "aead_total P"
  shows "\<exists>t. recover_running P D s = (Inr (cnt active (t_runs (rs_db s))), t)
    \<and> (\<forall>u\<in>set (t_runs (rs_db t)). u_status u \<noteq> ''running'' \<and> u_status u \<noteq> ''queued'')
    \<and> (\<forall>r\<in>set (t_rooms (rs_db t)). r_status r \<noteq> ''running'')
    \<and> t_messages (rs_db t) = t_messages (rs_db s)"
proof -
  have inv: "db_inv (rs_db s)" by (rule reachable_inv [OF assms])
  obtain k e where rec: "recover_db P D (rs_seal s) (rs_db s) = (Inr k, e)" using recover_db_total [OF assms(2)] by blast
  from recover_db_inv [OF rec inv] have e: "db_inv e" "\<forall>u\<in>set (t_runs e). \<not> active u"
    "k = cnt active (t_runs (rs_db s))" "t_messages e = t_messages (rs_db s)" by auto
  have "r_status r \<noteq> ''running''" if "r \<in> set (t_rooms e)" for r
  proof
    assume "r_status r = ''running''"
    then have "active_runs e (r_id r) = 1" using e(1) that by (auto simp: db_inv_def inv_runs_def)
    moreover have "active_runs e (r_id r) = 0" using e(2) by (auto simp: active_runs_def cnt_0_iff)
    ultimately show False by simp
  qed
  then show ?thesis using rec e by (auto simp: recover_running_def with_connection_eq active_def active_text_def)
qed

section \<open>Snapshots always answer\<close>

lemma collect_parsed:
  assumes "\<And>x. x \<in> set xs \<Longrightarrow> \<exists>y. f x = Inr y"
  obtains ys where "collect_results (map f xs) = Inr ys" "length ys = length xs"
proof -
  from assms have "\<exists>ys. collect_results (map f xs) = Inr ys \<and> length ys = length xs" by (induction xs) force+
  then show thesis using that by blast
qed

lemma opened_length: "length (opened_of f xs) \<le> length xs"
  by (induction xs) (auto simp: opened_of_def split: sum.split)

lemma load_messages_total:
  assumes "db_inv (rs_db s)"
  shows "\<exists>ms n. load_messages P i s = (Inr ms, s\<lparr>rs_unreadable := n\<rparr>) \<and> length ms \<le> MAX_HISTORY_MESSAGES"
proof -
  have "\<exists>y. row_to_message x = Inr y" if "x \<in> set (rev (recent_messages (rs_db s) i))" for x
  proof -
    have "x \<in> set (t_messages (rs_db s))" using that by (auto simp: recent_messages_def dest!: in_set_takeD)
    then show ?thesis using assms by (auto simp: db_inv_def inv_enums_def row_to_message_def)
  qed
  then obtain ms where ms: "collect_results (map row_to_message (rev (recent_messages (rs_db s) i))) = Inr ms"
    "length ms = length (rev (recent_messages (rs_db s) i))" by (rule collect_parsed)
  have "length ms \<le> MAX_HISTORY_MESSAGES" unfolding ms(2) by (simp add: recent_messages_def)
  moreover have "length (opened_of (open_message P (rs_seal s)) (rev ms)) \<le> length (rev ms)" by (rule opened_length)
  ultimately show ?thesis
    using ms(1) open_each_eq [of "open_message P (rs_seal s)" "rev ms" s]
    by (auto simp: load_messages_def bindS_liftE)
qed

lemma load_participants_total:
  assumes "db_inv (rs_db s)"
  shows "\<exists>ps n. load_participants P i s = (Inr ps, s\<lparr>rs_unreadable := n\<rparr>)"
proof -
  have "\<exists>y. row_to_participant x = Inr y" if "x \<in> set (room_participants (rs_db s) i)" for x
  proof -
    have "x \<in> set (t_participants (rs_db s))" using that by (auto simp: room_participants_def)
    then show ?thesis using assms by (auto simp: db_inv_def inv_enums_def row_to_participant_def parse_participant_role_def)
  qed
  then obtain ps where "collect_results (map row_to_participant (room_participants (rs_db s) i)) = Inr ps" by (rule collect_parsed)
  then show ?thesis using open_each_eq [of "open_participant P (rs_seal s)" ps s]
    by (auto simp: load_participants_def bindS_liftE)
qed

lemma load_current_run_total:
  assumes "db_inv (rs_db s)"
  shows "\<exists>run n. load_current_run P i s = (Inr run, s\<lparr>rs_unreadable := n\<rparr>)"
proof (cases "current_run_row (rs_db s) i")
  case None
  have "s = s\<lparr>rs_unreadable := rs_unreadable s\<rparr>" by simp
  with None show ?thesis unfolding load_current_run_def by (metis op_simps(1) option.simps(4))
next
  case (Some u)
  then have "u \<in> set (newest_first run_order (filter (\<lambda>u. u_room_id u = i \<and> shown_status (u_status u)) (t_runs (rs_db s))))"
    unfolding current_run_row_def by (cases "newest_first run_order (filter (\<lambda>u. u_room_id u = i \<and> shown_status (u_status u)) (t_runs (rs_db s)))")
      (simp, metis list.simps(5) list.set_intros(1) option.inject)
  then have "parse_run_status (u_status u) \<noteq> None" using assms by (auto simp: db_inv_def inv_enums_def)
  then obtain run where "row_to_run u = Inr run" by (auto simp: row_to_run_def)
  moreover have "\<exists>r n. open_run_or_blank P run s = (Inr r, s\<lparr>rs_unreadable := n\<rparr>)"
    by (cases "open_run P (rs_seal s) run") (auto simp: open_run_or_blank_def skip_def intro: exI [of _ "rs_unreadable s"])
  ultimately show ?thesis using Some by (auto simp: load_current_run_def bindS_liftE)
qed

lemma snapshot_total:
  assumes inv: "db_inv (rs_db s)" and i: "validate_room_id i = Inr j" and ex: "room_exists (rs_db s) j"
  shows "\<exists>snap n. required_snapshot P i s = (Inr snap, s\<lparr>rs_unreadable := n\<rparr>)
    \<and> snap_id snap = j \<and> length (snap_messages snap) \<le> MAX_HISTORY_MESSAGES"
proof -
  obtain ms n where ms: "load_messages P j s = (Inr ms, s\<lparr>rs_unreadable := n\<rparr>)" "length ms \<le> MAX_HISTORY_MESSAGES"
    using load_messages_total [OF inv] by blast
  obtain run n' where run: "load_current_run P j (s\<lparr>rs_unreadable := n\<rparr>) = (Inr run, s\<lparr>rs_unreadable := n'\<rparr>)"
    using load_current_run_total [of "s\<lparr>rs_unreadable := n\<rparr>" P j] inv by auto
  obtain ps n'' where ps: "load_participants P j (s\<lparr>rs_unreadable := n'\<rparr>) = (Inr ps, s\<lparr>rs_unreadable := n''\<rparr>)"
    using load_participants_total [of "s\<lparr>rs_unreadable := n'\<rparr>" P j] inv by auto
  obtain r where r: "find (\<lambda>r. r_id r = j) (t_rooms (rs_db s)) = Some r"
    using ex by (cases "find (\<lambda>r. r_id r = j) (t_rooms (rs_db s))") (auto simp: room_exists_def find_None_iff)
  then obtain st where "parse_room_status (r_status r) = Some st"
    using inv find_SomeD [OF r] by (auto simp: db_inv_def inv_enums_def)
  with ms run ps r show ?thesis
    by (simp add: required_snapshot_def snapshot_def valid_room_def i bindS_liftE snapshot_from_connection_def) blast
qed

text \<open>
  C9. The snapshot of an existing room always answers, however many of its cells are corrupt or
  unreadable: it shows at most \<open>MAX_HISTORY_MESSAGES\<close> messages, and the tables are left as they are.
\<close>

theorem snapshots_always_answer:
  assumes "reachable P s" "aead_total P" "validate_room_id i = Inr j" "room_exists (rs_db s) j"
  shows "\<exists>snap n. required_snapshot P i s = (Inr snap, s\<lparr>rs_unreadable := n\<rparr>)
    \<and> snap_id snap = j \<and> length (snap_messages snap) \<le> MAX_HISTORY_MESSAGES"
  using snapshot_total [OF reachable_inv [OF assms(1,2)] assms(3,4)] .

end
