(* ===== verification/Room_Live.thy ===== *)
theory Room_Live
  imports Room_Contracts
begin

text \<open>
  backend/src/store.rs, that its calls succeed: on a writable store a delta within the caps is
  appended to a running run, and a run whose text is readable is completed. The callers' theorems
  rest on these, so that none of them is only about a call that happened to succeed.
\<close>

lemma length_scalars: "length s \<le> 4 * length (scalars s)"
proof (induction s rule: scalars.induct)
  case 1
  then show ?case by simp
next
  case (2 c cs)
  have "trailing c \<le> 3" by (simp add: trailing_def Let_def)
  with 2 show ?case by simp
qed

lemma capped_bytes: "length (chars v) \<le> MAX_MESSAGE_CHARS \<Longrightarrow> length v < 2 ^ 38 - 64"
  using length_scalars [of v] by (simp add: chars_def MAX_MESSAGE_CHARS_def)

lemma message_seals:
  assumes "aead_total P" "length v < 2 ^ 38 - 64" "ensure_writable seal = Inr ()"
  shows "\<exists>c. sealing_seal P seal v c0 n = Inr c"
proof (cases seal)
  case (Sealing c)
  have "length (as_bytes v) < 2 ^ 38 - 64" using assms(2) by simp
  then obtain ct where "aead_encrypt P (ck_key (cc_current c)) n (as_bytes v) (cipher_aad c c0) = Some ct"
    using assms(1) unfolding aead_total_def by blast
  with Sealing show ?thesis by (simp add: sealing_seal_def seal_text_with_nonce_def)
qed (use assms in \<open>auto simp: sealing_seal_def\<close>)

lemma append_delta_succeeds:
  assumes "reachable P s" "aead_total P" "ensure_writable (rs_seal s) = Inr ()"
    and "partial_of P s room rid = Some v" "validate_delta delta = Inr delta"
    and "length (chars (v @ delta)) \<le> MAX_MESSAGE_CHARS"
  shows "\<exists>t. append_delta P D room rid delta s = (Inr (), t)"
proof -
  obtain u where u: "u \<in> set (t_runs (rs_db s))" "u_id u = rid" "u_room_id u = room" "u_status u = ''running''"
    and v: "sealing_open P (rs_seal s) (u_partial_text u) (ctx ''room_runs'' ''partial_text'' rid) = Inr v"
    using assms(4) by (rule partial_of_run)
  have f: "find (\<lambda>u. u_id u = rid \<and> u_room_id u = room \<and> u_status u = ''running'') (t_runs (rs_db s)) = Some u"
    using find_unique_run [OF reachable_inv [OF assms(1,2)] u(1,2), of "\<lambda>u. u_room_id u = room \<and> u_status u = ''running''"] u
    by simp
  obtain cell where cell: "sealing_seal P (rs_seal s) (v @ delta) (ctx ''room_runs'' ''partial_text'' rid) (nonce D 0) = Inr cell"
    using message_seals [OF assms(2) capped_bytes [OF assms(6)] assms(3)] by blast
  from f v cell assms(5,6) show ?thesis
    by (simp add: append_delta_def append_delta_db_def stmt_simps Let_def with_connection_eq)
qed

lemma append_delta_reachable:
  "reachable P s \<Longrightarrow> append_delta P D room rid delta s = (r, t) \<Longrightarrow> reachable P t"
  by (rule reachable.step [OF _ step_delta])

lemma append_delta_seal: "append_delta P D room rid delta s = (Inr (), t) \<Longrightarrow> rs_seal t = rs_seal s"
  by (erule append_delta_Inr) simp

lemma append_delta_partial:
  assumes "aead_laws P" "b64_laws P" "reachable P s" "aead_total P" "append_delta P D room rid delta s = (Inr (), t)"
    and "partial_of P s room rid = Some v" "utf8_valid v" "utf8_valid delta" "length (nonce D 0) = NONCE_LEN"
  shows "partial_of P t room rid = Some (v @ delta)"
  using streamed_text [OF assms(1-4), of room rid "[(D, delta)]" t v] assms(5-9) by simp

text \<open>Completing a run: nothing in the way of it but a colliding message id.\<close>

lemma finish_completes:
  assumes "reachable P s" "aead_total P" "ensure_writable (rs_seal s) = Inr ()"
    and "validate_room_id room = Inr room" "partial_of P s room rid = Some v" "length (chars v) \<le> MAX_MESSAGE_CHARS"
    and "opaque_id ''msg_'' (uuid D 0) \<notin> set (map m_id (t_messages (rs_db s)))"
    and "rt_status terminal = RunCompleted" "rt_error_message terminal = None"
  shows "\<exists>snap t. finish_run P D room rid terminal s = (Inr snap, t)"
proof -
  have inv: "db_inv (rs_db s)" by (rule reachable_inv [OF assms(1,2)])
  obtain u where u: "u \<in> set (t_runs (rs_db s))" "u_id u = rid" "u_room_id u = room" "active u"
    and v: "sealing_open P (rs_seal s) (u_partial_text u) (ctx ''room_runs'' ''partial_text'' rid) = Inr v"
    using assms(5) by (rule partial_of_run)
  have f: "find (\<lambda>u. u_id u = rid \<and> u_room_id u = room) (t_runs (rs_db s)) = Some u"
    using find_unique_run [OF inv u(1,2), of "\<lambda>u. u_room_id u = room"] u by simp
  obtain cell where cell: "sealing_seal P (rs_seal s) v (ctx ''room_messages'' ''text'' (opaque_id ''msg_'' (uuid D 0))) (nonce D 0) = Inr cell"
    using message_seals [OF assms(2) capped_bytes [OF assms(6)] assms(3)] by blast
  have ex: "room_exists (rs_db s) room" using inv u(1,3) by (auto simp: db_inv_def inv_refs_def)
  let ?reply = "if v \<noteq> [] then add_reply P D (rs_seal s) room v else retS ()"
  have "\<exists>d1. ?reply (rs_db s) = (Inr (), d1)"
    using cell assms(7) ex by (cases "v = []") (simp_all add: add_reply_def Let_def stmt_simps insert_message_def insert_when_def)
  then obtain d1 where reply: "?reply (rs_db s) = (Inr (), d1)" by blast
  have rooms: "t_rooms d1 = t_rooms (rs_db s)"
  proof (cases "v = []")
    case True
    with reply show ?thesis by simp
  next
    case False
    with reply add_reply_frame [of P D "rs_seal s" room v "rs_db s" "Inr ()" d1] show ?thesis by simp
  qed
  have "\<exists>e. finish_tx P D (rs_seal s) room rid terminal (rs_db s) = (Inr (), e) \<and> t_rooms e = upd (\<lambda>r. r_id r = room)
      (settled_room ''idle'' (now_text P D 0)) (t_rooms (rs_db s))"
    using f u(4) v reply assms(8,9) rooms
    by (simp add: finish_tx_def atomically_def stmt_simps settle_run_def Let_def sealing_seal_opt_def seal_opt_def
      trim_runs_run trim_messages_run settled_room_def [abs_def])
  then obtain e where tx: "finish_tx P D (rs_seal s) room rid terminal (rs_db s) = (Inr (), e)"
    and e: "t_rooms e = upd (\<lambda>r. r_id r = room) (settled_room ''idle'' (now_text P D 0)) (t_rooms (rs_db s))" by blast
  have "db_inv e" using keepsD [OF finish_tx_keeps inv tx] assms(8) by (simp add: is_terminal_def)
  moreover have "room_exists e room" using ex by (simp add: room_exists_def e map_upd settled_room_def)
  ultimately obtain snap n where "required_snapshot P room (s\<lparr>rs_db := e\<rparr>) = (Inr snap, s\<lparr>rs_db := e, rs_unreadable := n\<rparr>)"
    using snapshot_total [of "s\<lparr>rs_db := e\<rparr>" room room P] assms(4) by auto
  then show ?thesis using tx assms(4)
    by (simp add: finish_run_def valid_room_def bindS_liftE with_connection_eq)
qed

end
