(* ===== verification/Room_Runtime.thy ===== *)
theory Room_Runtime
  imports Model_Stream Room_Live
begin

text \<open>
  backend/src/inference.rs: the runtime that runs one generation per room against the model stream,
  writes its output to the store and publishes named events. The state is the store, the map of
  active runs, the spawned tasks (\<open>tokio::spawn\<close>) and the events published so far, in order. A task's
  cancel channel is its \<open>gen_cancel\<close> flag: the sender is held by the active run, the receiver by the
  task. A request handler runs as one step; a task runs one step per stream item, and removing its
  active run after it returned is a step of its own, so that handlers interleave with it.
\<close>

section \<open>Events\<close>

datatype event_data =
    TurnAccepted room_run room_message room_snapshot
  | TurnCanceled string room_snapshot
  | RoomClosedData room_snapshot
  | TurnDelta string string string string
  | TurnCompleted string string room_snapshot
  | TurnFailed string string string room_snapshot

record room_event =
  ev_name :: string
  ev_data :: event_data

section \<open>State\<close>

record active_run =
  ar_run_id :: string
  ar_task :: nat

text \<open>A task connects to the stream, consumes its items, returns, and then removes its active run.\<close>

datatype phase = Connecting | Streaming | Returned | Gone

record generation =
  gen_room :: string
  gen_run :: string
  gen_request_id :: string
  gen_request :: model_stream_request
  gen_partial :: string
  gen_cancel :: bool
  gen_items :: "stream_item list"
  gen_phase :: phase

record room_runtime =
  rr_store :: room_store
  rr_active :: "string \<rightharpoonup> active_run"
  rr_tasks :: "generation list"
  rr_published :: "(string \<times> room_event) list"

type_synonym 'a rtop = "(room_runtime, store_error, 'a) op"

definition on_store :: "'a storeop \<Rightarrow> 'a rtop" where
  "on_store m s = (case m (rr_store s) of (r, t) \<Rightarrow> (r, s\<lparr>rr_store := t\<rparr>))"

text \<open>The outcome of a call as a value, for the callers that match on it.\<close>

definition attempt :: "('s, 'e, 'a) op \<Rightarrow> ('s, 'e, 'e + 'a) op" where
  "attempt m s = (case m s of (r, t) \<Rightarrow> (Inr r, t))"

definition publish :: "string \<Rightarrow> string \<Rightarrow> event_data \<Rightarrow> unit rtop" where
  "publish room name data = modifyS (\<lambda>s. s\<lparr>rr_published :=
     rr_published s @ [(room, \<lparr>ev_name = name, ev_data = data\<rparr>)]\<rparr>)"

definition remove_active :: "string \<Rightarrow> string \<Rightarrow> unit rtop" where
  "remove_active room rid = modifyS (\<lambda>s.
     case rr_active s room of
       Some a \<Rightarrow> if ar_run_id a = rid then s\<lparr>rr_active := (rr_active s)(room := None)\<rparr> else s
     | None \<Rightarrow> s)"

definition remove_active_for_room :: "string \<Rightarrow> unit rtop" where
  "remove_active_for_room room = modifyS (\<lambda>s. s\<lparr>rr_active := (rr_active s)(room := None)\<rparr>)"

section \<open>Starting a generation\<close>

definition MODEL_MAX_TOKENS :: nat where "MODEL_MAX_TOKENS = 2048"

text \<open>The \<open>f32\<close> nearest to 0.2.\<close>

definition MODEL_TEMPERATURE :: rat where "MODEL_TEMPERATURE = 13421773 / 67108864"

definition generation_request :: "accepted_run \<Rightarrow> model_stream_request" where
  "generation_request accepted =
     \<lparr>mr_messages = map (\<lambda>m. \<lparr>mm_content = msg_text m,
        mm_role = (case msg_role m of User \<Rightarrow> ''user'' | Assistant \<Rightarrow> ''assistant'')\<rparr>)
        (snap_messages (acc_snapshot accepted)),
      mr_model = snap_model_id (acc_snapshot accepted), mr_provider = Some ''local'',
      mr_request_id = run_request_id (acc_run accepted), mr_max_tokens = Some MODEL_MAX_TOKENS,
      mr_temperature = Some (Some MODEL_TEMPERATURE)\<rparr>"

definition new_generation :: "accepted_run \<Rightarrow> generation" where
  "new_generation accepted =
     \<lparr>gen_room = snap_id (acc_snapshot accepted), gen_run = run_run_id (acc_run accepted),
      gen_request_id = run_request_id (acc_run accepted), gen_request = generation_request accepted,
      gen_partial = [], gen_cancel = False, gen_items = [], gen_phase = Connecting\<rparr>"

definition start_run :: "accepted_run \<Rightarrow> unit rtop" where
  "start_run accepted = modifyS (\<lambda>s.
     let room = snap_id (acc_snapshot accepted) in
     if rr_active s room \<noteq> None then s
     else s\<lparr>rr_active := (rr_active s)(room \<mapsto>
              \<lparr>ar_run_id = run_run_id (acc_run accepted), ar_task = length (rr_tasks s)\<rparr>),
            rr_tasks := rr_tasks s @ [new_generation accepted]\<rparr>)"

section \<open>Handlers\<close>

definition submit_turn :: "platform \<Rightarrow> draws \<Rightarrow> room_session \<Rightarrow> submit_turn_input \<Rightarrow> accepted_run rtop" where
  "submit_turn P D session input =
     bindS (on_store (append_user_turn P D session input)) (\<lambda>accepted.
     bindS (publish (snap_id (acc_snapshot accepted)) ''turn.accepted''
       (TurnAccepted (acc_run accepted) (acc_user_message accepted) (acc_snapshot accepted))) (\<lambda>_.
     bindS (if run_status (acc_run accepted) = RunRunning then start_run accepted else retS ()) (\<lambda>_.
     retS accepted)))"

definition signal_cancel :: "string \<Rightarrow> string \<Rightarrow> unit rtop" where
  "signal_cancel room rid = modifyS (\<lambda>s.
     case rr_active s room of
       Some a \<Rightarrow> if ar_run_id a = rid
         then s\<lparr>rr_tasks := (rr_tasks s)[ar_task a := (rr_tasks s ! ar_task a)\<lparr>gen_cancel := True\<rparr>]\<rparr> else s
     | None \<Rightarrow> s)"

definition runtime_stop_run :: "platform \<Rightarrow> draws \<Rightarrow> string \<Rightarrow> string \<Rightarrow> room_snapshot rtop" where
  "runtime_stop_run P D room rid =
     bindS (signal_cancel room rid) (\<lambda>_.
     bindS (on_store (stop_run P D room rid)) (\<lambda>_.
     bindS (remove_active room rid) (\<lambda>_.
     bindS (on_store (required_snapshot P room)) (\<lambda>snap.
     bindS (publish room ''turn.canceled'' (TurnCanceled rid snap)) (\<lambda>_.
     retS snap)))))"

text \<open>The draws of the inner stop and of the close itself are separate.\<close>

definition runtime_close_room :: "platform \<Rightarrow> draws \<Rightarrow> draws \<Rightarrow> string \<Rightarrow> room_snapshot rtop" where
  "runtime_close_room P D1 D2 room =
     bindS (on_store (required_snapshot P room)) (\<lambda>current.
     bindS (case snap_current_run current of
         Some run \<Rightarrow> if run_status run \<in> {RunQueued, RunRunning}
           then bindS (attempt (runtime_stop_run P D1 room (run_run_id run))) (\<lambda>_. retS ()) else retS ()
       | None \<Rightarrow> retS ()) (\<lambda>_.
     bindS (on_store (close_room P D2 room)) (\<lambda>_.
     bindS (remove_active_for_room room) (\<lambda>_.
     bindS (on_store (required_snapshot P room)) (\<lambda>snap.
     bindS (publish room ''room.closed'' (RoomClosedData snap)) (\<lambda>_.
     retS snap))))))"

section \<open>A generation\<close>

fun model_error_code :: "model_stream_error \<Rightarrow> string" where
  "model_error_code NotHosted = ''modelHostUnavailable''"
| "model_error_code (InvalidRequest m) = ''modelRequestRejected''"
| "model_error_code (Transport m) = ''modelTransport''"
| "model_error_code (Rejected st c) = ''modelRejected''"
| "model_error_code (Protocol m) = ''modelProtocol''"

definition completed_terminal :: run_terminal where
  "completed_terminal = \<lparr>rt_status = RunCompleted, rt_error_code = None, rt_error_message = None\<rparr>"

definition failed_terminal :: "string \<Rightarrow> run_terminal" where
  "failed_terminal code = \<lparr>rt_status = RunFailed, rt_error_code = Some code,
     rt_error_message = Some ''the local model could not complete this turn''\<rparr>"

definition fail_generation :: "platform \<Rightarrow> draws \<Rightarrow> generation \<Rightarrow> string \<Rightarrow> unit rtop" where
  "fail_generation P D g code =
     bindS (attempt (on_store (finish_run P D (gen_room g) (gen_run g) (failed_terminal code)))) (\<lambda>r.
     case r of
       Inl e \<Rightarrow> retS ()
     | Inr snap \<Rightarrow> publish (gen_room g) ''turn.failed''
         (TurnFailed (gen_run g) (gen_request_id g) code snap))"

text \<open>A task that returns: its record with the phase set; \<open>fail_with\<close> fails the run first.\<close>

definition returned :: "generation \<Rightarrow> generation" where
  "returned g = g\<lparr>gen_phase := Returned\<rparr>"

definition fail_with :: "platform \<Rightarrow> draws \<Rightarrow> generation \<Rightarrow> string \<Rightarrow> generation rtop" where
  "fail_with P D g code = bindS (fail_generation P D g code) (\<lambda>_. retS (returned g))"

text \<open>\<open>self.model.stream(request)\<close>: the request is validated and sent; the items of the response.\<close>

definition connect ::
  "platform \<Rightarrow> draws \<Rightarrow> (model_stream_request \<Rightarrow> model_stream_error + stream_item list) \<Rightarrow>
   generation \<Rightarrow> generation rtop" where
  "connect P D model g =
     (case model (gen_request g) of
        Inl e \<Rightarrow> fail_with P D g (model_error_code e)
      | Inr items \<Rightarrow> retS (g\<lparr>gen_items := items, gen_phase := Streaming\<rparr>))"

text \<open>One event of the stream; the second draws are those of a failure after the first call.\<close>

fun handle_event ::
  "platform \<Rightarrow> draws \<Rightarrow> draws \<Rightarrow> generation \<Rightarrow> model_stream_event \<Rightarrow> generation rtop" where
  "handle_event P D1 D2 g (TextDelta rid delta) =
     (if rid \<noteq> gen_request_id g then fail_with P D2 g ''modelProtocol''
      else if delta = [] then retS g
      else let g' = g\<lparr>gen_partial := gen_partial g @ delta\<rparr> in
        bindS (attempt (on_store (append_delta P D1 (gen_room g) (gen_run g) delta))) (\<lambda>r.
        case r of
          Inl e \<Rightarrow> if gen_cancel g then retS (returned g') else fail_with P D2 g' ''outputRejected''
        | Inr _ \<Rightarrow> bindS (publish (gen_room g) ''turn.delta''
            (TurnDelta (gen_run g) (gen_request_id g) delta (gen_partial g'))) (\<lambda>_. retS g')))"
| "handle_event P D1 D2 g (Completed rid) =
     (if rid \<noteq> gen_request_id g then fail_with P D2 g ''modelProtocol''
      else if gen_cancel g then retS (returned g)
      else bindS (attempt (on_store (finish_run P D1 (gen_room g) (gen_run g) completed_terminal))) (\<lambda>r.
        case r of
          Inr snap \<Rightarrow> bindS (publish (gen_room g) ''turn.completed''
            (TurnCompleted (gen_run g) (gen_request_id g) snap)) (\<lambda>_. retS (returned g))
        | Inl e \<Rightarrow> fail_with P D2 g ''storeUnavailable''))"
| "handle_event P D1 D2 g (FailedEvent rid code message) =
     (if rid \<noteq> gen_request_id g then fail_with P D2 g ''modelProtocol''
      else if \<not> gen_cancel g then fail_with P D2 g ''modelFailed''
      else retS (returned g))"

text \<open>One turn of the loop on the stream branch: the next item, or the end of the stream.\<close>

definition next_item :: "platform \<Rightarrow> draws \<Rightarrow> draws \<Rightarrow> generation \<Rightarrow> generation rtop" where
  "next_item P D1 D2 g =
     (case gen_items g of
        [] \<Rightarrow> fail_with P D2 g ''modelStreamEnded''
      | item # items \<Rightarrow> let g' = g\<lparr>gen_items := items\<rparr> in
          (case item of
             Inl e \<Rightarrow> if gen_cancel g then retS (returned g') else fail_with P D2 g' (model_error_code e)
           | Inr e \<Rightarrow> handle_event P D1 D2 g' e))"

text \<open>One turn of the loop on the cancel branch.\<close>

definition cancel_changed :: "generation \<Rightarrow> generation" where
  "cancel_changed g = (if gen_cancel g then returned g else g)"

text \<open>The \<open>i\<close>-th task runs \<open>f\<close>; its record is written back (a handler may only have set its cancel flag
  meanwhile, which one step excludes).\<close>

definition run_task :: "nat \<Rightarrow> (generation \<Rightarrow> generation rtop) \<Rightarrow> unit rtop" where
  "run_task i f s = bindS (f (rr_tasks s ! i)) (\<lambda>g. modifyS (\<lambda>t. t\<lparr>rr_tasks := (rr_tasks t)[i := g]\<rparr>)) s"

definition task_done :: "nat \<Rightarrow> unit rtop" where
  "task_done i s = bindS (remove_active (gen_room (rr_tasks s ! i)) (gen_run (rr_tasks s ! i)))
     (\<lambda>_. modifyS (\<lambda>t. t\<lparr>rr_tasks := (rr_tasks t)[i := (rr_tasks t ! i)\<lparr>gen_phase := Gone\<rparr>]\<rparr>)) s"

section \<open>Steps\<close>

text \<open>The store calls the HTTP handlers make directly.\<close>

inductive api_call :: "platform \<Rightarrow> draws \<Rightarrow> room_store \<Rightarrow> room_store \<Rightarrow> bool" for P D where
  api_create: "create_room P D input s = (r, t) \<Longrightarrow> api_call P D s t"
| api_list: "list_rooms P s = (r, t) \<Longrightarrow> api_call P D s t"
| api_snapshot: "snapshot P i s = (r, t) \<Longrightarrow> api_call P D s t"
| api_host: "host_session P i s = (r, t) \<Longrightarrow> api_call P D s t"
| api_exchange: "exchange_invite P D raw name s = (r, t) \<Longrightarrow> api_call P D s t"
| api_issue: "issue_invite P D i s = (r, t) \<Longrightarrow> api_call P D s t"
| api_resolve: "resolve_session P D raw s = (r, t) \<Longrightarrow> api_call P D s t"
| api_revoke: "revoke_invite P D i s = (r, t) \<Longrightarrow> api_call P D s t"

text \<open>
  One step of the process. A new run's id is one that no task has had (uuids are unique), and the
  session of a turn names its room by its id, which has no white space around it.
\<close>

inductive rt_step :: "platform \<Rightarrow> room_runtime \<Rightarrow> room_runtime \<Rightarrow> bool" for P where
  rt_api: "api_call P D (rr_store s) u \<Longrightarrow> rt_step P s (s\<lparr>rr_store := u\<rparr>)"
| rt_submit: "submit_turn P D session input s = (r, t) \<Longrightarrow>
    opaque_id ''run_'' (uuid D 1) \<notin> set (map gen_run (rr_tasks s)) \<Longrightarrow>
    trim (sess_room_id session) = sess_room_id session \<Longrightarrow> rt_step P s t"
| rt_stop: "runtime_stop_run P D room rid s = (r, t) \<Longrightarrow> rt_step P s t"
| rt_close: "runtime_close_room P D1 D2 room s = (r, t) \<Longrightarrow> rt_step P s t"
| rt_connect: "i < length (rr_tasks s) \<Longrightarrow> gen_phase (rr_tasks s ! i) = Connecting \<Longrightarrow>
    run_task i (connect P D model) s = (r, t) \<Longrightarrow> rt_step P s t"
| rt_item: "i < length (rr_tasks s) \<Longrightarrow> gen_phase (rr_tasks s ! i) = Streaming \<Longrightarrow>
    run_task i (next_item P D1 D2) s = (r, t) \<Longrightarrow> rt_step P s t"
| rt_cancel: "i < length (rr_tasks s) \<Longrightarrow> gen_phase (rr_tasks s ! i) = Streaming \<Longrightarrow>
    run_task i (\<lambda>g. retS (cancel_changed g)) s = (r, t) \<Longrightarrow> rt_step P s t"
| rt_done: "i < length (rr_tasks s) \<Longrightarrow> gen_phase (rr_tasks s ! i) = Returned \<Longrightarrow>
    task_done i s = (r, t) \<Longrightarrow> rt_step P s t"

text \<open>The process starts after recovery, with no tasks, on any store that calls and restarts lead to.\<close>

definition started :: "room_store \<Rightarrow> room_runtime" where
  "started store = \<lparr>rr_store = store, rr_active = Map.empty, rr_tasks = [], rr_published = []\<rparr>"

inductive rt_reachable :: "platform \<Rightarrow> room_runtime \<Rightarrow> bool" for P where
  rt_start: "reachable P u \<Longrightarrow> recover_running P D u = (r, store) \<Longrightarrow> rt_reachable P (started store)"
| rt_more: "rt_reachable P s \<Longrightarrow> rt_step P s t \<Longrightarrow> rt_reachable P t"

end
