(* ===== verification/Room_Settled.thy ===== *)
theory Room_Settled
  imports Room_Runtime
begin

text \<open>
  What the runtime (backend/src/inference.rs) relies on in the store: a run that is over stays over
  and a closed room stays closed under every call, and an accepted turn whose run is running names an
  active run of an open room.
\<close>

section \<open>Runs that are over stay over\<close>

definition settled :: "string \<Rightarrow> string \<Rightarrow> db \<Rightarrow> bool" where
  "settled room rid d \<longleftrightarrow> (\<forall>u\<in>set (t_runs d). u_id u = rid \<longrightarrow> u_room_id u = room \<longrightarrow> \<not> active u)"

lemma settled_runs: "t_runs e = t_runs d \<Longrightarrow> settled room rid e = settled room rid d"
  by (simp add: settled_def)

lemma settled_keeps [intro]:
  "keeps (settled i rid) (query f)" "keeps (settled i rid) (guardS e b)"
  "keeps (settled i rid) (insert_message m)" "keeps (settled i rid) (insert_room x)"
  "keeps (settled i rid) (insert_invite y)" "keeps (settled i rid) (insert_participant p)"
  "keeps (settled i rid) (insert_session z)" "keeps (settled i rid) (update_rooms Q f1)"
  "keeps (settled i rid) (update_invites Q2 f2)" "keeps (settled i rid) (update_sessions Q3 f3)"
  "keeps (settled i rid) (update_participants Q4 f4)" "keeps (settled i rid) (delete_participants Q5)"
  "keeps (settled i rid) (delete_runs R)" "keeps (settled i rid) (delete_messages S)"
  by (auto simp: keeps_def settled_def query_def guardS_def insert_defs insert_when_def update_rooms_def
    update_invites_def update_sessions_def update_participants_def delete_participants_def Let_def
    delete_runs_def delete_messages_def set_del split: if_splits)

lemma settled_update_runs:
  "(\<And>u. u_id (f u) = u_id u \<and> u_room_id (f u) = u_room_id u \<and> (active (f u) \<longrightarrow> active u)) \<Longrightarrow>
   keeps (settled i rid) (update_runs R f)"
  by (auto simp: keeps_def settled_def update_runs_def ball_upd)

lemma settled_insert_run: "u_id u \<noteq> rid \<Longrightarrow> keeps (settled i rid) (insert_run u)"
  by (auto simp: keeps_def settled_def insert_defs insert_when_def split: if_splits)

lemmas settled_rules = keeps_atomically keeps_bindS settled_keeps keeps_pure keeps_people_cases
  settled_update_runs settled_insert_run

lemma settled_ops:
  "keeps (settled i rid) (create_room_tx x y z)" "keeps (settled i rid) (exchange_tx P D a b c n)"
  "keeps (settled i rid) (issue_tx P D j)" "keeps (settled i rid) (revoke_db P D j)"
  "keeps (settled i rid) (close_db P D j)" "keeps (settled i rid) (append_delta_db P D seal j u delta)"
  "keeps (settled i rid) (stop_db P D j u message)"
  unfolding create_room_tx_def exchange_tx_def issue_tx_def revoke_db_def close_db_def revoke_sessions_def
    append_delta_db_def stop_db_def Let_def
  by (intro settled_rules; simp add: active_def active_text_def)+

lemma settled_finish: "is_terminal (rt_status terminal) \<Longrightarrow> keeps (settled i rid) (finish_tx P D seal j u terminal)"
  unfolding finish_tx_def settle_run_def add_reply_def trim_runs_def trim_messages_def Let_def
  by (intro settled_rules) (auto simp: active_def active_text_def is_terminal_def)

lemma settled_turn:
  assumes "opaque_id ''run_'' (uuid D 1) \<noteq> rid"
  shows "keeps (settled i rid) (append_user_turn_tx P D seal session body key)"
proof -
  have start: "keeps (settled i rid) (start_turn P D seal session body k)" for k
    unfolding start_turn_def Let_def by (intro settled_rules) (use assms in simp)
  show ?thesis unfolding append_user_turn_tx_def Let_def by (intro settled_rules start)
qed

section \<open>Store calls\<close>

text \<open>What the runtime needs of the store between its own steps: the runs \<open>X\<close> are over and the rooms
  \<open>C\<close> are closed.\<close>

definition holds :: "platform \<Rightarrow> (string \<times> string) set \<Rightarrow> string set \<Rightarrow> room_store \<Rightarrow> bool" where
  "holds P X C s \<longleftrightarrow> reachable P s \<and> (\<forall>(i, rid)\<in>X. settled i rid (rs_db s)) \<and> (\<forall>i\<in>C. closed_in i (rs_db s))"

lemma keeps_store [intro]:
  "keeps I f \<Longrightarrow> keeps (\<lambda>s. I (rs_db s)) (with_connection f)"
  "reads m \<Longrightarrow> keeps (\<lambda>s. I (rs_db s)) m"
  "(\<And>x. keeps J (f' x)) \<Longrightarrow> keeps J (with_seal f')"
  "(\<And>j. keeps J (k j)) \<Longrightarrow> keeps J (valid_room i k)"
proof -
  show "keeps I f \<Longrightarrow> keeps (\<lambda>s. I (rs_db s)) (with_connection f)"
    unfolding keeps_def with_connection_def by (auto split: prod.splits)
  show "reads m \<Longrightarrow> keeps (\<lambda>s. I (rs_db s)) m"
    unfolding keeps_def by (auto dest: readsD)
  show "(\<And>x. keeps J (f' x)) \<Longrightarrow> keeps J (with_seal f')"
    by (auto simp: keeps_def)
  show "(\<And>j. keeps J (k j)) \<Longrightarrow> keeps J (valid_room i k)"
    unfolding valid_room_def by (intro keeps_bindS keeps_pure)
qed

lemma store_step_closed:
  assumes "store_step P D s t" "reachable P s" "aead_total P" "closed_in i (rs_db s)"
  shows "closed_in i (rs_db t)"
  using store_step_db [OF assms(1)] db_step_closed [OF _ reachable_inv [OF assms(2,3)] assms(4)] assms(4) by metis

lemma holds_keeps:
  assumes "aead_total P" "\<And>s r t. m s = (r, t) \<Longrightarrow> store_step P D s t"
    and "\<And>i rid. (i, rid) \<in> X \<Longrightarrow> keeps (\<lambda>s. settled i rid (rs_db s)) m"
  shows "keeps (holds P X C) m"
proof (rule keepsI)
  fix s r t
  assume s: "holds P X C s" and m: "m s = (r, t)"
  have step: "store_step P D s t" by (rule assms(2) [OF m])
  have "settled i rid (rs_db t)" if "(i, rid) \<in> X" for i rid
    using keepsD [OF assms(3) [OF that] _ m] s that by (auto simp: holds_def)
  moreover have "closed_in i (rs_db t)" if "i \<in> C" for i
    using store_step_closed [OF step _ assms(1)] s that by (auto simp: holds_def)
  ultimately show "holds P X C t" using s step by (auto simp: holds_def intro: reachable.step)
qed

lemma guardS_keeps [intro]: "keeps J (guardS e b)"
  by (auto simp: keeps_def guardS_def)

lemmas store_keeps_rules = keeps_bindS keeps_pure guardS_keeps keeps_store settled_ops

lemma holds_calls:
  assumes "aead_total P"
  shows "keeps (holds P X C) (stop_run P D i rid)" "keeps (holds P X C) (close_room P D i)"
    "keeps (holds P X C) (append_delta P D i rid delta)" "keeps (holds P X C) (required_snapshot P i)"
    "is_terminal (rt_status terminal) \<Longrightarrow> keeps (holds P X C) (finish_run P D i rid terminal)"
proof -
  show "keeps (holds P X C) (stop_run P D i rid)"
    by (rule holds_keeps [OF assms step_stop], assumption) (unfold stop_run_def, intro store_keeps_rules)
  show "keeps (holds P X C) (close_room P D i)"
    by (rule holds_keeps [OF assms step_close], assumption) (unfold close_room_def, intro store_keeps_rules)
  show "keeps (holds P X C) (append_delta P D i rid delta)"
    by (rule holds_keeps [OF assms step_delta], assumption) (unfold append_delta_def, intro store_keeps_rules)
  show "keeps (holds P X C) (required_snapshot P i)"
    unfolding required_snapshot_def
  proof (intro keeps_bindS keeps_pure)
    show "keeps (holds P X C) (snapshot P i)"
      by (rule holds_keeps [OF assms step_snapshot], assumption) (intro keeps_store reads_snapshot)
  qed
  assume t: "is_terminal (rt_status terminal)"
  show "keeps (holds P X C) (finish_run P D i rid terminal)"
  proof (rule holds_keeps [OF assms])
    show "\<And>s r t. finish_run P D i rid terminal s = (r, t) \<Longrightarrow> store_step P D s t" by (rule step_finish [OF _ t])
    show "keeps (\<lambda>s. settled j k (rs_db s)) (finish_run P D i rid terminal)" for j k
      unfolding finish_run_def by (intro store_keeps_rules settled_finish [OF t] reads_required_snapshot)
  qed
qed


lemma holds_api:
  assumes "aead_total P" "api_call P D s t" "holds P X C s"
  shows "holds P X C t"
  using assms(2)
proof cases
  case (api_create input r)
  have "keeps (holds P X C) (create_room P D input)"
    by (rule holds_keeps [OF assms(1) step_create], assumption)
      (unfold create_room_def Let_def, intro store_keeps_rules reads_required_snapshot)
  then show ?thesis using keepsD assms(3) api_create by metis
next
  case (api_list r)
  have "keeps (holds P X C) (list_rooms P)"
    by (rule holds_keeps [OF assms(1) step_list], assumption) (intro keeps_store reads_others)
  then show ?thesis using keepsD assms(3) api_list by metis
next
  case (api_snapshot i r)
  have "keeps (holds P X C) (snapshot P i)"
    by (rule holds_keeps [OF assms(1) step_snapshot], assumption) (intro keeps_store reads_snapshot)
  then show ?thesis using keepsD assms(3) api_snapshot by metis
next
  case (api_host i r)
  have "keeps (holds P X C) (host_session P i)"
    by (rule holds_keeps [OF assms(1) step_host], assumption) (intro keeps_store reads_others)
  then show ?thesis using keepsD assms(3) api_host by metis
next
  case (api_exchange raw name r)
  have "keeps (holds P X C) (exchange_invite P D raw name)"
    by (rule holds_keeps [OF assms(1) step_exchange], assumption)
      (unfold exchange_invite_def Let_def, intro store_keeps_rules)
  then show ?thesis using keepsD assms(3) api_exchange by metis
next
  case (api_issue i r)
  have "keeps (holds P X C) (issue_invite P D i)"
    by (rule holds_keeps [OF assms(1) step_issue], assumption)
      (unfold issue_invite_def Let_def, intro store_keeps_rules)
  then show ?thesis using keepsD assms(3) api_issue by metis
next
  case (api_resolve raw r)
  have "keeps (holds P X C) (resolve_session P D raw)"
    by (rule holds_keeps [OF assms(1) step_resolve], assumption) (intro keeps_store reads_others)
  then show ?thesis using keepsD assms(3) api_resolve by metis
next
  case (api_revoke i r)
  have "keeps (holds P X C) (revoke_invite P D i)"
    by (rule holds_keeps [OF assms(1) step_revoke], assumption)
      (unfold revoke_invite_def, intro store_keeps_rules)
  then show ?thesis using keepsD assms(3) api_revoke by metis
qed

lemma holds_turn:
  assumes "aead_total P" "\<And>i rid. (i, rid) \<in> X \<Longrightarrow> opaque_id ''run_'' (uuid D 1) \<noteq> rid"
  shows "keeps (holds P X C) (append_user_turn P D session input)"
proof -
  have "keeps (holds P X C) (commit_user_turn P D session input)"
    by (rule holds_keeps [OF assms(1) step_turn], assumption)
      (unfold commit_user_turn_def, intro store_keeps_rules settled_turn, rule assms(2))
  moreover have "keeps (holds P X C) (append_user_turn_reply P i text ids)" for i "text" ids
    by (rule holds_keeps [OF assms(1) step_reply], assumption) (intro keeps_store reads_turn_reply)
  ultimately show ?thesis unfolding append_user_turn_def by (intro keeps_bindS) (auto split: prod.split)
qed


section \<open>The run of an accepted turn\<close>

lemma open_run_fields:
  "open_run P seal run = Inr x \<Longrightarrow> run_run_id x = run_run_id run \<and> run_status x = run_status run"
  by (auto simp: open_run_def bindE_eq_Inr)

lemma open_run_or_blank_fields:
  "open_run_or_blank P run s = (Inr x, t) \<Longrightarrow> run_run_id x = run_run_id run \<and> run_status x = run_status run"
  by (auto simp: open_run_or_blank_def bindS_eq_Inr split: sum.splits dest: open_run_fields)

lemma running_row:
  assumes "row_to_run u = Inr run" "run_status run = RunRunning"
  shows "active u"
  using assms by (auto simp: row_to_run_def bindE_eq_Inr parse_run_status_def active_def active_text_def split: if_splits)

lemma load_current_run_row:
  assumes "load_current_run P i s = (Inr (Some run), t)"
  shows "\<exists>u run0. u \<in> set (t_runs (rs_db s)) \<and> u_room_id u = i \<and> row_to_run u = Inr run0
    \<and> run_run_id run = u_id u \<and> run_status run = run_status run0"
proof -
  obtain u where u: "current_run_row (rs_db s) i = Some u"
    using assms by (auto simp: load_current_run_def split: option.splits)
  then have "u \<in> set (newest_first run_order (filter (\<lambda>u. u_room_id u = i \<and> shown_status (u_status u)) (t_runs (rs_db s))))"
    unfolding current_run_row_def by (metis (no_types, lifting) list.case_eq_if list.collapse list.set_intros(1) option.distinct(1) option.inject)
  then have mem: "u \<in> set (t_runs (rs_db s)) \<and> u_room_id u = i" by simp
  obtain run0 where run0: "row_to_run u = Inr run0" "run_run_id run = run_run_id run0" "run_status run = run_status run0"
    using assms u by (auto simp: load_current_run_def bindS_eq_Inr dest!: open_run_or_blank_fields)
  moreover have "run_run_id run0 = u_id u" using run0(1) by (auto simp: row_to_run_def bindE_eq_Inr)
  ultimately show ?thesis using mem by auto
qed

lemma run_by_id_row:
  assumes "run_by_id P i rid s = (Inr (Some run), t)"
  shows "\<exists>u run0. u \<in> set (t_runs (rs_db s)) \<and> u_room_id u = i \<and> row_to_run u = Inr run0
    \<and> run_run_id run = u_id u \<and> run_status run = run_status run0"
proof -
  from assms obtain u where f: "find (\<lambda>u. u_room_id u = i \<and> u_id u = rid) (t_runs (rs_db s)) = Some u"
    and r: "bindE (row_to_run u) (open_run P (rs_seal s)) = Inr run"
    by (auto simp: run_by_id_def with_connection_eq bindS_eq_Inr query_def traverse_opt_eq_Inr)
  from r obtain run0 where r0: "row_to_run u = Inr run0" "open_run P (rs_seal s) run0 = Inr run"
    by (auto simp: bindE_eq_Inr)
  moreover have "run_run_id run0 = u_id u" using r0(1) by (auto simp: row_to_run_def bindE_eq_Inr)
  ultimately show ?thesis using find_SomeD [OF f] open_run_fields [OF r0(2)] by auto
qed

lemma accepted_reply:
  assumes "append_user_turn_reply P room body ids s = (Inr acc, t)" "trim room = room"
  shows "snap_id (acc_snapshot acc) = room \<and> (run_status (acc_run acc) = RunRunning \<longrightarrow>
    (\<exists>u\<in>set (t_runs (rs_db s)). u_id u = run_run_id (acc_run acc) \<and> u_room_id u = room \<and> active u))"
proof -
  obtain rid mid where ids: "ids = (rid, mid)" by (cases ids)
  obtain snap s1 run s2 where snap: "required_snapshot P room s = (Inr snap, s1)"
    and run: "(case mid of Some _ \<Rightarrow> liftE (ok_or NotFound (snap_current_run snap))
       | None \<Rightarrow> bindS (run_by_id P room rid) (\<lambda>run. liftE (ok_or NotFound run))) s1 = (Inr run, s2)"
    and acc: "acc_snapshot acc = snap" "acc_run acc = run"
    using assms(1) by (auto simp: append_user_turn_reply_def ids bindS_eq_Inr)
  have s1: "rs_db s1 = rs_db s" using readsD [OF reads_required_snapshot snap] by simp
  have id: "snap_id snap = room"
    using snap by (rule required_snapshot_Inr) (simp add: assms(2))
  have "\<exists>u run0. u \<in> set (t_runs (rs_db s)) \<and> u_room_id u = room \<and> row_to_run u = Inr run0
    \<and> run_run_id run = u_id u \<and> run_status run = run_status run0"
  proof (cases mid)
    case None
    with run have "run_by_id P room rid s1 = (Inr (Some run), s2)" by (auto simp: bindS_eq_Inr)
    from run_by_id_row [OF this] show ?thesis unfolding s1 .
  next
    case (Some m)
    with run have cur: "snap_current_run snap = Some run" by simp
    from snap show ?thesis
    proof (rule required_snapshot_Inr)
      fix r u v w
      assume ms: "load_messages P (trim room) s = (Inr (snap_messages snap), u)"
        and load: "load_current_run P (trim room) u = (Inr (snap_current_run snap), v)"
      have "rs_db u = rs_db s" using readsD [OF reads_load(1) ms] by simp
      with load_current_run_row [of P room u run v] load cur assms(2) show ?thesis by simp
    qed
  qed
  with id acc show ?thesis using running_row by metis
qed

lemma turn_room_open:
  assumes "append_user_turn_tx P D seal session body key d = (Inr ids, e)" "db_inv d"
  shows "\<not> closed_in (sess_room_id session) e"
proof -
  obtain r where r: "find (\<lambda>r. r_id r = sess_room_id session) (t_rooms d) = Some r" "r_status r \<noteq> ''closed''"
    using assms(1) by (auto simp: append_user_turn_tx_def Let_def atomically_Inr stmt_simps
      split: sum.splits if_splits option.splits)
  have "\<not> closed_in (sess_room_id session) d"
  proof
    assume "closed_in (sess_room_id session) d"
    then obtain q where "q \<in> set (t_rooms d)" "r_id q = sess_room_id session" "r_status q = ''closed''"
      by (auto simp: closed_in_def)
    with unique_room [OF assms(2)] find_SomeD [OF r(1)] r(2) show False by metis
  qed
  with assms(1) show ?thesis
    by (cases rule: turn_tx_Inr) (auto elim!: start_turn_Inr simp: closed_in_def set_upd split: if_splits)
qed

lemma accepted_turn:
  assumes "append_user_turn P D session input s = (Inr acc, t)" "trim (sess_room_id session) = sess_room_id session"
    and "reachable P s" "aead_total P"
  shows "snap_id (acc_snapshot acc) = sess_room_id session \<and> \<not> closed_in (sess_room_id session) (rs_db t)
    \<and> (run_status (acc_run acc) = RunRunning \<longrightarrow> \<not> settled (sess_room_id session) (run_run_id (acc_run acc)) (rs_db t))"
proof -
  obtain body ids u where commit: "commit_user_turn P D session input s = (Inr (body, ids), u)"
    and reply: "append_user_turn_reply P (sess_room_id session) body ids u = (Inr acc, t)"
    using assms(1) by (auto simp: append_user_turn_def bindS_eq_Inr)
  have t: "rs_db t = rs_db u" using readsD [OF reads_turn_reply reply] by simp
  from commit obtain key where "append_user_turn_tx P D (rs_seal s) session body key (rs_db s) = (Inr ids, rs_db u)"
    by (rule commit_user_turn_Inr)
  from turn_room_open [OF this reachable_inv [OF assms(3,4)]] accepted_reply [OF reply assms(2)]
  show ?thesis unfolding t settled_def by blast
qed


end
