(* ===== verification/Room_Generations.thy ===== *)
theory Room_Generations
  imports Room_Settled
begin

text \<open>
  backend/src/inference.rs, how generations and runs fit together under every interleaving of handlers
  and tasks: what the map of active runs says about the tasks, and that a room has at most one
  generation that is still serving it.
\<close>

section \<open>The map of active runs and the tasks\<close>

text \<open>A task that still consumes its stream and was not told to stop.\<close>

definition serving :: "generation \<Rightarrow> bool" where
  "serving g \<longleftrightarrow> gen_phase g \<in> {Connecting, Streaming} \<and> \<not> gen_cancel g"

definition owns :: "(string \<rightharpoonup> active_run) \<Rightarrow> string \<Rightarrow> nat \<Rightarrow> bool" where
  "owns A room j \<longleftrightarrow> (\<exists>a. A room = Some a \<and> ar_task a = j)"

definition entries_ok :: "(string \<rightharpoonup> active_run) \<Rightarrow> generation list \<Rightarrow> bool" where
  "entries_ok A T \<longleftrightarrow> (\<forall>room a. A room = Some a \<longrightarrow> ar_task a < length T
     \<and> gen_room (T ! ar_task a) = room \<and> gen_run (T ! ar_task a) = ar_run_id a \<and> gen_phase (T ! ar_task a) \<noteq> Gone)"

definition tasks_ok :: "db \<Rightarrow> (string \<rightharpoonup> active_run) \<Rightarrow> generation list \<Rightarrow> bool" where
  "tasks_ok d A T \<longleftrightarrow> (\<forall>j<length T. trim (gen_room (T ! j)) = gen_room (T ! j)
     \<and> (gen_phase (T ! j) \<noteq> Gone \<longrightarrow> owns A (gen_room (T ! j)) j
          \<or> settled (gen_room (T ! j)) (gen_run (T ! j)) d \<or> closed_in (gen_room (T ! j)) d)
     \<and> (serving (T ! j) \<longrightarrow> owns A (gen_room (T ! j)) j \<or> closed_in (gen_room (T ! j)) d))"

definition pairs_ok :: "generation list \<Rightarrow> bool" where
  "pairs_ok T \<longleftrightarrow> (\<forall>k<length T. \<forall>j<k. gen_room (T ! j) = gen_room (T ! k) \<longrightarrow>
     (gen_run (T ! j) = gen_run (T ! k) \<longrightarrow> gen_phase (T ! j) = Gone) \<and> \<not> (serving (T ! j) \<and> serving (T ! k)))"

lemma pairs_okD: "pairs_ok T \<Longrightarrow> k < length T \<Longrightarrow> j < k \<Longrightarrow> gen_room (T ! j) = gen_room (T ! k) \<Longrightarrow>
   \<not> (serving (T ! j) \<and> serving (T ! k))"
  by (simp add: pairs_ok_def)

definition gens_ok :: "db \<Rightarrow> (string \<rightharpoonup> active_run) \<Rightarrow> generation list \<Rightarrow> bool" where
  "gens_ok d A T \<longleftrightarrow> entries_ok A T \<and> tasks_ok d A T \<and> pairs_ok T"

lemmas gens_defs = gens_ok_def entries_ok_def tasks_ok_def pairs_ok_def

text \<open>What a store call must not undo.\<close>

definition over :: "db \<Rightarrow> generation list \<Rightarrow> (string \<times> string) set" where
  "over d T = {(i, rid). rid \<in> gen_run ` set T \<and> settled i rid d}"

definition shut :: "db \<Rightarrow> string set" where
  "shut d = {i. closed_in i d}"

lemma gens_store:
  assumes "gens_ok (rs_db s) A T" "holds P (over (rs_db s) T) (shut (rs_db s)) u"
  shows "gens_ok (rs_db u) A T"
proof -
  have "settled (gen_room (T ! j)) (gen_run (T ! j)) (rs_db u)"
    if "j < length T" "settled (gen_room (T ! j)) (gen_run (T ! j)) (rs_db s)" for j
    using that assms(2) by (auto simp: holds_def over_def)
  moreover have "closed_in i (rs_db u)" if "closed_in i (rs_db s)" for i
    using that assms(2) by (auto simp: holds_def shut_def)
  ultimately show ?thesis using assms(1) unfolding gens_ok_def tasks_ok_def by blast
qed

text \<open>A task's record moves on: same run, not reborn, not serving again.\<close>

definition moves :: "generation \<Rightarrow> generation \<Rightarrow> bool" where
  "moves g h \<longleftrightarrow> gen_room h = gen_room g \<and> gen_run h = gen_run g \<and> (serving h \<longrightarrow> serving g)
     \<and> gen_phase g \<noteq> Gone \<and> gen_phase h \<noteq> Gone"

lemma gens_task:
  assumes "gens_ok d A T" "i < length T" "moves (T ! i) h"
  shows "gens_ok d A (T[i := h])"
proof -
  have f: "gen_room (T[i := h] ! j) = gen_room (T ! j)" "gen_run (T[i := h] ! j) = gen_run (T ! j)"
    "serving (T[i := h] ! j) \<Longrightarrow> serving (T ! j)" "gen_phase (T[i := h] ! j) = Gone \<longleftrightarrow> gen_phase (T ! j) = Gone"
    if "j < length T" for j
    using assms(2,3) that by (auto simp: moves_def nth_list_update split: if_splits)
  have "entries_ok A (T[i := h])" using assms(1) f unfolding gens_ok_def entries_ok_def by simp
  moreover have "tasks_ok d A (T[i := h])" using assms(1) f unfolding gens_ok_def tasks_ok_def by auto
  moreover have "pairs_ok (T[i := h])" unfolding pairs_ok_def
  proof (intro allI impI)
    fix k j
    assume "k < length (T[i := h])" "j < k" "gen_room (T[i := h] ! j) = gen_room (T[i := h] ! k)"
    moreover from this have "j < length T" "k < length T" by auto
    ultimately show "(gen_run (T[i := h] ! j) = gen_run (T[i := h] ! k) \<longrightarrow> gen_phase (T[i := h] ! j) = Gone)
      \<and> \<not> (serving (T[i := h] ! j) \<and> serving (T[i := h] ! k))"
      using assms(1) f unfolding gens_ok_def pairs_ok_def by metis
  qed
  ultimately show ?thesis by (simp add: gens_ok_def)
qed

text \<open>Removing a room's entry, when its task is no longer serving and its run is over, or the room closed.\<close>

lemma gens_remove:
  assumes "gens_ok d A T"
    and "\<And>a. A room = Some a \<Longrightarrow> closed_in room d \<or> (settled room (ar_run_id a) d \<and> \<not> serving (T ! ar_task a))"
  shows "gens_ok d (A(room := None)) T"
proof -
  have o: "owns (A(room := None)) r j \<longleftrightarrow> r \<noteq> room \<and> owns A r j" for r j by (auto simp: owns_def)
  have e: "entries_ok A T" using assms(1) by (simp add: gens_ok_def)
  have lost: "closed_in room d \<or> (settled room (gen_run (T ! j)) d \<and> \<not> serving (T ! j))" if "owns A room j" for j
    using that assms(2) e unfolding owns_def entries_ok_def by metis
  have "entries_ok (A(room := None)) T" using e unfolding entries_ok_def by auto
  moreover have "tasks_ok d (A(room := None)) T"
    using assms(1) lost unfolding gens_ok_def tasks_ok_def o by metis
  ultimately show ?thesis using assms(1) by (simp add: gens_ok_def)
qed

text \<open>A task that returned removes its entry and is gone.\<close>

lemma gens_done:
  assumes "gens_ok d A T" "i < length T" "gen_phase (T ! i) = Returned"
    and "B = (case A (gen_room (T ! i)) of Some a \<Rightarrow>
      if ar_run_id a = gen_run (T ! i) then A(gen_room (T ! i) := None) else A | None \<Rightarrow> A)"
  shows "gens_ok d B (T[i := (T ! i)\<lparr>gen_phase := Gone\<rparr>])"
proof -
  let ?r = "gen_room (T ! i)" and ?T = "T[i := (T ! i)\<lparr>gen_phase := Gone\<rparr>]"
  have e: "entries_ok A T" and p: "pairs_ok T" and t: "tasks_ok d A T" using assms(1) by (simp_all add: gens_ok_def)
  have own: "ar_task a = i" if "A ?r = Some a" "ar_run_id a = gen_run (T ! i)" for a
  proof -
    have a: "ar_task a < length T" "gen_room (T ! ar_task a) = ?r" "gen_run (T ! ar_task a) = gen_run (T ! i)"
      "gen_phase (T ! ar_task a) \<noteq> Gone"
      using e that unfolding entries_ok_def by metis+
    then show ?thesis using p assms(2,3) unfolding pairs_ok_def
      by (metis linorder_neqE_nat phase.distinct(11))
  qed
  have o: "owns B r j" if "owns A r j" "j \<noteq> i" for r j
    using that own unfolding owns_def assms(4) by (auto split: option.splits)
  have b: "A r = Some a \<and> ar_task a \<noteq> i" if "B r = Some a" for r a
  proof -
    have A: "A r = Some a" using that unfolding assms(4) by (auto split: option.splits if_splits)
    moreover have "ar_task a \<noteq> i"
    proof
      assume *: "ar_task a = i"
      then have "r = ?r" "ar_run_id a = gen_run (T ! i)" using e A unfolding entries_ok_def by metis+
      with that A show False unfolding assms(4) by auto
    qed
    ultimately show ?thesis by blast
  qed
  have f: "gen_room (?T ! j) = gen_room (T ! j)" "gen_run (?T ! j) = gen_run (T ! j)"
    "serving (?T ! j) \<longleftrightarrow> j \<noteq> i \<and> serving (T ! j)" "gen_phase (?T ! j) \<noteq> Gone \<longleftrightarrow> j \<noteq> i \<and> gen_phase (T ! j) \<noteq> Gone"
    if "j < length T" for j
    using that assms(2) by (auto simp: nth_list_update serving_def)
  have "entries_ok B ?T" unfolding entries_ok_def
  proof (intro allI impI)
    fix room a
    assume "B room = Some a"
    with b have A: "A room = Some a" "ar_task a \<noteq> i" by auto
    with e have "ar_task a < length T" "gen_room (T ! ar_task a) = room" "gen_run (T ! ar_task a) = ar_run_id a"
      "gen_phase (T ! ar_task a) \<noteq> Gone" unfolding entries_ok_def by auto
    then show "ar_task a < length ?T \<and> gen_room (?T ! ar_task a) = room \<and> gen_run (?T ! ar_task a) = ar_run_id a
      \<and> gen_phase (?T ! ar_task a) \<noteq> Gone" using A(2) f by simp
  qed
  moreover have "tasks_ok d B ?T" unfolding tasks_ok_def
  proof (intro allI impI)
    fix j
    assume "j < length ?T"
    then have j: "j < length T" by simp
    with t o [of "gen_room (T ! j)" j] show "trim (gen_room (?T ! j)) = gen_room (?T ! j)
       \<and> (gen_phase (?T ! j) \<noteq> Gone \<longrightarrow> owns B (gen_room (?T ! j)) j
          \<or> settled (gen_room (?T ! j)) (gen_run (?T ! j)) d \<or> closed_in (gen_room (?T ! j)) d)
       \<and> (serving (?T ! j) \<longrightarrow> owns B (gen_room (?T ! j)) j \<or> closed_in (gen_room (?T ! j)) d)"
      unfolding tasks_ok_def f(1) [OF j] f(2) [OF j] f(3) [OF j] f(4) [OF j] by blast
  qed
  moreover have "pairs_ok ?T" unfolding pairs_ok_def
  proof (intro allI impI)
    fix k j
    assume "k < length ?T" "j < k" "gen_room (?T ! j) = gen_room (?T ! k)"
    moreover from this have "j < length T" "k < length T" by auto
    ultimately show "(gen_run (?T ! j) = gen_run (?T ! k) \<longrightarrow> gen_phase (?T ! j) = Gone) \<and> \<not> (serving (?T ! j) \<and> serving (?T ! k))"
      using p f unfolding pairs_ok_def by metis
  qed
  ultimately show ?thesis by (simp add: gens_ok_def)
qed

text \<open>A new task, in an open room without an entry, for a run that is not over.\<close>

lemma gens_start:
  assumes "gens_ok d A T" "A (gen_room g) = None" "trim (gen_room g) = gen_room g"
    and "\<not> closed_in (gen_room g) d" "\<not> settled (gen_room g) (gen_run g) d" "gen_phase g \<noteq> Gone"
  shows "gens_ok d (A(gen_room g \<mapsto> \<lparr>ar_run_id = gen_run g, ar_task = length T\<rparr>)) (T @ [g])"
    (is "gens_ok d ?A ?T")
proof -
  have e: "entries_ok A T" and p: "pairs_ok T" and t: "tasks_ok d A T" using assms(1) by (simp_all add: gens_ok_def)
  have n: "?T ! j = T ! j" if "j < length T" for j using that by (simp add: nth_append)
  have last: "?T ! length T = g" by simp
  have free: "\<not> owns A (gen_room g) j" for j using assms(2) by (simp add: owns_def)
  have old: "\<not> serving (T ! j) \<and> (gen_run (T ! j) = gen_run g \<longrightarrow> gen_phase (T ! j) = Gone)"
    if "j < length T" "gen_room (T ! j) = gen_room g" for j
    using t that free assms(4,5) unfolding tasks_ok_def by metis
  have o: "owns ?A r j" if "owns A r j" for r j
    using that assms(2) by (auto simp: owns_def)
  have o': "owns ?A (gen_room g) (length T)" by (simp add: owns_def)
  have "entries_ok ?A ?T" unfolding entries_ok_def
  proof (intro allI impI)
    fix room a
    assume a: "?A room = Some a"
    show "ar_task a < length ?T \<and> gen_room (?T ! ar_task a) = room \<and> gen_run (?T ! ar_task a) = ar_run_id a
      \<and> gen_phase (?T ! ar_task a) \<noteq> Gone"
    proof (cases "room = gen_room g")
      case True
      with a assms(6) show ?thesis by auto
    next
      case False
      with a have "A room = Some a" by simp
      with e have "ar_task a < length T \<and> gen_room (T ! ar_task a) = room \<and> gen_run (T ! ar_task a) = ar_run_id a
        \<and> gen_phase (T ! ar_task a) \<noteq> Gone" unfolding entries_ok_def by blast
      with n show ?thesis by simp
    qed
  qed
  moreover have "tasks_ok d ?A ?T" unfolding tasks_ok_def
  proof (intro allI impI)
    fix j
    assume "j < length ?T"
    then consider "j < length T" | "j = length T" by fastforce
    then show "trim (gen_room (?T ! j)) = gen_room (?T ! j) \<and> (gen_phase (?T ! j) \<noteq> Gone \<longrightarrow> owns ?A (gen_room (?T ! j)) j
        \<or> settled (gen_room (?T ! j)) (gen_run (?T ! j)) d \<or> closed_in (gen_room (?T ! j)) d)
     \<and> (serving (?T ! j) \<longrightarrow> owns ?A (gen_room (?T ! j)) j \<or> closed_in (gen_room (?T ! j)) d)"
    proof cases
      case 1
      then show ?thesis using t o n unfolding tasks_ok_def by metis
    next
      case 2
      then show ?thesis using o' assms(3) last by simp
    qed
  qed
  moreover have "pairs_ok ?T" unfolding pairs_ok_def
  proof (intro allI impI)
    fix k j
    assume k: "k < length ?T" "j < k" and r: "gen_room (?T ! j) = gen_room (?T ! k)"
    then consider "k < length T" | "k = length T" by fastforce
    then show "(gen_run (?T ! j) = gen_run (?T ! k) \<longrightarrow> gen_phase (?T ! j) = Gone) \<and> \<not> (serving (?T ! j) \<and> serving (?T ! k))"
    proof cases
      case 1
      then show ?thesis using k(2) r p n unfolding pairs_ok_def by (metis order.strict_trans)
    next
      case 2
      then show ?thesis using k(2) r old [of j] n [of j] last by simp
    qed
  qed
  ultimately show ?thesis by (simp add: gens_ok_def)
qed


section \<open>Every step keeps it\<close>

definition coordinated :: "platform \<Rightarrow> room_runtime \<Rightarrow> bool" where
  "coordinated P s \<longleftrightarrow> reachable P (rr_store s) \<and> gens_ok (rs_db (rr_store s)) (rr_active s) (rr_tasks s)"

definition still :: "platform \<Rightarrow> (string \<rightharpoonup> active_run) \<Rightarrow> generation list \<Rightarrow> room_runtime \<Rightarrow> bool" where
  "still P A T s \<longleftrightarrow> coordinated P s \<and> rr_active s = A \<and> rr_tasks s = T"

lemma holds_start: "reachable P s \<Longrightarrow> holds P (over (rs_db s) T) (shut (rs_db s)) s"
  by (auto simp: holds_def over_def shut_def)

lemma coordinated_store:
  assumes "coordinated P s" "holds P (over (rs_db (rr_store s)) (rr_tasks s)) (shut (rs_db (rr_store s))) u"
  shows "coordinated P (s\<lparr>rr_store := u\<rparr>)"
  using assms gens_store [of "rr_store s"] by (auto simp: coordinated_def holds_def)

lemma still_on_store:
  assumes "\<And>X C. (\<And>i rid. (i, rid) \<in> X \<Longrightarrow> rid \<in> gen_run ` set T) \<Longrightarrow> keeps (holds P X C) m"
  shows "keeps (still P A T) (on_store m)"
proof (rule keepsI)
  fix s r t
  assume s: "still P A T s" and m: "on_store m s = (r, t)"
  obtain u where u: "m (rr_store s) = (r, u)" "t = s\<lparr>rr_store := u\<rparr>"
    using m by (auto simp: on_store_def split: prod.splits)
  have T: "rr_tasks s = T" and c: "coordinated P s" using s by (auto simp: still_def)
  have r: "reachable P (rr_store s)" using c by (simp add: coordinated_def)
  have "holds P (over (rs_db (rr_store s)) T) (shut (rs_db (rr_store s))) u"
    by (rule keepsD [OF assms holds_start [OF r] u(1)]) (auto simp: over_def)
  with coordinated_store [OF c] s show "still P A T t" by (auto simp: still_def u(2))
qed

lemma still_attempt [intro]: "keeps I m \<Longrightarrow> keeps I (attempt m)"
  by (auto simp: keeps_def attempt_def split: prod.splits)

lemma still_publish [intro]: "keeps (still P A T) (publish room name data)"
  by (auto simp: keeps_def publish_def still_def coordinated_def)

lemma still_calls:
  assumes "aead_total P"
  shows "keeps (still P A T) (on_store (stop_run P D i rid))" "keeps (still P A T) (on_store (close_room P D i))"
    "keeps (still P A T) (on_store (append_delta P D i rid delta))" "keeps (still P A T) (on_store (required_snapshot P i))"
    "is_terminal (rt_status terminal) \<Longrightarrow> keeps (still P A T) (on_store (finish_run P D i rid terminal))"
  by (rule still_on_store, rule holds_calls [OF assms], assumption?)+

lemma stillD: "keeps (still P A T) m \<Longrightarrow> coordinated P s \<Longrightarrow> rr_active s = A \<Longrightarrow> rr_tasks s = T \<Longrightarrow> m s = (r, t) \<Longrightarrow>
  coordinated P t \<and> rr_active t = A \<and> rr_tasks t = T"
  unfolding keeps_def still_def by blast

lemma still_coordinated: "(\<And>A T. keeps (still P A T) m) \<Longrightarrow> keeps (coordinated P) m"
  unfolding keeps_def still_def by blast

text \<open>A task's code: the store and the events change, the map and the tasks do not; then its record moves on.\<close>

definition advances :: "platform \<Rightarrow> (generation \<Rightarrow> generation rtop) \<Rightarrow> generation \<Rightarrow> bool" where
  "advances P f g \<longleftrightarrow> (\<forall>A T. keeps (still P A T) (f g)) \<and> (\<forall>s h t. f g s = (Inr h, t) \<longrightarrow> moves g h)"

lemma advances_run_task:
  assumes "advances P f (rr_tasks s ! i)" "i < length (rr_tasks s)" "coordinated P s" "run_task i f s = (r, t)"
  shows "coordinated P t"
proof -
  let ?g = "rr_tasks s ! i"
  have k: "keeps (still P (rr_active s) (rr_tasks s)) (f ?g)" using assms(1) by (simp add: advances_def)
  from assms(4) have "bindS (f ?g) (\<lambda>g. modifyS (\<lambda>t. t\<lparr>rr_tasks := (rr_tasks t)[i := g]\<rparr>)) s = (r, t)"
    by (simp add: run_task_def)
  then show ?thesis
  proof (cases rule: bindS_cases)
    case (fail e)
    with stillD [OF k assms(3)] show ?thesis by blast
  next
    case (go h u)
    have u: "coordinated P u" "rr_active u = rr_active s" "rr_tasks u = rr_tasks s"
      using stillD [OF k assms(3) refl refl go(1)] by blast+
    have "moves ?g h" using go(1) assms(1) unfolding advances_def by blast
    with go(2) u assms(2) show ?thesis by (auto simp: coordinated_def gens_task)
  qed
qed

lemma is_terminal_ends [simp]: "is_terminal (rt_status (failed_terminal code))" "is_terminal (rt_status completed_terminal)"
  by (simp_all add: is_terminal_def failed_terminal_def completed_terminal_def)

lemma still_fail_generation:
  assumes "aead_total P"
  shows "keeps (still P A T) (fail_generation P D g code)"
  unfolding fail_generation_def
  by (intro keeps_bindS still_attempt still_calls [OF assms] is_terminal_ends) (auto split: sum.split)

lemma moves_returned [intro]: "gen_phase g \<noteq> Gone \<Longrightarrow> gen_room h = gen_room g \<Longrightarrow> gen_run h = gen_run g \<Longrightarrow> moves g (returned h)"
  by (auto simp: moves_def returned_def serving_def)

lemma attempt_run: "attempt m s = (r, t) \<longleftrightarrow> (\<exists>x. m s = (x, t) \<and> r = Inr x)"
  by (auto simp: attempt_def split: prod.splits)

lemma fail_generation_Inr: "fail_generation P D g code s = (r, t) \<Longrightarrow> \<exists>u. r = Inr u"
  by (auto simp: fail_generation_def bindS_def publish_def attempt_def split: prod.splits sum.splits)

lemma fail_with_Inr: "fail_with P D g code s = (Inr h, t) \<Longrightarrow> h = returned g"
  by (auto simp: fail_with_def bindS_eq_Inr)

lemma still_fail_with: "aead_total P \<Longrightarrow> keeps (still P A T) (fail_with P D g code)"
  unfolding fail_with_def by (intro keeps_bindS keeps_pure still_fail_generation)

lemma advances_connect:
  assumes "aead_total P" "gen_phase g = Connecting"
  shows "advances P (connect P D model) g"
proof -
  have "keeps (still P A T) (connect P D model g)" for A T
    unfolding connect_def by (cases "model (gen_request g)") (auto intro: still_fail_with [OF assms(1)])
  moreover have "moves g h" if "connect P D model g s = (Inr h, t)" for s h t
    using that assms(2) by (auto simp: connect_def moves_def serving_def split: sum.splits dest!: fail_with_Inr intro!: moves_returned)
      (auto simp: returned_def)
  ultimately show ?thesis by (simp add: advances_def)
qed


lemma moves_refl: "gen_phase g \<noteq> Gone \<Longrightarrow> moves g g"
  by (simp add: moves_def)

lemma moves_trans: "moves g h \<Longrightarrow> moves h k \<Longrightarrow> moves g k"
  by (auto simp: moves_def)

lemma moves_fields: "gen_phase g \<noteq> Gone \<Longrightarrow> moves g (g\<lparr>gen_partial := v\<rparr>)" "gen_phase g \<noteq> Gone \<Longrightarrow> moves g (g\<lparr>gen_items := xs\<rparr>)"
  by (simp_all add: moves_def serving_def)

lemma attempt_branches:
  "bindS (attempt m) (\<lambda>r. case r of Inl e \<Rightarrow> a e | Inr x \<Rightarrow> b x) s = (y, t) \<Longrightarrow>
   (\<exists>e u. a e u = (y, t)) \<or> (\<exists>x u. b x u = (y, t))"
  by (auto simp: bindS_def attempt_def split: prod.splits sum.splits)

lemma advances_handle_event:
  assumes "aead_total P" "gen_phase g \<noteq> Gone"
  shows "advances P (\<lambda>g. handle_event P D1 D2 g e) g"
proof -
  note rules = keeps_bindS keeps_pure still_attempt still_calls [OF assms(1)] is_terminal_ends
    still_fail_with [OF assms(1)] still_publish
  have "keeps (still P A T) (handle_event P D1 D2 g e)" for A T
  proof (cases e)
    case (TextDelta rid delta)
    then show ?thesis by (auto intro!: rules simp: Let_def split: sum.split)
  next
    case (Completed rid)
    then show ?thesis by (auto intro!: rules split: sum.split)
  next
    case (FailedEvent rid code message)
    then show ?thesis by (auto intro!: rules)
  qed
  moreover have "moves g h" if "handle_event P D1 D2 g e s = (Inr h, t)" for s h t
    using that assms(2)
    by (cases e) (auto simp: Let_def publish_def split: if_splits dest!: attempt_branches dest: fail_with_Inr
      intro!: moves_returned moves_refl moves_fields)
  ultimately show ?thesis by (simp add: advances_def)
qed

lemma advances_next_item:
  assumes "aead_total P" "gen_phase g = Streaming"
  shows "advances P (next_item P D1 D2) g"
proof (cases "gen_items g")
  case Nil
  with assms(2) show ?thesis
    by (auto simp: advances_def next_item_def dest!: fail_with_Inr intro!: moves_returned still_fail_with [OF assms(1)])
next
  case (Cons item items)
  let ?g = "g\<lparr>gen_items := items\<rparr>"
  have g: "gen_phase ?g \<noteq> Gone" "moves g ?g" using assms(2) by (simp_all add: moves_fields)
  show ?thesis
  proof (cases item)
    case (Inl e)
    with Cons g assms(2) show ?thesis
      by (auto simp: advances_def next_item_def Let_def dest!: fail_with_Inr split: if_splits
        intro!: moves_returned keeps_pure still_fail_with [OF assms(1)])
  next
    case (Inr e)
    have "next_item P D1 D2 g = handle_event P D1 D2 ?g e" using Cons Inr by (simp add: next_item_def Let_def)
    with advances_handle_event [OF assms(1) g(1), of D1 D2 e] moves_trans [OF g(2)] show ?thesis
      unfolding advances_def by metis
  qed
qed

lemma advances_cancel_changed: "gen_phase g = Streaming \<Longrightarrow> advances P (\<lambda>g. retS (cancel_changed g)) g"
  by (auto simp: advances_def cancel_changed_def intro!: keeps_pure moves_returned moves_refl)

section \<open>Handlers\<close>

lemma coordinated_publish: "coordinated P s \<Longrightarrow> publish room name data s = (r, t) \<Longrightarrow> coordinated P t"
  by (auto simp: publish_def coordinated_def)

lemma coordinated_calls:
  assumes "aead_total P"
  shows "keeps (coordinated P) (on_store (stop_run P D i rid))" "keeps (coordinated P) (on_store (close_room P D i))"
    "keeps (coordinated P) (on_store (required_snapshot P i))" "keeps (coordinated P) (publish room name data)"
  by (rule still_coordinated, intro still_calls [OF assms] still_publish)+

lemma coordinated_start_run:
  assumes "coordinated P s" "start_run acc s = (r, t)" "trim (snap_id (acc_snapshot acc)) = snap_id (acc_snapshot acc)"
    and "\<not> closed_in (snap_id (acc_snapshot acc)) (rs_db (rr_store s))"
    and "\<not> settled (snap_id (acc_snapshot acc)) (run_run_id (acc_run acc)) (rs_db (rr_store s))"
  shows "coordinated P t"
proof (cases "rr_active s (snap_id (acc_snapshot acc)) = None")
  case True
  have g: "gen_room (new_generation acc) = snap_id (acc_snapshot acc)" "gen_run (new_generation acc) = run_run_id (acc_run acc)"
    "gen_phase (new_generation acc) = Connecting" by (simp_all add: new_generation_def)
  from assms(2) True have t: "t = s\<lparr>rr_active := (rr_active s)(snap_id (acc_snapshot acc) \<mapsto>
      \<lparr>ar_run_id = run_run_id (acc_run acc), ar_task = length (rr_tasks s)\<rparr>), rr_tasks := rr_tasks s @ [new_generation acc]\<rparr>"
    by (simp add: start_run_def Let_def)
  show ?thesis
    using gens_start [of "rs_db (rr_store s)" "rr_active s" "rr_tasks s" "new_generation acc"] True assms(1,3-5)
    unfolding t by (simp add: g coordinated_def)
next
  case False
  with assms(1,2) show ?thesis by (simp add: start_run_def Let_def)
qed

lemma coordinated_submit:
  assumes "aead_total P" "coordinated P s" "submit_turn P D session input s = (r, t)"
    and "opaque_id ''run_'' (uuid D 1) \<notin> set (map gen_run (rr_tasks s))" "trim (sess_room_id session) = sess_room_id session"
  shows "coordinated P t"
proof -
  have k: "keeps (still P (rr_active s) (rr_tasks s)) (on_store (append_user_turn P D session input))"
    by (rule still_on_store, rule holds_turn [OF assms(1)]) (use assms(4) in auto)
  from assms(3) show ?thesis unfolding submit_turn_def
  proof (cases rule: bindS_cases)
    case (fail e)
    with stillD [OF k assms(2)] show ?thesis by blast
  next
    case (go acc u)
    have u: "coordinated P u" using stillD [OF k assms(2)] go(1) by blast
    have a: "append_user_turn P D session input (rr_store s) = (Inr acc, rr_store u)"
      using go(1) by (auto simp: on_store_def split: prod.splits)
    have facts: "snap_id (acc_snapshot acc) = sess_room_id session" "\<not> closed_in (sess_room_id session) (rs_db (rr_store u))"
      "run_status (acc_run acc) = RunRunning \<Longrightarrow> \<not> settled (sess_room_id session) (run_run_id (acc_run acc)) (rs_db (rr_store u))"
      using accepted_turn [OF a assms(5) _ assms(1)] assms(2) by (auto simp: coordinated_def)
    from go(2) show ?thesis
    proof (cases rule: bindS_cases)
      case (fail e)
      then show ?thesis using coordinated_publish [OF u] by blast
    next
      case (go x v)
      have v: "coordinated P v" using coordinated_publish [OF u go(1)] .
      have store: "rr_store v = rr_store u" using go(1) by (auto simp: publish_def)
      from go(2) show ?thesis
      proof (cases rule: bindS_cases)
        case (fail e)
        then show ?thesis by (auto simp: start_run_def split: if_splits)
      next
        case (go y w)
        then show ?thesis
          using coordinated_start_run [OF v, of acc "Inr y" w] facts store assms(5) v by (auto split: if_splits)
      qed
    qed
  qed
qed

lemma coordinated_signal:
  assumes "coordinated P s" "signal_cancel room rid s = (r, t)"
  shows "coordinated P t \<and> rr_active t = rr_active s \<and> rr_store t = rr_store s
    \<and> (\<forall>a. rr_active s room = Some a \<longrightarrow> ar_run_id a = rid \<longrightarrow> \<not> serving (rr_tasks t ! ar_task a))"
proof (cases "\<exists>a. rr_active s room = Some a \<and> ar_run_id a = rid")
  case True
  then obtain a where a: "rr_active s room = Some a" "ar_run_id a = rid" by blast
  let ?h = "(rr_tasks s ! ar_task a)\<lparr>gen_cancel := True\<rparr>"
  have t: "t = s\<lparr>rr_tasks := (rr_tasks s)[ar_task a := ?h]\<rparr>" using assms(2) a by (simp add: signal_cancel_def)
  have e: "ar_task a < length (rr_tasks s)" "gen_phase (rr_tasks s ! ar_task a) \<noteq> Gone"
    using assms(1) a(1) by (auto simp: coordinated_def gens_ok_def entries_ok_def)
  then have "moves (rr_tasks s ! ar_task a) ?h" by (simp add: moves_def serving_def)
  with gens_task [of "rs_db (rr_store s)" "rr_active s" "rr_tasks s" "ar_task a"] e(1) a assms(1)
  show ?thesis unfolding t by (simp add: coordinated_def serving_def)
next
  case False
  then have "t = s" using assms(2) by (auto simp: signal_cancel_def split: option.splits)
  with False assms(1) show ?thesis by blast
qed

lemma entry_trim: "coordinated P s \<Longrightarrow> rr_active s room = Some a \<Longrightarrow> trim room = room"
  unfolding coordinated_def gens_ok_def entries_ok_def tasks_ok_def by metis


lemma stop_db_settles:
  assumes "stop_db P D room rid message d = (Inr (), e)"
  shows "settled room rid e"
proof -
  have "t_runs e = upd (\<lambda>u. u_id u = rid \<and> u_room_id u = room \<and> active u)
       (\<lambda>u. u\<lparr>u_status := ''canceled'', u_error_code := Some ''canceled'',
         u_error_message := Some message, u_finished_at := Some (now_text P D 0)\<rparr>) (t_runs d)"
    using assms by (auto simp: stop_db_def stmt_simps split: if_splits)
  then show ?thesis unfolding settled_def by (simp add: ball_upd) (simp add: active_def active_text_def)
qed

lemma close_db_closes:
  assumes "close_db P D room d = (Inr (), e)"
  shows "closed_in room e"
proof -
  have e: "t_rooms e = upd (\<lambda>r. r_id r = room \<and> r_status r \<noteq> ''closed'')
       (\<lambda>r. r\<lparr>r_status := ''closed'', r_updated_at := now_text P D 0\<rparr>) (t_rooms d)"
    and n: "cnt (\<lambda>r. r_id r = room \<and> r_status r \<noteq> ''closed'') (t_rooms d) \<noteq> 0"
    using assms by (auto simp: close_db_def stmt_simps revoke_sessions_def split: if_splits)
  from n obtain r where r: "r \<in> set (t_rooms d)" "r_id r = room \<and> r_status r \<noteq> ''closed''" by (auto simp: cnt_0_iff)
  from upd_hit [OF r(1), where Q = "\<lambda>r. r_id r = room \<and> r_status r \<noteq> ''closed''"
      and f = "\<lambda>r. r\<lparr>r_status := ''closed'', r_updated_at := now_text P D 0\<rparr>"] r(2)
  show ?thesis unfolding closed_in_def e by (intro bexI) auto
qed

lemma stop_run_settles:
  assumes "stop_run P D room rid s = (Inr u, t)" "trim room = room"
  shows "settled room rid (rs_db t)"
proof -
  from assms obtain x where "stop_db P D room rid x (rs_db s) = (Inr (), rs_db t)"
    by (auto simp: stop_run_def with_connection_eq bindS_eq_Inr validate_room_id_Inr elim!: valid_room_cases)
  then show ?thesis by (rule stop_db_settles)
qed

lemma close_room_closes:
  assumes "close_room P D room s = (Inr u, t)" "trim room = room"
  shows "closed_in room (rs_db t)"
proof -
  from assms have "close_db P D room (rs_db s) = (Inr (), rs_db t)"
    by (auto simp: close_room_def with_connection_eq validate_room_id_Inr elim!: valid_room_cases)
  then show ?thesis by (rule close_db_closes)
qed

lemma on_store_run: "on_store m s = (r, t) \<longleftrightarrow> (\<exists>u. m (rr_store s) = (r, u) \<and> t = s\<lparr>rr_store := u\<rparr>)"
  by (auto simp: on_store_def split: prod.splits)

text \<open>After the step that ends the run or closes the room, the rest of a handler keeps the invariant.\<close>

lemma coordinated_remove:
  assumes "coordinated P s" "remove_active room rid s = (r, t)"
    and "\<And>a. rr_active s room = Some a \<Longrightarrow> ar_run_id a = rid \<Longrightarrow>
      settled room rid (rs_db (rr_store s)) \<and> \<not> serving (rr_tasks s ! ar_task a)"
  shows "coordinated P t"
proof (cases "\<exists>a. rr_active s room = Some a \<and> ar_run_id a = rid")
  case True
  then obtain a where a: "rr_active s room = Some a" "ar_run_id a = rid" by blast
  with assms(2) have t: "t = s\<lparr>rr_active := (rr_active s)(room := None)\<rparr>" by (simp add: remove_active_def)
  show ?thesis using gens_remove [of "rs_db (rr_store s)" "rr_active s" "rr_tasks s" room] assms(1,3) a
    unfolding t by (simp add: coordinated_def)
next
  case False
  with assms(1,2) show ?thesis by (auto simp: remove_active_def split: option.splits)
qed

lemma coordinated_stop:
  assumes "aead_total P"
  shows "keeps (coordinated P) (runtime_stop_run P D room rid)"
proof (rule keepsI)
  fix s r t
  assume s: "coordinated P s" and run: "runtime_stop_run P D room rid s = (r, t)"
  obtain u where u: "signal_cancel room rid s = (Inr (), u)" by (simp add: signal_cancel_def)
  note sig = coordinated_signal [OF s u]
  have cu: "coordinated P u" using sig by blast
  have still: "keeps (still P (rr_active u) (rr_tasks u)) (on_store (stop_run P D room rid))"
    by (rule still_calls [OF assms])
  from run u have "bindS (on_store (stop_run P D room rid)) (\<lambda>_. bindS (remove_active room rid) (\<lambda>_.
     bindS (on_store (required_snapshot P room)) (\<lambda>snap.
     bindS (publish room ''turn.canceled'' (TurnCanceled rid snap)) (\<lambda>_. retS snap)))) u = (r, t)"
    by (simp add: runtime_stop_run_def)
  then show "coordinated P t"
  proof (cases rule: bindS_cases)
    case (fail e)
    with stillD [OF still cu] show ?thesis by blast
  next
    case (go x v)
    have v: "coordinated P v" "rr_active v = rr_active u" "rr_tasks v = rr_tasks u"
      using stillD [OF still cu refl refl go(1)] by blast+
    obtain w where w: "remove_active room rid v = (Inr (), w)" by (simp add: remove_active_def)
    have "settled room rid (rs_db (rr_store v)) \<and> \<not> serving (rr_tasks v ! ar_task a)"
      if "rr_active v room = Some a" "ar_run_id a = rid" for a
    proof
      show "settled room rid (rs_db (rr_store v))"
        using stop_run_settles entry_trim [OF v(1) that(1)] go(1) unfolding on_store_run by (metis room_runtime.select_convs(1) room_runtime.surjective room_runtime.update_convs(1))
      show "\<not> serving (rr_tasks v ! ar_task a)" using sig that v(2,3) by simp
    qed
    then have w': "coordinated P w" by (rule coordinated_remove [OF v(1) w])
    have "keeps (coordinated P) (bindS (on_store (required_snapshot P room)) (\<lambda>snap.
       bindS (publish room ''turn.canceled'' (TurnCanceled rid snap)) (\<lambda>_. retS snap)))"
      by (intro keeps_bindS keeps_pure coordinated_calls [OF assms])
    from keepsD [OF this w'] go(2) w show ?thesis by simp
  qed
qed

lemma coordinated_close:
  assumes "aead_total P"
  shows "keeps (coordinated P) (runtime_close_room P D1 D2 room)"
proof -
  let ?tail = "bindS (on_store (close_room P D2 room)) (\<lambda>_. bindS (remove_active_for_room room) (\<lambda>_.
     bindS (on_store (required_snapshot P room)) (\<lambda>snap.
     bindS (publish room ''room.closed'' (RoomClosedData snap)) (\<lambda>_. retS snap))))"
  have "keeps (coordinated P) ?tail"
  proof (rule keepsI)
    fix s r t
    assume s: "coordinated P s" and run: "?tail s = (r, t)"
    from run show "coordinated P t"
    proof (cases rule: bindS_cases)
      case (fail e)
      with keepsD [OF coordinated_calls(2) [OF assms] s] show ?thesis by blast
    next
      case (go x v)
      have v: "coordinated P v" using keepsD [OF coordinated_calls(2) [OF assms] s go(1)] .
      have "closed_in room (rs_db (rr_store v))" if "rr_active v room = Some a" for a
        using close_room_closes entry_trim [OF v that] go(1) unfolding on_store_run
        by (metis room_runtime.select_convs(1) room_runtime.surjective room_runtime.update_convs(1))
      then have w: "coordinated P (v\<lparr>rr_active := (rr_active v)(room := None)\<rparr>)"
        using v gens_remove [of "rs_db (rr_store v)" "rr_active v" "rr_tasks v" room] by (auto simp: coordinated_def)
      have "keeps (coordinated P) (bindS (on_store (required_snapshot P room)) (\<lambda>snap.
         bindS (publish room ''room.closed'' (RoomClosedData snap)) (\<lambda>_. retS snap)))"
        by (intro keeps_bindS keeps_pure coordinated_calls [OF assms])
      from keepsD [OF this w] go(2) show ?thesis by (simp add: remove_active_for_room_def)
    qed
  qed
  moreover have "keeps (coordinated P) (bindS (attempt (runtime_stop_run P D1 room rid)) (\<lambda>_. retS ()))" for rid
    by (intro keeps_bindS keeps_pure still_attempt coordinated_stop [OF assms])
  ultimately have "keeps (coordinated P) (bindS (case snap_current_run current of
         Some run \<Rightarrow> if run_status run \<in> {RunQueued, RunRunning}
           then bindS (attempt (runtime_stop_run P D1 room (run_run_id run))) (\<lambda>_. retS ()) else retS ()
       | None \<Rightarrow> retS ()) (\<lambda>_. ?tail))" for current
    by (intro keeps_bindS [where k = "\<lambda>_. ?tail"]) (auto intro: keeps_pure split: option.split)
  from keeps_bindS [OF coordinated_calls(3) [OF assms] this] show ?thesis unfolding runtime_close_room_def .
qed

section \<open>The process\<close>

lemma coordinated_step:
  assumes "aead_total P" "rt_step P s t" "coordinated P s"
  shows "coordinated P t"
  using assms(2)
proof cases
  case (rt_api D u)
  have "holds P (over (rs_db (rr_store s)) (rr_tasks s)) (shut (rs_db (rr_store s))) (rr_store s)"
    by (rule holds_start) (use assms(3) in \<open>simp add: coordinated_def\<close>)
  from holds_api [OF assms(1) rt_api(2) this] show ?thesis using coordinated_store [OF assms(3)] rt_api(1) by simp
next
  case (rt_submit D session input r)
  then show ?thesis using coordinated_submit [OF assms(1,3)] by blast
next
  case (rt_stop D room rid r)
  then show ?thesis using keepsD [OF coordinated_stop [OF assms(1)] assms(3)] by blast
next
  case (rt_close D1 D2 room r)
  then show ?thesis using keepsD [OF coordinated_close [OF assms(1)] assms(3)] by blast
next
  case (rt_connect i D model r)
  then show ?thesis using advances_run_task [OF advances_connect [OF assms(1)] _ assms(3)] by blast
next
  case (rt_item i D1 D2 r)
  then show ?thesis using advances_run_task [OF advances_next_item [OF assms(1)] _ assms(3)] by blast
next
  case (rt_cancel i r)
  then show ?thesis using advances_run_task [OF advances_cancel_changed _ assms(3)] by blast
next
  case (rt_done i r)
  let ?g = "rr_tasks s ! i"
  have t: "rr_store t = rr_store s" "rr_tasks t = (rr_tasks s)[i := ?g\<lparr>gen_phase := Gone\<rparr>]"
    "rr_active t = (case rr_active s (gen_room ?g) of Some a \<Rightarrow>
      if ar_run_id a = gen_run ?g then (rr_active s)(gen_room ?g := None) else rr_active s | None \<Rightarrow> rr_active s)"
    using rt_done(3) by (auto simp: task_done_def remove_active_def split: option.splits)
  show ?thesis using gens_done [OF _ rt_done(1,2) t(3)] assms(3) by (simp add: coordinated_def t(1,2))
qed

lemma coordinated_started: "reachable P s \<Longrightarrow> coordinated P (started s)"
  by (simp add: coordinated_def started_def gens_defs)

lemma reachable_coordinated:
  assumes "rt_reachable P s" "aead_total P"
  shows "coordinated P s"
  using assms
proof induction
  case (rt_start u D r store)
  show ?case by (rule coordinated_started [OF reachable.step [OF rt_start(1) step_recover [OF rt_start(2)]]])
next
  case (rt_more s t)
  then show ?case using coordinated_step by blast
qed


end
