(* ===== verification/Room_Delivery.thy ===== *)
theory Room_Delivery
  imports Room_Generations
begin

text \<open>
  backend/src/inference.rs, what a turn comes to: a generation that streams its deltas and then the
  completion delivers their concatenation as the room's last message and publishes it; a generation
  that cannot connect ends its run.
\<close>

section \<open>Turns of the loop\<close>

text \<open>The \<open>i\<close>-th task takes the stream branch once for each pair of draws.\<close>

fun drive :: "platform \<Rightarrow> nat \<Rightarrow> (draws \<times> draws) list \<Rightarrow> unit rtop" where
  "drive P i [] = retS ()"
| "drive P i ((D1, D2) # Ds) = bindS (run_task i (next_item P D1 D2)) (\<lambda>_. drive P i Ds)"

text \<open>A task ready to stream \<open>items\<close> into a run whose text is \<open>v\<close> so far.\<close>

definition streaming :: "platform \<Rightarrow> nat \<Rightarrow> string \<Rightarrow> string \<Rightarrow> string \<Rightarrow> string \<Rightarrow> stream_item list \<Rightarrow> room_runtime \<Rightarrow> bool" where
  "streaming P i room rid req v items s \<longleftrightarrow> i < length (rr_tasks s) \<and> reachable P (rr_store s)
     \<and> ensure_writable (rs_seal (rr_store s)) = Inr ()
     \<and> partial_of P (rr_store s) room rid = Some v \<and> utf8_valid v
     \<and> (let g = rr_tasks s ! i in gen_room g = room \<and> gen_run g = rid \<and> gen_request_id g = req
         \<and> gen_phase g = Streaming \<and> \<not> gen_cancel g \<and> gen_items g = items)"

definition delta_ok :: "string \<Rightarrow> bool" where
  "delta_ok d \<longleftrightarrow> validate_delta d = Inr d \<and> utf8_valid d"

lemma utf8_append: "utf8_valid v \<Longrightarrow> utf8_valid w \<Longrightarrow> utf8_valid (v @ w)"
  by (rule utf8_valid_append)

lemma streaming_delta:
  assumes "aead_laws P" "aead_total P" "b64_laws P"
    and "streaming P i room rid req v (Inr (TextDelta req d) # items) s" "delta_ok d"
    and "length (chars (v @ d)) \<le> MAX_MESSAGE_CHARS" "length (nonce D1 0) = NONCE_LEN"
  shows "\<exists>t. run_task i (next_item P D1 D2) s = (Inr (), t) \<and> streaming P i room rid req (v @ d) items t
    \<and> t_messages (rs_db (rr_store t)) = t_messages (rs_db (rr_store s))"
proof -
  let ?g = "rr_tasks s ! i"
  have g: "i < length (rr_tasks s)" "gen_room ?g = room" "gen_run ?g = rid" "gen_request_id ?g = req" "gen_phase ?g = Streaming"
    "\<not> gen_cancel ?g" "gen_items ?g = Inr (TextDelta req d) # items"
    and r: "reachable P (rr_store s)" "ensure_writable (rs_seal (rr_store s)) = Inr ()"
      "partial_of P (rr_store s) room rid = Some v" "utf8_valid v"
    using assms(4) by (auto simp: streaming_def Let_def)
  have d: "validate_delta d = Inr d" "utf8_valid d" "d \<noteq> []" using assms(5) by (auto simp: delta_ok_def validate_delta_Inr)
  obtain u where u: "append_delta P D1 room rid d (rr_store s) = (Inr (), u)"
    using append_delta_succeeds [OF r(1) assms(2) r(2,3) d(1) assms(6)] by blast
  let ?g' = "?g\<lparr>gen_items := items, gen_partial := gen_partial ?g @ d\<rparr>"
  let ?t = "s\<lparr>rr_store := u, rr_published := rr_published s @
       [(room, \<lparr>ev_name = ''turn.delta'', ev_data = TurnDelta rid req d (gen_partial ?g @ d)\<rparr>)],
     rr_tasks := (rr_tasks s)[i := ?g']\<rparr>"
  have run: "run_task i (next_item P D1 D2) s = (Inr (), ?t)"
    using g u d(3) by (simp add: run_task_def next_item_def Let_def bindS_def attempt_def on_store_def publish_def)
  have m: "t_messages (rs_db u) = t_messages (rs_db (rr_store s))" by (rule append_delta_Inr [OF u]) simp
  have "streaming P i room rid req (v @ d) items ?t"
    using g r u append_delta_reachable [OF r(1) u] append_delta_seal [OF u]
      append_delta_partial [OF assms(1,3) r(1) assms(2) u r(3,4) d(2) assms(7)] utf8_append [OF r(4) d(2)]
    by (simp add: streaming_def Let_def)
  with run m show ?thesis by auto
qed

text \<open>The completion: the reply is stored, the snapshot published.\<close>

lemma streaming_completes:
  assumes "aead_laws P" "aead_total P" "b64_laws P"
    and "streaming P i room rid req v (Inr (Completed req) # items) s" "validate_room_id room = Inr room"
    and "v \<noteq> []" "length (chars v) \<le> MAX_MESSAGE_CHARS" "length (nonce D1 0) = NONCE_LEN"
    and "opaque_id ''msg_'' (uuid D1 0) \<notin> set (map m_id (t_messages (rs_db (rr_store s))))"
    and "\<forall>m\<in>set (t_messages (rs_db (rr_store s))). m_room_id m = room \<longrightarrow> m_created_at m < now_text P D1 0"
  shows "\<exists>t snap before m. run_task i (next_item P D1 D2) s = (Inr (), t)
    \<and> rr_published t = rr_published s @ [(room, \<lparr>ev_name = ''turn.completed'', ev_data = TurnCompleted rid req snap\<rparr>)]
    \<and> snap_messages snap = before @ [m] \<and> msg_role m = Assistant \<and> msg_text m = v
    \<and> snap_status snap \<in> {RoomIdle, RoomClosed} \<and> gen_phase (rr_tasks t ! i) = Returned"
proof -
  let ?g = "rr_tasks s ! i"
  have g: "i < length (rr_tasks s)" "gen_room ?g = room" "gen_run ?g = rid" "gen_request_id ?g = req" "gen_phase ?g = Streaming"
    "\<not> gen_cancel ?g" "gen_items ?g = Inr (Completed req) # items"
    and r: "reachable P (rr_store s)" "ensure_writable (rs_seal (rr_store s)) = Inr ()"
      "partial_of P (rr_store s) room rid = Some v" "utf8_valid v"
    using assms(4) by (auto simp: streaming_def Let_def)
  have trim: "trim room = room" using assms(5) by (simp add: validate_room_id_Inr)
  have fin: "rt_status completed_terminal = RunCompleted" "rt_error_message completed_terminal = None"
    by (simp_all add: completed_terminal_def)
  obtain snap u where u: "finish_run P D1 room rid completed_terminal (rr_store s) = (Inr snap, u)"
    using finish_completes [OF r(1) assms(2) r(2) assms(5) r(3) assms(7,9) fin] by blast
  have delivers: "(\<exists>before m. snap_messages snap = before @ [m] \<and> msg_role m = Assistant \<and> msg_text m = v
      \<and> msg_participant_id m = None) \<and> snap_status snap \<in> {RoomIdle, RoomClosed}"
    by (rule finish_delivers [OF assms(1-3) r(1) u fin(1) _ assms(6) r(4) assms(8)]) (use trim r(3) assms(10) in simp_all)
  let ?t = "s\<lparr>rr_store := u, rr_published := rr_published s @
       [(room, \<lparr>ev_name = ''turn.completed'', ev_data = TurnCompleted rid req snap\<rparr>)],
     rr_tasks := (rr_tasks s)[i := returned (?g\<lparr>gen_items := items\<rparr>)]\<rparr>"
  have run: "run_task i (next_item P D1 D2) s = (Inr (), ?t)"
    using g u by (simp add: run_task_def next_item_def Let_def bindS_def attempt_def on_store_def publish_def)
  then show ?thesis using delivers g(1) by (fastforce simp: returned_def)
qed


lemma drive_snoc: "drive P i (Ds @ [(D1, D2)]) = bindS (drive P i Ds) (\<lambda>_. run_task i (next_item P D1 D2))"
proof (induction Ds)
  case Nil
  have "bindS m (\<lambda>_. retS ()) = m" for m :: "unit rtop"
    by (rule ext) (auto simp: bindS_def split: prod.splits sum.splits)
  then show ?case by (auto simp: bindS_def)
next
  case (Cons D Ds)
  have assoc: "bindS (bindS m k) h = bindS m (\<lambda>x. bindS (k x) h)" for m :: "unit rtop" and k h
    by (rule ext) (auto simp: bindS_def split: prod.splits sum.splits)
  obtain a b where "D = (a, b)" by (cases D)
  with Cons show ?case by (simp add: assoc)
qed

lemma streaming_deltas:
  assumes "aead_laws P" "aead_total P" "b64_laws P" "length Ds = length ds" "\<forall>d\<in>set ds. delta_ok d"
    and "\<forall>(D1, D2)\<in>set Ds. length (nonce D1 0) = NONCE_LEN"
    and "streaming P i room rid req v (map (\<lambda>d. Inr (TextDelta req d)) ds @ items) s"
    and "length (chars (v @ concat ds)) \<le> MAX_MESSAGE_CHARS"
  shows "\<exists>t. drive P i Ds s = (Inr (), t) \<and> streaming P i room rid req (v @ concat ds) items t
    \<and> t_messages (rs_db (rr_store t)) = t_messages (rs_db (rr_store s))"
  using assms(4-)
proof (induction Ds ds arbitrary: s v rule: list_induct2)
  case Nil
  then show ?case by simp
next
  case (Cons D Ds d ds)
  obtain D1 D2 where D: "D = (D1, D2)" by (cases D)
  have cap: "length (chars (v @ d)) \<le> MAX_MESSAGE_CHARS"
  proof -
    have "utf8_valid v" "utf8_valid d" using Cons.prems(1,3) by (auto simp: streaming_def delta_ok_def)
    then have "chars (v @ d @ concat ds) = chars (v @ d) @ chars (concat ds)"
      using chars_append [OF utf8_append, of v d "concat ds"] by simp
    with Cons.prems(4) show ?thesis by simp
  qed
  have "streaming P i room rid req v (Inr (TextDelta req d) # map (\<lambda>d. Inr (TextDelta req d)) ds @ items) s"
    using Cons.prems(3) by simp
  from streaming_delta [OF assms(1-3) this _ cap, of D1 D2] Cons.prems(1,2) D
  obtain u where u: "run_task i (next_item P D1 D2) s = (Inr (), u)"
      "streaming P i room rid req (v @ d) (map (\<lambda>d. Inr (TextDelta req d)) ds @ items) u"
      "t_messages (rs_db (rr_store u)) = t_messages (rs_db (rr_store s))" by auto
  from Cons.IH [OF _ _ u(2)] Cons.prems(1,2,4) u D show ?case by auto
qed


end
