(* ===== verification/Sample_Rooms.thy ===== *)
theory Sample_Rooms
  imports Room_Contracts Sample_Platform
begin

text \<open>
  One session of the store on the sample platform, with the literal store after each call: a room is
  created, a guest joins and submits a turn, a delta arrives, the run completes. Each call is evaluated,
  so the stores are reachable; the witnesses apply the properties to them.
\<close>

lemmas store_eval = eval_simps stmt_simps Let_def new_room_row_def new_participant_row_def sealing_seal_def sealing_open_def
  digest_def opaque_id_def

lemmas snapshot_eval = eval_simps required_snapshot_def snapshot_def valid_room_def snapshot_from_connection_def
  load_messages_def load_current_run_def load_participants_def recent_messages_def current_run_row_def bindS_def
  room_participants_def open_participant_def sealing_open_def row_to_participant_def row_to_message_def open_message_def
  row_to_run_def open_run_def open_run_or_blank_def sealing_open_opt_def message_order_def run_order_def participant_order_def
  shown_status_def MAX_HISTORY_MESSAGES_def

definition sample_created :: room_store where
  "sample_created = \<lparr>rs_db =
     \<lparr>t_rooms = [\<lparr>r_id = ''room_00000110'', r_schema_version = 1, r_contract = CONTRACT, r_status = ''idle'',
        r_model_id = ''m1'', r_engine = ENGINE, r_share_origin = ''http://lan'',
        r_created_at = ''1001000000000'', r_updated_at = ''1001000000000''\<rparr>],
      t_messages = [], t_runs = [],
      t_invites = [\<lparr>i_room_id = ''room_00000110'', i_digest = as_bytes ''00000112'',
        i_expires_at = ''1601000000000'', i_revoked_at = None\<rparr>],
      t_participants = [\<lparr>p_id = ''member_00000111'', p_room_id = ''room_00000110'', p_display_name = ''Host'',
        p_role = ''host'', p_online = True, p_created_at = ''1001000000000'', p_last_seen_at = ''1001000000000''\<rparr>],
      t_sessions = []\<rparr>, rs_seal = Compat, rs_unreadable = 0\<rparr>"

definition sample_guest :: room_session where
  "sample_guest = \<lparr>sess_room_id = ''room_00000110'', sess_participant_id = ''member_00000121'', sess_role = Guest,
     sess_display_name = ''Ann'', sess_secret = ''00000120''\<rparr>"

definition sample_joined :: room_store where
  "sample_joined = sample_created\<lparr>rs_db := (rs_db sample_created)\<lparr>
     t_participants := t_participants (rs_db sample_created) @
       [\<lparr>p_id = ''member_00000121'', p_room_id = ''room_00000110'', p_display_name = ''Ann'', p_role = ''guest'',
         p_online = True, p_created_at = ''1002000000000'', p_last_seen_at = ''1002000000000''\<rparr>],
     t_sessions := [\<lparr>s_digest = as_bytes ''00000120'', s_room_id = ''room_00000110'',
       s_participant_id = ''member_00000121'', s_role = ''guest'', s_expires_at = ''44202000000000'', s_revoked_at = None\<rparr>]\<rparr>\<rparr>"

definition sample_input :: submit_turn_input where
  "sample_input = \<lparr>st_text = '' hi'', st_idempotency_key = Some ''k1''\<rparr>"

lemma sample_exchange: "exchange_invite sample_platform (sample_draws 2) ''00000112'' ''Ann'' sample_created = (Inr sample_guest, sample_joined)"
  by (simp add: exchange_invite_def exchange_tx_def store_eval sample_created_def sample_guest_def sample_joined_def)

text \<open>The room and its first store.\<close>

definition sample_new_room :: create_room_input where
  "sample_new_room = \<lparr>cr_model_id = ''m1'', cr_share_origin = ''http://lan/''\<rparr>"

lemma sample_create: "\<exists>x. create_room sample_platform (sample_draws 1) sample_new_room (fresh_store Compat) = (Inr x, sample_created)"
  by (simp add: create_room_def store_eval fresh_store_def create_room_tx_def sample_new_room_def)
    (simp add: snapshot_eval sample_created_def)

text \<open>The guest's turn.\<close>

definition sample_run :: run_row where
  "sample_run = \<lparr>u_id = ''run_00000131'', u_room_id = ''room_00000110'', u_request_id = ''req_00000132'',
     u_idempotency_key = Some ''k1'', u_input_text = ''hi'', u_status = ''running'', u_partial_text = [],
     u_error_code = None, u_error_message = None, u_started_at = Some ''1003000000000'',
     u_finished_at = None, u_created_at = ''1003000000000''\<rparr>"

definition sample_room :: "string \<Rightarrow> string \<Rightarrow> room_row" where
  "sample_room status updated = \<lparr>r_id = ''room_00000110'', r_schema_version = 1, r_contract = CONTRACT, r_status = status,
     r_model_id = ''m1'', r_engine = ENGINE, r_share_origin = ''http://lan'',
     r_created_at = ''1001000000000'', r_updated_at = updated\<rparr>"

definition sample_turned :: room_store where
  "sample_turned = sample_joined\<lparr>rs_db := (rs_db sample_joined)\<lparr>
     t_rooms := [sample_room ''running'' ''1003000000000''],
     t_messages := [\<lparr>m_id = ''msg_00000130'', m_room_id = ''room_00000110'', m_role = ''user'', m_text = ''hi'',
       m_participant_id = Some ''member_00000121'', m_created_at = ''1003000000000''\<rparr>],
     t_runs := [sample_run]\<rparr>\<rparr>"

definition sample_streamed :: room_store where
  "sample_streamed = sample_turned\<lparr>rs_db := (rs_db sample_turned)\<lparr>
     t_rooms := [sample_room ''running'' ''1004000000000''], t_runs := [sample_run\<lparr>u_partial_text := ''yo''\<rparr>]\<rparr>\<rparr>"

lemmas sample_stores = sample_joined_def sample_created_def sample_guest_def sample_input_def sample_turned_def
  sample_run_def sample_room_def sample_streamed_def

lemma sample_turn: "commit_user_turn sample_platform (sample_draws 3) sample_guest sample_input sample_joined =
    (Inr (''hi'', ''run_00000131'', Some ''msg_00000130''), sample_turned)"
  by (simp add: commit_user_turn_def append_user_turn_tx_def start_turn_def store_eval sample_stores)

lemma sample_delta: "append_delta sample_platform (sample_draws 4) ''room_00000110'' ''run_00000131'' ''yo'' sample_turned =
    (Inr (), sample_streamed)"
  by (simp add: append_delta_def append_delta_db_def store_eval sample_stores)

definition sample_answered :: room_store where
  "sample_answered = sample_streamed\<lparr>rs_db := (rs_db sample_streamed)\<lparr>
     t_rooms := [sample_room ''idle'' ''1005000000000''],
     t_messages := t_messages (rs_db sample_streamed) @ [\<lparr>m_id = ''msg_00000150'', m_room_id = ''room_00000110'',
       m_role = ''assistant'', m_text = ''yo'', m_participant_id = None, m_created_at = ''1005000000000''\<rparr>],
     t_runs := [sample_run\<lparr>u_status := ''completed'', u_partial_text := ''yo'',
       u_finished_at := Some ''1005000000000''\<rparr>]\<rparr>\<rparr>"

definition sample_terminal :: run_terminal where
  "sample_terminal = \<lparr>rt_status = RunCompleted, rt_error_code = None, rt_error_message = None\<rparr>"

lemma sample_finish_tx: "finish_tx sample_platform (sample_draws 5) Compat ''room_00000110'' ''run_00000131''
    sample_terminal (rs_db sample_streamed) = (Inr (), rs_db sample_answered)"
  by (simp add: finish_tx_def settle_run_def add_reply_def trim_runs_def trim_messages_def sealing_seal_opt_def
    run_order_def message_order_def store_eval sample_stores sample_terminal_def sample_answered_def
    MAX_HISTORY_MESSAGES_def MAX_RETAINED_RUNS_def)

lemma sample_room_id: "validate_room_id ''room_00000110'' = Inr ''room_00000110''" "trim ''room_00000110'' = ''room_00000110''"
  by (simp_all add: eval_simps)

lemma sample_snapshot: "\<exists>x. required_snapshot sample_platform ''room_00000110'' sample_answered = (Inr x, sample_answered)"
  by (simp add: snapshot_eval sample_answered_def sample_stores)

lemma sample_finish: "\<exists>x. finish_run sample_platform (sample_draws 5) ''room_00000110'' ''run_00000131'' sample_terminal
    sample_streamed = (Inr x, sample_answered)"
proof -
  have "sample_streamed\<lparr>rs_db := rs_db sample_answered\<rparr> = sample_answered" "rs_seal sample_streamed = Compat"
    by (simp_all add: sample_answered_def sample_stores)
  then show ?thesis using sample_finish_tx sample_snapshot sample_room_id
    by (simp add: finish_run_def valid_room_def bindS_liftE with_connection_def)
qed

section \<open>The stores are reachable\<close>

lemma sample_clocked:
  "clocked sample_platform (1001 * NANOS) sample_created" "clocked sample_platform (1002 * NANOS) sample_joined"
  "clocked sample_platform (1003 * NANOS) sample_turned" "clocked sample_platform (1004 * NANOS) sample_streamed"
  "clocked sample_platform (1005 * NANOS) sample_answered"
proof -
  obtain x where x: "create_room sample_platform (sample_draws 1) sample_new_room (fresh_store Compat) = (Inr x, sample_created)"
    using sample_create by blast
  show created: "clocked sample_platform (1001 * NANOS) sample_created"
    by (rule clock_step [where now = 0, OF clock_fresh step_create [OF x]]) (simp add: eval_sample NANOS_def)
  show joined: "clocked sample_platform (1002 * NANOS) sample_joined"
    by (rule clock_step [OF created step_exchange [OF sample_exchange]]) (simp add: eval_sample NANOS_def)
  show turned: "clocked sample_platform (1003 * NANOS) sample_turned"
    by (rule clock_step [OF joined step_turn [OF sample_turn]]) (simp add: eval_sample NANOS_def)
  show streamed: "clocked sample_platform (1004 * NANOS) sample_streamed"
    by (rule clock_step [OF turned step_delta [OF sample_delta]]) (simp add: eval_sample NANOS_def)
  obtain y where y: "finish_run sample_platform (sample_draws 5) ''room_00000110'' ''run_00000131'' sample_terminal
    sample_streamed = (Inr y, sample_answered)" using sample_finish by blast
  show "clocked sample_platform (1005 * NANOS) sample_answered"
    by (rule clock_step [OF streamed step_finish [OF y]]) (simp_all add: eval_sample NANOS_def sample_terminal_def is_terminal_def)
qed

lemmas sample_reachable = sample_clocked [THEN clocked_reachable]

end
