(* ===== verification/Room_Witnesses.thy ===== *)
theory Room_Witnesses
  imports Sample_Rooms
begin

text \<open>The store's properties applied to the stores of the sample session.\<close>

lemma store_invariant_witness: "db_inv (rs_db sample_answered)"
  by (rule store_invariant [OF sample_reachable(5) sample_aead_total])

lemma room_capacity_witness:
  "length (live_participants sample_platform (1003 * NANOS) ''room_00000110'' (rs_db sample_joined)) \<le> MAX_PARTICIPANTS"
  by (rule room_capacity [OF sample_clocked(2) sample_aead_total]) (simp add: NANOS_def)

lemma sample_guest_fields [simp]: "sess_secret sample_guest = ''00000120''" "sess_room_id sample_guest = ''room_00000110''"
  "sess_display_name sample_guest = ''Ann''" "sess_role sample_guest = Guest"
  by (simp_all add: sample_guest_def)

lemma exchanged_session_resolves_witness:
  "resolve_session sample_platform (sample_draws 3) ''00000120'' sample_joined = (Inr (Some sample_guest), sample_joined)"
  using exchanged_session_resolves [OF sample_aead_laws sample_b64_laws sample_clock_laws sample_aead_total
      sample_reachable(1) sample_exchange, of "sample_draws 3"]
  by (simp add: eval_simps NONCE_LEN_def SESSION_TTL_SECS_def instant_ok_def)

lemma sample_busy: "\<exists>t. commit_user_turn sample_platform (sample_draws 4) sample_guest
    \<lparr>st_text = ''again'', st_idempotency_key = None\<rparr> sample_turned = (Inl RoomBusy, t)"
  by (simp add: commit_user_turn_def append_user_turn_tx_def start_turn_def store_eval sample_stores)


lemma recovery_settles_every_run_witness:
  "\<exists>t. recover_running sample_platform (sample_draws 4) sample_turned = (Inr 1, t) \<and> (\<forall>u\<in>set (t_runs (rs_db t)). u_status u \<noteq> ''running'')"
proof -
  have "cnt active (t_runs (rs_db sample_turned)) = 1" by (simp add: sample_stores eval_simps)
  then show ?thesis using recovery_settles_every_run [OF sample_reachable(3) sample_aead_total, of "sample_draws 4"] by auto
qed

lemma snapshots_always_answer_witness: "\<exists>snap n. required_snapshot sample_platform ''room_00000110'' sample_answered =
    (Inr snap, sample_answered\<lparr>rs_unreadable := n\<rparr>) \<and> snap_id snap = ''room_00000110''"
  using snapshots_always_answer [OF sample_reachable(5) sample_aead_total sample_room_id(1)]
  by (auto simp: room_exists_def sample_answered_def sample_room_def)

lemma sample_close: "\<exists>t. close_room sample_platform (sample_draws 6) ''room_00000110'' sample_joined = (Inr (), t)"
  by (simp add: close_room_def close_db_def revoke_sessions_def valid_room_def store_eval sample_stores)

lemma guests_cut_off_witness: "\<exists>t. close_room sample_platform (sample_draws 6) ''room_00000110'' sample_joined = (Inr (), t)
    \<and> (\<forall>D' raw sess u. resolve_session sample_platform D' raw t = (Inr (Some sess), u) \<longrightarrow> sess_room_id sess \<noteq> ''room_00000110'')"
proof -
  obtain t where t: "close_room sample_platform (sample_draws 6) ''room_00000110'' sample_joined = (Inr (), t)" using sample_close by blast
  show ?thesis using guests_cut_off [OF disjI1 [OF t]] t sample_room_id(2) by auto
qed

lemma sample_issue: "\<exists>x t. issue_invite sample_platform (sample_draws 6) ''room_00000110'' sample_joined = (Inr x, t)"
  by (simp add: issue_invite_def issue_tx_def revoke_sessions_def delete_participants_def valid_room_def store_eval sample_stores)


lemma sample_answered_run: "sample_run\<lparr>u_status := ''completed'', u_partial_text := ''yo'', u_finished_at := Some ''1005000000000''\<rparr>
    \<in> set (t_runs (rs_db sample_answered))"
  by (simp add: sample_answered_def)

lemma ended_runs_frozen_witness: "\<exists>u t. close_room sample_platform (sample_draws 6) ''room_00000110'' sample_answered = (Inr (), t)
    \<and> u_status u = ''completed'' \<and> (u \<in> set (t_runs (rs_db t)) \<or> (\<forall>v\<in>set (t_runs (rs_db t)). u_id v \<noteq> u_id u))"
proof -
  have "\<exists>t. close_room sample_platform (sample_draws 6) ''room_00000110'' sample_answered = (Inr (), t)"
    by (simp add: close_room_def close_db_def revoke_sessions_def valid_room_def store_eval sample_stores sample_answered_def)
  then obtain t where t: "close_room sample_platform (sample_draws 6) ''room_00000110'' sample_answered = (Inr (), t)" by blast
  show ?thesis using ended_runs_frozen [OF sample_reachable(5) sample_aead_total step_close [OF t] sample_answered_run] t
    by (intro exI [of _ "sample_run\<lparr>u_status := ''completed'', u_partial_text := ''yo'', u_finished_at := Some ''1005000000000''\<rparr>"]
      exI [of _ t]) simp
qed

lemma closed_forever_witness: "\<exists>t. reachable sample_platform t
    \<and> (\<forall>D' input x u. commit_user_turn sample_platform D' sample_guest input t \<noteq> (Inr x, u))"
proof -
  obtain t where t: "close_room sample_platform (sample_draws 6) ''room_00000110'' sample_joined = (Inr (), t)" using sample_close by blast
  have "t_rooms (rs_db t) = [sample_room ''closed'' ''1006000000000'']"
    using t by (simp add: close_room_def close_db_def revoke_sessions_def valid_room_def store_eval sample_stores) auto
  then have r: "sample_room ''closed'' ''1006000000000'' \<in> set (t_rooms (rs_db t))" by simp
  have reach: "reachable sample_platform t" by (rule reachable.step [OF sample_reachable(2) step_close [OF t]])
  have again: "store_step sample_platform (sample_draws 7) t (t\<lparr>rs_seal := Compat, rs_unreadable := 0\<rparr>)" by (rule reopened)
  show ?thesis using closed_forever [OF reach sample_aead_total r _ again] reachable.step [OF reach again]
    by (intro exI [of _ "t\<lparr>rs_seal := Compat, rs_unreadable := 0\<rparr>"]) (auto simp: sample_room_def)
qed

lemma turn_starts_one_run_witness: "active_runs (rs_db sample_joined) ''room_00000110'' = 0 \<and> active_runs (rs_db sample_turned) ''room_00000110'' = 1"
  using turn_starts_one_run [OF sample_reachable(2) sample_aead_total sample_aead_laws sample_b64_laws sample_turn]
  by (simp add: eval_simps NONCE_LEN_def)

lemma retry_is_idempotent_witness: "commit_user_turn sample_platform (sample_draws 4) sample_guest sample_input sample_turned
    = (Inr (''hi'', ''run_00000131'', None), sample_turned)"
proof -
  have "validate_prompt (st_text sample_input) = Inr ''hi''" "st_idempotency_key sample_input \<noteq> None" "utf8_valid ''hi''"
    by (simp_all add: sample_input_def eval_simps)
  then show ?thesis
    using retry_is_idempotent [OF sample_reachable(2) sample_aead_total sample_aead_laws sample_b64_laws sample_turn,
        of sample_guest sample_input "''hi''" "sample_draws 4"]
    by (simp add: eval_simps NONCE_LEN_def)
qed

lemma sample_partial: "partial_of sample_platform sample_turned ''room_00000110'' ''run_00000131'' = Some []"
  "partial_of sample_platform sample_streamed ''room_00000110'' ''run_00000131'' = Some ''yo''"
  by (simp_all add: partial_of_def store_eval sample_stores)

lemma streamed_text_accumulates_witness:
  "partial_of sample_platform sample_streamed ''room_00000110'' ''run_00000131'' = Some ([] @ concat [''yo''])"
proof -
  have "stream_deltas sample_platform ''room_00000110'' ''run_00000131'' [(sample_draws 4, ''yo'')] sample_turned = (Inr (), sample_streamed)"
    using sample_delta by simp
  from streamed_text_accumulates [OF sample_aead_laws sample_b64_laws sample_reachable(3) sample_aead_total this sample_partial(1)]
  show ?thesis by (simp add: eval_simps NONCE_LEN_def)
qed

lemma retention_after_finish_witness: "cnt (\<lambda>u. u_room_id u = ''room_00000110'') (t_runs (rs_db sample_answered)) \<le> MAX_RETAINED_RUNS
    \<and> active_runs (rs_db sample_answered) ''room_00000110'' = 0"
proof -
  obtain x where x: "finish_run sample_platform (sample_draws 5) ''room_00000110'' ''run_00000131'' sample_terminal
    sample_streamed = (Inr x, sample_answered)" using sample_finish by blast
  have "sample_run\<lparr>u_partial_text := ''yo''\<rparr> \<in> set (t_runs (rs_db sample_streamed))" by (simp add: sample_streamed_def)
  from retention_after_finish [OF sample_reachable(4) sample_aead_total x _ this] show ?thesis
    by (simp add: sample_terminal_def is_terminal_def sample_run_def sample_room_id)
qed


end
