(* ===== verification/Sample_Runtime.thy ===== *)
theory Sample_Runtime
  imports Room_Delivery Room_Witnesses
begin

text \<open>
  The runtime on the sample platform: the guest's turn starts a generation, which streams and
  completes; and a second turn that comes in before the first generation's entry is removed.
\<close>

section \<open>The first turn\<close>

definition sample_recovered :: room_runtime where
  "sample_recovered = started sample_joined"

lemma sample_recover: "recover_running sample_platform (sample_draws 2) sample_joined = (Inr 0, sample_joined)"
  by (simp add: recover_running_def recover_db_def store_eval sample_stores sample_room_def)

lemma sample_recovered_reachable: "rt_reachable sample_platform sample_recovered"
  unfolding sample_recovered_def by (rule rt_start [OF sample_reachable(2) sample_recover])

lemma sample_reply: "\<exists>acc. append_user_turn_reply sample_platform ''room_00000110'' ''hi'' (''run_00000131'', Some ''msg_00000130'')
    sample_turned = (Inr acc, sample_turned) \<and> snap_id (acc_snapshot acc) = ''room_00000110''
    \<and> run_run_id (acc_run acc) = ''run_00000131'' \<and> run_request_id (acc_run acc) = ''req_00000132'' \<and> run_status (acc_run acc) = RunRunning"
  by (simp add: append_user_turn_reply_def snapshot_eval sample_stores CONTRACT_def ENGINE_def parse_run_status_def)

lemma sample_session: "trim (sess_room_id sample_guest) = sess_room_id sample_guest" "sess_room_id sample_guest = ''room_00000110''"
  by (simp_all add: sample_guest_def eval_simps)

lemma sample_submit: "\<exists>r s. submit_turn sample_platform (sample_draws 3) sample_guest sample_input sample_recovered = (r, s)
   \<and> rr_store s = sample_turned \<and> rr_active s = [''room_00000110'' \<mapsto> \<lparr>ar_run_id = ''run_00000131'', ar_task = 0\<rparr>]
   \<and> (\<exists>g. rr_tasks s = [g] \<and> gen_room g = ''room_00000110'' \<and> gen_run g = ''run_00000131'' \<and> gen_request_id g = ''req_00000132''
       \<and> gen_phase g = Connecting \<and> \<not> gen_cancel g)"
proof -
  obtain acc where acc: "append_user_turn_reply sample_platform ''room_00000110'' ''hi'' (''run_00000131'', Some ''msg_00000130'')
    sample_turned = (Inr acc, sample_turned)" "snap_id (acc_snapshot acc) = ''room_00000110''"
    "run_run_id (acc_run acc) = ''run_00000131''" "run_request_id (acc_run acc) = ''req_00000132''" "run_status (acc_run acc) = RunRunning"
    using sample_reply by blast
  have "append_user_turn sample_platform (sample_draws 3) sample_guest sample_input sample_joined = (Inr acc, sample_turned)"
    using acc(1) sample_turn by (simp add: append_user_turn_def bindS_def sample_session)
  then show ?thesis using acc(2-)
    by (simp add: submit_turn_def bindS_def on_store_def publish_def start_run_def Let_def sample_recovered_def started_def
      new_generation_def)
qed


section \<open>A second turn before the first entry is removed\<close>

definition sample_quiet :: room_store where
  "sample_quiet = sample_turned\<lparr>rs_db := (rs_db sample_turned)\<lparr>
     t_rooms := [sample_room ''idle'' ''1004000000000''],
     t_runs := [sample_run\<lparr>u_status := ''completed'', u_finished_at := Some ''1004000000000''\<rparr>]\<rparr>\<rparr>"

lemma sample_quiet_tx: "finish_tx sample_platform (sample_draws 4) Compat ''room_00000110'' ''run_00000131''
    completed_terminal (rs_db sample_turned) = (Inr (), rs_db sample_quiet)"
  by (simp add: finish_tx_def settle_run_def trim_runs_def trim_messages_def sealing_seal_opt_def
    run_order_def message_order_def store_eval sample_stores sample_quiet_def completed_terminal_def
    MAX_HISTORY_MESSAGES_def MAX_RETAINED_RUNS_def)

lemma sample_quiet_finish: "\<exists>x. finish_run sample_platform (sample_draws 4) ''room_00000110'' ''run_00000131'' completed_terminal
    sample_turned = (Inr x, sample_quiet)"
proof -
  have "\<exists>x. required_snapshot sample_platform ''room_00000110'' sample_quiet = (Inr x, sample_quiet)"
    by (simp add: snapshot_eval sample_quiet_def sample_stores)
  moreover have "sample_turned\<lparr>rs_db := rs_db sample_quiet\<rparr> = sample_quiet" "rs_seal sample_turned = Compat"
    by (simp_all add: sample_quiet_def sample_stores)
  ultimately show ?thesis using sample_quiet_tx sample_room_id
    by (simp add: finish_run_def valid_room_def bindS_liftE with_connection_def)
qed

definition sample_again :: submit_turn_input where
  "sample_again = \<lparr>st_text = ''more'', st_idempotency_key = None\<rparr>"

definition sample_second :: room_store where
  "sample_second = sample_quiet\<lparr>rs_db := (rs_db sample_quiet)\<lparr>
     t_rooms := [sample_room ''running'' ''1006000000000''],
     t_messages := t_messages (rs_db sample_quiet) @ [\<lparr>m_id = ''msg_00000160'', m_room_id = ''room_00000110'', m_role = ''user'',
       m_text = ''more'', m_participant_id = Some ''member_00000121'', m_created_at = ''1006000000000''\<rparr>],
     t_runs := t_runs (rs_db sample_quiet) @ [\<lparr>u_id = ''run_00000161'', u_room_id = ''room_00000110'', u_request_id = ''req_00000162'',
       u_idempotency_key = None, u_input_text = ''more'', u_status = ''running'', u_partial_text = [],
       u_error_code = None, u_error_message = None, u_started_at = Some ''1006000000000'',
       u_finished_at = None, u_created_at = ''1006000000000''\<rparr>]\<rparr>\<rparr>"

lemma sample_second_turn: "commit_user_turn sample_platform (sample_draws 6) sample_guest sample_again sample_quiet =
    (Inr (''more'', ''run_00000161'', Some ''msg_00000160''), sample_second)"
  by (simp add: commit_user_turn_def append_user_turn_tx_def start_turn_def store_eval sample_stores sample_quiet_def
    sample_again_def sample_second_def)

lemma sample_second_reply: "\<exists>acc. append_user_turn_reply sample_platform ''room_00000110'' ''more'' (''run_00000161'', Some ''msg_00000160'')
    sample_second = (Inr acc, sample_second) \<and> snap_id (acc_snapshot acc) = ''room_00000110''
    \<and> run_run_id (acc_run acc) = ''run_00000161'' \<and> run_status (acc_run acc) = RunRunning"
  by (simp add: append_user_turn_reply_def snapshot_eval sample_stores sample_second_def sample_quiet_def CONTRACT_def ENGINE_def
    parse_run_status_def)

lemma sample_generation_ends:
  assumes "rr_store s = sample_turned" "rr_tasks s = [g]" "gen_room g = ''room_00000110''" "gen_run g = ''run_00000131''"
    "gen_request_id g = ''req_00000132''" "gen_phase g = Streaming" "\<not> gen_cancel g" "gen_items g = [Inr (Completed ''req_00000132'')]"
  shows "\<exists>t. run_task 0 (next_item sample_platform (sample_draws 4) (sample_draws 5)) s = (Inr (), t)
    \<and> rr_store t = sample_quiet \<and> rr_active t = rr_active s \<and> rr_tasks t = [g\<lparr>gen_items := [], gen_phase := Returned\<rparr>]"
proof -
  obtain x where "finish_run sample_platform (sample_draws 4) ''room_00000110'' ''run_00000131'' completed_terminal
    sample_turned = (Inr x, sample_quiet)" using sample_quiet_finish by blast
  then show ?thesis using assms
    by (simp add: run_task_def next_item_def Let_def bindS_def attempt_def on_store_def publish_def returned_def)
qed

lemma sample_second_submit:
  assumes "rr_store s = sample_quiet" "rr_active s ''room_00000110'' \<noteq> None"
  shows "\<exists>acc t. submit_turn sample_platform (sample_draws 6) sample_guest sample_again s = (Inr acc, t)
    \<and> rr_store t = sample_second \<and> rr_active t = rr_active s \<and> rr_tasks t = rr_tasks s"
proof -
  obtain acc where acc: "append_user_turn_reply sample_platform ''room_00000110'' ''more'' (''run_00000161'', Some ''msg_00000160'')
    sample_second = (Inr acc, sample_second)" "snap_id (acc_snapshot acc) = ''room_00000110''" using sample_second_reply by blast
  have "append_user_turn sample_platform (sample_draws 6) sample_guest sample_again sample_quiet = (Inr acc, sample_second)"
    using acc(1) sample_second_turn by (simp add: append_user_turn_def bindS_def sample_session)
  then show ?thesis using acc(2) assms
    by (simp add: submit_turn_def bindS_def on_store_def publish_def start_run_def Let_def)
qed


section \<open>Witnesses\<close>



end
