(* ===== verification/Room_Api.thy ===== *)
theory Room_Api
  imports Room_Runtime Sidecar
begin

text \<open>
  backend/src/api.rs and the bearer gate and health item of backend/src/main.rs: the HTTP handlers as
  functions of the request and the runtime's state, the guest cookie, and the loop of a guest's event
  stream. JSON bodies come parsed (axum's extractors), and so do paths; a response is its status, its
  body and its cookie. The uuid of a generated request id is an argument.
\<close>

section \<open>Headers\<close>

text \<open>Names are lower case, as in a \<open>HeaderMap\<close>; \<open>to_str\<close> takes visible ASCII and tabs.\<close>

type_synonym headers = "(string \<times> string) list"

definition header_text :: "string \<Rightarrow> string option" where
  "header_text v = (if list_all (\<lambda>c. 32 \<le> ord_of c \<and> ord_of c < 127 \<or> ord_of c = 9) v then Some v else None)"

definition header_str :: "headers \<Rightarrow> string \<Rightarrow> string option" where
  "header_str hs name = Option.bind (map_of hs name) header_text"

definition request_id :: "string \<Rightarrow> headers \<Rightarrow> string" where
  "request_id fresh hs = (case header_str hs ''x-request-id'' of
     Some value \<Rightarrow> if trim value \<noteq> [] \<and> length value \<le> 128 \<and> \<not> list_ex is_control (chars value)
       then value else ''req_'' @ fresh
   | None \<Rightarrow> ''req_'' @ fresh)"

definition SESSION_COOKIE :: string where "SESSION_COOKIE = ''ryu_rooms_session''"

definition SESSION_MAX_AGE_SECS :: string where "SESSION_MAX_AGE_SECS = ''43200''"

definition cookie_pair :: "string \<Rightarrow> string \<Rightarrow> string option" where
  "cookie_pair name cookie = (case split_once (CHR ''='') (trim cookie) of
     None \<Rightarrow> None
   | Some (cookie_name, v) \<Rightarrow> if cookie_name = name \<and> v \<noteq> [] then Some v else None)"

fun find_map :: "('a \<Rightarrow> 'b option) \<Rightarrow> 'a list \<Rightarrow> 'b option" where
  "find_map f [] = None"
| "find_map f (x # xs) = (case f x of Some y \<Rightarrow> Some y | None \<Rightarrow> find_map f xs)"

definition cookie_value :: "headers \<Rightarrow> string \<Rightarrow> string option" where
  "cookie_value hs name = Option.bind (header_str hs ''cookie'')
     (\<lambda>cookies. find_map (cookie_pair name) (split_on (CHR '';'') cookies))"

definition session_cookie :: "string \<Rightarrow> bool \<Rightarrow> string" where
  "session_cookie secret secure = SESSION_COOKIE @ ''='' @ secret @ ''; Path=/api/rooms; Max-Age='' @
     SESSION_MAX_AGE_SECS @ ''; HttpOnly; SameSite=Strict'' @ (if secure then ''; Secure'' else [])"

definition is_https_request :: "headers \<Rightarrow> bool" where
  "is_https_request hs \<longleftrightarrow>
     (case header_str hs ''x-forwarded-proto'' of
        Some v \<Rightarrow> eq_ignore_ascii_case (trim (hd (split_on (CHR '','') v))) ''https'' | None \<Rightarrow> False)
   \<or> (case header_str hs ''origin'' of
        Some v \<Rightarrow> starts_with (trim_start v) ''https://'' | None \<Rightarrow> False)"

section \<open>Responses\<close>

datatype body =
    RoomsBody "room_snapshot list"
  | CreatedBody room_snapshot string
  | RoomBody room_snapshot
  | AcceptedBody room_run room_message room_snapshot string
  | SnapshotBody room_snapshot string
  | RevokedBody string
  | JoinUrlBody string string
  | GuestPage
  | JoinedBody room_snapshot string string participant_role string
  | EventStream room_snapshot
  | ErrorBody string string string
  | GateBody string string

record response =
  resp_status :: nat
  resp_body :: body
  resp_cookie :: "string option"

definition respond :: "nat \<Rightarrow> body \<Rightarrow> response" where
  "respond status b = \<lparr>resp_status = status, resp_body = b, resp_cookie = None\<rparr>"

fun public_error_message :: "store_error \<Rightarrow> string" where
  "public_error_message (Invalid message) = message"
| "public_error_message RoomBusy = ''another turn is already running''"
| "public_error_message Closed = ''this room is closed''"
| "public_error_message InviteUnavailable = ''the invite is invalid, expired, or revoked''"
| "public_error_message Conflict = ''the request conflicts with the current room state''"
| "public_error_message NotFound = ''room not found''"
| "public_error_message Forbidden = ''permission denied''"
| "public_error_message (Database _) = ''room storage is temporarily unavailable''"
| "public_error_message Lock = ''room storage is temporarily unavailable''"
| "public_error_message (Seal _) = ''room storage is temporarily unavailable''"

fun error_status :: "store_error \<Rightarrow> nat" where
  "error_status (Invalid _) = 400"
| "error_status NotFound = 404"
| "error_status RoomBusy = 409"
| "error_status Conflict = 409"
| "error_status Closed = 410"
| "error_status Forbidden = 403"
| "error_status InviteUnavailable = 400"
| "error_status (Database _) = 503"
| "error_status Lock = 503"
| "error_status (Seal _) = 503"

definition store_error :: "store_error \<Rightarrow> string \<Rightarrow> response" where
  "store_error e rid = respond (error_status e) (ErrorBody (store_error_code e) (public_error_message e) rid)"

definition unauthorized_response :: "string \<Rightarrow> response" where
  "unauthorized_response rid = respond 401 (ErrorBody ''unauthorized'' ''a valid guest session is required'' rid)"

text \<open>A handler that matches on one call.\<close>

type_synonym handler = "room_runtime \<Rightarrow> response \<times> room_runtime"

definition answer :: "'a rtop \<Rightarrow> string \<Rightarrow> ('a \<Rightarrow> handler) \<Rightarrow> handler" where
  "answer m rid k s = (case m s of (Inl e, t) \<Rightarrow> (store_error e rid, t) | (Inr x, t) \<Rightarrow> k x t)"

definition reply :: "response \<Rightarrow> handler" where
  "reply r s = (r, s)"

section \<open>Handlers\<close>

record turn_body =
  tb_text :: string
  tb_idempotency_key :: "string option"

definition api_list_rooms :: "platform \<Rightarrow> string \<Rightarrow> headers \<Rightarrow> handler" where
  "api_list_rooms P fresh hs = answer (on_store (list_rooms P)) (request_id fresh hs) (\<lambda>rooms. reply (respond 200 (RoomsBody rooms)))"

definition api_create_room :: "platform \<Rightarrow> draws \<Rightarrow> string \<Rightarrow> headers \<Rightarrow> string \<Rightarrow> string \<Rightarrow> handler" where
  "api_create_room P D fresh hs model_id share_origin =
     answer (on_store (create_room P D \<lparr>cr_model_id = model_id, cr_share_origin = share_origin\<rparr>)) (request_id fresh hs) (\<lambda>created.
     reply (respond 201 (CreatedBody (created_snapshot created)
       (trim_end_matches (CHR ''/'') (created_share_origin created) @ ''/api/rooms/guest#invite='' @ created_invite created))))"

definition found_or :: "string \<Rightarrow> (room_snapshot \<Rightarrow> handler) \<Rightarrow> room_snapshot option \<Rightarrow> handler" where
  "found_or rid k room = (case room of Some r \<Rightarrow> k r | None \<Rightarrow> reply (store_error NotFound rid))"

definition get_room :: "platform \<Rightarrow> string \<Rightarrow> headers \<Rightarrow> string \<Rightarrow> handler" where
  "get_room P fresh hs room_id = (let rid = request_id fresh hs in
     answer (on_store (snapshot P room_id)) rid (found_or rid (\<lambda>room. reply (respond 200 (RoomBody room)))))"

definition api_submit_turn :: "platform \<Rightarrow> draws \<Rightarrow> room_session \<Rightarrow> turn_body \<Rightarrow> string \<Rightarrow> handler" where
  "api_submit_turn P D session b rid =
     answer (submit_turn P D session \<lparr>st_text = tb_text b, st_idempotency_key = tb_idempotency_key b\<rparr>) rid (\<lambda>accepted.
     reply (respond 202 (AcceptedBody (acc_run accepted) (acc_user_message accepted) (acc_snapshot accepted) rid)))"

definition host_turn :: "platform \<Rightarrow> draws \<Rightarrow> string \<Rightarrow> headers \<Rightarrow> string \<Rightarrow> turn_body \<Rightarrow> handler" where
  "host_turn P D fresh hs room_id b = (let rid = request_id fresh hs in
     answer (on_store (host_session P room_id)) rid (\<lambda>session. api_submit_turn P D session b rid))"

definition session_from_headers :: "platform \<Rightarrow> draws \<Rightarrow> string \<Rightarrow> headers \<Rightarrow> (room_session \<Rightarrow> handler) \<Rightarrow> handler" where
  "session_from_headers P D fresh hs k = (case cookie_value hs SESSION_COOKIE of
     None \<Rightarrow> reply (unauthorized_response (request_id fresh hs))
   | Some secret \<Rightarrow> answer (on_store (resolve_session P D secret)) (request_id fresh hs) (\<lambda>session.
       case session of Some session \<Rightarrow> k session | None \<Rightarrow> reply (unauthorized_response (request_id fresh hs))))"

text \<open>\<open>D1\<close> are the draws of the session check, \<open>D2\<close> those of the call.\<close>

definition guest_turn :: "platform \<Rightarrow> draws \<Rightarrow> draws \<Rightarrow> string \<Rightarrow> headers \<Rightarrow> turn_body \<Rightarrow> handler" where
  "guest_turn P D1 D2 fresh hs b =
     session_from_headers P D1 fresh hs (\<lambda>session. api_submit_turn P D2 session b (request_id fresh hs))"

definition api_stop_run :: "platform \<Rightarrow> draws \<Rightarrow> string \<Rightarrow> headers \<Rightarrow> string \<Rightarrow> string \<Rightarrow> handler" where
  "api_stop_run P D fresh hs room_id run_id = (let rid = request_id fresh hs in
     answer (runtime_stop_run P D room_id run_id) rid (\<lambda>snap. reply (respond 200 (SnapshotBody snap rid))))"

definition api_close_room :: "platform \<Rightarrow> draws \<Rightarrow> draws \<Rightarrow> string \<Rightarrow> headers \<Rightarrow> string \<Rightarrow> handler" where
  "api_close_room P D1 D2 fresh hs room_id = (let rid = request_id fresh hs in
     answer (runtime_close_room P D1 D2 room_id) rid (\<lambda>snap. reply (respond 200 (SnapshotBody snap rid))))"

definition api_revoke_invite :: "platform \<Rightarrow> draws \<Rightarrow> string \<Rightarrow> headers \<Rightarrow> string \<Rightarrow> handler" where
  "api_revoke_invite P D fresh hs room_id = (let rid = request_id fresh hs in
     answer (on_store (revoke_invite P D room_id)) rid (\<lambda>_. reply (respond 200 (RevokedBody rid))))"

definition api_issue_invite :: "platform \<Rightarrow> draws \<Rightarrow> string \<Rightarrow> headers \<Rightarrow> string \<Rightarrow> handler" where
  "api_issue_invite P D fresh hs room_id = (let rid = request_id fresh hs in
     answer (on_store (issue_invite P D room_id)) rid (\<lambda>invite. reply (respond 200 (JoinUrlBody
       (issued_share_origin invite @ ''/api/rooms/guest#invite='' @ issued_secret invite) rid))))"

definition api_exchange_invite :: "platform \<Rightarrow> draws \<Rightarrow> string \<Rightarrow> headers \<Rightarrow> string \<Rightarrow> string \<Rightarrow> handler" where
  "api_exchange_invite P D fresh hs invite name = (let rid = request_id fresh hs in
     answer (on_store (exchange_invite P D invite name)) rid (\<lambda>session.
     answer (on_store (snapshot P (sess_room_id session))) rid (found_or rid (\<lambda>snap.
     reply ((respond 200 (JoinedBody snap (sess_participant_id session) (sess_display_name session) (sess_role session) rid))
       \<lparr>resp_cookie := Some (session_cookie (sess_secret session) (is_https_request hs))\<rparr>)))))"

definition guest_snapshot :: "platform \<Rightarrow> draws \<Rightarrow> string \<Rightarrow> headers \<Rightarrow> handler" where
  "guest_snapshot P D fresh hs = session_from_headers P D fresh hs (\<lambda>session.
     answer (on_store (snapshot P (sess_room_id session))) (request_id fresh hs)
       (found_or (request_id fresh hs) (\<lambda>room. reply (respond 200 (RoomBody room)))))"

text \<open>The response of \<open>guest_events\<close>; the stream it carries is \<open>guest_stream\<close> below.\<close>

definition guest_events :: "platform \<Rightarrow> draws \<Rightarrow> string \<Rightarrow> headers \<Rightarrow> handler" where
  "guest_events P D fresh hs = session_from_headers P D fresh hs (\<lambda>session.
     answer (on_store (snapshot P (sess_room_id session))) (request_id fresh hs)
       (found_or (request_id fresh hs) (\<lambda>snap. reply (respond 200 (EventStream snap)))))"

section \<open>Routes and the gate\<close>

datatype request =
    ListRooms
  | CreateRoom string string
  | GetRoom string
  | HostTurn string turn_body
  | StopRun string string
  | CloseRoom string
  | IssueInvite string
  | RevokeInvite string
  | GuestHtml
  | GuestExchange string string
  | GuestSnapshot
  | GuestEvents
  | GuestTurn turn_body

fun routes :: "platform \<Rightarrow> draws \<Rightarrow> draws \<Rightarrow> string \<Rightarrow> headers \<Rightarrow> request \<Rightarrow> handler" where
  "routes P D1 D2 fresh hs ListRooms = api_list_rooms P fresh hs"
| "routes P D1 D2 fresh hs (CreateRoom model origin) = api_create_room P D1 fresh hs model origin"
| "routes P D1 D2 fresh hs (GetRoom i) = get_room P fresh hs i"
| "routes P D1 D2 fresh hs (HostTurn i b) = host_turn P D1 fresh hs i b"
| "routes P D1 D2 fresh hs (StopRun i run) = api_stop_run P D1 fresh hs i run"
| "routes P D1 D2 fresh hs (CloseRoom i) = api_close_room P D1 D2 fresh hs i"
| "routes P D1 D2 fresh hs (IssueInvite i) = api_issue_invite P D1 fresh hs i"
| "routes P D1 D2 fresh hs (RevokeInvite i) = api_revoke_invite P D1 fresh hs i"
| "routes P D1 D2 fresh hs GuestHtml = reply (respond 200 GuestPage)"
| "routes P D1 D2 fresh hs (GuestExchange invite name) = api_exchange_invite P D1 fresh hs invite name"
| "routes P D1 D2 fresh hs GuestSnapshot = guest_snapshot P D1 fresh hs"
| "routes P D1 D2 fresh hs GuestEvents = guest_events P D1 fresh hs"
| "routes P D1 D2 fresh hs (GuestTurn b) = guest_turn P D1 D2 fresh hs b"

definition bearer_gate :: "string option \<Rightarrow> headers \<Rightarrow> handler \<Rightarrow> handler" where
  "bearer_gate expected hs next =
     (if token_ok (Option.bind (header_str hs ''authorization'') (\<lambda>v. strip_prefix v ''Bearer '')) expected then next
      else reply (respond 401 (GateBody ''unauthorized'' ''the Rooms sidecar requires a Core-issued request'')))"

text \<open>The token the process expects: \<open>RYU_EXT_TOKEN\<close>, trimmed, unless it is empty.\<close>

definition expected_token :: "string option \<Rightarrow> string option" where
  "expected_token env = (case env of None \<Rightarrow> None | Some v \<Rightarrow> if trim v = [] then None else Some (trim v))"

definition app :: "platform \<Rightarrow> string option \<Rightarrow> draws \<Rightarrow> draws \<Rightarrow> string \<Rightarrow> headers \<Rightarrow> request \<Rightarrow> handler" where
  "app P env_token D1 D2 fresh hs r = bearer_gate (expected_token env_token) hs (routes P D1 D2 fresh hs r)"

section \<open>The guest's event stream\<close>

text \<open>What wakes one turn of the loop, and the store as that turn finds it.\<close>

datatype wake = Tick | Received room_event | Lagged | ChannelClosed

record stream_turn =
  tu_store :: room_store
  tu_check :: draws
  tu_recheck :: draws
  tu_wake :: wake

datatype sse = SnapshotEvent room_snapshot | NamedEvent string event_data

definition authorized :: "platform \<Rightarrow> draws \<Rightarrow> string \<Rightarrow> room_store \<Rightarrow> bool" where
  "authorized P D secret s = (case fst (resolve_session P D secret s) of Inr (Some _) \<Rightarrow> True | _ \<Rightarrow> False)"

fun events_loop :: "platform \<Rightarrow> string \<Rightarrow> string \<Rightarrow> stream_turn list \<Rightarrow> sse list" where
  "events_loop P secret room [] = []"
| "events_loop P secret room (t # ts) =
     (case tu_wake t of
        Tick \<Rightarrow> if \<not> authorized P (tu_check t) secret (tu_store t) then [] else events_loop P secret room ts
      | w \<Rightarrow> if \<not> authorized P (tu_check t) secret (tu_store t) then []
          else (case w of
            Received e \<Rightarrow> NamedEvent (ev_name e) (ev_data e) # events_loop P secret room ts
          | Lagged \<Rightarrow> (case fst (snapshot P room (tu_store t)) of
                Inr (Some snap) \<Rightarrow>
                  if \<not> authorized P (tu_recheck t) secret (tu_store t) then []
                  else SnapshotEvent snap # events_loop P secret room ts
              | _ \<Rightarrow> [])
          | _ \<Rightarrow> []))"

definition guest_stream :: "platform \<Rightarrow> draws \<Rightarrow> string \<Rightarrow> string \<Rightarrow> room_snapshot \<Rightarrow> room_store \<Rightarrow> stream_turn list \<Rightarrow> sse list" where
  "guest_stream P D secret room snap s ts =
     (if \<not> authorized P D secret s then [] else SnapshotEvent snap # events_loop P secret room ts)"

end
