(* ===== verification/Room_Guests.thy ===== *)
theory Room_Guests
  imports Room_Api
begin

text \<open>
  Properties of the HTTP surface (backend/src/api.rs and main.rs): the gate, the guest cookie, the
  guests a host has cut off, and the event stream that ends with its session.
\<close>

section \<open>The gate\<close>

text \<open>
  C17. Every request that does not carry the exact token Core gave the process is answered 401 and
  changes nothing; without a token no request passes.
\<close>

theorem gate_fails_closed:
  "app P env D1 D2 fresh hs r s =
    (if \<exists>t. t \<noteq> [] \<and> expected_token env = Some t \<and> header_str hs ''authorization'' = Some (''Bearer '' @ t)
     then routes P D1 D2 fresh hs r s
     else (respond 401 (GateBody ''unauthorized'' ''the Rooms sidecar requires a Core-issued request''), s))"
proof -
  have "token_ok (Option.bind (header_str hs ''authorization'') (\<lambda>v. strip_prefix v ''Bearer '')) (expected_token env)
    \<longleftrightarrow> (\<exists>t. t \<noteq> [] \<and> expected_token env = Some t \<and> header_str hs ''authorization'' = Some (''Bearer '' @ t))"
    unfolding token_ok_iff by (cases "header_str hs ''authorization''") (auto simp: strip_prefix_Some)
  then show ?thesis unfolding app_def bearer_gate_def reply_def by (simp only:) (simp only: if_distrib [of "\<lambda>f. f s"])
qed

section \<open>The cookie\<close>

definition cookie_safe :: "string \<Rightarrow> bool" where
  "cookie_safe v \<longleftrightarrow> v \<noteq> [] \<and> list_all (\<lambda>c. 33 \<le> ord_of c \<and> ord_of c < 127 \<and> c \<noteq> CHR '';'') v"

lemma find_map_append: "find_map f (xs @ ys) = (case find_map f xs of Some y \<Rightarrow> Some y | None \<Rightarrow> find_map f ys)"
  by (induction xs) (auto split: option.split)

lemma split_on_append: "c \<notin> set a \<Longrightarrow> split_on c (a @ c # b) = a # split_on c b"
  by (induction a) (auto split: list.split)

lemma split_on_head: "c \<notin> set a \<Longrightarrow> b = [] \<or> hd b = c \<Longrightarrow> \<exists>ys. split_on c (a @ b) = a # ys"
proof (cases b)
  case Nil
  then show "c \<notin> set a \<Longrightarrow> \<exists>ys. split_on c (a @ b) = a # ys" by (simp add: split_on_no_sep)
next
  case (Cons x xs)
  moreover assume "c \<notin> set a" "b = [] \<or> hd b = c"
  ultimately show ?thesis by (simp add: split_on_append)
qed

lemma trim_space_left: "trim (CHR '' '' # v) = trim v"
proof -
  have "trailing (CHR '' '') = 0" "is_blank '' ''" by (simp_all add: eval_simps)
  then show ?thesis by (simp add: trim_def)
qed

lemma trim_visible: "list_all (\<lambda>c. 33 \<le> ord_of c \<and> ord_of c < 127) v \<Longrightarrow> trim v = v"
  by (rule trim_no_blank) (auto simp: list_all_iff is_whitespace_def)

lemma session_pair:
  assumes "cookie_safe secret"
  shows "cookie_pair SESSION_COOKIE ('' '' @ SESSION_COOKIE @ ''='' @ secret) = Some secret"
    "cookie_pair SESSION_COOKIE (SESSION_COOKIE @ ''='' @ secret) = Some secret"
    "CHR '';'' \<notin> set (SESSION_COOKIE @ ''='' @ secret)"
proof -
  have l: "list_all (\<lambda>c. 33 \<le> ord_of c \<and> ord_of c < 127) (SESSION_COOKIE @ ''='' @ secret)"
    using assms by (auto simp: cookie_safe_def list_all_iff SESSION_COOKIE_def ord_of_def)
  have "split_once (CHR ''='') (SESSION_COOKIE @ ''='' @ secret) = Some (SESSION_COOKIE, secret)"
    by (simp add: SESSION_COOKIE_def)
  with trim_visible [OF l] trim_space_left [of "SESSION_COOKIE @ ''='' @ secret"] show "cookie_pair SESSION_COOKIE ('' '' @ SESSION_COOKIE @ ''='' @ secret) = Some secret"
    "cookie_pair SESSION_COOKIE (SESSION_COOKIE @ ''='' @ secret) = Some secret"
    using assms by (simp_all add: cookie_pair_def cookie_safe_def)
  show "CHR '';'' \<notin> set (SESSION_COOKIE @ ''='' @ secret)"
    using assms by (auto simp: cookie_safe_def list_all_iff SESSION_COOKIE_def)
qed

text \<open>
  The cookie a guest is given is the session it presents: the first attribute of the cookie's
  text, sent back anywhere among other cookies of the site, none of them named like it, is read as
  exactly the session's secret.
\<close>

theorem session_cookie_round_trip:
  assumes "cookie_safe secret" "\<forall>c\<in>set others. cookie_pair SESSION_COOKIE c = None"
    and "\<forall>c\<in>set others. CHR '';'' \<notin> set c" "tail = [] \<or> hd tail = CHR '';''"
    and "pair = hd (split_on (CHR '';'') (session_cookie secret secure))"
    and "header_text (concat (map (\<lambda>c. c @ ''; '') others) @ pair @ tail) = Some line"
  shows "pair = SESSION_COOKIE @ ''='' @ secret \<and> cookie_value [(''cookie'', line)] SESSION_COOKIE = Some secret"
proof -
  let ?p = "SESSION_COOKIE @ ''='' @ secret"
  have pair: "pair = ?p"
    using split_on_append [OF session_pair(3) [OF assms(1)]] assms(5) by (simp add: session_cookie_def)
  have line: "line = concat (map (\<lambda>c. c @ ''; '') others) @ ?p @ tail"
    using assms(6) pair by (auto simp: header_text_def split: if_splits)
  have "find_map (cookie_pair SESSION_COOKIE) (split_on (CHR '';'') (pre @ concat (map (\<lambda>c. c @ ''; '') others) @ ?p @ tail)) = Some secret"
    if "pre = [] \<or> pre = '' ''" for pre
    using assms(2,3) that
  proof (induction others arbitrary: pre)
    case Nil
    have "CHR '';'' \<notin> set (pre @ ?p)" using session_pair(3) [OF assms(1)] Nil by auto
    from split_on_head [OF this assms(4)] obtain ys where "split_on (CHR '';'') ((pre @ ?p) @ tail) = (pre @ ?p) # ys" by blast
    with Nil session_pair(1,2) [OF assms(1)] show ?case by auto
  next
    case (Cons c cs)
    have c: "CHR '';'' \<notin> set (pre @ c)" using Cons.prems by auto
    have none: "cookie_pair SESSION_COOKIE (pre @ c) = None"
      using Cons.prems trim_space_left [of c] by (auto simp: cookie_pair_def)
    have "split_on (CHR '';'') (pre @ concat (map (\<lambda>c. c @ ''; '') (c # cs)) @ ?p @ tail) =
        (pre @ c) # split_on (CHR '';'') ('' '' @ concat (map (\<lambda>c. c @ ''; '') cs) @ ?p @ tail)"
      using split_on_append [OF c, of "'' '' @ concat (map (\<lambda>c. c @ ''; '') cs) @ ?p @ tail"] by simp
    with Cons.IH [of "'' ''"] Cons.prems none show ?case by simp
  qed
  from this [of "[]"] have "find_map (cookie_pair SESSION_COOKIE) (split_on (CHR '';'') line) = Some secret"
    by (simp add: line)
  then show ?thesis using pair line assms(6) by (simp add: cookie_value_def header_str_def)
qed


section \<open>The event stream\<close>

text \<open>
  A guest's event stream never outlives its session: once a turn of the loop finds that the
  session does not resolve, nothing more is sent, not even events already buffered, and what was sent
  is what the turns before it produced; a session that does not resolve at the start gets nothing.
\<close>

theorem stream_ends_with_session:
  "(\<not> authorized P (tu_check t) secret (tu_store t) \<longrightarrow>
      events_loop P secret room (before @ t # after) = events_loop P secret room before)
   \<and> (\<not> authorized P D secret s \<longrightarrow> guest_stream P D secret room snap s ts = [])
   \<and> length (events_loop P secret room before) \<le> length before"
proof -
  have "\<not> authorized P (tu_check t) secret (tu_store t) \<Longrightarrow>
      events_loop P secret room (before @ t # after) = events_loop P secret room before"
    by (induction before) (auto split: wake.split sum.split option.split)
  moreover have "length (events_loop P secret room before) \<le> length before"
    by (induction before) (auto split: wake.split sum.split option.split simp: le_SucI)
  ultimately show ?thesis by (simp add: guest_stream_def)
qed

section \<open>Guests that were cut off\<close>

definition guest_request :: "request \<Rightarrow> bool" where
  "guest_request r \<longleftrightarrow> r = GuestSnapshot \<or> r = GuestEvents \<or> (\<exists>b. r = GuestTurn b)"

lemma cut_off_session:
  assumes "reachable P s0" "aead_total P" "resolve_session P D0 secret s0 = (Inr (Some sess), u)" "sess_room_id sess = trim i"
    and "close_room P D i s0 = (Inr (), t) \<or> revoke_invite P D i s0 = (Inr (), t)"
  shows "resolve_session P D' secret t = (Inr None, t)"
  using assms(3)
proof (rule resolve_session_Some)
  fix x p
  assume x: "x \<in> set (t_sessions (rs_db s0))" "s_digest x = digest P (trim secret)" "sess_room_id sess = s_room_id x"
  have inv: "db_inv (rs_db s0)" by (rule reachable_inv [OF assms(1,2)])
  have shrink: "shrinks (rs_db s0) (rs_db t)" using assms(5)
  proof
    assume "close_room P D i s0 = (Inr (), t)"
    then have "close_db P D (trim i) (rs_db s0) = (Inr (), rs_db t)"
      by (auto simp: close_room_def with_connection_eq validate_room_id_Inr elim!: valid_room_cases)
    from close_db_effect [OF this] show ?thesis using shrinks_close by fastforce
  next
    assume "revoke_invite P D i s0 = (Inr (), t)"
    then have "revoke_db P D (trim i) (rs_db s0) = (Inr (), rs_db t)"
      by (auto simp: revoke_invite_def with_connection_eq validate_room_id_Inr elim!: valid_room_cases)
    from revoke_db_drop [OF this] show ?thesis using shrinks_drop by fastforce
  qed
  have none: "no_session (trim i) (rs_db t)" using assms(5) close_no_session revoke_no_session by blast
  have dead: "s_revoked_at y \<noteq> None" if y: "y \<in> set (t_sessions (rs_db t))" "s_digest y = digest P (trim secret)" for y
  proof
    assume live: "s_revoked_at y = None"
    with shrink y(1) have "y \<in> set (t_sessions (rs_db s0))" by (auto simp: shrinks_def)
    moreover have "inj_on s_digest (set (t_sessions (rs_db s0)))" using inv by (simp add: db_inv_def inv_keys_def distinct_map)
    ultimately have "y = x" using x(1,2) y(2) by (metis inj_onD)
    with none y(1) x(3) assms(4) live show False by (auto simp: no_session_def)
  qed
  have ok: "raw_secret_ok (trim secret)"
    using assms(3) by (auto simp: resolve_session_def Let_def split: if_splits)
  show ?thesis
  proof (cases "find (\<lambda>(s, p). s_digest s = digest P (trim secret)) (join_participants (t_sessions (rs_db t)) (t_participants (rs_db t)))")
    case None
    with ok show ?thesis by (simp add: resolve_session_def Let_def with_connection_def stmt_simps)
  next
    case (Some found)
    obtain y q where f: "found = (y, q)" by (cases found)
    from find_SomeD [OF Some] f have "y \<in> set (t_sessions (rs_db t))" "s_digest y = digest P (trim secret)"
      by (auto simp: join_participants_def)
    with dead Some f ok show ?thesis
      by (simp add: resolve_session_def Let_def with_connection_def stmt_simps)
  qed
qed

text \<open>
  C13. A guest that was cut off is out at once: after its room was closed or its invite revoked, every
  guest request with its cookie is answered 401 and changes nothing, and its event stream ends.
\<close>

theorem cut_off_guests_are_out:
  assumes "reachable P s0" "aead_total P" "resolve_session P D0 secret s0 = (Inr (Some sess), u)" "sess_room_id sess = trim i"
    and "close_room P D i s0 = (Inr (), rr_store s) \<or> revoke_invite P D i s0 = (Inr (), rr_store s)"
    and "cookie_value hs SESSION_COOKIE = Some secret" "guest_request r"
  shows "routes P D1 D2 fresh hs r s = (unauthorized_response (request_id fresh hs), s)
    \<and> \<not> authorized P D1 secret (rr_store s)"
proof -
  have none: "resolve_session P D1 secret (rr_store s) = (Inr None, rr_store s)"
    by (rule cut_off_session [OF assms(1-5)])
  then have "session_from_headers P D1 fresh hs k s = (unauthorized_response (request_id fresh hs), s)" for k
    using assms(6) by (simp add: session_from_headers_def answer_def on_store_def reply_def)
  then have "routes P D1 D2 fresh hs r s = (unauthorized_response (request_id fresh hs), s)"
    using assms(7) by (auto simp: guest_request_def guest_snapshot_def guest_events_def guest_turn_def)
  with none show ?thesis by (simp add: authorized_def)
qed

end
