(* ===== verification/Sample_Guests.thy ===== *)
theory Sample_Guests
  imports Room_Guests Room_Witnesses
begin

text \<open>Witnesses of the properties of the HTTP surface, on the sample platform and its stores.\<close>

lemma session_cookie_round_trip_witness:
  "cookie_value [(''cookie'', ''theme=dark; ryu_rooms_session=00000120; lang=de'')] SESSION_COOKIE = Some ''00000120''"
proof -
  have "cookie_safe ''00000120''" by (simp add: cookie_safe_def ord_of_def)
  moreover have "cookie_pair SESSION_COOKIE ''theme=dark'' = None"
    by (simp add: cookie_pair_def SESSION_COOKIE_def eval_simps)
  moreover have "header_text (concat (map (\<lambda>c. c @ ''; '') [''theme=dark'']) @ ''ryu_rooms_session=00000120'' @ ''; lang=de'')
      = Some ''theme=dark; ryu_rooms_session=00000120; lang=de''"
    by (simp add: header_text_def ord_of_def)
  ultimately show ?thesis
    using session_cookie_round_trip [of "''00000120''" "[''theme=dark'']" "''; lang=de''" "''ryu_rooms_session=00000120''" False
        "''theme=dark; ryu_rooms_session=00000120; lang=de''"]
    by (simp add: session_cookie_def SESSION_COOKIE_def)
qed

lemma sample_resolves: "\<exists>sess. resolve_session sample_platform (sample_draws 3) ''00000120'' sample_joined = (Inr (Some sess), sample_joined)
    \<and> sess_room_id sess = ''room_00000110''"
  by (simp add: resolve_session_def join_participants_def store_eval sample_stores parse_participant_role_def)

lemma cut_off_guests_are_out_witness: "\<exists>s hs. cookie_value hs SESSION_COOKIE = Some ''00000120''
    \<and> routes sample_platform (sample_draws 7) (sample_draws 8) ''f'' hs GuestSnapshot s = (unauthorized_response (request_id ''f'' hs), s)"
proof -
  obtain t where t: "close_room sample_platform (sample_draws 6) ''room_00000110'' sample_joined = (Inr (), t)" using sample_close by blast
  obtain sess where sess: "resolve_session sample_platform (sample_draws 3) ''00000120'' sample_joined = (Inr (Some sess), sample_joined)"
    "sess_room_id sess = ''room_00000110''" using sample_resolves by blast
  let ?s = "\<lparr>rr_store = t, rr_active = Map.empty, rr_tasks = [], rr_published = []\<rparr>"
  let ?hs = "[(''cookie'', ''ryu_rooms_session=00000120'')]"
  have c: "cookie_value ?hs SESSION_COOKIE = Some ''00000120''"
    by (simp add: cookie_value_def header_str_def header_text_def cookie_pair_def SESSION_COOKIE_def eval_simps)
  have "routes sample_platform (sample_draws 7) (sample_draws 8) ''f'' ?hs GuestSnapshot ?s = (unauthorized_response (request_id ''f'' ?hs), ?s)"
    using cut_off_guests_are_out [OF sample_reachable(2) sample_aead_total sess(1), of "''room_00000110''" "sample_draws 6" ?s ?hs GuestSnapshot]
      sess(2) t c by (simp add: sample_room_id guest_request_def)
  with c show ?thesis by blast
qed

lemma stream_ends_with_session_witness:
  "events_loop sample_platform ''x'' ''room_00000110''
     [\<lparr>tu_store = sample_joined, tu_check = sample_draws 7, tu_recheck = sample_draws 7,
       tu_wake = Received \<lparr>ev_name = ''turn.started'', ev_data = TurnDelta ''room_00000110'' ''run_00000131'' ''req_00000132'' ''yo''\<rparr>\<rparr>] = []"
proof -
  have "\<not> authorized sample_platform (sample_draws 7) ''x'' sample_joined"
    by (simp add: authorized_def resolve_session_def join_participants_def store_eval sample_stores)
  then show ?thesis
    using stream_ends_with_session [of sample_platform
      "\<lparr>tu_store = sample_joined, tu_check = sample_draws 7, tu_recheck = sample_draws 7,
        tu_wake = Received \<lparr>ev_name = ''turn.started'', ev_data = TurnDelta ''room_00000110'' ''run_00000131'' ''req_00000132'' ''yo''\<rparr>\<rparr>" "''x''" "''room_00000110''" "[]" "[]"]
    by simp
qed

end
