(* ===== verification/Sealed_Log.thy ===== *)
theory Sealed_Log
  imports Content_Crypto
begin

text \<open>
  crates/core/crypto/src/sealed_log.rs: append-only sealed logs. A log is a 32-byte header and records, each
  a length, a nonce and a ciphertext bound to the header and the record's index. A file is its bytes, or
  none; a write that fails leaves a prefix of what it was to write.
\<close>

section \<open>Format\<close>

definition SEALED_LOG_HEADER_LEN :: nat where "SEALED_LOG_HEADER_LEN = 32"
definition MAX_RECORD_BODY :: nat where "MAX_RECORD_BODY = 16 * 1024 * 1024"
definition SALT_LEN :: nat where "SALT_LEN = 20"
definition LOG_VERSION :: byte where "LOG_VERSION = 1"

datatype log_error = LogTooShort | NotALog | UnsupportedHeader | InvalidLength nat | CorruptRecord nat
  | LogDoesNotOpen | IncompleteRecord | RecordTooLarge | LogEncryption | RetiredLog | LogIO

definition log_key :: "platform \<Rightarrow> byte list \<Rightarrow> byte list \<Rightarrow> byte list \<Rightarrow> byte list" where
  "log_key P key salt aad = hkdf32 P key salt [as_bytes ''ryu-sealed-log-v1'', aad]"

definition record_aad :: "byte list \<Rightarrow> nat \<Rightarrow> byte list" where
  "record_aad header index = header @ be_bytes 8 index"

definition build_log_header :: "byte list \<Rightarrow> byte list" where
  "build_log_header salt = SEALED_LOG_MAGIC @ [LOG_VERSION, 0, 0, 0] @ salt"

definition parse_header :: "byte list \<Rightarrow> log_error + unit" where
  "parse_header bytes =
     (if take 8 bytes \<noteq> SEALED_LOG_MAGIC then Inl NotALog
      else if bytes ! 8 \<noteq> LOG_VERSION \<or> bytes ! 9 \<noteq> 0 \<or> take 2 (drop 10 bytes) \<noteq> [0, 0] then Inl UnsupportedHeader
      else Inr ())"

definition is_sealed_log :: "byte list \<Rightarrow> bool" where
  "is_sealed_log bytes \<longleftrightarrow> length bytes \<ge> 8 \<and> take 8 bytes = SEALED_LOG_MAGIC"

datatype log_tail = CleanTail | ShortTail | FinalFailed

record log_scan =
  sn_records :: "byte list list"
  sn_committed_end :: nat
  sn_tail :: log_tail

definition torn_tail :: "log_scan \<Rightarrow> bool" where
  "torn_tail s \<longleftrightarrow> sn_tail s \<noteq> CleanTail"

section \<open>Scanning\<close>

text \<open>The loop of \<open>scan_with\<close> at \<open>position\<close>, which never passes the end of the bytes.\<close>

function scan_from ::
  "platform \<Rightarrow> byte list \<Rightarrow> byte list \<Rightarrow> bool \<Rightarrow> byte list \<Rightarrow> nat \<Rightarrow> nat \<Rightarrow> byte list list \<Rightarrow> log_error + log_scan" where
  "scan_from P aead header keep bytes position index records =
     (let finish = (\<lambda>tail. Inr \<lparr>sn_records = records, sn_committed_end = position, sn_tail = tail\<rparr>) in
      if length bytes \<le> position then finish CleanTail
      else if length bytes - position < 4 then finish ShortTail
      else let body_len = be_nat (take 4 (drop position bytes)); body_start = position + 4 in
        if \<not> (NONCE_LEN + TAG_LEN \<le> body_len \<and> body_len \<le> MAX_RECORD_BODY)
        then (if list_all (\<lambda>b. b = 0) (drop position bytes) then finish ShortTail else Inl (InvalidLength index))
        else if length bytes - body_start < body_len then finish ShortTail
        else let body = take body_len (drop body_start bytes); end_position = body_start + body_len in
          (case aead_decrypt P aead (take NONCE_LEN body) (drop NONCE_LEN body) (record_aad header index) of
             Some plain \<Rightarrow> scan_from P aead header keep bytes end_position (index + 1) (if keep then records @ [plain] else records)
           | None \<Rightarrow> if end_position = length bytes then finish FinalFailed else Inl (CorruptRecord index)))"
  by pat_completeness auto
termination
  by (relation "measure (\<lambda>(P, aead, header, keep, bytes, position, index, records). length bytes - position)") auto

declare scan_from.simps [simp del]

definition scan_with :: "platform \<Rightarrow> byte list \<Rightarrow> byte list \<Rightarrow> byte list \<Rightarrow> bool \<Rightarrow> log_error + log_scan" where
  "scan_with P bytes header aead keep = scan_from P aead header keep bytes SEALED_LOG_HEADER_LEN 0 []"

record opened_log =
  ol_header :: "byte list"
  ol_aead :: "byte list"
  ol_retired :: bool
  ol_scan :: log_scan

text \<open>The candidate keys in turn; the first error is kept.\<close>

fun open_candidates ::
  "platform \<Rightarrow> byte list \<Rightarrow> byte list \<Rightarrow> byte list \<Rightarrow> bool \<Rightarrow> log_error option \<Rightarrow> (content_key \<times> bool) list \<Rightarrow> log_error + opened_log" where
  "open_candidates P bytes header aad keep first_error [] =
     Inl (case first_error of Some e \<Rightarrow> e | None \<Rightarrow> LogDoesNotOpen)"
| "open_candidates P bytes header aad keep first_error ((key, retired) # keys) =
     (let aead = log_key P (ck_key key) (drop 12 header) aad in
      case scan_with P bytes header aead keep of
        Inr scan \<Rightarrow> if sn_tail scan = FinalFailed \<and> sn_committed_end scan = SEALED_LOG_HEADER_LEN
          then open_candidates P bytes header aad keep first_error keys
          else Inr \<lparr>ol_header = header, ol_aead = aead, ol_retired = retired, ol_scan = scan\<rparr>
      | Inl e \<Rightarrow> open_candidates P bytes header aad keep (Some (case first_error of Some f \<Rightarrow> f | None \<Rightarrow> e)) keys)"

definition open_log ::
  "platform \<Rightarrow> byte list \<Rightarrow> content_cipher \<Rightarrow> content_context \<Rightarrow> bool \<Rightarrow> log_error + opened_log" where
  "open_log P bytes cipher ctx keep =
     (if length bytes < SEALED_LOG_HEADER_LEN then Inl LogTooShort
      else let header = take SEALED_LOG_HEADER_LEN bytes in
        bindE (parse_header header) (\<lambda>_.
        open_candidates P bytes header (associated_data ctx (cc_store cipher)) keep None (candidate_keys cipher)))"

definition read_log_bytes ::
  "platform \<Rightarrow> byte list \<Rightarrow> content_cipher \<Rightarrow> content_context \<Rightarrow> log_error + byte list list" where
  "read_log_bytes P bytes cipher ctx = bindE (open_log P bytes cipher ctx True) (\<lambda>opened.
     if torn_tail (ol_scan opened) then Inl IncompleteRecord else Inr (sn_records (ol_scan opened)))"

record recovered_log =
  rl_records :: "byte list list"
  rl_torn_tail :: bool
  rl_needs_reseal :: bool

text \<open>A file that cannot be read is no file.\<close>

definition open_recovering ::
  "platform \<Rightarrow> byte list option \<Rightarrow> content_cipher \<Rightarrow> content_context \<Rightarrow> log_error + recovered_log" where
  "open_recovering P f cipher ctx = bindE (ok_or LogIO f) (\<lambda>bytes.
     bindE (open_log P bytes cipher ctx True) (\<lambda>opened.
     Inr \<lparr>rl_records = sn_records (ol_scan opened), rl_torn_tail = torn_tail (ol_scan opened), rl_needs_reseal = ol_retired opened\<rparr>))"

definition read_log ::
  "platform \<Rightarrow> byte list option \<Rightarrow> content_cipher \<Rightarrow> content_context \<Rightarrow> log_error + byte list list" where
  "read_log P f cipher ctx = bindE (ok_or LogIO f) (\<lambda>bytes. read_log_bytes P bytes cipher ctx)"

section \<open>Writing\<close>

record log_writer =
  lw_header :: "byte list"
  lw_aead :: "byte list"
  lw_next_index :: nat

text \<open>What the file system answers: \<open>lio_write\<close> is how many bytes of a failing write reach the file.\<close>

record log_io =
  lio_open_fails :: bool
  lio_write :: "nat option"
  lio_truncate_fails :: bool
  lio_sync_fails :: bool

definition create_with_salt ::
  "platform \<Rightarrow> content_cipher \<Rightarrow> content_context \<Rightarrow> byte list \<Rightarrow> log_io \<Rightarrow> (byte list option, log_error, log_writer) op" where
  "create_with_salt P cipher ctx salt io f =
     (let header = build_log_header salt;
          aead = log_key P (ck_key (cc_current cipher)) salt (associated_data ctx (cc_store cipher)) in
      if f \<noteq> None \<or> lio_open_fails io then (Inl LogIO, f)
      else (case lio_write io of
          Some n \<Rightarrow> (Inl LogIO, Some (take n header))
        | None \<Rightarrow> if lio_sync_fails io then (Inl LogIO, Some header)
            else (Inr \<lparr>lw_header = header, lw_aead = aead, lw_next_index = 0\<rparr>, Some header)))"

function count_from :: "byte list \<Rightarrow> nat \<Rightarrow> nat \<Rightarrow> nat" where
  "count_from bytes position count =
     (if position + 4 \<le> length bytes
      then count_from bytes (position + 4 + be_nat (take 4 (drop position bytes))) (count + 1)
      else count)"
  by pat_completeness auto
termination
  by (relation "measure (\<lambda>(bytes, position, count). length bytes - position)") auto

declare count_from.simps [simp del]

definition count_records :: "byte list \<Rightarrow> nat" where
  "count_records bytes = count_from bytes SEALED_LOG_HEADER_LEN 0"

definition open_append ::
  "platform \<Rightarrow> content_cipher \<Rightarrow> content_context \<Rightarrow> byte list \<Rightarrow> log_io \<Rightarrow> (byte list option, log_error, log_writer) op" where
  "open_append P cipher ctx salt io f = (case f of
     None \<Rightarrow> create_with_salt P cipher ctx salt io f
   | Some bytes \<Rightarrow> (case open_log P bytes cipher ctx False of
       Inl e \<Rightarrow> (Inl e, f)
     | Inr opened \<Rightarrow>
         if ol_retired opened then (Inl RetiredLog, f)
         else if lio_open_fails io then (Inl LogIO, f)
         else let committed = take (sn_committed_end (ol_scan opened)) bytes;
                  writer = \<lparr>lw_header = ol_header opened, lw_aead = ol_aead opened, lw_next_index = count_records committed\<rparr> in
           if \<not> torn_tail (ol_scan opened) then (Inr writer, f)
           else if lio_truncate_fails io then (Inl LogIO, f)
           else if lio_sync_fails io then (Inl LogIO, Some committed)
           else (Inr writer, Some committed)))"

text \<open>Appending writes at the end of the file, where the writer's file stands.\<close>

definition append_with_nonce ::
  "platform \<Rightarrow> byte list \<Rightarrow> byte list \<Rightarrow> log_io \<Rightarrow> (log_writer \<times> byte list, log_error, nat) op" where
  "append_with_nonce P rec n io s = (case s of (w, file_bytes) \<Rightarrow>
     if length rec + NONCE_LEN + TAG_LEN > MAX_RECORD_BODY then (Inl RecordTooLarge, s)
     else (case aead_encrypt P (lw_aead w) n rec (record_aad (lw_header w) (lw_next_index w)) of
         None \<Rightarrow> (Inl LogEncryption, s)
       | Some ciphertext \<Rightarrow> (let frame = be_bytes 4 (NONCE_LEN + length ciphertext) @ n @ ciphertext in
           case lio_write io of
             Some k \<Rightarrow> (Inl LogIO, w, file_bytes @ take k frame)
           | None \<Rightarrow> (Inr (lw_next_index w), w\<lparr>lw_next_index := lw_next_index w + 1\<rparr>, file_bytes @ frame))))"

section \<open>The log a list of records is written as\<close>

definition log_frame :: "byte list \<Rightarrow> byte list \<Rightarrow> byte list" where
  "log_frame n ct = be_bytes 4 (NONCE_LEN + length ct) @ n @ ct"

definition seals_record :: "platform \<Rightarrow> byte list \<Rightarrow> byte list \<Rightarrow> nat \<Rightarrow> byte list \<Rightarrow> byte list \<Rightarrow> byte list \<Rightarrow> bool" where
  "seals_record P aead header i n p ct \<longleftrightarrow> length n = NONCE_LEN \<and> length p + NONCE_LEN + TAG_LEN \<le> MAX_RECORD_BODY
     \<and> aead_encrypt P aead n p (record_aad header i) = Some ct"

text \<open>\<open>log_body P aead header i bs rs\<close>: the bytes \<open>bs\<close> are the records \<open>rs\<close>, numbered from \<open>i\<close>.\<close>

inductive log_body :: "platform \<Rightarrow> byte list \<Rightarrow> byte list \<Rightarrow> nat \<Rightarrow> byte list \<Rightarrow> byte list list \<Rightarrow> bool"
  for P aead header where
  none: "log_body P aead header i [] []"
| more: "seals_record P aead header i n p ct \<Longrightarrow> log_body P aead header (Suc i) bs rs \<Longrightarrow>
    log_body P aead header i (log_frame n ct @ bs) (p # rs)"

inductive_cases log_body_Nil: "log_body P aead header i bs []"
inductive_cases log_body_Cons: "log_body P aead header i bs (p # rs)"
inductive_simps log_body_no_records: "log_body P aead header i bs []"

lemmas log_consts = NONCE_LEN_def TAG_LEN_def MAX_RECORD_BODY_def

lemma log_body_snoc:
  "log_body P aead header i bs rs \<Longrightarrow> seals_record P aead header (i + length rs) n p ct \<Longrightarrow>
   log_body P aead header i (bs @ log_frame n ct) (rs @ [p])"
proof (induction rule: log_body.induct)
  case (none i)
  then show ?case using log_body.more [OF _ log_body.none, of P aead header i n p ct] by simp
next
  case (more i n' p' ct' bs rs)
  then show ?case using log_body.more [OF more.hyps(1)] by simp
qed

lemma sealed_body_length:
  assumes "aead_laws P" "seals_record P aead header i n p ct"
  shows "length ct = length p + TAG_LEN" "NONCE_LEN + TAG_LEN \<le> NONCE_LEN + length ct" "NONCE_LEN + length ct \<le> MAX_RECORD_BODY"
    "be_nat (be_bytes 4 (NONCE_LEN + length ct)) = NONCE_LEN + length ct"
proof -
  show l: "length ct = length p + TAG_LEN" using assms aead_length [OF assms(1)] by (auto simp: seals_record_def TAG_LEN_def)
  then show "NONCE_LEN + TAG_LEN \<le> NONCE_LEN + length ct" by simp
  show m: "NONCE_LEN + length ct \<le> MAX_RECORD_BODY" using l assms(2) by (simp add: seals_record_def)
  show "be_nat (be_bytes 4 (NONCE_LEN + length ct)) = NONCE_LEN + length ct"
    by (rule be_nat_round) (use m in \<open>simp add: MAX_RECORD_BODY_def\<close>)
qed

lemma scan_frame:
  assumes "aead_laws P" "seals_record P aead header i n p ct"
  shows "scan_from P aead header keep (pre @ log_frame n ct @ rest) (length pre) i acc
    = scan_from P aead header keep (pre @ log_frame n ct @ rest) (length (pre @ log_frame n ct)) (Suc i) (if keep then acc @ [p] else acc)"
proof -
  note b = sealed_body_length [OF assms]
  have n: "length n = NONCE_LEN" using assms(2) by (simp add: seals_record_def)
  have d: "aead_decrypt P aead n ct (record_aad header i) = Some p"
    using aead_open_seal [OF assms(1)] assms(2) by (simp add: seals_record_def)
  show ?thesis
    by (subst scan_from.simps) (use b n d in \<open>simp add: log_frame_def Let_def log_consts add_ac\<close>)
qed

lemma scan_body:
  assumes "aead_laws P" "log_body P aead header i bs rs"
  shows "scan_from P aead header keep (pre @ bs @ rest) (length pre) i acc
    = scan_from P aead header keep (pre @ bs @ rest) (length (pre @ bs)) (i + length rs) (if keep then acc @ rs else acc)"
  using assms(2)
proof (induction arbitrary: pre acc rule: log_body.induct)
  case (none i)
  then show ?case by simp
next
  case (more i n p ct bs rs)
  from scan_frame [OF assms(1) more.hyps(1), of keep pre "bs @ rest" acc] more.IH [of "pre @ log_frame n ct" "if keep then acc @ [p] else acc"]
  show ?case by simp
qed

lemma scan_end: "scan_from P aead header keep bytes (length bytes) i acc
    = Inr \<lparr>sn_records = acc, sn_committed_end = length bytes, sn_tail = CleanTail\<rparr>"
  by (subst scan_from.simps) simp

text \<open>A strict part of a frame is a short tail.\<close>

lemma scan_torn:
  assumes "aead_laws P" "seals_record P aead header i n p ct" "0 < k" "k < length (log_frame n ct)"
  shows "scan_from P aead header keep (pre @ take k (log_frame n ct)) (length pre) i acc
    = Inr \<lparr>sn_records = acc, sn_committed_end = length pre, sn_tail = ShortTail\<rparr>"
proof (cases "k < 4")
  case True
  with assms(3,4) show ?thesis by (subst scan_from.simps) (simp add: log_frame_def Let_def)
next
  case False
  note b = sealed_body_length [OF assms(1,2)]
  have n: "length n = NONCE_LEN" using assms(2) by (simp add: seals_record_def)
  define t where "t = take (k - 4) (n @ ct)"
  have t: "take k (log_frame n ct) = be_bytes 4 (NONCE_LEN + length ct) @ t"
    using False by (simp add: log_frame_def t_def)
  have k: "length t < NONCE_LEN + length ct" using assms(4) False n by (simp add: log_frame_def t_def)
  show ?thesis unfolding t
    by (subst scan_from.simps) (use b k in \<open>simp add: Let_def log_consts\<close>)
qed

lemma be_bytes_be_nat: "be_bytes (length bs) (be_nat bs) = bs"
proof (induction bs rule: rev_induct)
  case (snoc b bs)
  have "unat b < 256" using unsigned_less [of b, where ?'a = nat] by simp
  then have "be_nat (bs @ [b]) div 256 = be_nat bs" by (simp add: be_nat_def)
  moreover have "(of_nat (be_nat (bs @ [b])) :: byte) = of_nat (unat b)"
    unfolding word_of_nat_eq_iff by (simp add: be_nat_def take_bit_eq_mod)
  ultimately have "be_nat (bs @ [b]) div 256 = be_nat bs" "(of_nat (be_nat (bs @ [b])) :: byte) = b" by simp_all
  with snoc show ?case by simp
qed simp

text \<open>What a scan accepts was sealed record by record, each for its place.\<close>

lemma scan_sound:
  assumes "aead_laws P" "scan_from P aead header True bytes position i acc = Inr s" "position \<le> length bytes"
  shows "\<exists>body rs. log_body P aead header i body rs \<and> sn_records s = acc @ rs \<and> sn_committed_end s \<le> length bytes
    \<and> take (sn_committed_end s) bytes = take position bytes @ body \<and> (sn_tail s = CleanTail \<longrightarrow> sn_committed_end s = length bytes)"
  using assms
proof (induction P aead header "True" bytes position i acc rule: scan_from.induct)
  case (1 P aead header bytes position i acc)
  let ?len = "be_nat (take 4 (drop position bytes))"
  let ?body = "take ?len (drop (position + 4) bytes)"
  let ?go = "position + 4 + ?len \<le> length bytes \<and> NONCE_LEN + TAG_LEN \<le> ?len \<and> ?len \<le> MAX_RECORD_BODY"
  show ?case
  proof (cases "\<exists>p. ?go \<and> aead_decrypt P aead (take NONCE_LEN ?body) (drop NONCE_LEN ?body) (record_aad header i) = Some p")
    case False
    then have "sn_records s = acc \<and> sn_committed_end s = position \<and> (sn_tail s = CleanTail \<longrightarrow> position = length bytes)"
      using "1.prems"(2,3)
      by (subst (asm) scan_from.simps) (auto simp: Let_def not_le not_less split: if_splits option.splits)
    then show ?thesis using "1.prems"(3) log_body.none by fastforce
  next
    case True
    then obtain p where go: ?go and p: "aead_decrypt P aead (take NONCE_LEN ?body) (drop NONCE_LEN ?body) (record_aad header i) = Some p"
      by blast
    from go have g: "\<not> length bytes \<le> position" "\<not> length bytes - position < 4" "\<not> length bytes - (position + 4) < ?len" by auto
    have r: "scan_from P aead header True bytes (position + 4 + ?len) (i + 1) (acc @ [p]) = Inr s"
      using "1.prems"(2) go g p by (subst (asm) scan_from.simps) (simp add: Let_def)
    have "\<exists>body rs. log_body P aead header (i + 1) body rs \<and> sn_records s = (acc @ [p]) @ rs \<and> sn_committed_end s \<le> length bytes
      \<and> take (sn_committed_end s) bytes = take (position + 4 + ?len) bytes @ body \<and> (sn_tail s = CleanTail \<longrightarrow> sn_committed_end s = length bytes)"
      using "1.hyps" [OF refl g(1) g(2) refl refl _ g(3) refl refl p] "1.prems"(1) r go by simp
    then obtain body rs where br: "log_body P aead header (Suc i) body rs" "sn_records s = acc @ p # rs" "sn_committed_end s \<le> length bytes"
      "take (sn_committed_end s) bytes = take (position + 4 + ?len) bytes @ body" "sn_tail s = CleanTail \<longrightarrow> sn_committed_end s = length bytes"
      by auto
    let ?n = "take NONCE_LEN ?body" and ?ct = "drop NONCE_LEN ?body"
    have ct: "aead_encrypt P aead ?n p (record_aad header i) = Some ?ct" by (rule aead_seal_open [OF "1.prems"(1) p])
    have "?len \<le> length bytes - (position + 4)" using go by linarith
    then have lb: "length ?body = ?len" by (simp add: min_absorb2)
    have n: "length ?n = NONCE_LEN" "NONCE_LEN + length ?ct = ?len" using go lb by (auto simp: log_consts)
    have "seals_record P aead header i ?n p ?ct"
      using ct n go aead_length [OF "1.prems"(1) ct] by (auto simp: seals_record_def TAG_LEN_def)
    from log_body.more [OF this br(1)] have lbody: "log_body P aead header i (log_frame ?n ?ct @ body) (p # rs)" .
    have l4: "length (take 4 (drop position bytes)) = 4" using g(2) by (simp add: min_absorb2)
    have "be_bytes 4 ?len = take 4 (drop position bytes)" using be_bytes_be_nat [of "take 4 (drop position bytes)"] unfolding l4 .
    then have "log_frame ?n ?ct = take 4 (drop position bytes) @ ?body" unfolding log_frame_def n(2) append_take_drop_id by (simp only:)
    also have "\<dots> = take (4 + ?len) (drop position bytes)" by (simp add: take_add add.commute)
    finally have "take (position + 4 + ?len) bytes = take position bytes @ log_frame ?n ?ct" by (simp add: take_add add.assoc)
    with br lbody show ?thesis by (intro exI [of _ "log_frame ?n ?ct @ body"] exI [of _ "p # rs"]) simp
  qed
qed

section \<open>Logs on disk\<close>

definition log_at :: "platform \<Rightarrow> content_cipher \<Rightarrow> content_context \<Rightarrow> byte list \<Rightarrow> byte list \<Rightarrow> byte list list \<Rightarrow> bool" where
  "log_at P cipher ctx salt bytes rs \<longleftrightarrow> length salt = SALT_LEN \<and> (\<exists>body. bytes = build_log_header salt @ body
     \<and> log_body P (log_key P (ck_key (cc_current cipher)) salt (associated_data ctx (cc_store cipher))) (build_log_header salt) 0 body rs)"

text \<open>The file holds the records \<open>rs\<close>, sealed under the cipher's current key; the writer stands at its end.\<close>

definition log_of :: "platform \<Rightarrow> content_cipher \<Rightarrow> content_context \<Rightarrow> byte list \<Rightarrow> byte list list \<Rightarrow> bool" where
  "log_of P cipher ctx bytes rs \<longleftrightarrow> (\<exists>salt. log_at P cipher ctx salt bytes rs)"

definition writer_at :: "platform \<Rightarrow> content_cipher \<Rightarrow> content_context \<Rightarrow> byte list \<Rightarrow> nat \<Rightarrow> log_writer" where
  "writer_at P cipher ctx salt count = \<lparr>lw_header = build_log_header salt,
     lw_aead = log_key P (ck_key (cc_current cipher)) salt (associated_data ctx (cc_store cipher)), lw_next_index = count\<rparr>"

lemma magic_length [simp]: "length SEALED_LOG_MAGIC = 8"
  by (simp add: SEALED_LOG_MAGIC_def as_bytes_def)

lemma header_facts:
  assumes "length salt = SALT_LEN"
  shows "length (build_log_header salt) = SEALED_LOG_HEADER_LEN" "parse_header (build_log_header salt) = Inr ()"
    "drop 12 (build_log_header salt) = salt"
  using assms by (simp_all add: build_log_header_def parse_header_def SALT_LEN_def SEALED_LOG_HEADER_LEN_def nth_append)

lemma open_log_current:
  assumes "length salt = SALT_LEN"
    and "scan_with P (build_log_header salt @ body) (build_log_header salt)
      (log_key P (ck_key (cc_current cipher)) salt (associated_data ctx (cc_store cipher))) keep = Inr scan"
    and "sn_tail scan \<noteq> FinalFailed"
  shows "open_log P (build_log_header salt @ body) cipher ctx keep = Inr \<lparr>ol_header = build_log_header salt,
    ol_aead = log_key P (ck_key (cc_current cipher)) salt (associated_data ctx (cc_store cipher)), ol_retired = False, ol_scan = scan\<rparr>"
  using assms header_facts [OF assms(1)] by (simp add: open_log_def candidate_keys_def Let_def)

text \<open>A log followed by nothing, or by a strict part of one more frame, opens to its records.\<close>

lemma open_log_tail:
  assumes "aead_laws P" "log_at P cipher ctx salt bytes rs"
    and "t = [] \<or> (\<exists>n p ct k. seals_record P (lw_aead (writer_at P cipher ctx salt 0)) (build_log_header salt) (length rs) n p ct
      \<and> 0 < k \<and> k < length (log_frame n ct) \<and> t = take k (log_frame n ct))"
  shows "open_log P (bytes @ t) cipher ctx keep = Inr \<lparr>ol_header = build_log_header salt,
    ol_aead = lw_aead (writer_at P cipher ctx salt 0), ol_retired = False,
    ol_scan = \<lparr>sn_records = (if keep then rs else []), sn_committed_end = length bytes, sn_tail = (if t = [] then CleanTail else ShortTail)\<rparr>\<rparr>"
proof -
  let ?h = "build_log_header salt" and ?k = "lw_aead (writer_at P cipher ctx salt 0)"
  from assms(2) obtain body where salt: "length salt = SALT_LEN" and b: "bytes = ?h @ body" and lb: "log_body P ?k ?h 0 body rs"
    by (auto simp: log_at_def writer_at_def)
  note h = header_facts [OF salt]
  have "scan_with P (?h @ body @ t) ?h ?k keep = scan_from P ?k ?h keep (bytes @ t) (length bytes) (length rs) (if keep then rs else [])"
    using scan_body [OF assms(1) lb, of keep ?h t "[]"] h(1) unfolding b by (simp add: scan_with_def)
  also have "\<dots> = Inr \<lparr>sn_records = (if keep then rs else []), sn_committed_end = length bytes, sn_tail = (if t = [] then CleanTail else ShortTail)\<rparr>"
  proof (cases "t = []")
    case True
    then show ?thesis using scan_end [of P ?k ?h keep bytes] by simp
  next
    case False
    with assms(3) obtain n p ct k where "seals_record P ?k ?h (length rs) n p ct" "0 < k" "k < length (log_frame n ct)" "t = take k (log_frame n ct)"
      by blast
    with scan_torn [OF assms(1)] False show ?thesis by simp
  qed
  finally show ?thesis
    using open_log_current [OF salt, of P "body @ t" cipher ctx keep] unfolding b by (simp add: writer_at_def)
qed

lemma log_of_reads:
  assumes "aead_laws P" "log_of P cipher ctx bytes rs"
  shows "read_log P (Some bytes) cipher ctx = Inr rs"
proof -
  from assms(2) obtain salt where "log_at P cipher ctx salt bytes rs" by (auto simp: log_of_def)
  from open_log_tail [OF assms(1) this, of "[]" True] show ?thesis
    by (simp add: read_log_def read_log_bytes_def ok_or_def torn_tail_def)
qed

lemma count_body:
  assumes "aead_laws P" "log_body P aead header i bs rs"
  shows "count_from (pre @ bs) (length pre) c = c + length rs"
  using assms(2)
proof (induction arbitrary: pre c rule: log_body.induct)
  case (none i)
  then show ?case by (simp add: count_from.simps)
next
  case (more i n p ct bs rs)
  note b = sealed_body_length [OF assms(1) more.hyps(1)]
  have n: "length n = NONCE_LEN" using more.hyps(1) by (simp add: seals_record_def)
  have "count_from (pre @ log_frame n ct @ bs) (length pre) c = count_from ((pre @ log_frame n ct) @ bs) (length (pre @ log_frame n ct)) (c + 1)"
    by (subst count_from.simps) (use b(4) n in \<open>simp add: log_frame_def add_ac\<close>)
  also have "\<dots> = c + length (p # rs)" unfolding more.IH by simp
  finally show ?case .
qed

text \<open>A log reopens where it ended, with its torn tail removed.\<close>

lemma open_append_tail:
  assumes "aead_laws P" "log_at P cipher ctx salt bytes rs"
    and "t = [] \<or> (\<exists>n p ct k. seals_record P (lw_aead (writer_at P cipher ctx salt 0)) (build_log_header salt) (length rs) n p ct
      \<and> 0 < k \<and> k < length (log_frame n ct) \<and> t = take k (log_frame n ct))"
    and "\<not> lio_open_fails io" "\<not> lio_truncate_fails io" "\<not> lio_sync_fails io"
  shows "open_append P cipher ctx salt' io (Some (bytes @ t)) = (Inr (writer_at P cipher ctx salt (length rs)), Some bytes)"
proof -
  from assms(2) obtain body where b: "length salt = SALT_LEN" "bytes = build_log_header salt @ body"
    "log_body P (lw_aead (writer_at P cipher ctx salt 0)) (build_log_header salt) 0 body rs" by (auto simp: log_at_def writer_at_def)
  have "count_records bytes = length rs"
    using count_body [OF assms(1) b(3), of "build_log_header salt" 0] header_facts(1) [OF b(1)] unfolding b(2) by (simp add: count_records_def)
  then show ?thesis
    using open_log_tail [OF assms(1-3), of False] assms(4-6)
    by (simp add: open_append_def torn_tail_def Let_def) (simp add: writer_at_def)
qed

lemma open_append_Inr:
  assumes "aead_laws P" "log_at P cipher ctx salt bytes rs" "open_append P cipher ctx salt' io (Some bytes) = (Inr w, f)"
  shows "w = writer_at P cipher ctx salt (length rs)" "f = Some bytes"
proof -
  have "\<not> lio_open_fails io" using assms(3) by (auto simp: open_append_def split: sum.splits if_splits)
  then have "\<not> lio_open_fails (io\<lparr>lio_truncate_fails := False, lio_sync_fails := False\<rparr>)" by simp
  from open_append_tail [OF assms(1,2), of "[]" "io\<lparr>lio_truncate_fails := False, lio_sync_fails := False\<rparr>" salt', OF _ this]
  have "open_append P cipher ctx salt' (io\<lparr>lio_truncate_fails := False, lio_sync_fails := False\<rparr>) (Some bytes)
    = (Inr (writer_at P cipher ctx salt (length rs)), Some bytes)" by simp
  moreover have "open_append P cipher ctx salt' io (Some bytes)
    = open_append P cipher ctx salt' (io\<lparr>lio_truncate_fails := False, lio_sync_fails := False\<rparr>) (Some bytes)"
    using open_log_tail [OF assms(1,2), of "[]" False] by (simp add: open_append_def torn_tail_def Let_def)
  ultimately show "w = writer_at P cipher ctx salt (length rs)" "f = Some bytes" using assms(3) by auto
qed

lemma append_Inr:
  assumes "append_with_nonce P rec n io (writer_at P cipher ctx salt i, bytes) = (Inr j, w, bytes')" "length n = NONCE_LEN"
  obtains ct where "j = i" "w = writer_at P cipher ctx salt (Suc i)" "bytes' = bytes @ log_frame n ct"
    "seals_record P (lw_aead (writer_at P cipher ctx salt 0)) (build_log_header salt) i n rec ct"
  using assms
  by (auto simp: append_with_nonce_def writer_at_def seals_record_def log_frame_def Let_def split: if_splits option.splits)

lemma log_at_append:
  assumes "log_at P cipher ctx salt bytes rs"
    and "seals_record P (lw_aead (writer_at P cipher ctx salt 0)) (build_log_header salt) (length rs) n rec ct"
  shows "log_at P cipher ctx salt (bytes @ log_frame n ct) (rs @ [rec])"
  using assms log_body_snoc [of P _ _ 0 _ rs n rec ct] by (auto simp: log_at_def writer_at_def)


section \<open>Crashes\<close>

text \<open>A run of appends; each takes a record and its nonce.\<close>

fun append_all :: "platform \<Rightarrow> log_io \<Rightarrow> (byte list \<times> byte list) list \<Rightarrow> (log_writer \<times> byte list, log_error, unit) op" where
  "append_all P io [] = retS ()"
| "append_all P io ((rec, n) # rs) = bindS (append_with_nonce P rec n io) (\<lambda>_. append_all P io rs)"

lemma append_all_body:
  assumes "list_all (\<lambda>(rec, n). length n = NONCE_LEN) recs"
    and "append_all P io recs (writer_at P cipher ctx salt i, bytes) = (Inr x, w, bytes')"
  shows "\<exists>extra. bytes' = bytes @ extra
    \<and> log_body P (lw_aead (writer_at P cipher ctx salt 0)) (build_log_header salt) i extra (map fst recs)"
  using assms
proof (induction recs arbitrary: i bytes)
  case Nil
  then show ?case using log_body.none by auto
next
  case (Cons rn recs)
  obtain rec n where rn: "rn = (rec, n)" by fastforce
  with Cons.prems(1) have nl: "length n = NONCE_LEN" and nls: "list_all (\<lambda>(rec, n). length n = NONCE_LEN) recs" by auto
  from Cons.prems(2) obtain j v1 v2 where a: "append_with_nonce P rec n io (writer_at P cipher ctx salt i, bytes) = (Inr j, v1, v2)"
    and r: "append_all P io recs (v1, v2) = (Inr x, w, bytes')" by (auto simp: rn bindS_eq_Inr)
  from append_Inr [OF a nl] obtain ct where ct: "v1 = writer_at P cipher ctx salt (Suc i)" "v2 = bytes @ log_frame n ct"
    "seals_record P (lw_aead (writer_at P cipher ctx salt 0)) (build_log_header salt) i n rec ct" .
  from Cons.IH [OF nls r [unfolded ct]] obtain e where "bytes' = (bytes @ log_frame n ct) @ e"
    "log_body P (lw_aead (writer_at P cipher ctx salt 0)) (build_log_header salt) (Suc i) e (map fst recs)" by blast
  with log_body.more [OF ct(3)] rn show ?case by auto
qed

lemma log_body_append:
  "log_body P aead header i bs rs \<Longrightarrow> log_body P aead header (i + length rs) cs qs \<Longrightarrow> log_body P aead header i (bs @ cs) (rs @ qs)"
proof (induction rule: log_body.induct)
  case (more i n p ct bs rs)
  then show ?case using log_body.more [OF more.hyps(1)] by simp
qed simp

text \<open>A prefix of the bytes is the log of the first records and at most a strict part of one more frame.\<close>

lemma log_body_cut:
  assumes "log_body P aead header i bs rs"
  shows "\<exists>m cut t. m \<le> length rs \<and> take k bs = cut @ t \<and> log_body P aead header i cut (take m rs)
    \<and> (t = [] \<or> (\<exists>n p ct j. seals_record P aead header (i + m) n p ct \<and> 0 < j \<and> j < length (log_frame n ct) \<and> t = take j (log_frame n ct)))
    \<and> (length bs \<le> k \<longrightarrow> m = length rs \<and> t = [])"
  using assms
proof (induction arbitrary: k rule: log_body.induct)
  case (none i)
  then show ?case using log_body.none by auto
next
  case (more i n p ct bs rs)
  let ?f = "log_frame n ct"
  have f0: "0 < length ?f" by (simp add: log_frame_def)
  show ?case
  proof (cases "k < length ?f")
    case True
    let ?t = "take k ?f"
    have "?t = [] \<or> 0 < k" by auto
    then have "?t = [] \<or> (\<exists>n p ct j. seals_record P aead header (i + 0) n p ct \<and> 0 < j \<and> j < length (log_frame n ct) \<and> ?t = take j (log_frame n ct))"
      using more.hyps(1) True by fastforce
    then show ?thesis using True f0 log_body.none [of P aead header i]
      by (intro exI [of _ 0] exI [of _ "[]"] exI [of _ ?t]) auto
  next
    case False
    from more.IH [of "k - length ?f"] obtain m cut t where h: "m \<le> length rs" "take (k - length ?f) bs = cut @ t"
      "log_body P aead header (Suc i) cut (take m rs)"
      "t = [] \<or> (\<exists>n p ct j. seals_record P aead header (Suc i + m) n p ct \<and> 0 < j \<and> j < length (log_frame n ct) \<and> t = take j (log_frame n ct))"
      "length bs \<le> k - length ?f \<longrightarrow> m = length rs \<and> t = []" by blast
    have "take k (?f @ bs) = (?f @ cut) @ t" using False h(2) by simp
    moreover have "log_body P aead header i (?f @ cut) (take (Suc m) (p # rs))" using log_body.more [OF more.hyps(1) h(3)] by simp
    ultimately show ?thesis using h(1,4,5) by (intro exI [of _ "Suc m"] exI [of _ "?f @ cut"] exI [of _ t]) auto
  qed
qed

text \<open>
  C23. A crash loses no record that reached the disk whole: when records are appended to a log and any prefix
  of the bytes remains that covers the old log, recovery answers with the old records and the first of
  the new ones, all of them when all bytes are there; and the log reopens for appending holding exactly those.
\<close>

theorem log_survives_crash:
  assumes "aead_laws P" "log_of P cipher ctx bytes rs" "list_all (\<lambda>(rec, n). length n = NONCE_LEN) recs"
    and "open_append P cipher ctx salt io (Some bytes) = (Inr w, Some bytes')"
    and "append_all P io' recs (w, bytes') = (Inr x, w', written)" "length bytes \<le> k"
    and "\<not> lio_open_fails io''" "\<not> lio_truncate_fails io''" "\<not> lio_sync_fails io''"
  shows "\<exists>m torn w2 bytes2. m \<le> length recs \<and> (length written \<le> k \<longrightarrow> m = length recs \<and> \<not> torn)
    \<and> open_recovering P (Some (take k written)) cipher ctx
      = Inr \<lparr>rl_records = rs @ take m (map fst recs), rl_torn_tail = torn, rl_needs_reseal = False\<rparr>
    \<and> open_append P cipher ctx salt io'' (Some (take k written)) = (Inr w2, Some bytes2)
    \<and> log_of P cipher ctx bytes2 (rs @ take m (map fst recs)) \<and> lw_next_index w2 = length rs + m"
proof -
  from assms(2) obtain s where at: "log_at P cipher ctx s bytes rs" by (auto simp: log_of_def)
  let ?k = "lw_aead (writer_at P cipher ctx s 0)" and ?h = "build_log_header s"
  note w = open_append_Inr [OF assms(1) at assms(4)]
  from w(2) have w2: "bytes' = bytes" by simp
  from append_all_body [OF assms(3) assms(5) [unfolded w(1) w2]] obtain e where e: "written = bytes @ e"
    "log_body P ?k ?h (length rs) e (map fst recs)" by blast
  from log_body_cut [OF e(2), of "k - length bytes", unfolded length_map] obtain m cut t where c: "m \<le> length recs" "take (k - length bytes) e = cut @ t"
    "log_body P ?k ?h (length rs) cut (take m (map fst recs))"
    "t = [] \<or> (\<exists>n p ct j. seals_record P ?k ?h (length rs + m) n p ct \<and> 0 < j \<and> j < length (log_frame n ct) \<and> t = take j (log_frame n ct))"
    "length e \<le> k - length bytes \<longrightarrow> m = length recs \<and> t = []" by blast
  let ?rs = "rs @ take m (map fst recs)"
  have tk: "take k written = (bytes @ cut) @ t" using e(1) c(2) assms(6) by simp
  have at2: "log_at P cipher ctx s (bytes @ cut) ?rs"
    using at log_body_append [of P ?k ?h 0 _ rs cut "take m (map fst recs)"] c(3) by (auto simp: log_at_def writer_at_def)
  have len: "length ?rs = length rs + m" using c(1) by simp
  have tl: "t = [] \<or> (\<exists>n p ct j. seals_record P ?k ?h (length ?rs) n p ct \<and> 0 < j \<and> j < length (log_frame n ct) \<and> t = take j (log_frame n ct))"
    using c(4) unfolding len .
  have r: "open_recovering P (Some (take k written)) cipher ctx = Inr \<lparr>rl_records = ?rs, rl_torn_tail = (t \<noteq> []), rl_needs_reseal = False\<rparr>"
    unfolding tk using open_log_tail [OF assms(1) at2 tl, of True] by (simp add: open_recovering_def ok_or_def torn_tail_def)
  have o: "open_append P cipher ctx salt io'' (Some (take k written)) = (Inr (writer_at P cipher ctx s (length ?rs)), Some (bytes @ cut))"
    unfolding tk by (rule open_append_tail [OF assms(1) at2 tl assms(7-9)])
  have "length written \<le> k \<longrightarrow> m = length recs \<and> \<not> t \<noteq> []" using c(5) e(1) by auto
  then show ?thesis using c(1) r o at2 len
    by (intro exI [of _ m] exI [of _ "t \<noteq> []"] exI [of _ "writer_at P cipher ctx s (length ?rs)"] exI [of _ "bytes @ cut"])
      (auto simp: log_of_def writer_at_def)
qed

section \<open>Integrity\<close>

lemma open_candidates_Inr:
  "open_candidates P bytes header aad keep e keys = Inr ol \<Longrightarrow>
    \<exists>key retired. (key, retired) \<in> set keys \<and> ol_header ol = header \<and> ol_aead ol = log_key P (ck_key key) (drop 12 header) aad
      \<and> ol_retired ol = retired \<and> scan_with P bytes header (ol_aead ol) keep = Inr (ol_scan ol)"
  by (induction P bytes header aad keep e keys rule: open_candidates.induct)
    (auto simp: Let_def split: sum.splits if_splits)

text \<open>
  C24. What a log reads as was sealed for it: every byte after the header belongs to the records returned, and
  each record was encrypted under a key of the cipher for this store, context and file, at its own index.
  Nothing can be altered, exchanged, repeated or moved between logs; only a tail can be cut at a record.
\<close>

theorem read_log_is_authentic:
  assumes "aead_laws P" "read_log_bytes P bytes cipher ctx = Inr rs"
  shows "\<exists>key retired header body. (key, retired) \<in> set (candidate_keys cipher) \<and> bytes = header @ body
    \<and> length header = SEALED_LOG_HEADER_LEN \<and> parse_header header = Inr ()
    \<and> log_body P (log_key P (ck_key key) (drop 12 header) (associated_data ctx (cc_store cipher))) header 0 body rs"
proof -
  from assms(2) obtain ol where o: "open_log P bytes cipher ctx True = Inr ol" "sn_tail (ol_scan ol) = CleanTail" "rs = sn_records (ol_scan ol)"
    by (auto simp: read_log_bytes_def bindE_eq_Inr torn_tail_def split: if_splits)
  let ?h = "take SEALED_LOG_HEADER_LEN bytes"
  from o(1) have l: "SEALED_LOG_HEADER_LEN \<le> length bytes" and h: "parse_header ?h = Inr ()"
    and c: "open_candidates P bytes ?h (associated_data ctx (cc_store cipher)) True None (candidate_keys cipher) = Inr ol"
    by (auto simp: open_log_def Let_def bindE_eq_Inr split: if_splits)
  from open_candidates_Inr [OF c] obtain key retired where k: "(key, retired) \<in> set (candidate_keys cipher)"
    "scan_with P bytes ?h (log_key P (ck_key key) (drop 12 ?h) (associated_data ctx (cc_store cipher))) True = Inr (ol_scan ol)" by auto
  from scan_sound [OF assms(1) k(2) [unfolded scan_with_def] l] o(2,3) obtain body where
    "log_body P (log_key P (ck_key key) (drop 12 ?h) (associated_data ctx (cc_store cipher))) ?h 0 body rs" "bytes = ?h @ body" by auto
  with k(1) h l show ?thesis by (intro exI [of _ key] exI [of _ retired] exI [of _ ?h] exI [of _ body]) simp
qed

section \<open>Appending after a failed append\<close>

text \<open>Under any key a scan of whole frames with more behind them fails or passes to their end.\<close>

lemma scan_any_key:
  assumes "aead_laws P" "log_body P aead header i bs rs" "rest \<noteq> []"
  shows "(\<exists>e. scan_from P key hdr keep (pre @ bs @ rest) (length pre) j acc = Inl e)
    \<or> (\<exists>j' acc'. scan_from P key hdr keep (pre @ bs @ rest) (length pre) j acc
      = scan_from P key hdr keep (pre @ bs @ rest) (length (pre @ bs)) j' acc')"
  using assms(2)
proof (induction arbitrary: pre j acc rule: log_body.induct)
  case (none i)
  then show ?case by auto
next
  case (more i n p ct bs rs)
  note b = sealed_body_length [OF assms(1) more.hyps(1)]
  have n: "length n = NONCE_LEN" using more.hyps(1) by (simp add: seals_record_def)
  have "scan_from P key hdr keep (pre @ log_frame n ct @ bs @ rest) (length pre) j acc = (case aead_decrypt P key n ct (record_aad hdr j) of
      Some plain \<Rightarrow> scan_from P key hdr keep (pre @ log_frame n ct @ bs @ rest) (length (pre @ log_frame n ct)) (Suc j)
        (if keep then acc @ [plain] else acc)
    | None \<Rightarrow> Inl (CorruptRecord j))"
    by (subst scan_from.simps) (use b n assms(3) in \<open>simp add: log_frame_def Let_def log_consts add_ac split: option.split\<close>)
  with more.IH [of "pre @ log_frame n ct"] show ?case by (auto split: option.splits)
qed

lemma be_bytes_4: "be_bytes 4 l = [of_nat (l div 256 div 256 div 256), of_nat (l div 256 div 256), of_nat (l div 256), of_nat l]"
proof -
  have "be_bytes 4 l = be_bytes (Suc (Suc (Suc (Suc 0)))) l" by (rule arg_cong [of _ _ "\<lambda>k. be_bytes k l"]) simp
  then show ?thesis by simp
qed

lemma be_bytes_small: "l < 7168 \<Longrightarrow> be_bytes 4 l = [0, 0, of_nat (l div 256), of_nat l] \<and> l div 256 < 28"
  by (simp add: be_bytes_4 less_mult_imp_div_less)

lemma scan_shifted:
  assumes "28 \<le> l" "l < 7168"
  shows "scan_from P key hdr keep (pre @ 0 # be_bytes 4 l @ rest) (length pre) j acc = Inl (InvalidLength j)"
proof -
  have f: "be_bytes 4 l = [0, 0, of_nat (l div 256), of_nat l]" and d: "l div 256 < 28" using be_bytes_small [OF assms(2)] by auto
  have u: "unat (of_nat (l div 256) :: byte) = l div 256" using d by (simp add: unat_of_nat)
  have "\<not> list_all (\<lambda>b. b = 0) (0 # be_bytes 4 l @ rest)"
  proof
    assume "list_all (\<lambda>b. b = 0) (0 # be_bytes 4 l @ rest)"
    then have "unat (of_nat (l div 256) :: byte) = 0" "unat (of_nat l :: byte) = 0" unfolding f by simp_all
    then have "l div 256 = 0" "l mod 256 = 0" unfolding u by (simp_all add: unat_of_nat)
    with assms(1) show False by (metis add_0 div_mult_mod_eq mult_0 not_numeral_le_zero)
  qed
  then show ?thesis using d u
    unfolding f by (subst scan_from.simps) (simp add: Let_def be_nat_def log_consts)
qed


end
