(* ===== verification/Sealed_File.thy ===== *)
theory Sealed_File
  imports Content_Crypto
begin

text \<open>
  crates/core/crypto/src/sealed_file.rs: write-once sealed files. A file is a 32-byte header and the
  plaintext in chunks, each encrypted under its index with the last one marked. The writer keeps one
  chunk back so that it knows which is last; the reader loads the chunks it is asked for.
\<close>

section \<open>Format\<close>

definition SEALED_FILE_HEADER_LEN :: nat where "SEALED_FILE_HEADER_LEN = 32"
definition DEFAULT_CHUNK_LOG2 :: nat where "DEFAULT_CHUNK_LOG2 = 16"
definition FILE_SALT_LEN :: nat where "FILE_SALT_LEN = 20"
definition SEAL_IN_PLACE_HEADROOM :: nat where "SEAL_IN_PLACE_HEADROOM = 64 * 1024 * 1024"

text \<open>\<open>FilePanic\<close> is an underflow of the chunk arithmetic, which no operation reaches.\<close>

datatype file_error = BadChunkLog2 | ChunkEncryption | FileIO | FileTruncated | NotASealedFile | UnsupportedFileHeader
  | NoChunks | ChunkOutOfRange | ChunkDoesNotOpen | FileDoesNotOpen | SeekBeforeStart | InsufficientSpace | DoesNotVerify | FilePanic

definition file_key :: "platform \<Rightarrow> byte list \<Rightarrow> byte list \<Rightarrow> byte list \<Rightarrow> byte list" where
  "file_key P cipher_key salt aad = hkdf32 P cipher_key salt [as_bytes ''ryu-sealed-file-v1'', aad]"

definition chunk_nonce :: "nat \<Rightarrow> bool \<Rightarrow> byte list" where
  "chunk_nonce index last_chunk = [0, 0, 0] @ be_bytes 8 index @ [if last_chunk then 1 else 0]"

definition build_file_header :: "nat \<Rightarrow> byte list \<Rightarrow> byte list" where
  "build_file_header chunk_log2 salt = SEALED_FILE_MAGIC @ [of_nat chunk_log2, 0, 0, 0] @ salt"

section \<open>Writing\<close>

text \<open>The sink is its bytes; the hasher is what was hashed. The chunk size is \<open>2 ^ sfw_chunk_log2\<close>.\<close>

record file_writer =
  sfw_sink :: "byte list"
  sfw_aead :: "byte list"
  sfw_header :: "byte list"
  sfw_chunk_log2 :: nat
  sfw_buffer :: "byte list"
  sfw_next_index :: nat
  sfw_plaintext_len :: nat
  sfw_hashed :: "byte list"

abbreviation chunk_size :: "file_writer \<Rightarrow> nat" where
  "chunk_size w \<equiv> 2 ^ sfw_chunk_log2 w"

text \<open>\<open>fails i\<close>: how many bytes of the \<open>i\<close>-th write reach the sink when it fails. The header is write 0.\<close>

type_synonym sink_io = "nat \<Rightarrow> nat option"

definition with_params ::
  "platform \<Rightarrow> content_cipher \<Rightarrow> content_context \<Rightarrow> nat \<Rightarrow> byte list \<Rightarrow> sink_io \<Rightarrow> file_error + file_writer" where
  "with_params P cipher ctx chunk_log2 salt fails =
     (if \<not> (10 \<le> chunk_log2 \<and> chunk_log2 \<le> 20) then Inl BadChunkLog2
      else let header = build_file_header chunk_log2 salt in
        if fails 0 \<noteq> None then Inl FileIO
        else Inr \<lparr>sfw_sink = header, sfw_aead = file_key P (ck_key (cc_current cipher)) salt (associated_data ctx (cc_store cipher)),
          sfw_header = header, sfw_chunk_log2 = chunk_log2, sfw_buffer = [], sfw_next_index = 0, sfw_plaintext_len = 0, sfw_hashed = []\<rparr>)"

definition seal_chunk :: "platform \<Rightarrow> sink_io \<Rightarrow> bool \<Rightarrow> (file_writer, file_error, unit) op" where
  "seal_chunk P fails last_chunk w =
     (case aead_encrypt P (sfw_aead w) (chunk_nonce (sfw_next_index w) last_chunk) (sfw_buffer w) (sfw_header w) of
        None \<Rightarrow> (Inl ChunkEncryption, w)
      | Some sealed \<Rightarrow> (case fails (sfw_next_index w + 1) of
          Some k \<Rightarrow> (Inl FileIO, w\<lparr>sfw_sink := sfw_sink w @ take k sealed\<rparr>)
        | None \<Rightarrow> (Inr (), w\<lparr>sfw_sink := sfw_sink w @ sealed, sfw_next_index := sfw_next_index w + 1, sfw_buffer := []\<rparr>)))"

text \<open>One round of the loop of \<open>write_plain\<close> before the data is taken: a full chunk is sealed.\<close>

definition make_room :: "platform \<Rightarrow> sink_io \<Rightarrow> (file_writer, file_error, unit) op" where
  "make_room P fails w = (if length (sfw_buffer w) = chunk_size w then seal_chunk P fails False w else (Inr (), w))"

lemma make_room_log2: "make_room P fails w = (r, v) \<Longrightarrow> sfw_chunk_log2 v = sfw_chunk_log2 w"
  by (auto simp: make_room_def seal_chunk_def split: if_splits option.splits)

function write_loop :: "platform \<Rightarrow> sink_io \<Rightarrow> byte list \<Rightarrow> (file_writer, file_error, unit) op" where
  "write_loop P fails data w =
     (if data = [] then (Inr (), w)
      else (case make_room P fails w of
          (Inl e, v) \<Rightarrow> (Inl e, v)
        | (Inr _, v) \<Rightarrow>
            if chunk_size v \<le> length (sfw_buffer v) then (Inl FilePanic, v)
            else let n = min (chunk_size v - length (sfw_buffer v)) (length data) in
              write_loop P fails (drop n data) (v\<lparr>sfw_buffer := sfw_buffer v @ take n data\<rparr>)))"
  by pat_completeness auto
termination
  by (relation "measure (\<lambda>(P, fails, data, w). length data)") auto

declare write_loop.simps [simp del]

definition write_plain :: "platform \<Rightarrow> sink_io \<Rightarrow> byte list \<Rightarrow> (file_writer, file_error, unit) op" where
  "write_plain P fails data w = write_loop P fails data
     (w\<lparr>sfw_hashed := sfw_hashed w @ data, sfw_plaintext_len := sfw_plaintext_len w + length data\<rparr>)"

record finished_file =
  ff_sink :: "byte list"
  ff_plaintext_len :: nat
  ff_plaintext_sha256 :: "byte list"

definition finish_file :: "platform \<Rightarrow> sink_io \<Rightarrow> bool \<Rightarrow> file_writer \<Rightarrow> file_error + finished_file" where
  "finish_file P fails sync_fails w = (case seal_chunk P fails True w of
     (Inl e, _) \<Rightarrow> Inl e
   | (Inr _, v) \<Rightarrow> if sync_fails then Inl FileIO
       else Inr \<lparr>ff_sink = sfw_sink v, ff_plaintext_len = sfw_plaintext_len v, ff_plaintext_sha256 = sha256 P (sfw_hashed v)\<rparr>)"

text \<open>Memory sinks do not fail.\<close>

definition no_failures :: sink_io where "no_failures = (\<lambda>i. None)"

definition seal_file_bytes :: "platform \<Rightarrow> byte list \<Rightarrow> content_cipher \<Rightarrow> content_context \<Rightarrow> byte list \<Rightarrow> file_error + byte list" where
  "seal_file_bytes P plaintext cipher ctx salt =
     bindE (with_params P cipher ctx DEFAULT_CHUNK_LOG2 salt no_failures) (\<lambda>w.
     bindE (case write_plain P no_failures plaintext w of (Inl e, _) \<Rightarrow> Inl e | (Inr _, v) \<Rightarrow> Inr v) (\<lambda>v.
     bindE (finish_file P no_failures False v) (\<lambda>f. Inr (ff_sink f))))"

section \<open>Reading\<close>

record file_reader =
  sfr_inner :: "byte list"
  sfr_aead :: "byte list"
  sfr_header :: "byte list"
  sfr_chunk_size :: nat
  sfr_chunk_count :: nat
  sfr_plaintext_len :: nat
  sfr_position :: nat
  sfr_cached :: "(nat \<times> byte list) option"
  sfr_retired_key :: bool

definition load_chunk :: "platform \<Rightarrow> nat \<Rightarrow> (file_reader, file_error, unit) op" where
  "load_chunk P index r =
     (if (case sfr_cached r of Some (cached, _) \<Rightarrow> cached = index | None \<Rightarrow> False) then (Inr (), r)
      else if sfr_chunk_count r \<le> index then (Inl ChunkOutOfRange, r)
      else let last_chunk = (index + 1 = sfr_chunk_count r);
               sealed_chunk = sfr_chunk_size r + TAG_LEN;
               offset = SEALED_FILE_HEADER_LEN + index * sealed_chunk;
               len = (if last_chunk then (sfr_plaintext_len r - index * sfr_chunk_size r) + TAG_LEN else sealed_chunk) in
        if length (sfr_inner r) < offset + len then (Inl FileIO, r)
        else (case aead_decrypt P (sfr_aead r) (chunk_nonce index last_chunk) (take len (drop offset (sfr_inner r))) (sfr_header r) of
            None \<Rightarrow> (Inl ChunkDoesNotOpen, r)
          | Some plain \<Rightarrow> (Inr (), r\<lparr>sfr_cached := Some (index, plain)\<rparr>)))"

text \<open>The chunks of a body of \<open>body\<close> bytes, and the length of its plaintext.\<close>

definition chunk_layout :: "nat \<Rightarrow> nat \<Rightarrow> file_error + nat \<times> nat" where
  "chunk_layout csize body = (let sealed_chunk = csize + TAG_LEN; full = body div sealed_chunk; r = body mod sealed_chunk in
     if r = 0 then Inr (full, full * csize)
     else if r < TAG_LEN then Inl FileTruncated
     else Inr (full + 1, full * csize + (r - TAG_LEN)))"

fun open_with_keys :: "platform \<Rightarrow> file_reader \<Rightarrow> byte list \<Rightarrow> byte list \<Rightarrow> (content_key \<times> bool) list \<Rightarrow> file_error + file_reader" where
  "open_with_keys P r salt aad [] = Inl FileDoesNotOpen"
| "open_with_keys P r salt aad ((key, retired) # keys) =
     (case load_chunk P (sfr_chunk_count r - 1) (r\<lparr>sfr_aead := file_key P (ck_key key) salt aad, sfr_retired_key := retired\<rparr>) of
        (Inr _, opened) \<Rightarrow> Inr opened
      | (Inl _, _) \<Rightarrow> open_with_keys P r salt aad keys)"

definition open_file :: "platform \<Rightarrow> byte list \<Rightarrow> content_cipher \<Rightarrow> content_context \<Rightarrow> file_error + file_reader" where
  "open_file P bytes cipher ctx =
     (if length bytes < SEALED_FILE_HEADER_LEN + TAG_LEN then Inl FileTruncated
      else let header = take SEALED_FILE_HEADER_LEN bytes; chunk_log2 = unat (header ! 8) in
        if take 8 header \<noteq> SEALED_FILE_MAGIC then Inl NotASealedFile
        else if \<not> (10 \<le> chunk_log2 \<and> chunk_log2 \<le> 20) \<or> header ! 9 \<noteq> 0 \<or> take 2 (drop 10 header) \<noteq> [0, 0]
        then Inl UnsupportedFileHeader
        else bindE (chunk_layout (2 ^ chunk_log2) (length bytes - SEALED_FILE_HEADER_LEN)) (\<lambda>(count, len).
          if count = 0 then Inl NoChunks
          else open_with_keys P \<lparr>sfr_inner = bytes, sfr_aead = [], sfr_header = header, sfr_chunk_size = 2 ^ chunk_log2,
              sfr_chunk_count = count, sfr_plaintext_len = len, sfr_position = 0, sfr_cached = None, sfr_retired_key = False\<rparr>
            (drop 12 header) (associated_data ctx (cc_store cipher)) (candidate_keys cipher)))"

text \<open>The loop of \<open>read_range\<close>.\<close>

function range_loop :: "platform \<Rightarrow> nat \<Rightarrow> nat \<Rightarrow> byte list \<Rightarrow> (file_reader, file_error, byte list) op" where
  "range_loop P end_position position out r =
     (if end_position \<le> position then (Inr out, r)
      else let index = position div sfr_chunk_size r in
        (case load_chunk P index r of
           (Inl e, v) \<Rightarrow> (Inl e, v)
         | (Inr _, v) \<Rightarrow> (let chunk = snd (the (sfr_cached v)); within = position - index * sfr_chunk_size v in
             if length chunk \<le> within then (Inl FilePanic, v)
             else let n = min (end_position - position) (length chunk - within) in
               range_loop P end_position (position + n) (out @ take n (drop within chunk)) v)))"
  by pat_completeness auto
termination
  by (relation "measure (\<lambda>(P, end_position, position, out, r). end_position - position)") auto

declare range_loop.simps [simp del]

definition read_range :: "platform \<Rightarrow> nat \<Rightarrow> nat \<Rightarrow> (file_reader, file_error, byte list) op" where
  "read_range P start len r =
     (let end_position = min (min (start + len) (2 ^ 64 - 1)) (sfr_plaintext_len r) in
      if end_position \<le> start then (Inr [], r) else range_loop P end_position start [] r)"

text \<open>The \<open>Read\<close> implementation, into a buffer of \<open>m\<close> bytes.\<close>

definition file_read :: "platform \<Rightarrow> nat \<Rightarrow> (file_reader, file_error, byte list) op" where
  "file_read P m r =
     (if sfr_plaintext_len r \<le> sfr_position r \<or> m = 0 then (Inr [], r)
      else let index = sfr_position r div sfr_chunk_size r in
        (case load_chunk P index r of
           (Inl e, v) \<Rightarrow> (Inl e, v)
         | (Inr _, v) \<Rightarrow> (let chunk = snd (the (sfr_cached v)); within = sfr_position v - index * sfr_chunk_size v in
             if length chunk < within then (Inl FilePanic, v)
             else let n = min m (length chunk - within) in
               (Inr (take n (drop within chunk)), v\<lparr>sfr_position := sfr_position v + n\<rparr>))))"

lemma load_chunk_keeps:
  "load_chunk P i r = (q, v) \<Longrightarrow> sfr_position v = sfr_position r \<and> sfr_plaintext_len v = sfr_plaintext_len r \<and> sfr_chunk_size v = sfr_chunk_size r
    \<and> sfr_chunk_count v = sfr_chunk_count r \<and> sfr_inner v = sfr_inner r \<and> sfr_aead v = sfr_aead r \<and> sfr_header v = sfr_header r
    \<and> sfr_retired_key v = sfr_retired_key r"
  by (auto simp: load_chunk_def Let_def split: if_splits option.splits)

lemma file_read_progress:
  "file_read P m r = (Inr bs, v) \<Longrightarrow> bs \<noteq> [] \<Longrightarrow>
    sfr_position r < sfr_plaintext_len r \<and> sfr_position v > sfr_position r \<and> sfr_plaintext_len v = sfr_plaintext_len r"
  by (auto simp: file_read_def Let_def dest!: load_chunk_keeps split: if_splits prod.splits sum.splits)

text \<open>\<open>read_to_end\<close> reads into buffers until a read returns nothing.\<close>

function read_to_end :: "platform \<Rightarrow> nat \<Rightarrow> byte list \<Rightarrow> (file_reader, file_error, byte list) op" where
  "read_to_end P m out r = (case file_read P m r of
     (Inl e, v) \<Rightarrow> (Inl e, v)
   | (Inr bs, v) \<Rightarrow> if bs = [] then (Inr out, v) else read_to_end P m (out @ bs) v)"
  by pat_completeness auto
termination
  by (relation "measure (\<lambda>(P, m, out, r). sfr_plaintext_len r - sfr_position r)")
    (auto dest!: file_read_progress [OF sym])

declare read_to_end.simps [simp del]

definition open_file_bytes :: "platform \<Rightarrow> nat \<Rightarrow> byte list \<Rightarrow> content_cipher \<Rightarrow> content_context \<Rightarrow> file_error + byte list" where
  "open_file_bytes P m sealed cipher ctx = bindE (open_file P sealed cipher ctx) (\<lambda>r. fst (read_to_end P m [] r))"

datatype seek_from = SeekStart nat | SeekEnd int | SeekCurrent int

definition file_seek :: "seek_from \<Rightarrow> (file_reader, file_error, nat) op" where
  "file_seek pos r = (let target = (case pos of
       SeekStart offset \<Rightarrow> int offset
     | SeekEnd delta \<Rightarrow> int (sfr_plaintext_len r) + delta
     | SeekCurrent delta \<Rightarrow> int (sfr_position r) + delta) in
     if target < 0 then (Inl SeekBeforeStart, r)
     else let p = nat (target mod 2 ^ 64) in (Inr p, r\<lparr>sfr_position := p\<rparr>))"

definition is_sealed_file :: "byte list \<Rightarrow> bool" where
  "is_sealed_file bytes \<longleftrightarrow> length bytes \<ge> 8 \<and> take 8 bytes = SEALED_FILE_MAGIC"

section \<open>Sealing in place\<close>

text \<open>The file and the temporary one beside it; a directory the path names always exists.\<close>

record in_place_world =
  ip_path :: "byte list option"
  ip_temp :: "byte list option"

text \<open>What the file system answers, and what the temporary file reads as once it was written: \<open>ipd_disk\<close>
  is the identity when the disk gives back what was written.\<close>

record in_place_draws =
  ipd_salt :: "byte list"
  ipd_available :: nat
  ipd_remove_fails :: bool
  ipd_create_fails :: bool
  ipd_write_fails :: sink_io
  ipd_sync_fails :: bool
  ipd_rename_fails :: bool
  ipd_disk :: "byte list \<Rightarrow> byte list"

datatype seal_in_place = AlreadySealed | SealedInPlace nat

fun pieces :: "nat \<Rightarrow> byte list \<Rightarrow> nat \<Rightarrow> byte list list" where
  "pieces n xs 0 = []"
| "pieces n xs (Suc k) = (if xs = [] then [] else take n xs # pieces n (drop n xs) k)"

fun write_pieces :: "platform \<Rightarrow> sink_io \<Rightarrow> byte list list \<Rightarrow> (file_writer, file_error, unit) op" where
  "write_pieces P fails [] = retS ()"
| "write_pieces P fails (d # ds) = bindS (write_plain P fails d) (\<lambda>_. write_pieces P fails ds)"

text \<open>A temporary file written piece by piece and finished, or the error.\<close>

definition write_sealed ::
  "platform \<Rightarrow> content_cipher \<Rightarrow> content_context \<Rightarrow> in_place_draws \<Rightarrow> byte list list \<Rightarrow> file_error + finished_file" where
  "write_sealed P cipher ctx D ds =
     bindE (with_params P cipher ctx DEFAULT_CHUNK_LOG2 (ipd_salt D) (ipd_write_fails D)) (\<lambda>w.
     bindE (case write_pieces P (ipd_write_fails D) ds w of (Inl e, _) \<Rightarrow> Inl e | (Inr _, v) \<Rightarrow> Inr v) (\<lambda>v.
     finish_file P (ipd_write_fails D) (ipd_sync_fails D) v))"

definition write_copy ::
  "platform \<Rightarrow> content_cipher \<Rightarrow> content_context \<Rightarrow> in_place_draws \<Rightarrow> byte list \<Rightarrow> file_error + finished_file" where
  "write_copy P cipher ctx D original = write_sealed P cipher ctx D (pieces (2 ^ 16) original (length original))"

text \<open>Re-reading the copy: the digest of what it decrypts to is compared with the original's.\<close>

definition verify_copy :: "platform \<Rightarrow> content_cipher \<Rightarrow> content_context \<Rightarrow> byte list \<Rightarrow> finished_file \<Rightarrow> file_error + nat" where
  "verify_copy P cipher ctx copy finished =
     bindE (open_file_bytes P (2 ^ 13) copy cipher ctx) (\<lambda>plain.
     if sha256 P plain \<noteq> ff_plaintext_sha256 finished then Inl DoesNotVerify else Inr (ff_plaintext_len finished))"

definition seal_file_in_place ::
  "platform \<Rightarrow> content_cipher \<Rightarrow> content_context \<Rightarrow> in_place_draws \<Rightarrow> (in_place_world, file_error, seal_in_place) op" where
  "seal_file_in_place P cipher ctx D w = (case ip_path w of
     None \<Rightarrow> (Inl FileIO, w)
   | Some original \<Rightarrow>
       if is_sealed_file original then (Inr AlreadySealed, w)
       else if ipd_available D < min (length original + SEAL_IN_PLACE_HEADROOM) (2 ^ 64 - 1) then (Inl InsufficientSpace, w)
       else if ip_temp w \<noteq> None \<and> ipd_remove_fails D then (Inl FileIO, w)
       else (let w = w\<lparr>ip_temp := None\<rparr> in
         if ipd_create_fails D then (Inl FileIO, w)
         else (case bindE (write_copy P cipher ctx D original) (\<lambda>finished.
               bindE (verify_copy P cipher ctx (ipd_disk D (ff_sink finished)) finished) (\<lambda>len. Inr (len, ipd_disk D (ff_sink finished)))) of
             Inl e \<Rightarrow> (Inl e, w)
           | Inr (len, copy) \<Rightarrow> if ipd_rename_fails D then (Inl FileIO, w\<lparr>ip_temp := Some copy\<rparr>)
               else (Inr (SealedInPlace len), w\<lparr>ip_path := Some copy\<rparr>))))"

end
