(* ===== verification/File_Contents.thy ===== *)
theory File_Contents
  imports Sealed_File
begin

text \<open>
  What sealed files promise (crates/core/crypto/src/sealed_file.rs): however the plaintext is written, a
  finished file holds it; every range reads as that range of it; and sealing a file in place never loses it.
\<close>

section \<open>The chunks of a plaintext\<close>

definition seals_chunks :: "platform \<Rightarrow> byte list \<Rightarrow> byte list \<Rightarrow> nat \<Rightarrow> byte list list \<Rightarrow> byte list list \<Rightarrow> bool" where
  "seals_chunks P aead header n cs sealed \<longleftrightarrow> length sealed = length cs
     \<and> (\<forall>i<length cs. aead_encrypt P aead (chunk_nonce i (Suc i = n)) (cs ! i) header = Some (sealed ! i))"

text \<open>Full chunks and a last one, which is empty only when it is the only one.\<close>

definition chunked :: "nat \<Rightarrow> byte list list \<Rightarrow> byte list \<Rightarrow> bool" where
  "chunked s cs pt \<longleftrightarrow> cs \<noteq> [] \<and> concat cs = pt \<and> (\<forall>i. Suc i < length cs \<longrightarrow> length (cs ! i) = s)
     \<and> length (last cs) \<le> s \<and> (last cs = [] \<longrightarrow> length cs = 1)"

lemma length_chunks:
  assumes "\<forall>i. Suc i < length cs \<longrightarrow> length (cs ! i) = s" "cs \<noteq> []"
  shows "length (concat cs) = (length cs - 1) * s + length (last cs)"
  using assms
proof (induction cs)
  case (Cons c cs)
  show ?case
  proof (cases "cs = []")
    case False
    have "\<forall>i. Suc i < length cs \<longrightarrow> length (cs ! i) = s" using Cons.prems(1) by (metis Suc_less_eq length_Cons nth_Cons_Suc)
    from Cons.IH [OF this False] have "length (concat cs) = (length cs - 1) * s + length (last cs)" .
    moreover have "length c = s" using Cons.prems(1) False by fastforce
    ultimately show ?thesis using False by (cases cs) auto
  qed simp
qed simp

lemma concat_segment:
  "\<forall>i<j. length (xs ! i) = l \<Longrightarrow> j < length xs \<Longrightarrow> take (length (xs ! j)) (drop (j * l) (concat xs)) = xs ! j"
proof (induction xs arbitrary: j)
  case (Cons x xs)
  show ?case
  proof (cases j)
    case (Suc k)
    have "\<forall>i<k. length (xs ! i) = l" using Cons.prems(1) Suc by (metis Suc_less_eq nth_Cons_Suc)
    from Cons.IH [OF this] Cons.prems Suc have "take (length (xs ! k)) (drop (k * l) (concat xs)) = xs ! k" by simp
    moreover have "length x = l" using Cons.prems(1) Suc by fastforce
    ultimately show ?thesis using Suc by simp
  qed simp
qed simp

section \<open>The writer\<close>

definition writer_inv :: "platform \<Rightarrow> byte list \<Rightarrow> file_writer \<Rightarrow> bool" where
  "writer_inv P pt w \<longleftrightarrow> (\<exists>cs sealed. (\<forall>c\<in>set cs. length c = chunk_size w) \<and> seals_chunks P (sfw_aead w) (sfw_header w) 0 cs sealed
     \<and> sfw_sink w = sfw_header w @ concat sealed \<and> concat cs @ sfw_buffer w = pt \<and> sfw_next_index w = length cs
     \<and> length (sfw_buffer w) \<le> chunk_size w \<and> (sfw_buffer w = [] \<longrightarrow> cs = []))"

definition same_file :: "file_writer \<Rightarrow> file_writer \<Rightarrow> bool" where
  "same_file v w \<longleftrightarrow> sfw_aead v = sfw_aead w \<and> sfw_header v = sfw_header w \<and> sfw_chunk_log2 v = sfw_chunk_log2 w
     \<and> sfw_hashed v = sfw_hashed w \<and> sfw_plaintext_len v = sfw_plaintext_len w"

lemma seals_chunks_snoc:
  assumes "seals_chunks P aead header 0 cs sealed" "aead_encrypt P aead (chunk_nonce (length cs) False) c header = Some ct"
  shows "seals_chunks P aead header 0 (cs @ [c]) (sealed @ [ct])"
  using assms by (auto simp: seals_chunks_def nth_append less_Suc_eq)

text \<open>A round of the loop takes the next bytes of the data.\<close>

lemma write_round:
  assumes "writer_inv P pt w" "make_room P fails w = (Inr x, v)" "d \<noteq> []" "length (sfw_buffer v) + length d \<le> chunk_size v"
  shows "writer_inv P (pt @ d) (v\<lparr>sfw_buffer := sfw_buffer v @ d\<rparr>) \<and> same_file v w"
proof -
  from assms(1) obtain cs sealed where i: "\<forall>c\<in>set cs. length c = chunk_size w" "seals_chunks P (sfw_aead w) (sfw_header w) 0 cs sealed"
    "sfw_sink w = sfw_header w @ concat sealed" "concat cs @ sfw_buffer w = pt" "sfw_next_index w = length cs"
    "length (sfw_buffer w) \<le> chunk_size w" "sfw_buffer w = [] \<longrightarrow> cs = []" unfolding writer_inv_def by blast
  show ?thesis
  proof (cases "length (sfw_buffer w) = chunk_size w")
    case False
    with assms(2) have "v = w" by (simp add: make_room_def)
    with i assms(3,4) show ?thesis unfolding writer_inv_def same_file_def
      by (intro conjI exI [of _ cs] exI [of _ sealed]) auto
  next
    case True
    with assms(2) i(5) obtain ct where ct: "aead_encrypt P (sfw_aead w) (chunk_nonce (length cs) False) (sfw_buffer w) (sfw_header w) = Some ct"
      and v: "v = w\<lparr>sfw_sink := sfw_sink w @ ct, sfw_next_index := Suc (length cs), sfw_buffer := []\<rparr>"
      by (auto simp: make_room_def seal_chunk_def split: option.splits)
    from seals_chunks_snoc [OF i(2) ct] i True assms(3,4) show ?thesis unfolding writer_inv_def same_file_def v
      by (intro conjI exI [of _ "cs @ [sfw_buffer w]"] exI [of _ "sealed @ [ct]"]) auto
  qed
qed

lemma write_loop_inv:
  assumes "writer_inv P pt w" "write_loop P fails data w = (Inr x, v)"
  shows "writer_inv P (pt @ data) v \<and> same_file v w"
  using assms
proof (induction P fails data w arbitrary: pt rule: write_loop.induct)
  case (1 P fails data w)
  show ?case
  proof (cases "data = []")
    case True
    with "1.prems" show ?thesis by (simp add: write_loop.simps same_file_def)
  next
    case False
    with "1.prems"(2) obtain u y where u: "make_room P fails w = (Inr y, u)" and room: "\<not> chunk_size u \<le> length (sfw_buffer u)"
      by (subst (asm) write_loop.simps) (auto split: prod.splits sum.splits if_splits)
    define n where "n = min (chunk_size u - length (sfw_buffer u)) (length data)"
    have r: "write_loop P fails (drop n data) (u\<lparr>sfw_buffer := sfw_buffer u @ take n data\<rparr>) = (Inr x, v)"
      using "1.prems"(2) False u room by (subst (asm) write_loop.simps) (simp add: n_def Let_def)
    have n: "0 < n" "take n data \<noteq> []" "length (sfw_buffer u) + length (take n data) \<le> chunk_size u"
      using False room by (auto simp: n_def)
    note w = write_round [OF "1.prems"(1) u n(2,3)]
    have "writer_inv P ((pt @ take n data) @ drop n data) v \<and> same_file v (u\<lparr>sfw_buffer := sfw_buffer u @ take n data\<rparr>)"
      by (rule "1.IH" [OF False u [symmetric] refl room n_def conjunct1 [OF w] r])
    with w show ?thesis by (auto simp: same_file_def)
  qed
qed

text \<open>The file \<open>bytes\<close> is the plaintext \<open>pt\<close> sealed under \<open>aead\<close> with this header.\<close>

definition sealed_as :: "platform \<Rightarrow> byte list \<Rightarrow> byte list \<Rightarrow> nat \<Rightarrow> byte list \<Rightarrow> byte list \<Rightarrow> bool" where
  "sealed_as P aead header s bytes pt \<longleftrightarrow> (\<exists>cs sealed. chunked s cs pt \<and> seals_chunks P aead header (length cs) cs sealed
     \<and> bytes = header @ concat sealed)"

lemma finish_inv:
  assumes "writer_inv P pt w" "finish_file P fails sync w = Inr f"
  shows "sealed_as P (sfw_aead w) (sfw_header w) (chunk_size w) (ff_sink f) pt"
    "ff_plaintext_len f = sfw_plaintext_len w" "ff_plaintext_sha256 f = sha256 P (sfw_hashed w)"
proof -
  from assms(1) obtain cs sealed where i: "\<forall>c\<in>set cs. length c = chunk_size w" "seals_chunks P (sfw_aead w) (sfw_header w) 0 cs sealed"
    "sfw_sink w = sfw_header w @ concat sealed" "concat cs @ sfw_buffer w = pt" "sfw_next_index w = length cs"
    "length (sfw_buffer w) \<le> chunk_size w" "sfw_buffer w = [] \<longrightarrow> cs = []" unfolding writer_inv_def by blast
  from assms(2) i(5) obtain ct where ct: "aead_encrypt P (sfw_aead w) (chunk_nonce (length cs) True) (sfw_buffer w) (sfw_header w) = Some ct"
    and f: "ff_sink f = sfw_sink w @ ct" "ff_plaintext_len f = sfw_plaintext_len w" "ff_plaintext_sha256 f = sha256 P (sfw_hashed w)"
    by (auto simp: finish_file_def seal_chunk_def split: prod.splits sum.splits option.splits if_splits)
  have "chunked (chunk_size w) (cs @ [sfw_buffer w]) pt"
    using i(1,4,6,7) by (auto simp: chunked_def nth_append)
  moreover have "seals_chunks P (sfw_aead w) (sfw_header w) (length (cs @ [sfw_buffer w])) (cs @ [sfw_buffer w]) (sealed @ [ct])"
    using i(2) ct by (auto simp: seals_chunks_def nth_append less_Suc_eq)
  ultimately show "sealed_as P (sfw_aead w) (sfw_header w) (chunk_size w) (ff_sink f) pt"
    unfolding sealed_as_def using i(3) f(1) by (intro exI [of _ "cs @ [sfw_buffer w]"] exI [of _ "sealed @ [ct]"]) simp
  show "ff_plaintext_len f = sfw_plaintext_len w" "ff_plaintext_sha256 f = sha256 P (sfw_hashed w)" by (rule f)+
qed

text \<open>What a writer has been given.\<close>

definition writing :: "platform \<Rightarrow> content_cipher \<Rightarrow> content_context \<Rightarrow> nat \<Rightarrow> byte list \<Rightarrow> byte list \<Rightarrow> file_writer \<Rightarrow> bool" where
  "writing P cipher ctx log2 salt pt w \<longleftrightarrow> writer_inv P pt w \<and> sfw_hashed w = pt \<and> sfw_plaintext_len w = length pt \<and> sfw_chunk_log2 w = log2
     \<and> sfw_header w = build_file_header log2 salt \<and> sfw_aead w = file_key P (ck_key (cc_current cipher)) salt (associated_data ctx (cc_store cipher))"

lemma with_params_writing:
  "with_params P cipher ctx log2 salt fails = Inr w \<Longrightarrow> writing P cipher ctx log2 salt [] w \<and> 10 \<le> log2 \<and> log2 \<le> 20"
  by (auto simp: with_params_def Let_def writing_def writer_inv_def seals_chunks_def intro!: exI [of _ "[]"] split: if_splits)

lemma write_plain_writing:
  assumes "writing P cipher ctx log2 salt pt w" "write_plain P fails data w = (Inr x, v)"
  shows "writing P cipher ctx log2 salt (pt @ data) v"
proof -
  let ?w = "w\<lparr>sfw_hashed := sfw_hashed w @ data, sfw_plaintext_len := sfw_plaintext_len w + length data\<rparr>"
  have "writer_inv P pt w" using assms(1) by (simp add: writing_def)
  then have "writer_inv P pt ?w" by (simp add: writer_inv_def)
  from write_loop_inv [OF this assms(2) [unfolded write_plain_def]] assms(1) show ?thesis
    by (auto simp: writing_def same_file_def)
qed

lemma write_pieces_writing:
  "writing P cipher ctx log2 salt pt w \<Longrightarrow> write_pieces P fails ds w = (Inr x, v) \<Longrightarrow> writing P cipher ctx log2 salt (pt @ concat ds) v"
proof (induction ds arbitrary: pt w)
  case (Cons d ds)
  from Cons.prems(2) obtain y u where u: "write_plain P fails d w = (Inr y, u)" "write_pieces P fails ds u = (Inr x, v)"
    by (auto simp: bindS_eq_Inr)
  from Cons.IH [OF write_plain_writing [OF Cons.prems(1) u(1)] u(2)] show ?case by simp
qed simp

section \<open>The reader\<close>

definition reader_inv :: "platform \<Rightarrow> byte list list \<Rightarrow> byte list \<Rightarrow> file_reader \<Rightarrow> bool" where
  "reader_inv P cs pt r \<longleftrightarrow> 0 < sfr_chunk_size r \<and> chunked (sfr_chunk_size r) cs pt
     \<and> (\<exists>sealed. seals_chunks P (sfr_aead r) (sfr_header r) (length cs) cs sealed \<and> sfr_inner r = sfr_header r @ concat sealed)
     \<and> length (sfr_header r) = SEALED_FILE_HEADER_LEN \<and> sfr_chunk_count r = length cs \<and> sfr_plaintext_len r = length pt
     \<and> (case sfr_cached r of Some (i, c) \<Rightarrow> i < length cs \<and> c = cs ! i | None \<Rightarrow> True)"

lemma sealed_lengths:
  assumes "aead_laws P" "seals_chunks P aead header n cs sealed" "i < length cs"
  shows "length (sealed ! i) = length (cs ! i) + TAG_LEN"
  using assms aead_length [OF assms(1)] by (auto simp: seals_chunks_def TAG_LEN_def)

lemma load_chunk_reads:
  assumes "aead_laws P" "reader_inv P cs pt r" "i < length cs"
  shows "\<exists>v. load_chunk P i r = (Inr (), v) \<and> reader_inv P cs pt v \<and> sfr_cached v = Some (i, cs ! i)"
proof (cases "case sfr_cached r of Some (cached, _) \<Rightarrow> cached = i | None \<Rightarrow> False")
  case True
  then obtain c where "sfr_cached r = Some (i, c)" by (auto split: option.splits)
  with assms(2) show ?thesis by (auto simp: load_chunk_def reader_inv_def)
next
  case False
  let ?s = "sfr_chunk_size r" and ?n = "length cs"
  from assms(2) obtain sealed where r: "chunked ?s cs pt" "seals_chunks P (sfr_aead r) (sfr_header r) ?n cs sealed"
    "sfr_inner r = sfr_header r @ concat sealed" "length (sfr_header r) = SEALED_FILE_HEADER_LEN" "sfr_chunk_count r = ?n" "sfr_plaintext_len r = length pt"
    unfolding reader_inv_def by blast
  have ls: "length sealed = ?n" using r(2) by (simp add: seals_chunks_def)
  have full: "length (cs ! j) = ?s" if "Suc j < ?n" for j using r(1) that by (simp add: chunked_def)
  have pre: "\<forall>j<i. length (sealed ! j) = ?s + TAG_LEN"
    using sealed_lengths [OF assms(1) r(2)] full assms(3) by (metis Suc_lessI less_trans_Suc not_less_eq order.strict_trans)
  have len: "(if Suc i = ?n then (length pt - i * ?s) + TAG_LEN else ?s + TAG_LEN) = length (sealed ! i)"
  proof (cases "Suc i = ?n")
    case True
    have "length pt = (?n - 1) * ?s + length (last cs)" using r(1) length_chunks [of cs ?s] by (auto simp: chunked_def)
    moreover have "last cs = cs ! i" using True by (metis diff_Suc_1 last_conv_nth length_0_conv nat.distinct(1))
    ultimately have "length pt - i * ?s = length (cs ! i)" using True [symmetric] by simp
    with True sealed_lengths [OF assms(1) r(2) assms(3)] show ?thesis by simp
  next
    case False
    then have "Suc i < ?n" using assms(3) by simp
    with False full sealed_lengths [OF assms(1) r(2) assms(3)] show ?thesis by simp
  qed
  have i: "i < length sealed" using assms(3) ls by simp
  have seg: "take (length (sealed ! i)) (drop (SEALED_FILE_HEADER_LEN + i * (?s + TAG_LEN)) (sfr_inner r)) = sealed ! i"
    using concat_segment [OF pre i] r(3,4) by simp
  have pos: "0 < length (sealed ! i)" using sealed_lengths [OF assms(1) r(2) assms(3)] by (simp add: TAG_LEN_def)
  have fit: "SEALED_FILE_HEADER_LEN + i * (?s + TAG_LEN) + length (sealed ! i) \<le> length (sfr_inner r)"
    using arg_cong [OF seg, of length] pos unfolding length_take length_drop by linarith
  have d: "aead_decrypt P (sfr_aead r) (chunk_nonce i (Suc i = ?n)) (sealed ! i) (sfr_header r) = Some (cs ! i)"
    using r(2) assms(3) aead_open_seal [OF assms(1)] by (simp add: seals_chunks_def)
  have "load_chunk P i r = (Inr (), r\<lparr>sfr_cached := Some (i, cs ! i)\<rparr>)"
  proof (cases "Suc i = ?n")
    case True
    with len have l: "length pt - i * ?s + TAG_LEN = length (sealed ! i)" by simp
    show ?thesis using False True assms(3) r(5,6) seg fit d by (simp add: load_chunk_def Let_def l)
  next
    case more: False
    with len have l: "?s + TAG_LEN = length (sealed ! i)" by simp
    have nl: "i + 1 \<noteq> sfr_chunk_count r" using more r(5) by simp
    have d: "aead_decrypt P (sfr_aead r) (chunk_nonce i False) (sealed ! i) (sfr_header r) = Some (cs ! i)" using d more by simp
    show ?thesis unfolding load_chunk_def Let_def
      using False nl assms(3) r(5) d seg [unfolded l] fit [unfolded l] by (simp add: l)
  qed
  with assms(2,3) show ?thesis by (simp add: reader_inv_def)
qed

text \<open>Where a position of the plaintext is: in which chunk, and that the chunk reaches beyond it.\<close>

lemma chunk_position:
  assumes "chunked s cs pt" "0 < s" "p < length pt"
  shows "p div s < length cs" "p mod s < length (cs ! (p div s))"
    "drop (p mod s) (cs ! (p div s)) = take (length (cs ! (p div s)) - p mod s) (drop p pt)"
proof -
  let ?i = "p div s"
  have ne: "cs \<noteq> []" and full: "\<forall>i. Suc i < length cs \<longrightarrow> length (cs ! i) = s" and pt: "concat cs = pt" and last: "length (last cs) \<le> s"
    using assms(1) by (auto simp: chunked_def)
  have l: "length pt = (length cs - 1) * s + length (last cs)" using length_chunks [OF full ne] pt by simp
  have p: "p = ?i * s + p mod s" by simp
  show i: "?i < length cs"
  proof (rule ccontr)
    assume "\<not> ?i < length cs"
    then have "length cs * s \<le> p" using assms(2) by (metis div_le_mono2 leI le_trans mult_le_mono1 p le_add1)
    moreover have "length pt \<le> length cs * s" using l last ne by (cases cs) auto
    ultimately show False using assms(3) by simp
  qed
  show w: "p mod s < length (cs ! ?i)"
  proof (cases "Suc ?i < length cs")
    case True
    with full assms(2) show ?thesis by simp
  next
    case False
    then have e: "?i = length cs - 1" using i by simp
    then have "cs ! ?i = last cs" using ne by (simp add: last_conv_nth)
    then show ?thesis using assms(3) l p e by (metis nat_add_left_cancel_less)
  qed
  have "\<forall>j<?i. length (cs ! j) = s" using full i by simp
  from concat_segment [OF this i] have c: "take (length (cs ! ?i)) (drop (?i * s) pt) = cs ! ?i" using pt by simp
  have "drop (p mod s) (cs ! ?i) = drop (p mod s) (take (length (cs ! ?i)) (drop (?i * s) pt))" unfolding c ..
  also have "\<dots> = take (length (cs ! ?i) - p mod s) (drop (p mod s + ?i * s) pt)" by (simp add: drop_take)
  also have "p mod s + ?i * s = p" by simp
  finally show "drop (p mod s) (cs ! ?i) = take (length (cs ! ?i) - p mod s) (drop p pt)" .
qed

text \<open>Reading: the range loop, a single read, and reads to the end.\<close>

lemma reader_facts:
  "reader_inv P cs pt r \<Longrightarrow> 0 < sfr_chunk_size r \<and> chunked (sfr_chunk_size r) cs pt \<and> sfr_plaintext_len r = length pt"
  by (simp add: reader_inv_def)

lemma load_at:
  assumes "aead_laws P" "reader_inv P cs pt r" "p < length pt"
  obtains v chunk where "load_chunk P (p div sfr_chunk_size r) r = (Inr (), v)" "reader_inv P cs pt v"
    "snd (the (sfr_cached v)) = chunk" "p - p div sfr_chunk_size r * sfr_chunk_size v = p mod sfr_chunk_size r"
    "p mod sfr_chunk_size r < length chunk" "drop (p mod sfr_chunk_size r) chunk = take (length chunk - p mod sfr_chunk_size r) (drop p pt)"
    "sfr_position v = sfr_position r" "sfr_plaintext_len v = sfr_plaintext_len r"
proof -
  let ?s = "sfr_chunk_size r"
  note f = reader_facts [OF assms(2)]
  note c = chunk_position [OF conjunct1 [OF conjunct2 [OF f]] conjunct1 [OF f] assms(3)]
  from load_chunk_reads [OF assms(1,2) c(1)] obtain v where v: "load_chunk P (p div ?s) r = (Inr (), v)" "reader_inv P cs pt v"
    "sfr_cached v = Some (p div ?s, cs ! (p div ?s))" by blast
  note k = load_chunk_keeps [OF v(1)]
  have "p - p div ?s * sfr_chunk_size v = p mod ?s" using k by (simp add: minus_div_mult_eq_mod)
  with that [OF v(1,2), of "cs ! (p div ?s)"] v(3) c(2,3) k show ?thesis by simp
qed

lemma range_loop_reads:
  assumes "aead_laws P" "reader_inv P cs pt r" "p \<le> e" "e \<le> length pt"
  shows "\<exists>v. range_loop P e p out r = (Inr (out @ take (e - p) (drop p pt)), v) \<and> reader_inv P cs pt v"
  using assms(2,3)
proof (induction "e - p" arbitrary: p out r rule: less_induct)
  case less
  show ?case
  proof (cases "p = e")
    case True
    with less.prems show ?thesis by (simp add: range_loop.simps)
  next
    case False
    with less.prems(2) assms(4) have p: "p < e" "p < length pt" by auto
    from load_at [OF assms(1) less.prems(1) p(2)] obtain v chunk where
      v: "load_chunk P (p div sfr_chunk_size r) r = (Inr (), v)" "reader_inv P cs pt v" "snd (the (sfr_cached v)) = chunk"
        "p - p div sfr_chunk_size r * sfr_chunk_size v = p mod sfr_chunk_size r" "p mod sfr_chunk_size r < length chunk"
        "drop (p mod sfr_chunk_size r) chunk = take (length chunk - p mod sfr_chunk_size r) (drop p pt)" .
    define n where "n = min (e - p) (length chunk - p mod sfr_chunk_size r)"
    have n: "0 < n" "n \<le> e - p" "n \<le> length chunk - p mod sfr_chunk_size r" using p v(5) by (auto simp: n_def)
    have t: "take n (drop (p mod sfr_chunk_size r) chunk) = take n (drop p pt)"
      unfolding v(6) using n(3) by (simp add: min_absorb1)
    have "range_loop P e p out r = range_loop P e (p + n) (out @ take n (drop p pt)) v"
      by (subst range_loop.simps) (use p v(1,3,4,5) t in \<open>simp add: Let_def n_def [symmetric]\<close>)
    moreover have "\<exists>u. range_loop P e (p + n) (out @ take n (drop p pt)) v
        = (Inr ((out @ take n (drop p pt)) @ take (e - (p + n)) (drop (p + n) pt)), u) \<and> reader_inv P cs pt u"
      by (rule less.hyps) (use p n v(2) in auto)
    moreover have "take n (drop p pt) @ take (e - (p + n)) (drop (p + n) pt) = take (e - p) (drop p pt)"
    proof -
      have e: "n + (e - (p + n)) = e - p" using n(2) p by simp
      show ?thesis using take_add [of n "e - (p + n)" "drop p pt"] unfolding e by (simp add: add.commute)
    qed
    ultimately show ?thesis by auto
  qed
qed

lemma file_read_reads:
  assumes "aead_laws P" "reader_inv P cs pt r" "0 < m"
  shows "\<exists>v n. file_read P m r = (Inr (take n (drop (sfr_position r) pt)), v) \<and> reader_inv P cs pt v
    \<and> sfr_position v = sfr_position r + length (take n (drop (sfr_position r) pt)) \<and> (sfr_position r < length pt \<longrightarrow> 0 < n)"
proof (cases "sfr_position r < length pt")
  case False
  with assms(2) show ?thesis by (intro exI [of _ r] exI [of _ 0]) (simp add: file_read_def reader_inv_def)
next
  case True
  let ?p = "sfr_position r"
  from load_at [OF assms(1,2) True] obtain v chunk where
    v: "load_chunk P (?p div sfr_chunk_size r) r = (Inr (), v)" "reader_inv P cs pt v" "snd (the (sfr_cached v)) = chunk"
      "?p - ?p div sfr_chunk_size r * sfr_chunk_size v = ?p mod sfr_chunk_size r" "?p mod sfr_chunk_size r < length chunk"
      "drop (?p mod sfr_chunk_size r) chunk = take (length chunk - ?p mod sfr_chunk_size r) (drop ?p pt)" "sfr_position v = ?p" .
  define n where "n = min m (length chunk - ?p mod sfr_chunk_size r)"
  have n: "0 < n" "n \<le> length chunk - ?p mod sfr_chunk_size r" using assms(3) v(5) by (auto simp: n_def)
  have t: "take n (drop (?p mod sfr_chunk_size r) chunk) = take n (drop ?p pt)"
    unfolding v(6) using n(2) by (simp add: min_absorb1)
  have "length (take n (drop ?p pt)) = n" using arg_cong [OF t, of length] n(2) v(5) by simp
  moreover have "file_read P m r = (Inr (take n (drop ?p pt)), v\<lparr>sfr_position := ?p + n\<rparr>)"
    using True assms(3) v(1,3,4,5,7) t reader_facts [OF assms(2)] by (simp add: file_read_def Let_def n_def [symmetric])
  moreover have "reader_inv P cs pt (v\<lparr>sfr_position := ?p + n\<rparr>)" using v(2) by (simp add: reader_inv_def)
  ultimately show ?thesis using n(1) by (intro exI [of _ "v\<lparr>sfr_position := ?p + n\<rparr>"] exI [of _ n]) simp
qed

lemma read_to_end_reads:
  assumes "aead_laws P" "reader_inv P cs pt r" "0 < m"
  shows "\<exists>v. read_to_end P m out r = (Inr (out @ drop (sfr_position r) pt), v) \<and> reader_inv P cs pt v"
  using assms(2)
proof (induction "length pt - sfr_position r" arbitrary: r out rule: less_induct)
  case less
  from file_read_reads [OF assms(1) less.prems assms(3)] obtain v n where
    v: "file_read P m r = (Inr (take n (drop (sfr_position r) pt)), v)" "reader_inv P cs pt v"
      "sfr_position v = sfr_position r + length (take n (drop (sfr_position r) pt))" "sfr_position r < length pt \<longrightarrow> 0 < n" by blast
  show ?case
  proof (cases "take n (drop (sfr_position r) pt) = []")
    case True
    with v(4) have "drop (sfr_position r) pt = []" by auto
    with True v(1,2) show ?thesis by (subst read_to_end.simps) simp
  next
    case False
    let ?b = "take n (drop (sfr_position r) pt)"
    have "length pt - sfr_position v < length pt - sfr_position r" using False v(3) by auto
    from less.hyps [OF this v(2), of "out @ ?b"] obtain u where
      u: "read_to_end P m (out @ ?b) v = (Inr ((out @ ?b) @ drop (sfr_position v) pt), u)" "reader_inv P cs pt u" by blast
    have "?b @ drop (sfr_position v) pt = drop (sfr_position r) pt"
    proof (cases "n \<le> length pt - sfr_position r")
      case True
      then show ?thesis using append_take_drop_id [of n "drop (sfr_position r) pt"] by (simp add: v(3) add.commute min_absorb2)
    next
      case False
      then show ?thesis by (simp add: v(3))
    qed
    with u v(1) False show ?thesis by (subst read_to_end.simps) simp
  qed
qed

section \<open>Opening\<close>

lemma chunk_layout_chunked:
  assumes "chunked s cs pt" "0 < s"
  shows "chunk_layout s ((length cs - 1) * (s + TAG_LEN) + (length (last cs) + TAG_LEN)) = Inr (length cs, length pt)"
proof -
  let ?k = "length cs - 1" and ?l = "length (last cs)"
  have ne: "cs \<noteq> []" and l: "?l \<le> s" using assms(1) by (auto simp: chunked_def)
  have pt: "length pt = ?k * s + ?l" using length_chunks [of cs s] assms(1) by (auto simp: chunked_def)
  have n: "length cs = Suc ?k" using ne by simp
  show ?thesis
  proof (cases "?l = s")
    case True
    then have b: "?k * (s + TAG_LEN) + (?l + TAG_LEN) = length cs * (s + TAG_LEN)" using n by (metis add.commute mult_Suc)
    have "0 < s + TAG_LEN" using assms(2) by simp
    then show ?thesis unfolding b using pt n True by (simp add: chunk_layout_def Let_def) (metis add.commute mult_Suc)
  next
    case False
    then have r: "?l + TAG_LEN < s + TAG_LEN" using l by simp
    then have "(?k * (s + TAG_LEN) + (?l + TAG_LEN)) div (s + TAG_LEN) = ?k" "(?k * (s + TAG_LEN) + (?l + TAG_LEN)) mod (s + TAG_LEN) = ?l + TAG_LEN"
      by (simp_all add: div_mult_self3 mod_mult_self3)
    then show ?thesis unfolding chunk_layout_def Let_def using pt n by (simp add: TAG_LEN_def)
  qed
qed

lemma file_header_facts:
  assumes "length salt = FILE_SALT_LEN" "10 \<le> log2" "log2 \<le> 20"
  shows "length (build_file_header log2 salt) = SEALED_FILE_HEADER_LEN" "take 8 (build_file_header log2 salt) = SEALED_FILE_MAGIC"
    "unat (build_file_header log2 salt ! 8) = log2" "build_file_header log2 salt ! 9 = 0" "take 2 (drop 10 (build_file_header log2 salt)) = [0, 0]"
    "drop 12 (build_file_header log2 salt) = salt"
proof -
  have "length SEALED_FILE_MAGIC = 8" by (simp add: SEALED_FILE_MAGIC_def as_bytes_def)
  then show "length (build_file_header log2 salt) = SEALED_FILE_HEADER_LEN" "take 8 (build_file_header log2 salt) = SEALED_FILE_MAGIC"
    "unat (build_file_header log2 salt ! 8) = log2" "build_file_header log2 salt ! 9 = 0" "take 2 (drop 10 (build_file_header log2 salt)) = [0, 0]"
    "drop 12 (build_file_header log2 salt) = salt"
    using assms by (simp_all add: build_file_header_def FILE_SALT_LEN_def SEALED_FILE_HEADER_LEN_def nth_append unat_of_nat)
qed

lemma sealed_body:
  assumes "aead_laws P" "chunked s cs pt" "seals_chunks P aead header (length cs) cs sealed"
  shows "length (concat sealed) = (length cs - 1) * (s + TAG_LEN) + (length (last cs) + TAG_LEN)"
proof -
  have ne: "cs \<noteq> []" and full: "\<forall>i. Suc i < length cs \<longrightarrow> length (cs ! i) = s" using assms(2) by (auto simp: chunked_def)
  have ls: "length sealed = length cs" using assms(3) by (simp add: seals_chunks_def)
  then have ns: "sealed \<noteq> []" using ne by auto
  have "\<forall>i. Suc i < length sealed \<longrightarrow> length (sealed ! i) = s + TAG_LEN"
    using sealed_lengths [OF assms(1,3)] full ls by simp
  from length_chunks [OF this ns] have "length (concat sealed) = (length cs - 1) * (s + TAG_LEN) + length (last sealed)" using ls by simp
  moreover have "length (last sealed) = length (last cs) + TAG_LEN"
    using sealed_lengths [OF assms(1,3), of "length cs - 1"] ne ns ls by (simp add: last_conv_nth)
  ultimately show ?thesis by simp
qed

lemma open_sealed:
  assumes "aead_laws P" "length salt = FILE_SALT_LEN" "10 \<le> log2" "log2 \<le> 20"
    and "sealed_as P (file_key P (ck_key (cc_current cipher)) salt (associated_data ctx (cc_store cipher))) (build_file_header log2 salt) (2 ^ log2) bytes pt"
  shows "\<exists>cs r. open_file P bytes cipher ctx = Inr r \<and> reader_inv P cs pt r \<and> sfr_position r = 0 \<and> \<not> sfr_retired_key r"
proof -
  let ?h = "build_file_header log2 salt" and ?s = "2 ^ log2 :: nat"
  let ?aad = "associated_data ctx (cc_store cipher)"
  let ?k = "file_key P (ck_key (cc_current cipher)) salt ?aad"
  from assms(5) obtain cs sealed where c: "chunked ?s cs pt" "seals_chunks P ?k ?h (length cs) cs sealed" "bytes = ?h @ concat sealed"
    unfolding sealed_as_def by blast
  note h = file_header_facts [OF assms(2-4)]
  note b = sealed_body [OF assms(1) c(1,2)]
  have s: "0 < ?s" by simp
  note lay = chunk_layout_chunked [OF c(1) s, folded b]
  have n: "0 < length cs" using c(1) by (simp add: chunked_def)
  define r where "r = \<lparr>sfr_inner = bytes, sfr_aead = ?k, sfr_header = ?h, sfr_chunk_size = ?s, sfr_chunk_count = length cs,
    sfr_plaintext_len = length pt, sfr_position = 0, sfr_cached = None, sfr_retired_key = False\<rparr>"
  have "reader_inv P cs pt r" unfolding reader_inv_def r_def using c h(1) by auto
  from load_chunk_reads [OF assms(1) this, of "length cs - 1"] n obtain v where
    v: "load_chunk P (length cs - 1) r = (Inr (), v)" "reader_inv P cs pt v" by auto
  have sz: "\<not> length bytes < SEALED_FILE_HEADER_LEN + TAG_LEN" using c(3) h(1) b by simp
  have th: "take SEALED_FILE_HEADER_LEN bytes = ?h" using c(3) h(1) by simp
  have body: "length bytes - SEALED_FILE_HEADER_LEN = length (concat sealed)" using c(3) h(1) by simp
  have "open_file P bytes cipher ctx = Inr v"
    unfolding open_file_def Let_def th body h(3) using sz h assms(3,4) lay n v(1)
    by (simp add: candidate_keys_def r_def)
  moreover have "sfr_position v = 0" "\<not> sfr_retired_key v" using load_chunk_keeps [OF v(1)] by (simp_all add: r_def)
  ultimately show ?thesis using v(2) by blast
qed

lemma finished_opens:
  assumes "aead_laws P" "length salt = FILE_SALT_LEN" "with_params P cipher ctx log2 salt fails = Inr w"
    and "write_pieces P fails ds w = (Inr x, v)" "finish_file P fails sync v = Inr f"
  shows "\<exists>cs r. open_file P (ff_sink f) cipher ctx = Inr r \<and> reader_inv P cs (concat ds) r \<and> sfr_position r = 0 \<and> \<not> sfr_retired_key r"
    "ff_plaintext_len f = length (concat ds)" "ff_plaintext_sha256 f = sha256 P (concat ds)"
proof -
  from with_params_writing [OF assms(3)] have w: "writing P cipher ctx log2 salt [] w" and l: "10 \<le> log2" "log2 \<le> 20" by auto
  from write_pieces_writing [OF w assms(4)] have v: "writing P cipher ctx log2 salt (concat ds) v" by simp
  have i: "writer_inv P (concat ds) v" using v by (simp add: writing_def)
  from finish_inv [OF i assms(5)] v show "ff_plaintext_len f = length (concat ds)" "ff_plaintext_sha256 f = sha256 P (concat ds)"
    by (simp_all add: writing_def)
  show "\<exists>cs r. open_file P (ff_sink f) cipher ctx = Inr r \<and> reader_inv P cs (concat ds) r \<and> sfr_position r = 0 \<and> \<not> sfr_retired_key r"
    by (rule open_sealed [OF assms(1,2) l]) (use finish_inv(1) [OF i assms(5)] v in \<open>simp add: writing_def\<close>)
qed

text \<open>
  C26. A sealed file reads back range by range: however the plaintext was cut into writes and whatever the
  chunk size, a finished file reports its length and digest, and reading any range, also one that starts or
  ends beyond the file, gives exactly that range of the plaintext.
\<close>

theorem sealed_file_reads_ranges:
  assumes "aead_laws P" "length salt = FILE_SALT_LEN" "with_params P cipher ctx log2 salt fails = Inr w"
    and "write_pieces P fails ds w = (Inr x, v)" "finish_file P fails sync v = Inr f" "length (concat ds) < 2 ^ 64"
  shows "ff_plaintext_len f = length (concat ds) \<and> ff_plaintext_sha256 f = sha256 P (concat ds)
    \<and> (\<exists>r. open_file P (ff_sink f) cipher ctx = Inr r \<and> sfr_plaintext_len r = length (concat ds)
      \<and> (\<forall>start len. fst (read_range P start len r) = Inr (take len (drop start (concat ds)))))"
proof -
  let ?pt = "concat ds"
  from finished_opens(1) [OF assms(1-5)] obtain cs r where r: "open_file P (ff_sink f) cipher ctx = Inr r" "reader_inv P cs ?pt r" by blast
  have l: "sfr_plaintext_len r = length ?pt" using reader_facts [OF r(2)] by simp
  have "fst (read_range P start len r) = Inr (take len (drop start ?pt))" for start len
  proof -
    define e where "e = min (min (start + len) (2 ^ 64 - 1)) (length ?pt)"
    have rd: "read_range P start len r = (if e \<le> start then (Inr [], r) else range_loop P e start [] r)"
      by (simp only: read_range_def Let_def l e_def)
    have e: "e = min (start + len) (length ?pt)" using assms(6) by (simp add: e_def)
    show ?thesis
    proof (cases "e \<le> start")
      case True
      then have "take len (drop start ?pt) = []" by (auto simp: e)
      with True show ?thesis unfolding rd by simp
    next
      case False
      then have "start \<le> e" "e \<le> length ?pt" by (auto simp: e)
      from range_loop_reads [OF assms(1) r(2) this, of "[]"] have "fst (range_loop P e start [] r) = Inr (take (e - start) (drop start ?pt))"
        by auto
      moreover have "take (e - start) (drop start ?pt) = take len (drop start ?pt)" using False by (auto simp: e min_def)
      ultimately show ?thesis using False unfolding rd by simp
    qed
  qed
  with r(1) l finished_opens(2,3) [OF assms(1-5)] show ?thesis by blast
qed

section \<open>Sealing bytes and sealing in place\<close>

lemma write_loop_total:
  assumes "aead_total P" "\<And>i. fails i = None" "sfw_chunk_log2 w \<le> 20" "length (sfw_buffer w) \<le> chunk_size w"
  shows "\<exists>v. write_loop P fails data w = (Inr (), v) \<and> sfw_chunk_log2 v = sfw_chunk_log2 w \<and> length (sfw_buffer v) \<le> chunk_size w"
  using assms(3,4)
proof (induction "length data" arbitrary: data w rule: less_induct)
  case less
  show ?case
  proof (cases "data = []")
    case True
    with less.prems show ?thesis by (simp add: write_loop.simps)
  next
    case False
    have "(2::nat) ^ sfw_chunk_log2 w \<le> 2 ^ 20" using less.prems(1) by (rule power_increasing) simp
    then have "length (sfw_buffer w) < 2 ^ 38 - 64" using less.prems(2) by simp
    then have enc: "aead_encrypt P k nn (sfw_buffer w) a \<noteq> None" for k nn a using assms(1) by (auto simp: aead_total_def)
    have "\<exists>u. make_room P fails w = (Inr (), u) \<and> sfw_chunk_log2 u = sfw_chunk_log2 w \<and> length (sfw_buffer u) < chunk_size w"
    proof (cases "length (sfw_buffer w) = chunk_size w")
      case True
      obtain sealed where "aead_encrypt P (sfw_aead w) (chunk_nonce (sfw_next_index w) False) (sfw_buffer w) (sfw_header w) = Some sealed"
        using enc by blast
      with True assms(2) show ?thesis by (simp add: make_room_def seal_chunk_def)
    next
      case False
      with less.prems(2) show ?thesis by (simp add: make_room_def)
    qed
    then obtain u where u: "make_room P fails w = (Inr (), u)" "sfw_chunk_log2 u = sfw_chunk_log2 w" "length (sfw_buffer u) < chunk_size w" by blast
    define n where "n = min (chunk_size u - length (sfw_buffer u)) (length data)"
    have n: "0 < n" "length (drop n data) < length data" "length (sfw_buffer u @ take n data) \<le> chunk_size w"
      using False u(2,3) by (auto simp: n_def)
    have "write_loop P fails data w = write_loop P fails (drop n data) (u\<lparr>sfw_buffer := sfw_buffer u @ take n data\<rparr>)"
      by (subst write_loop.simps) (use False u in \<open>simp add: n_def Let_def\<close>)
    with less.hyps [OF n(2), of "u\<lparr>sfw_buffer := sfw_buffer u @ take n data\<rparr>"] less.prems(1) u(2) n(3) show ?thesis by simp
  qed
qed

lemma seal_file_bytes_total:
  assumes "aead_total P"
  shows "\<exists>w v f. with_params P cipher ctx DEFAULT_CHUNK_LOG2 salt no_failures = Inr w
    \<and> write_pieces P no_failures [pt] w = (Inr (), v) \<and> finish_file P no_failures False v = Inr f
    \<and> seal_file_bytes P pt cipher ctx salt = Inr (ff_sink f)"
proof -
  let ?w = "\<lparr>sfw_sink = build_file_header DEFAULT_CHUNK_LOG2 salt, sfw_aead = file_key P (ck_key (cc_current cipher)) salt (associated_data ctx (cc_store cipher)),
    sfw_header = build_file_header DEFAULT_CHUNK_LOG2 salt, sfw_chunk_log2 = DEFAULT_CHUNK_LOG2, sfw_buffer = [], sfw_next_index = 0,
    sfw_plaintext_len = 0, sfw_hashed = []\<rparr>"
  have w: "with_params P cipher ctx DEFAULT_CHUNK_LOG2 salt no_failures = Inr ?w"
    by (simp add: with_params_def DEFAULT_CHUNK_LOG2_def no_failures_def Let_def)
  from write_loop_total [OF assms, of no_failures "?w\<lparr>sfw_hashed := pt, sfw_plaintext_len := length pt\<rparr>" pt] obtain v where
    v: "write_plain P no_failures pt ?w = (Inr (), v)" "sfw_chunk_log2 v = DEFAULT_CHUNK_LOG2" "length (sfw_buffer v) \<le> 2 ^ DEFAULT_CHUNK_LOG2"
    by (auto simp: write_plain_def no_failures_def DEFAULT_CHUNK_LOG2_def)
  have "length (sfw_buffer v) < 2 ^ 38 - 64" using v(3) by (simp add: DEFAULT_CHUNK_LOG2_def)
  then obtain sealed where "aead_encrypt P (sfw_aead v) (chunk_nonce (sfw_next_index v) True) (sfw_buffer v) (sfw_header v) = Some sealed"
    using assms unfolding aead_total_def by blast
  then obtain f where f: "finish_file P no_failures False v = Inr f" by (simp add: finish_file_def seal_chunk_def no_failures_def)
  have "write_pieces P no_failures [pt] ?w = (Inr (), v)" using v(1) by simp
  moreover have "seal_file_bytes P pt cipher ctx salt = Inr (ff_sink f)" by (simp add: seal_file_bytes_def w v(1) f)
  ultimately show ?thesis using w f by blast
qed

text \<open>
  Bytes sealed as a file always seal, and open again as they were, however the reader is read.
\<close>

theorem sealed_bytes_round_trip:
  assumes "aead_laws P" "aead_total P" "length salt = FILE_SALT_LEN" "0 < m"
  shows "\<exists>sealed. seal_file_bytes P plaintext cipher ctx salt = Inr sealed \<and> open_file_bytes P m sealed cipher ctx = Inr plaintext"
proof -
  from seal_file_bytes_total [OF assms(2)] obtain w v f where s: "with_params P cipher ctx DEFAULT_CHUNK_LOG2 salt no_failures = Inr w"
    "write_pieces P no_failures [plaintext] w = (Inr (), v)" "finish_file P no_failures False v = Inr f"
    "seal_file_bytes P plaintext cipher ctx salt = Inr (ff_sink f)" by blast
  from finished_opens(1) [OF assms(1,3) s(1-3)] obtain cs r where r: "open_file P (ff_sink f) cipher ctx = Inr r" "reader_inv P cs plaintext r" "sfr_position r = 0"
    by auto
  from read_to_end_reads [OF assms(1) r(2) assms(4), of "[]"] r(3) obtain u where "read_to_end P m [] r = (Inr plaintext, u)" by auto
  with r(1) s(4) show ?thesis by (simp add: open_file_bytes_def)
qed

lemma write_sealed_opens:
  assumes "aead_laws P" "length (ipd_salt D) = FILE_SALT_LEN" "write_sealed P cipher ctx D ds = Inr f" "0 < m"
  shows "open_file_bytes P m (ff_sink f) cipher ctx = Inr (concat ds)" "ff_plaintext_len f = length (concat ds)"
    "ff_plaintext_sha256 f = sha256 P (concat ds)"
proof -
  from assms(3) obtain w v where c: "with_params P cipher ctx DEFAULT_CHUNK_LOG2 (ipd_salt D) (ipd_write_fails D) = Inr w"
    "(case write_pieces P (ipd_write_fails D) ds w of (Inl e, _) \<Rightarrow> Inl e | (Inr _, v) \<Rightarrow> Inr v) = Inr v"
    "finish_file P (ipd_write_fails D) (ipd_sync_fails D) v = Inr f"
    by (auto simp only: write_sealed_def bindE_eq_Inr)
  from c(2) have c2: "write_pieces P (ipd_write_fails D) ds w = (Inr (), v)"
    by (cases "write_pieces P (ipd_write_fails D) ds w") (auto split: sum.splits)
  note fo = finished_opens [OF assms(1,2) c(1) c2 c(3)]
  show "ff_plaintext_len f = length (concat ds)" "ff_plaintext_sha256 f = sha256 P (concat ds)" by (rule fo)+
  from fo(1) obtain cs r where r: "open_file P (ff_sink f) cipher ctx = Inr r" "reader_inv P cs (concat ds) r" "sfr_position r = 0" by blast
  from read_to_end_reads [OF assms(1) r(2) assms(4), of "[]"] r(3) obtain u where "read_to_end P m [] r = (Inr (concat ds), u)" by auto
  with r(1) show "open_file_bytes P m (ff_sink f) cipher ctx = Inr (concat ds)" by (simp add: open_file_bytes_def)
qed

lemma write_sealed_errors: "write_sealed P cipher ctx D ds \<noteq> Inl DoesNotVerify"
proof -
  have s: "q \<noteq> Inl DoesNotVerify" if "seal_chunk P fl b u = (q, v)" for fl b u q v
    using that by (auto simp: seal_chunk_def split: option.splits)
  have l: "q \<noteq> Inl DoesNotVerify" if "write_loop P fl dd u = (q, v)" for fl dd u q v
    using that s by (induction P fl dd u rule: write_loop.induct) (subst (asm) write_loop.simps,
      auto simp: make_room_def Let_def split: if_splits prod.splits sum.splits)
  have p: "q \<noteq> Inl DoesNotVerify" if "write_pieces P fl dd u = (q, v)" for fl dd u q v
    using that by (induction dd arbitrary: u) (auto simp: write_plain_def dest: l elim!: bindS_cases)
  have f: "finish_file P fl sy u \<noteq> Inl DoesNotVerify" for fl sy u
    by (cases "seal_chunk P fl True u") (auto simp: finish_file_def dest: s split: sum.splits)
  have p2: "(case write_pieces P fl dd u of (Inl e, _) \<Rightarrow> Inl e | (Inr _, v) \<Rightarrow> Inr v) \<noteq> Inl DoesNotVerify" for fl dd u
    by (cases "write_pieces P fl dd u") (auto dest: p split: sum.splits)
  have w: "with_params P cipher ctx log2 salt fl \<noteq> Inl DoesNotVerify" for log2 salt fl
    by (simp add: with_params_def Let_def)
  show ?thesis using w p2 f by (auto simp only: write_sealed_def bindE_eq_Inl)
qed

text \<open>
  C27. Sealing a file in place never loses it: wherever it fails the path still holds the plaintext, and when it
  succeeds the path holds a sealed file that was read back from the disk and opens to the plaintext, whatever
  the disk made of the copy, as long as no other bytes have the plaintext's digest. A disk that gives back what
  was written never makes it report a copy that does not verify.
\<close>

theorem in_place_sealing_keeps_the_file:
  assumes "aead_laws P" "length (ipd_salt D) = FILE_SALT_LEN" "\<And>x. sha256 P x = sha256 P original \<Longrightarrow> x = original"
    and "ip_path w = Some original" "seal_file_in_place P cipher ctx D w = (r, t)"
  shows "case r of
      Inr (SealedInPlace n) \<Rightarrow> n = length original \<and> (\<exists>copy. ip_path t = Some copy \<and> open_file_bytes P (2 ^ 13) copy cipher ctx = Inr original)
    | _ \<Rightarrow> ip_path t = Some original \<and> (ipd_disk D = id \<longrightarrow> r \<noteq> Inl DoesNotVerify)"
proof -
  let ?ds = "pieces (2 ^ 16) original (length original)"
  have ds: "concat (pieces n xs k) = xs" if "0 < n" "length xs \<le> k" for n k and xs :: "byte list"
    using that by (induction k arbitrary: xs) auto
  have pt: "concat ?ds = original" by (rule ds) simp_all
  show ?thesis
  proof (cases "write_copy P cipher ctx D original")
    case (Inl e)
    with write_sealed_errors [of P cipher ctx D ?ds] have "e \<noteq> DoesNotVerify" by (auto simp: write_copy_def)
    with assms(4,5) Inl show ?thesis
      by (auto simp: seal_file_in_place_def Let_def split: if_splits)
  next
    case w: (Inr f)
    note fo = write_sealed_opens [OF assms(1,2) w [unfolded write_copy_def], unfolded pt]
    let ?copy = "ipd_disk D (ff_sink f)"
    have good: "verify_copy P cipher ctx (ff_sink f) f = Inr (length original)"
      using fo(1) [of "2 ^ 13"] fo(2,3) [of 1] by (simp add: verify_copy_def)
    have v: "n = length original \<and> open_file_bytes P (2 ^ 13) ?copy cipher ctx = Inr original"
      if "verify_copy P cipher ctx ?copy f = Inr n" for n
      using that assms(3) fo(2,3) [of 1] by (auto simp: verify_copy_def bindE_eq_Inr split: if_splits)
    show ?thesis
    proof (cases "verify_copy P cipher ctx ?copy f")
      case (Inl e)
      with good have "ipd_disk D \<noteq> id" by auto
      with assms(4,5) w Inl show ?thesis
        by (auto simp: seal_file_in_place_def Let_def split: if_splits)
    next
      case (Inr n)
      with assms(4,5) w v [OF Inr] show ?thesis
        by (auto simp: seal_file_in_place_def Let_def split: if_splits)
    qed
  qed
qed

end
