(* ===== verification/Log_Compaction.thy ===== *)
theory Log_Compaction
  imports Sealed_Log File_Contents
begin

text \<open>
  crates/core/crypto/src/sealed_log.rs, \<open>compact_to_sealed_file\<close>: a closed log becomes a sealed file that holds
  its records one after another.
\<close>

definition compact_to_sealed_file ::
  "platform \<Rightarrow> content_cipher \<Rightarrow> content_context \<Rightarrow> content_context \<Rightarrow> in_place_draws \<Rightarrow> byte list option \<Rightarrow>
   (in_place_world, log_error + file_error, nat) op" where
  "compact_to_sealed_file P cipher log_context file_context D log_file w = (case read_log P log_file cipher log_context of
     Inl e \<Rightarrow> (Inl (Inl e), w)
   | Inr records \<Rightarrow>
       if ip_temp w \<noteq> None \<and> ipd_remove_fails D then (Inl (Inr FileIO), w)
       else let w = w\<lparr>ip_temp := None\<rparr> in
         if ipd_create_fails D then (Inl (Inr FileIO), w)
         else (case write_sealed P cipher file_context D records of
             Inl e \<Rightarrow> (Inl (Inr e), w)
           | Inr finished \<Rightarrow> if ipd_rename_fails D then (Inl (Inr FileIO), w\<lparr>ip_temp := Some (ff_sink finished)\<rparr>)
               else (Inr (ff_plaintext_len finished), w\<lparr>ip_path := Some (ff_sink finished)\<rparr>)))"

text \<open>
  Compacting a log keeps its records: when it succeeds the destination is a sealed file that opens to the
  log's records one after another, of the length reported; when it fails the destination is untouched.
\<close>

theorem compaction_keeps_the_records:
  assumes "aead_laws P" "length (ipd_salt D) = FILE_SALT_LEN" "log_of P cipher log_context bytes records" "0 < m"
    and "compact_to_sealed_file P cipher log_context file_context D (Some bytes) w = (r, t)"
  shows "case r of
      Inr len \<Rightarrow> len = length (concat records)
        \<and> (\<exists>sealed. ip_path t = Some sealed \<and> open_file_bytes P m sealed cipher file_context = Inr (concat records))
    | Inl _ \<Rightarrow> ip_path t = ip_path w"
proof -
  have l: "read_log P (Some bytes) cipher log_context = Inr records" by (rule log_of_reads [OF assms(1,3)])
  show ?thesis
  proof (cases "write_sealed P cipher file_context D records")
    case (Inl e)
    with assms(5) l show ?thesis by (auto simp: compact_to_sealed_file_def Let_def split: if_splits)
  next
    case (Inr f)
    from write_sealed_opens [OF assms(1,2) Inr assms(4)] assms(5) l Inr show ?thesis
      by (auto simp: compact_to_sealed_file_def Let_def split: if_splits)
  qed
qed

end
