(* ===== verification/Sample_Files.thy ===== *)
theory Sample_Files
  imports Log_Compaction Sample_Platform
begin

text \<open>
  A concrete cipher, log and file on the sample platform: each property of sealed logs and files is applied where
  its hypotheses hold.
\<close>

definition file_cipher :: content_cipher where
  "file_cipher = \<lparr>cc_store = ''s'', cc_labels = [], cc_current = \<lparr>ck_key = replicate 32 1, ck_root_kcv = ''k''\<rparr>, cc_retired = []\<rparr>"

definition file_context :: content_context where
  "file_context = for_id ''p'' ''i''"

definition log_salt :: "byte list" where "log_salt = replicate 20 0"
definition log_nonce :: "byte list" where "log_nonce = replicate 12 0"
definition good_io :: log_io where
  "good_io = \<lparr>lio_open_fails = False, lio_write = None, lio_truncate_fails = False, lio_sync_fails = False\<rparr>"

abbreviation empty_log :: "byte list" where
  "empty_log \<equiv> build_log_header log_salt"

abbreviation sample_writer :: "nat \<Rightarrow> log_writer" where
  "sample_writer \<equiv> writer_at sample_platform file_cipher file_context log_salt"

lemma empty_log_at: "log_at sample_platform file_cipher file_context log_salt empty_log []"
  using log_body.none by (simp add: log_at_def log_salt_def SALT_LEN_def)

lemma empty_log_of: "log_of sample_platform file_cipher file_context empty_log []"
  using empty_log_at by (auto simp: log_of_def)

lemma sample_open: "open_append sample_platform file_cipher file_context log_salt good_io (Some empty_log) = (Inr (sample_writer 0), Some empty_log)"
  using open_append_tail [OF sample_aead_laws empty_log_at, of "[]" good_io log_salt] by (simp add: good_io_def)

definition sample_frame :: "byte list \<Rightarrow> byte list" where
  "sample_frame rec = log_frame log_nonce (rec @ sample_tag)"

lemma sample_append: "length rec < 100 \<Longrightarrow> append_with_nonce sample_platform rec log_nonce good_io (sample_writer i, bs)
    = (Inr i, sample_writer (Suc i), bs @ sample_frame rec)"
  by (simp add: append_with_nonce_def log_consts sample_platform_def writer_at_def good_io_def sample_frame_def log_frame_def Let_def)

lemma log_nonce_length: "length log_nonce = NONCE_LEN"
  by (simp add: log_nonce_def NONCE_LEN_def)


lemma log_survives_crash_witness:
  "\<exists>m torn. m \<le> 2 \<and> open_recovering sample_platform (Some (take 70 (empty_log @ sample_frame [1] @ sample_frame [2]))) file_cipher file_context
    = Inr \<lparr>rl_records = take m [[1], [2]], rl_torn_tail = torn, rl_needs_reseal = False\<rparr>"
proof -
  have a: "append_all sample_platform good_io [([1], log_nonce), ([2], log_nonce)] (sample_writer 0, empty_log)
      = (Inr (), sample_writer 2, empty_log @ sample_frame [1] @ sample_frame [2])"
    using sample_append [of "[1]" 0] sample_append [of "[2]" 1] by (simp add: numeral_2_eq_2)
  have l: "list_all (\<lambda>(rec, n). length n = NONCE_LEN) [([1], log_nonce), ([2], log_nonce)]" by (simp add: log_nonce_length)
  have k: "length empty_log \<le> 70" by (simp add: build_log_header_def log_salt_def)
  show ?thesis
  proof -
    from log_survives_crash [OF sample_aead_laws empty_log_of l sample_open a k, of good_io] obtain m torn where
      "m \<le> length [([1], log_nonce), ([2], log_nonce)]"
      "open_recovering sample_platform (Some (take 70 (empty_log @ sample_frame [1] @ sample_frame [2]))) file_cipher file_context
        = Inr \<lparr>rl_records = [] @ take m (map fst [([1], log_nonce), ([2], log_nonce)]), rl_torn_tail = torn, rl_needs_reseal = False\<rparr>"
      unfolding good_io_def by fastforce
    then show ?thesis by (intro exI [of _ m] exI [of _ torn]) simp
  qed
qed

lemma read_log_is_authentic_witness:
  "\<exists>header body key. empty_log @ sample_frame [1] = header @ body \<and> length header = SEALED_LOG_HEADER_LEN
    \<and> log_body sample_platform key header 0 body [[1]]"
proof -
  have "read_log sample_platform (Some (empty_log @ sample_frame [1])) file_cipher file_context = Inr [[1]]"
  proof (rule log_of_reads [OF sample_aead_laws])
    have "aead_encrypt sample_platform k n m a = Some (m @ sample_tag)" for k n m a by (simp add: sample_platform_def)
    then have "seals_record sample_platform k h i log_nonce [1] ([1] @ sample_tag)" for k h i
      by (simp add: seals_record_def log_nonce_length log_consts)
    from log_at_append [OF empty_log_at this] show "log_of sample_platform file_cipher file_context (empty_log @ sample_frame [1]) [[1]]"
      by (auto simp: log_of_def sample_frame_def)
  qed
  then have "read_log_bytes sample_platform (empty_log @ sample_frame [1]) file_cipher file_context = Inr [[1]]"
    by (simp add: read_log_def ok_or_def)
  from read_log_is_authentic [OF sample_aead_laws this] show ?thesis by blast
qed


section \<open>Files\<close>

lemma log_salt_length: "length log_salt = FILE_SALT_LEN"
  by (simp add: log_salt_def FILE_SALT_LEN_def)

lemma sealed_bytes_round_trip_witness:
  "\<exists>sealed. seal_file_bytes sample_platform [1, 2, 3] file_cipher file_context log_salt = Inr sealed
    \<and> open_file_bytes sample_platform 10 sealed file_cipher file_context = Inr [1, 2, 3]"
  by (rule sealed_bytes_round_trip [OF sample_aead_laws sample_aead_total log_salt_length]) simp

lemma sample_writer_start:
  "\<exists>w. with_params sample_platform file_cipher file_context 10 log_salt no_failures = Inr w \<and> sfw_chunk_log2 w = 10 \<and> sfw_buffer w = []"
  by (simp add: with_params_def no_failures_def Let_def)

lemma sealed_file_reads_ranges_witness:
  "\<exists>sealed r. open_file sample_platform sealed file_cipher file_context = Inr r
    \<and> fst (read_range sample_platform 1 5 r) = Inr [2, 3]"
proof -
  from sample_writer_start obtain w where w: "with_params sample_platform file_cipher file_context 10 log_salt no_failures = Inr w"
    "sfw_chunk_log2 w = 10" "sfw_buffer w = []" by blast
  have "\<exists>v. write_pieces sample_platform no_failures [[1], [2, 3]] w = (Inr (), v)"
    using w(2,3) by (simp add: write_plain_def write_loop.simps make_room_def bindS_def Let_def)
  then obtain v where v: "write_pieces sample_platform no_failures [[1], [2, 3]] w = (Inr (), v)" by blast
  have "\<exists>f. finish_file sample_platform no_failures False v = Inr f"
    by (simp add: finish_file_def seal_chunk_def no_failures_def sample_platform_def)
  then obtain f where f: "finish_file sample_platform no_failures False v = Inr f" by blast
  from sealed_file_reads_ranges [OF sample_aead_laws log_salt_length w(1) v f] obtain r where
    "open_file sample_platform (ff_sink f) file_cipher file_context = Inr r"
    "fst (read_range sample_platform 1 5 r) = Inr (take 5 (drop 1 (concat [[1], [2, 3]])))" by auto
  then show ?thesis by (intro exI [of _ "ff_sink f"] exI [of _ r]) simp
qed

definition good_disk :: in_place_draws where
  "good_disk = \<lparr>ipd_salt = log_salt, ipd_available = 2 ^ 40, ipd_remove_fails = False, ipd_create_fails = False, ipd_write_fails = no_failures,
     ipd_sync_fails = False, ipd_rename_fails = False, ipd_disk = id\<rparr>"

lemma in_place_sealing_keeps_the_file_witness:
  "\<exists>r t. seal_file_in_place sample_platform file_cipher file_context good_disk \<lparr>ip_path = Some [1, 2, 3], ip_temp = None\<rparr> = (r, t)
    \<and> r \<noteq> Inl DoesNotVerify"
proof -
  obtain r t where s: "seal_file_in_place sample_platform file_cipher file_context good_disk \<lparr>ip_path = Some [1, 2, 3], ip_temp = None\<rparr> = (r, t)"
    by fastforce
  have sl: "length (ipd_salt good_disk) = FILE_SALT_LEN" by (simp add: good_disk_def log_salt_length)
  have h: "x = [1, 2, 3]" if "sha256 sample_platform x = sha256 sample_platform [1, 2, 3]" for x
    using that by (simp add: sample_platform_def)
  from in_place_sealing_keeps_the_file [OF sample_aead_laws sl h _ s] have "r \<noteq> Inl DoesNotVerify"
    by (auto simp: good_disk_def split: sum.splits)
  with s show ?thesis by blast
qed

lemma compaction_keeps_the_records_witness:
  "\<exists>r t. compact_to_sealed_file sample_platform file_cipher file_context file_context good_disk (Some empty_log)
      \<lparr>ip_path = None, ip_temp = None\<rparr> = (r, t) \<and> (r = Inr 0 \<or> ip_path t = None)"
proof -
  obtain r t where c: "compact_to_sealed_file sample_platform file_cipher file_context file_context good_disk (Some empty_log)
      \<lparr>ip_path = None, ip_temp = None\<rparr> = (r, t)" by fastforce
  have sl: "length (ipd_salt good_disk) = FILE_SALT_LEN" by (simp add: good_disk_def log_salt_length)
  from compaction_keeps_the_records [OF sample_aead_laws sl empty_log_of _ c, of 1] have "r = Inr 0 \<or> ip_path t = None"
    by (auto split: sum.splits)
  with c show ?thesis by blast
qed

end
