(* ===== verification/Vector_Index.thy ===== *)
theory Vector_Index
  imports Sidecar "HOL-Library.AList" "HOL-Library.Multiset"
begin

text \<open>
  crates/core/crypto/src/vector\_index.rs: the in-memory index for sealed embeddings. One budget of
  bytes (\<open>budget\<close>) is shared by all indexes; each holds partitions of vectors, and the partitions used
  least recently are evicted when a new one does not fit. A hash map is an association list where the
  code iterates over it (partitions, metadata, totals) and a map where it only looks up (positions).
  Sizes and counters are \<open>nat\<close>: they are sums over objects in memory, or ticks.
\<close>

unbundle bit_operations_syntax

section \<open>Floating point numbers\<close>

text \<open>
  An \<open>f32\<close> and an \<open>f16\<close> are their bits. The arithmetic of the processor and of the crate half is the
  record \<open>floats\<close>; the order \<open>f32::total_cmp\<close> is the library's, on the bits read as a signed integer
  whose low bits are flipped when negative.
\<close>

datatype f32 = F32 (f32_bits: "32 word")

type_synonym f16 = "16 word"

record floats =
  f_of_f16 :: "f16 \<Rightarrow> f32"
  f_to_f16 :: "f32 \<Rightarrow> f16"
  f_add :: "f32 \<Rightarrow> f32 \<Rightarrow> f32"
  f_mul :: "f32 \<Rightarrow> f32 \<Rightarrow> f32"
  f_div :: "f32 \<Rightarrow> f32 \<Rightarrow> f32"
  f_sqrt :: "f32 \<Rightarrow> f32"
  f_sum_start :: f32

definition total_key :: "f32 \<Rightarrow> int" where
  "total_key x = (let b = f32_bits x in
     sint (if sint b < 0 then b XOR 0x7FFFFFFF else b))"

lemma total_key_inject: "total_key x = total_key y \<longleftrightarrow> x = y"
proof
  assume eq: "total_key x = total_key y"
  have sign: "sint (b XOR 0x7FFFFFFF) < 0 \<longleftrightarrow> sint b < 0" for b :: "32 word"
    using bit_last_iff [of b] bit_last_iff [of "b XOR 0x7FFFFFFF"] by (simp add: bit_simps)
  have undo: "a = b" if "a XOR c = b XOR c" for a b c :: "32 word"
    using that by (metis xor.assoc xor.right_neutral xor_self_eq)
  have "f32_bits x = f32_bits y"
  proof (cases "sint (f32_bits x) < 0")
    case True
    then have "sint (f32_bits y) < 0"
      using eq sign [of "f32_bits x"] by (auto simp: total_key_def Let_def split: if_splits)
    with True eq show ?thesis by - (rule undo, rule signed_word_eqI, simp add: total_key_def Let_def)
  next
    case False
    then have "\<not> sint (f32_bits y) < 0"
      using eq sign [of "f32_bits y"] by (auto simp: total_key_def Let_def split: if_splits)
    with False eq show ?thesis by - (rule signed_word_eqI, simp add: total_key_def Let_def)
  qed
  then show "x = y" by (cases x; cases y) simp
qed simp

instantiation f32 :: linorder
begin

definition less_eq_f32 :: "f32 \<Rightarrow> f32 \<Rightarrow> bool" where
  "less_eq_f32 x y \<longleftrightarrow> total_key x \<le> total_key y"

definition less_f32 :: "f32 \<Rightarrow> f32 \<Rightarrow> bool" where
  "less_f32 x y \<longleftrightarrow> total_key x < total_key y"

instance
  by standard (auto simp: less_eq_f32_def less_f32_def total_key_inject)

end

definition sum_f32 :: "floats \<Rightarrow> f32 list \<Rightarrow> f32" where
  "sum_f32 F xs = foldl (f_add F) (f_sum_start F) xs"

text \<open>\<open>x > 0.0\<close>: not negative, not zero, not a NaN.\<close>

definition positive :: "f32 \<Rightarrow> bool" where
  "positive x \<longleftrightarrow> 0 < f32_bits x \<and> f32_bits x \<le> 0x7F800000"

section \<open>Partitions\<close>

definition DEFAULT_VECTOR_CACHE_MB :: nat where "DEFAULT_VECTOR_CACHE_MB = 256"

definition PER_VECTOR_OVERHEAD :: nat where "PER_VECTOR_OVERHEAD = 64"

record vector_coverage =
  vc_hydrated :: nat
  vc_total :: nat
  vc_evicted_partitions :: nat

record stored_vector =
  sv_id :: string
  sv_values :: "f16 list"
  sv_norm :: f32

record partition =
  pa_vectors :: "stored_vector list"
  pa_positions :: "string \<Rightarrow> nat option"
  pa_bytes :: nat
  pa_last_used :: nat

definition partition_new :: partition where
  "partition_new = \<lparr> pa_vectors = [], pa_positions = (\<lambda>_. None), pa_bytes = 0, pa_last_used = 0 \<rparr>"

definition vector_bytes :: "string \<Rightarrow> nat \<Rightarrow> nat" where
  "vector_bytes vid dims = dims * 2 + length vid * 2 + PER_VECTOR_OVERHEAD"

definition encode_vector :: "floats \<Rightarrow> string \<Rightarrow> f32 list \<Rightarrow> stored_vector" where
  "encode_vector F vid vector = (let values = map (f_to_f16 F) vector in
     \<lparr> sv_id = vid, sv_values = values,
       sv_norm = f_sqrt F (sum_f32 F (map (\<lambda>v. f_mul F (f_of_f16 F v) (f_of_f16 F v)) values)) \<rparr>)"

definition partition_upsert :: "floats \<Rightarrow> string \<Rightarrow> f32 list \<Rightarrow> partition \<Rightarrow> int \<times> partition" where
  "partition_upsert F vid vector p =
     (let stored = encode_vector F vid vector; sz = vector_bytes vid (length vector) in
      case pa_positions p vid of
        Some position \<Rightarrow>
          let old = vector_bytes vid (length (sv_values (pa_vectors p ! position))) in
          (int sz - int old,
           p\<lparr>pa_vectors := (pa_vectors p)[position := stored], pa_bytes := pa_bytes p + sz - old\<rparr>)
      | None \<Rightarrow>
          (int sz,
           p\<lparr>pa_positions := (pa_positions p)(vid \<mapsto> length (pa_vectors p)),
             pa_vectors := pa_vectors p @ [stored], pa_bytes := pa_bytes p + sz\<rparr>))"

text \<open>\<open>Vec::swap_remove\<close>\<close>

definition swap_remove :: "nat \<Rightarrow> 'a list \<Rightarrow> 'a list" where
  "swap_remove i xs = (butlast xs)[i := last xs]"

definition partition_remove :: "string \<Rightarrow> partition \<Rightarrow> nat \<times> partition" where
  "partition_remove vid p =
     (case pa_positions p vid of
        None \<Rightarrow> (0, p)
      | Some position \<Rightarrow>
          let positions = (pa_positions p)(vid := None);
              removed = pa_vectors p ! position;
              vectors = swap_remove position (pa_vectors p);
              positions = (if position < length vectors
                then positions(sv_id (vectors ! position) \<mapsto> position) else positions);
              sz = vector_bytes (sv_id removed) (length (sv_values removed)) in
          (sz, p\<lparr>pa_positions := positions, pa_vectors := vectors, pa_bytes := pa_bytes p - sz\<rparr>))"

section \<open>The budget\<close>

record index_meta =
  im_totals :: "(string \<times> nat) list"
  im_evicted :: "string list"

record budget =
  bu_limit :: nat
  bu_partitions :: "((nat \<times> string) \<times> partition) list"
  bu_meta :: "(nat \<times> index_meta) list"
  bu_used :: nat
  bu_clock :: nat
  bu_next_index :: nat

definition budget_new :: "nat \<Rightarrow> budget" where
  "budget_new limit = \<lparr> bu_limit = limit, bu_partitions = [], bu_meta = [], bu_used = 0,
     bu_clock = 1, bu_next_index = 1 \<rparr>"

text \<open>The limit of the process-wide budget, from the value of \<open>RYU_VECTOR_CACHE_MB\<close>.\<close>

definition global_limit :: "string option \<Rightarrow> nat" where
  "global_limit env =
     (let mb = (case Option.bind env (\<lambda>v. decimal (trim v)) of
                  Some n \<Rightarrow> if n < 2 ^ 64 then n else DEFAULT_VECTOR_CACHE_MB
                | None \<Rightarrow> DEFAULT_VECTOR_CACHE_MB)
      in min (mb * (1024 * 1024)) (2 ^ 64 - 1))"

definition meta_default :: index_meta where
  "meta_default = \<lparr> im_totals = [], im_evicted = [] \<rparr>"

definition meta_of :: "budget \<Rightarrow> nat \<Rightarrow> index_meta" where
  "meta_of b i = (case map_of (bu_meta b) i of None \<Rightarrow> meta_default | Some m \<Rightarrow> m)"

text \<open>\<open>meta.entry(i).or_default()\<close>, changed by \<open>f\<close>\<close>

definition on_meta :: "nat \<Rightarrow> (index_meta \<Rightarrow> index_meta) \<Rightarrow> budget \<Rightarrow> budget" where
  "on_meta i f b = b\<lparr>bu_meta := AList.update i (f (meta_of b i)) (bu_meta b)\<rparr>"

definition mark_evicted :: "string \<Rightarrow> index_meta \<Rightarrow> index_meta" where
  "mark_evicted p m = m\<lparr>im_evicted := List.insert p (im_evicted m)\<rparr>"

definition unmark_evicted :: "string \<Rightarrow> index_meta \<Rightarrow> index_meta" where
  "unmark_evicted p m = m\<lparr>im_evicted := removeAll p (im_evicted m)\<rparr>"

definition tick :: "budget \<Rightarrow> nat \<times> budget" where
  "tick b = (bu_clock b, b\<lparr>bu_clock := bu_clock b + 1\<rparr>)"

text \<open>\<open>Iterator::min_by_key\<close>\<close>

fun min_by_key :: "('a \<Rightarrow> nat) \<Rightarrow> 'a list \<Rightarrow> 'a option" where
  "min_by_key f [] = None"
| "min_by_key f (x # xs) = (case min_by_key f xs of
     None \<Rightarrow> Some x
   | Some y \<Rightarrow> if f y < f x then Some y else Some x)"

definition victim_of :: "nat \<times> string \<Rightarrow> budget \<Rightarrow> (nat \<times> string) option" where
  "victim_of keep b = map_option fst
     (min_by_key (\<lambda>(_, p). pa_last_used p) (filter (\<lambda>(key, _). key \<noteq> keep) (bu_partitions b)))"

text \<open>Takes a partition out of memory; the flag of its eviction is set by the caller.\<close>

definition take_out :: "nat \<times> string \<Rightarrow> budget \<Rightarrow> budget" where
  "take_out key b = (case map_of (bu_partitions b) key of
     None \<Rightarrow> b
   | Some p \<Rightarrow> b\<lparr>bu_partitions := AList.delete key (bu_partitions b), bu_used := bu_used b - pa_bytes p\<rparr>)"

definition evict :: "nat \<times> string \<Rightarrow> budget \<Rightarrow> budget" where
  "evict victim b = on_meta (fst victim) (mark_evicted (snd victim)) (take_out victim b)"

lemma min_by_key_in: "min_by_key f xs = Some x \<Longrightarrow> x \<in> set xs"
  by (induction xs arbitrary: x) (auto split: option.splits if_splits)

lemma victim_of_in: "victim_of keep b = Some v \<Longrightarrow> v \<noteq> keep \<and> v \<in> fst ` set (bu_partitions b)"
  by (force simp: victim_of_def dest: min_by_key_in)

lemma evict_shrinks:
  "v \<in> fst ` set (bu_partitions b) \<Longrightarrow> length (bu_partitions (evict v b)) < length (bu_partitions b)"
  by (auto simp: evict_def take_out_def on_meta_def AList.delete_eq map_of_eq_None_iff
      intro!: length_filter_less split: option.splits)

function make_room :: "nat \<Rightarrow> nat \<times> string \<Rightarrow> budget \<Rightarrow> bool \<times> budget" where
  "make_room extra keep b =
     (if bu_used b + extra > bu_limit b then
        (case victim_of keep b of
           None \<Rightarrow> (False, b)
         | Some victim \<Rightarrow> make_room extra keep (evict victim b))
      else (True, b))"
  by pat_completeness auto
termination
  by (relation "measure (\<lambda>(_, _, b). length (bu_partitions b))")
    (auto dest: victim_of_in intro: evict_shrinks)

declare make_room.simps [simp del]

section \<open>An index\<close>

datatype hydrate_error = LargerThanBudget nat nat

text \<open>\<open>VectorIndex::with_budget\<close>: the index is its number.\<close>

definition with_budget :: "budget \<Rightarrow> nat \<times> budget" where
  "with_budget b = (bu_next_index b,
     on_meta (bu_next_index b) (\<lambda>m. m) (b\<lparr>bu_next_index := bu_next_index b + 1\<rparr>))"

definition total_of :: "index_meta \<Rightarrow> string \<Rightarrow> nat" where
  "total_of m p = (case map_of (im_totals m) p of None \<Rightarrow> 0 | Some t \<Rightarrow> t)"

definition set_total :: "string \<Rightarrow> nat \<Rightarrow> index_meta \<Rightarrow> index_meta" where
  "set_total p t m = m\<lparr>im_totals := AList.update p t (im_totals m)\<rparr>"

definition build_partition :: "floats \<Rightarrow> (string \<times> f32 list) list \<Rightarrow> partition" where
  "build_partition F vectors = fold (\<lambda>(vid, v) p. snd (partition_upsert F vid v p)) vectors partition_new"

definition hydrate_partition ::
  "floats \<Rightarrow> nat \<Rightarrow> string \<Rightarrow> (string \<times> f32 list) list \<Rightarrow> (budget, hydrate_error, unit) op" where
  "hydrate_partition F i part vectors b =
     (let built = build_partition F vectors;
          count = length (pa_vectors built);
          (now, b) = tick b;
          built = built\<lparr>pa_last_used := now\<rparr>;
          key = (i, part);
          b = take_out key b;
          b = on_meta i (\<lambda>m. set_total part (max (total_of m part) count) m) b in
      if pa_bytes built > bu_limit b then
        (Inl (LargerThanBudget (pa_bytes built) (bu_limit b)), on_meta i (mark_evicted part) b)
      else
        (let needed = pa_bytes built;
             b = snd (make_room needed key b);
             b = b\<lparr>bu_used := bu_used b + needed, bu_partitions := AList.update key built (bu_partitions b)\<rparr>
         in (Inr (), on_meta i (unmark_evicted part) b)))"

definition set_partition_total :: "nat \<Rightarrow> string \<Rightarrow> nat \<Rightarrow> budget \<Rightarrow> budget" where
  "set_partition_total i part n = on_meta i (set_total part n)"

definition is_hydrated :: "nat \<Rightarrow> string \<Rightarrow> budget \<Rightarrow> bool" where
  "is_hydrated i part b \<longleftrightarrow> \<not> Option.is_none (map_of (bu_partitions b) (i, part))"

definition index_upsert :: "floats \<Rightarrow> nat \<Rightarrow> string \<Rightarrow> string \<Rightarrow> f32 list \<Rightarrow> budget \<Rightarrow> bool \<times> budget" where
  "index_upsert F i part vid vector b =
     (let key = (i, part) in
      case map_of (bu_partitions b) key of
        None \<Rightarrow> (False, b)
      | Some target \<Rightarrow>
          let existed = pa_positions target vid \<noteq> None;
              (delta, target) = partition_upsert F vid vector target;
              (now, b) = tick b;
              target = target\<lparr>pa_last_used := now\<rparr>;
              b = b\<lparr>bu_partitions := AList.update key target (bu_partitions b),
                    bu_used := nat (int (bu_used b) + delta)\<rparr>;
              b = (if existed then b
                   else on_meta i (\<lambda>m. set_total part (total_of m part + 1) m) b);
              b = (if bu_used b > bu_limit b then snd (make_room 0 key b) else b)
          in (True, b))"

definition index_remove :: "nat \<Rightarrow> string \<Rightarrow> string \<Rightarrow> budget \<Rightarrow> budget" where
  "index_remove i part vid b =
     (let key = (i, part) in
      case map_of (bu_partitions b) key of
        None \<Rightarrow> b
      | Some target \<Rightarrow>
          let (removed, target) = partition_remove vid target;
              b = b\<lparr>bu_partitions := AList.update key target (bu_partitions b), bu_used := bu_used b - removed\<rparr>
          in if removed > 0 then
               on_meta i (\<lambda>m. case map_of (im_totals m) part of
                 None \<Rightarrow> m | Some t \<Rightarrow> set_total part (t - 1) m) b
             else b)"

definition drop_partition :: "nat \<Rightarrow> string \<Rightarrow> budget \<Rightarrow> budget" where
  "drop_partition i part b =
     on_meta i (\<lambda>m. unmark_evicted part (m\<lparr>im_totals := AList.delete part (im_totals m)\<rparr>))
       (take_out (i, part) b)"

section \<open>Search\<close>

text \<open>
  \<open>select n xs\<close> is \<open>select_nth_unstable_by\<close> with the scores in descending order: some permutation
  in which element \<open>n\<close> is where sorting would put it, which is all its documentation promises.
\<close>

type_synonym selection = "nat \<Rightarrow> (f32 \<times> nat) list \<Rightarrow> (f32 \<times> nat) list"

definition selects :: "selection \<Rightarrow> bool" where
  "selects select \<longleftrightarrow> (\<forall>n xs. n < length xs \<longrightarrow> mset (select n xs) = mset xs
     \<and> (\<forall>i<length xs. (i \<le> n \<longrightarrow> fst (select n xs ! n) \<le> fst (select n xs ! i))
                     \<and> (n \<le> i \<longrightarrow> fst (select n xs ! i) \<le> fst (select n xs ! n))))"

text \<open>\<open>sort_by\<close> with the scores in descending order; it is stable.\<close>

definition sort_best_first :: "('a \<Rightarrow> f32) \<Rightarrow> 'a list \<Rightarrow> 'a list" where
  "sort_best_first score xs = sort_key (\<lambda>x. - total_key (score x)) xs"

definition score_of :: "floats \<Rightarrow> f32 list \<Rightarrow> stored_vector \<Rightarrow> f32" where
  "score_of F query stored =
     (let query_norm = f_sqrt F (sum_f32 F (map (\<lambda>v. f_mul F v v) query));
          dot = sum_f32 F (map (\<lambda>(v, q). f_mul F (f_of_f16 F v) q) (zip (sv_values stored) query));
          denominator = f_mul F (sv_norm stored) query_norm in
      if positive denominator then f_div F dot denominator else F32 0)"

definition matches :: "f32 list \<Rightarrow> (string \<Rightarrow> bool) \<Rightarrow> stored_vector \<Rightarrow> bool" where
  "matches query keep stored \<longleftrightarrow> length (sv_values stored) = length query \<and> keep (sv_id stored)"

definition top_k ::
  "selection \<Rightarrow> floats \<Rightarrow> partition \<Rightarrow> f32 list \<Rightarrow> nat \<Rightarrow> (string \<Rightarrow> bool) \<Rightarrow> (string \<times> f32) list" where
  "top_k select F p query k keep =
     (if k = 0 then []
      else
        let scored = map (\<lambda>(position, stored). (score_of F query stored, position))
              (filter (\<lambda>(_, stored). matches query keep stored) (enumerate 0 (pa_vectors p)));
            k = min k (length scored) in
        if k = 0 then []
        else map (\<lambda>(score, position). (sv_id (pa_vectors p ! position), score))
               (sort_best_first fst (take k (select (k - 1) scored))))"

definition search_filtered ::
  "selection \<Rightarrow> floats \<Rightarrow> nat \<Rightarrow> string \<Rightarrow> f32 list \<Rightarrow> nat \<Rightarrow> (string \<Rightarrow> bool) \<Rightarrow> budget
    \<Rightarrow> (string \<times> f32) list option \<times> budget" where
  "search_filtered select F i part query k keep b =
     (case map_of (bu_partitions b) (i, part) of
        None \<Rightarrow> (None, b)
      | Some target \<Rightarrow>
          let (now, b) = tick b;
              target = target\<lparr>pa_last_used := now\<rparr> in
          (Some (top_k select F target query k keep),
           b\<lparr>bu_partitions := AList.update (i, part) target (bu_partitions b)\<rparr>))"

definition index_search ::
  "selection \<Rightarrow> floats \<Rightarrow> nat \<Rightarrow> string \<Rightarrow> f32 list \<Rightarrow> nat \<Rightarrow> budget
    \<Rightarrow> (string \<times> f32) list option \<times> budget" where
  "index_search select F i part query k b =
     search_filtered select F i part query k (\<lambda>_. True) b"

definition coverage :: "nat \<Rightarrow> budget \<Rightarrow> vector_coverage" where
  "coverage i b =
     (let hydrated = sum_list (map (\<lambda>(_, p). length (pa_vectors p))
            (filter (\<lambda>((index, _), _). index = i) (bu_partitions b)));
          (known, evicted) = (case map_of (bu_meta b) i of
             Some m \<Rightarrow> (sum_list (map snd (im_totals m)), length (im_evicted m))
           | None \<Rightarrow> (0, 0))
      in \<lparr> vc_hydrated = hydrated, vc_total = max known hydrated, vc_evicted_partitions = evicted \<rparr>)"

section \<open>The bounded collector\<close>

text \<open>
  \<open>TopK\<close>. The heap is the list of what it holds; which of several lowest elements \<open>pop\<close> takes depends
  on the layout of the heap, so the position of the element on top is a parameter \<open>peek\<close>.
\<close>

record collector =
  tk_k :: nat
  tk_heap :: "(f32 \<times> string) list"

type_synonym heap_top = "(f32 \<times> string) list \<Rightarrow> nat"

definition lowest_on_top :: "heap_top \<Rightarrow> bool" where
  "lowest_on_top peek \<longleftrightarrow> (\<forall>xs. xs \<noteq> [] \<longrightarrow> peek xs < length xs \<and> (\<forall>x\<in>set xs. fst (xs ! peek xs) \<le> fst x))"

definition collector_new :: "nat \<Rightarrow> collector" where
  "collector_new k = \<lparr> tk_k = k, tk_heap = [] \<rparr>"

definition accepts :: "heap_top \<Rightarrow> f32 \<Rightarrow> collector \<Rightarrow> bool" where
  "accepts peek score c =
     (if tk_k c = 0 then False
      else length (tk_heap c) < tk_k c
        \<or> (tk_heap c \<noteq> [] \<and> fst (tk_heap c ! peek (tk_heap c)) < score))"

definition collector_push :: "heap_top \<Rightarrow> string \<Rightarrow> f32 \<Rightarrow> collector \<Rightarrow> collector" where
  "collector_push peek vid score c =
     (if \<not> accepts peek score c then c
      else
        let heap = tk_heap c;
            heap = (if length heap = tk_k c then swap_remove (peek heap) heap else heap)
        in c\<lparr>tk_heap := heap @ [(score, vid)]\<rparr>)"

definition into_sorted :: "collector \<Rightarrow> (string \<times> f32) list" where
  "into_sorted c = sort_best_first snd (map (\<lambda>(score, vid). (vid, score)) (tk_heap c))"

end
