(* ===== verification/Vector_Cache.thy ===== *)
theory Vector_Cache
  imports Vector_Index
begin

text \<open>
  The vector index keeps its accounts: positions point at the vectors they name, bytes are the sizes
  of what is held, and the budget is exceeded by a lone partition only. A partition refines a map
  from ids to vectors.
\<close>

section \<open>Lists and association lists\<close>

lemma nth_swap_remove:
  "i < length xs \<Longrightarrow> j < length xs - 1 \<Longrightarrow>
     swap_remove i xs ! j = (if j = i then xs ! (length xs - 1) else xs ! j)"
  by (cases xs rule: rev_cases) (auto simp: swap_remove_def nth_list_update nth_append)

lemma length_swap_remove [simp]: "length (swap_remove i xs) = length xs - 1"
  by (simp add: swap_remove_def)

lemma mset_swap_remove:
  assumes "i < length xs"
  shows "add_mset (xs ! i) (mset (swap_remove i xs)) = mset xs"
proof (cases xs rule: rev_cases)
  case (snoc ys y)
  show ?thesis
  proof (cases "i = length ys")
    case True
    with snoc show ?thesis by (simp add: swap_remove_def list_update_beyond)
  next
    case False
    with snoc assms show ?thesis by (simp add: swap_remove_def mset_update nth_append)
  qed
qed (use assms in simp)

lemma mset_sum_list: "mset xs = add_mset x (mset ys) \<Longrightarrow> sum_list (map f xs) = f x + sum_list (map f ys)"
  for f :: "'a \<Rightarrow> nat"
  by (metis mset.simps(2) mset_map sum_list.Cons sum_mset_sum_list list.simps(9))

lemma delete_absent [simp]: "k \<notin> fst ` set al \<Longrightarrow> AList.delete k al = al"
  by (induction al) auto

lemma mset_delete:
  "distinct (map fst al) \<Longrightarrow> map_of al k = Some v \<Longrightarrow> mset al = add_mset (k, v) (mset (AList.delete k al))"
  by (induction al) (auto split: if_splits)

lemma mset_update_pair:
  "distinct (map fst al) \<Longrightarrow> mset (AList.update k v al) = add_mset (k, v) (mset (AList.delete k al))"
proof (induction al)
  case (Cons p al)
  show ?case
  proof (cases "fst p = k")
    case True
    with Cons.prems show ?thesis by (cases p) auto
  next
    case False
    with Cons show ?thesis by (cases p) simp
  qed
qed simp

lemma delete_None [simp]: "map_of al k = None \<Longrightarrow> AList.delete k al = al"
  by (simp add: map_of_eq_None_iff)

lemma distinct_delete: "distinct (map fst al) \<Longrightarrow> distinct (map fst (AList.delete k al))"
  by (simp add: AList.delete_eq distinct_map_filter)

lemma map_of_alist [simp]:
  "map_of (AList.update k v al) = (map_of al)(k \<mapsto> v)"
  "map_of (AList.delete k al) = (map_of al)(k := None)"
  by (simp_all add: update_conv' delete_conv')

section \<open>A partition refines a map\<close>

definition held_bytes :: "stored_vector \<Rightarrow> nat" where
  "held_bytes s = vector_bytes (sv_id s) (length (sv_values s))"

definition part_inv :: "partition \<Rightarrow> bool" where
  "part_inv p \<longleftrightarrow>
     (\<forall>x i. pa_positions p x = Some i \<longleftrightarrow> i < length (pa_vectors p) \<and> sv_id (pa_vectors p ! i) = x)
     \<and> pa_bytes p = sum_list (map held_bytes (pa_vectors p))"

definition contents :: "partition \<Rightarrow> string \<Rightarrow> f16 list option" where
  "contents p x = map_option (\<lambda>i. sv_values (pa_vectors p ! i)) (pa_positions p x)"

lemma part_inv_pos: "part_inv p \<Longrightarrow> pa_positions p x = Some i \<longleftrightarrow> i < length (pa_vectors p) \<and> sv_id (pa_vectors p ! i) = x"
  by (simp add: part_inv_def)

lemma part_inv_None: "part_inv p \<Longrightarrow> pa_positions p x = None \<longleftrightarrow> (\<forall>i<length (pa_vectors p). sv_id (pa_vectors p ! i) \<noteq> x)"
  by (metis not_Some_eq part_inv_pos)

lemma part_inv_distinct: "part_inv p \<Longrightarrow> distinct (map sv_id (pa_vectors p))"
  unfolding distinct_conv_nth by (auto, metis option.inject part_inv_pos)

lemma part_inv_new [simp]: "part_inv partition_new"
  by (simp add: part_inv_def partition_new_def)

lemma contents_new [simp]: "contents partition_new = Map.empty"
  by (auto simp: contents_def partition_new_def)

lemma part_inv_used [simp]: "part_inv (p\<lparr>pa_last_used := t\<rparr>) = part_inv p"
  by (simp add: part_inv_def)

lemma contents_used [simp]: "contents (p\<lparr>pa_last_used := t\<rparr>) = contents p"
  by (auto simp: contents_def)

lemma encode_vector_simps [simp]:
  "sv_id (encode_vector F x v) = x"
  "sv_values (encode_vector F x v) = map (f_to_f16 F) v"
  "held_bytes (encode_vector F x v) = vector_bytes x (length v)"
  by (simp_all add: encode_vector_def Let_def held_bytes_def)

lemma held_le: "i < length (pa_vectors p) \<Longrightarrow> part_inv p \<Longrightarrow> held_bytes (pa_vectors p ! i) \<le> pa_bytes p"
  by (auto simp: part_inv_def intro!: member_le_sum_list)

lemma contents_iff:
  "part_inv p \<Longrightarrow> contents p x = Some v \<longleftrightarrow> (\<exists>s\<in>set (pa_vectors p). sv_id s = x \<and> sv_values s = v)"
  by (force simp: contents_def part_inv_pos in_set_conv_nth)

lemma partition_upsert:
  assumes "part_inv p" and "partition_upsert F x v p = (d, q)"
  shows "part_inv q \<and> contents q = (contents p)(x \<mapsto> map (f_to_f16 F) v)
    \<and> int (pa_bytes q) = int (pa_bytes p) + d \<and> pa_last_used q = pa_last_used p
    \<and> length (pa_vectors q) = length (pa_vectors p) + (if pa_positions p x = None then 1 else 0)"
proof (cases "pa_positions p x")
  case None
  note absent = None [unfolded part_inv_None [OF assms(1)]]
  have q: "q = p\<lparr>pa_positions := (pa_positions p)(x \<mapsto> length (pa_vectors p)),
      pa_vectors := pa_vectors p @ [encode_vector F x v], pa_bytes := pa_bytes p + vector_bytes x (length v)\<rparr>"
    and d: "d = int (vector_bytes x (length v))"
    using assms(2) None by (auto simp: partition_upsert_def Let_def)
  have lt: "i < length (pa_vectors p)" if "pa_positions p y = Some i" for y i
    using that assms(1) by (simp add: part_inv_pos)
  have "part_inv q"
    using assms(1) absent by (auto simp: part_inv_def q nth_append less_Suc_eq)
  moreover have "contents q y = ((contents p)(x \<mapsto> map (f_to_f16 F) v)) y" for y
    by (auto simp: contents_def q nth_append lt intro!: option.map_cong)
  ultimately show ?thesis using None by (auto simp: q d)
next
  case (Some i)
  then have i: "i < length (pa_vectors p)" "sv_id (pa_vectors p ! i) = x"
    using assms(1) by (auto simp: part_inv_pos)
  have same: "i \<noteq> z" if "pa_positions p y = Some z" "y \<noteq> x" for y z
    using that i assms(1) by (auto simp: part_inv_pos)
  let ?o = "held_bytes (pa_vectors p ! i)"
  have q: "q = p\<lparr>pa_vectors := (pa_vectors p)[i := encode_vector F x v],
      pa_bytes := pa_bytes p + vector_bytes x (length v) - ?o\<rparr>"
    and d: "d = int (vector_bytes x (length v)) - int ?o"
    using assms(2) Some i by (auto simp: partition_upsert_def Let_def held_bytes_def)
  have le: "?o \<le> pa_bytes p" using held_le i assms(1) by blast
  have "sum_list (map held_bytes (pa_vectors q)) = pa_bytes p + vector_bytes x (length v) - ?o"
    using assms(1) i by (simp add: q part_inv_def map_update sum_list_update)
  then have "part_inv q"
    using assms(1) i le by (auto simp: part_inv_def q nth_list_update)
  moreover have "contents q y = ((contents p)(x \<mapsto> map (f_to_f16 F) v)) y" for y
    by (cases "y = x") (auto simp: contents_def q i Some same intro!: option.map_cong)
  ultimately show ?thesis using Some le by (auto simp: q d)
qed

lemma partition_remove:
  assumes "part_inv p" and "partition_remove x p = (n, q)"
  shows "part_inv q \<and> contents q = (contents p)(x := None) \<and> pa_bytes p = pa_bytes q + n
    \<and> pa_last_used q = pa_last_used p \<and> (0 < n \<longleftrightarrow> pa_positions p x \<noteq> None)"
proof (cases "pa_positions p x")
  case None
  with assms show ?thesis by (auto simp: partition_remove_def contents_def)
next
  case (Some i)
  then have i: "i < length (pa_vectors p)" "sv_id (pa_vectors p ! i) = x"
    using assms(1) by (auto simp: part_inv_pos)
  let ?vs = "swap_remove i (pa_vectors p)"
  have n: "n = held_bytes (pa_vectors p ! i)"
    and q: "pa_vectors q = ?vs" "pa_bytes q = pa_bytes p - n" "pa_last_used q = pa_last_used p"
      "pa_positions q = (if i < length ?vs then (pa_positions p)(x := None, sv_id (?vs ! i) \<mapsto> i)
        else (pa_positions p)(x := None))"
    using assms(2) Some i by (auto simp: partition_remove_def Let_def held_bytes_def)
  have bytes: "pa_bytes p = n + sum_list (map held_bytes ?vs)"
    using mset_sum_list [OF mset_swap_remove [OF i(1), symmetric], of held_bytes] assms(1)
    by (simp add: n part_inv_def)
  have dist: "sv_id (pa_vectors p ! j) = sv_id (pa_vectors p ! k) \<longleftrightarrow> j = k"
    if "j < length (pa_vectors p)" "k < length (pa_vectors p)" for j k
    using part_inv_distinct [OF assms(1)] that by (auto simp: distinct_conv_nth)
  have pos: "pa_positions q y = Some j \<longleftrightarrow> j < length ?vs \<and> sv_id (?vs ! j) = y" for y j
  proof (cases "i < length ?vs")
    case True
    let ?m = "length (pa_vectors p) - 1"
    have pq: "pa_positions q = (pa_positions p)(x := None, sv_id (pa_vectors p ! ?m) \<mapsto> i)"
      using True i by (simp add: q nth_swap_remove)
    have m: "?m < length (pa_vectors p)" using i by auto
    show ?thesis
    proof (cases "j < ?m")
      case j: True
      then show ?thesis
        using True i assms(1) dist [OF _ m, of j] dist [of j i] dist [OF _ m, of i]
        by (auto simp: pq nth_swap_remove part_inv_pos)
    next
      case False
      then show ?thesis
        using True i assms(1) dist [of j ?m] by (auto simp: pq part_inv_pos)
    qed
  next
    case False
    then have "j < length (pa_vectors p) \<longleftrightarrow> j < length ?vs \<or> j = i" using i by auto
    with False i show ?thesis
      using dist [of i j] assms(1) by (auto simp: q nth_swap_remove part_inv_pos)
  qed
  have inv: "part_inv q"
    using pos bytes by (simp add: part_inv_def q)
  have "set (pa_vectors p) = insert (pa_vectors p ! i) (set ?vs)" "\<forall>s\<in>set ?vs. sv_id s \<noteq> x"
  proof -
    note m = mset_swap_remove [OF i(1)]
    show "set (pa_vectors p) = insert (pa_vectors p ! i) (set ?vs)"
      by (metis m set_mset_add_mset_insert set_mset_mset)
    have "add_mset (sv_id (pa_vectors p ! i)) (mset (map sv_id ?vs)) = mset (map sv_id (pa_vectors p))"
      using arg_cong [OF m, of "image_mset sv_id"] by simp
    then have "distinct (x # map sv_id ?vs)"
      using part_inv_distinct [OF assms(1)] i(2) by (metis mset.simps(2) mset_eq_imp_distinct_iff)
    then show "\<forall>s\<in>set ?vs. sv_id s \<noteq> x" by auto
  qed
  then have "contents q y = Some v \<longleftrightarrow> ((contents p)(x := None)) y = Some v" for y v
    using i by (auto simp: contents_iff [OF inv] contents_iff [OF assms(1)] q)
  then have "contents q = (contents p)(x := None)"
    by (intro ext) (metis not_Some_eq)
  with inv bytes show ?thesis using Some by (simp add: q n held_bytes_def vector_bytes_def PER_VECTOR_OVERHEAD_def)
qed

section \<open>The accounts of the budget\<close>

definition sum_bytes :: "((nat \<times> string) \<times> partition) list \<Rightarrow> nat" where
  "sum_bytes ps = sum_list (map (\<lambda>(_, p). pa_bytes p) ps)"

definition parts :: "budget \<Rightarrow> nat \<times> string \<Rightarrow> partition option" where
  "parts b = map_of (bu_partitions b)"

definition evicted :: "budget \<Rightarrow> nat \<times> string \<Rightarrow> bool" where
  "evicted b key \<longleftrightarrow> snd key \<in> set (im_evicted (meta_of b (fst key)))"

definition cache_core :: "budget \<Rightarrow> bool" where
  "cache_core b \<longleftrightarrow> distinct (map fst (bu_partitions b)) \<and> bu_used b = sum_bytes (bu_partitions b)
     \<and> (\<forall>key p. parts b key = Some p \<longrightarrow> part_inv p \<and> pa_last_used p < bu_clock b \<and> \<not> evicted b key)
     \<and> (\<forall>k1 p1 k2 p2. parts b k1 = Some p1 \<longrightarrow> parts b k2 = Some p2 \<longrightarrow>
          pa_last_used p1 = pa_last_used p2 \<longrightarrow> k1 = k2)"

definition cache_inv :: "budget \<Rightarrow> bool" where
  "cache_inv b \<longleftrightarrow> cache_core b \<and> (bu_used b \<le> bu_limit b \<or> length (bu_partitions b) \<le> 1)"

lemma cache_coreD:
  assumes "cache_core b"
  shows "distinct (map fst (bu_partitions b))" "bu_used b = sum_bytes (bu_partitions b)"
    "parts b key = Some p \<Longrightarrow> part_inv p" "parts b key = Some p \<Longrightarrow> pa_last_used p < bu_clock b"
    "parts b key = Some p \<Longrightarrow> \<not> evicted b key"
    "parts b k1 = Some p1 \<Longrightarrow> parts b k2 = Some p2 \<Longrightarrow> pa_last_used p1 = pa_last_used p2 \<Longrightarrow> k1 = k2"
  using assms unfolding cache_core_def by blast+

lemma sum_bytes_delete:
  "distinct (map fst al) \<Longrightarrow> map_of al key = Some p \<Longrightarrow> sum_bytes al = pa_bytes p + sum_bytes (AList.delete key al)"
  using mset_sum_list [OF mset_delete [of al key p]] by (simp add: sum_bytes_def)

lemma sum_bytes_update:
  "distinct (map fst al) \<Longrightarrow> sum_bytes (AList.update key p al) = pa_bytes p + sum_bytes (AList.delete key al)"
  using mset_sum_list [OF mset_update_pair [of al key p]] by (simp add: sum_bytes_def)

lemma meta_of_on_meta [simp]: "meta_of (on_meta i f b) j = (if j = i then f (meta_of b i) else meta_of b j)"
  by (simp add: meta_of_def on_meta_def)

lemma on_meta_fields [simp]:
  "bu_partitions (on_meta i f b) = bu_partitions b" "bu_used (on_meta i f b) = bu_used b"
  "bu_limit (on_meta i f b) = bu_limit b" "bu_clock (on_meta i f b) = bu_clock b"
  "parts (on_meta i f b) = parts b"
  by (simp_all add: on_meta_def parts_def)

lemma take_out_fields [simp]:
  "bu_limit (take_out key b) = bu_limit b" "bu_clock (take_out key b) = bu_clock b"
  "meta_of (take_out key b) = meta_of b" "parts (take_out key b) = (parts b)(key := None)"
  "bu_partitions (take_out key b) = AList.delete key (bu_partitions b)"
  by (auto simp: take_out_def parts_def meta_of_def fun_eq_iff split: option.split)

lemma take_out_used:
  "cache_core b \<Longrightarrow> bu_used (take_out key b) = sum_bytes (AList.delete key (bu_partitions b))"
  using sum_bytes_delete [OF cache_coreD(1), of b key]
  by (auto simp: take_out_def cache_coreD(2) split: option.split)

lemma take_out_core: "cache_core b \<Longrightarrow> cache_core (take_out key b)"
  by (subst cache_core_def)
    (auto simp: take_out_used distinct_delete cache_coreD evicted_def dest: cache_coreD split: if_splits)

lemma core_unmarked: "cache_core b \<Longrightarrow> parts b (i, q) = Some p \<Longrightarrow> q \<notin> set (im_evicted (meta_of b i))"
  using cache_coreD(5) [of b "(i, q)" p] by (simp add: evicted_def)

text \<open>Changes of the metadata that add no eviction mark to a partition in memory.\<close>

lemma on_meta_core:
  "cache_core b \<Longrightarrow> (\<And>q. q \<in> set (im_evicted (f (meta_of b i))) \<Longrightarrow>
      q \<in> set (im_evicted (meta_of b i)) \<or> parts b (i, q) = None) \<Longrightarrow> cache_core (on_meta i f b)"
  by (subst cache_core_def) (auto simp: evicted_def dest: cache_coreD core_unmarked, metis core_unmarked option.distinct(1))

lemma evict_core: "cache_core b \<Longrightarrow> cache_core (evict key b)"
  unfolding evict_def by (rule on_meta_core) (auto simp: take_out_core mark_evicted_def)

lemma min_by_key_least: "min_by_key f xs = Some x \<Longrightarrow> y \<in> set xs \<Longrightarrow> f x \<le> f y"
proof (induction xs arbitrary: x)
  case (Cons z zs)
  then show ?case
  proof (cases "min_by_key f zs")
    case None
    with Cons.prems show ?thesis by (cases zs) (auto split: option.splits if_splits)
  next
    case (Some w)
    with Cons show ?thesis by (cases "y = z") (fastforce split: if_splits)+
  qed
qed simp

lemma min_by_key_None [simp]: "min_by_key f xs = None \<longleftrightarrow> xs = []"
  by (cases xs) (auto split: option.splits if_splits)

section \<open>Making room\<close>

text \<open>Evictions of the partition used least recently, one after the other; \<open>keep\<close> is spared.\<close>

inductive evictions :: "nat \<times> string \<Rightarrow> budget \<Rightarrow> budget \<Rightarrow> bool" for keep where
  stop: "evictions keep b b"
| more: "victim_of keep b = Some v \<Longrightarrow> evictions keep (evict v b) c \<Longrightarrow> evictions keep b c"

lemma victim_of_None: "victim_of keep b = None \<longleftrightarrow> (\<forall>key. parts b key \<noteq> None \<longrightarrow> key = keep)"
  by (auto simp: victim_of_def filter_empty_conv parts_def map_of_eq_None_iff dest: map_of_SomeD)
    (metis map_of_eq_None_iff fst_conv image_eqI not_Some_eq)

lemma victim_of_Some:
  assumes "cache_core b" and "victim_of keep b = Some v"
  shows "v \<noteq> keep \<and> (\<exists>p. parts b v = Some p
    \<and> (\<forall>key q. key \<noteq> keep \<longrightarrow> parts b key = Some q \<longrightarrow> pa_last_used p \<le> pa_last_used q))"
proof -
  let ?others = "filter (\<lambda>(key, _). key \<noteq> keep) (bu_partitions b)"
  obtain p where p: "min_by_key (\<lambda>(_, p). pa_last_used p) ?others = Some (v, p)"
    using assms(2) by (auto simp: victim_of_def)
  have "(v, p) \<in> set ?others" using min_by_key_in [OF p] .
  moreover have "pa_last_used p \<le> pa_last_used q" if "key \<noteq> keep" "parts b key = Some q" for key q
    using min_by_key_least [OF p, of "(key, q)"] that by (auto simp: parts_def dest: map_of_SomeD)
  ultimately show ?thesis
    using cache_coreD(1) [OF assms(1)] by (auto simp: parts_def)
qed

lemma make_room_evictions:
  "make_room extra keep b = (ok, c) \<Longrightarrow> evictions keep b c
     \<and> (if ok then bu_used c + extra \<le> bu_limit c else victim_of keep c = None \<and> bu_limit c < bu_used c + extra)"
proof (induction extra keep b arbitrary: ok c rule: make_room.induct)
  case (1 extra keep b)
  show ?case
  proof (cases "bu_used b + extra > bu_limit b")
    case False
    with 1(2) show ?thesis by (auto simp: make_room.simps [of extra keep b] intro: evictions.intros)
  next
    case True
    show ?thesis
    proof (cases "victim_of keep b")
      case None
      with True 1(2) show ?thesis by (auto simp: make_room.simps [of extra keep b] intro: evictions.intros)
    next
      case (Some v)
      with True 1(2) have "make_room extra keep (evict v b) = (ok, c)"
        by (simp add: make_room.simps [of extra keep b])
      with 1(1) True Some show ?thesis by (blast intro: evictions.intros)
    qed
  qed
qed

lemma evict_fields [simp]:
  "bu_limit (evict key b) = bu_limit b" "bu_clock (evict key b) = bu_clock b"
  "parts (evict key b) = (parts b)(key := None)"
  "evicted (evict key b) k \<longleftrightarrow> k = key \<or> evicted b k"
  "im_totals (meta_of (evict key b) i) = im_totals (meta_of b i)"
  by (auto simp: evict_def evicted_def mark_evicted_def prod_eq_iff)

lemma evictions:
  assumes "evictions keep b c"
  shows "bu_limit c = bu_limit b" "bu_clock c = bu_clock b" "parts c keep = parts b keep"
    "im_totals (meta_of c i) = im_totals (meta_of b i)" "parts c key \<in> {None, parts b key}"
    "cache_core b \<Longrightarrow> cache_core c"
    "evicted c key \<longleftrightarrow> evicted b key \<or> (parts b key \<noteq> None \<and> parts c key = None)"
  using assms
proof (induction rule: evictions.induct)
  case (more b v c)
  have "v \<noteq> keep" "parts b v \<noteq> None"
    using victim_of_in [OF more.hyps(1)] by (auto simp: parts_def map_of_eq_None_iff)
  {
    case 3
    show ?case using more.IH(3) \<open>v \<noteq> keep\<close> by simp
  next
    case 5
    show ?case using more.IH(5) by (auto split: if_splits)
  next
    case 6
    then show ?case using more.IH(6) evict_core by blast
  next
    case 7
    show ?case using more.IH(5,7) \<open>parts b v \<noteq> None\<close> by (auto split: if_splits)
  }
qed auto

lemma evictions_least_recent:
  assumes "evictions keep b c" and "cache_core b" and "key' \<noteq> keep"
    and "parts b key = Some p" "parts c key = None" "parts c key' = Some p'"
  shows "pa_last_used p < pa_last_used p'"
  using assms
proof (induction rule: evictions.induct)
  case (more b v c)
  have c: "parts b key' = Some p'" "key' \<noteq> v"
    using evictions(5) [OF more.hyps(2), of key'] more.prems by (auto split: if_splits)
  show ?case
  proof (cases "key = v")
    case True
    then have "pa_last_used p \<le> pa_last_used p'"
      using victim_of_Some [OF more.prems(1) more.hyps(1)] more.prems(2,3) c(1) by (metis option.inject)
    moreover have "pa_last_used p \<noteq> pa_last_used p'"
      using cache_coreD(6) [OF more.prems(1)] more.prems c True by blast
    ultimately show ?thesis by simp
  next
    case False
    with more show ?thesis by (simp add: evict_core)
  qed
qed simp

lemma lone_partition:
  assumes "cache_core b" and "victim_of keep b = None"
  shows "length (bu_partitions b) \<le> 1 \<and> (parts b keep = None \<longrightarrow> bu_used b = 0)"
proof -
  have sub: "fst ` set (bu_partitions b) \<subseteq> {keep}"
    using assms(2) by (auto simp: victim_of_None parts_def map_of_eq_None_iff)
  have len: "length (bu_partitions b) = card (fst ` set (bu_partitions b))"
    by (metis assms(1) cache_coreD(1) distinct_card length_map list.set_map)
  have "parts b keep = None \<Longrightarrow> bu_partitions b = []"
    using sub by (cases "bu_partitions b") (auto simp: parts_def map_of_eq_None_iff)
  then show ?thesis
    using card_mono [OF _ sub] cache_coreD(2) [OF assms(1)] by (auto simp: len sum_bytes_def)
qed

section \<open>The operations keep the accounts\<close>

text \<open>
  Putting a partition (back) in memory, stamped with a new tick or under its old one.
\<close>

lemma put_core:
  assumes "cache_core b" and "part_inv p" and "\<not> evicted b key"
    and stamp: "(pa_last_used p = bu_clock b \<and> bu_clock b' = bu_clock b + 1) \<or>
      (bu_clock b' = bu_clock b \<and> (\<exists>q. parts b key = Some q \<and> pa_last_used q = pa_last_used p))"
    and put: "bu_partitions b' = AList.update key p (bu_partitions b)"
    and "bu_meta b' = bu_meta b"
    and "bu_used b' = pa_bytes p + sum_bytes (AList.delete key (bu_partitions b))"
  shows "cache_core b'"
proof -
  note core = cache_coreD [OF assms(1)]
  have ev: "evicted b' = evicted b" using assms(6) by (auto simp: evicted_def meta_of_def)
  have parts: "parts b' k = (if k = key then Some p else parts b k)" for k
    by (simp add: parts_def put)
  have fresh: "pa_last_used q \<noteq> pa_last_used p" if "k \<noteq> key" "parts b k = Some q" for k q
    using stamp core(4) [OF that(2)] core(6) [OF that(2)] that(1) by fastforce
  have old: "pa_last_used q < bu_clock b'" if "parts b k = Some q" for k q
    using stamp core(4) [OF that] by auto
  have new: "pa_last_used p < bu_clock b'"
    using stamp core(4) by fastforce
  show ?thesis
    unfolding cache_core_def
  proof (intro conjI allI impI)
    show "distinct (map fst (bu_partitions b'))" by (simp add: put distinct_update core(1))
    show "bu_used b' = sum_bytes (bu_partitions b')" by (simp add: put sum_bytes_update core(1) assms(7))
  next
    fix k q assume "parts b' k = Some q"
    then show "part_inv q" "pa_last_used q < bu_clock b'" "\<not> evicted b' k"
      using core(3,5) old new assms(2,3) by (auto simp only: parts ev option.inject split: if_splits)
  next
    fix k1 p1 k2 p2
    assume "parts b' k1 = Some p1" "parts b' k2 = Some p2" "pa_last_used p1 = pa_last_used p2"
    then show "k1 = k2"
      using core(6) fresh by (cases "k1 = key"; cases "k2 = key") (simp_all add: parts, metis+)
  qed
qed

lemma delete_sum:
  "cache_core b \<Longrightarrow> parts b key = Some p \<Longrightarrow> bu_used b = pa_bytes p + sum_bytes (AList.delete key (bu_partitions b))"
  using sum_bytes_delete [OF cache_coreD(1), of b key p] by (simp add: cache_coreD(2) parts_def)

lemma update_shorter: "map_of al k \<noteq> None \<Longrightarrow> length (AList.update k v al) = length al"
  by (induction al) auto

lemma search_inv:
  assumes "cache_inv b" and "search_filtered select F i q query k keep b = (r, c)"
  shows "cache_inv c"
proof (cases "parts b (i, q)")
  case None
  with assms show ?thesis by (simp add: search_filtered_def parts_def)
next
  case (Some p)
  let ?p = "p\<lparr>pa_last_used := bu_clock b\<rparr>"
  have core: "cache_core b" using assms(1) by (simp add: cache_inv_def)
  have c: "c = b\<lparr>bu_clock := bu_clock b + 1, bu_partitions := AList.update (i, q) ?p (bu_partitions b)\<rparr>"
    using assms(2) Some by (auto simp: search_filtered_def tick_def parts_def Let_def)
  have "cache_core c"
    by (rule put_core [OF core, of ?p "(i, q)"])
      (use cache_coreD(3,5) [OF core Some] delete_sum [OF core Some] in \<open>simp_all add: c\<close>)
  with assms(1) Some show ?thesis by (simp add: cache_inv_def c parts_def update_shorter)
qed

lemma remove_inv:
  assumes "cache_inv b"
  shows "cache_inv (index_remove i q x b)"
proof (cases "parts b (i, q)")
  case None
  with assms show ?thesis by (simp add: index_remove_def parts_def)
next
  case (Some p)
  have core: "cache_core b" using assms(1) by (simp add: cache_inv_def)
  obtain n p' where op: "partition_remove x p = (n, p')" by fastforce
  note rem = partition_remove [OF cache_coreD(3) [OF core Some] op]
  let ?c = "b\<lparr>bu_partitions := AList.update (i, q) p' (bu_partitions b), bu_used := bu_used b - n\<rparr>"
  have "cache_core ?c"
    by (rule put_core [OF core, of p' "(i, q)"])
      (use rem cache_coreD(5) [OF core Some] delete_sum [OF core Some] Some in simp_all)
  moreover have "index_remove i q x b = (if 0 < n then on_meta i (\<lambda>m. case map_of (im_totals m) q of
                 None \<Rightarrow> m | Some t \<Rightarrow> set_total q (t - 1) m) ?c else ?c)"
    using Some op by (simp add: index_remove_def parts_def Let_def)
  ultimately have "cache_core (index_remove i q x b)"
    by (auto intro!: on_meta_core simp: set_total_def split: option.splits)
  then show ?thesis
    using assms Some op by (auto simp: cache_inv_def index_remove_def parts_def update_shorter Let_def)
qed

lemma upsert_inv:
  assumes "cache_inv b" and "index_upsert F i q x v b = (r, c)"
  shows "cache_inv c"
proof (cases "parts b (i, q)")
  case None
  with assms show ?thesis by (simp add: index_upsert_def parts_def)
next
  case (Some p)
  have core: "cache_core b" using assms(1) by (simp add: cache_inv_def)
  obtain d p1 where op: "partition_upsert F x v p = (d, p1)" by fastforce
  note up = partition_upsert [OF cache_coreD(3) [OF core Some] op]
  let ?p = "p1\<lparr>pa_last_used := bu_clock b\<rparr>"
  let ?b = "b\<lparr>bu_clock := bu_clock b + 1, bu_partitions := AList.update (i, q) ?p (bu_partitions b),
      bu_used := nat (int (bu_used b) + d)\<rparr>"
  define b1 where "b1 = (if pa_positions p x \<noteq> None then ?b
    else on_meta i (\<lambda>m. set_total q (total_of m q + 1) m) ?b)"
  have c: "c = (if bu_used b1 > bu_limit b1 then snd (make_room 0 (i, q) b1) else b1)"
    using assms(2) Some op by (auto simp: index_upsert_def tick_def parts_def Let_def b1_def)
  have "cache_core ?b"
    by (rule put_core [OF core, of ?p "(i, q)"])
      (use up cache_coreD(5) [OF core Some] delete_sum [OF core Some] in auto)
  then have core1: "cache_core b1"
    by (auto simp: b1_def set_total_def intro!: on_meta_core)
  show ?thesis
  proof (cases "bu_used b1 > bu_limit b1")
    case False
    with core1 c show ?thesis by (simp add: cache_inv_def)
  next
    case True
    obtain ok c' where mr: "make_room 0 (i, q) b1 = (ok, c')" by fastforce
    with c True have "c = c'" by simp
    with make_room_evictions [OF mr] lone_partition [of c "(i, q)"] evictions(6) [OF _ core1] show ?thesis
      by (auto simp: cache_inv_def split: if_splits)
  qed
qed

lemma build_partition: "part_inv (build_partition F vs)
  \<and> contents (build_partition F vs) = map_of (rev (map (\<lambda>(x, v). (x, map (f_to_f16 F) v)) vs))"
proof (induction vs rule: rev_induct)
  case (snoc p vs)
  obtain x v where p: "p = (x, v)" by fastforce
  obtain d q where "partition_upsert F x v (build_partition F vs) = (d, q)" by fastforce
  with partition_upsert [OF conjunct1 [OF snoc] this] snoc show ?case
    by (simp add: p build_partition_def)
qed (simp add: build_partition_def)

text \<open>The two ends of a hydration, in terms of the state behind the old partition's removal.\<close>

lemma hydrate_cases:
  assumes "hydrate_partition F i q vs b = (r, c)" and core: "cache_core b"
  obtains (refused) b1 where "r \<noteq> Inr ()" "c = on_meta i (mark_evicted q) b1"
      "cache_core b1" "parts b1 = (parts b)((i, q) := None)" "bu_limit b1 = bu_limit b"
      "bu_used b1 \<le> bu_used b" "length (bu_partitions b1) \<le> length (bu_partitions b)"
  | (fits) b1 b2 p where "r = Inr ()" "cache_core b1" "parts b1 = (parts b)((i, q) := None)"
      "bu_limit b1 = bu_limit b" "bu_clock b1 = bu_clock b + 1" "evicted b1 = evicted b"
      "make_room (pa_bytes p) (i, q) b1 = (True, b2)"
      "p = (build_partition F vs)\<lparr>pa_last_used := bu_clock b\<rparr>" "pa_bytes p \<le> bu_limit b"
      "c = on_meta i (unmark_evicted q) (b2\<lparr>bu_used := bu_used b2 + pa_bytes p,
         bu_partitions := AList.update (i, q) p (bu_partitions b2)\<rparr>)"
proof -
  let ?p = "(build_partition F vs)\<lparr>pa_last_used := bu_clock b\<rparr>"
  let ?t = "take_out (i, q) (b\<lparr>bu_clock := bu_clock b + 1\<rparr>)"
  define b1 where "b1 = on_meta i (\<lambda>m. set_total q (max (total_of m q) (length (pa_vectors (build_partition F vs)))) m) ?t"
  have "cache_core (b\<lparr>bu_clock := bu_clock b + 1\<rparr>)"
    using core unfolding cache_core_def parts_def evicted_def meta_of_def by (auto simp: less_Suc_eq)
  then have core1: "cache_core b1"
    unfolding b1_def by (intro on_meta_core take_out_core) (auto simp: set_total_def)
  have parts1: "parts b1 = (parts b)((i, q) := None)" by (simp add: b1_def) (simp add: parts_def)
  have misc: "bu_limit b1 = bu_limit b" "bu_clock b1 = bu_clock b + 1"
    by (simp_all add: b1_def)
  have ev1: "evicted b1 = evicted b"
    by (rule ext) (simp add: b1_def evicted_def set_total_def, simp add: meta_of_def)
  have used: "bu_used b1 \<le> bu_used b" "length (bu_partitions b1) \<le> length (bu_partitions b)"
    by (auto simp: b1_def take_out_def AList.delete_eq split: option.split)
  have run: "hydrate_partition F i q vs b =
     (if pa_bytes ?p > bu_limit b1 then (Inl (LargerThanBudget (pa_bytes ?p) (bu_limit b1)), on_meta i (mark_evicted q) b1)
      else let b2 = snd (make_room (pa_bytes ?p) (i, q) b1) in
        (Inr (), on_meta i (unmark_evicted q) (b2\<lparr>bu_used := bu_used b2 + pa_bytes ?p,
           bu_partitions := AList.update (i, q) ?p (bu_partitions b2)\<rparr>)))"
    by (simp add: hydrate_partition_def tick_def Let_def b1_def)
  show thesis
  proof (cases "pa_bytes ?p > bu_limit b1")
    case True
    with assms(1) run have "r \<noteq> Inr ()" "c = on_meta i (mark_evicted q) b1" by auto
    with core1 parts1 misc used show thesis by (intro refused)
  next
    case False
    obtain ok b2 where mr: "make_room (pa_bytes ?p) (i, q) b1 = (ok, b2)" by fastforce
    have ok
    proof (rule ccontr)
      assume "\<not> ok"
      from make_room_evictions [OF mr] this have ev: "evictions (i, q) b1 b2" "victim_of (i, q) b2 = None" by auto
      with lone_partition [OF evictions(6) [OF ev(1) core1]] evictions(3) [OF ev(1)] parts1
      have "bu_used b2 = 0" by simp
      with make_room_evictions [OF mr] \<open>\<not> ok\<close> False evictions(1) [OF ev(1)] show False by simp
    qed
    with mr assms(1) run False core1 parts1 misc ev1 show thesis
      by (intro fits [of b1 ?p b2]) (auto simp: Let_def)
  qed
qed

lemma hydrate_inv:
  assumes "cache_inv b" and "hydrate_partition F i q vs b = (r, c)"
  shows "cache_inv c"
proof -
  have core: "cache_core b" using assms(1) by (simp add: cache_inv_def)
  from assms(2) core show ?thesis
  proof (cases rule: hydrate_cases)
    case (refused b1)
    then have "cache_core c" by (auto intro!: on_meta_core simp: mark_evicted_def)
    with refused assms(1) show ?thesis by (auto simp: cache_inv_def)
  next
    case (fits b1 b2 p)
    let ?c = "b2\<lparr>bu_used := bu_used b2 + pa_bytes p, bu_partitions := AList.update (i, q) p (bu_partitions b2)\<rparr>"
    from make_room_evictions [OF fits(7)]
    have ev: "evictions (i, q) b1 b2" and room: "bu_used b2 + pa_bytes p \<le> bu_limit b2" by auto
    have core2: "cache_core b2" using evictions(6) [OF ev fits(2)] .
    have absent: "parts b2 (i, q) = None" using evictions(3) [OF ev] fits(3) by simp
    have stamp: "pa_last_used p' \<noteq> bu_clock b" if "parts b2 k = Some p'" for k p'
      using evictions(5) [OF ev, of k] that fits(3) cache_coreD(4) [OF core, of k p'] by (auto split: if_splits)
    have "cache_core c"
      unfolding cache_core_def
    proof (intro conjI allI impI)
      show "distinct (map fst (bu_partitions c))"
        using cache_coreD(1) [OF core2] by (simp add: fits(10) distinct_update)
      show "bu_used c = sum_bytes (bu_partitions c)"
        using absent cache_coreD(1,2) [OF core2] by (simp add: fits(10) sum_bytes_update parts_def)
    next
      fix k p' assume "parts c k = Some p'"
      then have k: "if k = (i, q) then p' = p else parts b2 k = Some p'"
        by (simp add: fits(10) parts_def split: if_splits)
      show "part_inv p'" using k build_partition fits(8) cache_coreD(3) [OF core2] by (auto split: if_splits)
      show "pa_last_used p' < bu_clock c"
        using k fits(5,8,10) evictions(2) [OF ev] cache_coreD(4) [OF core2] by (auto split: if_splits)
      show "\<not> evicted c k"
        using k cache_coreD(5) [OF core2, of k p']
        by (cases k) (auto simp: fits(10) evicted_def unmark_evicted_def meta_of_def [of "b2\<lparr>bu_used := _, bu_partitions := _\<rparr>"]
            meta_of_def [of b2] split: if_splits)
    next
      fix k1 p1 k2 p2
      assume "parts c k1 = Some p1" "parts c k2 = Some p2" "pa_last_used p1 = pa_last_used p2"
      moreover have "parts c k = (if k = (i, q) then Some p else parts b2 k)" for k
        by (simp add: fits(10) parts_def)
      moreover have "pa_last_used p = bu_clock b" by (simp add: fits(8))
      ultimately show "k1 = k2"
        using stamp cache_coreD(6) [OF core2] by (metis option.inject)
    qed
    with room show ?thesis by (simp add: cache_inv_def fits(10))
  qed
qed

lemma meta_inv: "cache_inv b \<Longrightarrow> im_evicted (f (meta_of b i)) = im_evicted (meta_of b i) \<Longrightarrow> cache_inv (on_meta i f b)"
  by (auto simp: cache_inv_def intro!: on_meta_core)

lemma with_budget_inv: "cache_inv b \<Longrightarrow> cache_inv (snd (with_budget b))"
proof -
  assume "cache_inv b"
  then have "cache_inv (b\<lparr>bu_next_index := bu_next_index b + 1\<rparr>)"
    unfolding cache_inv_def cache_core_def parts_def evicted_def meta_of_def by auto
  then show ?thesis by (simp add: with_budget_def meta_inv)
qed

lemma drop_inv:
  assumes "cache_inv b"
  shows "cache_inv (drop_partition i q b)"
proof -
  have core: "cache_core b" using assms by (simp add: cache_inv_def)
  then have "cache_core (drop_partition i q b)"
    unfolding drop_partition_def by (intro on_meta_core take_out_core) (auto simp: unmark_evicted_def)
  moreover have "length (AList.delete (i, q) (bu_partitions b)) \<le> length (bu_partitions b)"
    by (simp add: AList.delete_eq)
  moreover have "bu_used (take_out (i, q) b) \<le> bu_used b"
    by (simp add: take_out_def split: option.split)
  ultimately show ?thesis using assms by (auto simp: cache_inv_def drop_partition_def)
qed

section \<open>Whatever is done with the cache\<close>

inductive cache_reachable :: "selection \<Rightarrow> floats \<Rightarrow> nat \<Rightarrow> budget \<Rightarrow> bool" for select F limit where
  start: "cache_reachable select F limit (budget_new limit)"
| index: "cache_reachable select F limit b \<Longrightarrow> cache_reachable select F limit (snd (with_budget b))"
| hydrate: "cache_reachable select F limit b \<Longrightarrow> cache_reachable select F limit (snd (hydrate_partition F i q vs b))"
| upsert: "cache_reachable select F limit b \<Longrightarrow> cache_reachable select F limit (snd (index_upsert F i q x v b))"
| remove: "cache_reachable select F limit b \<Longrightarrow> cache_reachable select F limit (index_remove i q x b)"
| drop: "cache_reachable select F limit b \<Longrightarrow> cache_reachable select F limit (drop_partition i q b)"
| count: "cache_reachable select F limit b \<Longrightarrow> cache_reachable select F limit (set_partition_total i q n b)"
| search: "cache_reachable select F limit b \<Longrightarrow> cache_reachable select F limit (snd (search_filtered select F i q query k keep b))"

lemma cache_reachable_inv: "cache_reachable select F limit b \<Longrightarrow> cache_inv b"
proof (induction rule: cache_reachable.induct)
  case start
  show ?case by (simp add: cache_inv_def cache_core_def budget_new_def parts_def sum_bytes_def)
next
  case (hydrate b i q vs)
  then show ?case using hydrate_inv by (metis prod.collapse)
next
  case (upsert b i q x v)
  then show ?case using upsert_inv by (metis prod.collapse)
next
  case (search b i q query k keep)
  then show ?case using search_inv by (metis prod.collapse)
qed (auto intro!: with_budget_inv remove_inv drop_inv meta_inv simp: set_partition_total_def set_total_def)

end
