(* ===== verification/Vector_Search.thy ===== *)
theory Vector_Search
  imports Vector_Cache
begin

text \<open>
  What a search returns: the best scores, by selection over a partition in memory or by the bounded
  collector over streamed vectors.
\<close>

section \<open>The best of a multiset\<close>

definition is_best :: "nat \<Rightarrow> 'a::linorder multiset \<Rightarrow> 'a multiset \<Rightarrow> bool" where
  "is_best k X M \<longleftrightarrow> size M = min k (size X) \<and> (\<exists>R. X = M + R \<and> (\<forall>a\<in>#M. \<forall>b\<in>#R. b \<le> a))"

lemma is_best_sorted:
  assumes "is_best k (mset xs) M"
  shows "M = mset (take k (rev (sort xs)))"
proof -
  obtain R where R: "mset xs = M + R" "\<forall>a\<in>#M. \<forall>b\<in>#R. b \<le> a" and size_M: "size M = min k (length xs)"
    using assms by (auto simp: is_best_def)
  let ?good = "sorted_list_of_multiset M" and ?rest = "sorted_list_of_multiset R"
  have "sort xs = ?rest @ ?good"
    by (rule properties_for_sort) (use R in \<open>auto simp: sorted_append\<close>)
  moreover have "length ?good = min k (length xs)"
    by (metis size_M mset_sorted_list_of_multiset size_mset)
  moreover have "take k (rev (sort xs)) = take (min k (length xs)) (rev (sort xs))"
    by (simp add: min_def)
  ultimately have "take k (rev (sort xs)) = rev ?good" by simp
  then show ?thesis by simp
qed

lemma is_best_empty [simp]: "is_best k {#} {#}"
  by (simp add: is_best_def)

text \<open>One more value: it enters when there is room, or in place of the least when it is greater.\<close>

lemma is_best_more:
  assumes "is_best k X M" and "size M < k"
  shows "is_best k (add_mset x X) (add_mset x M)"
proof -
  obtain R where R: "X = M + R" and size: "size M = min k (size X)"
    using assms(1) unfolding is_best_def by blast
  have "size M = size X" using size assms(2) by linarith
  then have "size R = 0" unfolding R by simp
  then have "X = M" unfolding R by simp
  with assms(2) show ?thesis by (simp add: is_best_def)
qed

lemma is_best_skip:
  assumes "is_best k X M" and "size M = k" and "\<forall>a\<in>#M. x \<le> a"
  shows "is_best k (add_mset x X) M"
proof -
  obtain R where R: "X = M + R" "\<forall>a\<in>#M. \<forall>b\<in>#R. b \<le> a" using assms(1) by (auto simp: is_best_def)
  show ?thesis
    unfolding is_best_def
  proof (intro conjI exI)
    show "size M = min k (size (add_mset x X))" using assms(2) R(1) by simp
    show "add_mset x X = M + add_mset x R" using R(1) by simp
    show "\<forall>a\<in>#M. \<forall>b\<in>#add_mset x R. b \<le> a" using R(2) assms(3) by simp
  qed
qed

lemma is_best_swap:
  assumes "is_best k X (add_mset m M)" and "size M + 1 = k" and "\<forall>a\<in>#M. m \<le> a" and "m < x"
  shows "is_best k (add_mset x X) (add_mset x M)"
proof -
  obtain R where "X = add_mset m M + R" "\<forall>a\<in>#add_mset m M. \<forall>b\<in>#R. b \<le> a"
    using assms(1) by (auto simp: is_best_def)
  moreover have "m \<le> a" if "a \<in># add_mset x M" for a
    using that assms(3,4) by auto
  moreover have "b \<le> a" if "a \<in># add_mset x M" "b \<in># R" for a b
    using that assms(4) calculation by fastforce
  ultimately have "size (add_mset x M) = min k (size (add_mset x X)) \<and> add_mset x X = add_mset x M + add_mset m R
      \<and> (\<forall>a\<in>#add_mset x M. \<forall>b\<in>#add_mset m R. b \<le> a)"
    using assms(2) by auto
  then show ?thesis unfolding is_best_def by blast
qed

section \<open>Sorting and selecting\<close>

lemma mset_sort_best_first [simp]: "mset (sort_best_first f xs) = mset xs"
  by (simp add: sort_best_first_def)

lemma le_total_key: "total_key x \<le> total_key y \<longleftrightarrow> x \<le> y"
  by (simp add: less_eq_f32_def)

lemma sorted_rev_take: "sorted (rev (take k (rev (sort xs))))"
  by (simp add: take_rev sorted_wrt_drop)

lemma sort_best_first_scores: "map f (sort_best_first f xs) = rev (sort (map f xs))"
proof -
  have "sorted (map (\<lambda>x. - total_key (f x)) (sort_best_first f xs))"
    unfolding sort_best_first_def by (rule sorted_sort_key)
  then have "sorted (rev (map f (sort_best_first f xs)))"
    by (simp add: sorted_wrt_rev sorted_wrt_map sorted_map le_total_key)
  then have "sort (map f xs) = rev (map f (sort_best_first f xs))"
    by (intro properties_for_sort) (simp_all add: mset_map)
  then show ?thesis by simp
qed

lemma selection_is_best:
  assumes "selects select" and "0 < k" "k \<le> length xs"
  shows "is_best k (image_mset fst (mset xs)) (image_mset fst (mset (take k (select (k - 1) xs))))"
    and "mset (take k (select (k - 1) xs)) \<subseteq># mset xs"
proof -
  let ?ys = "select (k - 1) xs"
  have sel: "mset ?ys = mset xs" "\<And>i. i < length xs \<Longrightarrow> i \<le> k - 1 \<Longrightarrow> fst (?ys ! (k - 1)) \<le> fst (?ys ! i)"
      "\<And>i. i < length xs \<Longrightarrow> k - 1 \<le> i \<Longrightarrow> fst (?ys ! i) \<le> fst (?ys ! (k - 1))"
    using assms by (auto simp: selects_def)
  have len: "length ?ys = length xs" using sel(1) by (metis size_mset)
  have split: "mset xs = mset (take k ?ys) + mset (drop k ?ys)"
    by (metis append_take_drop_id mset_append sel(1))
  have "fst b \<le> fst a" if a: "a \<in> set (take k ?ys)" and b: "b \<in> set (drop k ?ys)" for a b
  proof -
    obtain i where "a = ?ys ! i" "i < k" using a by (auto simp: set_conv_nth)
    moreover obtain j where "b = ?ys ! (k + j)" "k + j < length xs"
      using b len assms(3) by (auto simp: set_conv_nth)
    moreover have "i \<le> k - 1" "k - 1 \<le> k + j" "i < length xs"
      using calculation(2) assms(3) by simp_all
    ultimately show ?thesis using sel(2) [of i] sel(3) [of "k + j"] by (metis order.trans)
  qed
  with split assms(3) len
  show "is_best k (image_mset fst (mset xs)) (image_mset fst (mset (take k ?ys)))"
    unfolding is_best_def by (auto intro!: exI [of _ "image_mset fst (mset (drop k ?ys))"])
  show "mset (take k ?ys) \<subseteq># mset xs" using split by simp
qed

section \<open>Search in a partition\<close>

definition candidates :: "floats \<Rightarrow> partition \<Rightarrow> f32 list \<Rightarrow> (string \<Rightarrow> bool) \<Rightarrow> (string \<times> f32) list" where
  "candidates F p query keep =
     map (\<lambda>s. (sv_id s, score_of F query s)) (filter (matches query keep) (pa_vectors p))"

lemma scored_candidates:
  "map (\<lambda>(score, i). (sv_id (pa_vectors p ! i), score))
     (map (\<lambda>(i, s). (score_of F query s, i)) (filter (\<lambda>(_, s). matches query keep s) (enumerate 0 (pa_vectors p))))
   = candidates F p query keep"
proof -
  let ?l = "filter (matches query keep \<circ> snd) (enumerate 0 (pa_vectors p))"
  have l: "filter (\<lambda>(_, s). matches query keep s) (enumerate 0 (pa_vectors p)) = ?l"
    by (rule filter_cong) auto
  have cs: "candidates F p query keep = map (\<lambda>s. (sv_id s, score_of F query s)) (map snd ?l)"
    by (simp add: candidates_def flip: filter_map)
  have "pa_vectors p ! i = s" if "(i, s) \<in> set ?l" for i s
    using that by (auto simp: in_set_enumerate_eq)
  then have "map ((\<lambda>(score, i). (sv_id (pa_vectors p ! i), score)) \<circ> (\<lambda>(i, s). (score_of F query s, i))) ?l
      = map ((\<lambda>s. (sv_id s, score_of F query s)) \<circ> snd) ?l"
    by (intro map_cong) auto
  then show ?thesis unfolding l cs map_map .
qed

lemma top_k_best:
  assumes "selects select"
  shows "map snd (top_k select F p query k keep) = take k (rev (sort (map snd (candidates F p query keep))))
    \<and> mset (top_k select F p query k keep) \<subseteq># mset (candidates F p query keep)"
proof -
  define sc where "sc = map (\<lambda>(i, s). (score_of F query s, i))
    (filter (\<lambda>(_, s). matches query keep s) (enumerate 0 (pa_vectors p)))"
  let ?g = "\<lambda>(score, i). (sv_id (pa_vectors p ! i), score)"
  define n where "n = min k (length sc)"
  have cs: "candidates F p query keep = map ?g sc" by (simp only: sc_def scored_candidates)
  have scores: "map snd (candidates F p query keep) = map fst sc" by (auto simp: cs)
  show ?thesis
  proof (cases "n = 0")
    case True
    then have "top_k select F p query k keep = []"
      by (simp add: top_k_def sc_def [symmetric] n_def [symmetric] Let_def)
    with True show ?thesis by (auto simp: cs n_def min_def split: if_splits)
  next
    case False
    let ?t = "take n (select (n - 1) sc)"
    have hits: "top_k select F p query k keep = map ?g (sort_best_first fst ?t)"
      using False by (simp add: top_k_def sc_def [symmetric] n_def [symmetric] Let_def) (simp add: n_def)
    have n: "0 < n" "n \<le> length sc" using False by (simp_all add: n_def)
    note best = selection_is_best [OF assms n]
    have "mset (map fst ?t) = mset (take n (rev (sort (map fst sc))))"
      using is_best_sorted [of n "map fst sc"] best(1) by simp
    then have "sort (map fst ?t) = rev (take n (rev (sort (map fst sc))))"
      by (intro properties_for_sort) (simp_all add: sorted_rev_take)
    moreover have "take n (rev (sort (map fst sc))) = take k (rev (sort (map fst sc)))"
      by (simp add: n_def min_def)
    moreover have "map snd (top_k select F p query k keep) = map fst (sort_best_first fst ?t)"
      by (auto simp: hits)
    ultimately have "map snd (top_k select F p query k keep) = take k (rev (sort (map fst sc)))"
      by (simp add: sort_best_first_scores)
    moreover have "mset (top_k select F p query k keep) \<subseteq># mset (candidates F p query keep)"
      using best(2) by (simp add: hits cs image_mset_subseteq_mono)
    ultimately show ?thesis by (simp add: scores)
  qed
qed

section \<open>The collector\<close>

definition collect_all :: "heap_top \<Rightarrow> nat \<Rightarrow> (string \<times> f32) list \<Rightarrow> collector" where
  "collect_all peek k cs = fold (\<lambda>(vid, score). collector_push peek vid score) cs (collector_new k)"

definition collected :: "(string \<times> f32) list \<Rightarrow> collector \<Rightarrow> bool" where
  "collected cs c \<longleftrightarrow> is_best (tk_k c) (mset (map snd cs)) (mset (map fst (tk_heap c)))
     \<and> mset (map prod.swap (tk_heap c)) \<subseteq># mset cs"

lemma push_collected:
  assumes "lowest_on_top peek" and "collected cs c"
  shows "collected (cs @ [(vid, score)]) (collector_push peek vid score c)"
proof -
  let ?h = "tk_heap c" and ?top = "tk_heap c ! peek (tk_heap c)"
  have best: "is_best (tk_k c) (mset (map snd cs)) (mset (map fst ?h))"
    and sub: "mset (map prod.swap ?h) \<subseteq># mset cs"
    using assms(2) by (simp_all add: collected_def)
  have len: "length ?h \<le> tk_k c" using best by (simp add: is_best_def)
  have sub': "mset (map prod.swap h) \<subseteq># mset cs" if "mset h \<subseteq># mset ?h" for h
    using sub image_mset_subseteq_mono [OF that, of prod.swap] by (simp add: subset_mset.order_trans)
  have more: "M \<subseteq># add_mset y (mset cs)" if "M \<subseteq># mset cs" for M y
    using that by (metis add_mset_add_single mset_subset_eq_add_left subset_mset.order_trans)
  show ?thesis
  proof (cases "length ?h < tk_k c")
    case True
    then have "collector_push peek vid score c = c\<lparr>tk_heap := ?h @ [(score, vid)]\<rparr>"
      by (auto simp: collector_push_def accepts_def)
    with is_best_more [OF best] True sub show ?thesis
      by (simp add: collected_def)
  next
    case full: False
    then have size: "length ?h = tk_k c" using len by simp
    show ?thesis
    proof (cases "accepts peek score c")
      case False
      have "score \<le> a" if "a \<in># mset (map fst ?h)" for a
      proof -
        have "?h \<noteq> []" using that by auto
        then have "score \<le> fst ?top" "fst ?top \<le> a"
          using False full that assms(1) size by (auto simp: accepts_def lowest_on_top_def not_less split: if_splits)
        then show ?thesis by simp
      qed
      with is_best_skip [OF best] size False sub show ?thesis
        by (simp add: collected_def collector_push_def more)
    next
      case True
      then have ne: "?h \<noteq> []" and less: "fst ?top < score" using full by (auto simp: accepts_def split: if_splits)
      then have top: "peek ?h < length ?h" "\<forall>x\<in>set ?h. fst ?top \<le> fst x"
        using assms(1) by (auto simp: lowest_on_top_def)
      let ?h' = "swap_remove (peek ?h) ?h"
      have heap: "mset ?h = add_mset ?top (mset ?h')" using mset_swap_remove [OF top(1)] by simp
      have push: "collector_push peek vid score c = c\<lparr>tk_heap := ?h' @ [(score, vid)]\<rparr>"
        using True size by (simp add: collector_push_def Let_def)
      have "is_best (tk_k c) (mset (map snd cs)) (add_mset (fst ?top) (mset (map fst ?h')))"
        using best by (simp add: heap)
      moreover have "\<forall>a\<in>#mset (map fst ?h'). fst ?top \<le> a"
      proof -
        have "set ?h = insert ?top (set ?h')" by (metis heap set_mset_add_mset_insert set_mset_mset)
        then have "set ?h' \<subseteq> set ?h" by blast
        with top(2) have "\<forall>x\<in>set ?h'. fst ?top \<le> fst x" by blast
        then show ?thesis by simp
      qed
      moreover have "Suc (tk_k c - Suc 0) = tk_k c" using size ne by (metis Suc_pred length_greater_0_conv One_nat_def)
      ultimately have "is_best (tk_k c) (add_mset score (mset (map snd cs))) (add_mset score (mset (map fst ?h')))"
        using less size ne by (intro is_best_swap [where m = "fst ?top"]) simp_all
      moreover have "mset (map prod.swap ?h') \<subseteq># mset cs" using heap by (intro sub') simp
      ultimately show ?thesis by (simp add: collected_def push)
    qed
  qed
qed

lemma collect_all_collected: "lowest_on_top peek \<Longrightarrow> collected cs (collect_all peek k cs)"
proof (induction cs rule: rev_induct)
  case Nil
  show ?case by (simp add: collect_all_def collected_def collector_new_def)
next
  case (snoc x cs)
  then show ?case by (cases x) (simp add: collect_all_def push_collected)
qed

lemma collector_keeps_k: "tk_k (collect_all peek k cs) = k"
  by (induction cs rule: rev_induct) (auto simp: collect_all_def collector_new_def collector_push_def Let_def)

lemma collector_best:
  assumes "lowest_on_top peek"
  shows "map snd (into_sorted (collect_all peek k cs)) = take k (rev (sort (map snd cs)))
    \<and> mset (into_sorted (collect_all peek k cs)) \<subseteq># mset cs"
proof -
  let ?c = "collect_all peek k cs"
  have c: "collected cs ?c" using collect_all_collected [OF assms] .
  have "mset (map fst (tk_heap ?c)) = mset (take k (rev (sort (map snd cs))))"
    using c is_best_sorted [of k "map snd cs"] by (simp add: collected_def collector_keeps_k)
  then have "sort (map fst (tk_heap ?c)) = rev (take k (rev (sort (map snd cs))))"
    by (intro properties_for_sort) (simp_all add: sorted_rev_take)
  moreover have "map snd (map (\<lambda>(score, vid). (vid, score)) (tk_heap ?c)) = map fst (tk_heap ?c)"
    by auto
  ultimately have "map snd (into_sorted ?c) = take k (rev (sort (map snd cs)))"
    by (simp only: into_sorted_def sort_best_first_scores rev_rev_ident)
  moreover have "into_sorted ?c = sort_best_first snd (map prod.swap (tk_heap ?c))"
    unfolding into_sorted_def by (rule arg_cong [where f = "sort_best_first snd"]) (auto simp: prod.swap_def)
  then have "mset (into_sorted ?c) \<subseteq># mset cs" using c by (simp add: collected_def)
  ultimately show ?thesis by simp
qed

section \<open>What holds of every cache\<close>

text \<open>
  C33. Whatever is done with indexes on a budget, the bytes counted as used are the bytes of the
  partitions in memory, each partition finds every vector it holds under its id and nothing else, no
  partition in memory is marked as evicted, and the budget is exceeded by a lone partition only.
\<close>

theorem vector_cache_accounts:
  assumes "cache_reachable select F limit b"
  shows "bu_used b = sum_list (map (\<lambda>(_, p). sum_list (map held_bytes (pa_vectors p))) (bu_partitions b))
    \<and> (bu_used b \<le> bu_limit b \<or> length (bu_partitions b) \<le> 1)
    \<and> (\<forall>key p. map_of (bu_partitions b) key = Some p \<longrightarrow>
         snd key \<notin> set (im_evicted (meta_of b (fst key)))
         \<and> (\<forall>x i. pa_positions p x = Some i \<longleftrightarrow> i < length (pa_vectors p) \<and> sv_id (pa_vectors p ! i) = x))"
proof -
  have core: "cache_core b" and room: "bu_used b \<le> bu_limit b \<or> length (bu_partitions b) \<le> 1"
    using cache_reachable_inv [OF assms] by (simp_all add: cache_inv_def)
  have held: "part_inv p \<and> \<not> evicted b key" if "map_of (bu_partitions b) key = Some p" for key p
    using cache_coreD(3,5) [OF core] that by (simp add: parts_def)
  have "pa_bytes p = sum_list (map held_bytes (pa_vectors p))" if "(key, p) \<in> set (bu_partitions b)" for key p
    using held [of key p] that cache_coreD(1) [OF core] by (simp add: part_inv_def)
  then have "sum_bytes (bu_partitions b) = sum_list (map (\<lambda>(_, p). sum_list (map held_bytes (pa_vectors p))) (bu_partitions b))"
    unfolding sum_bytes_def by (intro arg_cong [where f = sum_list] map_cong) auto
  with cache_coreD(2) [OF core] have used: "bu_used b = \<dots>" by simp
  show ?thesis
    using held by (intro conjI allI impI used room) (auto simp: evicted_def part_inv_def)
qed

lemma meta_of_bu [simp]: "meta_of (b\<lparr>bu_used := n, bu_partitions := ps\<rparr>) = meta_of b"
  by (rule ext) (simp add: meta_of_def)

text \<open>The abstract cache: a partition in memory is a map from ids to (16-bit) vectors.\<close>

definition view :: "budget \<Rightarrow> nat \<times> string \<Rightarrow> (string \<Rightarrow> f16 list option) option" where
  "view b key = map_option contents (parts b key)"

lemma view_evictions: "evictions keep b c \<Longrightarrow> view c key \<in> {None, view b key} \<and> view c keep = view b keep"
  using evictions(3) [of keep b c] evictions(5) [of keep b c key] by (auto simp: view_def)

lemma view_hydrate:
  assumes "cache_inv b" and "hydrate_partition F i q vs b = (r, c)"
  shows "view c (i, q) = (if r = Inr () then Some (map_of (rev (map (\<lambda>(x, v). (x, map (f_to_f16 F) v)) vs))) else None)
    \<and> (key \<noteq> (i, q) \<longrightarrow> view c key \<in> {None, view b key} \<and> (r \<noteq> Inr () \<longrightarrow> view c key = view b key))"
proof -
  have core: "cache_core b" using assms(1) by (simp add: cache_inv_def)
  from assms(2) core show ?thesis
  proof (cases rule: hydrate_cases)
    case (refused b1)
    then show ?thesis by (simp add: view_def)
  next
    case (fits b1 b2 p)
    from make_room_evictions [OF fits(7)] have ev: "evictions (i, q) b1 b2" by simp
    have "parts c k = (if k = (i, q) then Some p else parts b2 k)" for k
      by (simp add: fits(10) parts_def)
    with fits(1,3,8) view_evictions [OF ev, of key] build_partition [of F vs] show ?thesis
      by (auto simp: view_def)
  qed
qed

lemma view_upsert:
  assumes "cache_inv b" and "index_upsert F i q x v b = (r, c)"
  shows "view c (i, q) = map_option (\<lambda>m. m(x \<mapsto> map (f_to_f16 F) v)) (view b (i, q))
    \<and> (r \<longleftrightarrow> view b (i, q) \<noteq> None) \<and> (\<not> r \<longrightarrow> c = b) \<and> (key \<noteq> (i, q) \<longrightarrow> view c key \<in> {None, view b key})"
proof (cases "parts b (i, q)")
  case None
  with assms(2) show ?thesis by (auto simp: index_upsert_def parts_def view_def)
next
  case (Some p)
  have core: "cache_core b" using assms(1) by (simp add: cache_inv_def)
  obtain d p1 where op: "partition_upsert F x v p = (d, p1)" by fastforce
  note up = partition_upsert [OF cache_coreD(3) [OF core Some] op]
  let ?b = "b\<lparr>bu_clock := bu_clock b + 1, bu_partitions := AList.update (i, q) (p1\<lparr>pa_last_used := bu_clock b\<rparr>) (bu_partitions b),
      bu_used := nat (int (bu_used b) + d)\<rparr>"
  define b1 where "b1 = (if pa_positions p x \<noteq> None then ?b
    else on_meta i (\<lambda>m. set_total q (total_of m q + 1) m) ?b)"
  have c: "c = (if bu_used b1 > bu_limit b1 then snd (make_room 0 (i, q) b1) else b1)" and r
    using assms(2) Some op by (auto simp: index_upsert_def tick_def parts_def Let_def b1_def)
  have b1: "view b1 k = (if k = (i, q) then Some ((contents p)(x \<mapsto> map (f_to_f16 F) v)) else view b k)" for k
    using up by (simp add: b1_def view_def parts_def on_meta_def)
  have vc: "view c k \<in> {None, view b1 k} \<and> view c (i, q) = view b1 (i, q)" for k
  proof (cases "bu_used b1 > bu_limit b1")
    case True
    then show ?thesis
      using view_evictions make_room_evictions by (metis c prod.collapse)
  qed (simp add: c)
  have "view b (i, q) = Some (contents p)" by (simp add: view_def Some)
  then show ?thesis using vc [of key] b1 [of key] b1 [of "(i, q)"] \<open>r\<close> by auto
qed

lemma view_remove:
  assumes "cache_inv b"
  shows "view (index_remove i q x b) = (view b)((i, q) := map_option (\<lambda>m. m(x := None)) (view b (i, q)))"
proof (cases "parts b (i, q)")
  case None
  then show ?thesis by (auto simp: index_remove_def parts_def view_def)
next
  case (Some p)
  have core: "cache_core b" using assms by (simp add: cache_inv_def)
  obtain n p' where op: "partition_remove x p = (n, p')" by fastforce
  have "parts (index_remove i q x b) = (parts b)((i, q) \<mapsto> p')"
    using Some op by (simp add: index_remove_def parts_def Let_def on_meta_def)
  with partition_remove [OF cache_coreD(3) [OF core Some] op] Some show ?thesis
    by (auto simp: view_def)
qed

lemma view_search:
  "search_filtered select F i q query k keep b = (r, c) \<Longrightarrow> view c = view b"
  by (auto simp: search_filtered_def tick_def view_def parts_def Let_def split: option.splits)

text \<open>
  C34. Hydrating, inserting, removing and searching refine the maps: a hydrated partition is the map of
  the vectors given (the last one of an id), an insert or a removal updates the map of its partition,
  a search changes nothing, and another partition stays as it is or leaves the memory.
\<close>

theorem vector_cache_refines_maps:
  assumes "cache_reachable select F limit b"
  shows "(\<forall>r c. hydrate_partition F i q vs b = (r, c) \<longrightarrow>
        view c (i, q) = (if r = Inr () then Some (map_of (rev (map (\<lambda>(x, v). (x, map (f_to_f16 F) v)) vs))) else None)
        \<and> (key \<noteq> (i, q) \<longrightarrow> view c key \<in> {None, view b key}))
    \<and> (\<forall>r c. index_upsert F i q x v b = (r, c) \<longrightarrow>
        view c (i, q) = map_option (\<lambda>m. m(x \<mapsto> map (f_to_f16 F) v)) (view b (i, q))
        \<and> (r \<longleftrightarrow> view b (i, q) \<noteq> None) \<and> (key \<noteq> (i, q) \<longrightarrow> view c key \<in> {None, view b key}))
    \<and> view (index_remove i q x b) = (view b)((i, q) := map_option (\<lambda>m. m(x := None)) (view b (i, q)))
    \<and> view (drop_partition i q b) = (view b)((i, q) := None)
    \<and> view (snd (search_filtered select F i q query k keep b)) = view b"
proof -
  note inv = cache_reachable_inv [OF assms]
  have drop: "view (drop_partition i q b) = (view b)((i, q) := None)"
    by (auto simp: drop_partition_def view_def)
  have search: "view (snd (search_filtered select F i q query k keep b)) = view b"
    using view_search by (metis prod.collapse)
  show ?thesis
    using view_hydrate [OF inv] view_upsert [OF inv]
    by (intro conjI allI impI view_remove [OF inv] drop search) blast+
qed

text \<open>
  Room for a partition is made by evicting those used least recently: whatever a hydration takes
  out of memory was used before everything that stays, and is marked as evicted.
\<close>

theorem least_recently_used_go_first:
  assumes "cache_reachable select F limit b" and "hydrate_partition F i q vs b = (Inr (), c)"
    and "map_of (bu_partitions b) gone = Some p" "map_of (bu_partitions c) gone = None"
    and "map_of (bu_partitions c) stays = Some p'" "stays \<noteq> (i, q)"
  shows "pa_last_used p < pa_last_used p' \<and> snd gone \<in> set (im_evicted (meta_of c (fst gone)))"
proof -
  have core: "cache_core b" using cache_reachable_inv [OF assms(1)] by (simp add: cache_inv_def)
  from assms(2) core show ?thesis
  proof (cases rule: hydrate_cases)
    case (fits b1 b2 new)
    from make_room_evictions [OF fits(7)] have ev: "evictions (i, q) b1 b2" by simp
    have c: "parts c k = (if k = (i, q) then Some new else parts b2 k)" for k
      by (simp add: fits(10) parts_def)
    have gone: "gone \<noteq> (i, q)" "parts b1 gone = Some p" "parts b2 gone = None"
      using assms(3,4) c [of gone] fits(3) by (auto simp: parts_def split: if_splits)
    have "parts b2 stays = Some p'"
      using assms(5,6) c [of stays] by (simp add: parts_def)
    then have "pa_last_used p < pa_last_used p'"
      using evictions_least_recent [OF ev fits(2) assms(6)] gone by blast
    moreover have "evicted b2 gone" using evictions(7) [OF ev, of gone] gone by simp
    then have "evicted c gone"
      using gone(1) by (cases gone) (auto simp: fits(10) evicted_def unmark_evicted_def)
    ultimately show ?thesis by (simp add: evicted_def)
  qed simp
qed

lemma distinct_hits: "mset hs \<subseteq># mset cs \<Longrightarrow> distinct (map fst cs) \<Longrightarrow> distinct (map fst hs)"
  by (metis distinct_append image_mset_subseteq_mono mset_append mset_eq_imp_distinct_iff mset_map
      mset_subset_eq_exists_conv ex_mset)

text \<open>
  C35. A search of a partition in memory answers with the \<open>k\<close> best scores among its vectors of the
  query's dimension that are in scope, best first and each under the id of its vector, no id twice; a
  partition out of memory is not searched.
\<close>

theorem search_returns_best:
  assumes "cache_reachable select F limit b" and "selects select"
  shows "case map_of (bu_partitions b) (i, q) of
      None \<Rightarrow> search_filtered select F i q query k keep b = (None, b)
    | Some p \<Rightarrow> \<exists>hits c. search_filtered select F i q query k keep b = (Some hits, c)
        \<and> map snd hits = take k (rev (sort (map snd (candidates F p query keep))))
        \<and> mset hits \<subseteq># mset (candidates F p query keep) \<and> distinct (map fst hits)"
proof (cases "map_of (bu_partitions b) (i, q)")
  case (Some p)
  have "part_inv p"
    using cache_reachable_inv [OF assms(1)] Some cache_coreD(3) [of b "(i, q)" p] by (simp add: cache_inv_def parts_def)
  then have "distinct (map fst (candidates F p query keep))"
    using part_inv_distinct by (auto simp: candidates_def comp_def distinct_map_filter)
  moreover have "top_k select F (p\<lparr>pa_last_used := t\<rparr>) query k keep = top_k select F p query k keep" for t
    by (simp add: top_k_def Let_def sort_best_first_def)
  ultimately show ?thesis
    using Some top_k_best [OF assms(2), of F p query k keep]
    by (auto simp: search_filtered_def tick_def Let_def dest: distinct_hits)
qed (simp add: search_filtered_def)

text \<open>
  Scoring the vectors one by one with the bounded collector finds the scores a search does,
  whatever the order of the heap and of the selection.
\<close>

theorem streamed_search_agrees:
  assumes "lowest_on_top peek" and "selects select"
  shows "map snd (into_sorted (collect_all peek k (candidates F p query keep)))
    = map snd (top_k select F p query k keep)"
  by (simp only: collector_best [OF assms(1)] top_k_best [OF assms(2)])

end
