(* ===== verification/Sample_Vectors.thy ===== *)
theory Sample_Vectors
  imports Vector_Search
begin

text \<open>
  Concrete vector caches: the theorems on them applied, and two states the code does not mean to be
  in. The arithmetic is a stand-in on the bits of a float; selection is by sorting.
\<close>

definition sample_floats :: floats where
  "sample_floats = \<lparr> f_of_f16 = (\<lambda>h. F32 (ucast h)), f_to_f16 = (\<lambda>x. ucast (f32_bits x)),
     f_add = (\<lambda>x y. F32 (f32_bits x + f32_bits y)), f_mul = (\<lambda>x y. F32 (f32_bits x * f32_bits y)),
     f_div = (\<lambda>x y. F32 (f32_bits x div f32_bits y)), f_sqrt = (\<lambda>x. x), f_sum_start = F32 0 \<rparr>"

definition by_sorting :: selection where
  "by_sorting n xs = sort_best_first fst xs"

lemma selects_by_sorting: "selects by_sorting"
  unfolding selects_def by_sorting_def
proof (intro allI impI conjI)
  fix n i and xs :: "(f32 \<times> nat) list" assume i: "n < length xs" "i < length xs"
  let ?s = "sort_best_first fst xs"
  have "sorted (rev (map fst ?s))" by (simp add: sort_best_first_scores)
  then have desc: "fst (?s ! k) \<le> fst (?s ! j)" if "j \<le> k" "k < length xs" for j k
    using that by (simp add: sorted_rev_iff_nth_mono flip: size_mset)
  show "i \<le> n \<Longrightarrow> fst (?s ! n) \<le> fst (?s ! i)" using desc i by blast
  show "n \<le> i \<Longrightarrow> fst (?s ! i) \<le> fst (?s ! n)" using desc i by blast
qed simp

fun first_lowest :: "(f32 \<times> string) list \<Rightarrow> nat" where
  "first_lowest [] = 0"
| "first_lowest [x] = 0"
| "first_lowest (x # y # ys) = (let i = first_lowest (y # ys) in if fst ((y # ys) ! i) < fst x then i + 1 else 0)"

lemma first_lowest: "xs \<noteq> [] \<Longrightarrow> first_lowest xs < length xs \<and> (\<forall>x\<in>set xs. fst (xs ! first_lowest xs) \<le> fst x)"
proof (induction xs rule: first_lowest.induct)
  case (3 x y ys)
  let ?i = "first_lowest (y # ys)"
  have IH: "?i < length (y # ys)" "\<forall>z\<in>set (y # ys). fst ((y # ys) ! ?i) \<le> fst z" using 3 by simp_all
  show ?case
  proof (cases "fst ((y # ys) ! ?i) < fst x")
    case True
    with IH show ?thesis by (auto simp: Let_def)
  next
    case False
    with IH show ?thesis by (auto simp: Let_def not_less intro: order.trans)
  qed
qed simp_all

lemma lowest_on_top_first: "lowest_on_top first_lowest"
  using first_lowest by (simp add: lowest_on_top_def)

text \<open>A budget of 210 bytes: a vector of one dimension under a one-letter id takes 68.\<close>

definition v :: "nat \<Rightarrow> f32 list" where
  "v n = [F32 (of_nat n)]"

definition start :: budget where
  "start = snd (with_budget (budget_new 210))"

definition filled :: "string \<Rightarrow> (string \<times> f32 list) list \<Rightarrow> budget \<Rightarrow> budget" where
  "filled q vs b = snd (hydrate_partition sample_floats 1 q vs b)"

definition three :: budget where
  "three = filled ''r'' [(''c'', v 7)] (filled ''q'' [(''b'', v 5)] (filled ''p'' [(''a'', v 3)] start))"

lemma filled_reachable:
  "cache_reachable by_sorting sample_floats 210 b \<Longrightarrow> cache_reachable by_sorting sample_floats 210 (filled q vs b)"
  unfolding filled_def by (rule cache_reachable.hydrate)

lemma start_reachable: "cache_reachable by_sorting sample_floats 210 start"
  unfolding start_def by (intro cache_reachable.intros)

lemma three_reachable: "cache_reachable by_sorting sample_floats 210 three"
  unfolding three_def by (intro filled_reachable start_reachable)

lemma three_in_memory:
  "map pa_last_used (map snd (bu_partitions three)) = [1, 2, 3] \<and> map fst (bu_partitions three) = [(1, ''p''), (1, ''q''), (1, ''r'')]"
  by code_simp

theorem vector_cache_accounts_witness:
  "bu_used three = sum_list (map (\<lambda>(_, p). sum_list (map held_bytes (pa_vectors p))) (bu_partitions three))
    \<and> length (bu_partitions three) = 3 \<and> bu_used three = 204"
proof (intro conjI)
  show "length (bu_partitions three) = 3" "bu_used three = 204" by code_simp+
qed (use vector_cache_accounts [OF three_reachable] in simp)

lemma hydrating_p: "hydrate_partition sample_floats 1 ''p'' [(''a'', v 3)] start = (Inr (), filled ''p'' [(''a'', v 3)] start)"
proof -
  have "fst (hydrate_partition sample_floats 1 ''p'' [(''a'', v 3)] start) = Inr ()" by code_simp
  then show ?thesis by (simp add: filled_def prod_eq_iff)
qed

theorem vector_cache_refines_maps_witness:
  "view (filled ''p'' [(''a'', v 3)] start) (1, ''p'') = Some [''a'' \<mapsto> [3]]"
proof -
  have "view (filled ''p'' [(''a'', v 3)] start) (1, ''p'') =
      Some (map_of (rev (map (\<lambda>(x, v). (x, map (f_to_f16 sample_floats) v)) [(''a'', v 3)])))"
    using vector_cache_refines_maps [OF start_reachable, of 1 "''p''" "[(''a'', v 3)]"] hydrating_p by fastforce
  then show ?thesis by (simp add: sample_floats_def v_def)
qed

lemma hydrating_s: "hydrate_partition sample_floats 1 ''s'' [(''d'', v 9)] three = (Inr (), filled ''s'' [(''d'', v 9)] three)"
proof -
  have "fst (hydrate_partition sample_floats 1 ''s'' [(''d'', v 9)] three) = Inr ()" by code_simp
  then show ?thesis by (simp add: filled_def prod_eq_iff)
qed

theorem least_recently_used_go_first_witness:
  "\<exists>p p'. map_of (bu_partitions three) (1, ''p'') = Some p
    \<and> map_of (bu_partitions (filled ''s'' [(''d'', v 9)] three)) (1, ''q'') = Some p'
    \<and> pa_last_used p < pa_last_used p' \<and> ''p'' \<in> set (im_evicted (meta_of (filled ''s'' [(''d'', v 9)] three) 1))"
proof -
  let ?c = "filled ''s'' [(''d'', v 9)] three"
  have "\<not> Option.is_none (map_of (bu_partitions three) (1, ''p''))"
      "\<not> Option.is_none (map_of (bu_partitions ?c) (1, ''q''))" by code_simp+
  then obtain p p' where "map_of (bu_partitions three) (1, ''p'') = Some p" "map_of (bu_partitions ?c) (1, ''q'') = Some p'"
    by (auto simp: Option.is_none_def)
  moreover have "Option.is_none (map_of (bu_partitions ?c) (1, ''p''))" by code_simp
  then have "map_of (bu_partitions ?c) (1, ''p'') = None" by (simp add: Option.is_none_def)
  ultimately show ?thesis
    using least_recently_used_go_first [OF three_reachable hydrating_s, of "(1, ''p'')" p "(1, ''q'')" p'] by auto
qed

definition two_vectors :: budget where
  "two_vectors = filled ''p'' [(''a'', v 3), (''b'', v 5)] start"

theorem search_returns_best_witness:
  "\<exists>hits c. search_filtered by_sorting sample_floats 1 ''p'' (v 1) 1 (\<lambda>_. True) two_vectors = (Some hits, c)
    \<and> length hits = 1 \<and> distinct (map fst hits)"
proof -
  have reach: "cache_reachable by_sorting sample_floats 210 two_vectors"
    unfolding two_vectors_def by (intro filled_reachable start_reachable)
  have "case map_of (bu_partitions two_vectors) (1, ''p'') of None \<Rightarrow> False
      | Some p \<Rightarrow> length (candidates sample_floats p (v 1) (\<lambda>_. True)) = 2" by code_simp
  then obtain p where p: "map_of (bu_partitions two_vectors) (1, ''p'') = Some p"
      "length (candidates sample_floats p (v 1) (\<lambda>_. True)) = 2"
    by (auto split: option.splits)
  then obtain hits c where hits: "search_filtered by_sorting sample_floats 1 ''p'' (v 1) 1 (\<lambda>_. True) two_vectors = (Some hits, c)"
      "map snd hits = take 1 (rev (sort (map snd (candidates sample_floats p (v 1) (\<lambda>_. True)))))" "distinct (map fst hits)"
    using search_returns_best [OF reach selects_by_sorting, of 1 "''p''" "v 1" 1 "\<lambda>_. True"] by auto
  have "length hits = 1" using arg_cong [OF hits(2), of length] p(2) by simp
  with hits show ?thesis by blast
qed

theorem streamed_search_agrees_witness:
  "map snd (into_sorted (collect_all first_lowest 1 (candidates sample_floats
      (build_partition sample_floats [(''a'', v 3), (''b'', v 5)]) (v 1) (\<lambda>_. True))))
    = map snd (top_k by_sorting sample_floats
      (build_partition sample_floats [(''a'', v 3), (''b'', v 5)]) (v 1) 1 (\<lambda>_. True))"
  by (rule streamed_search_agrees [OF lowest_on_top_first selects_by_sorting])

section \<open>Two flaws\<close>

text \<open>
  A vector removed while its partition is out of memory stays in the total for good: the coverage
  counts two vectors of the partition after it was hydrated with the one that is left.
\<close>

lemma removal_out_of_memory_is_not_counted:
  "let full = filled ''q'' [(''c'', v 7), (''d'', v 9)] two_vectors;
       again = filled ''p'' [(''b'', v 5)] (index_remove 1 ''p'' ''a'' full)
   in coverage 1 again = \<lparr> vc_hydrated = 3, vc_total = 4, vc_evicted_partitions = 0 \<rparr>"
  by code_simp

text \<open>Vectors inserted into the only partition in memory exceed the budget.\<close>

lemma budget_is_exceeded:
  "let b = snd (index_upsert sample_floats 1 ''p'' ''d'' (v 9) (snd (index_upsert sample_floats 1 ''p'' ''c'' (v 7) two_vectors)))
   in cache_reachable by_sorting sample_floats 210 b \<and> bu_limit b < bu_used b"
proof -
  have "cache_reachable by_sorting sample_floats 210 two_vectors"
    unfolding two_vectors_def by (intro filled_reachable start_reachable)
  then show ?thesis
    unfolding Let_def by (intro conjI cache_reachable.upsert) (assumption, code_simp)
qed

end
