(* ===== verification/Spec2Isabelle.thy ===== *)
theory Spec2Isabelle
  imports Sample_Migration Sample_Compaction Sample_Apps Sample_Runtime Sample_Guests Sample_Keys Sample_Custody Sample_Files Sample_Vectors
begin

text \<open>
  Rooms: a small server in which a host and invited guests share one conversation with a local
  language model, and the crypto and sidecar crates it is built on. This library models the Rust
  code under src/backend and src/crates/core and proves what makes it correct.

  \<^bold>\<open>The program and its parts\<close>

  \<^item> The rooms store (backend/src/store.rs) keeps rooms, participants, invites, sessions, messages and
    runs in SQLite, every text of a user sealed. The theories are Room\_Limits (limits.rs), Room\_Types
    (model.rs), Room\_Db (the tables and the statements on them), Room\_Store (reading) and Room\_Ops (writing).
    A database is a record of row lists, one per table; a statement is a function on it that fails
    where a constraint of the schema does; a transaction is \<open>atomically\<close>, which keeps the old database
    on an error. Every public method of the store is one definition with the name of the method.
  \<^item> The runtime (backend/src/inference.rs, realtime.rs) accepts turns, runs one generation task per
    accepted turn and publishes events. Room\_Runtime has its state (store, map of active runs, tasks,
    what was published) and the steps of the handlers and of a task.
  \<^item> The HTTP surface (backend/src/api.rs, main.rs) is Room\_Api: the routes, the bearer gate, the guest
    cookie and the guest event stream. Sidecar has what it uses of sidecar-runtime/src/lib.rs.
  \<^item> The model stream client (app-events/src/lib.rs) is Model\_Stream: request validation, server-sent
    event framing, and the items a response yields.
  \<^item> The crypto crate: Content\_Crypto (content.rs), Store\_Seal (plugin\_keys/store\_seal.rs), Field\_Cipher
    (lib.rs, the ciphers for single values), Process\_Keys (process\_keys.rs) and Secret\_Sealer
    (sealed.rs, secret\_file.rs).
  \<^item> The master key: Key\_Ladder (lib.rs: environment, keychain, key file), Key\_Custody (custody.rs: the record of
    the folder's key, the vault of retired keys, resolution) and Key\_Changes (custody.rs: adoption, retirement,
    key bundles, recovered folders). The world is what the keyring and the data folder hold; every file
    operation may fail, and another process may publish a key file in between.

  \<^item> Sealed files: Sealed\_File (sealed\_file.rs: chunked files read at random positions, sealing in place),
    Sealed\_Log (sealed\_log.rs: append-only logs and their recovery) and Log\_Compaction (a log made a file). A
    file is its bytes; a write that fails leaves a prefix, and what a disk gives back may differ.
  \<^item> The vector index (vector\_index.rs) is Vector\_Index: partitions of vectors under one budget of bytes, evicted
    least recently used first, and searching them. The arithmetic of floats is a parameter.
  \<^item> Sealing the columns of a SQLite store (content\_sqlite.rs) is Content\_Sqlite, over the values and their order in
    Sql\_Values: column plans, the state table and its cursors, the record of the store's key, and the
    migration that seals every value in batches. A run takes what other connections do between its
    transactions, and which transactions fail, as an argument; the order of text keys is bytewise.

  \<^item> After a migration (content\_sqlite.rs): Content\_Compaction zero-fills the pages it freed and compacts the file, or
    records that it is owed; Compaction\_Queue is the queue of compactions left to a background thread; and
    Store\_Probes is what key custody reads from the databases. The pages of a file are a parameter,
    the record \<open>pager\<close>, with what SQLite documents of them as \<open>pager_laws\<close>; any statement may fail.
  \<^item> App\_Key (app\_key.rs) resolves the key of an app slot; Content\_Keys (content.rs, the constructors a process
    uses) makes content ciphers of a host's, an app's or a delivered key; Blind\_Index (blind\_index.rs) tokenizes
    text and makes the tokens by which sealed text is searched.

  Prelude has the error and state combinators (\<open>bindE\<close>, \<open>bindS\<close>, \<open>atomically\<close>), Rust\_Text what the
  code uses of Rust's strings (a string is its UTF-8 bytes, as a list of 8-bit characters), Platform the
  functions of third-party crates as one record \<open>platform\<close>, an argument of the definitions, with
  the documented laws (\<open>aead_laws\<close>, \<open>b64_laws\<close>, ...) that theorems assume. \<open>draws\<close> is what one call
  draws from its environment: uuids, nonces, random bytes, clock readings and failing writes.

  \<^bold>\<open>What the lemmas show\<close>

  \<^item> Room\_Inv, Room\_Steps, Room\_Contracts: the invariant \<open>db_inv\<close> of the database, kept by every operation,
    and \<open>reachable\<close>, the stores any sequence of calls and restarts leads to. Room\_Effects has what each
    operation may change; Room\_Runs, Room\_Turns, Room\_Output, Room\_Replies and Room\_Sessions the
    functional behaviour of turns, output, replies, invites and sessions.
  \<^item> Room\_Live, Room\_Settled, Room\_Generations, Room\_Delivery: the runtime's state machine \<open>rt_step\<close>. One
    handler, and one turn of a task's loop, is one step, so that every interleaving at the await points
    between them is covered; a handler is not interrupted by another at its own await points. At most one
    generation serves a room; a completed generation delivers its text.
  \<^item> Room\_Guests: the gate, the cookie, the event stream and what a guest who was cut off gets.
  \<^item> Key\_Ladder, Custody\_Safety and Custody\_Adopt: a folder is opened with its recorded key only, no key is
    made up over sealed data, and no operation loses a key it could read (with the one exception
    Sample\_Custody has an example of).
  \<^item> Sealed\_Log: a log refines a list of records, loses none to a crash, and reads only as what was sealed for it.
    File\_Contents: a sealed file is its plaintext, range by range; sealing in place never loses it.
  \<^item> Vector\_Cache: the accounts of the vector cache and its refinement to maps; Vector\_Search: a search finds the
    best scores.
  \<^item> Migration\_Cells, Migration\_Batches, Content\_Migration, Migration\_Runs: sealing a value keeps what is read from it;
    a batch visits the next rows exactly once; an item ends; and a run of several plans ends, stays
    resumable, loses nothing and owes the scrub, wherever it fails. Between the transactions of the run
    no other connection writes (\<open>idle\<close>).
  \<^item> Compaction\_Record: however finishing a store or a later start's work ends, the store's record of it is true,
    also after an interrupted migration; every operation is described by a triple \<open>ends\<close> with a
    precondition, a postcondition and that invariant. Compaction\_Queue: a queued job has a worker.
  \<^item> App\_Key: resolving a slot orphans no key. Blind\_Index: a search finds exactly the texts that have its terms.
    Store\_Probes: when the probe passes a key.
  \<^item> The interfaces are locales: \<open>sealer\<close> (Store\_Seal) for what seals and opens values, interpreted on
    the store seal and on the field, plugin and tenant ciphers; \<open>secret_sealing\<close> (Secret\_Sealer) for
    the SecretSealer trait, interpreted on its three implementations.
  \<^item> Sample\_Platform, Sample\_Rooms, Room\_Witnesses, Sample\_Runtime, Sample\_Guests, Sample\_Keys, Sample\_Custody,
    Sample\_Files, Sample\_Vectors, Sample\_Migration, Sample\_Compaction and Sample\_Apps apply the
    theorems to concrete platforms, stores and keys.

  \<^bold>\<open>Bounds\<close>

  There is no fuel. The recursions are structural or on the length of a list; the receive loop of a
  generation and the guest event loop run once per element of the list of what they receive. The loop
  over the batches of a migration is a partial function, whose value \<open>None\<close> is not returning; it is
  proved to return. A batch has 500 rows, as in the code. The scrub's loop over chunks ends because
  every chunk is at least one byte.

  \<^bold>\<open>Not modelled\<close>

  \<^item> SQLite's own failures, files and locks, except transactions that fail in the migration and
    statements that fail in the compaction.
  \<^item> HTTP and JSON themselves (axum, reqwest, serde): a handler gets its decoded body.
  \<^item> The plugin key service, the sidecar handoff, the event and usage emitters.
  \<^item> The user interface and the scripts, which are not Rust.
\<close>

end
